(* ===== verification/Prelude.thy ===== *)
theory Prelude
  imports Main "HOL-Library.Word" "HOL-Library.Signed_Division"
begin

text \<open>
  What every component of the model shares: the result type that stands for
  \<^verbatim>\<open>PyResult<T>\<close> (\<^verbatim>\<open>src/src/runtime/Value.hpp\<close>) together with the ways a C++ run can
  stop for good (\<^verbatim>\<open>src/src/utilities.hpp\<close>), a small weakest-precondition calculus over
  that type, the ranges of the machine integers, and generic facts on lists and integers.
\<close>

section \<open>Results\<close>

text \<open>
  \<open>fault\<close> lists the ways a run of the C++ program stops without a Python level result:
  a failed \<^verbatim>\<open>ASSERT\<close>, a \<^verbatim>\<open>TODO()\<close>, an \<^verbatim>\<open>ASSERT_NOT_REACHED()\<close>, a division by zero
  inside GMP, and behaviour the C++ standard leaves undefined (a read past the end of a string,
  \<^verbatim>\<open>top()\<close> of an empty stack, an iterator out of range).
\<close>

datatype fault = Assertion | Todo | NotReached | DivideByZero | Undefined

text \<open>The Python exceptions the modelled code raises (the message texts are left out).\<close>

datatype py_exception =
  TypeError | ValueError | IndexError | KeyError | StopIteration | MemoryError | NotImplementedError

datatype 'a py_result = Ok 'a | Err py_exception | Abort fault

primrec is_ok :: "'a py_result \<Rightarrow> bool" where
  "is_ok (Ok x) = True"
| "is_ok (Err e) = False"
| "is_ok (Abort f) = False"

text \<open>\<^verbatim>\<open>PyResult::unwrap\<close> asserts that the result is not an error.\<close>

primrec unwrap :: "'a py_result \<Rightarrow> 'a py_result" where
  "unwrap (Ok x) = Ok x"
| "unwrap (Err e) = Abort Assertion"
| "unwrap (Abort f) = Abort f"

primrec and_then :: "'a py_result \<Rightarrow> ('a \<Rightarrow> 'b py_result) \<Rightarrow> 'b py_result" where
  "and_then (Ok x) f = f x"
| "and_then (Err e) f = Err e"
| "and_then (Abort a) f = Abort a"

primrec or_else :: "'a py_result \<Rightarrow> (py_exception \<Rightarrow> 'a py_result) \<Rightarrow> 'a py_result" where
  "or_else (Ok x) f = Ok x"
| "or_else (Err e) f = f e"
| "or_else (Abort a) f = Abort a"

text \<open>\<^verbatim>\<open>ASSERT(c)\<close> before the rest of a body, and the short-circuit \<^verbatim>\<open>&&\<close> and \<^verbatim>\<open>||\<close> of
  operands that can themselves stop the run.\<close>

definition assert_that :: "bool \<Rightarrow> 'a py_result \<Rightarrow> 'a py_result" where
  "assert_that c r = (if c then r else Abort Assertion)"

definition and_also :: "bool py_result \<Rightarrow> bool py_result \<Rightarrow> bool py_result" where
  "and_also a b = and_then a (\<lambda>x. if x then b else Ok False)"

definition or_also :: "bool py_result \<Rightarrow> bool py_result \<Rightarrow> bool py_result" where
  "or_also a b = and_then a (\<lambda>x. if x then Ok True else b)"

named_theorems result_simps \<open>inversion of computations that return\<close>

lemma and_then_eq_Ok [result_simps]:
  "and_then m f = Ok y \<longleftrightarrow> (\<exists>x. m = Ok x \<and> f x = Ok y)"
  by (cases m) auto

lemma and_then_cong [fundef_cong]:
  "m = n \<Longrightarrow> (\<And>x. n = Ok x \<Longrightarrow> f x = g x) \<Longrightarrow> and_then m f = and_then n g"
  by (cases n) auto

lemma and_then_assoc: "and_then (and_then m f) g = and_then m (\<lambda>x. and_then (f x) g)"
  by (cases m) auto

lemma and_then_Ok [simp]: "and_then m Ok = m"
  by (cases m) auto

lemma unwrap_eq_Ok [result_simps]: "unwrap m = Ok y \<longleftrightarrow> m = Ok y"
  by (cases m) auto

lemma assert_that_eq_Ok [result_simps]: "assert_that c r = Ok y \<longleftrightarrow> c \<and> r = Ok y"
  by (simp add: assert_that_def)

lemma and_also_eq_Ok [result_simps]:
  "and_also a b = Ok y \<longleftrightarrow> (a = Ok False \<and> \<not> y) \<or> (a = Ok True \<and> b = Ok y)"
  by (cases a) (auto simp: and_also_def)

lemma or_also_eq_Ok [result_simps]:
  "or_also a b = Ok y \<longleftrightarrow> (a = Ok True \<and> y) \<or> (a = Ok False \<and> b = Ok y)"
  by (cases a) (auto simp: or_also_def)

subsection \<open>Weakest preconditions\<close>

text \<open>
  \<open>wp m P\<close>: if \<open>m\<close> returns, its value satisfies \<open>P\<close> (errors and faults satisfy
  everything). \<open>returns m P\<close> adds that \<open>m\<close> does return.
\<close>

primrec wp :: "'a py_result \<Rightarrow> ('a \<Rightarrow> bool) \<Rightarrow> bool" where
  "wp (Ok x) P = P x"
| "wp (Err e) P = True"
| "wp (Abort a) P = True"

definition returns :: "'a py_result \<Rightarrow> ('a \<Rightarrow> bool) \<Rightarrow> bool" where
  "returns m P \<longleftrightarrow> is_ok m \<and> wp m P"

named_theorems wp_rules \<open>specifications of operations, in weakest precondition form\<close>

lemma wp_and_then [simp]: "wp (and_then m f) P = wp m (\<lambda>x. wp (f x) P)"
  by (cases m) auto

lemma wp_if [simp]: "wp (if c then m else n) P = (if c then wp m P else wp n P)"
  by simp

lemma wp_unwrap [simp]: "wp (unwrap m) P = wp m P"
  by (cases m) auto

lemma wp_assert_that [simp]: "wp (assert_that c r) P \<longleftrightarrow> (c \<longrightarrow> wp r P)"
  by (simp add: assert_that_def)

lemma wp_and_also [simp]:
  "wp (and_also a b) P = wp a (\<lambda>x. if x then wp b P else P False)"
  by (cases a) (auto simp: and_also_def)

lemma wp_or_also [simp]:
  "wp (or_also a b) P = wp a (\<lambda>x. if x then P True else wp b P)"
  by (cases a) (auto simp: or_also_def)

lemma wp_mono: "wp m P \<Longrightarrow> (\<And>x. P x \<Longrightarrow> Q x) \<Longrightarrow> wp m Q"
  by (cases m) auto

lemma wp_iff: "wp m P \<longleftrightarrow> (\<forall>x. m = Ok x \<longrightarrow> P x)"
  by (cases m) auto

lemma wpI: "(\<And>x. m = Ok x \<Longrightarrow> P x) \<Longrightarrow> wp m P"
  by (simp add: wp_iff)

lemma wpD: "wp m P \<Longrightarrow> m = Ok x \<Longrightarrow> P x"
  by simp

lemma returns_iff: "returns m P \<longleftrightarrow> (\<exists>x. m = Ok x \<and> P x)"
  by (cases m) (auto simp: returns_def)

section \<open>Machine integers\<close>

text \<open>
  \<^verbatim>\<open>int64_t\<close> values are integers within the range below; \<open>in_int64\<close> is also GMP's
  \<^verbatim>\<open>fits_slong_p\<close> on the LP64 platforms the project builds for, and \<open>in_uint64\<close> is
  \<^verbatim>\<open>fits_ulong_p\<close>. \<open>to_int64\<close> is the wrap-around of a conversion to \<^verbatim>\<open>int64_t\<close>.
\<close>

abbreviation int64_max :: int where "int64_max \<equiv> 9223372036854775807"
abbreviation int64_min :: int where "int64_min \<equiv> - 9223372036854775808"

definition in_int64 :: "int \<Rightarrow> bool" where
  "in_int64 v \<longleftrightarrow> int64_min \<le> v \<and> v \<le> int64_max"

definition in_uint64 :: "int \<Rightarrow> bool" where
  "in_uint64 v \<longleftrightarrow> 0 \<le> v \<and> v \<le> 18446744073709551615"

definition to_int64 :: "int \<Rightarrow> int" where
  "to_int64 v = (v + 2 ^ 63) mod 2 ^ 64 - 2 ^ 63"

lemma to_int64_id: "in_int64 v \<Longrightarrow> to_int64 v = v"
  by (simp add: to_int64_def in_int64_def)

lemma in_int64_to_int64: "in_int64 (to_int64 v)"
proof -
  have "0 \<le> (v + 2 ^ 63) mod 2 ^ 64" and "(v + 2 ^ 63) mod 2 ^ 64 < 2 ^ 64"
    by simp_all
  then show ?thesis by (simp add: to_int64_def in_int64_def)
qed

section \<open>Lists\<close>

lemma take_Suc_drop: "n < length xs \<Longrightarrow> drop n xs = xs ! n # drop (Suc n) xs"
  by (simp add: Cons_nth_drop_Suc)

lemma length_takeWhile_nth:
  "n \<le> length xs \<Longrightarrow> (\<And>i. i < n \<Longrightarrow> P (xs ! i)) \<Longrightarrow> n \<le> length (takeWhile P xs)"
proof (induction xs arbitrary: n)
  case Nil
  then show ?case by simp
next
  case (Cons x xs)
  show ?case
  proof (cases n)
    case 0
    then show ?thesis by simp
  next
    case (Suc m)
    have "P x" using Cons.prems(2) [of 0] Suc by simp
    moreover have "m \<le> length (takeWhile P xs)"
    proof (rule Cons.IH)
      show "m \<le> length xs" using Cons.prems(1) Suc by simp
      show "P (xs ! i)" if "i < m" for i
        using Cons.prems(2) [of "Suc i"] that Suc by simp
    qed
    ultimately show ?thesis using Suc by simp
  qed
qed

end
