(* ===== verification/Numbers.thy ===== *)
theory Numbers
  imports Prelude
begin

text \<open>
  Numbers as Python objects: the slots of \<^verbatim>\<open>PyNumber\<close> (\<^verbatim>\<open>src/src/runtime/PyNumber.cpp\<close>) and the
  integer operations of \<^verbatim>\<open>PyInteger\<close> (\<^verbatim>\<open>src/src/runtime/PyInteger.cpp\<close>), on the values the
  objects hold. A GMP \<^verbatim>\<open>mpz_class\<close> is an \<open>int\<close>; \<^verbatim>\<open>operator/\<close> and \<^verbatim>\<open>operator%\<close> of
  \<^verbatim>\<open>mpz_class\<close> round towards zero (\<open>sdiv\<close>, \<open>smod\<close>), \<^verbatim>\<open>operator>>\<close> and
  \<^verbatim>\<open>mpz_fdiv_qr\<close> round down (\<open>div\<close>, \<open>mod\<close>), and a zero divisor is a fault.
  A C++ \<^verbatim>\<open>double\<close> is a parameter type \<open>'f\<close> with its operations in a record.
  Where an operation allocates its result, the allocation itself is the business of theory
  \<open>Tagged\<close>; here a result is the new object's value.
\<close>

unbundle bit_operations_syntax

section \<open>Objects\<close>

datatype 'f py_object =
    PyInteger int
  | PyBool bool
  | PyFloat 'f
  | PyNone
  | PyNotImplemented
  | PyString string
  | PyBytes "8 word list"
  | PyTuple "'f py_object list"
  | PyOther nat \<comment> \<open>an object of a type that is not modelled here\<close>

record 'f double_ops =
  of_mpz :: "int \<Rightarrow> 'f"            \<comment> \<open>\<^verbatim>\<open>mpz_class::get_d\<close>\<close>
  dadd :: "'f \<Rightarrow> 'f \<Rightarrow> 'f"
  dsub :: "'f \<Rightarrow> 'f \<Rightarrow> 'f"
  dmul :: "'f \<Rightarrow> 'f \<Rightarrow> 'f"
  ddiv :: "'f \<Rightarrow> 'f \<Rightarrow> 'f"
  dremainder :: "'f \<Rightarrow> 'f \<Rightarrow> 'f"   \<comment> \<open>\<^verbatim>\<open>std::remainder\<close>\<close>
  dfloor :: "'f \<Rightarrow> 'f"
  dneg :: "'f \<Rightarrow> 'f"
  dabs :: "'f \<Rightarrow> 'f"
  deq :: "'f \<Rightarrow> 'f \<Rightarrow> bool"
  dlt :: "'f \<Rightarrow> 'f \<Rightarrow> bool"
  mpz_eq_d :: "int \<Rightarrow> 'f \<Rightarrow> bool"  \<comment> \<open>comparisons of an \<^verbatim>\<open>mpz_class\<close> with a \<^verbatim>\<open>double\<close>\<close>
  mpz_lt_d :: "int \<Rightarrow> 'f \<Rightarrow> bool"
  mpz_gt_d :: "int \<Rightarrow> 'f \<Rightarrow> bool"
  dzero :: "'f \<Rightarrow> bool"             \<comment> \<open>\<^verbatim>\<open>fpclassify(x) == FP_ZERO\<close>\<close>

text \<open>
  \<^verbatim>\<open>PyNumber::as_number\<close> accepts subclasses of \<^verbatim>\<open>float\<close> and \<^verbatim>\<open>int\<close>, hence \<^verbatim>\<open>bool\<close>;
  \<^verbatim>\<open>as<PyInteger>\<close> and \<^verbatim>\<open>as<PyFloat>\<close> compare the exact type, so a \<^verbatim>\<open>bool\<close> is neither.
\<close>

fun is_number :: "'f py_object \<Rightarrow> bool" where
  "is_number (PyFloat x) = True"
| "is_number (PyInteger n) = True"
| "is_number (PyBool b) = True"
| "is_number _ = False"

text \<open>\<open>as_big_int\<close>: the value of an instance of \<^verbatim>\<open>int\<close> or a subclass (\<^verbatim>\<open>issubclass\<close>).\<close>

fun as_big_int :: "'f py_object \<Rightarrow> int option" where
  "as_big_int (PyInteger n) = Some n"
| "as_big_int (PyBool b) = Some (of_bool b)"
| "as_big_int _ = None"

definition py_bool :: "bool \<Rightarrow> 'f py_object" where
  "py_bool b = PyBool b"

section \<open>GMP\<close>

definition mpz_tdiv_q :: "int \<Rightarrow> int \<Rightarrow> int py_result" where
  "mpz_tdiv_q a b = (if b = 0 then Abort DivideByZero else Ok (a sdiv b))"

definition mpz_tdiv_r :: "int \<Rightarrow> int \<Rightarrow> int py_result" where
  "mpz_tdiv_r a b = (if b = 0 then Abort DivideByZero else Ok (a smod b))"

text \<open>\<^verbatim>\<open>get_ui\<close> drops the sign and keeps the low 64 bits of the absolute value.\<close>

definition mpz_get_ui :: "int \<Rightarrow> nat" where
  "mpz_get_ui v = nat (\<bar>v\<bar> mod 2 ^ 64)"

text \<open>\<^verbatim>\<open>mpz_sizeinbase(v, 2)\<close>: the number of binary digits, 1 for zero.\<close>

fun binary_digits :: "nat \<Rightarrow> nat" where
  "binary_digits n = (if n < 2 then 1 else Suc (binary_digits (n div 2)))"

declare binary_digits.simps [simp del]

fun popcount :: "nat \<Rightarrow> nat" where
  "popcount n = (if n = 0 then 0 else n mod 2 + popcount (n div 2))"

declare popcount.simps [simp del]

section \<open>PyNumber\<close>

fun PyNumber_abs :: "'f double_ops \<Rightarrow> 'f py_object \<Rightarrow> 'f py_object py_result" where
  "PyNumber_abs D (PyInteger a) = Ok (PyInteger \<bar>a\<bar>)"
| "PyNumber_abs D (PyFloat x) = Ok (PyFloat (dabs D x))"
| "PyNumber_abs D _ = Abort Todo"

fun PyNumber_neg :: "'f double_ops \<Rightarrow> 'f py_object \<Rightarrow> 'f py_object py_result" where
  "PyNumber_neg D (PyInteger a) = Ok (PyInteger (- a))"
| "PyNumber_neg D (PyFloat x) = Ok (PyFloat (dneg D x))"
| "PyNumber_neg D _ = Abort Todo"

fun PyNumber_pos :: "'f py_object \<Rightarrow> 'f py_object py_result" where
  "PyNumber_pos (PyInteger a) = Ok (PyInteger a)"
| "PyNumber_pos (PyFloat x) = Ok (PyFloat x)"
| "PyNumber_pos _ = Abort Todo"

fun PyNumber_invert :: "'f py_object \<Rightarrow> 'f py_object py_result" where
  "PyNumber_invert (PyInteger a) = Ok (PyInteger (NOT a))"
| "PyNumber_invert _ = Err TypeError"

text \<open>
  The arithmetic slots share one shape: \<open>rhs\<close> must be a number, both exact types select the
  branch, and everything else falls through to the final \<^verbatim>\<open>type_error\<close>.
\<close>

definition PyNumber_add ::
  "'f double_ops \<Rightarrow> 'f py_object \<Rightarrow> 'f py_object \<Rightarrow> 'f py_object py_result" where
  "PyNumber_add D lhs rhs =
     (case (lhs, rhs) of
        (PyInteger a, PyInteger b) \<Rightarrow> Ok (PyInteger (a + b))
      | (PyInteger a, PyFloat y) \<Rightarrow> Ok (PyFloat (dadd D (of_mpz D a) y))
      | (PyFloat x, PyInteger b) \<Rightarrow> Ok (PyFloat (dadd D x (of_mpz D b)))
      | (PyFloat x, PyFloat y) \<Rightarrow> Ok (PyFloat (dadd D x y))
      | _ \<Rightarrow> Err TypeError)"

definition PyNumber_sub ::
  "'f double_ops \<Rightarrow> 'f py_object \<Rightarrow> 'f py_object \<Rightarrow> 'f py_object py_result" where
  "PyNumber_sub D lhs rhs =
     (case (lhs, rhs) of
        (PyInteger a, PyInteger b) \<Rightarrow> Ok (PyInteger (a - b))
      | (PyInteger a, PyFloat y) \<Rightarrow> Ok (PyFloat (dsub D (of_mpz D a) y))
      | (PyFloat x, PyInteger b) \<Rightarrow> Ok (PyFloat (dsub D x (of_mpz D b)))
      | (PyFloat x, PyFloat y) \<Rightarrow> Ok (PyFloat (dsub D x y))
      | _ \<Rightarrow> Err TypeError)"

definition PyNumber_mod ::
  "'f double_ops \<Rightarrow> 'f py_object \<Rightarrow> 'f py_object \<Rightarrow> 'f py_object py_result" where
  "PyNumber_mod D lhs rhs =
     (case (lhs, rhs) of
        (PyInteger a, PyInteger b) \<Rightarrow> and_then (mpz_tdiv_r a b) (\<lambda>r. Ok (PyInteger r))
      | (PyInteger a, PyFloat y) \<Rightarrow> Ok (PyFloat (dremainder D (of_mpz D a) y))
      | (PyFloat x, PyInteger b) \<Rightarrow> Ok (PyFloat (dremainder D x (of_mpz D b)))
      | (PyFloat x, PyFloat y) \<Rightarrow> Ok (PyFloat (dremainder D x y))
      | _ \<Rightarrow> Err TypeError)"

definition PyNumber_divmod :: "'f py_object \<Rightarrow> 'f py_object \<Rightarrow> 'f py_object py_result" where
  "PyNumber_divmod lhs rhs =
     (if is_number rhs then
        (case (lhs, rhs) of
           (PyInteger a, PyInteger b) \<Rightarrow>
             if b = 0 then Err ValueError
             else Ok (PyTuple [PyInteger (a div b), PyInteger (a mod b)])
         | _ \<Rightarrow> Abort Todo)
      else Err TypeError)"

text \<open>\<^verbatim>\<open>__mul__\<close> alone answers \<^verbatim>\<open>NotImplemented\<close> where the others raise.\<close>

definition PyNumber_mul ::
  "'f double_ops \<Rightarrow> 'f py_object \<Rightarrow> 'f py_object \<Rightarrow> 'f py_object py_result" where
  "PyNumber_mul D lhs rhs =
     (case (lhs, rhs) of
        (PyInteger a, PyInteger b) \<Rightarrow> Ok (PyInteger (a * b))
      | (PyInteger a, PyFloat y) \<Rightarrow> Ok (PyFloat (dmul D (of_mpz D a) y))
      | (PyFloat x, PyInteger b) \<Rightarrow> Ok (PyFloat (dmul D x (of_mpz D b)))
      | (PyFloat x, PyFloat y) \<Rightarrow> Ok (PyFloat (dmul D x y))
      | _ \<Rightarrow> Ok PyNotImplemented)"

text \<open>
  \<^verbatim>\<open>__pow__\<close>: two-argument powers of exact integers only (the exponent's sign is dropped by
  \<^verbatim>\<open>get_ui\<close>); with a modulus, a null \<^verbatim>\<open>as<PyInteger>\<close> is dereferenced for anything else.
  \<open>powm\<close> stands for GMP's \<^verbatim>\<open>mpz_powm\<close>, which divides by zero where it has no answer.
\<close>

definition PyNumber_pow ::
  "(int \<Rightarrow> int \<Rightarrow> int \<Rightarrow> int option) \<Rightarrow> 'f py_object \<Rightarrow> 'f py_object \<Rightarrow> 'f py_object
   \<Rightarrow> 'f py_object py_result" where
  "PyNumber_pow powm lhs rhs m =
     (if is_number rhs then
        (case m of
           PyNone \<Rightarrow>
             (case (lhs, rhs) of
                (PyInteger a, PyInteger b) \<Rightarrow> Ok (PyInteger (a ^ mpz_get_ui b))
              | _ \<Rightarrow> Abort Todo)
         | _ \<Rightarrow>
             (if \<not> is_number m then Ok PyNotImplemented
              else (case (lhs, rhs, m) of
                      (PyInteger a, PyInteger b, PyInteger n) \<Rightarrow>
                        (case powm a b n of
                           Some r \<Rightarrow> Ok (PyInteger r)
                         | None \<Rightarrow> Abort DivideByZero)
                    | _ \<Rightarrow> Abort Undefined)))
      else Err TypeError)"

text \<open>
  \<^verbatim>\<open>__truediv__\<close>: an operand that is a number but not an exact \<^verbatim>\<open>int\<close> or \<^verbatim>\<open>float\<close>
  (a \<^verbatim>\<open>bool\<close>) keeps the initial value 0.0.
\<close>

fun to_double :: "'f double_ops \<Rightarrow> 'f py_object \<Rightarrow> 'f" where
  "to_double D (PyInteger a) = of_mpz D a"
| "to_double D (PyFloat x) = x"
| "to_double D _ = of_mpz D 0"

definition PyNumber_truediv ::
  "'f double_ops \<Rightarrow> 'f py_object \<Rightarrow> 'f py_object \<Rightarrow> 'f py_object py_result" where
  "PyNumber_truediv D lhs rhs =
     (if is_number rhs then Ok (PyFloat (ddiv D (to_double D lhs) (to_double D rhs)))
      else Err TypeError)"

definition PyNumber_floordiv ::
  "'f double_ops \<Rightarrow> 'f py_object \<Rightarrow> 'f py_object \<Rightarrow> 'f py_object py_result" where
  "PyNumber_floordiv D lhs rhs =
     (case (lhs, rhs) of
        (PyInteger a, PyInteger b) \<Rightarrow> and_then (mpz_tdiv_q a b) (\<lambda>q. Ok (PyInteger q))
      | (PyInteger a, PyFloat y) \<Rightarrow> Ok (PyFloat (dfloor D (ddiv D (of_mpz D a) y)))
      | (PyFloat x, PyInteger b) \<Rightarrow> Ok (PyFloat (dfloor D (ddiv D x (of_mpz D b))))
      | (PyFloat x, PyFloat y) \<Rightarrow> Ok (PyFloat (dfloor D (ddiv D x y)))
      | _ \<Rightarrow> Err TypeError)"

definition PyNumber_eq ::
  "'f double_ops \<Rightarrow> 'f py_object \<Rightarrow> 'f py_object \<Rightarrow> 'f py_object py_result" where
  "PyNumber_eq D lhs rhs =
     (case (lhs, rhs) of
        (PyInteger a, PyInteger b) \<Rightarrow> Ok (py_bool (a = b))
      | (PyInteger a, PyFloat y) \<Rightarrow> Ok (py_bool (mpz_eq_d D a y))
      | (PyFloat x, PyInteger b) \<Rightarrow> Ok (py_bool (mpz_eq_d D b x))
      | (PyFloat x, PyFloat y) \<Rightarrow> Ok (py_bool (deq D x y))
      | _ \<Rightarrow> Err TypeError)"

text \<open>\<^verbatim>\<open>__ne__\<close>, \<^verbatim>\<open>__le__\<close> and \<^verbatim>\<open>__ge__\<close> negate \<^verbatim>\<open>__eq__\<close>, \<^verbatim>\<open>__gt__\<close> and
  \<^verbatim>\<open>__lt__\<close>: the result is \<^verbatim>\<open>py_false()\<close> exactly for \<^verbatim>\<open>py_true()\<close>.\<close>

definition negate_bool :: "'f py_object \<Rightarrow> 'f py_object" where
  "negate_bool r = (case r of PyBool True \<Rightarrow> py_bool False | _ \<Rightarrow> py_bool True)"

definition PyNumber_ne ::
  "'f double_ops \<Rightarrow> 'f py_object \<Rightarrow> 'f py_object \<Rightarrow> 'f py_object py_result" where
  "PyNumber_ne D lhs rhs =
     (if is_number rhs then and_then (PyNumber_eq D lhs rhs) (\<lambda>r. Ok (negate_bool r))
      else Err TypeError)"

definition PyNumber_lt ::
  "'f double_ops \<Rightarrow> 'f py_object \<Rightarrow> 'f py_object \<Rightarrow> 'f py_object py_result" where
  "PyNumber_lt D lhs rhs =
     (case (lhs, rhs) of
        (PyInteger a, PyInteger b) \<Rightarrow> Ok (py_bool (a < b))
      | (PyInteger a, PyFloat y) \<Rightarrow> Ok (py_bool (mpz_lt_d D a y))
      | (PyFloat x, PyInteger b) \<Rightarrow> Ok (py_bool (mpz_gt_d D b x))
      | (PyFloat x, PyFloat y) \<Rightarrow> Ok (py_bool (dlt D x y))
      | _ \<Rightarrow> Err TypeError)"

definition PyNumber_gt ::
  "'f double_ops \<Rightarrow> 'f py_object \<Rightarrow> 'f py_object \<Rightarrow> 'f py_object py_result" where
  "PyNumber_gt D lhs rhs =
     (case (lhs, rhs) of
        (PyInteger a, PyInteger b) \<Rightarrow> Ok (py_bool (a > b))
      | (PyInteger a, PyFloat y) \<Rightarrow> Ok (py_bool (mpz_gt_d D a y))
      | (PyFloat x, PyInteger b) \<Rightarrow> Ok (py_bool (mpz_lt_d D b x))
      | (PyFloat x, PyFloat y) \<Rightarrow> Ok (py_bool (dlt D y x))
      | _ \<Rightarrow> Err TypeError)"

definition PyNumber_le ::
  "'f double_ops \<Rightarrow> 'f py_object \<Rightarrow> 'f py_object \<Rightarrow> 'f py_object py_result" where
  "PyNumber_le D lhs rhs =
     (if is_number rhs then and_then (PyNumber_gt D lhs rhs) (\<lambda>r. Ok (negate_bool r))
      else Err TypeError)"

definition PyNumber_ge ::
  "'f double_ops \<Rightarrow> 'f py_object \<Rightarrow> 'f py_object \<Rightarrow> 'f py_object py_result" where
  "PyNumber_ge D lhs rhs =
     (if is_number rhs then and_then (PyNumber_lt D lhs rhs) (\<lambda>r. Ok (negate_bool r))
      else Err TypeError)"

fun PyNumber_bool :: "'f double_ops \<Rightarrow> 'f py_object \<Rightarrow> bool py_result" where
  "PyNumber_bool D (PyInteger a) = Ok (a \<noteq> 0)"
| "PyNumber_bool D (PyFloat x) = Ok (\<not> dzero D x)"
| "PyNumber_bool D _ = Abort Todo"

section \<open>PyInteger\<close>

text \<open>\<^verbatim>\<open>as_i64\<close> and \<^verbatim>\<open>as_size_t\<close> assert that the value fits.\<close>

definition as_i64 :: "int \<Rightarrow> int py_result" where
  "as_i64 v = assert_that (in_int64 v) (Ok v)"

definition as_size_t :: "int \<Rightarrow> nat py_result" where
  "as_size_t v = assert_that (in_uint64 v) (Ok (nat v))"

text \<open>Hashing: the Python hash modulus is the prime \<open>2 ^ 61 - 1\<close>, and -1 is reserved.\<close>

abbreviation kPyHashModulus :: int where "kPyHashModulus \<equiv> 2305843009213693951"

definition normalize_python_hash :: "int \<Rightarrow> int" where
  "normalize_python_hash h = (if h = - 1 then - 2 else h)"

definition hash_big_int :: "int \<Rightarrow> int" where
  "hash_big_int v =
     (if v = 0 then 0
      else let h = \<bar>v\<bar> mod kPyHashModulus in
           normalize_python_hash (if v < 0 then - h else h))"

definition PyInteger_hash :: "int \<Rightarrow> int" where
  "PyInteger_hash v =
     (if v = 0 then 0
      else if in_int64 v \<and> - kPyHashModulus < v \<and> v < kPyHashModulus
           then normalize_python_hash v
      else hash_big_int v)"

definition PyInteger_and :: "int \<Rightarrow> 'f py_object \<Rightarrow> 'f py_object py_result" where
  "PyInteger_and a obj =
     (case as_big_int obj of None \<Rightarrow> Err TypeError | Some b \<Rightarrow> Ok (PyInteger (a AND b)))"

definition PyInteger_or :: "int \<Rightarrow> 'f py_object \<Rightarrow> 'f py_object py_result" where
  "PyInteger_or a obj =
     (case as_big_int obj of None \<Rightarrow> Err TypeError | Some b \<Rightarrow> Ok (PyInteger (a OR b)))"

definition PyInteger_xor :: "int \<Rightarrow> 'f py_object \<Rightarrow> 'f py_object py_result" where
  "PyInteger_xor a obj =
     (case as_big_int obj of None \<Rightarrow> Err TypeError | Some b \<Rightarrow> Ok (PyInteger (a XOR b)))"

definition PyInteger_lshift :: "int \<Rightarrow> 'f py_object \<Rightarrow> 'f py_object py_result" where
  "PyInteger_lshift a obj =
     (case as_big_int obj of
        None \<Rightarrow> Err TypeError
      | Some b \<Rightarrow> Ok (PyInteger (a * 2 ^ mpz_get_ui b)))"

text \<open>\<^verbatim>\<open>__rshift__\<close> alone compares the exact type: a \<^verbatim>\<open>bool\<close> count is refused.\<close>

definition PyInteger_rshift :: "int \<Rightarrow> 'f py_object \<Rightarrow> 'f py_object py_result" where
  "PyInteger_rshift a obj =
     (case obj of
        PyInteger b \<Rightarrow> Ok (PyInteger (a div 2 ^ mpz_get_ui b))
      | _ \<Rightarrow> Err TypeError)"

definition bit_length :: "int \<Rightarrow> 'f py_object py_result" where
  "bit_length v = Ok (PyInteger (int (binary_digits (nat \<bar>v\<bar>))))"

definition bit_count :: "int \<Rightarrow> 'f py_object py_result" where
  "bit_count v = Ok (PyInteger (int (popcount (nat \<bar>v\<bar>))))"

text \<open>
  \<^verbatim>\<open>mpz_export\<close> with one-byte words writes the bytes of the absolute value, none for zero.
  It writes as many as there are, whatever the size of the buffer.
\<close>

fun export_bytes :: "nat \<Rightarrow> 8 word list" where
  "export_bytes n = (if n = 0 then [] else of_nat (n mod 256) # export_bytes (n div 256))"

declare export_bytes.simps [simp del]

definition to_bytes :: "int \<Rightarrow> 'f py_object list \<Rightarrow> 'f py_object py_result" where
  "to_bytes v args =
     (case args of
        [PyInteger len, PyString byteorder] \<Rightarrow>
          and_then (as_i64 len) (\<lambda>n.
            if n < 0 then Err TypeError
            else and_then (as_size_t len) (\<lambda>size.
              if byteorder \<noteq> ''little'' \<and> byteorder \<noteq> ''big'' then Err ValueError
              else let bytes = export_bytes (nat \<bar>v\<bar>); l = length bytes in
                if l > size then Abort Undefined
                else if byteorder = ''little'' then Ok (PyBytes (bytes @ replicate (size - l) 0))
                else Ok (PyBytes (replicate (size - l) 0 @ rev bytes))))
      | _ \<Rightarrow> Err TypeError)"

text \<open>The accumulating loop of \<^verbatim>\<open>from_bytes\<close> over a \<^verbatim>\<open>uint64_t\<close>.\<close>

fun from_bytes_loop :: "64 word \<Rightarrow> nat \<Rightarrow> 8 word list \<Rightarrow> 64 word" where
  "from_bytes_loop acc i [] = acc"
| "from_bytes_loop acc i (b # bs) =
     from_bytes_loop (acc OR push_bit (i * 8) (ucast b)) (Suc i) bs"

definition from_bytes :: "'f py_object list \<Rightarrow> 'f py_object py_result" where
  "from_bytes args =
     (case args of
        [PyBytes bytes, PyString byteorder] \<Rightarrow>
          if byteorder \<noteq> ''little'' \<and> byteorder \<noteq> ''big'' then Err ValueError
          else if length bytes > 8 then Abort Todo
          else let value = from_bytes_loop 0 0 (if byteorder \<noteq> ''big'' then bytes else rev bytes) in
               assert_that (uint value < int64_max) (Ok (PyInteger (uint value)))
      | _ \<Rightarrow> Err TypeError)"

text \<open>\<^verbatim>\<open>__round__\<close>: the argument is a null pointer (\<open>None\<close>) or an object.\<close>

definition PyInteger_round :: "int \<Rightarrow> 'f py_object option \<Rightarrow> 'f py_object py_result" where
  "PyInteger_round v ndigits_obj =
     (case ndigits_obj of
        None \<Rightarrow> Ok (PyInteger v)
      | Some PyNone \<Rightarrow> Ok (PyInteger v)
      | Some obj \<Rightarrow>
          (case as_big_int obj of
             None \<Rightarrow> Err TypeError
           | Some ndigits \<Rightarrow>
               if ndigits \<ge> 0 then Ok (PyInteger v)
               else Ok (PyInteger (v - v mod 10 ^ mpz_get_ui (- ndigits)))))"

section \<open>Facts\<close>

lemma hash_fast_path: "PyInteger_hash v = hash_big_int v"
proof -
  have "\<bar>v\<bar> mod kPyHashModulus = \<bar>v\<bar>" if "- kPyHashModulus < v" "v < kPyHashModulus"
    using that by (intro mod_pos_pos_trivial) auto
  then show ?thesis
    by (auto simp: PyInteger_hash_def hash_big_int_def Let_def)
qed

lemma hash_big_int_range: "hash_big_int v \<noteq> - 1 \<and> \<bar>hash_big_int v\<bar> < kPyHashModulus"
proof -
  define h where "h = \<bar>v\<bar> mod kPyHashModulus"
  have "0 \<le> h" "h < kPyHashModulus"
    by (simp_all add: h_def)
  then show ?thesis
    unfolding hash_big_int_def Let_def h_def [symmetric] normalize_python_hash_def
    by auto
qed

text \<open>The bytes \<^verbatim>\<open>mpz_export\<close> writes, read back in base 256.\<close>

fun bytes_value :: "8 word list \<Rightarrow> nat" where
  "bytes_value [] = 0"
| "bytes_value (b # bs) = unat b + 256 * bytes_value bs"

lemma bytes_value_export: "bytes_value (export_bytes n) = n"
proof (induction n rule: export_bytes.induct)
  case (1 n)
  show ?case
  proof (cases "n = 0")
    case True
    then show ?thesis by (simp add: export_bytes.simps)
  next
    case False
    with "1.IH" have "bytes_value (export_bytes (n div 256)) = n div 256" by simp
    moreover have "unat (of_nat (n mod 256) :: 8 word) = n mod 256"
      by (simp add: unat_of_nat)
    ultimately show ?thesis using False
      by (subst export_bytes.simps) simp
  qed
qed

lemma bytes_value_replicate: "bytes_value (bs @ replicate k 0) = bytes_value bs"
proof -
  have "bytes_value (replicate k 0) = 0" by (induction k) auto
  then show ?thesis by (induction bs) auto
qed

lemma bytes_value_less: "bytes_value bs < 256 ^ length bs"
proof (induction bs)
  case (Cons b bs)
  have "unat b < 256" using unsigned_less [of b, where 'a = nat] by simp
  with Cons show ?case by simp
qed simp

lemma or_shifted_byte:
  fixes acc :: "64 word" and b :: "8 word"
  assumes i: "i < 8" and acc: "unat acc < 256 ^ i"
  shows "unat (acc OR push_bit (i * 8) (ucast b)) = unat acc + 256 ^ i * unat b"
proof -
  let ?y = "push_bit (i * 8) (ucast b :: 64 word)"
  have pow: "(256::nat) ^ i = 2 ^ (i * 8)"
    by (simp only: mult.commute [of i] power_mult) simp
  have b8: "unat b < 256" using unsigned_less [of b, where 'a = nat] by simp
  have tb: "take_bit (i * 8) acc = acc"
  proof (rule word_unat_eq_iff [THEN iffD2])
    show "unat (take_bit (i * 8) acc) = unat acc"
      using acc by (simp add: unsigned_take_bit_eq pow take_bit_nat_eq_self_iff)
  qed
  have "\<not> bit acc n" if "i * 8 \<le> n" for n
    using that by (subst tb [symmetric]) (simp add: bit_take_bit_iff)
  then have disj: "acc AND ?y = 0"
    by (intro bit_eqI) (auto simp: bit_and_iff bit_push_bit_iff)
  have le: "unat acc + 256 ^ i * unat b < (2::nat) ^ 64"
  proof -
    have "unat acc + 256 ^ i * unat b < 256 ^ i * Suc (unat b)" using acc by simp
    also have "\<dots> \<le> 256 ^ i * 256" using b8 by (intro mult_le_mono2) simp
    also have "\<dots> = (256::nat) ^ Suc i" by simp
    also have "\<dots> \<le> 256 ^ 8" using i by (intro power_increasing) auto
    finally show ?thesis by simp
  qed
  have ub: "unat (ucast b :: 64 word) = unat b"
    using b8 by (simp add: unsigned_ucast_eq take_bit_nat_eq_self_iff)
  have sh: "unat ?y = 256 ^ i * unat b"
    using le by (simp add: unsigned_push_bit_eq ub push_bit_nat_def pow take_bit_nat_eq_self_iff mult.commute)
  have "acc OR ?y = acc + ?y" using word_plus_and_or [of acc ?y] disj by simp
  then show ?thesis using le by (simp add: unat_word_ariths sh)
qed

lemma from_bytes_loop_value:
  "i + length bs \<le> 8 \<Longrightarrow> unat acc < 256 ^ i \<Longrightarrow>
   unat (from_bytes_loop acc i bs) = unat acc + 256 ^ i * bytes_value bs"
proof (induction bs arbitrary: acc i)
  case Nil
  then show ?case by simp
next
  case (Cons b bs)
  let ?acc = "acc OR push_bit (i * 8) (ucast b)"
  have step: "unat ?acc = unat acc + 256 ^ i * unat b"
    using Cons.prems by (intro or_shifted_byte) auto
  have "unat b < 256" using unsigned_less [of b, where 'a = nat] by simp
  then have le: "256 ^ i * Suc (unat b) \<le> (256::nat) ^ i * 256"
    by (intro mult_le_mono2) simp
  have "unat ?acc < 256 ^ i * Suc (unat b)"
    using Cons.prems(2) by (simp add: step)
  with le have "unat ?acc < 256 ^ Suc i" by (simp only: power_Suc2)
  then show ?case
    using Cons.IH [of "Suc i" ?acc] Cons.prems(1) by (simp add: step algebra_simps)
qed

lemma length_export_bytes_le: "n < 256 ^ k \<Longrightarrow> length (export_bytes n) \<le> k"
proof (induction n arbitrary: k rule: export_bytes.induct)
  case (1 n)
  show ?case
  proof (cases "n = 0")
    case True
    then show ?thesis by (simp add: export_bytes.simps)
  next
    case False
    with "1.prems" obtain j where k: "k = Suc j" by (cases k) auto
    have "n div 256 < 256 ^ j"
      using "1.prems" k by (simp add: less_mult_imp_div_less mult.commute)
    with "1.IH" [OF False] have "length (export_bytes (n div 256)) \<le> j" .
    then show ?thesis using False k by (subst export_bytes.simps) simp
  qed
qed

lemma from_bytes_loop_export:
  assumes "length bs \<le> 8" and "bytes_value bs = nat v" and "0 \<le> v"
  shows "uint (from_bytes_loop 0 0 bs) = v"
proof -
  have "unat (from_bytes_loop 0 0 bs) = nat v"
    using from_bytes_loop_value [of 0 bs 0] assms by simp
  then show ?thesis using assms(3) by (metis int_nat_eq uint_nat)
qed

text \<open>\<^verbatim>\<open>int.from_bytes(v.to_bytes(n, order), order)\<close> gives \<open>v\<close> back, in both byte
  orders, for every non-negative \<open>v\<close> that fits in \<open>n \<le> 8\<close> bytes and passes the
  final assertion of \<^verbatim>\<open>from_bytes\<close> (a value below the largest \<^verbatim>\<open>int64_t\<close>).\<close>

theorem to_bytes_from_bytes:
  assumes v: "0 \<le> v" "v < int64_max" "nat v < 256 ^ n" and n: "n \<le> 8"
    and order: "order = ''little'' \<or> order = ''big''"
  shows "and_then (to_bytes v [PyInteger (int n), PyString order])
           (\<lambda>b. from_bytes [b, PyString order]) = Ok (PyInteger v)"
proof -
  let ?bs = "export_bytes (nat v)"
  have l: "length ?bs \<le> n" using v(3) by (rule length_export_bytes_le)
  let ?pad = "?bs @ replicate (n - length ?bs) 0"
  have len: "length ?pad = n" using l by simp
  have "uint (from_bytes_loop 0 0 ?pad) = v"
    using v(1) n len by (intro from_bytes_loop_export)
      (simp_all add: bytes_value_replicate bytes_value_export)
  moreover have "in_int64 (int n)" "in_uint64 (int n)"
    using n by (simp_all add: in_int64_def in_uint64_def)
  ultimately show ?thesis
    using v n order l len
    by (auto simp: to_bytes_def from_bytes_def as_i64_def as_size_t_def assert_that_def Let_def)
qed

theorem to_bytes_from_bytes_witness:
  "and_then (to_bytes 1027 [PyInteger (int 2), PyString ''big''])
     (\<lambda>b. from_bytes [b, PyString ''big'']) = Ok (PyInteger 1027)"
  by (rule to_bytes_from_bytes) simp_all

end
