(* ===== verification/Tagged.thy ===== *)
theory Tagged
  imports Numbers
begin

text \<open>
  Tagged pointers: \<^verbatim>\<open>RtValue\<close> (\<^verbatim>\<open>src/src/runtime/taggered_pointer/RtValue.hpp\<close>, \<^verbatim>\<open>RtValue.cpp\<close>),
  the dispatch templates of \<^verbatim>\<open>src/src/runtime/export/rt_tagged_ops.hpp\<close> and the exported
  arithmetic of \<^verbatim>\<open>rt_op.cpp\<close> and \<^verbatim>\<open>rt_cmp.cpp\<close>. A value is one 64-bit word: bit 0 set
  means a 63-bit signed integer in the upper bits, bit 0 clear means the address of an object.
  The heap is a store from addresses to the object values of theory \<open>Numbers\<close>; the memory
  allocator (Boehm GC, not part of the repository) is the parameter \<open>alloc\<close>.
\<close>

unbundle bit_operations_syntax

section \<open>The word\<close>

type_synonym rt_value = "64 word" \<comment> \<open>\<^verbatim>\<open>m_bits\<close>, the only field of \<^verbatim>\<open>RtValue\<close>\<close>

abbreviation kTaggedIntMax :: int where "kTaggedIntMax \<equiv> 4611686018427387903"
abbreviation kTaggedIntMin :: int where "kTaggedIntMin \<equiv> - 4611686018427387904"

definition fits_tagged_int :: "int \<Rightarrow> bool" where
  "fits_tagged_int v \<longleftrightarrow> v \<ge> kTaggedIntMin \<and> v \<le> kTaggedIntMax"

definition from_int :: "int \<Rightarrow> rt_value" where
  "from_int v = push_bit 1 (word_of_int v) OR 1"

definition as_int :: "rt_value \<Rightarrow> int" where
  "as_int w = sint (signed_drop_bit 1 w)"

definition is_tagged_int :: "rt_value \<Rightarrow> bool" where
  "is_tagged_int w \<longleftrightarrow> w AND 1 = 1"

definition is_null :: "rt_value \<Rightarrow> bool" where
  "is_null w \<longleftrightarrow> w = 0"

definition is_heap_object :: "rt_value \<Rightarrow> bool" where
  "is_heap_object w \<longleftrightarrow> w AND 1 = 0 \<and> w \<noteq> 0"

definition are_both_tagged_int :: "rt_value \<Rightarrow> rt_value \<Rightarrow> bool" where
  "are_both_tagged_int a b \<longleftrightarrow> a AND b AND 1 \<noteq> 0"

section \<open>The heap\<close>

record 'f rt_heap =
  objs :: "rt_value \<Rightarrow> 'f py_object option"
  s_cache :: "int \<Rightarrow> rt_value option"   \<comment> \<open>the small integer cache of \<^verbatim>\<open>RtValue::box\<close>\<close>
  s_py_true :: rt_value
  s_py_false :: rt_value

text \<open>\<^verbatim>\<open>py_true()\<close> and \<^verbatim>\<open>py_false()\<close>, once initialised.\<close>

definition bool_ptr :: "'f rt_heap \<Rightarrow> bool \<Rightarrow> rt_value" where
  "bool_ptr h b = (if b then s_py_true h else s_py_false h)"

type_synonym 'f allocator = "'f rt_heap \<Rightarrow> rt_value option"

text \<open>What the allocator documents: a fresh, non-null block, aligned to at least two bytes.\<close>

definition alloc_ok :: "'f allocator \<Rightarrow> bool" where
  "alloc_ok alloc \<longleftrightarrow>
     (\<forall>h p. alloc h = Some p \<longrightarrow> objs h p = None \<and> p \<noteq> 0 \<and> p AND 1 = 0)"

text \<open>Reading through a pointer to no object is undefined.\<close>

definition deref :: "'f rt_heap \<Rightarrow> rt_value \<Rightarrow> 'f py_object py_result" where
  "deref h p = (case objs h p of None \<Rightarrow> Abort Undefined | Some obj \<Rightarrow> Ok obj)"

definition PyInteger_create ::
  "'f allocator \<Rightarrow> 'f rt_heap \<Rightarrow> int \<Rightarrow> ('f rt_heap \<times> rt_value) py_result" where
  "PyInteger_create alloc h v =
     (case alloc h of
        None \<Rightarrow> Err MemoryError
      | Some p \<Rightarrow> Ok (h\<lparr>objs := (objs h)(p \<mapsto> PyInteger v)\<rparr>, p))"

text \<open>The pointer a slot returns: the singletons for booleans, a new object otherwise.\<close>

definition store_result ::
  "'f allocator \<Rightarrow> 'f rt_heap \<Rightarrow> 'f py_object \<Rightarrow> ('f rt_heap \<times> rt_value) py_result" where
  "store_result alloc h obj =
     (case obj of
        PyBool b \<Rightarrow> Ok (h, bool_ptr h b)
      | PyInteger v \<Rightarrow> PyInteger_create alloc h v
      | _ \<Rightarrow> (case alloc h of
                None \<Rightarrow> Err MemoryError
              | Some p \<Rightarrow> Ok (h\<lparr>objs := (objs h)(p \<mapsto> obj)\<rparr>, p)))"

definition box :: "'f allocator \<Rightarrow> 'f rt_heap \<Rightarrow> rt_value \<Rightarrow> ('f rt_heap \<times> rt_value) py_result" where
  "box alloc h w =
     (if is_heap_object w \<or> is_null w then Ok (h, w)
      else let v = as_int w in
        if v \<ge> - 5 \<and> v \<le> 4096 then
          (case s_cache h v of
             Some p \<Rightarrow> Ok (h, p)
           | None \<Rightarrow> and_then (unwrap (PyInteger_create alloc h v))
                       (\<lambda>(h', p). Ok (h'\<lparr>s_cache := (s_cache h')(v \<mapsto> p)\<rparr>, p)))
        else unwrap (PyInteger_create alloc h v))"

definition flatten :: "'f rt_heap \<Rightarrow> rt_value \<Rightarrow> rt_value py_result" where
  "flatten h p =
     (if is_tagged_int p \<or> is_null p then Ok p
      else if p = bool_ptr h True then Ok (from_int 1)
      else if p = bool_ptr h False then Ok (from_int 0)
      else and_then (deref h p) (\<lambda>obj.
        case obj of
          PyInteger v \<Rightarrow> if in_int64 v \<and> fits_tagged_int v then Ok (from_int v) else Ok p
        | _ \<Rightarrow> Ok p))"

definition from_int_or_box ::
  "'f allocator \<Rightarrow> 'f rt_heap \<Rightarrow> int \<Rightarrow> ('f rt_heap \<times> rt_value) py_result" where
  "from_int_or_box alloc h v =
     (if fits_tagged_int v then Ok (h, from_int v) else unwrap (PyInteger_create alloc h v))"

section \<open>Dispatch on objects\<close>

datatype binop =
  Add | Subtract | Multiply | Floordiv | Modulo | And | Or | Xor | Lshift | Rshift

text \<open>
  The binary operations of \<^verbatim>\<open>PyObject\<close> (\<^verbatim>\<open>src/src/runtime/PyObject.cpp\<close>) where the left operand is
  a number: the type's slot is called. \<^verbatim>\<open>float\<close> has no bitwise or shift slots; there the
  reflected slot or the attribute lookup end in the same \<^verbatim>\<open>type_error\<close>. \<^verbatim>\<open>multiply\<close>
  alone goes on when a slot answers \<^verbatim>\<open>NotImplemented\<close>.
\<close>

definition multiply_numbers ::
  "'f double_ops \<Rightarrow> 'f py_object \<Rightarrow> 'f py_object \<Rightarrow> 'f py_object py_result" where
  "multiply_numbers D lhs rhs =
     and_then (PyNumber_mul D lhs rhs) (\<lambda>r.
       case r of
         PyNotImplemented \<Rightarrow>
           and_then (PyNumber_mul D rhs lhs) (\<lambda>r'.
             case r' of PyNotImplemented \<Rightarrow> Err TypeError | _ \<Rightarrow> Ok r')
       | _ \<Rightarrow> Ok r)"

definition int_slot ::
  "(int \<Rightarrow> 'f py_object \<Rightarrow> 'f py_object py_result) \<Rightarrow> 'f py_object \<Rightarrow> 'f py_object
   \<Rightarrow> 'f py_object py_result" where
  "int_slot f lhs rhs = (case as_big_int lhs of Some a \<Rightarrow> f a rhs | None \<Rightarrow> Err TypeError)"

fun number_slot ::
  "'f double_ops \<Rightarrow> binop \<Rightarrow> 'f py_object \<Rightarrow> 'f py_object \<Rightarrow> 'f py_object py_result" where
  "number_slot D Add = PyNumber_add D"
| "number_slot D Subtract = PyNumber_sub D"
| "number_slot D Multiply = multiply_numbers D"
| "number_slot D Floordiv = PyNumber_floordiv D"
| "number_slot D Modulo = PyNumber_mod D"
| "number_slot D And = int_slot PyInteger_and"
| "number_slot D Or = int_slot PyInteger_or"
| "number_slot D Xor = int_slot PyInteger_xor"
| "number_slot D Lshift = int_slot PyInteger_lshift"
| "number_slot D Rshift = int_slot PyInteger_rshift"

text \<open>
  Operands that are not both numbers go to the slots of other types: \<open>other\<close>, a parameter.
\<close>

definition object_binop ::
  "'f double_ops \<Rightarrow> (binop \<Rightarrow> 'f py_object \<Rightarrow> 'f py_object \<Rightarrow> 'f py_object py_result) \<Rightarrow> binop
   \<Rightarrow> 'f py_object \<Rightarrow> 'f py_object \<Rightarrow> 'f py_object py_result" where
  "object_binop D other f lhs rhs =
     (if is_number lhs \<and> is_number rhs then number_slot D f lhs rhs else other f lhs rhs)"

text \<open>\<^verbatim>\<open>lhs.box()->op(rhs.box())\<close>, the slow path of every operation.\<close>

definition slow_binop ::
  "'f allocator \<Rightarrow> 'f double_ops \<Rightarrow> (binop \<Rightarrow> 'f py_object \<Rightarrow> 'f py_object \<Rightarrow> 'f py_object py_result)
   \<Rightarrow> binop \<Rightarrow> 'f rt_heap \<Rightarrow> rt_value \<Rightarrow> rt_value \<Rightarrow> ('f rt_heap \<times> rt_value) py_result" where
  "slow_binop alloc D other f h lhs rhs =
     and_then (box alloc h lhs) (\<lambda>(h1, p).
     and_then (box alloc h1 rhs) (\<lambda>(h2, q).
     and_then (deref h2 p) (\<lambda>a.
     and_then (deref h2 q) (\<lambda>b.
     and_then (object_binop D other f a b) (\<lambda>r. store_result alloc h2 r)))))"

section \<open>Fast paths (\<^verbatim>\<open>rt_op.cpp\<close>)\<close>

text \<open>
  \<^verbatim>\<open>__builtin_add_overflow\<close> and its kin compute exactly and report whether the result fits
  \<^verbatim>\<open>int64_t\<close>. A null pointer (no fast result) is \<open>None\<close>.
\<close>

definition fast_add_i64 :: "int \<Rightarrow> int \<Rightarrow> rt_value option" where
  "fast_add_i64 l r =
     (if in_int64 (l + r) \<and> fits_tagged_int (l + r) then Some (from_int (l + r)) else None)"

definition fast_sub_i64 :: "int \<Rightarrow> int \<Rightarrow> rt_value option" where
  "fast_sub_i64 l r =
     (if in_int64 (l - r) \<and> fits_tagged_int (l - r) then Some (from_int (l - r)) else None)"

definition fast_mul_i64 :: "int \<Rightarrow> int \<Rightarrow> rt_value option" where
  "fast_mul_i64 l r =
     (if in_int64 (l * r) \<and> fits_tagged_int (l * r) then Some (from_int (l * r)) else None)"

text \<open>C++ division truncates; the correction makes it round down. \<^verbatim>\<open>(rem ^ rhs) < 0\<close> says
  that the signs differ.\<close>

definition fast_floordiv_i64 :: "int \<Rightarrow> int \<Rightarrow> rt_value option" where
  "fast_floordiv_i64 l r =
     (if r = 0 then None
      else let q = l sdiv r; rem = l smod r;
               q' = (if rem \<noteq> 0 \<and> rem XOR r < 0 then q - 1 else q) in
           if fits_tagged_int q' then Some (from_int q') else None)"

definition fast_mod_i64 :: "int \<Rightarrow> int \<Rightarrow> rt_value option" where
  "fast_mod_i64 l r =
     (if r = 0 then None
      else let rem = l smod r;
               rem' = (if rem \<noteq> 0 \<and> rem XOR r < 0 then rem + r else rem) in
           Some (from_int rem'))"

definition fast_lshift_i64 :: "int \<Rightarrow> int \<Rightarrow> rt_value option" where
  "fast_lshift_i64 l r =
     (if r < 0 \<or> r \<ge> 63 then None
      else let result = l * 2 ^ nat r in
           if result < kTaggedIntMin \<or> result > kTaggedIntMax then None
           else Some (from_int result))"

definition fast_rshift_i64 :: "int \<Rightarrow> int \<Rightarrow> rt_value option" where
  "fast_rshift_i64 l r =
     (if r < 0 then None
      else if r \<ge> 64 then Some (from_int (if l < 0 then - 1 else 0))
      else Some (from_int (drop_bit (nat r) l)))"

definition fast_and_i64 :: "int \<Rightarrow> int \<Rightarrow> rt_value option" where
  "fast_and_i64 l r = Some (from_int (l AND r))"

definition fast_or_i64 :: "int \<Rightarrow> int \<Rightarrow> rt_value option" where
  "fast_or_i64 l r = Some (from_int (l OR r))"

definition fast_xor_i64 :: "int \<Rightarrow> int \<Rightarrow> rt_value option" where
  "fast_xor_i64 l r = Some (from_int (l XOR r))"

text \<open>\<^verbatim>\<open>binary_int_or_slow\<close>: the fast path on the raw words, then on the flattened ones.\<close>

definition binary_int_or_slow ::
  "'f rt_heap \<Rightarrow> rt_value \<Rightarrow> rt_value \<Rightarrow> (int \<Rightarrow> int \<Rightarrow> rt_value option)
   \<Rightarrow> ('f rt_heap \<Rightarrow> rt_value \<Rightarrow> rt_value \<Rightarrow> ('f rt_heap \<times> rt_value) py_result)
   \<Rightarrow> ('f rt_heap \<times> rt_value) py_result" where
  "binary_int_or_slow h lhs rhs fast slow =
     (let on_flat =
        and_then (flatten h lhs) (\<lambda>l.
        and_then (flatten h rhs) (\<lambda>r.
          if are_both_tagged_int l r then
            (case fast (as_int l) (as_int r) of
               Some p \<Rightarrow> Ok (h, p)
             | None \<Rightarrow> slow h l r)
          else slow h l r))
      in if are_both_tagged_int lhs rhs then
           (case fast (as_int lhs) (as_int rhs) of
              Some p \<Rightarrow> Ok (h, p)
            | None \<Rightarrow> on_flat)
         else on_flat)"

text \<open>The exported operations.\<close>

definition rt_binary ::
  "(int \<Rightarrow> int \<Rightarrow> rt_value option) \<Rightarrow> binop \<Rightarrow> 'f allocator \<Rightarrow> 'f double_ops
   \<Rightarrow> (binop \<Rightarrow> 'f py_object \<Rightarrow> 'f py_object \<Rightarrow> 'f py_object py_result)
   \<Rightarrow> 'f rt_heap \<Rightarrow> rt_value \<Rightarrow> rt_value \<Rightarrow> ('f rt_heap \<times> rt_value) py_result" where
  "rt_binary fast f alloc D other h lhs rhs =
     binary_int_or_slow h lhs rhs fast (slow_binop alloc D other f)"

definition rt_binary_add where "rt_binary_add = rt_binary fast_add_i64 Add"
definition rt_binary_sub where "rt_binary_sub = rt_binary fast_sub_i64 Subtract"
definition rt_binary_mul where "rt_binary_mul = rt_binary fast_mul_i64 Multiply"
definition rt_binary_floordiv where "rt_binary_floordiv = rt_binary fast_floordiv_i64 Floordiv"
definition rt_binary_mod where "rt_binary_mod = rt_binary fast_mod_i64 Modulo"
definition rt_binary_lshift where "rt_binary_lshift = rt_binary fast_lshift_i64 Lshift"
definition rt_binary_rshift where "rt_binary_rshift = rt_binary fast_rshift_i64 Rshift"
definition rt_binary_and where "rt_binary_and = rt_binary fast_and_i64 And"
definition rt_binary_or where "rt_binary_or = rt_binary fast_or_i64 Or"
definition rt_binary_xor where "rt_binary_xor = rt_binary fast_xor_i64 Xor"

section \<open>The encoding is a bijection on 63-bit integers\<close>

lemma from_int_eq: "from_int v = word_of_int (2 * v + 1)"
proof -
  have "push_bit 1 (word_of_int v) AND 1 = (0 :: 64 word)"
    by (simp add: and_one_eq push_bit_eq_mult mod_2_eq_odd)
  then have "from_int v = push_bit 1 (word_of_int v) + 1"
    using word_plus_and_or [of "push_bit 1 (word_of_int v)" "1 :: 64 word"]
    by (simp add: from_int_def)
  then show ?thesis by (simp add: push_bit_eq_mult)
qed

lemma is_tagged_from_int [simp]: "is_tagged_int (from_int v)"
  unfolding is_tagged_int_def from_int_def by (intro bit_eqI) (auto simp: bit_simps)

lemma from_int_nonzero [simp]: "from_int v \<noteq> 0"
  using is_tagged_from_int [of v] by (auto simp: is_tagged_int_def)

lemma as_int_from_int: "fits_tagged_int v \<Longrightarrow> as_int (from_int v) = v"
proof -
  assume "fits_tagged_int v"
  then have "signed_take_bit 63 (2 * v + 1) = 2 * v + 1"
    by (intro signed_take_bit_int_eq_self) (auto simp: fits_tagged_int_def)
  then have "sint (word_of_int (2 * v + 1) :: 64 word) = 2 * v + 1"
    by (simp only: signed_of_int) simp
  then show ?thesis
    by (simp add: as_int_def from_int_eq sint_signed_drop_bit_eq drop_bit_Suc)
qed

lemma as_int_fits: "fits_tagged_int (as_int w)"
proof -
  have "- (2 ^ 63) \<le> sint w" "sint w < 2 ^ 63"
    using sint_ge [of w] sint_lt [of w] by simp_all
  then have "- (2 ^ 62) \<le> sint w div 2" "sint w div 2 < 2 ^ 62"
    using zdiv_mono1 [of "- (2 ^ 63)" "sint w" 2] zdiv_mono1 [of "sint w" "2 ^ 63 - 1" 2]
    by simp_all
  then show ?thesis
    by (simp add: as_int_def sint_signed_drop_bit_eq drop_bit_Suc fits_tagged_int_def)
qed

lemma from_int_as_int: "is_tagged_int w \<Longrightarrow> from_int (as_int w) = w"
proof -
  assume "is_tagged_int w"
  then have "odd (sint w)"
    by (simp add: is_tagged_int_def and_one_eq mod_2_eq_odd bit_signed_iff flip: bit_0 split: if_splits)
  then have "2 * (sint w div 2) + 1 = sint w" by simp
  then show ?thesis
    by (simp add: as_int_def from_int_eq sint_signed_drop_bit_eq drop_bit_Suc)
qed

lemma are_both_tagged_iff: "are_both_tagged_int a b \<longleftrightarrow> is_tagged_int a \<and> is_tagged_int b"
  unfolding are_both_tagged_int_def is_tagged_int_def
  by (simp add: and_one_eq mod_2_eq_odd flip: and.assoc) 

lemma tagged_or_heap: "is_heap_object w \<or> is_null w \<longleftrightarrow> \<not> is_tagged_int w"
  by (auto simp: is_heap_object_def is_null_def is_tagged_int_def and_one_eq mod_2_eq_odd)


lemma sdiv_floor:
  fixes l r :: int
  assumes r: "r \<noteq> 0"
  shows "(if l smod r \<noteq> 0 \<and> l smod r XOR r < 0 then l sdiv r - 1 else l sdiv r) = l div r"
    and "(if l smod r \<noteq> 0 \<and> l smod r XOR r < 0 then l smod r + r else l smod r) = l mod r"
proof -
  have zero: "l smod r = 0 \<longleftrightarrow> r dvd l"
    by (auto simp: signed_modulo_int_def sgn_if dvd_eq_mod_eq_0 [symmetric] split: if_splits)
  have neg: "l smod r < 0 \<longleftrightarrow> l < 0" if "\<not> r dvd l"
  proof -
    have "0 < \<bar>l\<bar> mod \<bar>r\<bar>" using that r
      by (metis abs_dvd_iff abs_ge_zero dvd_abs_iff dvd_eq_mod_eq_0 order_le_less pos_mod_sign zero_less_abs_iff)
    then show ?thesis by (auto simp: signed_modulo_int_def sgn_if)
  qed
  have iff: "l smod r \<noteq> 0 \<and> l smod r XOR r < 0 \<longleftrightarrow> sgn l \<noteq> sgn r \<and> \<not> r dvd l"
  proof (cases "r dvd l")
    case False
    then have "l \<noteq> 0" by auto
    with False r show ?thesis by (auto simp: zero neg xor_negative_int_iff sgn_if)
  qed (simp add: zero)
  show "(if l smod r \<noteq> 0 \<and> l smod r XOR r < 0 then l sdiv r - 1 else l sdiv r) = l div r"
    unfolding iff using r by (simp add: divide_int_eq_signed_divide_int)
  show "(if l smod r \<noteq> 0 \<and> l smod r XOR r < 0 then l smod r + r else l smod r) = l mod r"
    unfolding iff by (simp add: modulo_int_eq_signed_modulo_int)
qed

section \<open>Heaps and the integers they denote\<close>

lemma bool_ptr_upd [simp]:
  "bool_ptr (h\<lparr>objs := x\<rparr>) = bool_ptr h" "bool_ptr (h\<lparr>s_cache := y\<rparr>) = bool_ptr h"
  by (simp_all add: bool_ptr_def fun_eq_iff)

definition denote :: "'f rt_heap \<Rightarrow> rt_value \<Rightarrow> int option" where
  "denote h p =
     (if is_tagged_int p then Some (as_int p)
      else case objs h p of None \<Rightarrow> None | Some obj \<Rightarrow> as_big_int obj)"

definition heap_ok :: "'f rt_heap \<Rightarrow> bool" where
  "heap_ok h \<longleftrightarrow>
     (\<forall>p obj. objs h p = Some obj \<longrightarrow> p \<noteq> 0 \<and> p AND 1 = 0) \<and>
     (\<forall>v p. s_cache h v = Some p \<longrightarrow> objs h p = Some (PyInteger v)) \<and>
     (\<forall>b. objs h (bool_ptr h b) = Some (PyBool b)) \<and>
     (\<forall>p b. objs h p = Some (PyBool b) \<longrightarrow> p = bool_ptr h b)"

text \<open>\<open>grows n h h'\<close>: \<open>h'\<close> keeps every object of \<open>h\<close> and has at most \<open>n\<close> more.\<close>

definition grows :: "nat \<Rightarrow> 'f rt_heap \<Rightarrow> 'f rt_heap \<Rightarrow> bool" where
  "grows n h h' \<longleftrightarrow>
     (\<forall>p obj. objs h p = Some obj \<longrightarrow> objs h' p = Some obj) \<and>
     (\<forall>b. bool_ptr h' b = bool_ptr h b) \<and>
     (\<exists>new. length new \<le> n \<and> dom (objs h') \<subseteq> dom (objs h) \<union> set new)"

lemma grows_refl [simp]: "grows n h h"
  by (auto simp: grows_def intro: exI [of _ "[]"])

lemma grows_trans:
  assumes "grows m h h1" and "grows n h1 h2"
  shows "grows (m + n) h h2"
proof -
  obtain xs ys where "length xs \<le> m" "dom (objs h1) \<subseteq> dom (objs h) \<union> set xs"
    and "length ys \<le> n" "dom (objs h2) \<subseteq> dom (objs h1) \<union> set ys"
    using assms by (auto simp: grows_def)
  then have "length (xs @ ys) \<le> m + n \<and> dom (objs h2) \<subseteq> dom (objs h) \<union> set (xs @ ys)"
    by simp blast
  then have "\<exists>new. length new \<le> m + n \<and> dom (objs h2) \<subseteq> dom (objs h) \<union> set new" ..
  then show ?thesis using assms by (simp add: grows_def)
qed

lemma grows_mono: "grows m h h' \<Longrightarrow> m \<le> n \<Longrightarrow> grows n h h'"
  using le_trans unfolding grows_def by blast

lemma grows_objs: "grows n h h' \<Longrightarrow> objs h p = Some obj \<Longrightarrow> objs h' p = Some obj"
  by (simp add: grows_def)

lemma grows_denote: "grows n h h' \<Longrightarrow> denote h p = Some v \<Longrightarrow> denote h' p = Some v"
  by (auto simp: grows_def denote_def split: if_splits option.splits)

lemma grows_cache_upd [simp]: "grows n h (h'\<lparr>s_cache := c\<rparr>) = grows n h h'"
  by (simp add: grows_def)

lemma denote_from_int: "fits_tagged_int v \<Longrightarrow> denote h (from_int v) = Some v"
  by (simp add: denote_def as_int_from_int)

lemma heap_ok_untagged: "heap_ok h \<Longrightarrow> objs h p = Some obj \<Longrightarrow> \<not> is_tagged_int p \<and> p \<noteq> 0"
  by (auto simp: heap_ok_def is_tagged_int_def)

text \<open>
  \<open>alloc_or alloc h n P m\<close>: the outcome of an operation that may run out of memory. Either it
  returns a value with \<open>P\<close>, or the allocator refused a request on a heap with at most \<open>n\<close>
  objects more than \<open>h\<close>; then \<^verbatim>\<open>unwrap\<close> or the \<^verbatim>\<open>memory_error\<close> stops the operation.
\<close>

definition refused :: "'f allocator \<Rightarrow> 'f rt_heap \<Rightarrow> nat \<Rightarrow> bool" where
  "refused alloc h n \<longleftrightarrow> (\<exists>h'. grows n h h' \<and> alloc h' = None)"

definition alloc_or ::
  "'f allocator \<Rightarrow> 'f rt_heap \<Rightarrow> nat \<Rightarrow> ('a \<Rightarrow> bool) \<Rightarrow> 'a py_result \<Rightarrow> bool" where
  "alloc_or alloc h n P m \<longleftrightarrow>
     (case m of
        Ok x \<Rightarrow> P x
      | Err e \<Rightarrow> e = MemoryError \<and> refused alloc h n
      | Abort f \<Rightarrow> f = Assertion \<and> refused alloc h n)"

lemma refused_mono: "refused alloc h m \<Longrightarrow> m \<le> n \<Longrightarrow> refused alloc h n"
  by (auto simp: refused_def dest: grows_mono)

lemma refused_grows: "refused alloc h1 n \<Longrightarrow> grows m h h1 \<Longrightarrow> refused alloc h (m + n)"
  by (auto simp: refused_def dest: grows_trans)

lemma alloc_or_Ok [simp]: "alloc_or alloc h n P (Ok x) = P x"
  by (simp add: alloc_or_def)

lemma alloc_or_and_then:
  assumes "alloc_or alloc h n Q m" and "\<And>x. Q x \<Longrightarrow> alloc_or alloc h n P (f x)"
  shows "alloc_or alloc h n P (and_then m f)"
  using assms by (cases m) (auto simp: alloc_or_def)

lemma alloc_or_unwrap: "alloc_or alloc h n P m \<Longrightarrow> alloc_or alloc h n P (unwrap m)"
  by (cases m) (auto simp: alloc_or_def)

lemma alloc_or_mono:
  "alloc_or alloc h m P r \<Longrightarrow> m \<le> n \<Longrightarrow> (\<And>x. P x \<Longrightarrow> Q x) \<Longrightarrow> alloc_or alloc h n Q r"
  by (cases r) (auto simp: alloc_or_def dest: refused_mono)

lemma alloc_or_later:
  "alloc_or alloc h1 n P r \<Longrightarrow> grows m h h1 \<Longrightarrow> (\<And>x. P x \<Longrightarrow> Q x) \<Longrightarrow> alloc_or alloc h (m + n) Q r"
  by (cases r) (auto simp: alloc_or_def dest: refused_grows)

lemma PyInteger_create_spec:
  assumes "alloc_ok alloc" and "heap_ok h"
  shows "alloc_or alloc h 0
           (\<lambda>(h', p). heap_ok h' \<and> grows 1 h h' \<and> objs h' p = Some (PyInteger v))
           (PyInteger_create alloc h v)"
proof (cases "alloc h")
  case None
  then show ?thesis by (auto simp: PyInteger_create_def alloc_or_def refused_def intro: exI [of _ h])
next
  case (Some p)
  with assms(1) have fresh: "objs h p = None" "p \<noteq> 0" "p AND 1 = 0"
    by (auto simp: alloc_ok_def)
  then have "p \<noteq> bool_ptr h b" for b
    using assms(2) by (auto simp: heap_ok_def)
  moreover have "grows 1 h (h\<lparr>objs := (objs h)(p \<mapsto> PyInteger v)\<rparr>)"
    using fresh by (auto simp: grows_def intro!: exI [of _ "[p]"])
  ultimately show ?thesis using Some fresh assms(2)
    by (auto simp: PyInteger_create_def heap_ok_def)
qed

lemma box_spec:
  assumes a: "alloc_ok alloc" and h: "heap_ok h" and p: "is_tagged_int p"
  shows "alloc_or alloc h 0
           (\<lambda>(h', q). heap_ok h' \<and> grows 1 h h' \<and> objs h' q = Some (PyInteger (as_int p)))
           (box alloc h p)"
proof -
  let ?P = "\<lambda>(h', q). heap_ok h' \<and> grows 1 h h' \<and> objs h' q = Some (PyInteger (as_int p))"
  have "\<not> (is_heap_object p \<or> is_null p)" using p by (simp add: tagged_or_heap)
  moreover note spec = PyInteger_create_spec [OF a h, of "as_int p", THEN alloc_or_unwrap]
  moreover have "alloc_or alloc h 0 ?P
      (and_then (unwrap (PyInteger_create alloc h (as_int p)))
         (\<lambda>(h', q). Ok (h'\<lparr>s_cache := (s_cache h')(as_int p \<mapsto> q)\<rparr>, q)))"
    using spec by (rule alloc_or_and_then) (auto simp: heap_ok_def)
  moreover have "objs h q = Some (PyInteger (as_int p))" if "s_cache h (as_int p) = Some q" for q
    using h that by (auto simp: heap_ok_def)
  ultimately show ?thesis
    using h by (auto simp: box_def Let_def split: option.splits)
qed

lemma box_heap: "\<not> is_tagged_int p \<Longrightarrow> box alloc h p = Ok (h, p)"
  using tagged_or_heap [of p] by (simp add: box_def)

text \<open>Flattening keeps the denoted integer and tags exactly the ones that fit.\<close>

lemma flatten_denote:
  assumes h: "heap_ok h" and v: "denote h p = Some v"
  shows "\<exists>q. flatten h p = Ok q \<and> denote h q = Some v \<and>
             (if fits_tagged_int v then q = from_int v
              else \<not> is_tagged_int q \<and> objs h q = Some (PyInteger v))"
proof (cases "is_tagged_int p")
  case True
  with v have "as_int p = v" by (simp add: denote_def)
  with True show ?thesis
    using as_int_fits [of p] by (auto simp: flatten_def denote_def from_int_as_int)
next
  case False
  with v obtain obj where obj: "objs h p = Some obj" "as_big_int obj = Some v"
    by (auto simp: denote_def split: option.splits)
  then have p0: "p \<noteq> 0" using h by (auto simp: heap_ok_def)
  have in64: "in_int64 v" if "fits_tagged_int v"
    using that by (simp add: fits_tagged_int_def in_int64_def)
  have b01: "fits_tagged_int 1" "fits_tagged_int 0" by (simp_all add: fits_tagged_int_def)
  show ?thesis
  proof (cases obj)
    case (PyInteger n)
    with obj have "n = v" by simp
    moreover have "p \<noteq> bool_ptr h True" "p \<noteq> bool_ptr h False"
      using h obj PyInteger by (auto simp: heap_ok_def)
    ultimately show ?thesis
      using False obj PyInteger p0 in64
      by (auto simp: flatten_def deref_def is_null_def denote_def as_int_from_int)
  next
    case (PyBool b)
    with obj h have "p = bool_ptr h b" and "v = of_bool b"
      by (simp_all add: heap_ok_def)
    moreover have "bool_ptr h True \<noteq> bool_ptr h False"
      using h by (auto simp: heap_ok_def) (metis option.inject py_object.inject(2))
    ultimately show ?thesis
      using False p0 b01 by (auto simp: flatten_def is_null_def denote_def as_int_from_int)
  qed (use obj in auto)
qed

section \<open>The dispatch computes the operation\<close>

text \<open>The outcome of an operation on integers: \<open>v\<close>, tagged or boxed, in a sound heap that keeps all
  objects; at most two operands and the result are allocated.\<close>

abbreviation yields :: "'f allocator \<Rightarrow> 'f rt_heap \<Rightarrow> int \<Rightarrow> ('f rt_heap \<times> rt_value) py_result \<Rightarrow> bool" where
  "yields alloc h v \<equiv>
     alloc_or alloc h 2 (\<lambda>(h', p). heap_ok h' \<and> grows 3 h h' \<and> denote h' p = Some v)"

text \<open>The words that reach a slow path: tagged, or a boxed integer.\<close>

definition slot_word :: "'f rt_heap \<Rightarrow> rt_value \<Rightarrow> int \<Rightarrow> bool" where
  "slot_word h w v \<longleftrightarrow>
     w = from_int v \<and> fits_tagged_int v \<or> \<not> is_tagged_int w \<and> objs h w = Some (PyInteger v)"

lemma slot_word_grows: "slot_word h w v \<Longrightarrow> grows n h h' \<Longrightarrow> slot_word h' w v"
  by (auto simp: slot_word_def grows_def)

lemma flatten_word:
  assumes "heap_ok h" and "denote h p = Some v"
  obtains q where "flatten h p = Ok q" and "slot_word h q v"
    and "is_tagged_int q \<longleftrightarrow> fits_tagged_int v" and "is_tagged_int q \<Longrightarrow> as_int q = v"
  using flatten_denote [OF assms] that
  by (cases "fits_tagged_int v") (auto simp: slot_word_def as_int_from_int)

lemma box_word_then:
  assumes al: "alloc_ok alloc" and h: "heap_ok h" and w: "slot_word h w v"
    and g: "grows m h0 h" and m: "m \<le> n"
    and k: "\<And>h' q. heap_ok h' \<Longrightarrow> grows 1 h h' \<Longrightarrow> grows (m + 1) h0 h' \<Longrightarrow>
              objs h' q = Some (PyInteger v) \<Longrightarrow> alloc_or alloc h0 n P (k h' q)"
  shows "alloc_or alloc h0 n P (and_then (box alloc h w) (\<lambda>(h', q). k h' q))"
proof -
  let ?Q = "\<lambda>(h', q). heap_ok h' \<and> grows 1 h h' \<and> objs h' q = Some (PyInteger v)"
  have "alloc_or alloc h 0 ?Q (box alloc h w)"
    using w h box_spec [OF al h, of w] by (auto simp: slot_word_def box_heap as_int_from_int)
  then have "alloc_or alloc h0 (m + 0) ?Q (box alloc h w)"
    using g by (rule alloc_or_later)
  then have "alloc_or alloc h0 n ?Q (box alloc h w)"
    using m by (auto elim: alloc_or_mono)
  then show ?thesis
    by (rule alloc_or_and_then) (use grows_trans [OF g, of 1] in \<open>auto intro!: k\<close>)
qed

text \<open>Boxing two operands, as every slow path does.\<close>

lemma box_words_then:
  assumes al: "alloc_ok alloc" and h: "heap_ok h" and l: "slot_word h l a" and r: "slot_word h r b"
    and k: "\<And>h' p q. heap_ok h' \<Longrightarrow> grows 2 h h' \<Longrightarrow> objs h' p = Some (PyInteger a) \<Longrightarrow>
              objs h' q = Some (PyInteger b) \<Longrightarrow> alloc_or alloc h 2 P (k h' p q)"
  shows "alloc_or alloc h 2 P
           (and_then (box alloc h l) (\<lambda>(h1, p). and_then (box alloc h1 r) (\<lambda>(h2, q). k h2 p q)))"
proof (rule box_word_then [OF al h l, of 0])
  fix h1 p assume 1: "heap_ok h1" "grows 1 h h1" "objs h1 p = Some (PyInteger a)"
  show "alloc_or alloc h 2 P (and_then (box alloc h1 r) (\<lambda>(h2, q). k h2 p q))"
    by (rule box_word_then [OF al 1(1) slot_word_grows [OF r 1(2)] 1(2)])
       (auto intro: k grows_objs [OF _ 1(3)] simp flip: numeral_2_eq_2)
qed auto

lemma store_int_denote:
  assumes "alloc_ok alloc" and "heap_ok h"
  shows "alloc_or alloc h 0 (\<lambda>(h', p). heap_ok h' \<and> grows 1 h h' \<and> denote h' p = Some v)
           (store_result alloc h (PyInteger v))"
  unfolding store_result_def py_object.case
  by (rule alloc_or_mono [OF PyInteger_create_spec [OF assms]])
     (auto simp: denote_def dest: heap_ok_untagged)

text \<open>
  The contract of the slot of boxed integers: on the pairs \<open>good\<close> it computes \<open>sem\<close>.
\<close>

locale boxed_operation =
  fixes D :: "'f double_ops" and f :: binop
    and sem :: "int \<Rightarrow> int \<Rightarrow> int" and good :: "int \<Rightarrow> int \<Rightarrow> bool"
  assumes slot_sem: "good a b \<Longrightarrow>
      number_slot D f (PyInteger a) (PyInteger b) = Ok (PyInteger (sem a b))"
begin

lemma slot_and_store:
  assumes al: "alloc_ok alloc" and g: "good a b" and h2: "heap_ok h2" "grows 2 h h2"
  shows "yields alloc h (sem a b)
    (and_then (object_binop D other f (PyInteger a) (PyInteger b)) (store_result alloc h2))"
proof -
  from store_int_denote [OF al h2(1), of "sem a b"] h2(2)
  have "alloc_or alloc h (2 + 0) (\<lambda>(h', p). heap_ok h' \<and> grows 3 h h' \<and> denote h' p = Some (sem a b))
    (store_result alloc h2 (PyInteger (sem a b)))"
    by (rule alloc_or_later) (use grows_trans [OF h2(2), of 1] in auto)
  then show ?thesis using g by (simp add: object_binop_def slot_sem)
qed

lemma slow_binop_denote:
  assumes al: "alloc_ok alloc" and h: "heap_ok h" and g: "good a b"
    and l: "slot_word h l a" and r: "slot_word h r b"
  shows "yields alloc h (sem a b) (slow_binop alloc D other f h l r)"
  unfolding slow_binop_def
  by (rule box_words_then [OF al h l r]) (simp add: deref_def slot_and_store [OF al g])

text \<open>Where an operand does not fit the tag, only the slot is asked.\<close>

lemma rt_binary_boxed:
  assumes al: "alloc_ok alloc" and h: "heap_ok h"
    and a: "denote h lhs = Some a" and b: "denote h rhs = Some b"
    and nofit: "\<not> (fits_tagged_int a \<and> fits_tagged_int b)" and g: "good a b"
  shows "yields alloc h (sem a b)
           (rt_binary fast f alloc D other h lhs rhs)"
proof -
  obtain l where l: "flatten h lhs = Ok l" "slot_word h l a" "is_tagged_int l \<longleftrightarrow> fits_tagged_int a"
    using flatten_word [OF h a] by metis
  obtain r where r: "flatten h rhs = Ok r" "slot_word h r b" "is_tagged_int r \<longleftrightarrow> fits_tagged_int b"
    using flatten_word [OF h b] by metis
  have "\<not> are_both_tagged_int lhs rhs"
    using a b nofit as_int_fits [of lhs] as_int_fits [of rhs]
    by (auto simp: are_both_tagged_iff denote_def)
  moreover have "\<not> are_both_tagged_int l r"
    using l(3) r(3) nofit by (simp add: are_both_tagged_iff)
  ultimately show ?thesis
    using slow_binop_denote [OF al h g l(2) r(2)] l(1) r(1)
    by (simp add: rt_binary_def binary_int_or_slow_def Let_def)
qed

end

text \<open>
  The contract of a tagged operation adds the fast path: what it returns is the tagged result.
\<close>

locale tagged_operation = boxed_operation +
  fixes fast :: "int \<Rightarrow> int \<Rightarrow> rt_value option"
  assumes fast_sem: "fits_tagged_int a \<Longrightarrow> fits_tagged_int b \<Longrightarrow> fast a b = Some p \<Longrightarrow>
      fits_tagged_int (sem a b) \<and> p = from_int (sem a b)"
begin

lemma rt_binary_denote:
  assumes al: "alloc_ok alloc" and h: "heap_ok h"
    and a: "denote h lhs = Some a" and b: "denote h rhs = Some b"
    and g: "good a b \<or> fits_tagged_int a \<and> fits_tagged_int b \<and> fast a b \<noteq> None"
  shows "yields alloc h (sem a b)
           (rt_binary fast f alloc D other h lhs rhs)"
proof -
  let ?P = "\<lambda>(h', p). heap_ok h' \<and> grows 3 h h' \<and> denote h' p = Some (sem a b)"
  obtain l where l: "flatten h lhs = Ok l" "slot_word h l a"
      "is_tagged_int l \<longleftrightarrow> fits_tagged_int a" "is_tagged_int l \<Longrightarrow> as_int l = a"
    using flatten_word [OF h a] by metis
  obtain r where r: "flatten h rhs = Ok r" "slot_word h r b"
      "is_tagged_int r \<longleftrightarrow> fits_tagged_int b" "is_tagged_int r \<Longrightarrow> as_int r = b"
    using flatten_word [OF h b] by metis
  have hit: "?P (h, p)" if "fits_tagged_int a" "fits_tagged_int b" "fast a b = Some p" for p
    using fast_sem [OF that] h by (simp add: denote_def as_int_from_int)
  have slow: "alloc_or alloc h 2 ?P (slow_binop alloc D other f h l r)"
    if "\<not> (fits_tagged_int a \<and> fits_tagged_int b \<and> fast a b \<noteq> None)"
    using g that l r by (intro slow_binop_denote [OF al h]) auto
  have raw: "as_int lhs = a \<and> as_int rhs = b \<and> fits_tagged_int a \<and> fits_tagged_int b"
    if "are_both_tagged_int lhs rhs"
    using that a b as_int_fits [of lhs] as_int_fits [of rhs]
    by (auto simp: are_both_tagged_iff denote_def)
  have flat: "alloc_or alloc h 2 ?P
      (if are_both_tagged_int l r
       then (case fast (as_int l) (as_int r) of
               Some p \<Rightarrow> Ok (h, p) | None \<Rightarrow> slow_binop alloc D other f h l r)
       else slow_binop alloc D other f h l r)"
    using l(3,4) r(3,4) hit slow by (auto simp: are_both_tagged_iff split: option.splits)
  show ?thesis
    using raw hit flat
    by (auto simp: rt_binary_def binary_int_or_slow_def Let_def l(1) r(1) split: option.splits)
qed

end

section \<open>The operations meet the contract\<close>

lemma fits_iff_signed_take_bit: "fits_tagged_int v \<longleftrightarrow> signed_take_bit 62 v = v"
  by (simp add: fits_tagged_int_def signed_take_bit_int_eq_self_iff) linarith

lemma fits_bitwise:
  assumes "fits_tagged_int a" and "fits_tagged_int b"
  shows "fits_tagged_int (a AND b)" "fits_tagged_int (a OR b)" "fits_tagged_int (a XOR b)"
proof -
  have "signed_take_bit 62 (a AND b) = signed_take_bit 62 a AND signed_take_bit 62 b"
    "signed_take_bit 62 (a OR b) = signed_take_bit 62 a OR signed_take_bit 62 b"
    "signed_take_bit 62 (a XOR b) = signed_take_bit 62 a XOR signed_take_bit 62 b"
    by (auto intro!: bit_eqI simp: bit_simps)
  then show "fits_tagged_int (a AND b)" "fits_tagged_int (a OR b)" "fits_tagged_int (a XOR b)"
    using assms by (simp_all add: fits_iff_signed_take_bit)
qed

lemma in_int64_fits: "fits_tagged_int v \<Longrightarrow> in_int64 v"
  by (simp add: fits_tagged_int_def in_int64_def)

lemma fits_mod: "r \<noteq> 0 \<Longrightarrow> fits_tagged_int r \<Longrightarrow> fits_tagged_int (l mod r)"
  using pos_mod_bound [of r l] pos_mod_sign [of r l] neg_mod_bound [of r l] neg_mod_sign [of r l]
  unfolding fits_tagged_int_def by linarith

text \<open>The divisions on which rounding down and rounding towards zero agree.\<close>

definition same_rounding :: "int \<Rightarrow> int \<Rightarrow> bool" where
  "same_rounding a b \<longleftrightarrow> b \<noteq> 0 \<and> (sgn a = sgn b \<or> b dvd a)"

interpretation add_op: tagged_operation D Add "(+)" "\<lambda>_ _. True" fast_add_i64 for D
  by unfold_locales (auto simp: PyNumber_add_def fast_add_i64_def split: if_splits)

interpretation sub_op: tagged_operation D Subtract "(-)" "\<lambda>_ _. True" fast_sub_i64 for D
  by unfold_locales (auto simp: PyNumber_sub_def fast_sub_i64_def split: if_splits)

interpretation mul_op: tagged_operation D Multiply "(*)" "\<lambda>_ _. True" fast_mul_i64 for D
  by unfold_locales
    (auto simp: multiply_numbers_def PyNumber_mul_def fast_mul_i64_def split: if_splits)

lemma fast_floordiv_div:
  "fast_floordiv_i64 l r =
     (if r \<noteq> 0 \<and> fits_tagged_int (l div r) then Some (from_int (l div r)) else None)"
  using sdiv_floor(1) [of r l] unfolding fast_floordiv_i64_def Let_def by (cases "r = 0") simp_all

lemma fast_mod_mod: "fast_mod_i64 l r = (if r \<noteq> 0 then Some (from_int (l mod r)) else None)"
  using sdiv_floor(2) [of r l] unfolding fast_mod_i64_def Let_def by (cases "r = 0") simp_all

interpretation floordiv_op: tagged_operation D Floordiv "(div)" same_rounding fast_floordiv_i64 for D
  by unfold_locales
    (auto simp: PyNumber_floordiv_def mpz_tdiv_q_def same_rounding_def
       signed_divide_int_eq_divide_int fast_floordiv_div split: if_splits)

interpretation mod_op: tagged_operation D Modulo "(mod)" same_rounding fast_mod_i64 for D
  by unfold_locales
    (auto simp: PyNumber_mod_def mpz_tdiv_r_def same_rounding_def
       signed_modulo_int_eq_modulo_int fast_mod_mod fits_mod split: if_splits)

interpretation and_op: tagged_operation D And "(AND)" "\<lambda>_ _. True" fast_and_i64 for D
  by unfold_locales (auto simp: int_slot_def PyInteger_and_def fast_and_i64_def fits_bitwise)

interpretation or_op: tagged_operation D Or "(OR)" "\<lambda>_ _. True" fast_or_i64 for D
  by unfold_locales (auto simp: int_slot_def PyInteger_or_def fast_or_i64_def fits_bitwise)

interpretation xor_op: tagged_operation D Xor "(XOR)" "\<lambda>_ _. True" fast_xor_i64 for D
  by unfold_locales (auto simp: int_slot_def PyInteger_xor_def fast_xor_i64_def fits_bitwise)

definition shift_count :: "int \<Rightarrow> int \<Rightarrow> bool" where
  "shift_count a b \<longleftrightarrow> 0 \<le> b \<and> b < 2 ^ 64"

lemma mpz_get_ui_shift: "shift_count a b \<Longrightarrow> mpz_get_ui b = nat b"
  by (simp add: shift_count_def mpz_get_ui_def)

interpretation lshift_op: tagged_operation D Lshift "\<lambda>a b. a * 2 ^ nat b" shift_count fast_lshift_i64 for D
  by unfold_locales
    (auto simp: int_slot_def PyInteger_lshift_def fast_lshift_i64_def mpz_get_ui_shift Let_def
       fits_tagged_int_def split: if_splits)

lemma rshift_far: "fits_tagged_int a \<Longrightarrow> 64 \<le> b \<Longrightarrow> a div 2 ^ nat b = (if a < 0 then - 1 else 0)"
proof -
  assume a: "fits_tagged_int a" "64 \<le> b"
  have "(2::int) ^ 64 \<le> 2 ^ nat b" using a(2) by (intro power_increasing) auto
  moreover have "a div m = - 1" if "a < 0" "- m \<le> a" for m :: int
    using that by (intro int_div_pos_eq [of _ _ _ "a + m"]) auto
  ultimately show ?thesis using a(1)
    by (auto simp: fits_tagged_int_def)
qed

lemma fits_rshift: "fits_tagged_int a \<Longrightarrow> fits_tagged_int (a div 2 ^ n)"
proof -
  assume a: "fits_tagged_int a"
  have "0 \<le> a div 2 ^ n \<and> a div 2 ^ n \<le> a" if "0 \<le> a"
    using that zdiv_mono2 [of a 1 "2 ^ n"] by (simp add: pos_imp_zdiv_nonneg_iff)
  moreover have "a \<le> a div 2 ^ n \<and> a div 2 ^ n < 0" if "a < 0"
    using that zdiv_mono2_neg [of a 1 "2 ^ n"] by (simp add: neg_imp_zdiv_neg_iff pos_imp_zdiv_neg_iff)
  ultimately show ?thesis using a by (cases "0 \<le> a") (auto simp: fits_tagged_int_def)
qed

interpretation rshift_op: tagged_operation D Rshift "\<lambda>a b. a div 2 ^ nat b" shift_count fast_rshift_i64 for D
  by unfold_locales
    (auto simp: int_slot_def PyInteger_rshift_def fast_rshift_i64_def mpz_get_ui_shift
       rshift_far fits_rshift drop_bit_eq_div  split: if_splits)

interpretation boxed_floordiv: boxed_operation D Floordiv "(sdiv)" "\<lambda>_ b. b \<noteq> 0" for D
  by unfold_locales (simp add: PyNumber_floordiv_def mpz_tdiv_q_def)

lemma fits_div: "fits_tagged_int a \<Longrightarrow> b \<noteq> - 1 \<Longrightarrow> fits_tagged_int (a div b)"
proof -
  assume a: "fits_tagged_int a" and b: "b \<noteq> - 1"
  have pos: "fits_tagged_int (a div b)" if "0 < b"
    using a that zdiv_mono2 [of a 1 b] zdiv_mono2_neg [of a 1 b] pos_imp_zdiv_nonneg_iff [of b a]
    by (cases "0 \<le> a") (auto simp: fits_tagged_int_def)
  have neg: "fits_tagged_int (a div b)" if "b < 0"
  proof -
    have e: "a div b = - a div - b" by simp
    show ?thesis
      using a b that zdiv_mono2 [of "- a" 2 "- b"] zdiv_mono2_neg [of "- a" 1 "- b"]
        pos_imp_zdiv_nonneg_iff [of "- b" "- a"]
      unfolding e by (cases "a \<le> 0") (auto simp: fits_tagged_int_def)
  qed
  consider "b < 0" | "b = 0" | "0 < b" by linarith
  then show ?thesis using pos neg by cases (auto simp: fits_tagged_int_def)
qed

section \<open>Properties\<close>

text \<open>The tagged encoding is exact. Decoding an encoded integer gives it back for exactly the
  integers between \<^verbatim>\<open>kTaggedIntMin\<close> and \<^verbatim>\<open>kTaggedIntMax\<close>; encoding a decoded word gives it back for
  exactly the tagged words; and every word is tagged, a heap pointer or null, exclusively.\<close>

theorem tagged_encoding:
  "(as_int (from_int v) = v \<longleftrightarrow> fits_tagged_int v) \<and>
   (from_int (as_int w) = w \<longleftrightarrow> is_tagged_int w) \<and>
   (is_heap_object w \<or> is_null w \<longleftrightarrow> \<not> is_tagged_int w) \<and>
   \<not> (is_heap_object w \<and> is_null w) \<and>
   (are_both_tagged_int w u \<longleftrightarrow> is_tagged_int w \<and> is_tagged_int u)"
proof (intro conjI)
  show "as_int (from_int v) = v \<longleftrightarrow> fits_tagged_int v"
    using as_int_from_int as_int_fits [of "from_int v"] by auto
  show "from_int (as_int w) = w \<longleftrightarrow> is_tagged_int w"
    using from_int_as_int is_tagged_from_int by metis
  show "is_heap_object w \<or> is_null w \<longleftrightarrow> \<not> is_tagged_int w"
    by (rule tagged_or_heap)
qed (simp_all add: are_both_tagged_iff is_heap_object_def is_null_def)

text \<open>C1: Addition, subtraction and multiplication are exact on all integers: whether the operands are
  tagged words, boxed integers or booleans, and whether the result fits a word or overflows into a
  boxed integer, the word returned denotes the mathematical result and no object of the heap is
  changed. The only failure is an allocator that refuses a request.\<close>

theorem rt_arithmetic_exact:
  assumes "alloc_ok alloc" and "heap_ok h" and "denote h lhs = Some a" and "denote h rhs = Some b"
  shows "yields alloc h (a + b) (rt_binary_add alloc D other h lhs rhs) \<and>
         yields alloc h (a - b) (rt_binary_sub alloc D other h lhs rhs) \<and>
         yields alloc h (a * b) (rt_binary_mul alloc D other h lhs rhs)"
  unfolding rt_binary_add_def rt_binary_sub_def rt_binary_mul_def
  using add_op.rt_binary_denote [OF assms] sub_op.rt_binary_denote [OF assms]
    mul_op.rt_binary_denote [OF assms] by simp

text \<open>C15: On operands that fit a tagged word, division and modulo with a non-zero divisor round down, as
  Python's do, although the C++ operators they are built on truncate.\<close>

theorem rt_division_floors:
  assumes "alloc_ok alloc" and "heap_ok h" and "denote h lhs = Some a" and "denote h rhs = Some b"
    and "fits_tagged_int a" and "fits_tagged_int b" and "b \<noteq> 0"
  shows "yields alloc h (a div b) (rt_binary_floordiv alloc D other h lhs rhs) \<and>
         yields alloc h (a mod b) (rt_binary_mod alloc D other h lhs rhs)"
proof -
  have "same_rounding a b \<or> fast_floordiv_i64 a b \<noteq> None"
    using fits_div [of a b] assms(5,7)
    by (cases "b = - 1") (auto simp: fast_floordiv_div same_rounding_def)
  moreover have "fast_mod_i64 a b \<noteq> None" using assms(7) by (simp add: fast_mod_mod)
  ultimately show ?thesis
    unfolding rt_binary_floordiv_def rt_binary_mod_def
    using floordiv_op.rt_binary_denote [OF assms(1-4)] mod_op.rt_binary_denote [OF assms(1-4)] assms(5,6)
    by simp
qed

text \<open>As soon as one operand of \<^verbatim>\<open>//\<close> does not fit a tagged word the quotient is truncated instead
  of rounded down: the boxed slot divides with the operator of \<^verbatim>\<open>mpz_class\<close>.\<close>

theorem rt_floordiv_boxed_truncates:
  assumes "alloc_ok alloc" and "heap_ok h" and "denote h lhs = Some a" and "denote h rhs = Some b"
    and "\<not> (fits_tagged_int a \<and> fits_tagged_int b)" and "b \<noteq> 0"
  shows "yields alloc h (a sdiv b) (rt_binary_floordiv alloc D other h lhs rhs)"
  unfolding rt_binary_floordiv_def using assms by (rule boxed_floordiv.rt_binary_boxed)

text \<open>The bitwise operations compute the two's complement operations of the denoted integers.\<close>

theorem rt_bitwise_exact:
  assumes "alloc_ok alloc" and "heap_ok h" and "denote h lhs = Some a" and "denote h rhs = Some b"
  shows "yields alloc h (a AND b) (rt_binary_and alloc D other h lhs rhs) \<and>
         yields alloc h (a OR b) (rt_binary_or alloc D other h lhs rhs) \<and>
         yields alloc h (a XOR b) (rt_binary_xor alloc D other h lhs rhs)"
  unfolding rt_binary_and_def rt_binary_or_def rt_binary_xor_def
  using and_op.rt_binary_denote [OF assms] or_op.rt_binary_denote [OF assms]
    xor_op.rt_binary_denote [OF assms] by simp

text \<open>Shifts by a count between 0 and the largest \<^verbatim>\<open>unsigned long\<close> multiply by a power of two
  and divide by it rounding down, on every path (also where the count exceeds the word's width).\<close>

theorem rt_shifts_exact:
  assumes "alloc_ok alloc" and "heap_ok h" and "denote h lhs = Some a" and "denote h rhs = Some b"
    and "0 \<le> b" and "b < 2 ^ 64"
  shows "yields alloc h (a * 2 ^ nat b) (rt_binary_lshift alloc D other h lhs rhs) \<and>
         yields alloc h (a div 2 ^ nat b) (rt_binary_rshift alloc D other h lhs rhs)"
  unfolding rt_binary_lshift_def rt_binary_rshift_def
  using lshift_op.rt_binary_denote [OF assms(1-4)] rshift_op.rt_binary_denote [OF assms(1-4)]
    assms(5,6) by (simp add: shift_count_def)

section \<open>Witnesses\<close>

text \<open>A heap with the two booleans and two integers too large for a tagged word, and an allocator
  that hands out the first free of four blocks.\<close>

definition demo_heap :: "unit rt_heap" where
  "demo_heap = \<lparr> objs = [8 \<mapsto> PyBool True, 16 \<mapsto> PyBool False, 24 \<mapsto> PyInteger 9223372036854775807,
                         32 \<mapsto> PyInteger (- 9223372036854775807)],
                 s_cache = Map.empty, s_py_true = 8, s_py_false = 16 \<rparr>"

definition demo_alloc :: "unit allocator" where
  "demo_alloc h = find (\<lambda>p. objs h p = None) [64, 80, 96, 112]"

definition demo_doubles :: "unit double_ops" where
  "demo_doubles =
     \<lparr> of_mpz = \<lambda>_. (), dadd = \<lambda>_ _. (), dsub = \<lambda>_ _. (), dmul = \<lambda>_ _. (), ddiv = \<lambda>_ _. (),
       dremainder = \<lambda>_ _. (), dfloor = \<lambda>_. (), dneg = \<lambda>_. (), dabs = \<lambda>_. (),
       deq = \<lambda>_ _. True, dlt = \<lambda>_ _. False, mpz_eq_d = \<lambda>_ _. False, mpz_lt_d = \<lambda>_ _. False,
       mpz_gt_d = \<lambda>_ _. False, dzero = \<lambda>_. False \<rparr>"

definition demo_other :: "binop \<Rightarrow> unit py_object \<Rightarrow> unit py_object \<Rightarrow> unit py_object py_result" where
  "demo_other f a b = Err TypeError"

lemma demo_alloc_ok: "alloc_ok demo_alloc"
  by (auto simp: alloc_ok_def demo_alloc_def split: if_splits)

lemma demo_heap_ok: "heap_ok demo_heap"
  by (auto simp: heap_ok_def demo_heap_def bool_ptr_def split: if_splits)

lemma demo_denote:
  "denote demo_heap 8 = Some 1"
  "denote demo_heap 24 = Some 9223372036854775807"
  "denote demo_heap 32 = Some (- 9223372036854775807)"
  by (simp_all add: denote_def demo_heap_def is_tagged_int_def)

lemma demo_fits:
  "fits_tagged_int (- 7)" "fits_tagged_int 2" "\<not> fits_tagged_int (- 9223372036854775807)"
  by (simp_all add: fits_tagged_int_def)

lemmas demo = demo_alloc_ok demo_heap_ok

theorem rt_arithmetic_exact_witness:
  "yields demo_alloc demo_heap 9223372036854775808
     (rt_binary_add demo_alloc demo_doubles demo_other demo_heap 24 8)"
  using rt_arithmetic_exact [OF demo demo_denote(2) demo_denote(1)] by simp

theorem rt_division_floors_witness:
  "yields demo_alloc demo_heap (- 4)
     (rt_binary_floordiv demo_alloc demo_doubles demo_other demo_heap (from_int (- 7)) (from_int 2))"
  using rt_division_floors [OF demo denote_from_int denote_from_int, of "- 7" 2] by (simp add: demo_fits)

theorem rt_floordiv_boxed_truncates_witness:
  "yields demo_alloc demo_heap (- 4611686018427387903)
     (rt_binary_floordiv demo_alloc demo_doubles demo_other demo_heap 32 (from_int 2)) \<and>
   (- 9223372036854775807) div 2 = (- 4611686018427387904 :: int)"
  using rt_floordiv_boxed_truncates [OF demo demo_denote(3) denote_from_int, of 2]
  by (simp add: demo_fits signed_divide_int_def)

theorem rt_bitwise_exact_witness:
  "yields demo_alloc demo_heap 1 (rt_binary_and demo_alloc demo_doubles demo_other demo_heap 24 8)"
  using rt_bitwise_exact [OF demo demo_denote(2) demo_denote(1)] by simp

theorem rt_shifts_exact_witness:
  "yields demo_alloc demo_heap 18446744073709551614
     (rt_binary_lshift demo_alloc demo_doubles demo_other demo_heap 24 8)"
  using rt_shifts_exact [OF demo demo_denote(2) demo_denote(1)] by simp

end
