(* ===== verification/Tagged_Ops.thy ===== *)
theory Tagged_Ops
  imports Tagged
begin

text \<open>
  The rest of the operations on tagged words: unary operations, truth, comparisons, the member
  operations of \<^verbatim>\<open>RtValue\<close> and the in-place operations built on them (\<^verbatim>\<open>rt_op.cpp\<close>,
  \<^verbatim>\<open>rt_cmp.cpp\<close>, \<^verbatim>\<open>RtValue.cpp\<close>), the hash and equality that dictionaries use
  (\<^verbatim>\<open>RtValueHash\<close>, \<^verbatim>\<open>RtValueEq\<close>), and the method cache (\<^verbatim>\<open>MethodCache\<close>). What the slots of
  other types than numbers do is a parameter.
\<close>

unbundle bit_operations_syntax

section \<open>Unary operations\<close>

datatype unop = Neg | Invert

definition fast_neg_i64 :: "int \<Rightarrow> rt_value option" where
  "fast_neg_i64 v = (if v = kTaggedIntMin then None else Some (from_int (- v)))"

definition fast_invert_i64 :: "int \<Rightarrow> rt_value option" where
  "fast_invert_i64 v = Some (from_int (NOT v))"

definition object_unop ::
  "'f double_ops \<Rightarrow> (unop \<Rightarrow> 'f py_object \<Rightarrow> 'f py_object py_result) \<Rightarrow> unop \<Rightarrow> 'f py_object
   \<Rightarrow> 'f py_object py_result" where
  "object_unop D other f obj =
     (if is_number obj then (case f of Neg \<Rightarrow> PyNumber_neg D obj | Invert \<Rightarrow> PyNumber_invert obj)
      else other f obj)"

definition slow_unop ::
  "'f allocator \<Rightarrow> 'f double_ops \<Rightarrow> (unop \<Rightarrow> 'f py_object \<Rightarrow> 'f py_object py_result)
   \<Rightarrow> unop \<Rightarrow> 'f rt_heap \<Rightarrow> rt_value \<Rightarrow> ('f rt_heap \<times> rt_value) py_result" where
  "slow_unop alloc D other f h value =
     and_then (box alloc h value) (\<lambda>(h1, p).
     and_then (deref h1 p) (\<lambda>a.
     and_then (object_unop D other f a) (\<lambda>r. store_result alloc h1 r)))"

definition unary_int_or_slow ::
  "'f rt_heap \<Rightarrow> rt_value \<Rightarrow> (int \<Rightarrow> rt_value option)
   \<Rightarrow> ('f rt_heap \<Rightarrow> rt_value \<Rightarrow> ('f rt_heap \<times> rt_value) py_result)
   \<Rightarrow> ('f rt_heap \<times> rt_value) py_result" where
  "unary_int_or_slow h obj fast slow =
     (let on_flat =
        and_then (flatten h obj) (\<lambda>value.
          if is_tagged_int value then
            (case fast (as_int value) of Some p \<Rightarrow> Ok (h, p) | None \<Rightarrow> slow h value)
          else slow h value)
      in if is_tagged_int obj then
           (case fast (as_int obj) of Some p \<Rightarrow> Ok (h, p) | None \<Rightarrow> on_flat)
         else on_flat)"

definition rt_unary_neg where
  "rt_unary_neg alloc D other h obj =
     unary_int_or_slow h obj fast_neg_i64 (slow_unop alloc D other Neg)"

definition rt_unary_invert where
  "rt_unary_invert alloc D other h obj =
     unary_int_or_slow h obj fast_invert_i64 (slow_unop alloc D other Invert)"

text \<open>\<^verbatim>\<open>+x\<close> on an integer is the operand itself.\<close>

definition rt_unary_pos ::
  "'f allocator \<Rightarrow> ('f py_object \<Rightarrow> 'f py_object py_result) \<Rightarrow> 'f rt_heap \<Rightarrow> rt_value
   \<Rightarrow> ('f rt_heap \<times> rt_value) py_result" where
  "rt_unary_pos alloc other h obj =
     (if is_tagged_int obj then Ok (h, obj)
      else and_then (flatten h obj) (\<lambda>value.
        if is_tagged_int value then Ok (h, obj)
        else and_then (deref h obj) (\<lambda>a.
             and_then (if is_number a then PyNumber_pos a else other a) (\<lambda>r.
               store_result alloc h r))))"

section \<open>Truth\<close>

text \<open>\<^verbatim>\<open>true_\<close> is virtual: \<^verbatim>\<open>PyBool\<close> overrides it, numbers go to \<^verbatim>\<open>__bool__\<close>.\<close>

definition object_true ::
  "'f double_ops \<Rightarrow> ('f py_object \<Rightarrow> bool py_result) \<Rightarrow> 'f py_object \<Rightarrow> bool py_result" where
  "object_true D other obj =
     (case obj of
        PyBool b \<Rightarrow> Ok b
      | _ \<Rightarrow> if is_number obj then PyNumber_bool D obj else other obj)"

definition truthy ::
  "'f double_ops \<Rightarrow> ('f py_object \<Rightarrow> bool py_result) \<Rightarrow> 'f rt_heap \<Rightarrow> rt_value \<Rightarrow> bool py_result" where
  "truthy D other h obj =
     (if is_tagged_int obj then Ok (as_int obj \<noteq> 0)
      else and_then (flatten h obj) (\<lambda>value.
        if is_tagged_int value then Ok (as_int value \<noteq> 0)
        else and_then (deref h value) (\<lambda>boxed.
          case boxed of
            PyBool b \<Rightarrow> Ok b
          | PyNone \<Rightarrow> Ok False
          | _ \<Rightarrow> object_true D other boxed)))"

definition truthy_value ::
  "'f double_ops \<Rightarrow> ('f py_object \<Rightarrow> bool py_result) \<Rightarrow> 'f rt_heap \<Rightarrow> rt_value \<Rightarrow> bool py_result" where
  "truthy_value D other h value =
     (if is_tagged_int value then Ok (as_int value \<noteq> 0)
      else if is_null value then Ok False
      else if value = bool_ptr h True then Ok True
      else if value = bool_ptr h False then Ok False
      else and_then (deref h value) (\<lambda>boxed.
        case boxed of
          PyNone \<Rightarrow> Ok False
        | PyBool b \<Rightarrow> Ok b
        | _ \<Rightarrow> object_true D other boxed))"

definition is_truthy ::
  "'f double_ops \<Rightarrow> ('f py_object \<Rightarrow> bool py_result) \<Rightarrow> 'f rt_heap \<Rightarrow> rt_value \<Rightarrow> bool py_result" where
  "is_truthy D other h value =
     (if is_null value then Ok False
      else if is_tagged_int value then Ok (as_int value \<noteq> 0)
      else and_then (deref h value) (\<lambda>boxed. unwrap (object_true D other boxed)))"

definition rt_unary_not where
  "rt_unary_not D other h obj = and_then (truthy D other h obj) (\<lambda>b. Ok (bool_ptr h (\<not> b)))"

section \<open>Comparisons\<close>

datatype cmpop = Py_LT | Py_LE | Py_EQ | Py_NE | Py_GT | Py_GE

text \<open>The predicates the exported comparisons pass to the dispatch.\<close>

primrec int_compare :: "cmpop \<Rightarrow> int \<Rightarrow> int \<Rightarrow> bool" where
  "int_compare Py_LT l r = (l < r)"
| "int_compare Py_LE l r = (l \<le> r)"
| "int_compare Py_EQ l r = (l = r)"
| "int_compare Py_NE l r = (l \<noteq> r)"
| "int_compare Py_GT l r = (l > r)"
| "int_compare Py_GE l r = (l \<ge> r)"

primrec number_compare ::
  "cmpop \<Rightarrow> 'f double_ops \<Rightarrow> 'f py_object \<Rightarrow> 'f py_object \<Rightarrow> 'f py_object py_result" where
  "number_compare Py_LT D = PyNumber_lt D"
| "number_compare Py_LE D = PyNumber_le D"
| "number_compare Py_EQ D = PyNumber_eq D"
| "number_compare Py_NE D = PyNumber_ne D"
| "number_compare Py_GT D = PyNumber_gt D"
| "number_compare Py_GE D = PyNumber_ge D"

text \<open>
  \<^verbatim>\<open>PyObject::eq\<close> and its kin on the objects at \<open>p\<close> and \<open>q\<close>. \<^verbatim>\<open>eq\<close> and \<^verbatim>\<open>ne\<close> first look at
  identity, except for floats, then ask the slot of a right operand whose type is a proper subclass
  (\<^verbatim>\<open>bool\<close> under \<^verbatim>\<open>int\<close>). The slots of numbers never answer \<^verbatim>\<open>NotImplemented\<close>. Operands that
  are not both numbers are left to \<open>other\<close>.
\<close>

fun may_break_reflexive_equality :: "'f py_object \<Rightarrow> bool" where
  "may_break_reflexive_equality (PyFloat x) = True"
| "may_break_reflexive_equality _ = False"

fun bool_below_int :: "'f py_object \<Rightarrow> 'f py_object \<Rightarrow> bool" where
  "bool_below_int (PyInteger a) (PyBool b) = True"
| "bool_below_int _ _ = False"

type_synonym 'f compare_slots =
  "cmpop \<Rightarrow> rt_value \<Rightarrow> 'f py_object \<Rightarrow> rt_value \<Rightarrow> 'f py_object \<Rightarrow> 'f py_object py_result"

definition object_compare :: "'f double_ops \<Rightarrow> 'f compare_slots \<Rightarrow> 'f compare_slots" where
  "object_compare D other op p a q b =
     (if is_number a \<and> is_number b then
        (if op = Py_EQ \<or> op = Py_NE then
           (if p = q \<and> \<not> may_break_reflexive_equality a then Ok (py_bool (op = Py_EQ))
            else if bool_below_int a b then number_compare op D b a
            else number_compare op D a b)
         else number_compare op D a b)
      else other op p a q b)"

text \<open>\<^verbatim>\<open>lhs.box()->op(rhs.box())\<close>.\<close>

definition slow_compare ::
  "'f allocator \<Rightarrow> 'f double_ops \<Rightarrow> 'f compare_slots \<Rightarrow> cmpop \<Rightarrow> 'f rt_heap \<Rightarrow> rt_value \<Rightarrow> rt_value
   \<Rightarrow> ('f rt_heap \<times> rt_value) py_result" where
  "slow_compare alloc D other op h lhs rhs =
     and_then (box alloc h lhs) (\<lambda>(h1, p).
     and_then (box alloc h1 rhs) (\<lambda>(h2, q).
     and_then (deref h2 p) (\<lambda>a.
     and_then (deref h2 q) (\<lambda>b.
     and_then (object_compare D other op p a q b) (\<lambda>r. store_result alloc h2 r)))))"

text \<open>The members \<^verbatim>\<open>compare_eq\<close> and \<^verbatim>\<open>compare_ne\<close>, then the ordering comparisons.\<close>

definition RtValue_compare_eq ::
  "'f allocator \<Rightarrow> 'f double_ops \<Rightarrow> 'f compare_slots \<Rightarrow> 'f rt_heap \<Rightarrow> rt_value \<Rightarrow> rt_value
   \<Rightarrow> ('f rt_heap \<times> rt_value) py_result" where
  "RtValue_compare_eq alloc D other h lhs rhs =
     (if lhs = rhs then
        (if is_tagged_int lhs \<or> is_null lhs then Ok (h, bool_ptr h True)
         else and_then (deref h lhs) (\<lambda>obj.
           if \<not> may_break_reflexive_equality obj then Ok (h, bool_ptr h True)
           else unwrap (slow_compare alloc D other Py_EQ h lhs lhs)))
      else if are_both_tagged_int lhs rhs then Ok (h, bool_ptr h False)
      else unwrap (slow_compare alloc D other Py_EQ h lhs rhs))"

definition RtValue_compare_ne ::
  "'f allocator \<Rightarrow> 'f double_ops \<Rightarrow> 'f compare_slots \<Rightarrow> 'f rt_heap \<Rightarrow> rt_value \<Rightarrow> rt_value
   \<Rightarrow> ('f rt_heap \<times> rt_value) py_result" where
  "RtValue_compare_ne alloc D other h lhs rhs =
     (if lhs = rhs then
        (if is_tagged_int lhs \<or> is_null lhs then Ok (h, bool_ptr h False)
         else and_then (deref h lhs) (\<lambda>obj.
           if \<not> may_break_reflexive_equality obj then Ok (h, bool_ptr h False)
           else unwrap (slow_compare alloc D other Py_NE h lhs lhs)))
      else if are_both_tagged_int lhs rhs then Ok (h, bool_ptr h True)
      else unwrap (slow_compare alloc D other Py_NE h lhs rhs))"

definition RtValue_compare_order ::
  "cmpop \<Rightarrow> 'f allocator \<Rightarrow> 'f double_ops \<Rightarrow> 'f compare_slots \<Rightarrow> 'f rt_heap \<Rightarrow> rt_value \<Rightarrow> rt_value
   \<Rightarrow> ('f rt_heap \<times> rt_value) py_result" where
  "RtValue_compare_order op alloc D other h lhs rhs =
     (if are_both_tagged_int lhs rhs
      then Ok (h, bool_ptr h (int_compare op (as_int lhs) (as_int rhs)))
      else unwrap (slow_compare alloc D other op h lhs rhs))"

primrec RtValue_compare where
  "RtValue_compare Py_EQ = RtValue_compare_eq"
| "RtValue_compare Py_NE = RtValue_compare_ne"
| "RtValue_compare Py_LT = RtValue_compare_order Py_LT"
| "RtValue_compare Py_LE = RtValue_compare_order Py_LE"
| "RtValue_compare Py_GT = RtValue_compare_order Py_GT"
| "RtValue_compare Py_GE = RtValue_compare_order Py_GE"

definition compare_int_or_slow ::
  "'f rt_heap \<Rightarrow> rt_value \<Rightarrow> rt_value \<Rightarrow> (int \<Rightarrow> int \<Rightarrow> bool)
   \<Rightarrow> ('f rt_heap \<Rightarrow> rt_value \<Rightarrow> rt_value \<Rightarrow> ('f rt_heap \<times> rt_value) py_result)
   \<Rightarrow> ('f rt_heap \<times> rt_value) py_result" where
  "compare_int_or_slow h lhs rhs predicate slow =
     (if are_both_tagged_int lhs rhs
      then Ok (h, bool_ptr h (predicate (as_int lhs) (as_int rhs)))
      else and_then (flatten h lhs) (\<lambda>l.
           and_then (flatten h rhs) (\<lambda>r.
             if are_both_tagged_int l r
             then Ok (h, bool_ptr h (predicate (as_int l) (as_int r)))
             else slow h l r)))"

definition rt_compare where
  "rt_compare op alloc D other h lhs rhs =
     compare_int_or_slow h lhs rhs (int_compare op) (RtValue_compare op alloc D other)"

definition rt_compare_eq where "rt_compare_eq = rt_compare Py_EQ"
definition rt_compare_ne where "rt_compare_ne = rt_compare Py_NE"
definition rt_compare_lt where "rt_compare_lt = rt_compare Py_LT"
definition rt_compare_le where "rt_compare_le = rt_compare Py_LE"
definition rt_compare_gt where "rt_compare_gt = rt_compare Py_GT"
definition rt_compare_ge where "rt_compare_ge = rt_compare Py_GE"

definition rt_compare_is :: "'f rt_heap \<Rightarrow> rt_value \<Rightarrow> rt_value \<Rightarrow> rt_value" where
  "rt_compare_is h lhs rhs = (if lhs = rhs then bool_ptr h True else bool_ptr h False)"

definition rt_compare_is_not :: "'f rt_heap \<Rightarrow> rt_value \<Rightarrow> rt_value \<Rightarrow> rt_value" where
  "rt_compare_is_not h lhs rhs = (if lhs \<noteq> rhs then bool_ptr h True else bool_ptr h False)"

section \<open>The member operations and the in-place operations\<close>

text \<open>The members differ from the exported operations in that they do not flatten, and that they
  unwrap: a Python error in the slow path is a failed assertion.\<close>

definition RtValue_binop ::
  "(int \<Rightarrow> int \<Rightarrow> rt_value option) \<Rightarrow> binop \<Rightarrow> 'f allocator \<Rightarrow> 'f double_ops
   \<Rightarrow> (binop \<Rightarrow> 'f py_object \<Rightarrow> 'f py_object \<Rightarrow> 'f py_object py_result)
   \<Rightarrow> 'f rt_heap \<Rightarrow> rt_value \<Rightarrow> rt_value \<Rightarrow> ('f rt_heap \<times> rt_value) py_result" where
  "RtValue_binop fast f alloc D other h lhs rhs =
     (case (if are_both_tagged_int lhs rhs then fast (as_int lhs) (as_int rhs) else None) of
        Some p \<Rightarrow> Ok (h, p)
      | None \<Rightarrow> unwrap (slow_binop alloc D other f h lhs rhs))"

text \<open>\<^verbatim>\<open>RtValue::lshift\<close> multiplies by \<^verbatim>\<open>1LL << r\<close> with an overflow check.\<close>

definition lshift_overflow_i64 :: "int \<Rightarrow> int \<Rightarrow> rt_value option" where
  "lshift_overflow_i64 l r =
     (if r \<ge> 0 \<and> r < 63 then
        (let result = l * 2 ^ nat r in
         if in_int64 result \<and> fits_tagged_int result then Some (from_int result) else None)
      else None)"

definition RtValue_add where "RtValue_add = RtValue_binop fast_add_i64 Add"
definition RtValue_sub where "RtValue_sub = RtValue_binop fast_sub_i64 Subtract"
definition RtValue_mul where "RtValue_mul = RtValue_binop fast_mul_i64 Multiply"
definition RtValue_floordiv where "RtValue_floordiv = RtValue_binop fast_floordiv_i64 Floordiv"
definition RtValue_mod where "RtValue_mod = RtValue_binop fast_mod_i64 Modulo"
definition RtValue_bit_and where "RtValue_bit_and = RtValue_binop fast_and_i64 And"
definition RtValue_bit_or where "RtValue_bit_or = RtValue_binop fast_or_i64 Or"
definition RtValue_bit_xor where "RtValue_bit_xor = RtValue_binop fast_xor_i64 Xor"
definition RtValue_lshift where "RtValue_lshift = RtValue_binop lshift_overflow_i64 Lshift"
definition RtValue_rshift where "RtValue_rshift = RtValue_binop fast_rshift_i64 Rshift"

text \<open>
  \<^verbatim>\<open>try_inplace_method\<close>: \<open>call\<close> stands for looking up the method on the left operand and calling
  it; \<open>None\<close> for every way the C++ function returns a null pointer but the last, an answer of
  \<^verbatim>\<open>NotImplemented\<close>.
\<close>

definition try_inplace_method ::
  "('f py_object \<Rightarrow> 'f py_object \<Rightarrow> 'f py_object option) \<Rightarrow> 'f py_object \<Rightarrow> 'f py_object
   \<Rightarrow> 'f py_object option" where
  "try_inplace_method call lhs rhs =
     (case call lhs rhs of
        None \<Rightarrow> None
      | Some PyNotImplemented \<Rightarrow> None
      | Some ret \<Rightarrow> Some ret)"

text \<open>The shared body of the in-place operations: the member operation on flattened integers,
  the in-place method, the binary operation.\<close>

definition rt_inplace ::
  "(int \<Rightarrow> int \<Rightarrow> rt_value option) \<Rightarrow> binop
   \<Rightarrow> (binop \<Rightarrow> 'f py_object \<Rightarrow> 'f py_object \<Rightarrow> 'f py_object option) \<Rightarrow> 'f allocator \<Rightarrow> 'f double_ops
   \<Rightarrow> (binop \<Rightarrow> 'f py_object \<Rightarrow> 'f py_object \<Rightarrow> 'f py_object py_result)
   \<Rightarrow> 'f rt_heap \<Rightarrow> rt_value \<Rightarrow> rt_value \<Rightarrow> ('f rt_heap \<times> rt_value) py_result" where
  "rt_inplace fast f call alloc D other h lhs rhs =
     and_then (flatten h lhs) (\<lambda>l.
     and_then (flatten h rhs) (\<lambda>r.
       if is_tagged_int l \<and> is_tagged_int r then RtValue_binop fast f alloc D other h l r
       else
         and_then (box alloc h lhs) (\<lambda>(h1, p).
         and_then (box alloc h1 rhs) (\<lambda>(h2, q).
         and_then (deref h2 p) (\<lambda>a.
         and_then (deref h2 q) (\<lambda>b.
           case try_inplace_method (call f) a b of
             Some ret \<Rightarrow> store_result alloc h2 ret
           | None \<Rightarrow> and_then (object_binop D other f a b) (\<lambda>res. store_result alloc h2 res)))))))"

text \<open>\<^verbatim>\<open>rt_inplace_add\<close> alone tries the raw words first.\<close>

definition rt_inplace_add where
  "rt_inplace_add call alloc D other h lhs rhs =
     (case (if are_both_tagged_int lhs rhs then fast_add_i64 (as_int lhs) (as_int rhs) else None) of
        Some p \<Rightarrow> Ok (h, p)
      | None \<Rightarrow> rt_inplace fast_add_i64 Add call alloc D other h lhs rhs)"

definition rt_inplace_sub where "rt_inplace_sub = rt_inplace fast_sub_i64 Subtract"
definition rt_inplace_mul where "rt_inplace_mul = rt_inplace fast_mul_i64 Multiply"
definition rt_inplace_floordiv where "rt_inplace_floordiv = rt_inplace fast_floordiv_i64 Floordiv"
definition rt_inplace_mod where "rt_inplace_mod = rt_inplace fast_mod_i64 Modulo"
definition rt_inplace_lshift where "rt_inplace_lshift = rt_inplace lshift_overflow_i64 Lshift"
definition rt_inplace_rshift where "rt_inplace_rshift = rt_inplace fast_rshift_i64 Rshift"
definition rt_inplace_and where "rt_inplace_and = rt_inplace fast_and_i64 And"
definition rt_inplace_or where "rt_inplace_or = rt_inplace fast_or_i64 Or"
definition rt_inplace_xor where "rt_inplace_xor = rt_inplace fast_xor_i64 Xor"

section \<open>Hash and equality of dictionary keys\<close>

text \<open>The hash of an integer, boolean or other object; \<open>other\<close> for the types not modelled here.\<close>

definition object_hash :: "('f py_object \<Rightarrow> int py_result) \<Rightarrow> 'f py_object \<Rightarrow> int py_result" where
  "object_hash other obj =
     (case as_big_int obj of Some v \<Rightarrow> Ok (PyInteger_hash v) | None \<Rightarrow> other obj)"

definition RtValueHash :: "('f py_object \<Rightarrow> int py_result) \<Rightarrow> 'f rt_heap \<Rightarrow> rt_value \<Rightarrow> 64 word py_result" where
  "RtValueHash other h v =
     (if is_null v then Ok 0
      else if is_tagged_int v then Ok (word_of_int (hash_big_int (as_int v)))
      else and_then (deref h v) (\<lambda>obj.
        case object_hash other obj of
          Ok x \<Rightarrow> Ok (word_of_int x)
        | Err e \<Rightarrow> Ok v
        | Abort f \<Rightarrow> Abort f))"

text \<open>\<^verbatim>\<open>richcompare\<close> with \<^verbatim>\<open>Py_EQ\<close>: both orders, then identity.\<close>

definition richcompare_eq ::
  "'f double_ops \<Rightarrow> 'f compare_slots \<Rightarrow> rt_value \<Rightarrow> 'f py_object \<Rightarrow> rt_value \<Rightarrow> 'f py_object
   \<Rightarrow> 'f py_object py_result" where
  "richcompare_eq D other p a q b =
     (let try_next = (\<lambda>r k. case r of
            Ok PyNotImplemented \<Rightarrow> k
          | Ok v \<Rightarrow> Ok v
          | Err e \<Rightarrow> k
          | Abort f \<Rightarrow> Abort f)
      in try_next (object_compare D other Py_EQ p a q b)
           (try_next (object_compare D other Py_EQ q b p a) (Ok (py_bool (p = q)))))"

definition RtValueEq ::
  "'f allocator \<Rightarrow> 'f double_ops \<Rightarrow> 'f compare_slots \<Rightarrow> 'f rt_heap \<Rightarrow> rt_value \<Rightarrow> rt_value
   \<Rightarrow> ('f rt_heap \<times> bool) py_result" where
  "RtValueEq alloc D other h lhs rhs =
     (if lhs = rhs then Ok (h, True)
      else if is_null lhs \<or> is_null rhs then Ok (h, is_null lhs \<and> is_null rhs)
      else if is_tagged_int lhs \<and> is_tagged_int rhs then Ok (h, as_int lhs = as_int rhs)
      else and_then (box alloc h lhs) (\<lambda>(h1, p).
           and_then (box alloc h1 rhs) (\<lambda>(h2, q).
           and_then (deref h2 p) (\<lambda>a.
           and_then (deref h2 q) (\<lambda>b.
             case richcompare_eq D other p a q b of
               Ok r \<Rightarrow> Ok (h2, case r of PyBool t \<Rightarrow> t | _ \<Rightarrow> False)
             | Err e \<Rightarrow> Ok (h2, False)
             | Abort f \<Rightarrow> Abort f)))))"

section \<open>The method cache\<close>

record cache_entry =
  instance_ptr :: "64 word"
  name_ptr :: "64 word"
  bound_method :: "64 word"

text \<open>The 128 entries, all zero at the start. \<open>get_method\<close> stands for the attribute lookup.\<close>

definition empty_cache :: "cache_entry list" where
  "empty_cache = replicate 128 \<lparr> instance_ptr = 0, name_ptr = 0, bound_method = 0 \<rparr>"

definition cache_index :: "64 word \<Rightarrow> 64 word \<Rightarrow> nat" where
  "cache_index obj name = unat ((drop_bit 4 obj XOR drop_bit 4 name) AND 127)"

definition load_method ::
  "(64 word \<Rightarrow> 64 word \<Rightarrow> 64 word py_result) \<Rightarrow> cache_entry list \<Rightarrow> 64 word \<Rightarrow> 64 word
   \<Rightarrow> (cache_entry list \<times> 64 word) py_result" where
  "load_method get_method cache obj name =
     (let idx = cache_index obj name; entry = cache ! idx in
      if instance_ptr entry = obj \<and> name_ptr entry = name then Ok (cache, bound_method entry)
      else (case get_method obj name of
              Abort f \<Rightarrow> Abort f
            | Err e \<Rightarrow> Ok (cache, 0)
            | Ok m \<Rightarrow> Ok (cache[idx := \<lparr> instance_ptr = obj, name_ptr = name, bound_method = m \<rparr>], m)))"

section \<open>Unary operations on integers\<close>

text \<open>The contract of a unary operation, as for the binary ones.\<close>

locale tagged_unary =
  fixes D :: "'f double_ops" and f :: unop and fast :: "int \<Rightarrow> rt_value option" and sem :: "int \<Rightarrow> int"
  assumes unary_slot: "object_unop D other f (PyInteger a) = Ok (PyInteger (sem a))"
    and unary_fast: "fits_tagged_int a \<Longrightarrow> fast a = Some p \<Longrightarrow>
      fits_tagged_int (sem a) \<and> p = from_int (sem a)"
begin

lemma slow_unop_denote:
  assumes al: "alloc_ok alloc" and h: "heap_ok h" and w: "slot_word h w a"
  shows "yields alloc h (sem a) (slow_unop alloc D other f h w)"
  unfolding slow_unop_def
proof (rule box_word_then [OF al h w, of 0])
  fix h1 p assume 1: "heap_ok h1" "grows 1 h h1" "objs h1 p = Some (PyInteger a)"
  have "alloc_or alloc h (1 + 0) (\<lambda>(h', p). heap_ok h' \<and> grows 3 h h' \<and> denote h' p = Some (sem a))
    (store_result alloc h1 (PyInteger (sem a)))"
    using store_int_denote [OF al 1(1)] 1(2)
    by (rule alloc_or_later) (auto dest!: grows_trans [OF 1(2)] elim: grows_mono)
  then have "yields alloc h (sem a) (store_result alloc h1 (PyInteger (sem a)))"
    by (rule alloc_or_mono) auto
  then show "yields alloc h (sem a) (and_then (deref h1 p) (\<lambda>x. and_then (object_unop D other f x)
      (store_result alloc h1)))"
    using 1(3) by (simp add: deref_def unary_slot)
qed auto

lemma unary_denote:
  assumes al: "alloc_ok alloc" and h: "heap_ok h" and a: "denote h obj = Some a"
  shows "yields alloc h (sem a) (unary_int_or_slow h obj fast (slow_unop alloc D other f))"
proof -
  obtain l where l: "flatten h obj = Ok l" "slot_word h l a"
      "is_tagged_int l \<longleftrightarrow> fits_tagged_int a" "is_tagged_int l \<Longrightarrow> as_int l = a"
    using flatten_word [OF h a] by metis
  have hit: "heap_ok h \<and> grows 3 h h \<and> denote h p = Some (sem a)"
    if "fits_tagged_int a" "fast a = Some p" for p
    using unary_fast [OF that] h by (simp add: denote_from_int)
  have raw: "as_int obj = a \<and> fits_tagged_int a" if "is_tagged_int obj"
    using that a as_int_fits [of obj] by (auto simp: denote_def)
  show ?thesis
    using hit raw l(3,4) slow_unop_denote [OF al h l(2)]
    by (auto simp: unary_int_or_slow_def Let_def l(1) split: option.splits)
qed

end

lemma fits_not: "fits_tagged_int (NOT a) = fits_tagged_int a"
  by (auto simp: fits_tagged_int_def not_int_def)

interpretation neg_op: tagged_unary D Neg fast_neg_i64 uminus for D
  by unfold_locales (auto simp: object_unop_def fast_neg_i64_def fits_tagged_int_def split: if_splits)

interpretation invert_op: tagged_unary D Invert fast_invert_i64 "(NOT)" for D
  by unfold_locales (auto simp: object_unop_def fast_invert_i64_def fits_not)

section \<open>Comparisons of integers\<close>

lemma number_compare_int:
  "number_compare op D (PyInteger a) (PyInteger b) = Ok (PyBool (int_compare op a b))"
  by (cases op)
     (auto simp: PyNumber_lt_def PyNumber_le_def PyNumber_eq_def PyNumber_ne_def PyNumber_gt_def
       PyNumber_ge_def py_bool_def negate_bool_def split: bool.splits)

lemma object_compare_int:
  "(p = q \<Longrightarrow> a = b) \<Longrightarrow>
   object_compare D other op p (PyInteger a) q (PyInteger b) = Ok (PyBool (int_compare op a b))"
  using number_compare_int [of op D a b] by (auto simp: object_compare_def py_bool_def)

abbreviation decides :: "'f allocator \<Rightarrow> 'f rt_heap \<Rightarrow> bool \<Rightarrow> ('f rt_heap \<times> rt_value) py_result \<Rightarrow> bool" where
  "decides alloc h t \<equiv> alloc_or alloc h 2 (\<lambda>(h', p). heap_ok h' \<and> grows 2 h h' \<and> p = bool_ptr h t)"

lemma slow_compare_decides:
  assumes al: "alloc_ok alloc" and h: "heap_ok h" and l: "slot_word h l a" and r: "slot_word h r b"
  shows "decides alloc h (int_compare op a b) (slow_compare alloc D other op h l r)"
  unfolding slow_compare_def
proof (rule box_words_then [OF al h l r])
  fix h2 p q assume h2: "heap_ok h2" "grows 2 h h2"
    and pq: "objs h2 p = Some (PyInteger a)" "objs h2 q = Some (PyInteger b)"
  then have "object_compare D other op p (PyInteger a) q (PyInteger b) = Ok (PyBool (int_compare op a b))"
    by (intro object_compare_int) auto
  then show "decides alloc h (int_compare op a b)
    (and_then (deref h2 p) (\<lambda>x. and_then (deref h2 q) (\<lambda>y.
       and_then (object_compare D other op p x q y) (store_result alloc h2))))"
    using pq h2 by (simp add: deref_def store_result_def grows_def)
qed

lemma slot_word_same:
  "slot_word h w a \<Longrightarrow> slot_word h w b \<Longrightarrow> a = b"
  by (auto simp: slot_word_def) (metis as_int_from_int)

lemma RtValue_compare_decides:
  assumes al: "alloc_ok alloc" and h: "heap_ok h" and l: "slot_word h l a" and r: "slot_word h r b"
  shows "decides alloc h (int_compare op a b) (RtValue_compare op alloc D other h l r)"
proof -
  note slow = slow_compare_decides [OF al h l r, THEN alloc_or_unwrap]
  have order: "decides alloc h (int_compare op a b) (RtValue_compare_order op alloc D other h l r)" for op
    using slow h l r
    by (auto simp: RtValue_compare_order_def are_both_tagged_iff slot_word_def as_int_from_int)
  have same: "a = b" if "l = r" using slot_word_same l r that by metis
  have diff: "a \<noteq> b" if "l \<noteq> r" "is_tagged_int l" "is_tagged_int r"
    using that l r by (auto simp: slot_word_def)
  have obj: "objs h l = Some (PyInteger a)" if "\<not> is_tagged_int l"
    using that l by (auto simp: slot_word_def)
  have eq: "decides alloc h (int_compare Py_EQ a b) (RtValue_compare_eq alloc D other h l r)"
    using same diff obj h slow [of Py_EQ D other]
    by (auto simp: RtValue_compare_eq_def are_both_tagged_iff deref_def)
  have ne: "decides alloc h (int_compare Py_NE a b) (RtValue_compare_ne alloc D other h l r)"
    using same diff obj h slow [of Py_NE D other]
    by (auto simp: RtValue_compare_ne_def are_both_tagged_iff deref_def)
  show ?thesis using order [of op] eq ne by (cases op) simp_all
qed

lemma rt_compare_decides:
  assumes al: "alloc_ok alloc" and h: "heap_ok h"
    and a: "denote h lhs = Some a" and b: "denote h rhs = Some b"
  shows "decides alloc h (int_compare op a b) (rt_compare op alloc D other h lhs rhs)"
proof -
  obtain l where l: "flatten h lhs = Ok l" "slot_word h l a" "is_tagged_int l \<Longrightarrow> as_int l = a"
    using flatten_word [OF h a] by metis
  obtain r where r: "flatten h rhs = Ok r" "slot_word h r b" "is_tagged_int r \<Longrightarrow> as_int r = b"
    using flatten_word [OF h b] by metis
  have "as_int lhs = a" "as_int rhs = b" if "are_both_tagged_int lhs rhs"
    using that a b by (auto simp: are_both_tagged_iff denote_def)
  then show ?thesis
    using RtValue_compare_decides [OF al h l(2) r(2)] l(3) r(3) h
    by (auto simp: rt_compare_def compare_int_or_slow_def l(1) r(1) are_both_tagged_iff)
qed

section \<open>In-place operations on integers\<close>

text \<open>Words that reach the in-place slow path unflattened: not a boolean.\<close>

definition not_bool :: "'f rt_heap \<Rightarrow> rt_value \<Rightarrow> bool" where
  "not_bool h w \<longleftrightarrow> w \<noteq> bool_ptr h True \<and> w \<noteq> bool_ptr h False"

lemma slot_word_not_bool:
  assumes "heap_ok h" and "denote h w = Some v" and "not_bool h w"
  shows "slot_word h w v"
proof (cases "is_tagged_int w")
  case True
  then show ?thesis using assms(2) from_int_as_int [of w] as_int_fits [of w]
    by (auto simp: slot_word_def denote_def)
next
  case False
  then obtain obj where "objs h w = Some obj" "as_big_int obj = Some v"
    using assms(2) by (auto simp: denote_def split: option.splits)
  moreover have "obj \<noteq> PyBool t" for t
    using calculation assms(1,3) by (cases t) (auto simp: heap_ok_def not_bool_def)
  ultimately show ?thesis using False by (cases obj) (auto simp: slot_word_def)
qed

context tagged_operation
begin

lemma rt_inplace_denote:
  assumes al: "alloc_ok alloc" and h: "heap_ok h"
    and a: "denote h lhs = Some a" and b: "denote h rhs = Some b"
    and g: "good a b \<or> fits_tagged_int a \<and> fits_tagged_int b \<and> fast a b \<noteq> None"
    and call: "\<And>m n. call f (PyInteger m) (PyInteger n) = None"
    and nb: "fits_tagged_int a \<and> fits_tagged_int b \<or> not_bool h lhs \<and> not_bool h rhs"
  shows "yields alloc h (sem a b) (rt_inplace fast f call alloc D other h lhs rhs)"
proof -
  obtain l where l: "flatten h lhs = Ok l" "slot_word h l a"
      "is_tagged_int l \<longleftrightarrow> fits_tagged_int a" "is_tagged_int l \<Longrightarrow> as_int l = a"
    using flatten_word [OF h a] by metis
  obtain r where r: "flatten h rhs = Ok r" "slot_word h r b"
      "is_tagged_int r \<longleftrightarrow> fits_tagged_int b" "is_tagged_int r \<Longrightarrow> as_int r = b"
    using flatten_word [OF h b] by metis
  show ?thesis
  proof (cases "fits_tagged_int a \<and> fits_tagged_int b")
    case True
    have "yields alloc h (sem a b) (RtValue_binop fast f alloc D other h l r)"
    proof (cases "fast a b")
      case None
      with g have "good a b" by simp
      from slow_binop_denote [OF al h this l(2) r(2), THEN alloc_or_unwrap] None True l(3,4) r(3,4)
      show ?thesis by (simp add: RtValue_binop_def are_both_tagged_iff)
    next
      case (Some p)
      with True fast_sem [of a b p] l(3,4) r(3,4) h show ?thesis
        by (simp add: RtValue_binop_def are_both_tagged_iff denote_from_int)
    qed
    with True l r show ?thesis by (simp add: rt_inplace_def)
  next
    case False
    with g nb have ok: "good a b" "not_bool h lhs" "not_bool h rhs" by auto
    note words = slot_word_not_bool [OF h a ok(2)] slot_word_not_bool [OF h b ok(3)]
    have "yields alloc h (sem a b)
      (and_then (box alloc h lhs) (\<lambda>(h1, p). and_then (box alloc h1 rhs) (\<lambda>(h2, q).
         and_then (deref h2 p) (\<lambda>x. and_then (deref h2 q) (\<lambda>y.
           case try_inplace_method (call f) x y of
             Some ret \<Rightarrow> store_result alloc h2 ret
           | None \<Rightarrow> and_then (object_binop D other f x y) (store_result alloc h2))))))"
      by (rule box_words_then [OF al h words])
         (simp add: deref_def try_inplace_method_def call slot_and_store [OF al ok(1)])
    moreover have "\<not> (is_tagged_int l \<and> is_tagged_int r)" using False l(3) r(3) by simp
    ultimately show ?thesis using l(1) r(1) by (simp only: rt_inplace_def and_then.simps if_False)
  qed
qed

end

lemma rt_inplace_add_eq:
  assumes "heap_ok h" and "denote h lhs = Some a" and "denote h rhs = Some b"
  shows "rt_inplace_add call alloc D other h lhs rhs = rt_inplace fast_add_i64 Add call alloc D other h lhs rhs"
  by (auto simp: rt_inplace_add_def rt_inplace_def RtValue_binop_def flatten_def are_both_tagged_iff
      split: option.splits)

lemma lshift_overflow_eq: "lshift_overflow_i64 l r = fast_lshift_i64 l r"
  by (auto simp: lshift_overflow_i64_def fast_lshift_i64_def Let_def fits_tagged_int_def in_int64_def)

section \<open>Keys\<close>

lemma RtValueHash_denote:
  assumes "heap_ok h" and "denote h w = Some v"
  shows "RtValueHash other h w = Ok (word_of_int (hash_big_int v))"
proof (cases "is_tagged_int w")
  case True
  with assms(2) have "as_int w = v" by (simp add: denote_def)
  with True show ?thesis
    by (auto simp: RtValueHash_def is_null_def is_tagged_int_def)
next
  case False
  then obtain obj where "objs h w = Some obj" "as_big_int obj = Some v"
    using assms(2) by (auto simp: denote_def split: option.splits)
  with False heap_ok_untagged [OF assms(1)] show ?thesis
    by (auto simp: RtValueHash_def is_null_def deref_def object_hash_def hash_fast_path)
qed

lemma RtValueEq_denote:
  assumes al: "alloc_ok alloc" and h: "heap_ok h" and l: "slot_word h l a" and r: "slot_word h r b"
  shows "alloc_or alloc h 2 (\<lambda>(h', t). heap_ok h' \<and> grows 2 h h' \<and> t = (a = b))
           (RtValueEq alloc D other h l r)"
proof -
  have "alloc_or alloc h 2 (\<lambda>(h', t). heap_ok h' \<and> grows 2 h h' \<and> t = (a = b))
    (and_then (box alloc h l) (\<lambda>(h1, p). and_then (box alloc h1 r) (\<lambda>(h2, q).
       and_then (deref h2 p) (\<lambda>x. and_then (deref h2 q) (\<lambda>y.
         case richcompare_eq D other p x q y of
           Ok r \<Rightarrow> Ok (h2, case r of PyBool t \<Rightarrow> t | _ \<Rightarrow> False)
         | Err e \<Rightarrow> Ok (h2, False)
         | Abort f \<Rightarrow> Abort f)))))"
  proof (rule box_words_then [OF al h l r])
    fix h2 p q assume h2: "heap_ok h2" "grows 2 h h2"
      and pq: "objs h2 p = Some (PyInteger a)" "objs h2 q = Some (PyInteger b)"
    then have "p = q \<Longrightarrow> a = b" by simp
    then have "richcompare_eq D other p (PyInteger a) q (PyInteger b) = Ok (PyBool (a = b))"
      using object_compare_int [of p q a b D other Py_EQ] by (simp add: richcompare_eq_def Let_def)
    with pq h2 show "alloc_or alloc h 2 (\<lambda>(h', t). heap_ok h' \<and> grows 2 h h' \<and> t = (a = b))
      (and_then (deref h2 p) (\<lambda>x. and_then (deref h2 q) (\<lambda>y.
         case richcompare_eq D other p x q y of
           Ok r \<Rightarrow> Ok (h2, case r of PyBool t \<Rightarrow> t | _ \<Rightarrow> False)
         | Err e \<Rightarrow> Ok (h2, False)
         | Abort f \<Rightarrow> Abort f)))"
      by (simp add: deref_def)
  qed
  moreover have "\<not> is_null l" "\<not> is_null r"
    using l r h heap_ok_untagged [OF h] by (auto simp: slot_word_def is_null_def)
  moreover have "a = b" if "l = r" using slot_word_same l r that by metis
  moreover have "as_int l = a" if "is_tagged_int l" using l that by (auto simp: slot_word_def as_int_from_int)
  moreover have "as_int r = b" if "is_tagged_int r" using r that by (auto simp: slot_word_def as_int_from_int)
  ultimately show ?thesis using h by (auto simp: RtValueEq_def)
qed

section \<open>The method cache is transparent\<close>

definition cache_ok :: "(64 word \<Rightarrow> 64 word \<Rightarrow> 64 word py_result) \<Rightarrow> cache_entry list \<Rightarrow> bool" where
  "cache_ok get_method cache \<longleftrightarrow> length cache = 128 \<and>
     (\<forall>e \<in> set cache. instance_ptr e \<noteq> 0 \<longrightarrow>
        get_method (instance_ptr e) (name_ptr e) = Ok (bound_method e))"

lemma cache_index_bound: "cache_index obj name < 128"
proof -
  have "unat ((drop_bit 4 obj XOR drop_bit 4 name) AND 127) \<le> unat (127 :: 64 word)"
    using word_and_le1 [of "drop_bit 4 obj XOR drop_bit 4 name" 127]
    by (simp add: word_le_nat_alt)
  then show ?thesis by (simp add: cache_index_def)
qed

lemma cache_ok_update:
  assumes "cache_ok get_method cache" and "get_method obj name = Ok m"
  shows "cache_ok get_method (cache[i := \<lparr> instance_ptr = obj, name_ptr = name, bound_method = m \<rparr>])"
  using assms set_update_subset_insert [of cache i] by (fastforce simp: cache_ok_def)

lemma cache_ok_empty: "cache_ok get_method empty_cache"
  by (simp add: cache_ok_def empty_cache_def)

section \<open>Properties\<close>

text \<open>Negation and inversion are exact on every integer (the one tagged value whose negation does not
  fit goes through a boxed integer), and unary plus returns its operand with the heap unchanged
  whenever the operand denotes an integer that fits a tagged word.\<close>

theorem rt_unary_exact:
  assumes "alloc_ok alloc" and "heap_ok h" and "denote h w = Some a"
  shows "yields alloc h (- a) (rt_unary_neg alloc D other h w) \<and>
         yields alloc h (- a - 1) (rt_unary_invert alloc D other h w) \<and>
         (fits_tagged_int a \<longrightarrow> rt_unary_pos alloc other' h w = Ok (h, w))"
proof -
  have "rt_unary_pos alloc other' h w = Ok (h, w)" if "fits_tagged_int a"
    using flatten_denote [OF assms(2,3)] that by (auto simp: rt_unary_pos_def)
  then show ?thesis
    using neg_op.unary_denote [OF assms] invert_op.unary_denote [OF assms]
    by (simp add: rt_unary_neg_def rt_unary_invert_def not_int_def)
qed

text \<open>Comparing two words that denote integers returns the boolean singleton of the comparison of the
  integers, for each of the six operators and every mix of tagged, boxed and boolean operands.\<close>

theorem rt_compare_exact:
  assumes "alloc_ok alloc" and "heap_ok h" and "denote h lhs = Some a" and "denote h rhs = Some b"
  shows "decides alloc h (a = b) (rt_compare_eq alloc D other h lhs rhs) \<and>
         decides alloc h (a \<noteq> b) (rt_compare_ne alloc D other h lhs rhs) \<and>
         decides alloc h (a < b) (rt_compare_lt alloc D other h lhs rhs) \<and>
         decides alloc h (a \<le> b) (rt_compare_le alloc D other h lhs rhs) \<and>
         decides alloc h (a > b) (rt_compare_gt alloc D other h lhs rhs) \<and>
         decides alloc h (a \<ge> b) (rt_compare_ge alloc D other h lhs rhs)"
  unfolding rt_compare_eq_def rt_compare_ne_def rt_compare_lt_def rt_compare_le_def
    rt_compare_gt_def rt_compare_ge_def
  using rt_compare_decides [OF assms, of Py_EQ] rt_compare_decides [OF assms, of Py_NE]
    rt_compare_decides [OF assms, of Py_LT] rt_compare_decides [OF assms, of Py_LE]
    rt_compare_decides [OF assms, of Py_GT] rt_compare_decides [OF assms, of Py_GE]
  by (intro conjI) simp_all

text \<open>The three truth tests agree on integers: a word that denotes an integer is true exactly when
  the integer is not zero, and \<^verbatim>\<open>not\<close> returns the singleton of the negation.\<close>

theorem truth_of_integers:
  assumes "heap_ok h" and "denote h w = Some a"
  shows "truthy D other h w = Ok (a \<noteq> 0) \<and> truthy_value D other h w = Ok (a \<noteq> 0) \<and>
         is_truthy D other h w = Ok (a \<noteq> 0) \<and>
         rt_unary_not D other h w = Ok (bool_ptr h (a = 0))"
proof -
  have t: "truthy D other h w = Ok (a \<noteq> 0) \<and> truthy_value D other h w = Ok (a \<noteq> 0) \<and>
           is_truthy D other h w = Ok (a \<noteq> 0)"
  proof (cases "is_tagged_int w")
    case True
    with assms(2) have "as_int w = a" by (simp add: denote_def)
    moreover have "w \<noteq> 0" using True by (auto simp: is_tagged_int_def)
    ultimately show ?thesis
      using True by (simp add: truthy_def truthy_value_def is_truthy_def is_null_def)
  next
    case False
    then obtain obj where obj: "objs h w = Some obj" "as_big_int obj = Some a"
      using assms(2) by (auto simp: denote_def split: option.splits)
    have w0: "\<not> is_null w" using heap_ok_untagged [OF assms(1) obj(1)] by (simp add: is_null_def)
    have bp: "(w = bool_ptr h t) = (obj = PyBool t)" for t
      using assms(1) obj(1) by (auto simp: heap_ok_def)
    obtain q where q: "flatten h w = Ok q" "is_tagged_int q \<Longrightarrow> as_int q = a" "slot_word h q a"
      using flatten_word [OF assms] by metis
    have "objs h q = Some (PyInteger a)" if "\<not> is_tagged_int q"
      using that q(3) by (auto simp: slot_word_def)
    then have "truthy D other h w = Ok (a \<noteq> 0)"
      using False q(1,2) by (auto simp: truthy_def deref_def object_true_def)
    moreover have "truthy_value D other h w = Ok (a \<noteq> 0)"
      using False w0 obj by (cases obj) (auto simp: truthy_value_def bp deref_def object_true_def)
    moreover have "is_truthy D other h w = Ok (a \<noteq> 0)"
      using False w0 obj by (cases obj) (auto simp: is_truthy_def deref_def object_true_def)
    ultimately show ?thesis by simp
  qed
  then show ?thesis by (simp add: rt_unary_not_def)
qed

text \<open>The in-place operations agree with the mathematical ones on integers, provided the left type
  has no in-place method for integers, and provided that no boolean meets an integer too large for a
  tagged word (there the boxed boolean reaches a slot that rejects it).\<close>

theorem rt_inplace_exact:
  assumes "alloc_ok alloc" and "heap_ok h" and "denote h lhs = Some a" and "denote h rhs = Some b"
    and "\<And>f m n. call f (PyInteger m) (PyInteger n) = None"
    and "fits_tagged_int a \<and> fits_tagged_int b \<or> not_bool h lhs \<and> not_bool h rhs"
  shows "yields alloc h (a + b) (rt_inplace_add call alloc D other h lhs rhs) \<and>
         yields alloc h (a - b) (rt_inplace_sub call alloc D other h lhs rhs) \<and>
         yields alloc h (a * b) (rt_inplace_mul call alloc D other h lhs rhs) \<and>
         yields alloc h (a AND b) (rt_inplace_and call alloc D other h lhs rhs) \<and>
         yields alloc h (a OR b) (rt_inplace_or call alloc D other h lhs rhs) \<and>
         yields alloc h (a XOR b) (rt_inplace_xor call alloc D other h lhs rhs)"
  unfolding rt_inplace_add_eq [OF assms(2-4)] rt_inplace_sub_def rt_inplace_mul_def
    rt_inplace_and_def rt_inplace_or_def rt_inplace_xor_def
  using add_op.rt_inplace_denote [OF assms(1-4)] sub_op.rt_inplace_denote [OF assms(1-4)]
    mul_op.rt_inplace_denote [OF assms(1-4)] and_op.rt_inplace_denote [OF assms(1-4)]
    or_op.rt_inplace_denote [OF assms(1-4)] xor_op.rt_inplace_denote [OF assms(1-4)] assms(5,6)
  by simp

text \<open>C16: Hash and equality of dictionary keys are consistent on integers: two words that denote integers
  and are not booleans compare equal exactly when the integers are equal, and equal integers have
  equal hashes whether they are tagged or boxed.\<close>

theorem key_hash_eq_consistent:
  assumes "alloc_ok alloc" and "heap_ok h" and "denote h l = Some a" and "denote h r = Some b"
    and "not_bool h l" and "not_bool h r"
  shows "alloc_or alloc h 2 (\<lambda>(h', t). heap_ok h' \<and> grows 2 h h' \<and> t = (a = b))
           (RtValueEq alloc D other h l r) \<and>
         (\<exists>x y. RtValueHash hash h l = Ok x \<and> RtValueHash hash h r = Ok y \<and> (a = b \<longrightarrow> x = y))"
  using RtValueEq_denote [OF assms(1,2) slot_word_not_bool [OF assms(2,3,5)]
      slot_word_not_bool [OF assms(2,4,6)]]
    RtValueHash_denote [OF assms(2,3)] RtValueHash_denote [OF assms(2,4)]
  by simp

text \<open>The method cache is transparent while the attribute lookup does not change: from the empty
  cache on, every load answers what the lookup would (a null pointer for an error) and keeps the
  cache sound, for every non-null object and whatever collisions occurred before.\<close>

theorem load_method_transparent:
  assumes "cache_ok get_method cache" and "obj \<noteq> 0"
  shows "cache_ok get_method empty_cache \<and>
    (case get_method obj name of
       Ok m \<Rightarrow> (\<exists>c. load_method get_method cache obj name = Ok (c, m) \<and> cache_ok get_method c)
     | Err e \<Rightarrow> load_method get_method cache obj name = Ok (cache, 0)
     | Abort f \<Rightarrow> load_method get_method cache obj name = Abort f)"
proof -
  let ?e = "cache ! cache_index obj name"
  have "?e \<in> set cache"
    using cache_index_bound [of obj name] assms(1) by (simp add: cache_ok_def)
  then have hit: "get_method obj name = Ok (bound_method ?e)"
    if "instance_ptr ?e = obj" "name_ptr ?e = name"
    using that assms by (auto simp: cache_ok_def)
  show ?thesis
    using hit assms(1) cache_ok_update [OF assms(1), of obj name]
    by (cases "get_method obj name") (auto simp: load_method_def Let_def cache_ok_empty)
qed

section \<open>Witnesses\<close>

definition demo_unary :: "unop \<Rightarrow> unit py_object \<Rightarrow> unit py_object py_result" where
  "demo_unary f a = Err TypeError"

definition demo_compare :: "unit compare_slots" where
  "demo_compare op p a q b = Err TypeError"

lemma demo_not_bool: "not_bool demo_heap 24" "not_bool demo_heap 32"
  by (simp_all add: not_bool_def bool_ptr_def demo_heap_def)

theorem rt_unary_exact_witness:
  "yields demo_alloc demo_heap (- 9223372036854775807)
     (rt_unary_neg demo_alloc demo_doubles demo_unary demo_heap 24)"
  using rt_unary_exact [OF demo demo_denote(2)] by simp

theorem rt_compare_exact_witness:
  "decides demo_alloc demo_heap True
     (rt_compare_lt demo_alloc demo_doubles demo_compare demo_heap 8 24)"
  using rt_compare_exact [OF demo demo_denote(1) demo_denote(2)] by simp

theorem truth_of_integers_witness:
  "truthy demo_doubles (\<lambda>_. Ok True) demo_heap 24 = Ok True"
  using truth_of_integers [OF demo(2) demo_denote(2)] by simp

theorem rt_inplace_exact_witness:
  "yields demo_alloc demo_heap 0
     (rt_inplace_add (\<lambda>_ _ _. None) demo_alloc demo_doubles demo_other demo_heap 24 32)"
  using rt_inplace_exact [OF demo demo_denote(2) demo_denote(3), of "\<lambda>_ _ _. None"] demo_not_bool
  by simp

theorem key_hash_eq_consistent_witness:
  "\<exists>x y. RtValueHash (\<lambda>_. Err TypeError) demo_heap 24 = Ok x \<and>
         RtValueHash (\<lambda>_. Err TypeError) demo_heap 32 = Ok y"
  using key_hash_eq_consistent [OF demo demo_denote(2) demo_denote(3) demo_not_bool] by metis

theorem load_method_transparent_witness:
  "\<exists>c. load_method (\<lambda>x n. Ok (x + n)) empty_cache 16 3 = Ok (c, 19)"
  using load_method_transparent [OF cache_ok_empty, of 16 "\<lambda>x n. Ok (x + n)" 3] by auto

end
