(* ===== verification/Call_Binding.thy ===== *)
theory Call_Binding
  imports Prelude
begin

text \<open>
  The arguments of a call: \<^verbatim>\<open>PyCode::eval\<close> (\<^verbatim>\<open>src/src/runtime/PyCode.cpp\<close>) binds the positional
  arguments, the keyword arguments and the defaults to the locals and to the cells of a new frame
  (\<^verbatim>\<open>VirtualMachine::stack_local\<close> in \<^verbatim>\<open>src/src/vm/VM.hpp\<close>, \<^verbatim>\<open>PyCell::set_cell\<close>), and
  \<^verbatim>\<open>PyFunction\<close> calls it with the defaults and the cells it was made with. The body of the
  function, run on the frame, is not part of the model. An object of the heap is of the type \<open>'o\<close>;
  the tuple and the dictionary that \<^verbatim>\<open>eval\<close> makes for \<^verbatim>\<open>*args\<close> and \<^verbatim>\<open>**kwargs\<close> are values of their own.
\<close>

section \<open>Frames\<close>

text \<open>A \<^verbatim>\<open>Value\<close> is null, a tagged integer or an object.\<close>

datatype 'o slot =
  Null_slot | Tagged_slot int | Object_slot 'o
| Args_tuple "'o slot list" | Kwargs_dict "(string \<times> 'o slot) list"

text \<open>\<^verbatim>\<open>v.is_heap_object() && !v.as_ptr()\<close>, and \<^verbatim>\<open>v.is_heap_object() && v.as_ptr()\<close>.\<close>

definition unset :: "'o slot \<Rightarrow> bool" where
  "unset v \<longleftrightarrow> v = Null_slot"

fun holds_object :: "'o slot \<Rightarrow> bool" where
  "holds_object Null_slot = False"
| "holds_object (Tagged_slot _) = False"
| "holds_object _ = True"

text \<open>
  An entry of \<^verbatim>\<open>m_freevars\<close> of the frame is null, a cell the call makes, with its content, or a cell
  of the closure.
\<close>

datatype 'o free_var = No_cell | New_cell "'o slot" | Captured_cell 'o

record 'o call_frame =
  stack_locals :: "'o slot list"
  freevars :: "'o free_var list"

record py_code =
  m_cell2arg :: "nat list"
  m_arg_count :: nat
  m_cellvars :: "string list"
  m_freevars :: "string list"
  m_kwonly_arg_count :: nat
  m_varnames :: "string list"
  stack_size :: nat
  varargs :: bool
  varkeywords :: bool
  generator :: bool
  coroutine :: bool

definition stack_local :: "'o call_frame \<Rightarrow> nat \<Rightarrow> 'o slot py_result" where
  "stack_local f i =
     assert_that (stack_locals f \<noteq> []) (assert_that (i < length (stack_locals f)) (Ok (stack_locals f ! i)))"

definition set_local :: "nat \<Rightarrow> 'o slot \<Rightarrow> 'o call_frame \<Rightarrow> 'o call_frame py_result" where
  "set_local i v f = and_then (stack_local f i) (\<lambda>_. Ok (f\<lparr>stack_locals := (stack_locals f)[i := v]\<rparr>))"

text \<open>\<^verbatim>\<open>set_local\<close> at an index of the type \<^verbatim>\<open>size_t\<close>: below zero it wraps to a number behind every local.\<close>

definition set_local_at :: "int \<Rightarrow> 'o slot \<Rightarrow> 'o call_frame \<Rightarrow> 'o call_frame py_result" where
  "set_local_at i v f = assert_that (stack_locals f \<noteq> []) (assert_that (0 \<le> i) (set_local (nat i) v f))"

text \<open>\<^verbatim>\<open>std::find\<close> and \<^verbatim>\<open>std::distance\<close>.\<close>

fun index_of :: "'a \<Rightarrow> 'a list \<Rightarrow> nat option" where
  "index_of x [] = None"
| "index_of x (y # ys) = (if y = x then Some 0 else map_option Suc (index_of x ys))"

definition content :: "'o call_frame \<Rightarrow> nat \<Rightarrow> 'o slot py_result" where
  "content f k =
     (if k < length (freevars f)
      then case freevars f ! k of No_cell \<Rightarrow> Abort Assertion | New_cell v \<Rightarrow> Ok v | Captured_cell a \<Rightarrow> Abort NotReached
      else Abort Undefined)"

definition set_cell :: "nat \<Rightarrow> 'o slot \<Rightarrow> 'o call_frame \<Rightarrow> 'o call_frame py_result" where
  "set_cell k v f = and_then (content f k) (\<lambda>_. Ok (f\<lparr>freevars := (freevars f)[k := New_cell v]\<rparr>))"

fun run_each :: "('a \<Rightarrow> 's \<Rightarrow> 's py_result) \<Rightarrow> 'a list \<Rightarrow> 's \<Rightarrow> 's py_result" where
  "run_each step [] s = Ok s"
| "run_each step (x # xs) s = and_then (step x s) (run_each step xs)"

section \<open>The parts of \<^verbatim>\<open>eval\<close>\<close>

definition total_named_arguments_count :: "py_code \<Rightarrow> nat" where
  "total_named_arguments_count c = m_arg_count c + m_kwonly_arg_count c"

definition total_arguments_count :: "py_code \<Rightarrow> nat" where
  "total_arguments_count c =
     total_named_arguments_count c + (if varargs c then 1 else 0) + (if varkeywords c then 1 else 0)"

definition arg_cells_count :: "py_code \<Rightarrow> nat" where
  "arg_cells_count c = length (filter (\<lambda>a. total_arguments_count c \<noteq> a) (m_cell2arg c))"

text \<open>\<^verbatim>\<open>PyFrame::create\<close> and \<^verbatim>\<open>setup_call_stack\<close>, then a new cell for each of \<^verbatim>\<open>m_cellvars\<close>.\<close>

definition new_frame :: "py_code \<Rightarrow> 'o call_frame" where
  "new_frame c =
     (let n = length (m_cellvars c) + length (m_freevars c)
      in \<lparr>stack_locals = replicate (stack_size c + n) Null_slot,
          freevars = replicate (length (m_cellvars c)) (New_cell Null_slot) @ replicate (length (m_freevars c)) No_cell\<rparr>)"

text \<open>The number of the arguments up to \<open>i\<close> that live in cells.\<close>

fun arg_stack_offset :: "py_code \<Rightarrow> nat \<Rightarrow> nat" where
  "arg_stack_offset c 0 = (if 0 \<in> set (m_cell2arg c) then 1 else 0)"
| "arg_stack_offset c (Suc i) = arg_stack_offset c i + (if Suc i \<in> set (m_cell2arg c) then 1 else 0)"

fun place_positional ::
  "py_code \<Rightarrow> nat \<Rightarrow> nat \<Rightarrow> 'o slot list \<Rightarrow> 'o call_frame \<Rightarrow> 'o call_frame py_result" where
  "place_positional c idx stack_local_index [] f = Ok f"
| "place_positional c idx stack_local_index (v # vs) f =
     (case index_of idx (m_cell2arg c) of
        Some free_var_idx \<Rightarrow>
          and_then (set_cell free_var_idx v f) (place_positional c (Suc idx) stack_local_index vs)
      | None \<Rightarrow>
          and_then (set_local stack_local_index v f) (place_positional c (Suc idx) (Suc stack_local_index) vs))"

text \<open>
  A keyword argument: the key of the dictionary is a string or not. The local has the index of the
  name in \<^verbatim>\<open>m_varnames\<close>, and the cell is looked up with the number of keyword arguments before.
\<close>

type_synonym 'o keyword_argument = "string option \<times> 'o slot"

definition place_keyword ::
  "py_code \<Rightarrow> 'o keyword_argument \<Rightarrow> nat \<times> 'o call_frame \<Rightarrow> (nat \<times> 'o call_frame) py_result" where
  "place_keyword c kv s =
     (case fst kv of
        None \<Rightarrow> Abort Assertion
      | Some key \<Rightarrow>
          (case index_of key (m_varnames c) of
             None \<Rightarrow> if varkeywords c then Ok s else Err TypeError
           | Some i \<Rightarrow>
               (case s of (kwargs_count, f) \<Rightarrow>
                  and_then (stack_local f i) (\<lambda>arg.
                  if holds_object arg then Err TypeError
                  else
                    and_then (case index_of kwargs_count (m_cell2arg c) of
                        Some free_var_idx \<Rightarrow> set_cell free_var_idx (snd kv) f | None \<Rightarrow> Ok f) (\<lambda>f.
                    and_then (set_local i (snd kv) f) (\<lambda>f.
                    Ok (Suc kwargs_count, f)))))))"

definition place_default :: "py_code \<Rightarrow> nat \<Rightarrow> 'o slot \<Rightarrow> 'o call_frame \<Rightarrow> 'o call_frame py_result" where
  "place_default c i v f =
     (case index_of i (m_cell2arg c) of
        Some free_var_idx \<Rightarrow>
          and_then (content f free_var_idx) (\<lambda>w. if unset w then set_cell free_var_idx v f else Ok f)
      | None \<Rightarrow>
          let index = i - arg_stack_offset c i
          in and_then (stack_local f index) (\<lambda>w. if unset w then set_local index v f else Ok f))"

text \<open>The defaults from the last one, for the arguments from \<open>i\<close> downwards.\<close>

fun place_defaults :: "py_code \<Rightarrow> int \<Rightarrow> 'o slot list \<Rightarrow> 'o call_frame \<Rightarrow> 'o call_frame py_result" where
  "place_defaults c i [] f = Ok f"
| "place_defaults c i (v # vs) f =
     assert_that (0 \<le> i) (and_then (place_default c (nat i) v f) (place_defaults c (i - 1) vs))"

text \<open>\<^verbatim>\<open>*args\<close> and \<^verbatim>\<open>**kwargs\<close>: the argument \<open>i\<close>, in its cell or in a local counted from the end.\<close>

definition place_rest :: "py_code \<Rightarrow> nat \<Rightarrow> 'o slot \<Rightarrow> 'o call_frame \<Rightarrow> 'o call_frame py_result" where
  "place_rest c i v f =
     (case index_of i (m_cell2arg c) of
        Some free_var_idx \<Rightarrow>
          and_then (content f free_var_idx) (\<lambda>w. if unset w then set_cell free_var_idx v f else Ok f)
      | None \<Rightarrow> set_local_at (int i + 1 - int (arg_cells_count c) - 1) v f)"

fun remaining_kwargs :: "py_code \<Rightarrow> 'o keyword_argument list \<Rightarrow> (string \<times> 'o slot) list py_result" where
  "remaining_kwargs c [] = Ok []"
| "remaining_kwargs c ((key, v) # kvs) =
     (case key of
        None \<Rightarrow> Abort Assertion
      | Some k \<Rightarrow>
          and_then (remaining_kwargs c kvs) (\<lambda>r. Ok (if k \<in> set (m_varnames c) then r else (k, v) # r)))"

text \<open>The cells of the closure, behind the cells of the call.\<close>

fun place_closure :: "('o \<Rightarrow> bool) \<Rightarrow> nat \<Rightarrow> 'o slot list \<Rightarrow> 'o call_frame \<Rightarrow> 'o call_frame py_result" where
  "place_closure is_cell idx [] f = Ok f"
| "place_closure is_cell idx (v # vs) f =
     (case v of
        Object_slot a \<Rightarrow>
          assert_that (is_cell a)
            (if idx < length (freevars f)
             then place_closure is_cell (Suc idx) vs (f\<lparr>freevars := (freevars f)[idx := Captured_cell a]\<rparr>)
             else Abort Undefined)
      | _ \<Rightarrow> Abort Assertion)"

section \<open>\<^verbatim>\<open>eval\<close>\<close>

text \<open>What is made of the frame: it is run, or kept by a generator or coroutine.\<close>

datatype activation = Run | Make_generator | Make_coroutine | Make_async_generator

definition activation_of :: "py_code \<Rightarrow> activation" where
  "activation_of c =
     (if generator c \<and> coroutine c then Make_async_generator
      else if generator c then Make_generator
      else if coroutine c then Make_coroutine else Run)"

definition clear_locals :: "nat \<Rightarrow> 'o call_frame \<Rightarrow> 'o call_frame py_result" where
  "clear_locals n f = run_each (\<lambda>i. set_local i Null_slot) [0..<n] f"

definition bind_positional :: "py_code \<Rightarrow> 'o slot list option \<Rightarrow> 'o call_frame \<Rightarrow> 'o call_frame py_result" where
  "bind_positional c args f =
     (case args of None \<Rightarrow> Ok f | Some vs \<Rightarrow> place_positional c 0 0 (take (m_arg_count c) vs) f)"

definition bind_keywords :: "py_code \<Rightarrow> 'o keyword_argument list option \<Rightarrow> 'o call_frame \<Rightarrow> 'o call_frame py_result" where
  "bind_keywords c kwargs f =
     (case kwargs of None \<Rightarrow> Ok f | Some kvs \<Rightarrow> and_then (run_each (place_keyword c) kvs (0, f)) (\<lambda>s. Ok (snd s)))"

definition bind_defaults ::
  "py_code \<Rightarrow> 'o slot list \<Rightarrow> 'o slot list \<Rightarrow> 'o call_frame \<Rightarrow> 'o call_frame py_result" where
  "bind_defaults c defaults kw_defaults f =
     and_then (if m_arg_count c > 0 \<and> defaults \<noteq> []
               then place_defaults c (int (m_arg_count c) - 1) (rev defaults) f else Ok f) (\<lambda>f.
     if m_kwonly_arg_count c + m_arg_count c > 0 \<and> kw_defaults \<noteq> []
     then place_defaults c (int (m_kwonly_arg_count c + m_arg_count c) - 1) (rev kw_defaults) f else Ok f)"

text \<open>Without \<^verbatim>\<open>*args\<close> the number of the arguments is read from \<^verbatim>\<open>args\<close>, also when that is null.\<close>

definition bind_varargs :: "py_code \<Rightarrow> 'o slot list option \<Rightarrow> 'o call_frame \<Rightarrow> 'o call_frame py_result" where
  "bind_varargs c args f =
     (if varargs c
      then place_rest c (total_named_arguments_count c)
        (Args_tuple (case args of None \<Rightarrow> [] | Some vs \<Rightarrow> drop (m_arg_count c) vs)) f
      else case args of
        None \<Rightarrow> Abort Undefined
      | Some vs \<Rightarrow> if min (length vs) (m_arg_count c) < length vs then Err TypeError else Ok f)"

definition bind_varkeywords :: "py_code \<Rightarrow> 'o keyword_argument list option \<Rightarrow> 'o call_frame \<Rightarrow> 'o call_frame py_result" where
  "bind_varkeywords c kwargs f =
     (if varkeywords c
      then and_then (case kwargs of None \<Rightarrow> Ok [] | Some kvs \<Rightarrow> remaining_kwargs c kvs) (\<lambda>r.
        place_rest c (total_named_arguments_count c + (if varargs c then 1 else 0)) (Kwargs_dict r) f)
      else Ok f)"

definition eval_code ::
  "('o \<Rightarrow> bool) \<Rightarrow> py_code \<Rightarrow> 'o slot list option \<Rightarrow> 'o keyword_argument list option \<Rightarrow> 'o slot list \<Rightarrow> 'o slot list \<Rightarrow>
   'o slot list \<Rightarrow> (activation \<times> 'o call_frame) py_result" where
  "eval_code is_cell c args kwargs defaults kw_defaults closure =
     assert_that (arg_cells_count c \<le> total_arguments_count c)
     (and_then (clear_locals (total_arguments_count c - arg_cells_count c) (new_frame c)) (\<lambda>f.
      assert_that (m_arg_count c \<le> length (m_varnames c))
     (assert_that (total_named_arguments_count c \<le> length (m_varnames c))
     (and_then (bind_positional c args f) (\<lambda>f.
      and_then (bind_keywords c kwargs f) (\<lambda>f.
      and_then (bind_defaults c defaults kw_defaults f) (\<lambda>f.
      and_then (bind_varargs c args f) (\<lambda>f.
      and_then (bind_varkeywords c kwargs f) (\<lambda>f.
      and_then (place_closure is_cell (length (m_cellvars c)) closure f) (\<lambda>f.
      Ok (activation_of c, f)))))))))))"

section \<open>Functions\<close>

record 'o function_object =
  m_code :: py_code
  m_defaults :: "'o slot list"
  m_kwonly_defaults :: "'o slot list"
  m_closure :: "'o slot list"

definition call_with_frame ::
  "('o \<Rightarrow> bool) \<Rightarrow> 'o function_object \<Rightarrow> 'o slot list option \<Rightarrow> 'o keyword_argument list option \<Rightarrow>
   (activation \<times> 'o call_frame) py_result" where
  "call_with_frame is_cell fn args kwargs =
     eval_code is_cell (m_code fn) args kwargs (m_defaults fn) (m_kwonly_defaults fn) (m_closure fn)"

end
