(* ===== verification/Call_Binding_Props.thy ===== *)
theory Call_Binding_Props
  imports Call_Binding
begin

text \<open>
  What \<^verbatim>\<open>eval\<close> makes of the arguments. A frame is read through \<open>argument_of\<close>, which finds an argument in
  its cell or in its local; \<open>argument_store\<close> is the interface of such a store, and the loops over the
  arguments and over the defaults are understood for every store.
\<close>

section \<open>Arguments in cells and in locals\<close>

definition argument_of :: "py_code \<Rightarrow> 'o call_frame \<Rightarrow> nat \<Rightarrow> 'o slot py_result" where
  "argument_of c f i =
     (case index_of i (m_cell2arg c) of
        Some k \<Rightarrow> content f k | None \<Rightarrow> stack_local f (i - arg_stack_offset c i))"

definition put_argument :: "py_code \<Rightarrow> nat \<Rightarrow> 'o slot \<Rightarrow> 'o call_frame \<Rightarrow> 'o call_frame py_result" where
  "put_argument c i v f =
     (case index_of i (m_cell2arg c) of
        Some k \<Rightarrow> set_cell k v f | None \<Rightarrow> set_local (i - arg_stack_offset c i) v f)"

text \<open>
  What the code generator promises of a code object: the cells of arguments belong to different
  arguments, the other cells have the mark \<^verbatim>\<open>total_arguments_count\<close>, the parameters have different
  names, and the stack has room for the arguments.
\<close>

definition code_ok :: "py_code \<Rightarrow> bool" where
  "code_ok c \<longleftrightarrow>
     length (m_cell2arg c) = length (m_cellvars c) \<and>
     (\<forall>a \<in> set (m_cell2arg c). a \<le> total_arguments_count c) \<and>
     distinct (filter (\<lambda>a. total_arguments_count c \<noteq> a) (m_cell2arg c)) \<and>
     total_named_arguments_count c \<le> length (m_varnames c) \<and>
     distinct (take (total_named_arguments_count c) (m_varnames c)) \<and>
     total_arguments_count c \<le> stack_size c"

definition fits :: "py_code \<Rightarrow> 'o call_frame \<Rightarrow> bool" where
  "fits c f \<longleftrightarrow>
     code_ok c \<and> total_arguments_count c \<le> length (stack_locals f) \<and>
     length (freevars f) = length (m_cellvars c) + length (m_freevars c) \<and>
     (\<forall>k < length (m_cell2arg c). \<exists>v. freevars f ! k = New_cell v)"

lemma index_of_None: "index_of x xs = None \<longleftrightarrow> x \<notin> set xs"
  by (induction xs) auto

lemma index_of_Some: "index_of x xs = Some i \<Longrightarrow> i < length xs \<and> xs ! i = x"
  by (induction xs arbitrary: i) (auto split: if_splits)

lemma index_of_nth: "distinct (take n xs) \<Longrightarrow> i < n \<Longrightarrow> n \<le> length xs \<Longrightarrow> index_of (xs ! i) xs = Some i"
proof (induction xs arbitrary: n i)
  case (Cons x xs)
  then obtain m where n: "n = Suc m"
    by (cases n) auto
  show ?case
  proof (cases i)
    case (Suc j)
    then have "xs ! j \<in> set (take m xs)"
      using Cons.prems n by (auto simp: in_set_conv_nth)
    then have "x \<noteq> xs ! j"
      using Cons.prems n by auto
    then show ?thesis
      using Cons.IH [of m j] Cons.prems n Suc by simp
  qed simp
qed simp

lemma arg_stack_offset_le: "arg_stack_offset c i \<le> Suc i"
  by (induction i) auto

lemma offset_of_local: "i \<notin> set (m_cell2arg c) \<Longrightarrow> arg_stack_offset c i \<le> i"
  using arg_stack_offset_le [of c "i - 1"] by (cases i) auto

text \<open>The local of an argument behind another one is behind its local.\<close>

lemma locals_increase:
  "i < j \<Longrightarrow> i \<notin> set (m_cell2arg c) \<Longrightarrow> j \<notin> set (m_cell2arg c) \<Longrightarrow>
   i - arg_stack_offset c i < j - arg_stack_offset c j"
proof -
  have *: "int (arg_stack_offset c (i + d)) \<le> int (arg_stack_offset c i) + int d" for d
    by (induction d) auto
  assume "i < j" and i: "i \<notin> set (m_cell2arg c)" and j: "j \<notin> set (m_cell2arg c)"
  then obtain d where "j = Suc (i + d)"
    using less_iff_Suc_add by auto
  then have "arg_stack_offset c j = arg_stack_offset c (i + d)"
    using j by simp
  then show ?thesis
    using * [of d] offset_of_local [OF i] offset_of_local [OF j] \<open>j = Suc (i + d)\<close> by linarith
qed

lemma locals_differ:
  "i \<noteq> j \<Longrightarrow> i \<notin> set (m_cell2arg c) \<Longrightarrow> j \<notin> set (m_cell2arg c) \<Longrightarrow>
   i - arg_stack_offset c i \<noteq> j - arg_stack_offset c j"
  by (metis less_not_refl locals_increase nat_neq_iff)

section \<open>Stores of arguments\<close>

fun put_all :: "(nat \<Rightarrow> 'v \<Rightarrow> 's \<Rightarrow> 's py_result) \<Rightarrow> nat \<Rightarrow> 'v list \<Rightarrow> 's \<Rightarrow> 's py_result" where
  "put_all put i [] s = Ok s"
| "put_all put i (v # vs) s = and_then (put i v s) (put_all put (Suc i) vs)"

fun fill_down ::
  "('s \<Rightarrow> nat \<Rightarrow> 'v py_result) \<Rightarrow> (nat \<Rightarrow> 'v \<Rightarrow> 's \<Rightarrow> 's py_result) \<Rightarrow> ('v \<Rightarrow> bool) \<Rightarrow>
   int \<Rightarrow> 'v list \<Rightarrow> 's \<Rightarrow> 's py_result" where
  "fill_down get put free i [] s = Ok s"
| "fill_down get put free i (v # vs) s =
     assert_that (0 \<le> i)
       (and_then (and_then (get s (nat i)) (\<lambda>w. if free w then put (nat i) v s else Ok s))
         (fill_down get put free (i - 1) vs))"

locale argument_store =
  fixes get :: "'s \<Rightarrow> nat \<Rightarrow> 'v py_result"
    and put :: "nat \<Rightarrow> 'v \<Rightarrow> 's \<Rightarrow> 's py_result"
    and ok :: "'s \<Rightarrow> bool" and n :: nat
  assumes get_returns: "ok s \<Longrightarrow> i < n \<Longrightarrow> \<exists>v. get s i = Ok v"
    and put_returns: "ok s \<Longrightarrow> i < n \<Longrightarrow>
      \<exists>s'. put i v s = Ok s' \<and> ok s' \<and> (\<forall>j < n. get s' j = (if j = i then Ok v else get s j))"
begin

lemma put_all_returns:
  "ok s \<Longrightarrow> i + length vs \<le> n \<Longrightarrow>
   \<exists>s'. put_all put i vs s = Ok s' \<and> ok s' \<and>
     (\<forall>j < n. get s' j = (if i \<le> j \<and> j < i + length vs then Ok (vs ! (j - i)) else get s j))"
proof (induction vs arbitrary: i s)
  case (Cons v vs)
  obtain s1 where s1: "put i v s = Ok s1" "ok s1" "\<forall>j < n. get s1 j = (if j = i then Ok v else get s j)"
    using put_returns [OF Cons.prems(1), of i v] Cons.prems(2) by auto
  obtain s2 where s2: "put_all put (Suc i) vs s1 = Ok s2" "ok s2"
    "\<forall>j < n. get s2 j = (if Suc i \<le> j \<and> j < Suc i + length vs then Ok (vs ! (j - Suc i)) else get s1 j)"
    using Cons.IH [OF s1(2), of "Suc i"] Cons.prems(2) by auto
  have "get s2 j = (if i \<le> j \<and> j < i + length (v # vs) then Ok ((v # vs) ! (j - i)) else get s j)" if "j < n" for j
    using s1(3) s2(3) that by (auto simp: nth_Cons' not_le Suc_le_eq)
  then show ?case
    using s1(1) s2(1,2) by simp
qed auto

lemma fill_down_returns:
  "ok s \<Longrightarrow> i < int n \<Longrightarrow> int (length vs) \<le> i + 1 \<Longrightarrow>
   \<exists>s'. fill_down get put free i vs s = Ok s' \<and> ok s' \<and>
     (\<forall>j < n. get s' j =
        and_then (get s j) (\<lambda>w. Ok (if free w \<and> int j \<le> i \<and> i < int j + int (length vs)
          then vs ! nat (i - int j) else w)))"
proof (induction vs arbitrary: i s)
  case Nil
  have "get s j = and_then (get s j) (\<lambda>w. Ok (if free w \<and> int j \<le> i \<and> i < int j then [] ! nat (i - int j) else w))" for j
    by (cases "get s j") auto
  then show ?case
    using Nil by simp
next
  case (Cons v vs)
  then have i: "nat i < n" "0 \<le> i"
    by auto
  obtain w where w: "get s (nat i) = Ok w"
    using get_returns [OF Cons.prems(1) i(1)] by auto
  obtain s0 where s0: "put (nat i) v s = Ok s0" "ok s0" "\<forall>j < n. get s0 j = (if j = nat i then Ok v else get s j)"
    using put_returns [OF Cons.prems(1) i(1), of v] by auto
  define s1 where "s1 = (if free w then s0 else s)"
  have s1: "ok s1" "\<forall>j < n. get s1 j = (if j = nat i \<and> free w then Ok v else get s j)"
    using s0 w Cons.prems(1) by (auto simp: s1_def)
  obtain s2 where s2: "fill_down get put free (i - 1) vs s1 = Ok s2" "ok s2"
    "\<forall>j < n. get s2 j = and_then (get s1 j) (\<lambda>w. Ok (if free w \<and> int j \<le> i - 1 \<and> i - 1 < int j + int (length vs)
          then vs ! nat (i - 1 - int j) else w))"
    using Cons.IH [OF s1(1), of "i - 1"] Cons.prems by auto
  have "get s2 j = and_then (get s j) (\<lambda>w. Ok (if free w \<and> int j \<le> i \<and> i < int j + int (length (v # vs))
          then (v # vs) ! nat (i - int j) else w))" if "j < n" for j
  proof (cases "int j = i")
    case True
    then show ?thesis
      using s2(3) s1(2) that w by auto
  next
    case False
    then have "int j \<le> i \<Longrightarrow> nat (i - int j) = Suc (nat (i - 1 - int j))" and "j \<noteq> nat i"
      using i(2) by auto
    then show ?thesis
      using False s2(3) s1(2) that by (cases "get s j") auto
  qed
  then show ?case
    using s2 s0(1) w i(2) by (auto simp: s1_def assert_that_def)
qed

end

section \<open>Frames are stores of arguments\<close>

lemma fits_length: "fits c f \<Longrightarrow> k < length (m_cell2arg c) \<Longrightarrow> k < length (freevars f)"
  by (simp add: fits_def code_ok_def)

lemma content_of_cell: "fits c f \<Longrightarrow> k < length (m_cell2arg c) \<Longrightarrow> \<exists>v. freevars f ! k = New_cell v \<and> content f k = Ok v"
  using fits_length [of c f k] by (auto simp: fits_def content_def)

lemma argument_returns: "fits c f \<Longrightarrow> i < total_arguments_count c \<Longrightarrow> \<exists>v. argument_of c f i = Ok v"
  using content_of_cell [of c f]
  by (auto simp: argument_of_def stack_local_def assert_that_def fits_def split: option.splits dest!: index_of_Some)

lemma fits_set_cell:
  assumes "fits c f"
  shows "fits c (f\<lparr>freevars := (freevars f)[k := New_cell v]\<rparr>)"
proof -
  have "\<exists>w. (freevars f)[k := New_cell v] ! l = New_cell w" if "l < length (m_cell2arg c)" for l
    using assms that fits_length [OF assms, of l] by (cases "l = k") (simp_all add: fits_def)
  then show ?thesis
    using assms by (simp add: fits_def)
qed

lemma place_cell:
  assumes "fits c f" and k: "index_of i (m_cell2arg c) = Some k"
  shows "\<exists>f'. put_argument c i v f = Ok f' \<and> fits c f' \<and> (\<forall>j. argument_of c f' j = (if j = i then Ok v else argument_of c f j))"
proof -
  let ?f = "f\<lparr>freevars := (freevars f)[k := New_cell v]\<rparr>"
  have less: "k < length (m_cell2arg c)" "m_cell2arg c ! k = i"
    using index_of_Some [OF k] by simp_all
  have "put_argument c i v f = Ok ?f"
    using content_of_cell [OF assms(1) less(1)] k by (auto simp: put_argument_def set_cell_def)
  moreover have "fits c ?f"
    using fits_set_cell [OF assms(1)] .
  moreover have "argument_of c ?f j = (if j = i then Ok v else argument_of c f j)" for j
  proof (cases "index_of j (m_cell2arg c)")
    case None
    then show ?thesis
      using k by (auto simp: argument_of_def stack_local_def)
  next
    case (Some l)
    then have "(l = k) = (j = i)"
      using index_of_Some [OF Some] less(2) k Some by (metis option.inject)
    moreover have "k < length (freevars f)"
      using fits_length [OF assms(1) less(1)] .
    ultimately show ?thesis
      using Some by (cases "j = i") (simp_all add: argument_of_def content_def)
  qed
  ultimately show ?thesis
    by blast
qed

lemma place_local:
  assumes "fits c f" and i: "index_of i (m_cell2arg c) = None" "i < total_arguments_count c"
  shows "\<exists>f'. put_argument c i v f = Ok f' \<and> fits c f' \<and> (\<forall>j. argument_of c f' j = (if j = i then Ok v else argument_of c f j))"
proof -
  let ?i = "i - arg_stack_offset c i"
  let ?f = "f\<lparr>stack_locals := (stack_locals f)[?i := v]\<rparr>"
  have less: "?i < length (stack_locals f)"
    using assms(1) i(2) by (auto simp: fits_def)
  then have "put_argument c i v f = Ok ?f"
    using i(1) by (auto simp: put_argument_def set_local_def stack_local_def assert_that_def)
  moreover have "fits c ?f"
    using assms(1) by (simp add: fits_def)
  moreover have "argument_of c ?f j = (if j = i then Ok v else argument_of c f j)" for j
  proof (cases "index_of j (m_cell2arg c)")
    case None
    then have "j \<noteq> i \<Longrightarrow> j - arg_stack_offset c j \<noteq> ?i"
      using locals_differ [of j i c] i(1) by (simp add: index_of_None)
    then show ?thesis
      using None less by (auto simp: argument_of_def stack_local_def assert_that_def)
  next
    case (Some k)
    then show ?thesis
      using i(1) by (auto simp: argument_of_def content_def)
  qed
  ultimately show ?thesis
    by blast
qed

lemma place_returns:
  "fits c f \<Longrightarrow> i < total_arguments_count c \<Longrightarrow>
   \<exists>f'. put_argument c i v f = Ok f' \<and> fits c f' \<and> (\<forall>j. argument_of c f' j = (if j = i then Ok v else argument_of c f j))"
  using place_cell [of c f i] place_local [of c f i] by (cases "index_of i (m_cell2arg c)") auto

interpretation frame: argument_store "argument_of c" "put_argument c" "fits c" "total_arguments_count c" for c
proof
  fix f :: "'a call_frame" and i :: nat and v :: "'a slot"
  assume *: "fits c f" "i < total_arguments_count c"
  show "\<exists>v. argument_of c f i = Ok v"
    using argument_returns [OF *] .
  show "\<exists>f'. put_argument c i v f = Ok f' \<and> fits c f' \<and>
      (\<forall>j < total_arguments_count c. argument_of c f' j = (if j = i then Ok v else argument_of c f j))"
    using place_returns [OF *, of v] by metis
qed

lemma place_positional_put_all:
  "n + (case i of 0 \<Rightarrow> 0 | Suc k \<Rightarrow> arg_stack_offset c k) = i \<Longrightarrow>
   place_positional c i n vs f = put_all (put_argument c) i vs f"
proof (induction vs arbitrary: i n f)
  case (Cons v vs)
  show ?case
  proof (cases "index_of i (m_cell2arg c)")
    case None
    then have "arg_stack_offset c i = (case i of 0 \<Rightarrow> 0 | Suc k \<Rightarrow> arg_stack_offset c k)"
      by (cases i) (auto simp: index_of_None)
    moreover have "i - arg_stack_offset c i = n"
      using calculation Cons.prems by linarith
    ultimately show ?thesis
      using None Cons.prems Cons.IH [of "Suc n" "Suc i"]
      by (auto simp: put_argument_def [of c i v f] intro: and_then_cong)
  next
    case (Some k)
    then have "arg_stack_offset c i = Suc (case i of 0 \<Rightarrow> 0 | Suc k \<Rightarrow> arg_stack_offset c k)"
      using index_of_Some [OF Some] by (cases i) (auto simp: in_set_conv_nth)
    then show ?thesis
      using Some Cons.prems Cons.IH [of n "Suc i"] by (auto simp: put_argument_def [of c i v f] intro: and_then_cong)
  qed
qed simp

lemma place_default_eq:
  "place_default c i v f = and_then (argument_of c f i) (\<lambda>w. if unset w then put_argument c i v f else Ok f)"
  by (cases "index_of i (m_cell2arg c)") (simp_all add: place_default_def argument_of_def put_argument_def Let_def cong: if_cong)

lemma place_defaults_fill_down: "place_defaults c i vs f = fill_down (argument_of c) (put_argument c) unset i vs f"
  by (induction vs arbitrary: i f) (auto simp: place_default_eq intro!: arg_cong [of _ _ "assert_that _"] and_then_cong)

section \<open>New frames\<close>

lemma fits_new_frame: "code_ok c \<Longrightarrow> fits c (new_frame c)"
  by (auto simp: fits_def new_frame_def code_ok_def nth_append)

lemma argument_new_frame:
  assumes "code_ok c" and "i < total_arguments_count c"
  shows "argument_of c (new_frame c) i = Ok Null_slot"
proof (cases "index_of i (m_cell2arg c)")
  case None
  then show ?thesis
    using assms by (auto simp: argument_of_def stack_local_def assert_that_def new_frame_def Let_def code_ok_def)
next
  case (Some k)
  then show ?thesis
    using assms index_of_Some [OF Some]
    by (simp add: argument_of_def content_def new_frame_def code_ok_def nth_append)
qed

lemma replicate_update: "(replicate n x)[i := x] = replicate n x"
  by (cases "i < n") (simp_all add: list_eq_iff_nth_eq nth_list_update)

lemma for_each_clear:
  "n \<le> stack_size c \<Longrightarrow> set is \<subseteq> {..<n} \<Longrightarrow>
   run_each (\<lambda>i. set_local i Null_slot) is (new_frame c) = Ok (new_frame c)"
  by (induction "is")
    (simp_all add: set_local_def stack_local_def assert_that_def new_frame_def Let_def replicate_update)

lemma clear_locals_new_frame: "n \<le> stack_size c \<Longrightarrow> clear_locals n (new_frame c) = Ok (new_frame c)"
  by (auto simp: clear_locals_def intro: for_each_clear)

section \<open>Keyword arguments\<close>

definition as_keywords :: "(string \<times> 'o slot) list \<Rightarrow> 'o keyword_argument list" where
  "as_keywords ks = map (\<lambda>(k, v). (Some k, v)) ks"

text \<open>Keywords that name parameters, or nothing the function knows.\<close>

definition names_parameters :: "py_code \<Rightarrow> (string \<times> 'o slot) list \<Rightarrow> bool" where
  "names_parameters c ks \<longleftrightarrow> distinct (map fst ks) \<and>
     (\<forall>k \<in> fst ` set ks. k \<in> set (m_varnames c) \<longrightarrow> k \<in> set (take (total_named_arguments_count c) (m_varnames c)))"

definition parameter_name :: "py_code \<Rightarrow> nat \<Rightarrow> string" where
  "parameter_name c i = m_varnames c ! i"

definition refused_name :: "py_code \<Rightarrow> 'o call_frame \<Rightarrow> string \<Rightarrow> bool" where
  "refused_name c f k \<longleftrightarrow>
     (k \<notin> set (m_varnames c) \<and> \<not> varkeywords c) \<or>
     (\<exists>i < total_named_arguments_count c. parameter_name c i = k \<and> (\<exists>w. argument_of c f i = Ok w \<and> holds_object w))"

definition with_keyword :: "py_code \<Rightarrow> (string \<times> 'o slot) list \<Rightarrow> nat \<Rightarrow> 'o slot \<Rightarrow> 'o slot" where
  "with_keyword c ks i w =
     (if i < total_named_arguments_count c
      then case map_of ks (parameter_name c i) of None \<Rightarrow> w | Some v \<Rightarrow> v else w)"

lemma with_keyword_Nil [simp]: "with_keyword c [] i w = w"
  by (simp add: with_keyword_def)

lemma named_le_total: "total_named_arguments_count c \<le> total_arguments_count c"
  by (simp add: total_arguments_count_def)

lemma no_cells:
  assumes "arg_cells_count c = 0" and "i < total_arguments_count c"
  shows "index_of i (m_cell2arg c) = None" and "arg_stack_offset c i = 0"
proof -
  have no: "j \<notin> set (m_cell2arg c)" if "j < total_arguments_count c" for j
    using assms(1) that by (auto simp: arg_cells_count_def filter_empty_conv)
  then show "index_of i (m_cell2arg c) = None"
    using assms(2) by (simp add: index_of_None)
  show "arg_stack_offset c i = 0"
    using assms(2) by (induction i) (use no in auto)
qed

lemma parameter_index:
  assumes "code_ok c" and "k \<in> set (take (total_named_arguments_count c) (m_varnames c))"
  shows "\<exists>i < total_named_arguments_count c. parameter_name c i = k \<and> index_of k (m_varnames c) = Some i \<and>
    (\<forall>j < total_named_arguments_count c. parameter_name c j = k \<longrightarrow> j = i)"
proof -
  let ?n = "total_named_arguments_count c"
  have ok: "distinct (take ?n (m_varnames c))" "?n \<le> length (m_varnames c)"
    using assms(1) by (simp_all add: code_ok_def)
  obtain i where i: "i < ?n" "m_varnames c ! i = k"
    using assms(2) ok(2) by (auto simp: in_set_conv_nth)
  have "j = i" if "j < ?n" "m_varnames c ! j = k" for j
    using nth_eq_iff_index_eq [OF ok(1), of i j] that i ok(2) by simp
  moreover have "index_of k (m_varnames c) = Some i"
    using index_of_nth [OF ok(1) i(1) ok(2)] i(2) by simp
  ultimately show ?thesis
    using i unfolding parameter_name_def by blast
qed

lemma place_keyword_step:
  assumes "code_ok c" and "arg_cells_count c = 0" and "fits c f" and "i < total_named_arguments_count c"
    and "index_of k (m_varnames c) = Some i" and "n < total_arguments_count c"
  shows "place_keyword c (Some k, v) (n, f) =
    and_then (argument_of c f i) (\<lambda>w. if holds_object w then Err TypeError
      else and_then (put_argument c i v f) (\<lambda>f. Ok (Suc n, f)))"
proof -
  have i: "i < total_arguments_count c"
    using assms(4) named_le_total [of c] by simp
  show ?thesis
    using assms(5) no_cells [OF assms(2) i] no_cells(1) [OF assms(2) assms(6)]
    by (simp add: place_keyword_def argument_of_def put_argument_def cong: if_cong)
qed

lemma refused_name_cong:
  "(\<And>i. i < total_named_arguments_count c \<Longrightarrow> parameter_name c i = k \<Longrightarrow> argument_of c f i = argument_of c g i) \<Longrightarrow>
   refused_name c f k = refused_name c g k"
  unfolding refused_name_def by metis

lemma place_keywords:
  assumes "code_ok c" and "arg_cells_count c = 0"
  shows "fits c f \<Longrightarrow> names_parameters c ks \<Longrightarrow>
    n + length (filter (\<lambda>kv. fst kv \<in> set (m_varnames c)) ks) \<le> total_arguments_count c \<Longrightarrow>
    (if \<exists>k \<in> fst ` set ks. refused_name c f k
     then run_each (place_keyword c) (as_keywords ks) (n, f) = Err TypeError
     else \<exists>m f'. run_each (place_keyword c) (as_keywords ks) (n, f) = Ok (m, f') \<and> fits c f' \<and>
       (\<forall>j < total_arguments_count c. argument_of c f' j = and_then (argument_of c f j) (\<lambda>w. Ok (with_keyword c ks j w))))"
proof (induction ks arbitrary: n f)
  case Nil
  then show ?case
    by (auto simp: as_keywords_def)
next
  case (Cons kv ks)
  obtain k v where kv: "kv = (k, v)"
    by (cases kv)
  have names: "names_parameters c ks" "k \<notin> fst ` set ks"
    using Cons.prems(2) kv by (auto simp: names_parameters_def)
  show ?case
  proof (cases "k \<in> set (m_varnames c)")
    case False
    then have "index_of k (m_varnames c) = None"
      by (simp add: index_of_None)
    then have step: "run_each (place_keyword c) (as_keywords (kv # ks)) (n, f) =
        (if varkeywords c then run_each (place_keyword c) (as_keywords ks) (n, f) else Err TypeError)"
      by (simp add: kv as_keywords_def place_keyword_def)
    have unknown: "parameter_name c j \<noteq> k" if "j < total_named_arguments_count c" for j
      using False that assms(1) by (auto simp: parameter_name_def code_ok_def)
    then have "with_keyword c (kv # ks) j = with_keyword c ks j" for j
      by (auto simp: with_keyword_def kv fun_eq_iff)
    moreover have "refused_name c f k = (\<not> varkeywords c)"
      using False unknown by (auto simp: refused_name_def)
    ultimately show ?thesis
      using Cons.IH [OF Cons.prems(1) names(1), of n] Cons.prems(3) step False kv by (auto split: if_splits)
  next
    case True
    then have "k \<in> set (take (total_named_arguments_count c) (m_varnames c))"
      using Cons.prems(2) kv by (simp add: names_parameters_def)
    then obtain i where i: "i < total_named_arguments_count c" "parameter_name c i = k" "index_of k (m_varnames c) = Some i"
      and only: "\<forall>j < total_named_arguments_count c. parameter_name c j = k \<longrightarrow> j = i"
      using parameter_index [OF assms(1)] by blast
    have less: "i < total_arguments_count c" "n < total_arguments_count c"
      using i(1) named_le_total [of c] Cons.prems(3) True kv by simp_all
    obtain w where w: "argument_of c f i = Ok w"
      using argument_returns [OF Cons.prems(1) less(1)] by blast
    obtain f' where f': "put_argument c i v f = Ok f'" "fits c f'"
      "\<forall>j. argument_of c f' j = (if j = i then Ok v else argument_of c f j)"
      using place_returns [OF Cons.prems(1) less(1)] by blast
    have step: "run_each (place_keyword c) (as_keywords (kv # ks)) (n, f) =
        (if holds_object w then Err TypeError else run_each (place_keyword c) (as_keywords ks) (Suc n, f'))"
      using place_keyword_step [OF assms Cons.prems(1) i(1,3) less(2), of v] w f'(1) by (simp add: kv as_keywords_def)
    have k: "refused_name c f k = holds_object w"
      using True i(1,2) only w unfolding refused_name_def by (metis py_result.inject(1))
    have others: "refused_name c f' l = refused_name c f l" if "l \<in> fst ` set ks" for l
      using that names(2) f'(3) i(2) by (intro refused_name_cong) auto
    have "with_keyword c (kv # ks) j u = (if j = i then v else with_keyword c ks j u)" for j u
    proof (cases "j = i")
      case True
      then show ?thesis
        using i(1,2) by (simp add: with_keyword_def kv)
    next
      case False
      then have "j < total_named_arguments_count c \<Longrightarrow> parameter_name c j \<noteq> k"
        using only by blast
      then show ?thesis
        using False by (simp add: with_keyword_def kv)
    qed
    moreover have "map_of ks k = None"
      using names(2) by (simp add: map_of_eq_None_iff)
    then have "with_keyword c ks i u = u" for u
      using i(2) by (simp add: with_keyword_def)
    ultimately have result: "and_then (argument_of c f' j) (\<lambda>u. Ok (with_keyword c ks j u)) =
        and_then (argument_of c f j) (\<lambda>u. Ok (with_keyword c (kv # ks) j u))" for j
      using f'(3) w by simp
    show ?thesis
    proof (cases "holds_object w")
      case True
      then show ?thesis
        using step k kv by auto
    next
      case False
      then have "(\<exists>l \<in> fst ` set (kv # ks). refused_name c f l) = (\<exists>l \<in> fst ` set ks. refused_name c f' l)"
        using k kv others by auto
      moreover have "Suc n + length (filter (\<lambda>kv. fst kv \<in> set (m_varnames c)) ks) \<le> total_arguments_count c"
        using Cons.prems(3) True kv by simp
      ultimately show ?thesis
        using Cons.IH [OF f'(2) names(1), of "Suc n"] step False result
        by (cases "\<exists>l \<in> fst ` set ks. refused_name c f' l") simp_all
    qed
  qed
qed

section \<open>\<^verbatim>\<open>*args\<close>, \<^verbatim>\<open>**kwargs\<close> and the closure\<close>

lemma offset_card: "arg_stack_offset c i = card (set (m_cell2arg c) \<inter> {..i})"
proof (induction i)
  case 0
  then show ?case
    by (auto simp: atMost_0 Int_insert_right)
next
  case (Suc i)
  have "finite (set (m_cell2arg c) \<inter> {..i})" and "Suc i \<notin> set (m_cell2arg c) \<inter> {..i}"
    by simp_all
  then show ?case
    using Suc by (simp add: atMost_Suc Int_insert_right)
qed

lemma cells_card:
  "code_ok c \<Longrightarrow> arg_cells_count c = card (set (m_cell2arg c) \<inter> {..<total_arguments_count c})"
proof -
  assume ok: "code_ok c"
  have "arg_cells_count c = card (set (filter (\<lambda>a. total_arguments_count c \<noteq> a) (m_cell2arg c)))"
    using ok by (metis arg_cells_count_def code_ok_def distinct_card)
  also have "set (filter (\<lambda>a. total_arguments_count c \<noteq> a) (m_cell2arg c)) =
      set (m_cell2arg c) \<inter> {..<total_arguments_count c}"
    using ok by (auto simp: code_ok_def order.order_iff_strict)
  finally show ?thesis .
qed

lemma cells_le_total: "code_ok c \<Longrightarrow> arg_cells_count c \<le> total_arguments_count c"
  using card_mono [of "{..<total_arguments_count c}" "set (m_cell2arg c) \<inter> {..<total_arguments_count c}"]
  by (simp add: cells_card)

text \<open>An argument with no argument in a cell behind it has the local that \<^verbatim>\<open>eval\<close> counts from the end.\<close>

lemma offset_of_last:
  assumes "code_ok c" and "i < total_arguments_count c"
    and "\<And>j. i < j \<Longrightarrow> j < total_arguments_count c \<Longrightarrow> j \<notin> set (m_cell2arg c)"
  shows "arg_cells_count c = arg_stack_offset c i"
proof -
  have "set (m_cell2arg c) \<inter> {..<total_arguments_count c} = set (m_cell2arg c) \<inter> {..i}"
    using assms(2,3) by (auto simp: not_less [symmetric])
  then show ?thesis
    by (simp add: cells_card [OF assms(1)] offset_card)
qed

lemma place_rest_eq:
  assumes "fits c f" and "i < total_arguments_count c" and "argument_of c f i = Ok Null_slot"
    and last: "\<And>j. i < j \<Longrightarrow> j < total_arguments_count c \<Longrightarrow> i \<notin> set (m_cell2arg c) \<Longrightarrow> j \<notin> set (m_cell2arg c)"
  shows "place_rest c i v f = put_argument c i v f"
proof (cases "index_of i (m_cell2arg c)")
  case None
  then have "i \<notin> set (m_cell2arg c)"
    by (simp add: index_of_None)
  moreover have "code_ok c"
    using assms(1) by (simp add: fits_def)
  ultimately have cells: "arg_cells_count c = arg_stack_offset c i" and "arg_stack_offset c i \<le> i"
    using offset_of_last [of c i] assms(2) last offset_of_local [of i c] by blast+
  then have "int i + 1 - int (arg_cells_count c) - 1 = int (i - arg_stack_offset c i)"
    by simp
  moreover have "stack_locals f \<noteq> []"
    using assms(1,2) by (auto simp: fits_def)
  ultimately show ?thesis
    using None by (simp add: place_rest_def put_argument_def set_local_at_def assert_that_def)
next
  case (Some k)
  then show ?thesis
    using assms(3) by (simp add: place_rest_def put_argument_def argument_of_def unset_def)
qed

lemma remaining_kwargs_eq:
  "remaining_kwargs c (as_keywords ks) = Ok (filter (\<lambda>kv. fst kv \<notin> set (m_varnames c)) ks)"
  by (induction ks) (auto simp: as_keywords_def)

lemma place_closure_returns:
  "fits c f \<Longrightarrow> length (m_cellvars c) \<le> n \<Longrightarrow> n + length closure \<le> length (freevars f) \<Longrightarrow>
   (\<And>v. v \<in> set closure \<Longrightarrow> \<exists>a. v = Object_slot a \<and> is_cell a) \<Longrightarrow>
   \<exists>f'. place_closure is_cell n closure f = Ok f' \<and> (\<forall>i. argument_of c f' i = argument_of c f i)"
proof (induction closure arbitrary: n f)
  case (Cons v closure)
  obtain a where a: "v = Object_slot a" "is_cell a"
    using Cons.prems(4) by auto
  let ?f = "f\<lparr>freevars := (freevars f)[n := Captured_cell a]\<rparr>"
  have len: "length (m_cell2arg c) = length (m_cellvars c)"
    using Cons.prems(1) by (simp add: fits_def code_ok_def)
  have same: "argument_of c ?f i = argument_of c f i" for i
    using len Cons.prems(2)
    by (auto simp: argument_of_def stack_local_def content_def split: option.split dest!: index_of_Some)
  have "fits c ?f"
    using Cons.prems(1,2) len by (auto simp: fits_def)
  then have "\<exists>f'. place_closure is_cell (Suc n) closure ?f = Ok f' \<and> (\<forall>i. argument_of c f' i = argument_of c ?f i)"
    using Cons.prems(2-4) by (intro Cons.IH) auto
  then show ?case
    using a Cons.prems(3) same by (auto simp: assert_that_def)
qed simp

section \<open>The arguments of the frame\<close>

definition positional_count :: "py_code \<Rightarrow> 'o slot list \<Rightarrow> nat" where
  "positional_count c vs = min (length vs) (m_arg_count c)"

definition after_positional :: "py_code \<Rightarrow> 'o slot list \<Rightarrow> nat \<Rightarrow> 'o slot" where
  "after_positional c vs i = (if i < positional_count c vs then vs ! i else Null_slot)"

definition or_default :: "py_code \<Rightarrow> 'o slot list \<Rightarrow> 'o slot list \<Rightarrow> nat \<Rightarrow> 'o slot \<Rightarrow> 'o slot" where
  "or_default c ds kds i w =
     (if \<not> unset w then w
      else if i < m_arg_count c
      then if m_arg_count c \<le> i + length ds then ds ! (i + length ds - m_arg_count c) else w
      else if i < total_named_arguments_count c \<and> total_named_arguments_count c \<le> i + length kds
      then kds ! (i + length kds - total_named_arguments_count c) else w)"

definition argument_value ::
  "py_code \<Rightarrow> 'o slot list \<Rightarrow> (string \<times> 'o slot) list \<Rightarrow> 'o slot list \<Rightarrow> 'o slot list \<Rightarrow> nat \<Rightarrow> 'o slot" where
  "argument_value c vs ks ds kds i =
     (if i < total_named_arguments_count c
      then or_default c ds kds i (with_keyword c ks i (after_positional c vs i))
      else if varargs c \<and> i = total_named_arguments_count c then Args_tuple (drop (m_arg_count c) vs)
      else Kwargs_dict (filter (\<lambda>kv. fst kv \<notin> set (m_varnames c)) ks))"

definition refused_call :: "py_code \<Rightarrow> 'o slot list \<Rightarrow> (string \<times> 'o slot) list \<Rightarrow> bool" where
  "refused_call c vs ks \<longleftrightarrow>
     (\<exists>k \<in> fst ` set ks. (k \<notin> set (m_varnames c) \<and> \<not> varkeywords c) \<or>
        (\<exists>i < positional_count c vs. parameter_name c i = k \<and> holds_object (vs ! i))) \<or>
     (\<not> varargs c \<and> m_arg_count c < length vs)"

text \<open>
  The calls the theorem is about: no argument is null, there are not more defaults than parameters for
  them, a call with keywords is of a function without parameters in cells, and if \<^verbatim>\<open>**kwargs\<close> is in a
  cell, then \<^verbatim>\<open>*args\<close> is in one.
\<close>

definition call_ok ::
  "py_code \<Rightarrow> 'o slot list \<Rightarrow> (string \<times> 'o slot) list \<Rightarrow> 'o slot list \<Rightarrow> 'o slot list \<Rightarrow> bool" where
  "call_ok c vs ks ds kds \<longleftrightarrow>
     code_ok c \<and> Null_slot \<notin> set vs \<and> Null_slot \<notin> snd ` set ks \<and>
     length ds \<le> m_arg_count c \<and> length kds \<le> m_kwonly_arg_count c \<and>
     names_parameters c ks \<and> (ks = [] \<or> arg_cells_count c = 0) \<and>
     (varargs c \<and> varkeywords c \<and> Suc (total_named_arguments_count c) \<in> set (m_cell2arg c) \<longrightarrow>
        total_named_arguments_count c \<in> set (m_cell2arg c))"

definition closure_ok :: "('o \<Rightarrow> bool) \<Rightarrow> py_code \<Rightarrow> 'o slot list \<Rightarrow> bool" where
  "closure_ok is_cell c closure \<longleftrightarrow>
     length closure \<le> length (m_freevars c) \<and> (\<forall>v \<in> set closure. \<exists>a. v = Object_slot a \<and> is_cell a)"

definition holds_arguments :: "py_code \<Rightarrow> 'o call_frame \<Rightarrow> (nat \<Rightarrow> 'o slot) \<Rightarrow> bool" where
  "holds_arguments c f A \<longleftrightarrow> fits c f \<and> (\<forall>i < total_arguments_count c. argument_of c f i = Ok (A i))"

lemma holds_arguments_cong:
  "holds_arguments c f A \<Longrightarrow> (\<And>i. i < total_arguments_count c \<Longrightarrow> A i = B i) \<Longrightarrow> holds_arguments c f B"
  by (simp add: holds_arguments_def)

lemma bind_positional_holds:
  assumes "code_ok c"
  shows "\<exists>f. bind_positional c (Some vs) (new_frame c) = Ok f \<and> holds_arguments c f (after_positional c vs)"
proof -
  have "0 + length (take (m_arg_count c) vs) \<le> total_arguments_count c"
    by (simp add: total_arguments_count_def total_named_arguments_count_def)
  then obtain f where f: "put_all (put_argument c) 0 (take (m_arg_count c) vs) (new_frame c) = Ok f" "fits c f"
    "\<forall>j < total_arguments_count c. argument_of c f j =
       (if 0 \<le> j \<and> j < 0 + length (take (m_arg_count c) vs) then Ok (take (m_arg_count c) vs ! (j - 0))
        else argument_of c (new_frame c) j)"
    using frame.put_all_returns [OF fits_new_frame [OF assms]] by blast
  then have "holds_arguments c f (after_positional c vs)"
    using argument_new_frame [OF assms]
    by (auto simp: holds_arguments_def after_positional_def positional_count_def)
  then show ?thesis
    using f(1) by (auto simp: bind_positional_def place_positional_put_all)
qed

lemma names_less_total:
  assumes "code_ok c" and "names_parameters c ks"
  shows "length (filter (\<lambda>kv. fst kv \<in> set (m_varnames c)) ks) \<le> total_arguments_count c"
proof -
  let ?known = "filter (\<lambda>kv. fst kv \<in> set (m_varnames c)) ks"
  have "distinct (map fst ?known)" and "set (map fst ?known) \<subseteq> set (take (total_named_arguments_count c) (m_varnames c))"
    using assms(2) by (auto simp: names_parameters_def distinct_map_filter)
  then have "length (map fst ?known) \<le> length (take (total_named_arguments_count c) (m_varnames c))"
    by (metis card_mono distinct_card card_length le_trans List.finite_set)
  then show ?thesis
    using named_le_total [of c] by simp
qed

lemma bind_keywords_holds:
  assumes "code_ok c" and "names_parameters c ks" and "ks = [] \<or> arg_cells_count c = 0" and "holds_arguments c f A"
  shows "if \<exists>k \<in> fst ` set ks. refused_name c f k then bind_keywords c (Some (as_keywords ks)) f = Err TypeError
    else \<exists>f'. bind_keywords c (Some (as_keywords ks)) f = Ok f' \<and> holds_arguments c f' (\<lambda>i. with_keyword c ks i (A i))"
proof (cases "ks = []")
  case True
  then show ?thesis
    using assms(4) by (auto simp: bind_keywords_def as_keywords_def)
next
  case False
  then have "arg_cells_count c = 0"
    using assms(3) by simp
  then show ?thesis
    using place_keywords [OF assms(1) _ _ assms(2), of f 0] names_less_total [OF assms(1,2)] assms(4)
    by (auto simp: bind_keywords_def holds_arguments_def split: if_splits)
qed

lemma fill_holds:
  assumes "holds_arguments c f A" and "i < total_arguments_count c" and "length ds \<le> Suc i"
  shows "\<exists>f'. place_defaults c (int i) (rev ds) f = Ok f' \<and>
    holds_arguments c f' (\<lambda>j. if unset (A j) \<and> j \<le> i \<and> i < j + length ds then ds ! (j + length ds - Suc i) else A j)"
proof -
  obtain f' where f': "place_defaults c (int i) (rev ds) f = Ok f'" "fits c f'"
    "\<forall>j < total_arguments_count c. argument_of c f' j = and_then (argument_of c f j) (\<lambda>w. Ok (if unset w \<and> int j \<le> int i
       \<and> int i < int j + int (length (rev ds)) then rev ds ! nat (int i - int j) else w))"
    using frame.fill_down_returns [of c f "int i" "rev ds" unset] assms
    by (auto simp: holds_arguments_def place_defaults_fill_down)
  have "rev ds ! nat (int i - int j) = ds ! (j + length ds - Suc i)" if "j \<le> i" "i < j + length ds" for j
    using that by (simp add: rev_nth nat_diff_distrib' Suc_diff_le add.commute)
  then show ?thesis
    using f' assms(1) by (auto simp: holds_arguments_def)
qed

lemma bind_defaults_holds:
  assumes "holds_arguments c f A" and "length ds \<le> m_arg_count c" and "length kds \<le> m_kwonly_arg_count c"
  shows "\<exists>f'. bind_defaults c ds kds f = Ok f' \<and>
    holds_arguments c f' (\<lambda>i. if i < total_named_arguments_count c then or_default c ds kds i (A i) else A i)"
proof -
  let ?n = "m_arg_count c" and ?m = "m_kwonly_arg_count c + m_arg_count c"
  let ?B = "\<lambda>j. if unset (A j) \<and> j < ?n \<and> ?n \<le> j + length ds then ds ! (j + length ds - ?n) else A j"
  have total: "?n \<le> total_arguments_count c" "?m \<le> total_arguments_count c" "total_named_arguments_count c = ?m"
    by (simp_all add: total_arguments_count_def total_named_arguments_count_def)
  have "\<exists>f1. (if ?n > 0 \<and> ds \<noteq> [] then place_defaults c (int ?n - 1) (rev ds) f else Ok f) = Ok f1 \<and> holds_arguments c f1 ?B"
  proof (cases "?n > 0 \<and> ds \<noteq> []")
    case True
    then obtain k where "?n = Suc k"
      using gr0_conv_Suc by auto
    then show ?thesis
      using fill_holds [OF assms(1), of k ds] assms(2) total(1) True by (simp add: less_Suc_eq_le Suc_le_eq cong: if_cong)
  next
    case False
    then have "?B = A"
      using assms(2) by (auto simp: fun_eq_iff)
    then show ?thesis
      using False assms(1) by auto
  qed
  then obtain f1 where f1: "(if ?n > 0 \<and> ds \<noteq> [] then place_defaults c (int ?n - 1) (rev ds) f else Ok f) = Ok f1"
    "holds_arguments c f1 ?B"
    by blast
  let ?C = "\<lambda>j. if unset (?B j) \<and> j < ?m \<and> ?m \<le> j + length kds then kds ! (j + length kds - ?m) else ?B j"
  have "\<exists>f2. (if ?m > 0 \<and> kds \<noteq> [] then place_defaults c (int ?m - 1) (rev kds) f1 else Ok f1) = Ok f2 \<and> holds_arguments c f2 ?C"
  proof (cases "?m > 0 \<and> kds \<noteq> []")
    case True
    then obtain k where "?m = Suc k"
      using gr0_conv_Suc by auto
    then show ?thesis
      using fill_holds [OF f1(2), of k kds] assms(3) total(2) True by (simp add: less_Suc_eq_le Suc_le_eq cong: if_cong)
  next
    case False
    then have "?C = ?B"
      using assms(3) by (auto simp: fun_eq_iff)
    then show ?thesis
      using False f1(2) by auto
  qed
  moreover have "?C = (\<lambda>i. if i < total_named_arguments_count c then or_default c ds kds i (A i) else A i)"
    using assms(3) total(3) by (auto simp: or_default_def fun_eq_iff)
  ultimately show ?thesis
    using f1(1) by (auto simp: bind_defaults_def)
qed

lemma place_rest_holds:
  assumes "holds_arguments c f A" and "i < total_arguments_count c" and "A i = Null_slot"
    and "\<And>j. i < j \<Longrightarrow> j < total_arguments_count c \<Longrightarrow> i \<notin> set (m_cell2arg c) \<Longrightarrow> j \<notin> set (m_cell2arg c)"
  shows "\<exists>f'. place_rest c i v f = Ok f' \<and> holds_arguments c f' (A(i := v))"
  using place_rest_eq [of c f i v] place_returns [of c f i v] assms by (auto simp: holds_arguments_def)

text \<open>The frame of an accepted call holds the arguments, each in its cell or its local.\<close>

lemma bind_rest_holds:
  assumes "call_ok c vs ks ds kds" and "holds_arguments c f A"
    and "\<And>i. total_named_arguments_count c \<le> i \<Longrightarrow> A i = Null_slot" and "varargs c \<or> length vs \<le> m_arg_count c"
  shows "\<exists>f'. and_then (bind_varargs c (Some vs) f) (bind_varkeywords c (Some (as_keywords ks))) = Ok f' \<and>
    holds_arguments c f' (\<lambda>i. if i < total_named_arguments_count c then A i
      else if varargs c \<and> i = total_named_arguments_count c then Args_tuple (drop (m_arg_count c) vs)
      else Kwargs_dict (filter (\<lambda>kv. fst kv \<notin> set (m_varnames c)) ks))"
proof -
  let ?n = "total_named_arguments_count c" and ?k = "Kwargs_dict (filter (\<lambda>kv. fst kv \<notin> set (m_varnames c)) ks)"
  let ?A = "if varargs c then A(?n := Args_tuple (drop (m_arg_count c) vs)) else A"
  have "\<exists>f1. bind_varargs c (Some vs) f = Ok f1 \<and> holds_arguments c f1 ?A"
  proof (cases "varargs c")
    case True
    have "j = Suc ?n" "varkeywords c" if "?n < j" "j < total_arguments_count c" for j
      using that by (auto simp: total_arguments_count_def split: if_splits)
    then have "j \<notin> set (m_cell2arg c)" if "?n < j" "j < total_arguments_count c" "?n \<notin> set (m_cell2arg c)" for j
      using that assms(1) True unfolding call_ok_def by metis
    moreover have "?n < total_arguments_count c" and "A ?n = Null_slot"
      using True assms(3) by (simp_all add: total_arguments_count_def)
    ultimately have "\<exists>f'. place_rest c ?n v f = Ok f' \<and> holds_arguments c f' (A(?n := v))" for v
      using place_rest_holds [OF assms(2)] by blast
    then show ?thesis
      using True by (simp add: bind_varargs_def)
  next
    case False
    then show ?thesis
      using assms(2,4) by (auto simp: bind_varargs_def)
  qed
  then obtain f1 where f1: "bind_varargs c (Some vs) f = Ok f1" "holds_arguments c f1 ?A"
    by blast
  have "\<exists>f2. bind_varkeywords c (Some (as_keywords ks)) f1 = Ok f2 \<and>
      holds_arguments c f2 (if varkeywords c then ?A(?n + (if varargs c then 1 else 0) := ?k) else ?A)"
  proof (cases "varkeywords c")
    case True
    then show ?thesis
      using place_rest_holds [OF f1(2), of "?n + (if varargs c then 1 else 0)"] assms(3)
      by (auto simp: bind_varkeywords_def remaining_kwargs_eq total_arguments_count_def)
  next
    case False
    then show ?thesis
      using f1(2) by (simp add: bind_varkeywords_def)
  qed
  then obtain f2 where "bind_varkeywords c (Some (as_keywords ks)) f1 = Ok f2" and
    f2: "holds_arguments c f2 (if varkeywords c then ?A(?n + (if varargs c then 1 else 0) := ?k) else ?A)"
    by blast
  moreover have "(if varkeywords c then ?A(?n + (if varargs c then 1 else 0) := ?k) else ?A) i =
      (if i < ?n then A i else if varargs c \<and> i = ?n then Args_tuple (drop (m_arg_count c) vs) else ?k)"
    if "i < total_arguments_count c" for i
    using that by (cases "varargs c"; cases "varkeywords c") (auto simp: total_arguments_count_def)
  then have "holds_arguments c f2 (\<lambda>i. if i < ?n then A i
      else if varargs c \<and> i = ?n then Args_tuple (drop (m_arg_count c) vs) else ?k)"
    by (rule holds_arguments_cong [OF f2])
  ultimately show ?thesis
    using f1(1) by auto
qed

lemma refused_name_eq:
  assumes "holds_arguments c f (after_positional c vs)"
  shows "refused_name c f k \<longleftrightarrow> (k \<notin> set (m_varnames c) \<and> \<not> varkeywords c) \<or>
    (\<exists>i < positional_count c vs. parameter_name c i = k \<and> holds_object (vs ! i))"
proof -
  have "positional_count c vs \<le> total_named_arguments_count c"
    by (simp add: positional_count_def total_named_arguments_count_def)
  moreover have "argument_of c f i = Ok (after_positional c vs i)" if "i < total_named_arguments_count c" for i
    using assms that named_le_total [of c] by (simp add: holds_arguments_def)
  moreover have "holds_object (after_positional c vs i) \<longleftrightarrow> i < positional_count c vs \<and> holds_object (vs ! i)" for i
    by (simp add: after_positional_def)
  ultimately show ?thesis
    unfolding refused_name_def by (metis order.strict_trans2 py_result.inject(1))
qed

lemma eval_code_steps:
  assumes "code_ok c"
  shows "eval_code is_cell c (Some vs) (Some kvs) ds kds closure =
    and_then (bind_positional c (Some vs) (new_frame c)) (\<lambda>f.
    and_then (bind_keywords c (Some kvs) f) (\<lambda>f.
    and_then (bind_defaults c ds kds f) (\<lambda>f.
    and_then (and_then (bind_varargs c (Some vs) f) (bind_varkeywords c (Some kvs))) (\<lambda>f.
    and_then (place_closure is_cell (length (m_cellvars c)) closure f) (\<lambda>f. Ok (activation_of c, f))))))"
proof -
  have "total_arguments_count c - arg_cells_count c \<le> stack_size c" and "m_arg_count c \<le> length (m_varnames c)"
    using assms by (auto simp: code_ok_def total_named_arguments_count_def)
  then show ?thesis
    using assms cells_le_total [OF assms]
    by (simp add: clear_locals_new_frame eval_code_def assert_that_def code_ok_def and_then_assoc)
qed

lemma place_closure_holds:
  assumes "holds_arguments c f A" and "closure_ok is_cell c closure"
  shows "\<exists>f'. place_closure is_cell (length (m_cellvars c)) closure f = Ok f' \<and>
    (\<forall>i < total_arguments_count c. argument_of c f' i = Ok (A i))"
proof -
  have "fits c f"
    using assms(1) by (simp add: holds_arguments_def)
  moreover have "length (m_cellvars c) + length closure \<le> length (freevars f)"
    using assms by (auto simp: holds_arguments_def fits_def closure_ok_def)
  ultimately show ?thesis
    using place_closure_returns [of c f "length (m_cellvars c)" closure is_cell] assms
    by (auto simp: holds_arguments_def closure_ok_def)
qed

section \<open>Calls\<close>


section \<open>Calls that are bound wrongly\<close>

text \<open>A function with the parameters \<open>vars\<close> and room for two more locals.\<close>

definition simple_code :: "string list \<Rightarrow> nat list \<Rightarrow> string list \<Rightarrow> bool \<Rightarrow> bool \<Rightarrow> py_code" where
  "simple_code params cells rest star star2 =
     \<lparr>m_cell2arg = cells, m_arg_count = length params, m_cellvars = map (\<lambda>_. ''cell'') cells, m_freevars = [],
      m_kwonly_arg_count = 0, m_varnames = params @ rest, stack_size = length (params @ rest) + 2,
      varargs = star, varkeywords = star2, generator = False, coroutine = False\<rparr>"

definition call_simple ::
  "py_code \<Rightarrow> nat slot list \<Rightarrow> (string \<times> nat slot) list \<Rightarrow> (activation \<times> nat call_frame) py_result" where
  "call_simple c vs ks = eval_code (\<lambda>_. True) c (Some vs) (Some (as_keywords ks)) [] [] []"

definition bound_arguments :: "py_code \<Rightarrow> (activation \<times> nat call_frame) py_result \<Rightarrow> nat slot py_result list py_result" where
  "bound_arguments c r = and_then r (\<lambda>(_, f). Ok (map (argument_of c f) [0..<total_arguments_count c]))"


section \<open>Witness\<close>

text \<open>\<^verbatim>\<open>def f(a, b=2, *args, c=3, **kw)\<close>, called as \<^verbatim>\<open>f(1, c=7, d=8)\<close>.\<close>

definition demo_code :: py_code where
  "demo_code =
     \<lparr>m_cell2arg = [], m_arg_count = 2, m_cellvars = [], m_freevars = [''outer''], m_kwonly_arg_count = 1,
      m_varnames = [''a'', ''b'', ''c'', ''args'', ''kw''], stack_size = 5,
      varargs = True, varkeywords = True, generator = False, coroutine = False\<rparr>"


end
