(* ===== verification/Lexer.thy ===== *)
theory Lexer
  imports Prelude
begin

text \<open>
  The lexer, \<^verbatim>\<open>src/src/lexer/Lexer.hpp\<close> and \<^verbatim>\<open>Lexer.cpp\<close>: every member function that reads the
  program text. The state is a record with the fields of the class; the program is a list of
  characters, a pointer into it an offset. A stack (and the vector \<^verbatim>\<open>m_indent_values\<close>, used as one)
  is a list whose head is the top. \<^verbatim>\<open>peek\<close> asserts that it stays inside the program; the raw
  \<^verbatim>\<open>m_program[i]\<close> of a \<^verbatim>\<open>std::string\<close> yields the terminating zero at the end and is undefined
  behind it, as is a pointer behind the end. Character classes are those of the C locale.
  The scanners for single and double quotes are copies of each other: here the quote is an argument.
\<close>

section \<open>Data\<close>

record position =
  row :: nat
  column :: nat
  pointer_to_program :: nat

datatype (plugins only: size code) token_type =
    EOF_TOKEN | ENDMARKER | COMMENT | NAME | NUMBER | STRING | NEWLINE | NL | INDENT | DEDENT
  | OP | LPAREN | RPAREN | LSQB | RSQB | COLON | COMMA | SEMI | PLUS | MINUS | STAR | SLASH
  | VBAR | AMPER | LESS | GREATER | EQUAL | DOT | PERCENT | LBRACE | RBRACE | EQEQUAL | NOTEQUAL
  | LESSEQUAL | GREATEREQUAL | TILDE | CIRCUMFLEX | LEFTSHIFT | RIGHTSHIFT | DOUBLESTAR
  | PLUSEQUAL | MINEQUAL | STAREQUAL | SLASHEQUAL | PERCENTEQUAL | AMPEREQUAL | VBAREQUAL
  | CIRCUMFLEXEQUAL | LEFTSHIFTEQUAL | RIGHTSHIFTEQUAL | DOUBLESTAREQUAL | DOUBLESLASH
  | DOUBLESLASHEQUAL | AT | ATEQUAL | RARROW | ELLIPSIS | COLONEQUAL | EXCLAMATION
  | FSTRING_START | FSTRING_MIDDLE | FSTRING_END

record token =
  m_token_type :: token_type
  m_start :: position
  m_end :: position

datatype mode = NORMAL | FSTRING

datatype quote =
  SINGLE_SINGLE_QUOTE | SINGLE_DOUBLE_QUOTE | TRIPLE_SINGLE_QUOTE | TRIPLE_DOUBLE_QUOTE

record lexer =
  m_tokens_to_emit :: "token list"
  m_program :: string
  m_cursor :: nat
  m_position :: position
  m_indent_values :: "nat list"
  m_ignore_nl_token :: bool
  m_ignore_comments :: bool
  m_current_line_tokens :: "token list"
  m_parenthesis_level :: nat
  m_mode :: "mode list"
  m_quote :: "quote list"
  m_fstring_paren_level :: "nat list"

definition create :: "string \<Rightarrow> lexer" where
  "create program =
     \<lparr> m_tokens_to_emit = [], m_program = program, m_cursor = 0,
       m_position = \<lparr> row = 0, column = 0, pointer_to_program = 0 \<rparr>,
       m_indent_values = [0], m_ignore_nl_token = False, m_ignore_comments = False,
       m_current_line_tokens = [], m_parenthesis_level = 0, m_mode = [NORMAL],
       m_quote = [], m_fstring_paren_level = [] \<rparr>"

abbreviation program_size :: "lexer \<Rightarrow> nat" where
  "program_size l \<equiv> length (m_program l)"

section \<open>Characters\<close>

abbreviation newline :: char where "newline \<equiv> CHR 0x0A"
abbreviation backslash :: char where "backslash \<equiv> CHR 0x5C"
abbreviation single_quote :: char where "single_quote \<equiv> CHR 0x27"
abbreviation double_quote :: char where "double_quote \<equiv> CHR 0x22"

definition char_between :: "nat \<Rightarrow> nat \<Rightarrow> char \<Rightarrow> bool" where
  "char_between lo hi c \<longleftrightarrow> lo \<le> of_char c \<and> of_char c \<le> hi"

definition is_blank :: "char \<Rightarrow> bool" where
  "is_blank c \<longleftrightarrow> c = CHR 0x20 \<or> c = CHR 0x09"

definition is_space :: "char \<Rightarrow> bool" where
  "is_space c \<longleftrightarrow> c = CHR 0x20 \<or> char_between 9 13 c"

definition is_digit :: "char \<Rightarrow> bool" where
  "is_digit c \<longleftrightarrow> char_between 48 57 c"

definition is_alpha :: "char \<Rightarrow> bool" where
  "is_alpha c \<longleftrightarrow> char_between 65 90 c \<or> char_between 97 122 c"

definition is_alnum :: "char \<Rightarrow> bool" where
  "is_alnum c \<longleftrightarrow> is_alpha c \<or> is_digit c"

section \<open>Reading and moving\<close>

definition peek :: "lexer \<Rightarrow> nat \<Rightarrow> char py_result" where
  "peek l i = assert_that (m_cursor l + i < program_size l) (Ok (m_program l ! (m_cursor l + i)))"

definition program_at :: "lexer \<Rightarrow> nat \<Rightarrow> char py_result" where
  "program_at l i =
     (if i < program_size l then Ok (m_program l ! i)
      else if i = program_size l then Ok (CHR 0x00)
      else Abort Undefined)"

definition peek_is :: "lexer \<Rightarrow> nat \<Rightarrow> char \<Rightarrow> bool py_result" where
  "peek_is l i c = and_then (peek l i) (\<lambda>x. Ok (x = c))"

primrec peek_pattern :: "lexer \<Rightarrow> nat \<Rightarrow> string \<Rightarrow> bool py_result" where
  "peek_pattern l i [] = Ok True"
| "peek_pattern l i (c # pattern) =
     and_then (program_at l i) (\<lambda>x. if x \<noteq> c then Ok False else peek_pattern l (Suc i) pattern)"

definition increment_row_position :: "lexer \<Rightarrow> lexer py_result" where
  "increment_row_position l =
     (if m_cursor l \<le> program_size l then
        Ok (l\<lparr> m_position := \<lparr> row = Suc (row (m_position l)), column = 0,
                               pointer_to_program = m_cursor l \<rparr>,
              m_current_line_tokens := [] \<rparr>)
      else Abort Undefined)"

definition increment_column_position :: "lexer \<Rightarrow> nat \<Rightarrow> lexer py_result" where
  "increment_column_position l idx =
     (if m_cursor l + idx \<le> program_size l then
        Ok (l\<lparr> m_cursor := m_cursor l + idx,
              m_position := (m_position l)\<lparr> column := column (m_position l) + idx,
                                            pointer_to_program := m_cursor l + idx \<rparr> \<rparr>)
      else Abort Undefined)"

text \<open>\<^verbatim>\<open>advance\<close> has the same three statements.\<close>

definition advance :: "lexer \<Rightarrow> nat \<Rightarrow> lexer py_result" where
  "advance l positions = increment_column_position l positions"

definition advance_if :: "lexer \<Rightarrow> (char \<Rightarrow> bool) \<Rightarrow> (lexer \<times> bool) py_result" where
  "advance_if l P =
     and_then (program_at l (m_cursor l)) (\<lambda>c.
       if P c then and_then (increment_column_position l 1) (\<lambda>l'. Ok (l', True))
       else Ok (l, False))"

lemma increment_column_Ok [result_simps]:
  "increment_column_position l n = Ok l' \<longleftrightarrow>
     m_cursor l + n \<le> program_size l \<and>
     l' = l\<lparr> m_cursor := m_cursor l + n,
             m_position := (m_position l)\<lparr> column := column (m_position l) + n,
                                           pointer_to_program := m_cursor l + n \<rparr> \<rparr>"
  by (auto simp: increment_column_position_def)

lemma advance_Ok [result_simps]:
  "advance l n = Ok l' \<longleftrightarrow> increment_column_position l n = Ok l'"
  by (simp add: advance_def)

lemma increment_row_Ok [result_simps]:
  "increment_row_position l = Ok l' \<longleftrightarrow>
     m_cursor l \<le> program_size l \<and>
     l' = l\<lparr> m_position := \<lparr> row = Suc (row (m_position l)), column = 0,
                            pointer_to_program = m_cursor l \<rparr>,
             m_current_line_tokens := [] \<rparr>"
  by (auto simp: increment_row_position_def)

lemma peek_Ok [result_simps]:
  "peek l i = Ok c \<longleftrightarrow> m_cursor l + i < program_size l \<and> c = m_program l ! (m_cursor l + i)"
  by (auto simp: peek_def assert_that_def)

function advance_while :: "lexer \<Rightarrow> (char \<Rightarrow> bool) \<Rightarrow> lexer py_result" where
  "advance_while l P =
     and_then (program_at l (m_cursor l)) (\<lambda>c.
       if P c then and_then (increment_column_position l 1) (\<lambda>l'. advance_while l' P)
       else Ok l)"
  by auto
termination
  by (relation "measure (\<lambda>(l, P). Suc (program_size l) - m_cursor l)") (auto simp: result_simps)

text \<open>\<^verbatim>\<open>while (P(peek(n))) n++;\<close>\<close>

function peek_while :: "lexer \<Rightarrow> (char \<Rightarrow> bool) \<Rightarrow> nat \<Rightarrow> nat py_result" where
  "peek_while l P n =
     and_then (peek l n) (\<lambda>c. if P c then peek_while l P (Suc n) else Ok n)"
  by auto
termination
  by (relation "measure (\<lambda>(l, P, n). program_size l - (m_cursor l + n))") (auto simp: result_simps)

declare advance_while.simps [simp del] peek_while.simps [simp del]

section \<open>Tokens and lines\<close>

definition push_token :: "lexer \<Rightarrow> token_type \<Rightarrow> position \<Rightarrow> position \<Rightarrow> lexer" where
  "push_token l ty s e =
     (let t = \<lparr> m_token_type = ty, m_start = s, m_end = e \<rparr> in
      l\<lparr> m_tokens_to_emit := m_tokens_to_emit l @ [t],
         m_current_line_tokens := m_current_line_tokens l @ [t] \<rparr>)"

definition push_new_line :: "lexer \<Rightarrow> lexer py_result" where
  "push_new_line l =
     and_then (increment_column_position l 1) (\<lambda>l1.
       increment_row_position
         (push_token l1 (if m_parenthesis_level l1 > 0 then NL else NEWLINE)
            (m_position l) (m_position l1)))"

definition push_empty_line :: "lexer \<Rightarrow> lexer py_result" where
  "push_empty_line l =
     and_then (increment_column_position l 1) (\<lambda>l1.
       increment_row_position (push_token l1 NL (m_position l) (m_position l1)))"

section \<open>Comments, empty lines and indentation\<close>

function comment_start_loop :: "lexer \<Rightarrow> nat \<Rightarrow> nat option py_result" where
  "comment_start_loop l n =
     and_then (peek l n) (\<lambda>c.
       if is_blank c \<and> c \<noteq> newline then
         and_then (peek l (Suc n)) (\<lambda>d.
           if d = CHR ''#'' then Ok (Some (Suc n)) else comment_start_loop l (Suc n))
       else Ok None)"
  by auto
termination
  by (relation "measure (\<lambda>(l, n). program_size l - (m_cursor l + n))") (auto simp: result_simps)

declare comment_start_loop.simps [simp del]

definition comment_start :: "lexer \<Rightarrow> nat option py_result" where
  "comment_start l =
     (if m_cursor l \<ge> program_size l then Ok None
      else and_then (peek_is l 0 (CHR ''#'')) (\<lambda>b.
        if b then Ok (Some 0) else comment_start_loop l 0))"

definition try_read_comment :: "lexer \<Rightarrow> (lexer \<times> bool) py_result" where
  "try_read_comment l =
     and_then (comment_start l) (\<lambda>start.
       case start of
         None \<Rightarrow> Ok (l, False)
       | Some n \<Rightarrow>
           and_then (advance l n) (\<lambda>l1.
           and_then (advance l1 1) (\<lambda>l2.
           and_then (advance_while l2 (\<lambda>c. is_alnum c \<or> c \<noteq> newline)) (\<lambda>l3.
             let l4 = push_token l3 COMMENT (m_position l1) (m_position l3) in
             and_then
               (if length (m_current_line_tokens l4) = 1
                then assert_that (m_token_type (last (m_current_line_tokens l4)) = COMMENT)
                       (push_empty_line l4)
                else push_new_line l4)
               (\<lambda>l5. Ok (l5, True))))))"

definition try_empty_line :: "lexer \<Rightarrow> (lexer \<times> bool) py_result" where
  "try_empty_line l =
     and_then (peek l 0) (\<lambda>c.
       if is_space c \<and> \<not> is_blank c then
         (if column (m_position l) = 0
          then and_then (push_empty_line l) (\<lambda>l'. Ok (l', True))
          else Ok (l, False))
       else and_then (advance_while l is_blank) (\<lambda>l1.
         if m_cursor l1 \<ge> program_size l1 then Ok (l1, False)
         else and_then (peek l1 0) (\<lambda>d.
           if is_space d then and_then (push_empty_line l1) (\<lambda>l2. Ok (l2, True))
           else Ok (l1\<lparr> m_position := m_position l, m_cursor := m_cursor l \<rparr>, False))))"

abbreviation tab_size :: nat where "tab_size \<equiv> 8"

function indent_level_loop :: "lexer \<Rightarrow> nat \<Rightarrow> nat \<Rightarrow> (nat \<times> nat) py_result" where
  "indent_level_loop l pos value =
     and_then (peek l pos) (\<lambda>c.
       if is_blank c then
         indent_level_loop l (pos + 1) (if c = CHR 0x09 then value + tab_size else value + 1)
       else Ok (value, pos))"
  by auto
termination
  by (relation "measure (\<lambda>(l, n, v). program_size l - (m_cursor l + n))") (auto simp: result_simps)

declare indent_level_loop.simps [simp del]

definition compute_indent_level :: "lexer \<Rightarrow> (nat \<times> nat) py_result" where
  "compute_indent_level l = indent_level_loop l 0 0"

text \<open>The loop that emits a \<^verbatim>\<open>DEDENT\<close> per popped level; \<^verbatim>\<open>back()\<close> of an empty vector is undefined.\<close>

function dedent_to :: "nat \<Rightarrow> position \<Rightarrow> lexer \<Rightarrow> lexer py_result" where
  "dedent_to indent_value original l =
     (case m_indent_values l of
        [] \<Rightarrow> Abort Undefined
      | b # bs \<Rightarrow>
          if indent_value = b then Ok l
          else dedent_to indent_value original
                 ((push_token l DEDENT original (m_position l))\<lparr> m_indent_values := bs \<rparr>))"
  by auto
termination
  by (relation "measure (\<lambda>(v, p, l). length (m_indent_values l))") auto

declare dedent_to.simps [simp del]

definition try_read_indent :: "lexer \<Rightarrow> (lexer \<times> bool) py_result" where
  "try_read_indent l =
     (if column (m_position l) = 0 \<and> m_parenthesis_level l = 0 then
        and_then (compute_indent_level l) (\<lambda>(indent_value, position_increment).
        and_then (increment_column_position l position_increment) (\<lambda>l1.
          case m_indent_values l1 of
            [] \<Rightarrow> Abort Undefined
          | b # bs \<Rightarrow>
              if indent_value > b then
                Ok ((push_token l1 INDENT (m_position l) (m_position l1))
                      \<lparr> m_indent_values := indent_value # b # bs \<rparr>, True)
              else if indent_value < b then
                and_then (dedent_to indent_value (m_position l) l1) (\<lambda>l2. Ok (l2, True))
              else Ok (l1, False)))
      else Ok (l, False))"

section \<open>Numbers\<close>

text \<open>
  The number functions return the index behind the number, if there is one. \<open>or_number\<close> is the chain
  \<^verbatim>\<open>if (auto end = f()) { return *end; } else ...\<close>, \<open>then_number\<close> the early return
  \<^verbatim>\<open>if (!result) { return {}; }\<close> in front of the rest.
\<close>

definition or_number :: "nat option py_result \<Rightarrow> nat option py_result \<Rightarrow> nat option py_result" where
  "or_number m rest =
     and_then m (\<lambda>r. case r of Some e \<Rightarrow> Ok (Some e) | None \<Rightarrow> rest)"

definition then_number :: "nat option py_result \<Rightarrow> (nat \<Rightarrow> nat option py_result) \<Rightarrow> nat option py_result" where
  "then_number m rest =
     and_then m (\<lambda>r. case r of Some e \<Rightarrow> rest e | None \<Rightarrow> Ok None)"

lemma or_number_Some [result_simps]:
  "or_number m rest = Ok (Some e) \<longleftrightarrow> m = Ok (Some e) \<or> m = Ok None \<and> rest = Ok (Some e)"
  by (cases m) (auto simp: or_number_def split: option.splits)

lemma or_number_None [result_simps]:
  "or_number m rest = Ok None \<longleftrightarrow> m = Ok None \<and> rest = Ok None"
  by (cases m) (auto simp: or_number_def split: option.splits)

lemma then_number_Some [result_simps]:
  "then_number m rest = Ok (Some e) \<longleftrightarrow> (\<exists>x. m = Ok (Some x) \<and> rest x = Ok (Some e))"
  by (cases m) (auto simp: then_number_def split: option.splits)

function parse_digits_loop :: "lexer \<Rightarrow> (char \<Rightarrow> bool) \<Rightarrow> bool \<Rightarrow> nat \<Rightarrow> nat option py_result" where
  "parse_digits_loop l f previous_is_underscore n =
     and_then (peek l n) (\<lambda>c.
       if f c \<or> c = CHR ''_'' then
         (if c = CHR ''_'' \<and> previous_is_underscore then Ok None
          else parse_digits_loop l f (c = CHR ''_'') (Suc n))
       else Ok (Some n))"
  by auto
termination
  by (relation "measure (\<lambda>(l, f, b, n). program_size l - (m_cursor l + n))") (auto simp: result_simps)

declare parse_digits_loop.simps [simp del]

definition parse_digits :: "lexer \<Rightarrow> nat \<Rightarrow> (char \<Rightarrow> bool) \<Rightarrow> nat option py_result" where
  "parse_digits l n f =
     then_number (parse_digits_loop l f False n) (\<lambda>m.
       if m > 0 then
         and_then (peek_is l (m - 1) (CHR ''_'')) (\<lambda>b. if b then Abort Todo else Ok (Some m))
       else Ok (Some m))"

definition is_hex_value :: "char \<Rightarrow> bool" where
  "is_hex_value c \<longleftrightarrow> is_digit c \<or> char_between 97 102 c \<or> char_between 65 70 c"

definition is_bin_value :: "char \<Rightarrow> bool" where
  "is_bin_value c \<longleftrightarrow> c = CHR ''0'' \<or> c = CHR ''1''"

definition is_oct_value :: "char \<Rightarrow> bool" where
  "is_oct_value c \<longleftrightarrow> char_between 48 55 c"

text \<open>\<^verbatim>\<open>hex_number\<close>, \<^verbatim>\<open>bin_number\<close> and \<^verbatim>\<open>oct_number\<close> share their text but for the marker and
  the digit class.\<close>

definition prefixed_number :: "char \<Rightarrow> char \<Rightarrow> (char \<Rightarrow> bool) \<Rightarrow> lexer \<Rightarrow> nat \<Rightarrow> nat option py_result" where
  "prefixed_number lo up f l n =
     and_then (peek l n) (\<lambda>c0.
       if c0 \<noteq> CHR ''0'' then Ok None
       else and_then (peek l (n + 1)) (\<lambda>c1.
         if c1 \<noteq> lo \<and> c1 \<noteq> up then Ok None
         else and_then (peek l (n + 2)) (\<lambda>c2.
           if \<not> f c2 then Ok None
           else then_number (parse_digits l (n + 3) f) (\<lambda>m. Ok (if m < 3 then None else Some m)))))"

definition hex_number where "hex_number = prefixed_number (CHR ''x'') (CHR ''X'') is_hex_value"
definition bin_number where "bin_number = prefixed_number (CHR ''b'') (CHR ''B'') is_bin_value"
definition oct_number where "oct_number = prefixed_number (CHR ''o'') (CHR ''O'') is_oct_value"

definition dec_number :: "lexer \<Rightarrow> nat \<Rightarrow> nat option py_result" where
  "dec_number l n =
     and_then (peek_is l n (CHR ''_'')) (\<lambda>b.
       if b then Abort Todo
       else then_number (parse_digits l n (\<lambda>c. c = CHR ''0'')) (\<lambda>m.
         if m > 0 then Ok (Some m)
         else and_then (peek l m) (\<lambda>c.
           if \<not> is_digit c then Ok None
           else then_number (parse_digits l (Suc m) is_digit) (\<lambda>k.
             Ok (if k > 0 then Some k else None)))))"

definition int_number :: "lexer \<Rightarrow> nat \<Rightarrow> nat option py_result" where
  "int_number l n =
     or_number (hex_number l n) (or_number (bin_number l n) (or_number (oct_number l n) (dec_number l n)))"

definition exp_number :: "lexer \<Rightarrow> nat \<Rightarrow> nat option py_result" where
  "exp_number l n =
     and_then (peek l n) (\<lambda>c.
       if c \<noteq> CHR ''e'' \<and> c \<noteq> CHR ''E'' then Ok None
       else and_then (peek l (Suc n)) (\<lambda>s.
         let m = (if s = CHR ''-'' \<or> s = CHR ''+'' then Suc (Suc n) else Suc n) in
         and_then (peek l m) (\<lambda>d.
           if \<not> is_digit d then Ok None else parse_digits l (Suc m) is_digit)))"

definition point_float_number :: "lexer \<Rightarrow> nat \<Rightarrow> nat option py_result" where
  "point_float_number l n =
     and_then (peek l n) (\<lambda>c.
     then_number (if is_digit c then parse_digits l (Suc n) is_digit else Ok (Some n)) (\<lambda>m.
       and_then (peek l m) (\<lambda>d.
         if d \<noteq> CHR ''.'' then Ok None
         else and_then (peek l (Suc m)) (\<lambda>e.
           if \<not> is_digit e then Ok (Some (Suc m))
           else parse_digits l (Suc (Suc m)) is_digit))))"

definition exp_float_number :: "lexer \<Rightarrow> nat \<Rightarrow> nat option py_result" where
  "exp_float_number l n =
     and_then (peek l n) (\<lambda>c.
       if \<not> is_digit c then Ok None
       else and_then (peek l (Suc n)) (\<lambda>d.
         then_number (parse_digits l (if d = CHR ''.'' then Suc (Suc n) else Suc n) is_digit)
           (exp_number l)))"

definition float_number :: "lexer \<Rightarrow> nat \<Rightarrow> nat option py_result" where
  "float_number l n = or_number (exp_float_number l n) (point_float_number l n)"

definition imag_integer :: "lexer \<Rightarrow> nat \<Rightarrow> nat option py_result" where
  "imag_integer l n =
     and_then (peek l n) (\<lambda>c.
       if \<not> is_digit c then Ok None
       else then_number (parse_digits l (Suc n) is_digit) (\<lambda>m.
         and_then (peek l m) (\<lambda>d.
           if \<not> (d = CHR ''j'' \<and> d = CHR ''J'') then Ok None else Ok (Some (Suc m)))))"

definition imag_number :: "lexer \<Rightarrow> nat \<Rightarrow> nat option py_result" where
  "imag_number l n =
     or_number (imag_integer l n)
       (then_number (float_number l n) (\<lambda>m. and_then (peek l m) (\<lambda>d.
          Ok (if d = CHR ''j'' \<or> d = CHR ''J'' then Some (m + 1) else None))))"

definition try_read_number :: "lexer \<Rightarrow> (lexer \<times> bool) py_result" where
  "try_read_number l =
     (if m_cursor l \<ge> program_size l then Ok (l, False)
      else
        and_then (or_number (imag_number l 0) (or_number (float_number l 0) (int_number l 0))) (\<lambda>r.
          case r of
            None \<Rightarrow> Ok (l, False)
          | Some e \<Rightarrow> and_then (increment_column_position l e) (\<lambda>l1.
              Ok (push_token l1 NUMBER (m_position l) (m_position l1), True))))"

end
