(* ===== verification/Lexer_Strings.thy ===== *)
theory Lexer_Strings
  imports Lexer
begin

text \<open>
  String and f-string literals (\<^verbatim>\<open>src/src/lexer/Lexer.cpp\<close>): the scanners of the four quote styles,
  \<^verbatim>\<open>try_read_string\<close> and \<^verbatim>\<open>try_fstring\<close>, then the equivalence of the scanners with a reference
  that finds the first closing quote not preceded by an escape.
\<close>

section \<open>Single quotes\<close>

text \<open>\<^verbatim>\<open>[^'\\]*\<close>\<close>

definition skip_plain :: "lexer \<Rightarrow> char \<Rightarrow> nat \<Rightarrow> nat py_result" where
  "skip_plain l q n = peek_while l (\<lambda>c. c \<noteq> backslash \<and> c \<noteq> q) n"

text \<open>The lambda \<^verbatim>\<open>advance\<close> of the scanners: one escape and the plain text behind it.\<close>

definition skip_escape :: "lexer \<Rightarrow> char \<Rightarrow> nat \<Rightarrow> nat option py_result" where
  "skip_escape l q n =
     and_then (peek_is l n backslash) (\<lambda>b.
       if \<not> b then Ok None
       else and_then (peek_is l (n + 1) newline) (\<lambda>nl.
         if nl then Ok None
         else and_then (skip_plain l q (n + 2)) (\<lambda>m. Ok (Some m))))"

lemma peek_is_Ok [result_simps]:
  "peek_is l i c = Ok b \<longleftrightarrow>
     m_cursor l + i < program_size l \<and> b = (m_program l ! (m_cursor l + i) = c)"
  by (auto simp: peek_is_def result_simps)

lemma peek_while_bounds:
  "peek_while l P n = Ok m \<Longrightarrow>
     n \<le> m \<and> m_cursor l + m < program_size l \<and> \<not> P (m_program l ! (m_cursor l + m))"
proof (induction l P n rule: peek_while.induct)
  case (1 l P n)
  then show ?case by (subst (asm) peek_while.simps) (force simp: result_simps split: if_splits)
qed

lemma skip_escape_bounds:
  "skip_escape l q n = Ok (Some m) \<Longrightarrow> n + 2 \<le> m \<and> m_cursor l + m < program_size l"
  by (auto simp: skip_escape_def skip_plain_def result_simps split: if_splits dest!: peek_while_bounds)

function skip_escapes :: "lexer \<Rightarrow> char \<Rightarrow> nat \<Rightarrow> nat py_result" where
  "skip_escapes l q n =
     and_then (skip_escape l q n) (\<lambda>inc.
       case inc of Some m \<Rightarrow> skip_escapes l q m | None \<Rightarrow> Ok n)"
  by auto
termination
  by (relation "measure (\<lambda>(l, q, n). program_size l - (m_cursor l + n))")
     (auto dest!: skip_escape_bounds)

declare skip_escapes.simps [simp del]

text \<open>\<^verbatim>\<open>peek(n) == '\\' && peek(n + 1) == '\n'\<close>, an escaped line end.\<close>

definition at_continuation :: "lexer \<Rightarrow> nat \<Rightarrow> bool py_result" where
  "at_continuation l n = and_also (peek_is l n backslash) (peek_is l (n + 1) newline)"

text \<open>\<open>original\<close> is the lexer at entry: a failed scan restores its position and cursor.\<close>

function quote_string_loop :: "char \<Rightarrow> lexer \<Rightarrow> lexer \<Rightarrow> nat \<Rightarrow> (lexer \<times> bool) py_result" where
  "quote_string_loop q original l n =
     and_then (skip_plain l q n) (\<lambda>n1.
     and_then (skip_escapes l q n1) (\<lambda>n2.
     and_then (at_continuation l n2) (\<lambda>b.
       if b then
         and_then (advance l (n2 + 2)) (\<lambda>l1.
         and_then (increment_row_position l1) (\<lambda>l2. quote_string_loop q original l2 0))
       else and_then (peek l n2) (\<lambda>c.
         if c \<noteq> q then
           Ok (l\<lparr> m_position := m_position original, m_cursor := m_cursor original \<rparr>, False)
         else and_then (advance l (n2 + 1)) (\<lambda>l1. Ok (l1, True))))))"
  by auto
termination
  by (relation "measure (\<lambda>(q, original, l, n). program_size l - m_cursor l)")
     (auto simp: result_simps)

declare quote_string_loop.simps [simp del]

definition single_quote_string where
  "single_quote_string l n = quote_string_loop single_quote l l n"

definition double_quote_string where
  "double_quote_string l n = quote_string_loop double_quote l l n"

section \<open>Triple quotes\<close>

text \<open>\<^verbatim>\<open>[^'\\]*\<close> again, counting the rows on the way.\<close>

function skip_lines :: "char \<Rightarrow> lexer \<Rightarrow> nat \<Rightarrow> (lexer \<times> nat) py_result" where
  "skip_lines q l n =
     and_then (peek l n) (\<lambda>c.
       if c \<noteq> backslash \<and> c \<noteq> q then
         and_then (if c = newline then increment_row_position l else Ok l) (\<lambda>l'.
           skip_lines q l' (Suc n))
       else Ok (l, n))"
  by auto
termination
  by (relation "measure (\<lambda>(q, l, n). program_size l - (m_cursor l + n))")
     (auto simp: result_simps split: if_splits)

declare skip_lines.simps [simp del]

text \<open>The lambda \<^verbatim>\<open>advance\<close>: an escape, or a quote that does not start three. (Its test for a
  newline follows a test that the same character is a quote, and is never true.)\<close>

definition skip_escape_or_quote :: "char \<Rightarrow> lexer \<Rightarrow> nat \<Rightarrow> nat option py_result" where
  "skip_escape_or_quote q l n =
     and_then (and_also (peek_is l n backslash)
                 (and_then (peek_is l (n + 1) newline) (\<lambda>b. Ok (\<not> b)))) (\<lambda>escape.
       if escape then Ok (Some (n + 2))
       else and_then (peek_is l n q) (\<lambda>b.
         if \<not> b then Ok None
         else and_then (and_also (peek_is l (n + 1) q) (peek_is l (n + 2) q)) (\<lambda>closing.
           Ok (if closing then None else Some (n + 1)))))"

lemma row_or_same_Ok:
  "(if c then increment_row_position l else Ok l) = Ok l' \<Longrightarrow>
     m_cursor l' = m_cursor l \<and> m_program l' = m_program l"
  by (auto simp: increment_row_Ok split: if_splits)

lemma skip_lines_bounds:
  "skip_lines q l n = Ok (l', m) \<Longrightarrow>
     n \<le> m \<and> m_cursor l' = m_cursor l \<and> m_program l' = m_program l \<and> m_cursor l + m < program_size l"
proof (induction q l n rule: skip_lines.induct)
  case (1 q l n)
  from 1(2) obtain c where c: "peek l n = Ok c"
    by (subst (asm) skip_lines.simps) (auto simp: and_then_eq_Ok)
  show ?case
  proof (cases "c \<noteq> backslash \<and> c \<noteq> q")
    case True
    with 1(2) c obtain l1 where l1: "(if c = newline then increment_row_position l else Ok l) = Ok l1"
      and rest: "skip_lines q l1 (Suc n) = Ok (l', m)"
      by (subst (asm) skip_lines.simps) (auto simp: and_then_eq_Ok)
    show ?thesis
      using 1(1) [OF c True l1 rest] row_or_same_Ok [OF l1] by simp
  next
    case False
    with 1(2) c show ?thesis by (subst (asm) skip_lines.simps) (auto simp: peek_Ok)
  qed
qed

lemma skip_escape_or_quote_bounds: "skip_escape_or_quote q l n = Ok (Some m) \<Longrightarrow> n < m"
  by (auto simp: skip_escape_or_quote_def result_simps split: if_splits)

function triple_loop :: "char \<Rightarrow> lexer \<Rightarrow> nat \<Rightarrow> (lexer \<times> nat) py_result" where
  "triple_loop q l n =
     and_then (skip_escape_or_quote q l n) (\<lambda>inc.
       case inc of
         None \<Rightarrow> Ok (l, n)
       | Some m \<Rightarrow> and_then (skip_lines q l m) (\<lambda>r. triple_loop q (fst r) (snd r)))"
  by auto
termination
  by (relation "measure (\<lambda>(q, l, n). program_size l - (m_cursor l + n))")
     (fastforce dest!: skip_lines_bounds skip_escape_or_quote_bounds)+

declare triple_loop.simps [simp del]

lemma triple_loop_cases:
  assumes "triple_loop q l n = Ok (l', m)"
  obtains "skip_escape_or_quote q l n = Ok None" "l' = l" "m = n"
  | k l1 n1 where "skip_escape_or_quote q l n = Ok (Some k)" "skip_lines q l k = Ok (l1, n1)"
      "triple_loop q l1 n1 = Ok (l', m)"
proof -
  from assms obtain inc where inc: "skip_escape_or_quote q l n = Ok inc"
    unfolding triple_loop.simps [of q l n] and_then_eq_Ok by blast
  show thesis
  proof (cases inc)
    case None
    with assms inc have "l' = l" "m = n" unfolding triple_loop.simps [of q l n] by simp_all
    with inc None that(1) show thesis by simp
  next
    case (Some k)
    with assms inc obtain r where "skip_lines q l k = Ok r" "triple_loop q (fst r) (snd r) = Ok (l', m)"
      unfolding triple_loop.simps [of q l n] by (auto simp: and_then_eq_Ok)
    with inc Some that(2) show thesis by (cases r) simp
  qed
qed

lemma triple_loop_bounds:
  "triple_loop q l n = Ok (l', m) \<Longrightarrow>
     n \<le> m \<and> m_cursor l' = m_cursor l \<and> m_program l' = m_program l"
proof (induction q l n rule: triple_loop.induct)
  case (1 q l n)
  from 1(2) show ?case
  proof (cases rule: triple_loop_cases)
    case (2 k l1 n1)
    from 1(1) [OF 2(1) refl 2(2)] 2(3) skip_lines_bounds [OF 2(2)] skip_escape_or_quote_bounds [OF 2(1)]
    show ?thesis by simp
  qed simp
qed

definition closes_triple :: "char \<Rightarrow> lexer \<Rightarrow> nat \<Rightarrow> bool py_result" where
  "closes_triple q l n =
     and_also (peek_is l n q) (and_also (peek_is l (n + 1) q) (peek_is l (n + 2) q))"

function triple_quote_loop :: "char \<Rightarrow> lexer \<Rightarrow> lexer \<Rightarrow> nat \<Rightarrow> (lexer \<times> bool) py_result" where
  "triple_quote_loop q original l n =
     and_then (skip_lines q l n) (\<lambda>r1.
     and_then (triple_loop q (fst r1) (snd r1)) (\<lambda>r2.
     and_then (at_continuation (fst r2) (snd r2)) (\<lambda>b.
       if b then
         and_then (advance (fst r2) (snd r2 + 2)) (\<lambda>l1.
         and_then (increment_row_position l1) (\<lambda>l2. triple_quote_loop q original l2 0))
       else and_then (closes_triple q (fst r2) (snd r2)) (\<lambda>closes.
         if \<not> closes then
           Ok ((fst r2)\<lparr> m_position := m_position original, m_cursor := m_cursor original \<rparr>, False)
         else and_then (advance (fst r2) (snd r2 + 3)) (\<lambda>l1. Ok (l1, True))))))"
  by auto
termination
  by (relation "measure (\<lambda>(q, original, l, n). program_size l - m_cursor l)")
     (fastforce simp: result_simps dest!: skip_lines_bounds triple_loop_bounds)+

declare triple_quote_loop.simps [simp del]

definition single_triple_quote_string where
  "single_triple_quote_string l n = triple_quote_loop single_quote l l n"

definition double_triple_quote_string where
  "double_triple_quote_string l n = triple_quote_loop double_quote l l n"

section \<open>\<^verbatim>\<open>try_read_string\<close>\<close>

definition string_possible_prefixes :: "string list" where
  "string_possible_prefixes =
     [[], ''br'', ''f'', ''rB'', ''u'', ''rF'', ''U'', ''fr'', ''RF'', ''fR'', ''BR'', ''RB'', ''bR'',
      ''rb'', ''F'', ''rf'', ''Fr'', ''R'', ''b'', ''Br'', ''B'', ''r'', ''FR'', ''Rf'', ''Rb'']"

text \<open>The predicate of \<^verbatim>\<open>find_if\<close>: the prefix, then a quote.\<close>

primrec prefix_matches :: "lexer \<Rightarrow> nat \<Rightarrow> string \<Rightarrow> bool py_result" where
  "prefix_matches l i [] = or_also (peek_is l i single_quote) (peek_is l i double_quote)"
| "prefix_matches l i (c # el) =
     and_then (peek_is l i c) (\<lambda>b. if \<not> b then Ok False else prefix_matches l (Suc i) el)"

primrec find_prefix :: "lexer \<Rightarrow> string list \<Rightarrow> string option py_result" where
  "find_prefix l [] = Ok None"
| "find_prefix l (el # els) =
     and_then (prefix_matches l 0 el) (\<lambda>b. if b then Ok (Some el) else find_prefix l els)"

definition is_triple_quote :: "lexer \<Rightarrow> nat \<Rightarrow> char \<Rightarrow> bool py_result" where
  "is_triple_quote l idx q =
     assert_that (q = single_quote \<or> q = double_quote) (closes_triple q l idx)"

definition quote_type :: "string \<Rightarrow> quote py_result" where
  "quote_type s =
     (if s = [single_quote] then Ok SINGLE_SINGLE_QUOTE
      else if s = [double_quote] then Ok SINGLE_DOUBLE_QUOTE
      else if s = replicate 3 single_quote then Ok TRIPLE_SINGLE_QUOTE
      else if s = replicate 3 double_quote then Ok TRIPLE_DOUBLE_QUOTE
      else Abort NotReached)"

text \<open>The lambda \<^verbatim>\<open>push_string_token\<close>; \<open>l\<close> is the lexer behind the literal, \<open>original\<close> the one in
  front of it and \<open>idx\<close> the length of the prefix. An f-string is only entered: its text is read again.\<close>

definition push_string_token :: "lexer \<Rightarrow> nat \<Rightarrow> bool \<Rightarrow> lexer \<Rightarrow> lexer py_result" where
  "push_string_token original idx is_fstring l =
     (if \<not> is_fstring then Ok (push_token l STRING (m_position original) (m_position l))
      else
        let l0 = l\<lparr> m_cursor := m_cursor original, m_position := m_position original \<rparr> in
        and_then (or_also (is_triple_quote l0 idx single_quote) (is_triple_quote l0 idx double_quote)) (\<lambda>t.
          let quote_size = (if t then 3 else 1) in
          and_then (quote_type (take quote_size (drop (m_cursor l0 + idx) (m_program l0)))) (\<lambda>qt.
          and_then (advance (l0\<lparr> m_quote := qt # m_quote l0 \<rparr>) (idx + quote_size)) (\<lambda>l1.
            let l2 = push_token l1 FSTRING_START (m_position original) (m_position l1) in
            Ok (l2\<lparr> m_mode := FSTRING # m_mode l2,
                     m_fstring_paren_level := m_parenthesis_level l2 # m_fstring_paren_level l2 \<rparr>)))))"

definition try_read_string :: "lexer \<Rightarrow> (lexer \<times> bool) py_result" where
  "try_read_string l =
     (if m_cursor l \<ge> program_size l then Ok (l, False)
      else and_then (find_prefix l string_possible_prefixes) (\<lambda>found.
        case found of
          None \<Rightarrow> Ok (l, False)
        | Some prefix \<Rightarrow>
            let idx = length prefix;
                is_fstring = (CHR ''f'' \<in> set prefix \<or> CHR ''F'' \<in> set prefix);
                finish = (\<lambda>r. and_then r (\<lambda>(l1, ok).
                  if ok then and_then (push_string_token l idx is_fstring l1) (\<lambda>l2. Ok (l2, True))
                  else Ok (l1, False)))
            in
            and_then (is_triple_quote l idx single_quote) (\<lambda>b1. if b1 then
              finish (single_triple_quote_string l (idx + 3)) else
            and_then (is_triple_quote l idx double_quote) (\<lambda>b2. if b2 then
              finish (double_triple_quote_string l (idx + 3)) else
            and_then (peek l idx) (\<lambda>c.
              if c = single_quote then finish (single_quote_string l (idx + 1))
              else if c = double_quote then finish (double_quote_string l (idx + 1))
              else Ok (l, False))))))"

section \<open>\<^verbatim>\<open>try_fstring\<close>\<close>

definition quote_top :: "lexer \<Rightarrow> quote \<Rightarrow> bool py_result" where
  "quote_top l q = (case m_quote l of [] \<Rightarrow> Abort Undefined | t # ts \<Rightarrow> Ok (t = q))"

definition closes_single_fstring :: "lexer \<Rightarrow> bool py_result" where
  "closes_single_fstring l =
     or_also (and_also (peek_is l 0 single_quote) (quote_top l SINGLE_SINGLE_QUOTE))
             (and_also (peek_is l 0 double_quote) (quote_top l SINGLE_DOUBLE_QUOTE))"

definition closes_triple_fstring :: "lexer \<Rightarrow> bool py_result" where
  "closes_triple_fstring l =
     or_also (and_also (closes_triple single_quote l 0) (quote_top l TRIPLE_SINGLE_QUOTE))
             (and_also (closes_triple double_quote l 0) (quote_top l TRIPLE_DOUBLE_QUOTE))"

text \<open>A \<^verbatim>\<open>FSTRING_MIDDLE\<close> from \<open>original\<close> up to here, then \<open>n\<close> characters as the token \<open>ty\<close>.\<close>

definition middle_then :: "position \<Rightarrow> nat \<Rightarrow> token_type \<Rightarrow> lexer \<Rightarrow> lexer py_result" where
  "middle_then original n ty l =
     and_then (advance (push_token l FSTRING_MIDDLE original (m_position l)) n) (\<lambda>l1.
       Ok (push_token l1 ty (m_position l) (m_position l1)))"

definition leave_fstring :: "lexer \<Rightarrow> lexer py_result" where
  "leave_fstring l =
     (case (m_mode l, m_quote l, m_fstring_paren_level l) of
        (m # ms, q # qs, p # ps) \<Rightarrow>
          Ok (l\<lparr> m_mode := ms, m_quote := qs, m_fstring_paren_level := ps \<rparr>)
      | _ \<Rightarrow> Abort Undefined)"

definition reached_end :: "position \<Rightarrow> lexer \<Rightarrow> (lexer \<times> bool) py_result" where
  "reached_end original l =
     and_then (if m_cursor l + 1 < program_size l then peek_is l 0 (CHR ''}'') else Ok False) (\<lambda>rb.
       if rb then
         and_then (peek_is l 1 (CHR ''}'')) (\<lambda>b.
           if \<not> b then and_then (middle_then original 1 RBRACE l) (\<lambda>l1. Ok (l1, True))
           else and_then (advance l 2) (\<lambda>l1. Ok (l1, False)))
       else and_then (closes_single_fstring l) (\<lambda>single.
         if single then
           and_then (middle_then original 1 FSTRING_END l) (\<lambda>l1.
           and_then (leave_fstring l1) (\<lambda>l2. Ok (l2, True)))
         else and_then (closes_triple_fstring l) (\<lambda>triple.
           if triple then
             and_then (middle_then original 3 FSTRING_END l) (\<lambda>l1.
             and_then (leave_fstring l1) (\<lambda>l2. Ok (l2, True)))
           else and_then (peek l 0) (\<lambda>c.
             if c = CHR ''{'' then
               and_then (peek_is l 1 (CHR ''{'')) (\<lambda>b.
                 if \<not> b then
                   and_then (middle_then original 1 LBRACE l) (\<lambda>l1.
                     Ok (l1\<lparr> m_mode := NORMAL # m_mode l1 \<rparr>, True))
                 else and_then (advance l 2) (\<lambda>l1. Ok (l1, False)))
             else
               and_then (if c = backslash then advance l 1 else Ok l) (\<lambda>l1.
               and_then (advance l1 1) (\<lambda>l2. Ok (l2, False)))))))"

lemma reached_end_continues:
  "reached_end p l = Ok (l', False) \<Longrightarrow>
     m_cursor l < m_cursor l' \<and> m_cursor l' \<le> program_size l' \<and> m_program l' = m_program l"
  by (auto simp: reached_end_def result_simps split: if_splits)

function fstring_loop :: "position \<Rightarrow> lexer \<Rightarrow> lexer py_result" where
  "fstring_loop original l =
     and_then (reached_end original l) (\<lambda>r.
       if snd r then Ok (fst r)
       else and_then (peek_pattern (fst r) (m_cursor (fst r)) [newline]) (\<lambda>nl.
         assert_that (\<not> nl) (fstring_loop original (fst r))))"
  by auto
termination
  by (relation "measure (\<lambda>(p, l). program_size l - m_cursor l)")
     (auto dest!: reached_end_continues)

declare fstring_loop.simps [simp del]

definition try_fstring :: "lexer \<Rightarrow> (lexer \<times> bool) py_result" where
  "try_fstring l = and_then (fstring_loop (m_position l) l) (\<lambda>l'. Ok (l', True))"

section \<open>The scanners find the first unescaped closing quote\<close>

text \<open>
  The reference: the length of the text up to and including the first run of \<open>n\<close> quotes that is not
  reached through an escape, where a backslash escapes any character, a newline included.
\<close>

fun closing :: "nat \<Rightarrow> char \<Rightarrow> string \<Rightarrow> nat option" where
  "closing n q [] = None"
| "closing n q [c] = (if c \<noteq> backslash \<and> take n [c] = replicate n q then Some n else None)"
| "closing n q (c # d # cs) =
     (if c = backslash then map_option (\<lambda>k. k + 2) (closing n q cs)
      else if take n (c # d # cs) = replicate n q then Some n
      else map_option Suc (closing n q (d # cs)))"

definition text_at :: "lexer \<Rightarrow> nat \<Rightarrow> string" where
  "text_at l n = drop (m_cursor l + n) (m_program l)"

definition char_at :: "lexer \<Rightarrow> nat \<Rightarrow> char" where
  "char_at l n = m_program l ! (m_cursor l + n)"

abbreviation inside :: "lexer \<Rightarrow> nat \<Rightarrow> bool" where
  "inside l n \<equiv> m_cursor l + n < program_size l"

lemma text_at_Cons: "inside l n \<Longrightarrow> text_at l n = char_at l n # text_at l (Suc n)"
  by (simp add: text_at_def char_at_def Cons_nth_drop_Suc)

lemma text_at_Nil: "\<not> inside l n \<Longrightarrow> text_at l n = []"
  by (simp add: text_at_def)

lemma peek_eq: "peek l n = (if inside l n then Ok (char_at l n) else Abort Assertion)"
  by (simp add: peek_def assert_that_def char_at_def)

lemma peek_is_eq: "peek_is l n c = (if inside l n then Ok (char_at l n = c) else Abort Assertion)"
  by (simp add: peek_is_def peek_eq)

lemma closing_plain:
  assumes "c \<noteq> backslash" and "c \<noteq> q" and "0 < n"
  shows "closing n q (c # cs) = map_option Suc (closing n q cs)"
proof -
  have "take n (c # cs) \<noteq> replicate n q" using assms(2,3) by (cases n) auto
  with assms(1) show ?thesis by (cases cs) auto
qed

lemma closing_escape: "closing n q (backslash # d # cs) = map_option (\<lambda>k. k + 2) (closing n q cs)"
  by simp

lemma closing_escape_end: "closing n q [backslash] = None"
  by simp

text \<open>\<open>shift q n l i j\<close>: the closing quote seen from \<open>i\<close> is the one seen from \<open>j \<ge> i\<close>.\<close>

definition shift :: "nat \<Rightarrow> char \<Rightarrow> lexer \<Rightarrow> nat \<Rightarrow> nat \<Rightarrow> bool" where
  "shift n q l i j \<longleftrightarrow> i \<le> j \<and>
     closing n q (text_at l i) = map_option (\<lambda>k. k + (j - i)) (closing n q (text_at l j))"

lemma shift_refl: "shift n q l i i"
  by (simp add: shift_def option.map_ident)

lemma shift_trans: "shift n q l i j \<Longrightarrow> shift n q l j k \<Longrightarrow> shift n q l i k"
  by (auto simp: shift_def map_option.compositionality o_def)

lemma shift_None: "shift n q l i j \<Longrightarrow> closing n q (text_at l j) = None \<Longrightarrow> closing n q (text_at l i) = None"
  by (simp add: shift_def)

lemma shift_plain:
  "inside l i \<Longrightarrow> char_at l i \<noteq> backslash \<Longrightarrow> char_at l i \<noteq> q \<Longrightarrow> 0 < n \<Longrightarrow> shift n q l i (Suc i)"
  by (simp add: shift_def text_at_Cons closing_plain)

lemma shift_escape:
  "inside l i \<Longrightarrow> inside l (i + 1) \<Longrightarrow> char_at l i = backslash \<Longrightarrow> shift n q l i (i + 2)"
  using text_at_Cons [of l i] text_at_Cons [of l "Suc i"] by (simp add: shift_def)

lemma closing_outside: "\<not> inside l i \<Longrightarrow> closing n q (text_at l i) = None"
  by (simp add: text_at_Nil)

lemma closing_lone_backslash:
  "inside l i \<Longrightarrow> \<not> inside l (i + 1) \<Longrightarrow> char_at l i = backslash \<Longrightarrow> closing n q (text_at l i) = None"
  using text_at_Cons [of l i] text_at_Nil [of l "Suc i"] by simp

text \<open>The outcome of a partial scan from \<open>i\<close>: a failed assertion where there is no closing quote, or an
  index from which the search goes on.\<close>

definition scans :: "nat \<Rightarrow> char \<Rightarrow> lexer \<Rightarrow> nat \<Rightarrow> nat py_result \<Rightarrow> (nat \<Rightarrow> bool) \<Rightarrow> bool" where
  "scans n q l i r P \<longleftrightarrow>
     (case r of
        Ok j \<Rightarrow> shift n q l i j \<and> P j
      | Err e \<Rightarrow> False
      | Abort f \<Rightarrow> f = Assertion \<and> closing n q (text_at l i) = None)"

lemma scans_shift: "shift n q l i j \<Longrightarrow> scans n q l j r P \<Longrightarrow> scans n q l i r P"
  by (auto simp: scans_def split: py_result.splits dest: shift_trans shift_None)

lemma scans_then:
  assumes "scans n q l i r P" and "\<And>j. P j \<Longrightarrow> scans n q l j (k j) Q"
  shows "scans n q l i (and_then r k) Q"
proof (cases r)
  case (Ok j)
  with assms have "shift n q l i j" "scans n q l j (k j) Q" by (auto simp: scans_def)
  with Ok show ?thesis by (simp add: scans_shift)
qed (use assms(1) in \<open>simp_all add: scans_def\<close>)

abbreviation stops :: "char \<Rightarrow> lexer \<Rightarrow> nat \<Rightarrow> bool" where
  "stops q l j \<equiv> inside l j \<and> (char_at l j = backslash \<or> char_at l j = q)"

lemma skip_plain_scans: "0 < n \<Longrightarrow> scans n q l i (skip_plain l q i) (stops q l)"
  unfolding skip_plain_def
proof (induction l "\<lambda>c. c \<noteq> backslash \<and> c \<noteq> q" i rule: peek_while.induct)
  case (1 l i)
  let ?P = "\<lambda>c. c \<noteq> backslash \<and> c \<noteq> q"
  show ?case
  proof (cases "inside l i \<and> ?P (char_at l i)")
    case True
    then have "peek_while l ?P i = peek_while l ?P (Suc i)"
      by (subst peek_while.simps) (simp add: peek_eq)
    with 1(1) [of "char_at l i"] True 1(2) show ?thesis
      by (auto simp: peek_eq intro: scans_shift shift_plain)
  next
    case False
    then have "peek_while l ?P i = (if inside l i then Ok i else Abort Assertion)"
      by (subst peek_while.simps) (auto simp: peek_eq)
    with False show ?thesis by (auto simp: scans_def shift_refl closing_outside)
  qed
qed

lemma skip_escape_scans:
  assumes "stops q l i" and "0 < n"
  shows "case skip_escape l q i of
      Ok None \<Rightarrow> at_continuation l i = Ok True \<or> at_continuation l i = Ok False \<and> char_at l i = q \<and> char_at l i \<noteq> backslash
    | Ok (Some j) \<Rightarrow> shift n q l i j \<and> stops q l j
    | Err e \<Rightarrow> False
    | Abort f \<Rightarrow> f = Assertion \<and> closing n q (text_at l i) = None"
proof (cases "char_at l i = backslash")
  case False
  with assms show ?thesis by (simp add: skip_escape_def peek_is_eq at_continuation_def and_also_def)
next
  case True
  show ?thesis
  proof (cases "inside l (i + 1)")
    case False
    with True assms show ?thesis
      using closing_lone_backslash [of l i] by (simp add: skip_escape_def peek_is_eq)
  next
    case in1: True
    show ?thesis
    proof (cases "char_at l (i + 1) = newline")
      case nl: True
      with True in1 assms show ?thesis
        by (simp add: skip_escape_def peek_is_eq at_continuation_def and_also_def)
    next
      case False
      have "scans n q l i (skip_plain l q (i + 2)) (stops q l)"
        using skip_plain_scans [OF assms(2)] shift_escape [of l i] assms(1) in1 True
        by (blast intro: scans_shift)
      with False True in1 assms show ?thesis
        by (cases "skip_plain l q (i + 2)") (auto simp: skip_escape_def peek_is_eq scans_def)
    qed
  qed
qed

lemma skip_escapes_scans:
  "stops q l i \<Longrightarrow> 0 < n \<Longrightarrow> scans n q l i (skip_escapes l q i) (\<lambda>j. inside l j \<and>
     (at_continuation l j = Ok True \<or> at_continuation l j = Ok False \<and> char_at l j = q \<and> char_at l j \<noteq> backslash))"
proof (induction l q i rule: skip_escapes.induct)
  case (1 l q i)
  note sp = skip_escape_scans [OF 1(2,3)]
  show ?case
  proof (cases "skip_escape l q i")
    case (Ok r)
    show ?thesis
    proof (cases r)
      case None
      with Ok sp 1(2) show ?thesis by (subst skip_escapes.simps) (auto simp: scans_def shift_refl)
    next
      case (Some j)
      with Ok sp have j: "shift n q l i j" "stops q l j" by simp_all
      have "skip_escapes l q i = skip_escapes l q j" using Ok Some by (subst skip_escapes.simps) simp
      with 1(1) [OF Ok Some j(2) 1(3)] j(1) show ?thesis by (auto intro: scans_shift)
    qed
  next
    case (Err e)
    with sp show ?thesis by simp
  next
    case (Abort f)
    with sp show ?thesis by (subst skip_escapes.simps) (simp add: scans_def)
  qed
qed

lemma continuation_inside: "at_continuation l j = Ok True \<Longrightarrow> inside l (j + 1) \<and> char_at l j = backslash"
  by (auto simp: at_continuation_def and_also_def peek_is_eq split: if_splits)

lemma text_at_moved: "m_program l' = m_program l \<Longrightarrow> m_cursor l' = m_cursor l + k \<Longrightarrow> text_at l' i = text_at l (k + i)"
  by (simp add: text_at_def add.assoc)

lemma quote_string_loop_closing:
  "q \<noteq> backslash \<Longrightarrow>
   (case closing 1 q (text_at l i) of
      None \<Rightarrow> quote_string_loop q l0 l i = Abort Assertion
    | Some k \<Rightarrow> \<exists>l'. quote_string_loop q l0 l i = Ok (l', True) \<and> m_cursor l' = m_cursor l + i + k)"
proof (induction q l0 l i rule: quote_string_loop.induct)
  case (1 q l0 l i)
  let ?scan = "and_then (skip_plain l q i) (skip_escapes l q)"
  have sc: "scans 1 q l i ?scan (\<lambda>j. inside l j \<and>
     (at_continuation l j = Ok True \<or> at_continuation l j = Ok False \<and> char_at l j = q \<and> char_at l j \<noteq> backslash))"
    by (rule scans_then [OF skip_plain_scans]) (auto intro: skip_escapes_scans)
  note unf = quote_string_loop.simps [of q l0 l i]
  show ?case
  proof (cases ?scan)
    case (Err e)
    with sc show ?thesis by (simp add: scans_def)
  next
    case (Abort f)
    with sc show ?thesis unfolding unf
      by (cases "skip_plain l q i") (auto simp: scans_def)
  next
    case (Ok j)
    then obtain n1 where n1: "skip_plain l q i = Ok n1" "skip_escapes l q n1 = Ok j"
      by (auto simp: and_then_eq_Ok)
    from sc Ok have j: "shift 1 q l i j" "inside l j"
      "at_continuation l j = Ok True \<or> at_continuation l j = Ok False \<and> char_at l j = q \<and> char_at l j \<noteq> backslash"
      by (auto simp: scans_def)
    from j(3) show ?thesis
    proof
      assume c: "at_continuation l j = Ok True"
      have in1: "inside l (j + 1)" and b: "char_at l j = backslash" using continuation_inside [OF c] by auto
      obtain l1 l2 where l1: "advance l (j + 2) = Ok l1" and l2: "increment_row_position l1 = Ok l2"
        and m: "m_program l2 = m_program l" "m_cursor l2 = m_cursor l + (j + 2)"
        using in1 by (auto simp: advance_def increment_column_position_def increment_row_position_def)
      have e: "quote_string_loop q l0 l i = quote_string_loop q l0 l2 0"
        unfolding unf using n1 c l1 l2 by simp
      have "shift 1 q l i (j + 2)" using shift_trans [OF j(1) shift_escape] j(2) in1 b by simp
      then have "closing 1 q (text_at l i) = map_option (\<lambda>k. k + (j + 2 - i)) (closing 1 q (text_at l2 0))"
        and "i \<le> j + 2"
        using text_at_moved [OF m, of 0] by (simp_all add: shift_def)
      with 1(1) [OF n1 c _ l1 l2 1(2)] m(2) show ?thesis unfolding e
        by (cases "closing 1 q (text_at l2 0)") auto
    next
      assume c: "at_continuation l j = Ok False \<and> char_at l j = q \<and> char_at l j \<noteq> backslash"
      have "closing 1 q (text_at l j) = Some 1"
        using j(2) c text_at_Cons [of l j] by (cases "text_at l (Suc j)") auto
      then have "closing 1 q (text_at l i) = Some (1 + (j - i))" "i \<le> j"
        using j(1) by (simp_all add: shift_def)
      then show ?thesis
        unfolding unf using n1 c j(2)
        by (auto simp: peek_eq advance_def increment_column_position_def)
    qed
  qed
qed

section \<open>Triple quotes\<close>

text \<open>The triple quote scanner also counts rows: its states differ, but not in text and cursor.\<close>

definition same_place :: "lexer \<Rightarrow> lexer \<Rightarrow> bool" where
  "same_place l l' \<longleftrightarrow> m_program l' = m_program l \<and> m_cursor l' = m_cursor l"

lemma same_place_eqs:
  "same_place l l' \<Longrightarrow> text_at l' i = text_at l i \<and> char_at l' i = char_at l i \<and> inside l' i = inside l i \<and>
     shift n q l' i j = shift n q l i j"
  by (simp add: same_place_def text_at_def char_at_def shift_def)

definition scans_rows ::
  "nat \<Rightarrow> char \<Rightarrow> lexer \<Rightarrow> nat \<Rightarrow> (lexer \<times> nat) py_result \<Rightarrow> (lexer \<Rightarrow> nat \<Rightarrow> bool) \<Rightarrow> bool" where
  "scans_rows n q l i r P \<longleftrightarrow>
     (case r of
        Ok (l', j) \<Rightarrow> same_place l l' \<and> shift n q l i j \<and> P l' j
      | Err e \<Rightarrow> False
      | Abort f \<Rightarrow> f = Assertion \<and> closing n q (text_at l i) = None)"

lemma scans_rows_shift:
  assumes "same_place l l1" and "shift n q l i j" and "scans_rows n q l1 j r P"
  shows "scans_rows n q l i r P"
  using assms same_place_eqs [OF assms(1)]
  by (auto simp: scans_rows_def same_place_def split: py_result.splits dest: shift_trans shift_None)

lemma scans_rows_then:
  assumes "scans_rows n q l i r P"
    and "\<And>l1 j. same_place l l1 \<Longrightarrow> P l1 j \<Longrightarrow> scans_rows n q l1 j (k (l1, j)) Q"
  shows "scans_rows n q l i (and_then r k) Q"
proof (cases r)
  case (Ok x)
  obtain l1 j where x: "x = (l1, j)" by fastforce
  with Ok assms have "same_place l l1" "shift n q l i j" "scans_rows n q l1 j (k (l1, j)) Q"
    by (auto simp: scans_rows_def)
  with Ok x show ?thesis by (simp add: scans_rows_shift)
qed (use assms(1) in \<open>simp_all add: scans_rows_def\<close>)

lemma skip_lines_scans: "0 < n \<Longrightarrow> scans_rows n q l i (skip_lines q l i) (stops q)"
proof (induction q l i rule: skip_lines.induct)
  case (1 q l i)
  note unf = skip_lines.simps [of q l i]
  show ?case
  proof (cases "inside l i \<and> char_at l i \<noteq> backslash \<and> char_at l i \<noteq> q")
    case True
    then obtain l1 where l1: "(if char_at l i = newline then increment_row_position l else Ok l) = Ok l1"
      and same: "same_place l l1"
      by (cases "char_at l i = newline") (auto simp: increment_row_position_def same_place_def)
    have e: "skip_lines q l i = skip_lines q l1 (Suc i)" unfolding unf using True l1 by (simp add: peek_eq)
    have "scans_rows n q l1 (Suc i) (skip_lines q l1 (Suc i)) (stops q)"
      using 1(1) [OF _ _ l1 1(2)] True by (simp add: peek_eq)
    then show ?thesis unfolding e using True 1(2) same
      by (auto intro: scans_rows_shift shift_plain)
  next
    case False
    then have "skip_lines q l i = (if inside l i then Ok (l, i) else Abort Assertion)"
      unfolding unf by (auto simp: peek_eq)
    with False show ?thesis by (auto simp: scans_rows_def same_place_def shift_refl closing_outside)
  qed
qed

lemma shift_lone_quote:
  assumes "q \<noteq> backslash" and "inside l i" and "char_at l i = q" and "inside l (i + 1)"
    and "char_at l (i + 1) = q \<Longrightarrow> inside l (i + 2) \<and> char_at l (i + 2) \<noteq> q"
  shows "shift 3 q l i (i + 1)"
proof -
  have t: "text_at l i = q # char_at l (i + 1) # text_at l (i + 2)"
    using text_at_Cons [of l i] text_at_Cons [of l "Suc i"] assms(2-4) by simp
  have "take 3 (text_at l i) \<noteq> replicate 3 q"
    using assms(5) text_at_Cons [of l "i + 2"] unfolding t by (auto simp: numeral_3_eq_3)
  with assms(1) show ?thesis
    using t text_at_Cons [of l "i + 1"] assms(4) by (simp add: shift_def numeral_2_eq_2)
qed

lemma closing_short_quotes:
  assumes "q \<noteq> backslash" and "inside l i" and "char_at l i = q"
    and "\<not> inside l (i + 1) \<or> char_at l (i + 1) = q \<and> \<not> inside l (i + 2)"
  shows "closing 3 q (text_at l i) = None"
proof (cases "inside l (i + 1)")
  case False
  then show ?thesis
    using assms text_at_Cons [of l i] text_at_Nil [of l "Suc i"] by (simp add: numeral_3_eq_3)
next
  case True
  then have "text_at l i = [q, q]"
    using assms text_at_Cons [of l i] text_at_Cons [of l "Suc i"] text_at_Nil [of l "Suc (Suc i)"] by simp
  then show ?thesis using assms(1) by (simp add: numeral_3_eq_3)
qed

definition triple_end :: "char \<Rightarrow> lexer \<Rightarrow> nat \<Rightarrow> bool" where
  "triple_end q l j \<longleftrightarrow> inside l j \<and>
     (at_continuation l j = Ok True \<or>
      at_continuation l j = Ok False \<and> inside l (j + 2) \<and>
        char_at l j = q \<and> char_at l (j + 1) = q \<and> char_at l (j + 2) = q)"

lemma skip_escape_or_quote_scans:
  assumes "stops q l i" and q: "q \<noteq> backslash"
  shows "case skip_escape_or_quote q l i of
      Ok None \<Rightarrow> triple_end q l i
    | Ok (Some j) \<Rightarrow> shift 3 q l i j
    | Err e \<Rightarrow> False
    | Abort f \<Rightarrow> f = Assertion \<and> closing 3 q (text_at l i) = None"
proof (cases "char_at l i = backslash")
  case True
  with assms shift_escape [of l i 3 q] closing_lone_backslash [of l i 3 q] show ?thesis
    by (auto simp: skip_escape_or_quote_def peek_is_eq and_also_def at_continuation_def triple_end_def)
next
  case False
  then have c: "char_at l i = q" "inside l i" using assms by auto
  show ?thesis
  proof (cases "inside l (i + 1) \<and> (char_at l (i + 1) = q \<longrightarrow> inside l (i + 2))")
    case True
    with c q shift_lone_quote [OF q c(2,1)] show ?thesis
      by (auto simp: skip_escape_or_quote_def peek_is_eq and_also_def at_continuation_def triple_end_def)
  next
    case False
    with c q closing_short_quotes [OF q c(2,1)] show ?thesis
      by (auto simp: skip_escape_or_quote_def peek_is_eq and_also_def)
  qed
qed

lemma triple_loop_scans:
  "stops q l i \<Longrightarrow> q \<noteq> backslash \<Longrightarrow> scans_rows 3 q l i (triple_loop q l i) (triple_end q)"
proof (induction q l i rule: triple_loop.induct)
  case (1 q l i)
  note unf = triple_loop.simps [of q l i]
  note sp = skip_escape_or_quote_scans [OF 1(2,3)]
  show ?case
  proof (cases "skip_escape_or_quote q l i")
    case (Ok r)
    show ?thesis
    proof (cases r)
      case None
      with Ok sp show ?thesis unfolding unf by (simp add: scans_rows_def same_place_def shift_refl)
    next
      case (Some j)
      with Ok sp have j: "shift 3 q l i j" by simp
      have e: "triple_loop q l i = and_then (skip_lines q l j) (\<lambda>r. triple_loop q (fst r) (snd r))"
        unfolding unf using Ok Some by simp
      have "scans_rows 3 q l j (triple_loop q l i) (triple_end q)"
        unfolding e
      proof (rule scans_rows_then [where P = "\<lambda>l1 k. stops q l1 k \<and> skip_lines q l j = Ok (l1, k)"])
        show "scans_rows 3 q l j (skip_lines q l j) (\<lambda>l1 k. stops q l1 k \<and> skip_lines q l j = Ok (l1, k))"
          using skip_lines_scans [of 3 q l j] by (auto simp: scans_rows_def split: py_result.splits)
      next
        fix l1 k assume "stops q l1 k \<and> skip_lines q l j = Ok (l1, k)"
        then show "scans_rows 3 q l1 k (triple_loop q (fst (l1, k)) (snd (l1, k))) (triple_end q)"
          using 1(1) [OF Ok Some, of "(l1, k)"] 1(3) by simp
      qed
      with j show ?thesis by (intro scans_rows_shift [of l l 3 q i j]) (simp_all add: same_place_def)
    qed
  next
    case (Err e)
    with sp show ?thesis by simp
  next
    case (Abort f)
    with sp show ?thesis unfolding unf by (simp add: scans_rows_def)
  qed
qed

lemma triple_quote_loop_closing:
  "q \<noteq> backslash \<Longrightarrow>
   (case closing 3 q (text_at l i) of
      None \<Rightarrow> triple_quote_loop q l0 l i = Abort Assertion
    | Some k \<Rightarrow> \<exists>l'. triple_quote_loop q l0 l i = Ok (l', True) \<and> m_cursor l' = m_cursor l + i + k)"
proof (induction q l0 l i rule: triple_quote_loop.induct)
  case (1 q l0 l i)
  let ?scan = "and_then (skip_lines q l i) (\<lambda>r. triple_loop q (fst r) (snd r))"
  have sc: "scans_rows 3 q l i ?scan (triple_end q)"
    by (rule scans_rows_then [OF skip_lines_scans]) (use triple_loop_scans [OF _ 1(2)] in simp_all)
  note unf = triple_quote_loop.simps [of q l0 l i]
  show ?case
  proof (cases ?scan)
    case (Err e)
    with sc show ?thesis by (simp add: scans_rows_def)
  next
    case (Abort f)
    with sc show ?thesis unfolding unf
      by (cases "skip_lines q l i") (auto simp: scans_rows_def)
  next
    case (Ok r2)
    then obtain r1 where r: "skip_lines q l i = Ok r1" "triple_loop q (fst r1) (snd r1) = Ok r2"
      by (auto simp: and_then_eq_Ok)
    obtain m j where mj: "r2 = (m, j)" by fastforce
    from sc Ok mj have sp: "same_place l m" and sh: "shift 3 q l i j" and te: "triple_end q m j"
      by (auto simp: scans_rows_def)
    note eqs = same_place_eqs [OF sp]
    show ?thesis
    proof (cases "at_continuation m j = Ok True")
      case c: True
      have in1: "inside l (j + 1)" and b: "char_at l j = backslash" using continuation_inside [OF c] eqs sp by (auto simp: same_place_def)
      obtain l1 l2 where l1: "advance m (j + 2) = Ok l1" and l2: "increment_row_position l1 = Ok l2"
        and m: "m_program l2 = m_program l" "m_cursor l2 = m_cursor l + (j + 2)"
        using in1 sp by (auto simp: advance_def increment_column_position_def increment_row_position_def same_place_def)
      have e: "triple_quote_loop q l0 l i = triple_quote_loop q l0 l2 0"
        unfolding unf using r mj c l1 l2 by simp
      have "shift 3 q l i (j + 2)" using shift_trans [OF sh shift_escape] in1 b by simp
      then have "closing 3 q (text_at l i) = map_option (\<lambda>k. k + (j + 2 - i)) (closing 3 q (text_at l2 0))"
        and "i \<le> j + 2"
        using text_at_moved [OF m, of 0] by (simp_all add: shift_def)
      moreover have "case closing 3 q (text_at l2 0) of
            None \<Rightarrow> triple_quote_loop q l0 l2 0 = Abort Assertion
          | Some k \<Rightarrow> \<exists>l'. triple_quote_loop q l0 l2 0 = Ok (l', True) \<and> m_cursor l' = m_cursor l2 + 0 + k"
        using 1(1) [OF r, of True l1 l2] mj c l1 l2 1(2) by simp
      ultimately show ?thesis unfolding e using m(2)
        by (cases "closing 3 q (text_at l2 0)") auto
    next
      case False
      with te have c: "at_continuation m j = Ok False" "inside l (j + 2)" "char_at l j = q"
        "char_at l (j + 1) = q" "char_at l (j + 2) = q"
        using eqs sp by (auto simp: triple_end_def same_place_def)
      have "text_at l j = q # q # q # text_at l (j + 3)"
        using c text_at_Cons [of l j] text_at_Cons [of l "j + 1"] text_at_Cons [of l "j + 2"]
        by (simp add: numeral_3_eq_3)
      then have "closing 3 q (text_at l j) = Some 3" using 1(2) by (simp add: numeral_3_eq_3)
      then have "closing 3 q (text_at l i) = Some (3 + (j - i))" "i \<le> j"
        using sh by (simp_all add: shift_def)
      moreover have "closes_triple q m j = Ok True"
        using c eqs sp by (simp add: closes_triple_def and_also_def peek_is_eq same_place_def)
      ultimately show ?thesis
        unfolding unf using r mj c(1,2) sp
        by (auto simp: advance_def increment_column_position_def same_place_def)
    qed
  qed
qed

section \<open>Properties\<close>

text \<open>C13: The scanners of all four quote styles agree with the reference: from any position they return
  true and leave the cursor just behind the first closing quote that is not reached through an
  escape, however many escapes, line continuations and lone quotes come before it; and where there
  is none they stop on the assertion of \<^verbatim>\<open>peek\<close>. They never return false.\<close>

theorem string_scanners_find_closing:
  "(case closing 1 single_quote (text_at l n) of
      None \<Rightarrow> single_quote_string l n = Abort Assertion
    | Some k \<Rightarrow> \<exists>l'. single_quote_string l n = Ok (l', True) \<and> m_cursor l' = m_cursor l + n + k) \<and>
   (case closing 1 double_quote (text_at l n) of
      None \<Rightarrow> double_quote_string l n = Abort Assertion
    | Some k \<Rightarrow> \<exists>l'. double_quote_string l n = Ok (l', True) \<and> m_cursor l' = m_cursor l + n + k) \<and>
   (case closing 3 single_quote (text_at l n) of
      None \<Rightarrow> single_triple_quote_string l n = Abort Assertion
    | Some k \<Rightarrow> \<exists>l'. single_triple_quote_string l n = Ok (l', True) \<and> m_cursor l' = m_cursor l + n + k) \<and>
   (case closing 3 double_quote (text_at l n) of
      None \<Rightarrow> double_triple_quote_string l n = Abort Assertion
    | Some k \<Rightarrow> \<exists>l'. double_triple_quote_string l n = Ok (l', True) \<and> m_cursor l' = m_cursor l + n + k)"
  unfolding single_quote_string_def double_quote_string_def single_triple_quote_string_def
    double_triple_quote_string_def
  by (intro conjI quote_string_loop_closing triple_quote_loop_closing) simp_all

end
