(* ===== verification/Lexer_Main.thy ===== *)
theory Lexer_Main
  imports Lexer_Strings
begin

text \<open>
  Operators, names, white space and the main loop of the lexer (\<^verbatim>\<open>src/src/lexer/Lexer.cpp\<close>), up to
  \<^verbatim>\<open>peek_token\<close>, which the parser calls. That the loops of \<^verbatim>\<open>read_more_tokens\<close> and \<^verbatim>\<open>peek_token\<close>
  end is proved in theory \<open>Lexer_Props\<close>.
\<close>

section \<open>Operators\<close>

definition enter_paren :: "lexer \<Rightarrow> lexer" where
  "enter_paren l = l\<lparr> m_parenthesis_level := m_parenthesis_level l + 1 \<rparr>"

definition leave_paren :: "lexer \<Rightarrow> lexer py_result" where
  "leave_paren l =
     assert_that (m_parenthesis_level l > 0)
       (Ok (l\<lparr> m_parenthesis_level := m_parenthesis_level l - 1 \<rparr>))"

text \<open>Back from a replacement field to its f-string; both assertions of the code.\<close>

definition back_to_fstring :: "lexer \<Rightarrow> lexer py_result" where
  "back_to_fstring l =
     (case m_mode l of
        [] \<Rightarrow> Abort Undefined
      | m # ms \<Rightarrow> assert_that (m = NORMAL)
          (case ms of
             [] \<Rightarrow> Abort Undefined
           | m' # _ \<Rightarrow> assert_that (m' = FSTRING) (Ok (l\<lparr> m_mode := ms \<rparr>))))"

definition simple_operators :: "(char \<times> token_type) list" where
  "simple_operators =
     [(CHR '','', COMMA), (CHR '';'', SEMI), (CHR ''+'', PLUS), (CHR ''-'', MINUS), (CHR ''*'', STAR),
      (CHR ''/'', SLASH), (CHR ''|'', VBAR), (CHR ''&'', AMPER), (CHR ''<'', LESS), (CHR ''>'', GREATER),
      (CHR ''='', EQUAL), (CHR ''.'', DOT), (CHR ''%'', PERCENT), (CHR ''~'', TILDE),
      (CHR ''^'', CIRCUMFLEX), (CHR ''@'', AT), (CHR ''!'', EXCLAMATION)]"

definition try_read_operation_with_one_character ::
  "lexer \<Rightarrow> (lexer \<times> token_type option) py_result" where
  "try_read_operation_with_one_character l =
     and_then (peek l 0) (\<lambda>c.
       if is_alnum c then Ok (l, None)
       else if c = CHR ''('' then Ok (enter_paren l, Some LPAREN)
       else if c = CHR '')'' then and_then (leave_paren l) (\<lambda>l1. Ok (l1, Some RPAREN))
       else if c = CHR ''['' then Ok (enter_paren l, Some LSQB)
       else if c = CHR '']'' then and_then (leave_paren l) (\<lambda>l1. Ok (l1, Some RSQB))
       else if c = CHR ''{'' then Ok (enter_paren l, Some LBRACE)
       else if c = CHR ''}'' then
         and_then (if length (m_mode l) > 1 then back_to_fstring l else leave_paren l)
           (\<lambda>l1. Ok (l1, Some RBRACE))
       else if c = CHR '':'' then
         and_then
           (if length (m_mode l) > 1
            then (case m_fstring_paren_level l of
                    [] \<Rightarrow> Abort Undefined
                  | p # ps \<Rightarrow> if m_parenthesis_level l = p then back_to_fstring l else Ok l)
            else Ok l)
           (\<lambda>l1. Ok (l1, Some COLON))
       else Ok (l, map_of simple_operators c))"

definition two_character_operators :: "(string \<times> token_type) list" where
  "two_character_operators =
     [(''=='', EQEQUAL), (''!='', NOTEQUAL), (''<='', LESSEQUAL), (''>='', GREATEREQUAL),
      (''<<'', LEFTSHIFT), (''>>'', RIGHTSHIFT), (''**'', DOUBLESTAR), (''+='', PLUSEQUAL),
      (''-='', MINEQUAL), (''*='', STAREQUAL), (''/='', SLASHEQUAL), (''%='', PERCENTEQUAL),
      (''&='', AMPEREQUAL), (''|='', VBAREQUAL), (''^='', CIRCUMFLEXEQUAL), (''//'', DOUBLESLASH),
      ('':='', COLONEQUAL), (''@='', ATEQUAL), (''->'', RARROW)]"

definition try_read_operation_with_two_characters :: "lexer \<Rightarrow> token_type option py_result" where
  "try_read_operation_with_two_characters l =
     (if m_cursor l + 1 \<ge> program_size l then Ok None
      else and_then (peek l 0) (\<lambda>a. and_then (peek l 1) (\<lambda>b.
        if is_alnum a \<or> is_alnum b then Ok None
        else Ok (map_of two_character_operators [a, b]))))"

definition three_character_operators :: "(string \<times> token_type) list" where
  "three_character_operators =
     [(''<<='', LEFTSHIFTEQUAL), (''>>='', RIGHTSHIFTEQUAL), (''**='', DOUBLESTAREQUAL),
      (''//='', DOUBLESLASHEQUAL), (''...'', ELLIPSIS)]"

definition try_read_operation_with_three_characters :: "lexer \<Rightarrow> token_type option py_result" where
  "try_read_operation_with_three_characters l =
     (if m_cursor l + 2 \<ge> program_size l then Ok None
      else and_then (peek l 0) (\<lambda>a. and_then (peek l 1) (\<lambda>b. and_then (peek l 2) (\<lambda>c.
        if is_alnum a \<or> is_alnum b \<or> is_alnum c then Ok None
        else Ok (map_of three_character_operators [a, b, c])))))"

definition try_read_operation :: "lexer \<Rightarrow> (lexer \<times> bool) py_result" where
  "try_read_operation l =
     (if m_cursor l \<ge> program_size l then Ok (l, False)
      else
        let emit = (\<lambda>l1 n ty. and_then (advance l1 n) (\<lambda>l2.
              Ok (push_token l2 ty (m_position l) (m_position l2), True)))
        in
        and_then (try_read_operation_with_three_characters l) (\<lambda>r3. case r3 of
          Some ty \<Rightarrow> emit l 3 ty
        | None \<Rightarrow>
        and_then (try_read_operation_with_two_characters l) (\<lambda>r2. case r2 of
          Some ty \<Rightarrow> emit l 2 ty
        | None \<Rightarrow>
        and_then (try_read_operation_with_one_character l) (\<lambda>(l1, r1). case r1 of
          Some ty \<Rightarrow> emit l1 1 ty
        | None \<Rightarrow> Ok (l1, False)))))"

section \<open>White space and names\<close>

definition try_read_space :: "lexer \<Rightarrow> (lexer \<times> bool) py_result" where
  "try_read_space l =
     and_then (advance_while l is_blank) (\<lambda>l1. Ok (l1, m_cursor l1 - m_cursor l > 0))"

definition try_read_backslash :: "lexer \<Rightarrow> lexer py_result" where
  "try_read_backslash l =
     and_then (try_read_space l) (\<lambda>(l1, _).
     and_then (advance_if l1 (\<lambda>c. c = backslash)) (\<lambda>(l2, b).
       if b then
         and_then (advance_if l2 (\<lambda>c. c = newline)) (\<lambda>(l3, nl).
           if nl then increment_row_position l3 else Abort Todo)
       else Ok l2))"

definition try_read_newline :: "lexer \<Rightarrow> (lexer \<times> bool) py_result" where
  "try_read_newline l =
     and_then (peek_pattern l (m_cursor l) [newline]) (\<lambda>b.
       if \<not> b then Ok (l, False)
       else and_then (push_new_line l) (\<lambda>l1. Ok (l1, True)))"

definition valid_start_name :: "char \<Rightarrow> bool" where
  "valid_start_name c \<longleftrightarrow> is_alpha c \<or> c = CHR ''_''"

definition valid_name :: "char \<Rightarrow> bool" where
  "valid_name c \<longleftrightarrow> is_alnum c \<or> c = CHR ''_''"

definition try_read_name :: "lexer \<Rightarrow> (lexer \<times> bool) py_result" where
  "try_read_name l =
     (if m_cursor l \<ge> program_size l then Ok (l, False)
      else and_then (peek l 0) (\<lambda>c.
        if \<not> valid_start_name c then Ok (l, False)
        else and_then (advance_if l valid_start_name) (\<lambda>(l1, b).
          if \<not> b then Ok (l1, False)
          else and_then (advance_while l1 valid_name) (\<lambda>l2.
            Ok (push_token l2 NAME (m_position l) (m_position l2), True)))))"

section \<open>The main loop\<close>

text \<open>\<^verbatim>\<open>if (f()) { return true; }\<close> in front of the rest of a body.\<close>

definition or_try ::
  "(lexer \<times> bool) py_result \<Rightarrow> (lexer \<Rightarrow> (lexer \<times> bool) py_result) \<Rightarrow> (lexer \<times> bool) py_result" where
  "or_try m rest = and_then m (\<lambda>(l, b). if b then Ok (l, True) else rest l)"

text \<open>The \<^verbatim>\<open>DEDENT\<close> tokens at the end of the program.\<close>

primrec close_indents :: "position \<Rightarrow> nat list \<Rightarrow> lexer \<Rightarrow> lexer" where
  "close_indents p [] l = l"
| "close_indents p (v # vs) l =
     (if vs = [] then l
      else close_indents p vs ((push_token l DEDENT p p)\<lparr> m_indent_values := vs \<rparr>))"

definition read_more_tokens_loop :: "lexer \<Rightarrow> (lexer \<times> bool) py_result" where
  "read_more_tokens_loop l =
     (if m_cursor l > program_size l then Ok (l, False)
      else if m_cursor l = program_size l then
        and_then (increment_row_position l) (\<lambda>l1.
          let l2 = l1\<lparr> m_cursor := m_cursor l1 + 1 \<rparr>;
              l3 = close_indents (m_position l2) (m_indent_values l2) l2
          in Ok (push_token l3 ENDMARKER (m_position l) (m_position l3), True))
      else (case m_mode l of
        [] \<Rightarrow> Abort Undefined
      | FSTRING # _ \<Rightarrow> try_fstring l
      | NORMAL # _ \<Rightarrow>
          or_try (try_empty_line l) (\<lambda>l.
          or_try (try_read_comment l) (\<lambda>l.
          or_try (try_read_indent l) (\<lambda>l.
          or_try (try_read_newline l) (\<lambda>l.
          and_then (try_read_backslash l) (\<lambda>l.
          and_then (try_read_space l) (\<lambda>(l, _).
          or_try (try_read_string l) (\<lambda>l.
          or_try (try_read_name l) (\<lambda>l.
          or_try (try_read_operation l) (\<lambda>l.
          try_read_number l)))))))))))"

section \<open>\<^verbatim>\<open>read_more_tokens\<close> and \<^verbatim>\<open>peek_token\<close>\<close>

text \<open>These loops have no bound of their own: the functions return \<open>None\<close> where the C++ code would loop
  forever.\<close>

definition ignored :: "lexer \<Rightarrow> token \<Rightarrow> bool" where
  "ignored l t \<longleftrightarrow> m_ignore_comments l \<and> m_token_type t = COMMENT \<or>
                  m_ignore_nl_token l \<and> m_token_type t = NL"

definition erase_ignored :: "lexer \<Rightarrow> lexer" where
  "erase_ignored l = l\<lparr> m_tokens_to_emit := filter (\<lambda>t. \<not> ignored l t) (m_tokens_to_emit l) \<rparr>"

partial_function (option) read_more_tokens_from :: "nat \<Rightarrow> lexer \<Rightarrow> (lexer \<times> bool) py_result option" where
  "read_more_tokens_from token_size l =
     (if token_size \<ge> length (m_tokens_to_emit l) then
        (case read_more_tokens_loop l of
           Ok (l1, read_tokens) \<Rightarrow>
             if read_tokens then read_more_tokens_from token_size (erase_ignored l1)
             else Some (Ok (l1, False))
         | Err e \<Rightarrow> Some (Err e)
         | Abort f \<Rightarrow> Some (Abort f))
      else Some (Ok (l, True)))"

definition read_more_tokens :: "lexer \<Rightarrow> (lexer \<times> bool) py_result option" where
  "read_more_tokens l = read_more_tokens_from (length (m_tokens_to_emit l)) l"

partial_function (option) peek_token :: "nat \<Rightarrow> lexer \<Rightarrow> (lexer \<times> token option) py_result option" where
  "peek_token positions l =
     (if positions \<ge> length (m_tokens_to_emit l) then
        (if m_cursor l > program_size l then Some (Ok (l, None))
         else Option.bind (read_more_tokens l) (\<lambda>r.
           case r of
             Ok (l1, b) \<Rightarrow> if b then peek_token positions l1 else Some (Ok (l1, None))
           | Err e \<Rightarrow> Some (Err e)
           | Abort f \<Rightarrow> Some (Abort f)))
      else Some (Ok (l, Some (m_tokens_to_emit l ! positions))))"

end
