(* ===== verification/Lexer_Props.thy ===== *)
theory Lexer_Props
  imports Lexer_Main
begin

text \<open>
  What holds of the lexer as a whole: a contract shared by the functions \<^verbatim>\<open>try_...\<close> (a locale, with an
  interpretation for each of them), the invariant that one round of the main loop keeps, the measure
  that makes the loops end, and the properties of \<^verbatim>\<open>peek_token\<close>. Then exact results for single
  functions: indentation, names, decimal numbers.
\<close>

section \<open>Where a step leaves the lexer\<close>

definition at_cursor :: "lexer \<Rightarrow> bool" where
  "at_cursor l \<longleftrightarrow> pointer_to_program (m_position l) = m_cursor l \<and> m_cursor l \<le> program_size l"

text \<open>Tokens in order of their starts, all between two offsets.\<close>

definition located :: "nat \<Rightarrow> nat \<Rightarrow> token list \<Rightarrow> bool" where
  "located lo hi ts \<longleftrightarrow>
     sorted (map (\<lambda>t. pointer_to_program (m_start t)) ts) \<and>
     (\<forall>t \<in> set ts. lo \<le> pointer_to_program (m_start t) \<and>
        pointer_to_program (m_start t) \<le> pointer_to_program (m_end t) \<and>
        pointer_to_program (m_end t) \<le> hi)"

definition number_of :: "token_type \<Rightarrow> token list \<Rightarrow> nat" where
  "number_of ty ts = length (filter (\<lambda>t. m_token_type t = ty) ts)"

definition net_indent :: "token list \<Rightarrow> int" where
  "net_indent ts = int (number_of INDENT ts) - int (number_of DEDENT ts)"

text \<open>\<open>moves l l'\<close>: forward without a token; \<open>reads l l'\<close>: forward with the tokens of the text passed.\<close>

definition moves :: "lexer \<Rightarrow> lexer \<Rightarrow> bool" where
  "moves l l' \<longleftrightarrow> at_cursor l' \<and> m_cursor l \<le> m_cursor l' \<and> m_program l' = m_program l \<and>
     m_ignore_nl_token l' = m_ignore_nl_token l \<and> m_ignore_comments l' = m_ignore_comments l \<and>
     m_tokens_to_emit l' = m_tokens_to_emit l \<and> m_indent_values l' = m_indent_values l \<and>
     m_mode l' = m_mode l \<and> m_quote l' = m_quote l \<and>
     m_fstring_paren_level l' = m_fstring_paren_level l \<and>
     m_parenthesis_level l' = m_parenthesis_level l"

definition reads :: "lexer \<Rightarrow> lexer \<Rightarrow> bool" where
  "reads l l' \<longleftrightarrow> at_cursor l' \<and> m_cursor l \<le> m_cursor l' \<and> m_program l' = m_program l \<and>
     m_ignore_nl_token l' = m_ignore_nl_token l \<and> m_ignore_comments l' = m_ignore_comments l \<and>
     (\<exists>new. m_tokens_to_emit l' = m_tokens_to_emit l @ new \<and>
        located (m_cursor l) (m_cursor l') new \<and>
        int (length (m_indent_values l')) = int (length (m_indent_values l)) + net_indent new)"

text \<open>The stack of modes alternates between \<^verbatim>\<open>NORMAL\<close> (outermost and in replacement fields) and
  \<^verbatim>\<open>FSTRING\<close>; each open f-string has its quote and its parenthesis level.\<close>

fun modes_ok :: "mode list \<Rightarrow> quote list \<Rightarrow> nat list \<Rightarrow> bool" where
  "modes_ok [NORMAL] [] [] = True"
| "modes_ok (FSTRING # NORMAL # ms) (q # qs) (p # ps) = modes_ok (NORMAL # ms) qs ps"
| "modes_ok (NORMAL # FSTRING # ms) qs ps = modes_ok (FSTRING # ms) qs ps"
| "modes_ok _ _ _ = False"

abbreviation lexer_modes_ok :: "lexer \<Rightarrow> bool" where
  "lexer_modes_ok l \<equiv> modes_ok (m_mode l) (m_quote l) (m_fstring_paren_level l)"

text \<open>The indentation levels: strictly growing from 0 (the head is the innermost).\<close>

definition indents_ok :: "nat list \<Rightarrow> bool" where
  "indents_ok vs \<longleftrightarrow> vs \<noteq> [] \<and> last vs = 0 \<and> sorted_wrt (>) vs"

definition keeps :: "lexer \<Rightarrow> lexer \<Rightarrow> bool" where
  "keeps l l' \<longleftrightarrow> m_indent_values l' = m_indent_values l \<and> m_mode l' = m_mode l \<and>
     m_quote l' = m_quote l \<and> m_fstring_paren_level l' = m_fstring_paren_level l"

text \<open>The contract of the functions \<^verbatim>\<open>try_...\<close>: they read forward and keep the stacks well-formed; success
  means progress, failure leaves the stacks alone.\<close>

definition lexer_step :: "lexer \<Rightarrow> lexer \<Rightarrow> bool \<Rightarrow> bool" where
  "lexer_step l l' b \<longleftrightarrow> reads l l' \<and>
     (indents_ok (m_indent_values l) \<longrightarrow> indents_ok (m_indent_values l')) \<and>
     (lexer_modes_ok l \<longrightarrow> lexer_modes_ok l') \<and>
     (b \<longrightarrow> m_cursor l < m_cursor l' \<or>
           m_cursor l' = m_cursor l \<and> length (m_indent_values l') < length (m_indent_values l)) \<and>
     (\<not> b \<longrightarrow> keeps l l')"

lemma located_Nil [simp]: "located lo hi []"
  by (simp add: located_def)

lemma located_append:
  "located lo mid xs \<Longrightarrow> located mid hi ys \<Longrightarrow> lo \<le> mid \<Longrightarrow> mid \<le> hi \<Longrightarrow> located lo hi (xs @ ys)"
  by (auto simp: located_def sorted_append) (meson order_trans)+

lemma net_indent_simps [simp]:
  "net_indent [] = 0" "net_indent (xs @ ys) = net_indent xs + net_indent ys"
  by (simp_all add: net_indent_def number_of_def)

lemma net_indent_Cons [simp]:
  "net_indent (t # ts) =
     (if m_token_type t = INDENT then 1 else if m_token_type t = DEDENT then - 1 else 0) + net_indent ts"
  by (simp add: net_indent_def number_of_def)

lemma moves_refl: "at_cursor l \<Longrightarrow> moves l l"
  by (simp add: moves_def)

lemma moves_trans: "moves l l1 \<Longrightarrow> moves l1 l2 \<Longrightarrow> moves l l2"
  by (auto simp: moves_def)

lemma moves_reads: "moves l l' \<Longrightarrow> reads l l'"
  by (auto simp: moves_def reads_def)

lemma reads_trans:
  assumes "reads l l1" and "reads l1 l2"
  shows "reads l l2"
proof -
  obtain xs ys where "m_tokens_to_emit l1 = m_tokens_to_emit l @ xs" "located (m_cursor l) (m_cursor l1) xs"
    "int (length (m_indent_values l1)) = int (length (m_indent_values l)) + net_indent xs"
    "m_tokens_to_emit l2 = m_tokens_to_emit l1 @ ys" "located (m_cursor l1) (m_cursor l2) ys"
    "int (length (m_indent_values l2)) = int (length (m_indent_values l1)) + net_indent ys"
    using assms by (auto simp: reads_def)
  then have "m_tokens_to_emit l2 = m_tokens_to_emit l @ (xs @ ys) \<and>
      located (m_cursor l) (m_cursor l2) (xs @ ys) \<and>
      int (length (m_indent_values l2)) = int (length (m_indent_values l)) + net_indent (xs @ ys)"
    using assms by (auto simp: reads_def intro: located_append)
  then show ?thesis using assms unfolding reads_def by auto
qed

lemma moves_keeps: "moves l l' \<Longrightarrow> keeps l l'"
  by (simp add: moves_def keeps_def)

lemma keeps_trans: "keeps l l1 \<Longrightarrow> keeps l1 l2 \<Longrightarrow> keeps l l2"
  by (simp add: keeps_def)

lemma lexer_step_trans:
  assumes "lexer_step l l1 False" and "lexer_step l1 l2 b"
  shows "lexer_step l l2 b"
proof -
  have "reads l l2" using assms by (auto simp: lexer_step_def intro: reads_trans)
  moreover have "m_cursor l \<le> m_cursor l1" using assms by (simp add: lexer_step_def reads_def)
  ultimately show ?thesis using assms by (auto simp: lexer_step_def keeps_def)
qed

lemma lexer_step_keeps:
  "reads l l' \<Longrightarrow> keeps l l' \<Longrightarrow> (b \<Longrightarrow> m_cursor l < m_cursor l') \<Longrightarrow> lexer_step l l' b"
  by (simp add: lexer_step_def keeps_def)

lemma lexer_step_moves: "moves l l' \<Longrightarrow> lexer_step l l' False"
  by (simp add: lexer_step_keeps moves_reads moves_keeps)

lemma moves_at_cursor: "moves l l' \<Longrightarrow> at_cursor l'"
  by (simp add: moves_def)

lemma reads_at_cursor: "reads l l' \<Longrightarrow> at_cursor l'"
  by (simp add: reads_def)

lemma reads_cursor: "reads l l' \<Longrightarrow> m_cursor l \<le> m_cursor l'"
  by (simp add: reads_def)

lemma push_token_fields [simp]:
  "m_program (push_token l ty s e) = m_program l"
  "m_cursor (push_token l ty s e) = m_cursor l"
  "m_position (push_token l ty s e) = m_position l"
  "m_indent_values (push_token l ty s e) = m_indent_values l"
  "m_mode (push_token l ty s e) = m_mode l"
  "m_quote (push_token l ty s e) = m_quote l"
  "m_fstring_paren_level (push_token l ty s e) = m_fstring_paren_level l"
  "m_parenthesis_level (push_token l ty s e) = m_parenthesis_level l"
  "m_ignore_nl_token (push_token l ty s e) = m_ignore_nl_token l"
  "m_ignore_comments (push_token l ty s e) = m_ignore_comments l"
  "m_tokens_to_emit (push_token l ty s e) =
     m_tokens_to_emit l @ [\<lparr> m_token_type = ty, m_start = s, m_end = e \<rparr>]"
  "at_cursor (push_token l ty s e) = at_cursor l"
  by (simp_all add: push_token_def Let_def at_cursor_def)

text \<open>The usual shape: move, then push one token for the text passed.\<close>

lemma reads_push:
  assumes "moves l l'" and "at_cursor l" and "ty \<noteq> INDENT" and "ty \<noteq> DEDENT"
  shows "reads l (push_token l' ty (m_position l) (m_position l'))"
  using assms by (auto simp: moves_def reads_def at_cursor_def located_def)

section \<open>Moving\<close>

lemma increment_column_moves:
  "increment_column_position l n = Ok l' \<Longrightarrow> moves l l' \<and> m_cursor l' = m_cursor l + n"
  by (auto simp: result_simps moves_def at_cursor_def)

lemma advance_moves: "advance l n = Ok l' \<Longrightarrow> moves l l' \<and> m_cursor l' = m_cursor l + n"
  by (simp add: advance_def increment_column_moves)

lemma increment_row_moves:
  "increment_row_position l = Ok l' \<Longrightarrow> moves l l' \<and> m_cursor l' = m_cursor l"
  by (auto simp: result_simps moves_def at_cursor_def)

lemma advance_while_moves: "advance_while l P = Ok l' \<Longrightarrow> at_cursor l \<Longrightarrow> moves l l'"
proof (induction l P rule: advance_while.induct)
  case (1 l P)
  from 1(2) obtain c where c: "program_at l (m_cursor l) = Ok c"
    unfolding advance_while.simps [of l P] and_then_eq_Ok by blast
  show ?case
  proof (cases "P c")
    case True
    with 1(2) c obtain l1 where l1: "increment_column_position l 1 = Ok l1" "advance_while l1 P = Ok l'"
      unfolding advance_while.simps [of l P] by (auto simp: and_then_eq_Ok)
    with 1(1) [OF c True l1(1) l1(2)] increment_column_moves [OF l1(1)] show ?thesis
      by (blast intro: moves_trans moves_at_cursor)
  next
    case False
    with 1(2,3) c show ?thesis
      unfolding advance_while.simps [of l P] by (simp add: moves_refl)
  qed
qed

lemma advance_if_moves:
  "advance_if l P = Ok (l', b) \<Longrightarrow> at_cursor l \<Longrightarrow> moves l l' \<and> m_cursor l' = m_cursor l + of_bool b"
  by (auto simp: advance_if_def and_then_eq_Ok moves_refl split: if_splits dest!: increment_column_moves)

section \<open>Lines, comments, indentation\<close>

lemma push_line_reads:
  assumes "increment_column_position l 1 = Ok l1"
    and "increment_row_position (push_token l1 ty (m_position l) (m_position l1)) = Ok l'"
    and "at_cursor l" and "ty \<noteq> INDENT" and "ty \<noteq> DEDENT"
  shows "reads l l' \<and> keeps l l' \<and> m_cursor l < m_cursor l'"
proof -
  let ?l = "push_token l1 ty (m_position l) (m_position l1)"
  have m: "moves l l1" "m_cursor l1 = m_cursor l + 1" "moves ?l l'"
    using increment_column_moves [OF assms(1)] increment_row_moves [OF assms(2)] by auto
  have "reads l l'" using reads_trans [OF reads_push [OF m(1) assms(3-5)] moves_reads [OF m(3)]] .
  then show ?thesis using m by (auto simp: keeps_def moves_def)
qed

lemma push_new_line_reads: "push_new_line l = Ok l' \<Longrightarrow> at_cursor l \<Longrightarrow> reads l l' \<and> keeps l l' \<and> m_cursor l < m_cursor l'"
  unfolding push_new_line_def and_then_eq_Ok
proof (elim exE conjE)
  fix x assume "increment_column_position l 1 = Ok x" "at_cursor l"
    "increment_row_position (push_token x (if 0 < m_parenthesis_level x then NL else NEWLINE)
       (m_position l) (m_position x)) = Ok l'"
  then show ?thesis
    using push_line_reads [of l x NL l'] push_line_reads [of l x NEWLINE l']
    by (cases "0 < m_parenthesis_level x") simp_all
qed

lemma push_empty_line_reads: "push_empty_line l = Ok l' \<Longrightarrow> at_cursor l \<Longrightarrow> reads l l' \<and> keeps l l' \<and> m_cursor l < m_cursor l'"
  unfolding push_empty_line_def and_then_eq_Ok by (elim exE conjE, rule push_line_reads) auto

lemma try_read_comment_step:
  assumes "try_read_comment l = Ok (l', b)" and "at_cursor l"
  shows "lexer_step l l' b"
proof -
  from assms(1) obtain start where start: "comment_start l = Ok start"
    by (auto simp: try_read_comment_def and_then_eq_Ok)
  show ?thesis
  proof (cases start)
    case None
    with assms start show ?thesis
      by (auto simp: try_read_comment_def lexer_step_moves moves_refl)
  next
    case (Some n)
    with assms(1) start obtain l1 l2 l3 where 1: "advance l n = Ok l1" and 2: "advance l1 1 = Ok l2"
      and 3: "advance_while l2 (\<lambda>c. is_alnum c \<or> c \<noteq> newline) = Ok l3"
      and 4: "push_empty_line (push_token l3 COMMENT (m_position l1) (m_position l3)) = Ok l' \<or>
              push_new_line (push_token l3 COMMENT (m_position l1) (m_position l3)) = Ok l'" and b
      by (auto simp: try_read_comment_def and_then_eq_Ok Let_def assert_that_def split: if_splits)
    have m: "moves l l1" "moves l1 l3" "at_cursor l1"
      using advance_moves [OF 1] advance_moves [OF 2] advance_while_moves [OF 3]
      by (auto intro: moves_trans moves_at_cursor)
    let ?l4 = "push_token l3 COMMENT (m_position l1) (m_position l3)"
    have r: "reads l ?l4" using m by (blast intro: reads_trans moves_reads reads_push)
    have k: "keeps l ?l4" using m by (auto simp: keeps_def moves_def)
    have "at_cursor ?l4" using r by (rule reads_at_cursor)
    with 4 have "reads ?l4 l' \<and> keeps ?l4 l' \<and> m_cursor ?l4 < m_cursor l'"
      using push_new_line_reads push_empty_line_reads by blast
    with r k show ?thesis
      by (metis lexer_step_keeps keeps_trans reads_trans reads_cursor le_less_trans)
  qed
qed

lemma restored_moves:
  assumes "moves l l'" and "at_cursor l"
  shows "moves l (l'\<lparr> m_position := m_position l, m_cursor := m_cursor l \<rparr>)"
  using assms by (auto simp: moves_def at_cursor_def)

lemma try_empty_line_step:
  assumes "try_empty_line l = Ok (l', b)" and "at_cursor l"
  shows "lexer_step l l' b"
proof -
  from assms(1) obtain c where c: "peek l 0 = Ok c"
    by (auto simp: try_empty_line_def and_then_eq_Ok)
  show ?thesis
  proof (cases "is_space c \<and> \<not> is_blank c")
    case True
    with assms c show ?thesis
      by (auto simp: try_empty_line_def and_then_eq_Ok lexer_step_moves moves_refl split: if_splits
          dest!: push_empty_line_reads intro: lexer_step_keeps)
  next
    case False
    with assms(1) c obtain l1 where l1: "advance_while l is_blank = Ok l1"
      and rest: "(if m_cursor l1 \<ge> program_size l1 then Ok (l1, False)
         else and_then (peek l1 0) (\<lambda>d.
           if is_space d then and_then (push_empty_line l1) (\<lambda>l2. Ok (l2, True))
           else Ok (l1\<lparr> m_position := m_position l, m_cursor := m_cursor l \<rparr>, False))) = Ok (l', b)"
      by (auto simp: try_empty_line_def and_then_eq_Ok)
    have m: "moves l l1" using advance_while_moves [OF l1 assms(2)] .
    have "lexer_step l1 l2 True" if "push_empty_line l1 = Ok l2" for l2
      using push_empty_line_reads [OF that moves_at_cursor [OF m]] by (simp add: lexer_step_keeps)
    then show ?thesis
      using rest lexer_step_moves [OF m] lexer_step_moves [OF restored_moves [OF m assms(2)]]
      by (auto simp: and_then_eq_Ok split: if_splits intro: lexer_step_trans)
  qed
qed

lemma dedent_to_spec:
  "dedent_to v p l = Ok l' \<Longrightarrow>
     \<exists>k. l' = (l\<lparr> m_tokens_to_emit := m_tokens_to_emit l' , m_current_line_tokens := m_current_line_tokens l',
               m_indent_values := drop k (m_indent_values l) \<rparr>) \<and> k < length (m_indent_values l) \<and>
         m_indent_values l ! k = v \<and>
         m_tokens_to_emit l' = m_tokens_to_emit l @
           replicate k \<lparr> m_token_type = DEDENT, m_start = p, m_end = m_position l \<rparr>"
proof (induction v p l rule: dedent_to.induct)
  case (1 v p l)
  from 1(2) obtain b bs where bs: "m_indent_values l = b # bs"
    by (subst (asm) dedent_to.simps) (auto split: list.splits)
  show ?case
  proof (cases "v = b")
    case True
    with 1(2) bs have "l' = l" by (subst (asm) dedent_to.simps) simp
    with True bs show ?thesis by (intro exI [of _ 0]) simp
  next
    case False
    let ?l = "(push_token l DEDENT p (m_position l))\<lparr> m_indent_values := bs \<rparr>"
    from False 1(2) bs have "dedent_to v p ?l = Ok l'" by (subst (asm) dedent_to.simps) simp
    from 1(1) [OF bs False this] obtain k where
      k: "l' = ?l\<lparr> m_tokens_to_emit := m_tokens_to_emit l', m_current_line_tokens := m_current_line_tokens l',
               m_indent_values := drop k bs \<rparr>" "k < length bs" "bs ! k = v"
        "m_tokens_to_emit l' = m_tokens_to_emit ?l @
           replicate k \<lparr> m_token_type = DEDENT, m_start = p, m_end = m_position l \<rparr>"
      by auto
    then show ?thesis
      by (intro exI [of _ "Suc k"]) (auto simp: bs push_token_def Let_def)
  qed
qed

lemma indent_level_loop_bounds:
  "indent_level_loop l pos v = Ok (v', pos') \<Longrightarrow> pos \<le> pos' \<and> (v < v' \<longrightarrow> pos < pos')"
proof (induction l pos v rule: indent_level_loop.induct)
  case (1 l pos v)
  from 1(2) obtain c where c: "peek l pos = Ok c"
    unfolding indent_level_loop.simps [of l pos v] and_then_eq_Ok by blast
  show ?case
  proof (cases "is_blank c")
    case True
    with 1(2) c have "indent_level_loop l (pos + 1) (if c = CHR 0x09 then v + tab_size else v + 1) = Ok (v', pos')"
      unfolding indent_level_loop.simps [of l pos v] by simp
    from 1(1) [OF c True this] show ?thesis by simp
  next
    case False
    with 1(2) c show ?thesis unfolding indent_level_loop.simps [of l pos v] by simp
  qed
qed

lemma indents_ok_push: "indents_ok (i # js) \<Longrightarrow> i < v \<Longrightarrow> indents_ok (v # i # js)"
  by (fastforce simp: indents_ok_def)

lemma indents_ok_drop: "indents_ok vs \<Longrightarrow> k < length vs \<Longrightarrow> indents_ok (drop k vs)"
  by (simp add: indents_ok_def sorted_wrt_drop last_drop)

lemma located_replicate:
  "lo \<le> pointer_to_program s \<Longrightarrow> pointer_to_program s \<le> pointer_to_program e \<Longrightarrow>
   pointer_to_program e \<le> hi \<Longrightarrow>
   located lo hi (replicate k \<lparr> m_token_type = ty, m_start = s, m_end = e \<rparr>)"
  by (auto simp: located_def)

lemma net_indent_dedents:
  "net_indent (replicate k \<lparr> m_token_type = DEDENT, m_start = s, m_end = e \<rparr>) = - int k"
  by (induction k) auto

lemma try_read_indent_step:
  assumes "try_read_indent l = Ok (l', b)" and at: "at_cursor l"
  shows "lexer_step l l' b"
proof (cases "column (m_position l) = 0 \<and> m_parenthesis_level l = 0")
  case False
  with assms show ?thesis by (auto simp: try_read_indent_def lexer_step_moves moves_refl)
next
  case True
  with assms(1) obtain v n l1 where v: "compute_indent_level l = Ok (v, n)"
    and l1: "increment_column_position l n = Ok l1" and
    rest: "(case m_indent_values l1 of
            [] \<Rightarrow> Abort Undefined
          | b # bs \<Rightarrow>
              if v > b then
                Ok ((push_token l1 INDENT (m_position l) (m_position l1))
                      \<lparr> m_indent_values := v # b # bs \<rparr>, True)
              else if v < b then
                and_then (dedent_to v (m_position l) l1) (\<lambda>l2. Ok (l2, True))
              else Ok (l1, False)) = Ok (l', b)"
    by (auto simp: try_read_indent_def and_then_eq_Ok)
  have m: "moves l l1" "m_cursor l1 = m_cursor l + n" using increment_column_moves [OF l1] by auto
  from rest obtain i js where i: "m_indent_values l1 = i # js" by (cases "m_indent_values l1") auto
  have same: "m_indent_values l = i # js" using i m(1) by (simp add: moves_def)
  consider "v > i" | "v < i" | "v = i" by linarith
  then show ?thesis
  proof cases
    case 1
    have "0 < n" using v indent_level_loop_bounds [of l 0 0 v n] 1 by (simp add: compute_indent_level_def)
    with 1 rest i m at same show ?thesis
      by (auto simp: lexer_step_def reads_def moves_def at_cursor_def located_def indents_ok_push)
  next
    case 2
    with rest i obtain "dedent_to v (m_position l) l1 = Ok l'" b by (auto simp: and_then_eq_Ok)
    from dedent_to_spec [OF this(1)] obtain k where
      k: "l' = l1\<lparr> m_tokens_to_emit := m_tokens_to_emit l', m_current_line_tokens := m_current_line_tokens l',
               m_indent_values := drop k (i # js) \<rparr>" "k < length (i # js)" "(i # js) ! k = v"
      "m_tokens_to_emit l' = m_tokens_to_emit l1 @
           replicate k \<lparr> m_token_type = DEDENT, m_start = m_position l, m_end = m_position l1 \<rparr>"
      using i by auto
    have "0 < k" using k(3) 2 by (cases k) auto
    have f: "m_cursor l' = m_cursor l1" "m_program l' = m_program l1" "m_position l' = m_position l1"
      "m_indent_values l' = drop k (i # js)" "m_ignore_nl_token l' = m_ignore_nl_token l1"
      "m_ignore_comments l' = m_ignore_comments l1" "m_mode l' = m_mode l1" "m_quote l' = m_quote l1"
      "m_fstring_paren_level l' = m_fstring_paren_level l1"
      by (subst k(1), simp)+
    have "located (m_cursor l) (m_cursor l')
        (replicate k \<lparr> m_token_type = DEDENT, m_start = m_position l, m_end = m_position l1 \<rparr>)"
      using m at f by (intro located_replicate) (auto simp: moves_def at_cursor_def)
    then have "reads l l'"
      using m at f k(2,4) same
      by (auto simp: reads_def moves_def at_cursor_def net_indent_dedents)
    moreover have "length (m_indent_values l') < length (m_indent_values l)"
      using f(4) same \<open>0 < k\<close> k(2) by simp
    moreover have "m_cursor l \<le> m_cursor l'" using f(1) m(2) by simp
    ultimately show ?thesis
      using f(4,7-9) m(1) same k(2) indents_ok_drop [of "i # js" k] \<open>b\<close>
      by (auto simp: lexer_step_def moves_def)
  next
    case 3
    with rest i m show ?thesis by (auto simp: lexer_step_moves)
  qed
qed

section \<open>Names, numbers, white space\<close>

lemma try_read_space_moves: "try_read_space l = Ok (l', b) \<Longrightarrow> at_cursor l \<Longrightarrow> moves l l'"
  by (auto simp: try_read_space_def and_then_eq_Ok dest: advance_while_moves)

lemma try_read_backslash_moves:
  assumes "try_read_backslash l = Ok l'" and "at_cursor l"
  shows "moves l l'"
proof -
  from assms(1) obtain l1 b1 l2 b where 1: "try_read_space l = Ok (l1, b1)"
    and 2: "advance_if l1 (\<lambda>c. c = backslash) = Ok (l2, b)"
    and 3: "(if b then and_then (advance_if l2 (\<lambda>c. c = newline)) (\<lambda>(l3, nl).
              if nl then increment_row_position l3 else Abort Todo) else Ok l2) = Ok l'"
    by (auto simp: try_read_backslash_def and_then_eq_Ok)
  have m: "moves l l2"
    using try_read_space_moves [OF 1 assms(2)] advance_if_moves [OF 2]
    by (blast intro: moves_trans moves_at_cursor)
  with 3 show ?thesis
    by (auto simp: and_then_eq_Ok split: if_splits
        dest!: increment_row_moves advance_if_moves [OF _ moves_at_cursor [OF m]] intro: moves_trans)
qed

lemma try_read_newline_step:
  "try_read_newline l = Ok (l', b) \<Longrightarrow> at_cursor l \<Longrightarrow> lexer_step l l' b"
  by (auto simp: try_read_newline_def and_then_eq_Ok lexer_step_moves moves_refl split: if_splits
      dest!: push_new_line_reads intro: lexer_step_keeps)

lemma lexer_step_push:
  assumes "moves l l'" and "at_cursor l" and "ty \<noteq> INDENT" and "ty \<noteq> DEDENT" and "m_cursor l < m_cursor l'"
  shows "lexer_step l (push_token l' ty (m_position l) (m_position l')) True"
  using reads_push [OF assms(1-4)] assms(1,5)
  by (auto simp: keeps_def moves_def intro: lexer_step_keeps)

lemma try_read_name_step:
  assumes "try_read_name l = Ok (l', b)" and "at_cursor l"
  shows "lexer_step l l' b"
proof (cases b)
  case False
  then have "moves l l'"
    using assms by (auto simp: try_read_name_def and_then_eq_Ok moves_refl split: if_splits dest!: advance_if_moves)
  with False show ?thesis by (simp add: lexer_step_moves)
next
  case True
  with assms(1) obtain l1 l2 where 1: "advance_if l valid_start_name = Ok (l1, True)"
    and 2: "advance_while l1 valid_name = Ok l2"
    and l': "l' = push_token l2 NAME (m_position l) (m_position l2)"
    by (auto simp: try_read_name_def and_then_eq_Ok split: if_splits)
  note m1 = advance_if_moves [OF 1 assms(2)]
  have m2: "moves l1 l2" using advance_while_moves [OF 2] m1 by (blast intro: moves_at_cursor)
  have "m_cursor l < m_cursor l2" using m1 m2 by (simp add: moves_def)
  with True show ?thesis
    using m1 m2 unfolding l' by (auto intro: lexer_step_push moves_trans assms(2))
qed

section \<open>Numbers are not empty\<close>

lemma parse_digits_loop_bounds: "parse_digits_loop l f u n = Ok (Some m) \<Longrightarrow> n \<le> m"
proof (induction l f u n rule: parse_digits_loop.induct)
  case (1 l f u n)
  from 1(2) obtain c where c: "peek l n = Ok c"
    unfolding parse_digits_loop.simps [of l f u n] and_then_eq_Ok by blast
  show ?case
  proof (cases "(f c \<or> c = CHR ''_'') \<and> \<not> (c = CHR ''_'' \<and> u)")
    case True
    with 1(2) c have "parse_digits_loop l f (c = CHR ''_'') (Suc n) = Ok (Some m)"
      unfolding parse_digits_loop.simps [of l f u n] by auto
    with 1(1) [OF c] True show ?thesis by force
  next
    case False
    with 1(2) c show ?thesis unfolding parse_digits_loop.simps [of l f u n] by (auto split: if_splits)
  qed
qed

lemma parse_digits_bounds: "parse_digits l n f = Ok (Some m) \<Longrightarrow> n \<le> m"
  by (auto simp: parse_digits_def and_then_eq_Ok then_number_Some split: if_splits
      dest!: parse_digits_loop_bounds)

lemma exp_number_bounds: "exp_number l n = Ok (Some m) \<Longrightarrow> n < m"
  by (auto simp: exp_number_def and_then_eq_Ok Let_def split: if_splits dest!: parse_digits_bounds)

lemma float_number_bounds: "float_number l n = Ok (Some m) \<Longrightarrow> n < m"
  by (auto simp: float_number_def exp_float_number_def point_float_number_def and_then_eq_Ok
      then_number_Some or_number_Some split: if_splits dest!: parse_digits_bounds exp_number_bounds)

lemma imag_number_bounds: "imag_number l n = Ok (Some m) \<Longrightarrow> n < m"
  by (auto simp: imag_number_def imag_integer_def and_then_eq_Ok then_number_Some or_number_Some
      split: if_splits dest!: parse_digits_bounds float_number_bounds)

lemma prefixed_number_bounds: "prefixed_number lo up f l n = Ok (Some m) \<Longrightarrow> 0 < m"
  by (auto simp: prefixed_number_def and_then_eq_Ok then_number_Some split: if_splits)

lemma int_number_bounds: "int_number l n = Ok (Some m) \<Longrightarrow> 0 < m"
  by (auto simp: int_number_def hex_number_def bin_number_def oct_number_def or_number_Some
      dec_number_def and_then_eq_Ok then_number_Some split: if_splits dest!: prefixed_number_bounds)

lemma try_read_number_step:
  assumes "try_read_number l = Ok (l', b)" and "at_cursor l"
  shows "lexer_step l l' b"
proof (cases "m_cursor l \<ge> program_size l")
  case True
  with assms show ?thesis by (auto simp: try_read_number_def lexer_step_moves moves_refl)
next
  case False
  let ?n = "or_number (imag_number l 0) (or_number (float_number l 0) (int_number l 0))"
  from False assms(1) obtain r where r: "?n = Ok r"
    unfolding try_read_number_def by (auto simp: and_then_eq_Ok)
  show ?thesis
  proof (cases r)
    case None
    with False r assms show ?thesis by (auto simp: try_read_number_def lexer_step_moves moves_refl)
  next
    case (Some e)
    with False r assms(1) obtain l1 where l1: "increment_column_position l e = Ok l1"
      and l': "l' = push_token l1 NUMBER (m_position l) (m_position l1)" and b
      unfolding try_read_number_def by (auto simp: and_then_eq_Ok)
    have "0 < e"
      using r Some imag_number_bounds [of l 0 e] float_number_bounds [of l 0 e] int_number_bounds [of l 0 e]
      by (auto simp: or_number_Some)
    with increment_column_moves [OF l1] assms(2) \<open>b\<close> show ?thesis
      unfolding l' by (auto intro: lexer_step_push)
  qed
qed

section \<open>Strings\<close>

lemma skip_lines_moves: "skip_lines q l n = Ok (l', m) \<Longrightarrow> at_cursor l \<Longrightarrow> moves l l'"
proof (induction q l n rule: skip_lines.induct)
  case (1 q l n)
  from 1(2) obtain c where c: "peek l n = Ok c"
    unfolding skip_lines.simps [of q l n] and_then_eq_Ok by blast
  show ?case
  proof (cases "c \<noteq> backslash \<and> c \<noteq> q")
    case True
    with 1(2) c obtain l1 where l1: "(if c = newline then increment_row_position l else Ok l) = Ok l1"
      and rest: "skip_lines q l1 (Suc n) = Ok (l', m)"
      unfolding skip_lines.simps [of q l n] by (auto simp: and_then_eq_Ok)
    have "moves l l1" using l1 1(3) by (auto simp: moves_refl split: if_splits dest!: increment_row_moves)
    with 1(1) [OF c True l1 rest] show ?thesis by (blast intro: moves_trans moves_at_cursor)
  next
    case False
    with 1(2,3) c show ?thesis unfolding skip_lines.simps [of q l n] by (auto simp: moves_refl)
  qed
qed

lemma triple_loop_moves: "triple_loop q l n = Ok (l', m) \<Longrightarrow> at_cursor l \<Longrightarrow> moves l l'"
proof (induction q l n rule: triple_loop.induct)
  case (1 q l n)
  from 1(2) show ?case
  proof (cases rule: triple_loop_cases)
    case 1
    then show ?thesis using \<open>at_cursor l\<close> by (simp add: moves_refl)
  next
    case (2 k l1 n1)
    have "moves l l1" using skip_lines_moves [OF 2(2)] 1(3) .
    moreover have "moves l1 l'" using 1(1) [OF 2(1) refl 2(2)] 2(3) moves_at_cursor [OF calculation] by simp
    ultimately show ?thesis by (rule moves_trans)
  qed
qed

text \<open>The two scanners share the shape of their result: forward behind the literal, or back to where
  they started.\<close>

lemma quote_string_loop_moves:
  "quote_string_loop q l0 l n = Ok (l', b) \<Longrightarrow> moves l0 l \<Longrightarrow> at_cursor l0 \<Longrightarrow>
     moves l0 l' \<and> (b \<longrightarrow> m_cursor l < m_cursor l')"
proof (induction q l0 l n rule: quote_string_loop.induct)
  case (1 q l0 l n)
  from 1(2) obtain n1 n2 c where n1: "skip_plain l q n = Ok n1" and n2: "skip_escapes l q n1 = Ok n2"
    and c: "at_continuation l n2 = Ok c"
    unfolding quote_string_loop.simps [of q l0 l n] and_then_eq_Ok by blast
  show ?case
  proof (cases c)
    case True
    with 1(2) n1 n2 c obtain l1 l2 where l1: "advance l (n2 + 2) = Ok l1"
      and l2: "increment_row_position l1 = Ok l2" and rest: "quote_string_loop q l0 l2 0 = Ok (l', b)"
      unfolding quote_string_loop.simps [of q l0 l n] by (auto simp: and_then_eq_Ok)
    have m: "moves l l2" "m_cursor l2 = m_cursor l + (n2 + 2)"
      using advance_moves [OF l1] increment_row_moves [OF l2] by (auto intro: moves_trans)
    from 1(1) [OF n1 n2 c True l1 l2 rest moves_trans [OF 1(3) m(1)] 1(4)] m(2) show ?thesis by auto
  next
    case False
    with 1(2) n1 n2 c obtain ch where ch: "peek l n2 = Ok ch" and rest:
      "(if ch \<noteq> q then Ok (l\<lparr> m_position := m_position l0, m_cursor := m_cursor l0 \<rparr>, False)
        else and_then (advance l (n2 + 1)) (\<lambda>l1. Ok (l1, True))) = Ok (l', b)"
      unfolding quote_string_loop.simps [of q l0 l n] by (auto simp: and_then_eq_Ok)
    show ?thesis
      using rest restored_moves [OF 1(3,4)] 1(3)
      by (auto simp: and_then_eq_Ok split: if_splits dest!: advance_moves intro: moves_trans)
  qed
qed

lemma triple_quote_loop_moves:
  "triple_quote_loop q l0 l n = Ok (l', b) \<Longrightarrow> moves l0 l \<Longrightarrow> at_cursor l0 \<Longrightarrow>
     moves l0 l' \<and> (b \<longrightarrow> m_cursor l < m_cursor l')"
proof (induction q l0 l n rule: triple_quote_loop.induct)
  case (1 q l0 l n)
  from 1(2) obtain r1 r2 c where r1: "skip_lines q l n = Ok r1"
    and r2: "triple_loop q (fst r1) (snd r1) = Ok r2" and c: "at_continuation (fst r2) (snd r2) = Ok c"
    unfolding triple_quote_loop.simps [of q l0 l n] and_then_eq_Ok by blast
  have m1: "moves l (fst r1)" using skip_lines_moves [of q l n "fst r1" "snd r1"] r1 1(3) moves_at_cursor by simp
  have m2: "moves (fst r1) (fst r2)"
    using triple_loop_moves [of q "fst r1" "snd r1" "fst r2" "snd r2"] r2 moves_at_cursor [OF m1] by simp
  have m: "moves l (fst r2)" "moves l0 (fst r2)" using m1 m2 1(3) by (blast intro: moves_trans)+
  have cur: "m_cursor (fst r2) = m_cursor l"
    using skip_lines_bounds [of q l n "fst r1" "snd r1"] triple_loop_bounds [of q "fst r1" "snd r1" "fst r2" "snd r2"]
      r1 r2 by simp
  show ?case
  proof (cases c)
    case True
    with 1(2) r1 r2 c obtain l1 l2 where l1: "advance (fst r2) (snd r2 + 2) = Ok l1"
      and l2: "increment_row_position l1 = Ok l2" and rest: "triple_quote_loop q l0 l2 0 = Ok (l', b)"
      unfolding triple_quote_loop.simps [of q l0 l n] by (auto simp: and_then_eq_Ok)
    have m3: "moves (fst r2) l2" "m_cursor l2 = m_cursor (fst r2) + (snd r2 + 2)"
      using advance_moves [OF l1] increment_row_moves [OF l2] by (auto intro: moves_trans)
    from 1(1) [OF r1 r2 c True l1 l2 rest moves_trans [OF m(2) m3(1)] 1(4)] m3(2) cur show ?thesis by auto
  next
    case False
    with 1(2) r1 r2 c obtain t where "closes_triple q (fst r2) (snd r2) = Ok t" and rest:
      "(if \<not> t then Ok ((fst r2)\<lparr> m_position := m_position l0, m_cursor := m_cursor l0 \<rparr>, False)
        else and_then (advance (fst r2) (snd r2 + 3)) (\<lambda>l1. Ok (l1, True))) = Ok (l', b)"
      unfolding triple_quote_loop.simps [of q l0 l n] by (auto simp: and_then_eq_Ok)
    show ?thesis
      using rest restored_moves [OF m(2) 1(4)] m(2) cur
      by (auto simp: and_then_eq_Ok split: if_splits dest!: advance_moves intro: moves_trans)
  qed
qed

definition normal_mode :: "lexer \<Rightarrow> bool" where
  "normal_mode l \<longleftrightarrow> (\<exists>ms. m_mode l = NORMAL # ms)"

lemma modes_ok_enter: "modes_ok (NORMAL # ms) qs ps \<Longrightarrow> modes_ok (FSTRING # NORMAL # ms) (q # qs) (p # ps)"
  by simp

lemma modes_ok_field: "modes_ok (FSTRING # ms) qs ps \<Longrightarrow> modes_ok (NORMAL # FSTRING # ms) qs ps"
  by simp

lemma modes_ok_leave: "modes_ok (FSTRING # ms) (q # qs) (p # ps) \<Longrightarrow> modes_ok ms qs ps"
  by (cases "(FSTRING # ms, q # qs, p # ps)" rule: modes_ok.cases) auto

lemma push_string_token_step:
  assumes "push_string_token l idx f l1 = Ok l'" and m: "moves l l1" and "m_cursor l < m_cursor l1"
    and at: "at_cursor l" and nm: "normal_mode l"
  shows "lexer_step l l' True"
proof (cases f)
  case False
  with assms have "l' = push_token l1 STRING (m_position l) (m_position l1)"
    by (simp add: push_string_token_def)
  with m at assms(3) show ?thesis by (simp add: lexer_step_push)
next
  case True
  let ?l0 = "l1\<lparr> m_cursor := m_cursor l, m_position := m_position l \<rparr>"
  from True assms(1) obtain t :: bool and qt l2 where
    "advance (?l0\<lparr> m_quote := qt # m_quote l1 \<rparr>) (idx + (if t then 3 else 1)) = Ok l2"
    and l': "l' = (push_token l2 FSTRING_START (m_position l) (m_position l2))
        \<lparr> m_mode := FSTRING # m_mode l2, m_fstring_paren_level := m_parenthesis_level l2 # m_fstring_paren_level l2 \<rparr>"
    by (auto simp: push_string_token_def and_then_eq_Ok Let_def)
  then obtain n where n: "0 < n" and l2: "advance (?l0\<lparr> m_quote := qt # m_quote l1 \<rparr>) n = Ok l2"
    using that [of "idx + (if t then 3 else 1)"] by simp
  from advance_moves [OF l2] have m2: "moves (?l0\<lparr> m_quote := qt # m_quote l1 \<rparr>) l2" "m_cursor l2 = m_cursor l + n"
    by simp_all
  have "reads l l'"
    using m m2 at unfolding l' by (auto simp: reads_def moves_def at_cursor_def located_def)
  moreover have "lexer_modes_ok l'" if "lexer_modes_ok l"
    using that nm m m2 unfolding l' by (auto simp: moves_def normal_mode_def)
  ultimately show ?thesis
    using m m2 n unfolding lexer_step_def l' by (auto simp: moves_def)
qed

lemma scanner_step:
  assumes "and_then r (\<lambda>(l1, ok). if ok then and_then (push_string_token l idx f l1) (\<lambda>l2. Ok (l2, True))
             else Ok (l1, False)) = Ok (l', b)"
    and "\<And>l1 ok. r = Ok (l1, ok) \<Longrightarrow> moves l l1 \<and> (ok \<longrightarrow> m_cursor l < m_cursor l1)"
    and "at_cursor l" and "normal_mode l"
  shows "lexer_step l l' b"
proof -
  from assms(1) obtain l1 ok where r: "r = Ok (l1, ok)" and
    rest: "(if ok then and_then (push_string_token l idx f l1) (\<lambda>l2. Ok (l2, True)) else Ok (l1, False)) = Ok (l', b)"
    by (auto simp: and_then_eq_Ok)
  show ?thesis
    using rest assms(2) [OF r] assms(3,4)
    by (auto simp: and_then_eq_Ok lexer_step_moves split: if_splits intro: push_string_token_step)
qed

lemma try_read_string_step:
  assumes "try_read_string l = Ok (l', b)" and "at_cursor l" and "normal_mode l"
  shows "lexer_step l l' b"
proof -
  have same: "lexer_step l l False" using assms(2) by (simp add: lexer_step_moves moves_refl)
  have q: "moves l l1 \<and> (ok \<longrightarrow> m_cursor l < m_cursor l1)"
    if "quote_string_loop q l l n = Ok (l1, ok) \<or> triple_quote_loop q l l n = Ok (l1, ok)" for q n l1 ok
    using that quote_string_loop_moves triple_quote_loop_moves moves_refl [OF assms(2)] assms(2) by blast
  have scan: "lexer_step l l' b" if "r = quote_string_loop q l l n \<or> r = triple_quote_loop q l l n"
    "and_then r (\<lambda>(l1, ok). if ok then and_then (push_string_token l idx f l1) (\<lambda>l2. Ok (l2, True))
       else Ok (l1, False)) = Ok (l', b)" for r q n idx f
    using scanner_step [OF that(2) _ assms(2,3)] that(1) q by metis
  show ?thesis
    using assms(1) same unfolding try_read_string_def Let_def
      single_quote_string_def double_quote_string_def single_triple_quote_string_def double_triple_quote_string_def
    by (auto simp: and_then_eq_Ok [where m = "find_prefix _ _"] and_then_eq_Ok [where m = "is_triple_quote _ _ _"]
        and_then_eq_Ok [where m = "peek _ _"] split: if_splits option.splits elim!: scan [rotated])
qed

section \<open>f-strings\<close>

lemma middle_then_reads:
  assumes "middle_then (m_position l0) n ty l = Ok l'" and "moves l0 l" and "at_cursor l0"
    and "ty \<noteq> INDENT" and "ty \<noteq> DEDENT"
  shows "reads l0 l' \<and> keeps l0 l' \<and> m_cursor l' = m_cursor l + n"
proof -
  let ?p = "push_token l FSTRING_MIDDLE (m_position l0) (m_position l)"
  from assms(1) obtain l1 where l1: "advance ?p n = Ok l1"
    and l': "l' = push_token l1 ty (m_position l) (m_position l1)"
    by (auto simp: middle_then_def and_then_eq_Ok)
  show ?thesis
    using advance_moves [OF l1] assms(2-5) unfolding l'
    by (auto simp: reads_def keeps_def moves_def at_cursor_def located_def)
qed

definition fstring_mode :: "lexer \<Rightarrow> bool" where
  "fstring_mode l \<longleftrightarrow> (\<exists>ms. m_mode l = FSTRING # ms)"

lemma leave_fstring_step:
  assumes "leave_fstring l1 = Ok l2" and "reads l0 l1" and "keeps l0 l1" and "fstring_mode l0"
    and "m_cursor l0 < m_cursor l1"
  shows "lexer_step l0 l2 True"
proof -
  from assms(1) obtain m ms q qs p ps where s: "m_mode l1 = m # ms" "m_quote l1 = q # qs"
    "m_fstring_paren_level l1 = p # ps" "l2 = l1\<lparr> m_mode := ms, m_quote := qs, m_fstring_paren_level := ps \<rparr>"
    by (auto simp: leave_fstring_def split: list.splits)
  have "m = FSTRING" using assms(3,4) s(1) by (auto simp: keeps_def fstring_mode_def)
  then have "m_mode l0 = FSTRING # ms" "m_quote l0 = q # qs" "m_fstring_paren_level l0 = p # ps"
    using assms(3) s(1-3) by (simp_all add: keeps_def)
  then have "lexer_modes_ok l0 \<longrightarrow> modes_ok ms qs ps"
    using modes_ok_leave [of ms q qs p ps] by simp
  with assms(2,3,5) s show ?thesis
    by (auto simp: lexer_step_def reads_def at_cursor_def keeps_def)
qed

lemma field_step:
  assumes "reads l0 l1" and "keeps l0 l1" and "fstring_mode l0" and "m_cursor l0 < m_cursor l1"
  shows "lexer_step l0 (l1\<lparr> m_mode := NORMAL # m_mode l1 \<rparr>) True"
  using assms by (auto simp: lexer_step_def reads_def at_cursor_def keeps_def fstring_mode_def)

lemma reached_end_step:
  assumes "reached_end (m_position l0) l = Ok (l', b)" and m: "moves l0 l" and at: "at_cursor l0"
    and fm: "fstring_mode l0"
  shows "if b then lexer_step l0 l' True else moves l0 l'"
proof -
  have le: "m_cursor l0 \<le> m_cursor l" using m by (simp add: moves_def)
  have skip: "moves l0 l1" if "advance l n = Ok l1" for n l1
    using advance_moves [OF that] m by (blast intro: moves_trans)
  have skip2: "moves l0 l2" if "(if c then advance l 1 else Ok l) = Ok l1" "advance l1 1 = Ok l2" for c l1 l2
    using that skip [of 1 l1] m advance_moves [OF that(2)] by (cases c) (auto intro: moves_trans)
  have mid: "reads l0 l1 \<and> keeps l0 l1 \<and> m_cursor l0 < m_cursor l1"
    if "middle_then (m_position l0) n ty l = Ok l1" "0 < n" "ty \<noteq> INDENT" "ty \<noteq> DEDENT" for n ty l1
    using middle_then_reads [OF that(1) m at that(3,4)] that(2) le by simp
  have rb: "lexer_step l0 l1 True" if "middle_then (m_position l0) 1 RBRACE l = Ok l1" for l1
    using mid [OF that] by (simp add: lexer_step_keeps)
  have fe: "lexer_step l0 l2 True" if "middle_then (m_position l0) n FSTRING_END l = Ok l1"
    "leave_fstring l1 = Ok l2" "0 < n" for n l1 l2
    using mid [OF that(1,3)] leave_fstring_step [OF that(2)] fm by simp
  have fld: "lexer_step l0 (l1\<lparr> m_mode := NORMAL # m_mode l1 \<rparr>) True"
    if "middle_then (m_position l0) 1 LBRACE l = Ok l1" for l1
    using mid [OF that] fm by (simp add: field_step)
  show ?thesis
    using assms(1) unfolding reached_end_def
    by (auto simp: and_then_eq_Ok simp del: One_nat_def split: if_splits
        intro: rb fe fld skip skip2 skip2 [of True] skip2 [of False])
qed

lemma fstring_loop_step:
  "fstring_loop (m_position l0) l = Ok l' \<Longrightarrow> moves l0 l \<Longrightarrow> at_cursor l0 \<Longrightarrow> fstring_mode l0 \<Longrightarrow>
     lexer_step l0 l' True"
proof (induction "m_position l0" l rule: fstring_loop.induct)
  case (1 l)
  from 1(2) obtain r where r: "reached_end (m_position l0) l = Ok r"
    unfolding fstring_loop.simps [of "m_position l0" l] and_then_eq_Ok by blast
  have step: "if snd r then lexer_step l0 (fst r) True else moves l0 (fst r)"
    by (rule reached_end_step [OF _ 1(3-5)]) (simp add: r)
  show ?case
  proof (cases "snd r")
    case True
    with 1(2) r step show ?thesis unfolding fstring_loop.simps [of "m_position l0" l] by simp
  next
    case False
    with 1(2) r obtain nl where nl: "peek_pattern (fst r) (m_cursor (fst r)) [newline] = Ok nl"
      and "\<not> nl" and rest: "fstring_loop (m_position l0) (fst r) = Ok l'"
      unfolding fstring_loop.simps [of "m_position l0" l] by (auto simp: and_then_eq_Ok assert_that_def split: if_splits)
    from 1(1) [OF r False nl rest] step r False 1(4,5) show ?thesis by simp
  qed
qed

lemma try_fstring_step:
  "try_fstring l = Ok (l', b) \<Longrightarrow> at_cursor l \<Longrightarrow> fstring_mode l \<Longrightarrow> lexer_step l l' b"
  by (auto simp: try_fstring_def and_then_eq_Ok moves_refl intro: fstring_loop_step)

section \<open>Operators\<close>

lemma back_to_fstring_spec:
  "back_to_fstring l = Ok l' \<Longrightarrow> \<exists>ms. m_mode l = NORMAL # FSTRING # ms \<and> l' = l\<lparr> m_mode := FSTRING # ms \<rparr>"
  by (auto simp: back_to_fstring_def assert_that_def split: list.splits if_splits)

text \<open>Reading a one-character operator changes at most the parenthesis level and the mode.\<close>

definition same_text :: "lexer \<Rightarrow> lexer \<Rightarrow> bool" where
  "same_text l l' \<longleftrightarrow> (\<exists>n ms. l' = l\<lparr> m_parenthesis_level := n, m_mode := ms \<rparr> \<and>
     (modes_ok (m_mode l) (m_quote l) (m_fstring_paren_level l) \<longrightarrow>
      modes_ok ms (m_quote l) (m_fstring_paren_level l)))"

lemma same_text_refl: "same_text l l"
  unfolding same_text_def by (intro exI [of _ "m_parenthesis_level l"] exI [of _ "m_mode l"]) simp

lemma same_text_paren: "same_text l (l\<lparr> m_parenthesis_level := n \<rparr>)"
  unfolding same_text_def by (intro exI [of _ n] exI [of _ "m_mode l"]) simp

lemma same_text_back: "back_to_fstring l = Ok l' \<Longrightarrow> same_text l l'"
  unfolding same_text_def
  by (drule back_to_fstring_spec, elim exE) (rule exI [of _ "m_parenthesis_level l"], force)

lemma one_character_same_text:
  assumes "try_read_operation_with_one_character l = Ok (l', r)"
  shows "same_text l l' \<and> (r = None \<longrightarrow> l' = l) \<and> r \<noteq> Some INDENT \<and> r \<noteq> Some DEDENT"
proof -
  have "map_of simple_operators c \<noteq> Some INDENT \<and> map_of simple_operators c \<noteq> Some DEDENT" for c
    by (simp add: simple_operators_def)
  then show ?thesis
    using assms unfolding try_read_operation_with_one_character_def
    by (auto simp: and_then_eq_Ok enter_paren_def leave_paren_def assert_that_def same_text_refl same_text_paren
        split: if_splits list.splits intro: same_text_back)
qed

lemma operator_tables:
  "map_of two_character_operators s \<noteq> Some INDENT \<and> map_of two_character_operators s \<noteq> Some DEDENT"
  "map_of three_character_operators s \<noteq> Some INDENT \<and> map_of three_character_operators s \<noteq> Some DEDENT"
  by (simp_all add: two_character_operators_def three_character_operators_def)

lemma emit_step:
  assumes "same_text l l1" and "advance l1 n = Ok l2" and "0 < n" and "at_cursor l"
    and "ty \<noteq> INDENT" and "ty \<noteq> DEDENT"
  shows "lexer_step l (push_token l2 ty (m_position l) (m_position l2)) True"
  using advance_moves [OF assms(2)] assms(1,3-6)
  by (auto simp: lexer_step_def reads_def moves_def same_text_def at_cursor_def located_def)

lemma try_read_operation_step:
  assumes "try_read_operation l = Ok (l', b)" and at: "at_cursor l"
  shows "lexer_step l l' b"
proof -
  have same: "lexer_step l l False" using at by (simp add: lexer_step_moves moves_refl)
  have r3: "r \<noteq> Some INDENT \<and> r \<noteq> Some DEDENT" if "try_read_operation_with_three_characters l = Ok r" for r
    using that operator_tables(2)
    by (auto simp: try_read_operation_with_three_characters_def and_then_eq_Ok split: if_splits)
  have r2: "r \<noteq> Some INDENT \<and> r \<noteq> Some DEDENT" if "try_read_operation_with_two_characters l = Ok r" for r
    using that operator_tables(1)
    by (auto simp: try_read_operation_with_two_characters_def and_then_eq_Ok split: if_splits)
  let ?emit = "\<lambda>l1 n ty. and_then (advance l1 n) (\<lambda>l2.
              Ok (push_token l2 ty (m_position l) (m_position l2), True))"
  have emit: "lexer_step l l' b" if "?emit l1 n ty = Ok (l', b)" "same_text l l1" "0 < n"
    "ty \<noteq> INDENT" "ty \<noteq> DEDENT" for l1 n ty
    using that emit_step [OF that(2) _ that(3) at that(4,5)] by (auto simp: and_then_eq_Ok)
  show ?thesis
  proof (cases "m_cursor l \<ge> program_size l")
    case True
    with assms same show ?thesis by (auto simp: try_read_operation_def)
  next
    case False
    note u = assms(1) [unfolded try_read_operation_def Let_def]
    from False u obtain t3 where t3: "try_read_operation_with_three_characters l = Ok t3"
      by (auto simp: and_then_eq_Ok)
    show ?thesis
    proof (cases t3)
      case (Some ty)
      with False u t3 r3 show ?thesis by (intro emit [of l 3 ty]) (auto simp: same_text_refl)
    next
      case None
      with False u t3 obtain t2 where t2: "try_read_operation_with_two_characters l = Ok t2"
        by (auto simp: and_then_eq_Ok)
      show ?thesis
      proof (cases t2)
        case (Some ty)
        with None False u t3 t2 r2 show ?thesis by (intro emit [of l 2 ty]) (auto simp: same_text_refl)
      next
        case none2: None
        with None False u t3 t2 obtain l1 t1 where t1: "try_read_operation_with_one_character l = Ok (l1, t1)"
          and rest: "(case t1 of Some ty \<Rightarrow> ?emit l1 1 ty | None \<Rightarrow> Ok (l1, False)) = Ok (l', b)"
          by (auto simp: and_then_eq_Ok simp del: One_nat_def)
        with one_character_same_text [OF t1] same show ?thesis
          by (cases t1) (auto intro: emit [of l1 1])
      qed
    qed
  qed
qed

section \<open>One round of the main loop\<close>

text \<open>The contract, and how \<^verbatim>\<open>if (f()) { return true; }\<close> composes it.\<close>

locale reading_step =
  fixes f :: "lexer \<Rightarrow> (lexer \<times> bool) py_result"
  assumes step: "f l = Ok (l', b) \<Longrightarrow> at_cursor l \<Longrightarrow> normal_mode l \<Longrightarrow> lexer_step l l' b"
begin

lemma or_try_step:
  assumes "or_try (f l) rest = Ok (l', b)" and before: "lexer_step l0 l False" and "normal_mode l0"
    and rest: "\<And>l1. rest l1 = Ok (l', b) \<Longrightarrow> lexer_step l0 l1 False \<Longrightarrow> lexer_step l0 l' b"
  shows "lexer_step l0 l' b"
proof -
  from assms(1) obtain l1 b1 where f: "f l = Ok (l1, b1)" and
    k: "(if b1 then Ok (l1, True) else rest l1) = Ok (l', b)"
    by (auto simp: or_try_def and_then_eq_Ok)
  have "at_cursor l" "normal_mode l"
    using before assms(3) by (auto simp: lexer_step_def reads_def keeps_def normal_mode_def)
  from lexer_step_trans [OF before step [OF f this]] k rest show ?thesis
    by (cases b1) auto
qed

end

interpretation empty_line: reading_step try_empty_line
  by unfold_locales (rule try_empty_line_step)

interpretation comment: reading_step try_read_comment
  by unfold_locales (rule try_read_comment_step)

interpretation indent: reading_step try_read_indent
  by unfold_locales (rule try_read_indent_step)

interpretation new_line: reading_step try_read_newline
  by unfold_locales (rule try_read_newline_step)

interpretation string_literal: reading_step try_read_string
  by unfold_locales (rule try_read_string_step)

interpretation name: reading_step try_read_name
  by unfold_locales (rule try_read_name_step)

interpretation operation: reading_step try_read_operation
  by unfold_locales (rule try_read_operation_step)

interpretation number: reading_step try_read_number
  by unfold_locales (rule try_read_number_step)

lemma lexer_step_at: "lexer_step l0 l False \<Longrightarrow> at_cursor l"
  by (simp add: lexer_step_def reads_def)

lemma lexer_step_then_moves:
  "lexer_step l0 l False \<Longrightarrow> moves l l1 \<Longrightarrow> lexer_step l0 l1 False"
  by (blast intro: lexer_step_trans lexer_step_moves)

lemma normal_round:
  assumes at: "at_cursor l" and nm: "normal_mode l"
    and round: "or_try (try_empty_line l) (\<lambda>l.
          or_try (try_read_comment l) (\<lambda>l.
          or_try (try_read_indent l) (\<lambda>l.
          or_try (try_read_newline l) (\<lambda>l.
          and_then (try_read_backslash l) (\<lambda>l.
          and_then (try_read_space l) (\<lambda>(l, _).
          or_try (try_read_string l) (\<lambda>l.
          or_try (try_read_name l) (\<lambda>l.
          or_try (try_read_operation l) (\<lambda>l.
          try_read_number l))))))))) = Ok (l', b)"
  shows "lexer_step l l' b"
  using round lexer_step_moves [OF moves_refl [OF at]] nm
proof (rule empty_line.or_try_step, goal_cases)
  case (1 l1)
  from 1 nm show ?case
  proof (rule comment.or_try_step, goal_cases)
    case (1 l2)
    from 1 nm show ?case
    proof (rule indent.or_try_step, goal_cases)
      case (1 l3)
      from 1 nm show ?case
      proof (rule new_line.or_try_step, goal_cases)
        case (1 l4)
        from 1(1) obtain l5 l6 b6 where 5: "try_read_backslash l4 = Ok l5" and 6: "try_read_space l5 = Ok (l6, b6)"
          and rest: "or_try (try_read_string l6) (\<lambda>l. or_try (try_read_name l) (\<lambda>l.
            or_try (try_read_operation l) (\<lambda>l. try_read_number l))) = Ok (l', b)"
          by (auto simp: and_then_eq_Ok)
        have m: "lexer_step l l6 False"
          using 1(2) try_read_backslash_moves [OF 5] try_read_space_moves [OF 6]
          by (blast intro: lexer_step_then_moves lexer_step_at moves_at_cursor)
        from rest m nm show ?case
        proof (rule string_literal.or_try_step, goal_cases)
          case (1 l7)
          from 1 nm show ?case
          proof (rule name.or_try_step, goal_cases)
            case (1 l8)
            from 1 nm show ?case
            proof (rule operation.or_try_step, goal_cases)
              case (1 l9)
              have "normal_mode l9"
                using 1(2) nm by (simp add: lexer_step_def keeps_def normal_mode_def)
              from lexer_step_trans [OF 1(2) number.step [OF 1(1) lexer_step_at [OF 1(2)] this]]
              show ?case .
            qed
          qed
        qed
      qed
    qed
  qed
qed

section \<open>The invariant of the lexer\<close>

definition lexer_ok :: "lexer \<Rightarrow> bool" where
  "lexer_ok l \<longleftrightarrow>
     (at_cursor l \<or> m_cursor l = Suc (program_size l) \<and>
        pointer_to_program (m_position l) = program_size l \<and> m_indent_values l = [0]) \<and>
     indents_ok (m_indent_values l) \<and> lexer_modes_ok l \<and>
     located 0 (pointer_to_program (m_position l)) (m_tokens_to_emit l) \<and>
     int (length (m_indent_values l)) = 1 + net_indent (m_tokens_to_emit l)"

lemma lexer_ok_create: "lexer_ok (create p)"
  by (simp add: lexer_ok_def create_def at_cursor_def indents_ok_def)

lemma located_mono: "located lo hi ts \<Longrightarrow> hi \<le> hi' \<Longrightarrow> located lo hi' ts"
  by (auto simp: located_def)

lemma lexer_step_ok: "lexer_step l l' b \<Longrightarrow> lexer_ok l \<Longrightarrow> at_cursor l \<Longrightarrow> lexer_ok l'"
  by (fastforce simp: lexer_step_def lexer_ok_def reads_def at_cursor_def intro: located_append)

lemma close_indents_spec:
  "vs \<noteq> [] \<Longrightarrow> m_indent_values l = vs \<Longrightarrow> \<exists>ts. close_indents p vs l =
     l\<lparr> m_indent_values := [last vs], m_tokens_to_emit := m_tokens_to_emit l @
           replicate (length vs - 1) \<lparr> m_token_type = DEDENT, m_start = p, m_end = p \<rparr>,
         m_current_line_tokens := ts \<rparr>"
proof (induction vs arbitrary: l)
  case (Cons v vs)
  show ?case
  proof (cases "vs = []")
    case True
    with Cons.prems show ?thesis by (intro exI [of _ "m_current_line_tokens l"]) simp
  next
    case False
    let ?l = "(push_token l DEDENT p p)\<lparr> m_indent_values := vs \<rparr>"
    from Cons.IH [of ?l] False obtain ts where
      ts: "close_indents p vs ?l = ?l\<lparr> m_indent_values := [last vs], m_tokens_to_emit := m_tokens_to_emit ?l @
           replicate (length vs - 1) \<lparr> m_token_type = DEDENT, m_start = p, m_end = p \<rparr>,
         m_current_line_tokens := ts \<rparr>" by auto
    have "length vs = Suc (length vs - 1)" using False by (cases vs) auto
    then have "replicate (length vs) x = x # replicate (length vs - 1) x" for x :: token
      by (metis replicate_Suc)
    with ts False show ?thesis
      by (intro exI [of _ ts]) (simp add: push_token_def Let_def)
  qed
qed simp

lemma end_round:
  assumes "read_more_tokens_loop l = Ok (l', b)" and "m_cursor l = program_size l" and "lexer_ok l"
  shows "lexer_ok l' \<and> b \<and> m_cursor l' = Suc (m_cursor l) \<and> program_size l' = program_size l \<and>
    (\<exists>ts t. m_tokens_to_emit l' = m_tokens_to_emit l @ ts @ [t] \<and> m_token_type t = ENDMARKER \<and>
       (\<forall>d \<in> set ts. m_token_type d = DEDENT))"
proof -
  have at: "at_cursor l" using assms(2,3) by (auto simp: lexer_ok_def)
  let ?l2 = "l\<lparr> m_position := \<lparr> row = Suc (row (m_position l)), column = 0,
                               pointer_to_program = program_size l \<rparr>, m_current_line_tokens := [],
               m_cursor := Suc (program_size l) \<rparr>"
  have ne: "m_indent_values l \<noteq> []" "last (m_indent_values l) = 0"
    using assms(3) by (auto simp: lexer_ok_def indents_ok_def)
  obtain ts where ts: "close_indents (m_position ?l2) (m_indent_values l) ?l2 =
     ?l2\<lparr> m_indent_values := [0], m_tokens_to_emit := m_tokens_to_emit l @
           replicate (length (m_indent_values l) - 1)
             \<lparr> m_token_type = DEDENT, m_start = m_position ?l2, m_end = m_position ?l2 \<rparr>,
         m_current_line_tokens := ts \<rparr>"
    using close_indents_spec [of "m_indent_values l" ?l2 "m_position ?l2"] ne by auto
  from assms(1,2) have e: "l' = push_token (close_indents (m_position ?l2) (m_indent_values l) ?l2)
      ENDMARKER (m_position l) (m_position (close_indents (m_position ?l2) (m_indent_values l) ?l2))" and b
    by (auto simp: read_more_tokens_loop_def increment_row_position_def Let_def)
  let ?ds = "replicate (length (m_indent_values l) - 1)
             \<lparr> m_token_type = DEDENT, m_start = m_position ?l2, m_end = m_position ?l2 \<rparr>"
  let ?e = "\<lparr> m_token_type = ENDMARKER, m_start = m_position l, m_end = m_position ?l2 \<rparr>"
  have toks: "m_tokens_to_emit l' = m_tokens_to_emit l @ ?ds @ [?e]" unfolding e ts by simp
  have p: "pointer_to_program (m_position l) = program_size l" using at assms(2) by (simp add: at_cursor_def)
  have "located (program_size l) (program_size l) ?ds" by (rule located_replicate) simp_all
  moreover have "located (program_size l) (program_size l) [?e]" using p by (simp add: located_def)
  moreover have "located 0 (program_size l) (m_tokens_to_emit l)" using assms(3) p by (simp add: lexer_ok_def)
  ultimately have "located 0 (program_size l) (m_tokens_to_emit l')"
    unfolding toks by (blast intro: located_append)
  moreover have "1 + net_indent (m_tokens_to_emit l') = 1"
    using assms(3) ne unfolding toks by (cases "m_indent_values l") (auto simp: lexer_ok_def net_indent_dedents)
  moreover have f: "m_cursor l' = Suc (program_size l)" "m_program l' = m_program l" "m_indent_values l' = [0]"
    "pointer_to_program (m_position l') = program_size l" "m_mode l' = m_mode l" "m_quote l' = m_quote l"
    "m_fstring_paren_level l' = m_fstring_paren_level l"
    unfolding e ts by simp_all
  ultimately have "lexer_ok l'"
    using assms(3) by (simp add: lexer_ok_def indents_ok_def)
  moreover have "\<forall>d \<in> set ?ds. m_token_type d = DEDENT" by simp
  ultimately show ?thesis using toks \<open>b\<close> assms(2) f(1,2) by (metis token.select_convs(1))
qed

lemma round_step:
  assumes "read_more_tokens_loop l = Ok (l', b)" and "lexer_ok l" and "m_cursor l < program_size l"
  shows "lexer_step l l' b"
proof -
  have at: "at_cursor l" using assms(2,3) by (auto simp: lexer_ok_def)
  from assms(1,3) obtain m ms where m: "m_mode l = m # ms"
    by (cases "m_mode l") (auto simp: read_more_tokens_loop_def)
  show ?thesis
  proof (cases m)
    case NORMAL
    have "normal_mode l" using m NORMAL by (simp add: normal_mode_def)
    from normal_round [OF at this] assms(1,3) m NORMAL show ?thesis
      by (simp add: read_more_tokens_loop_def)
  next
    case FSTRING
    have "fstring_mode l" using m FSTRING by (simp add: fstring_mode_def)
    with try_fstring_step [OF _ at] assms(1,3) m FSTRING show ?thesis
      by (simp add: read_more_tokens_loop_def)
  qed
qed

text \<open>How much is left to read: the characters, then the open indentation levels.\<close>

definition remaining :: "lexer \<Rightarrow> nat \<times> nat" where
  "remaining l = (Suc (program_size l) - m_cursor l, length (m_indent_values l))"

abbreviation less_remaining :: "lexer \<Rightarrow> lexer \<Rightarrow> bool" where
  "less_remaining l' l \<equiv> (remaining l', remaining l) \<in> less_than <*lex*> less_than"

lemma round_ok:
  assumes "read_more_tokens_loop l = Ok (l', b)" and "lexer_ok l"
  shows "lexer_ok l' \<and> (b \<longrightarrow> less_remaining l' l)"
proof -
  consider "m_cursor l < program_size l" | "m_cursor l = program_size l" | "m_cursor l > program_size l"
    by linarith
  then show ?thesis
  proof cases
    case 1
    note st = round_step [OF assms 1]
    have at: "at_cursor l" using assms(2) 1 by (auto simp: lexer_ok_def)
    have "m_program l' = m_program l" "m_cursor l' \<le> program_size l'"
      using st by (auto simp: lexer_step_def reads_def at_cursor_def)
    then have "less_remaining l' l" if b
      using st that 1 by (auto simp: lexer_step_def remaining_def)
    with lexer_step_ok [OF st assms(2) at] show ?thesis by simp
  next
    case 2
    from end_round [OF assms(1) 2 assms(2)] 2 show ?thesis by (simp add: remaining_def)
  next
    case 3
    with assms show ?thesis by (auto simp: read_more_tokens_loop_def)
  qed
qed

section \<open>The loops around a round\<close>

lemma located_filter: "located lo hi ts \<Longrightarrow> located lo hi (filter P ts)"
  by (auto simp: located_def sorted_filter)

lemma net_indent_filter:
  "(\<And>t. m_token_type t = INDENT \<or> m_token_type t = DEDENT \<Longrightarrow> P t) \<Longrightarrow> net_indent (filter P ts) = net_indent ts"
  by (induction ts) auto

lemma erase_ignored_fields [simp]:
  "m_cursor (erase_ignored l) = m_cursor l" "m_program (erase_ignored l) = m_program l"
  "m_indent_values (erase_ignored l) = m_indent_values l" "m_position (erase_ignored l) = m_position l"
  "m_mode (erase_ignored l) = m_mode l" "m_quote (erase_ignored l) = m_quote l"
  "m_fstring_paren_level (erase_ignored l) = m_fstring_paren_level l"
  by (simp_all add: erase_ignored_def)

lemma lexer_ok_erase:
  assumes "lexer_ok l"
  shows "lexer_ok (erase_ignored l) \<and> remaining (erase_ignored l) = remaining l"
proof -
  have "net_indent (m_tokens_to_emit (erase_ignored l)) = net_indent (m_tokens_to_emit l)"
    unfolding erase_ignored_def by (simp, rule net_indent_filter) (auto simp: ignored_def)
  moreover have "located 0 (pointer_to_program (m_position l)) (m_tokens_to_emit (erase_ignored l))"
    using assms by (simp add: lexer_ok_def erase_ignored_def located_filter)
  ultimately show ?thesis using assms by (simp add: lexer_ok_def at_cursor_def remaining_def)
qed

lemma read_more_tokens_from_ok:
  assumes "lexer_ok l"
  shows "\<exists>r. read_more_tokens_from n l = Some r \<and>
    wp r (\<lambda>(l', b). lexer_ok l' \<and> (b \<longrightarrow> n < length (m_tokens_to_emit l')))"
  using assms
proof (induction "remaining l" arbitrary: l rule: wf_induct_rule [OF wf_lex_prod [OF wf_less_than wf_less_than]])
  case 1
  show ?case
  proof (cases "n \<ge> length (m_tokens_to_emit l)")
    case False
    with 1(2) show ?thesis by (subst read_more_tokens_from.simps) simp
  next
    case True
    show ?thesis
    proof (cases "read_more_tokens_loop l")
      case (Ok p)
      obtain l1 b where p: "p = (l1, b)" by fastforce
      note ok = round_ok [OF Ok [unfolded p] 1(2)]
      show ?thesis
      proof (cases b)
        case b: True
        have "less_remaining (erase_ignored l1) l" and "lexer_ok (erase_ignored l1)"
          using ok b lexer_ok_erase by simp_all
        from 1(1) [OF this] True Ok p b show ?thesis
          by (subst read_more_tokens_from.simps) simp
      next
        case False
        with True Ok p ok show ?thesis by (subst read_more_tokens_from.simps) simp
      qed
    qed (use True in \<open>subst read_more_tokens_from.simps, simp\<close>)+
  qed
qed

lemma peek_token_ok:
  assumes "lexer_ok l"
  shows "\<exists>r. peek_token n l = Some r \<and>
    wp r (\<lambda>(l', t). lexer_ok l' \<and>
      (t \<noteq> None \<longrightarrow> n < length (m_tokens_to_emit l') \<and> t = Some (m_tokens_to_emit l' ! n)))"
  using assms
proof (induction "n - length (m_tokens_to_emit l)" arbitrary: l rule: less_induct)
  case less
  note unfold = peek_token.simps [of n l]
  consider (found) "n < length (m_tokens_to_emit l)"
    | (past) "n \<ge> length (m_tokens_to_emit l)" "m_cursor l > program_size l"
    | (more) "n \<ge> length (m_tokens_to_emit l)" "m_cursor l \<le> program_size l" by linarith
  then show ?case
  proof cases
    case found
    with less.prems show ?thesis unfolding unfold by simp
  next
    case past
    with less.prems show ?thesis unfolding unfold by simp
  next
    case more
    obtain r where r: "read_more_tokens l = Some r"
      and ok: "wp r (\<lambda>(l', b). lexer_ok l' \<and> (b \<longrightarrow> length (m_tokens_to_emit l) < length (m_tokens_to_emit l')))"
      using read_more_tokens_from_ok [OF less.prems, of "length (m_tokens_to_emit l)"]
      unfolding read_more_tokens_def by blast
    show ?thesis
    proof (cases "\<exists>l1. r = Ok (l1, True)")
      case True
      then obtain l1 where l1: "r = Ok (l1, True)" ..
      have e: "peek_token n l = peek_token n l1" unfolding unfold using more r l1 by simp
      show ?thesis
      proof (cases "n < length (m_tokens_to_emit l1)")
        case True
        then have "peek_token n l1 = Some (Ok (l1, Some (m_tokens_to_emit l1 ! n)))"
          by (simp add: peek_token.simps [of n l1])
        with e ok l1 True show ?thesis by simp
      next
        case False
        have less1: "n - length (m_tokens_to_emit l1) < n - length (m_tokens_to_emit l)"
          and "lexer_ok l1" using ok l1 False more by auto
        from less.hyps [OF this] show ?thesis unfolding e .
      qed
    next
      case False
      with more r ok show ?thesis unfolding unfold by (cases r) auto
    qed
  qed
qed

section \<open>Exact results\<close>

lemma advance_while_takeWhile:
  assumes "m_cursor l \<le> program_size l" and "\<not> P (CHR 0x00)"
  shows "\<exists>l'. advance_while l P = Ok l' \<and> m_program l' = m_program l \<and>
           m_cursor l' = m_cursor l + length (takeWhile P (text_at l 0)) \<and>
           (at_cursor l \<longrightarrow> moves l l')"
  using assms
proof (induction l P rule: advance_while.induct)
  case (1 l P)
  note unf = advance_while.simps [of l P]
  show ?case
  proof (cases "inside l 0 \<and> P (char_at l 0)")
    case True
    obtain l1 where l1: "increment_column_position l 1 = Ok l1" "m_program l1 = m_program l"
      "m_cursor l1 = m_cursor l + 1"
      using True by (auto simp: increment_column_position_def)
    have pa: "program_at l (m_cursor l) = Ok (char_at l 0)" using True by (simp add: program_at_def char_at_def)
    have e: "advance_while l P = advance_while l1 P" unfolding unf using pa l1 True by simp
    have "m_cursor l1 \<le> program_size l1" using True l1 by simp
    from 1(1) [OF pa _ l1(1) this 1(3)] True obtain l' where l': "advance_while l1 P = Ok l'"
      "m_program l' = m_program l1" "m_cursor l' = m_cursor l1 + length (takeWhile P (text_at l1 0))"
      "at_cursor l1 \<longrightarrow> moves l1 l'" by auto
    have t: "text_at l 0 = char_at l 0 # text_at l1 0"
      using text_at_Cons [of l 0] True l1(2,3) by (simp add: text_at_def)
    have "moves l l'" if "at_cursor l"
      using increment_column_moves [OF l1(1)] l'(4) by (blast intro: moves_trans moves_at_cursor)
    with l' l1 t True e show ?thesis by simp
  next
    case False
    then have "advance_while l P = Ok l"
      unfolding unf using 1(2,3) by (auto simp: program_at_def char_at_def)
    moreover have "takeWhile P (text_at l 0) = []"
      using False text_at_Cons [of l 0] text_at_Nil [of l 0] by (cases "inside l 0") auto
    ultimately show ?thesis by (simp add: moves_refl)
  qed
qed

lemma char_classes_0 [simp]: "\<not> is_blank (CHR 0x00)" "\<not> valid_name (CHR 0x00)" "\<not> is_alnum (CHR 0x00)"
  by (simp_all add: is_blank_def valid_name_def is_alnum_def is_alpha_def is_digit_def char_between_def)

lemma valid_start_is_name: "valid_start_name c \<Longrightarrow> valid_name c"
  by (auto simp: valid_start_name_def valid_name_def is_alnum_def)

section \<open>Properties\<close>

text \<open>C11: Lexing terminates: on every program, with every setting of the two filters reached so far, asking
  for any token returns. Each round consumes a character or pops an indentation level, so that the
  loops of \<^verbatim>\<open>read_more_tokens\<close> and \<^verbatim>\<open>peek_token\<close> end; and a token returned is the one at the
  position asked for.\<close>

theorem peek_token_terminates:
  assumes "lexer_ok l"
  shows "\<exists>r. peek_token n l = Some r \<and>
    (\<forall>l' t. r = Ok (l', Some t) \<longrightarrow> n < length (m_tokens_to_emit l') \<and> t = m_tokens_to_emit l' ! n)"
  using peek_token_ok [OF assms, of n] by (auto simp: wp_iff)

text \<open>C12: The lexer keeps its state well-formed from \<^verbatim>\<open>create\<close> on: the indentation levels grow strictly
  from 0, the modes alternate and every open f-string has its quote and parenthesis level, the tokens
  lie inside the program in the order of their starts, and the \<^verbatim>\<open>INDENT\<close> tokens exceed the
  \<^verbatim>\<open>DEDENT\<close> tokens by the number of open levels.\<close>

theorem lexer_invariant:
  assumes "lexer_ok l" and "peek_token n l = Some (Ok (l', t))"
  shows "lexer_ok (create p) \<and> lexer_ok l' \<and>
    indents_ok (m_indent_values l') \<and> lexer_modes_ok l' \<and>
    located 0 (program_size l') (m_tokens_to_emit l') \<and>
    number_of INDENT (m_tokens_to_emit l') + 1 =
      number_of DEDENT (m_tokens_to_emit l') + length (m_indent_values l')"
proof -
  have ok: "lexer_ok l'" using peek_token_ok [OF assms(1), of n] assms(2) by simp
  then have "located 0 (program_size l') (m_tokens_to_emit l')"
    by (auto simp: lexer_ok_def at_cursor_def intro: located_mono)
  with ok lexer_ok_create [of p] show ?thesis by (auto simp: lexer_ok_def net_indent_def)
qed

text \<open>At the end of the program the layout tokens balance: once the lexer has passed the end, every
  \<^verbatim>\<open>INDENT\<close> has its \<^verbatim>\<open>DEDENT\<close> and only the outermost level is open.\<close>

theorem layout_balanced_at_end:
  assumes "lexer_ok l" and "peek_token n l = Some (Ok (l', t))" and "m_cursor l' > program_size l'"
  shows "number_of INDENT (m_tokens_to_emit l') = number_of DEDENT (m_tokens_to_emit l') \<and>
         m_indent_values l' = [0]"
  using peek_token_ok [OF assms(1), of n] assms(2,3)
  by (auto simp: lexer_ok_def at_cursor_def net_indent_def)

text \<open>C14: Dedenting is exact. For an indentation that is one of the open levels the loop pops exactly the
  deeper levels and emits one \<^verbatim>\<open>DEDENT\<close> for each; for any other it empties the vector and reads the
  back of an empty vector, which is undefined.\<close>

theorem dedent_to_exact:
  assumes "indents_ok (m_indent_values l)"
  shows "if v \<in> set (m_indent_values l) then
      (\<exists>l'. dedent_to v p l = Ok l' \<and> m_indent_values l' = filter (\<lambda>i. i \<le> v) (m_indent_values l) \<and>
         m_tokens_to_emit l' = m_tokens_to_emit l @
           replicate (length (filter (\<lambda>i. v < i) (m_indent_values l)))
             \<lparr> m_token_type = DEDENT, m_start = p, m_end = m_position l \<rparr>)
    else dedent_to v p l = Abort Undefined"
proof -
  have "sorted_wrt (>) (m_indent_values l)" using assms by (simp add: indents_ok_def)
  then show ?thesis
  proof (induction v p l rule: dedent_to.induct)
    case (1 v p l)
    show ?case
    proof (cases "m_indent_values l")
      case Nil
      then show ?thesis by (subst dedent_to.simps) simp
    next
      case (Cons b bs)
      have lt: "\<forall>i \<in> set bs. i < b" and "sorted_wrt (>) bs" using 1(2) Cons by auto
      show ?thesis
      proof (cases "v = b")
        case True
        have "filter (\<lambda>i. i \<le> v) bs = bs" "filter (\<lambda>i. v < i) bs = []"
          using lt True by (auto intro!: filter_True filter_False)
        then show ?thesis using True Cons by (subst dedent_to.simps) simp
      next
        case False
        let ?l = "(push_token l DEDENT p (m_position l))\<lparr> m_indent_values := bs \<rparr>"
        have e: "dedent_to v p l = dedent_to v p ?l" using False Cons by (subst dedent_to.simps) simp
        have "v < b" if "v \<in> set bs" using lt that by auto
        with 1(1) [OF Cons False] \<open>sorted_wrt (>) bs\<close> Cons False show ?thesis
          unfolding e by (auto split: if_splits)
      qed
    qed
  qed
qed

text \<open>Names are read whole. If the text at the cursor is a name followed by a character that cannot
  continue it, \<^verbatim>\<open>try_read_name\<close> emits one \<^verbatim>\<open>NAME\<close> token that covers exactly the name.\<close>

theorem try_read_name_exact:
  assumes "at_cursor l" and "text_at l 0 = (c # cs) @ d # rest"
    and "valid_start_name c" and "list_all valid_name cs" and "\<not> valid_name d"
  shows "\<exists>l'. try_read_name l = Ok (l', True) \<and> m_cursor l' = m_cursor l + Suc (length cs) \<and>
    (\<exists>t. m_tokens_to_emit l' = m_tokens_to_emit l @ [t] \<and> m_token_type t = NAME \<and>
       pointer_to_program (m_start t) = m_cursor l \<and>
       pointer_to_program (m_end t) = m_cursor l + Suc (length cs))"
proof -
  have in0: "inside l 0" "char_at l 0 = c"
    using assms(2) text_at_Cons [of l 0] text_at_Nil [of l 0] by (cases "inside l 0"; simp)+
  obtain l1 where l1: "advance_if l valid_start_name = Ok (l1, True)" "m_cursor l1 = m_cursor l + 1"
    "m_program l1 = m_program l"
    using in0 assms(3)
    by (auto simp: advance_if_def program_at_def char_at_def increment_column_position_def)
  note m1 = advance_if_moves [OF l1(1) assms(1)]
  have "text_at l1 0 = cs @ d # rest"
    using assms(2) text_at_Cons [of l 0] in0 l1(2,3) by (simp add: text_at_def)
  then have tw: "takeWhile valid_name (text_at l1 0) = cs"
    using assms(4,5) by (simp add: takeWhile_append2 list_all_iff)
  have "m_cursor l1 \<le> program_size l1" using in0(1) l1(2,3) by simp
  from advance_while_takeWhile [OF this, of valid_name] tw obtain l2 where
    l2: "advance_while l1 valid_name = Ok l2" "m_cursor l2 = m_cursor l1 + length cs" and m2: "moves l1 l2"
    using m1 moves_at_cursor by auto
  have "moves l l2" using m1 m2 by (blast intro: moves_trans)
  with l1 l2 in0 assms(1,3) show ?thesis
    by (auto simp: try_read_name_def peek_eq moves_def at_cursor_def)
qed

section \<open>Witnesses\<close>

definition at_end :: lexer where
  "at_end = (create [])\<lparr> m_cursor := 1,
     m_position := \<lparr> row = 1, column = 0, pointer_to_program = 0 \<rparr>,
     m_tokens_to_emit := [\<lparr> m_token_type = ENDMARKER,
        m_start = \<lparr> row = 0, column = 0, pointer_to_program = 0 \<rparr>,
        m_end = \<lparr> row = 1, column = 0, pointer_to_program = 0 \<rparr> \<rparr>],
     m_current_line_tokens := [\<lparr> m_token_type = ENDMARKER,
        m_start = \<lparr> row = 0, column = 0, pointer_to_program = 0 \<rparr>,
        m_end = \<lparr> row = 1, column = 0, pointer_to_program = 0 \<rparr> \<rparr>] \<rparr>"

lemma peek_empty_program:
  "peek_token 0 (create []) = Some (Ok (at_end, Some (m_tokens_to_emit at_end ! 0)))"
  by (simp add: peek_token.simps read_more_tokens_def read_more_tokens_from.simps read_more_tokens_loop_def
      create_def increment_row_position_def Let_def push_token_def at_end_def erase_ignored_def ignored_def)

theorem peek_token_terminates_witness: "\<exists>r. peek_token 3 (create ''if x:'') = Some r"
  using peek_token_terminates [OF lexer_ok_create] by blast

theorem lexer_invariant_witness: "lexer_modes_ok at_end \<and> lexer_ok at_end"
  using lexer_invariant [OF lexer_ok_create peek_empty_program, of "[]"] by simp

theorem layout_balanced_at_end_witness:
  "number_of INDENT (m_tokens_to_emit at_end) = number_of DEDENT (m_tokens_to_emit at_end)"
  using layout_balanced_at_end [OF lexer_ok_create peek_empty_program]
  by (simp add: at_end_def create_def)

theorem dedent_to_exact_witness:
  "dedent_to 3 (m_position at_end) ((create [])\<lparr> m_indent_values := [8, 4, 0] \<rparr>) = Abort Undefined"
  using dedent_to_exact [of "(create [])\<lparr> m_indent_values := [8, 4, 0] \<rparr>" 3 "m_position at_end"]
  by (simp add: indents_ok_def)

theorem try_read_name_exact_witness:
  "\<exists>l'. try_read_name (create ''ab1 '') = Ok (l', True) \<and> m_cursor l' = 3"
  using try_read_name_exact [of "create ''ab1 ''" "CHR ''a''" "''b1''" "CHR '' ''" "[]"]
  by (auto simp: create_def at_cursor_def text_at_def valid_start_name_def valid_name_def is_alnum_def
      is_alpha_def is_digit_def char_between_def)

end
