(* ===== verification/Slices.thy ===== *)
theory Slices
  imports Numbers
begin

text \<open>
  Slice objects (\<^verbatim>\<open>src/src/runtime/PySlice.cpp\<close>): construction, the two ways the runtime turns
  a slice into positions (\<open>get_indices\<close>; \<open>unpack\<close> followed by \<open>adjust_indices\<close>), and
  the comparison slots. \<^verbatim>\<open>int64_t\<close> values are integers in the range \<open>in_int64\<close>; the one
  expression that can leave it, the negation of the smallest step, is a fault.
  The theorems compare \<open>adjust_indices\<close> with the language definition of slicing, stated as a
  set of positions.
\<close>

section \<open>Slice objects\<close>

record 'f PySlice =
  slice_start :: "'f py_object"
  slice_stop :: "'f py_object"
  slice_step :: "'f py_object"

text \<open>What an index expression can be: an object, or a slice object.\<close>

datatype 'f subscript = Subscript "'f py_object" | SliceSubscript "'f PySlice"

definition empty_slice :: "'f PySlice" where
  "empty_slice = \<lparr>slice_start = PyNone, slice_stop = PyNone, slice_step = PyNone\<rparr>"

definition slice_init :: "'f PySlice \<Rightarrow> 'f py_object list \<Rightarrow> 'f PySlice py_result" where
  "slice_init sl args =
     (if length args = 0 then Err TypeError
      else if length args > 3 then Err TypeError
      else if length args = 1 then Ok (sl\<lparr>slice_stop := args ! 0\<rparr>)
      else Ok (sl\<lparr>slice_start := args ! 0, slice_stop := args ! 1,
                 slice_step := (if length args > 2 then args ! 2 else PyNone)\<rparr>))"

text \<open>\<^verbatim>\<open>as<PyInteger>(o)\<close> or \<^verbatim>\<open>None\<close>; \<open>index_or\<close> reads the field after that check.\<close>

fun is_index_or_none :: "'f py_object \<Rightarrow> bool" where
  "is_index_or_none (PyInteger n) = True"
| "is_index_or_none PyNone = True"
| "is_index_or_none _ = False"

fun index_or :: "int \<Rightarrow> 'f py_object \<Rightarrow> int py_result" where
  "index_or d (PyInteger n) = as_i64 n"
| "index_or d _ = Ok d"

definition unpack :: "'f PySlice \<Rightarrow> (int \<times> int \<times> int) py_result" where
  "unpack sl =
     (if \<not> is_index_or_none (slice_start sl) then Err TypeError
      else if \<not> is_index_or_none (slice_stop sl) then Err TypeError
      else if \<not> is_index_or_none (slice_step sl) then Err TypeError
      else and_then (index_or 1 (slice_step sl)) (\<lambda>step.
        if step = 0 then Err ValueError
        else and_then (index_or (if step < 0 then int64_max else 0) (slice_start sl)) (\<lambda>start.
          and_then (index_or (if step < 0 then int64_min else int64_max) (slice_stop sl)) (\<lambda>stop.
            Ok (start, stop, step)))))"

text \<open>One bound of \<open>adjust_indices\<close>; the C++ text writes it out for \<open>start\<close> and for
  \<open>stop\<close>.\<close>

definition adjust_bound :: "int \<Rightarrow> int \<Rightarrow> int \<Rightarrow> int" where
  "adjust_bound v step len =
     (if v < 0 then
        (let v' = v + len in if v' < 0 then (if step < 0 then - 1 else 0) else v')
      else if v \<ge> len then (if step < 0 then len - 1 else len)
      else v)"

definition adjust_indices :: "int \<Rightarrow> int \<Rightarrow> int \<Rightarrow> int \<Rightarrow> (int \<times> int \<times> int) py_result" where
  "adjust_indices start0 stop0 step len =
     assert_that (step \<noteq> 0)
       (let start = adjust_bound start0 step len; stop = adjust_bound stop0 step len in
        if step < 0 then
          if stop < start then
            if step = int64_min then Abort Undefined
            else Ok (start, stop, (start - stop - 1) sdiv (- step) + 1)
          else Ok (start, stop, 0)
        else
          if start < stop then Ok (start, stop, (stop - start - 1) sdiv step + 1)
          else Ok (start, stop, 0))"

text \<open>\<open>get_indices\<close> clamps a negative bound with \<^verbatim>\<open>std::min\<close> against the lower end.\<close>

definition get_indices_bound :: "'f py_object \<Rightarrow> int \<Rightarrow> int \<Rightarrow> int \<Rightarrow> int \<Rightarrow> int py_result" where
  "get_indices_bound v dflt lower upper len =
     (case v of
        PyInteger n \<Rightarrow>
          and_then (as_i64 n) (\<lambda>v.
            if v < 0 then Ok (min (v + len) lower) else Ok (min v upper))
      | _ \<Rightarrow> Ok dflt)"

definition get_indices :: "'f PySlice \<Rightarrow> int \<Rightarrow> (int \<times> int \<times> int) py_result" where
  "get_indices sl len =
     (if \<not> is_index_or_none (slice_start sl) then Err TypeError
      else if \<not> is_index_or_none (slice_stop sl) then Err TypeError
      else if \<not> is_index_or_none (slice_step sl) then Err TypeError
      else and_then (index_or 1 (slice_step sl)) (\<lambda>step.
        if step = 0 then Err ValueError
        else
          let lower = (if step < 0 then - 1 else 0);
              upper = (if step < 0 then len - 1 else len)
          in and_then (get_indices_bound (slice_start sl) (if step > 0 then lower else upper)
                         lower upper len) (\<lambda>start.
             and_then (get_indices_bound (slice_stop sl) (if step > 0 then upper else lower)
                         lower upper len) (\<lambda>stop.
               Ok (start, stop, step)))))"

text \<open>
  The comparison slots. \<open>cmp\<close> stands for \<^verbatim>\<open>PyObject::richcompare\<close> of a field with the
  \<^emph>\<open>other slice\<close>, which is what the code passes, and returns an object pointer that is never null.
\<close>

definition slice_compare_fields ::
  "('f py_object \<Rightarrow> 'f PySlice \<Rightarrow> 'f py_object py_result) \<Rightarrow> 'f PySlice \<Rightarrow> 'f PySlice
     \<Rightarrow> 'f py_object py_result" where
  "slice_compare_fields cmp sl other =
     and_then (cmp (slice_start sl) other) (\<lambda>_.
     and_then (cmp (slice_stop sl) other) (\<lambda>_.
     and_then (cmp (slice_step sl) other) (\<lambda>_. Ok (PyBool True))))"

definition slice_eq ::
  "('f py_object \<Rightarrow> 'f PySlice \<Rightarrow> 'f py_object py_result) \<Rightarrow> 'f PySlice \<Rightarrow> 'f subscript
     \<Rightarrow> 'f py_object py_result" where
  "slice_eq cmp sl obj =
     (case obj of
        Subscript _ \<Rightarrow> Ok (PyBool False)
      | SliceSubscript other \<Rightarrow> slice_compare_fields cmp sl other)"

definition slice_lt ::
  "('f py_object \<Rightarrow> 'f PySlice \<Rightarrow> 'f py_object py_result) \<Rightarrow> 'f PySlice \<Rightarrow> 'f subscript
     \<Rightarrow> 'f py_object py_result" where
  "slice_lt cmp sl obj =
     (case obj of
        Subscript _ \<Rightarrow> Err TypeError
      | SliceSubscript other \<Rightarrow> slice_compare_fields cmp sl other)"

definition slice_hash :: "'f PySlice \<Rightarrow> int py_result" where
  "slice_hash sl = Err TypeError"

section \<open>What slicing means\<close>

text \<open>
  The language definition: a negative bound counts from the end, both bounds are then brought into
  the sequence (for a negative step the end before the first element is \<open>-1\<close>), and the
  positions are \<open>start\<close>, \<open>start + step\<close>, \dots\ as long as \<open>stop\<close> is not reached.
\<close>

definition clamp :: "int \<Rightarrow> int \<Rightarrow> int \<Rightarrow> int" where
  "clamp lo hi v = max lo (min hi v)"

definition slice_bound :: "int \<Rightarrow> int \<Rightarrow> int \<Rightarrow> int" where
  "slice_bound v step len =
     (let v' = (if v < 0 then v + len else v) in
      if step < 0 then clamp (- 1) (len - 1) v' else clamp 0 len v')"

definition before :: "int \<Rightarrow> int \<Rightarrow> int \<Rightarrow> bool" where
  "before step i stop \<longleftrightarrow> (if step < 0 then stop < i else i < stop)"

text \<open>The number of terms of a progression before its end, for a step that is not zero.\<close>

definition progression_length :: "int \<Rightarrow> int \<Rightarrow> int \<Rightarrow> nat" where
  "progression_length start stop step =
     (if step < 0 then nat ((start - stop + (- step) - 1) div (- step))
      else nat ((stop - start + step - 1) div step))"

definition progression :: "int \<Rightarrow> int \<Rightarrow> int \<Rightarrow> int list" where
  "progression start stop step =
     map (\<lambda>k. start + int k * step) [0 ..< progression_length start stop step]"

lemma le_div_iff_times:
  fixes a s q :: int
  assumes "0 < s"
  shows "q \<le> a div s \<longleftrightarrow> q * s \<le> a"
proof
  assume "q \<le> a div s"
  then have "q * s \<le> a div s * s" using assms by (simp add: mult_right_mono)
  also have "\<dots> \<le> a" using assms by (simp add: minus_mod_eq_div_mult [symmetric])
  finally show "q * s \<le> a" .
next
  assume "q * s \<le> a"
  then have "q * s div s \<le> a div s" using assms by (rule zdiv_mono1)
  then show "q \<le> a div s" using assms by simp
qed

lemma ceiling_count:
  fixes d s :: int
  assumes "0 < s"
  shows "k < nat ((d + s - 1) div s) \<longleftrightarrow> int k * s < d"
proof -
  have "k < nat ((d + s - 1) div s) \<longleftrightarrow> int k + 1 \<le> (d + s - 1) div s"
    by linarith
  also have "\<dots> \<longleftrightarrow> (int k + 1) * s \<le> d + s - 1"
    by (rule le_div_iff_times [OF assms])
  also have "\<dots> \<longleftrightarrow> int k * s < d"
    by (auto simp: distrib_right)
  finally show ?thesis .
qed

lemma less_progression_length:
  assumes "step \<noteq> 0"
  shows "k < progression_length start stop step \<longleftrightarrow> before step (start + int k * step) stop"
proof (cases "step < 0")
  case True
  then show ?thesis
    using ceiling_count [of "- step" k "start - stop"]
    by (auto simp: progression_length_def before_def)
next
  case False
  with assms show ?thesis
    using ceiling_count [of step k "stop - start"]
    by (auto simp: progression_length_def before_def)
qed

lemma length_progression [simp]:
  "length (progression start stop step) = progression_length start stop step"
  by (simp add: progression_def)

lemma nth_progression:
  "k < progression_length start stop step
     \<Longrightarrow> progression start stop step ! k = start + int k * step"
  by (simp add: progression_def)

lemma progression_empty:
  "step \<noteq> 0 \<Longrightarrow> \<not> before step start stop \<Longrightarrow> progression start stop step = []"
  using less_progression_length [of step 0 start stop] by (simp add: progression_def)

lemma progression_Cons:
  assumes "step \<noteq> 0" and "before step start stop"
  shows "progression start stop step = start # progression (start + step) stop step"
proof (rule nth_equalityI)
  have shift: "Suc k < progression_length start stop step
      \<longleftrightarrow> k < progression_length (start + step) stop step" for k
    using assms by (simp add: less_progression_length algebra_simps)
  have pos: "0 < progression_length start stop step"
    using assms by (simp add: less_progression_length)
  show len: "length (progression start stop step) =
      length (start # progression (start + step) stop step)"
    using shift [of "progression_length (start + step) stop step"]
      shift [of "progression_length start stop step - 2"] pos
      shift [of "progression_length (start + step) stop step - 1"]
    by (simp add: not_less) linarith
  fix k assume "k < length (progression start stop step)"
  then show "progression start stop step ! k =
      (start # progression (start + step) stop step) ! k"
    using len by (cases k) (simp_all add: nth_progression algebra_simps)
qed

section \<open>The indices are the ones the language asks for\<close>

lemma adjust_bound_clamps:
  "0 \<le> len \<Longrightarrow> adjust_bound v step len = slice_bound v step len"
  by (simp add: adjust_bound_def slice_bound_def clamp_def Let_def)

lemma sdiv_nonneg: "0 \<le> a \<Longrightarrow> 0 < b \<Longrightarrow> a sdiv b = a div (b :: int)"
  by (cases "a = 0") (simp_all add: signed_divide_int_def)

lemma count_from_quotient:
  fixes d s :: int
  assumes "0 < d" and "0 < s"
  shows "(d - 1) sdiv s + 1 = int (nat ((d + s - 1) div s))"
proof -
  have "d + s - 1 = (d - 1) + s" by simp
  then have "(d + s - 1) div s = (d - 1) div s + 1"
    using assms(2) by (simp only: div_add_self2)
  moreover have "0 \<le> (d - 1) div s" using assms by (simp add: pos_imp_zdiv_nonneg_iff)
  ultimately show ?thesis using assms by (simp add: sdiv_nonneg)
qed

lemma adjust_indices_value:
  fixes start stop step len :: int
  assumes "0 \<le> len" and "step \<noteq> 0" and "step \<noteq> int64_min"
  defines "s \<equiv> slice_bound start step len" and "e \<equiv> slice_bound stop step len"
  shows "adjust_indices start stop step len = Ok (s, e, int (progression_length s e step))"
proof (cases "before step s e")
  case False
  then have "progression_length s e step = 0"
    using progression_empty [OF assms(2) False] length_progression [of s e step] by simp
  with False assms show ?thesis
    by (auto simp: adjust_indices_def adjust_bound_clamps before_def Let_def assert_that_def)
next
  case True
  then show ?thesis
    using assms count_from_quotient [of "s - e" "- step"] count_from_quotient [of "e - s" step]
    by (auto simp: adjust_indices_def adjust_bound_clamps before_def Let_def assert_that_def
        progression_length_def)
qed

lemma positions_in_bounds:
  assumes "0 \<le> len" and "step \<noteq> 0"
    and "k < progression_length (slice_bound start step len) (slice_bound stop step len) step"
  shows "0 \<le> slice_bound start step len + int k * step"
    and "slice_bound start step len + int k * step < len"
proof -
  let ?i = "slice_bound start step len + int k * step"
  have *: "before step ?i (slice_bound stop step len)"
    using assms(2,3) by (simp add: less_progression_length)
  have "0 \<le> ?i \<and> ?i < len"
  proof (cases "step < 0")
    case True
    then have "int k * step \<le> 0" by (simp add: mult_nonneg_nonpos)
    moreover have "slice_bound start step len \<le> len - 1" "- 1 \<le> slice_bound stop step len"
      using True assms(1) by (simp_all add: slice_bound_def clamp_def Let_def)
    ultimately show ?thesis using * True by (simp add: before_def)
  next
    case False
    then have "0 \<le> int k * step" by simp
    moreover have "0 \<le> slice_bound start step len" "slice_bound stop step len \<le> len"
      using False assms(1) by (simp_all add: slice_bound_def clamp_def Let_def)
    ultimately show ?thesis using * False by (simp add: before_def)
  qed
  then show "0 \<le> ?i" and "?i < len" by simp_all
qed

text \<open>
  \<open>slice_positions\<close> is the common first part of the \<^verbatim>\<open>__getitem__\<close> slots of the sequences:
  \<open>unpack\<close>, then \<open>adjust_indices\<close>, then the positions of the copy loop.
\<close>

definition slice_positions :: "'f PySlice \<Rightarrow> int \<Rightarrow> int list py_result" where
  "slice_positions sl len =
     and_then (unpack sl) (\<lambda>(start, stop, step).
       and_then (adjust_indices start stop step len) (\<lambda>(s, e, n).
         Ok (map (\<lambda>k. s + int k * step) [0 ..< nat n])))"

lemma unpack_in_int64: "unpack sl = Ok (start, stop, step) \<Longrightarrow> in_int64 step \<and> step \<noteq> 0"
  by (cases "slice_step sl")
    (auto simp: unpack_def as_i64_def in_int64_def result_simps split: if_splits)

text \<open>The slice \<^verbatim>\<open>[::step]\<close>.\<close>

definition every :: "int \<Rightarrow> 'f PySlice" where
  "every step = \<lparr>slice_start = PyNone, slice_stop = PyNone, slice_step = PyInteger step\<rparr>"

lemma unpack_step:
  "in_int64 step \<Longrightarrow> 0 < step \<Longrightarrow>
     unpack (every step) = Ok (0, int64_max, step)"
  "in_int64 step \<Longrightarrow> step < 0 \<Longrightarrow>
     unpack (every step) = Ok (int64_max, int64_min, step)"
  "unpack empty_slice = Ok (0, int64_max, 1)"
  by (simp_all add: unpack_def as_i64_def assert_that_def empty_slice_def every_def)

lemma slice_positions_value:
  assumes "unpack sl = Ok (start, stop, step)" and "step \<noteq> int64_min" and "0 \<le> len"
  shows "slice_positions sl len =
    Ok (progression (slice_bound start step len) (slice_bound stop step len) step)"
  using assms unpack_in_int64 [OF assms(1)]
  by (simp add: slice_positions_def adjust_indices_value progression_def)

lemma slice_positions_in_bounds:
  assumes "unpack sl = Ok (start, stop, step)" and "step \<noteq> int64_min" and "0 \<le> len"
    and "slice_positions sl len = Ok ps" and "p \<in> set ps"
  shows "0 \<le> p" and "p < len"
  using assms positions_in_bounds [of len step _ start stop] unpack_in_int64 [OF assms(1)]
  by (auto simp: slice_positions_value progression_def)

lemma progression_one: "0 \<le> n \<Longrightarrow> progression 0 n 1 = map int [0 ..< nat n]"
  by (simp add: progression_def progression_length_def)

lemma progression_minus_one: "0 \<le> n \<Longrightarrow> progression (n - 1) (- 1) (- 1) = rev (map int [0 ..< nat n])"
  by (rule nth_equalityI)
    (auto simp: progression_def progression_length_def rev_nth nat_diff_distrib)

section \<open>Properties\<close>

text \<open>For a step that is neither zero nor the smallest 64-bit integer, \<open>adjust_indices\<close>
  returns; the bounds are the ones the language defines, the length it returns counts exactly the
  positions before the end, and every one of those positions is inside the sequence.\<close>

theorem adjust_indices_exact:
  assumes "0 \<le> len" and "step \<noteq> 0" and "step \<noteq> int64_min"
  shows "\<exists>s e n. adjust_indices start stop step len = Ok (s, e, int n) \<and>
    s = slice_bound start step len \<and> e = slice_bound stop step len \<and>
    (\<forall>k. k < n \<longleftrightarrow> before step (s + int k * step) e) \<and>
    (\<forall>k. k < n \<longrightarrow> 0 \<le> s + int k * step \<and> s + int k * step < len)"
  using assms adjust_indices_value [OF assms] less_progression_length [OF assms(2)]
    positions_in_bounds [OF assms(1,2)]
  by blast

theorem adjust_indices_exact_witness:
  "\<exists>s e n. adjust_indices int64_max (- 2) (- 3) 10 = Ok (s, e, int n) \<and>
    s = slice_bound int64_max (- 3) 10 \<and> e = slice_bound (- 2) (- 3) 10 \<and>
    (\<forall>k. k < n \<longleftrightarrow> before (- 3) (s + int k * - 3) e) \<and>
    (\<forall>k. k < n \<longrightarrow> 0 \<le> s + int k * - 3 \<and> s + int k * - 3 < 10)"
  by (rule adjust_indices_exact) simp_all

text \<open>Slices with omitted bounds: with a positive step the positions run from the first
  element towards the end, with a negative one from the last element to the first; in particular
  \<^verbatim>\<open>[:]\<close> selects every position in order and \<^verbatim>\<open>[::-1]\<close> every position in reverse.\<close>

theorem omitted_bounds:
  assumes "0 \<le> len" and "len \<le> int64_max" and "0 < up" and "in_int64 up"
    and "down < 0" and "int64_min < down"
  shows "slice_positions (every up :: 'f PySlice) len
        = Ok (progression 0 len up) \<and>
      slice_positions (every down :: 'f PySlice) len
        = Ok (progression (len - 1) (- 1) down) \<and>
      slice_positions (empty_slice :: 'f PySlice) len = Ok (map int [0 ..< nat len]) \<and>
      slice_positions (every (- 1) :: 'f PySlice) len
        = Ok (rev (map int [0 ..< nat len]))"
proof (intro conjI)
  show "slice_positions (every up :: 'f PySlice) len
      = Ok (progression 0 len up)"
    using assms slice_positions_value [OF unpack_step(1) [of up], of len]
    by (simp add: slice_bound_def clamp_def in_int64_def)
  have down: "slice_positions (every d :: 'f PySlice) len = Ok (progression (len - 1) (- 1) d)"
    if "d < 0" and "int64_min < d" for d
    using assms that slice_positions_value [OF unpack_step(2) [of d], of len]
    by (simp add: slice_bound_def clamp_def in_int64_def)
  show "slice_positions (every down :: 'f PySlice) len
      = Ok (progression (len - 1) (- 1) down)"
    using assms by (intro down)
  show "slice_positions (every (- 1) :: 'f PySlice) len
      = Ok (rev (map int [0 ..< nat len]))"
    using assms down [of "- 1"] by (simp add: progression_minus_one)
  show "slice_positions (empty_slice :: 'f PySlice) len = Ok (map int [0 ..< nat len])"
    using assms slice_positions_value [OF unpack_step(3), of len]
    by (simp add: slice_bound_def clamp_def progression_one)
qed

theorem omitted_bounds_witness:
  "slice_positions (every 2 :: 'f PySlice) 5
     = Ok (progression 0 5 2) \<and>
   slice_positions (every (- 2) :: 'f PySlice) 5
     = Ok (progression 4 (- 1) (- 2)) \<and>
   slice_positions (empty_slice :: 'f PySlice) 5 = Ok (map int [0 ..< 5])"
  using omitted_bounds [where 'f = 'f, of 5 2 "- 2"] by (simp add: in_int64_def)

text \<open>C19: \<open>get_indices\<close> agrees with the language definition for bounds that are not
  negative, but a negative start that lies inside the sequence is replaced by the lower end.\<close>

theorem get_indices_bounds:
  assumes "0 \<le> len" and "in_int64 step" and "step \<noteq> 0" and "in_int64 a" and "in_int64 b"
    and "0 \<le> a" and "0 \<le> b" and "- len \<le> c" and "c < 0" and "in_int64 c"
  shows "get_indices \<lparr>slice_start = PyInteger a, slice_stop = PyInteger b,
        slice_step = PyInteger step\<rparr> len =
      Ok (slice_bound a step len, slice_bound b step len, step) \<and>
    get_indices \<lparr>slice_start = PyInteger c, slice_stop = PyInteger b,
        slice_step = PyInteger step\<rparr> len =
      Ok (if step < 0 then - 1 else 0, slice_bound b step len, step)"
  using assms
  by (auto simp: get_indices_def get_indices_bound_def as_i64_def assert_that_def slice_bound_def
      clamp_def Let_def)

theorem get_indices_bounds_witness:
  "get_indices \<lparr>slice_start = PyInteger 1, slice_stop = PyInteger 9, slice_step = PyInteger 1\<rparr> 5
     = Ok (slice_bound 1 1 5, slice_bound 9 1 5, 1) \<and>
   get_indices \<lparr>slice_start = PyInteger (- 2), slice_stop = PyInteger 9,
       slice_step = PyInteger 1\<rparr> 5
     = Ok (0, slice_bound 9 1 5, 1)"
  using get_indices_bounds [of 5 1 1 9 "- 2"] by (simp add: in_int64_def)

lemma slice_eq_ignores_fields:
  assumes "\<And>v other. is_ok (cmp v other)"
  shows "slice_eq cmp sl (SliceSubscript other) = Ok (PyBool True)"
  using assms [of "slice_start sl" other] assms [of "slice_stop sl" other]
    assms [of "slice_step sl" other]
  by (simp add: slice_eq_def slice_compare_fields_def)
    (metis and_then.simps(1) is_ok.simps(2,3) py_result.exhaust)

end
