(* ===== verification/Ranges.thy ===== *)
theory Ranges
  imports Slices Tagged
begin

text \<open>
  Range objects and their iterators (\<^verbatim>\<open>src/src/runtime/PyRange.cpp\<close>), and the step of a compiled
  \<^verbatim>\<open>for\<close> loop over a range (\<open>rt_iter_next\<close> in \<^verbatim>\<open>src/src/runtime/export/rt_subscr.cpp\<close>).
  The bounds are GMP integers. What a range contains is the arithmetic progression
  \<open>progression\<close> of theory \<open>Slices\<close>; the theorems say what iterating, reversing, indexing
  and slicing the C++ object give in terms of it.
\<close>

section \<open>Range objects\<close>

record PyRange =
  range_start :: int
  range_stop :: int
  range_step :: int

record PyRangeIterator =
  m_pyrange :: PyRange
  m_current_index :: int

fun exact_integer :: "'f py_object \<Rightarrow> int py_result" where
  "exact_integer (PyInteger n) = Ok n"
| "exact_integer _ = Err TypeError"

definition range_new :: "'f py_object list \<Rightarrow> PyRange py_result" where
  "range_new args =
     assert_that (0 < length args \<and> length args < 4)
       (if length args = 1 then
          and_then (exact_integer (args ! 0)) (\<lambda>stop.
            Ok \<lparr>range_start = 0, range_stop = stop, range_step = 1\<rparr>)
        else if length args = 2 then
          and_then (exact_integer (args ! 0)) (\<lambda>start.
          and_then (exact_integer (args ! 1)) (\<lambda>stop.
            Ok \<lparr>range_start = start, range_stop = stop, range_step = 1\<rparr>))
        else if length args = 3 then
          and_then (exact_integer (args ! 0)) (\<lambda>start.
          and_then (exact_integer (args ! 1)) (\<lambda>stop.
          and_then (exact_integer (args ! 2)) (\<lambda>step.
            Ok \<lparr>range_start = start, range_stop = stop, range_step = step\<rparr>)))
        else Abort NotReached)"

definition range_iter :: "PyRange \<Rightarrow> PyRangeIterator" where
  "range_iter r = \<lparr>m_pyrange = r, m_current_index = range_start r\<rparr>"

definition range_reversed :: "PyRange \<Rightarrow> PyRangeIterator py_result" where
  "range_reversed r =
     and_then (mpz_tdiv_q (range_stop r - range_start r) (range_step r)) (\<lambda>n.
       let start = range_start r + (n - 1) * range_step r;
           stop = range_start r - range_step r;
           step = - range_step r
       in Ok (range_iter \<lparr>range_start = start, range_stop = stop, range_step = step\<rparr>))"

definition range_getitem_int :: "PyRange \<Rightarrow> int \<Rightarrow> int py_result" where
  "range_getitem_int r index0 =
     and_then (mpz_tdiv_q (range_stop r - range_start r) (range_step r)) (\<lambda>n.
       let index = (if index0 < 0 then index0 + n else index0) in
       if index \<ge> n then Err IndexError
       else Ok (range_start r + range_step r * index))"

datatype range_item = Element int | SubRange PyRange

definition range_getitem :: "PyRange \<Rightarrow> 'f subscript \<Rightarrow> range_item py_result" where
  "range_getitem r key =
     (case key of
        Subscript obj \<Rightarrow>
          (case as_big_int obj of
             Some v \<Rightarrow>
               if \<not> in_int64 v then Err ValueError
               else and_then (range_getitem_int r v) (\<lambda>x. Ok (Element x))
           | None \<Rightarrow> Err TypeError)
      | SliceSubscript sl \<Rightarrow>
          and_then (unpack sl) (\<lambda>(start0, stop0, step).
            let start = (if start0 = int64_max then - 1 else start0);
                stop = (if stop0 = int64_min \<or> stop0 = int64_max then - 1 else stop0)
            in Ok (SubRange
                 \<lparr>range_start = range_start r + start * range_step r,
                  range_stop = range_start r + stop * range_step r,
                  range_step = step * range_step r\<rparr>)))"

section \<open>Iterators\<close>

definition within_range :: "PyRangeIterator \<Rightarrow> bool" where
  "within_range it \<longleftrightarrow>
     (if range_step (m_pyrange it) < 0 then m_current_index it > range_stop (m_pyrange it)
      else m_current_index it < range_stop (m_pyrange it))"

definition next_fast :: "PyRangeIterator \<Rightarrow> PyRangeIterator \<times> int option" where
  "next_fast it =
     (if within_range it \<and> in_int64 (m_current_index it) then
        (it\<lparr>m_current_index := m_current_index it + range_step (m_pyrange it)\<rparr>,
         Some (m_current_index it))
      else (it, None))"

definition range_next :: "PyRangeIterator \<Rightarrow> PyRangeIterator \<times> int py_result" where
  "range_next it =
     (if within_range it then
        (it\<lparr>m_current_index := m_current_index it + range_step (m_pyrange it)\<rparr>,
         Ok (m_current_index it))
      else (it, Err StopIteration))"

text \<open>The range branch of \<open>rt_iter_next\<close>: \<open>None\<close> is \<^verbatim>\<open>*has_value = false\<close>.\<close>

definition rt_iter_next_range ::
  "'f allocator \<Rightarrow> 'f rt_heap \<Rightarrow> PyRangeIterator
     \<Rightarrow> (PyRangeIterator \<times> 'f rt_heap \<times> rt_value option) py_result" where
  "rt_iter_next_range alloc h it =
     (case next_fast it of
        (it', Some val) \<Rightarrow>
          and_then (from_int_or_box alloc h val) (\<lambda>(h', p). Ok (it', h', Some p))
      | (it', None) \<Rightarrow> Ok (it', h, None))"

text \<open>The results of the first \<open>n\<close> calls.\<close>

primrec next_results :: "nat \<Rightarrow> PyRangeIterator \<Rightarrow> int py_result list" where
  "next_results 0 it = []"
| "next_results (Suc n) it =
     (case range_next it of (it', r) \<Rightarrow> r # next_results n it')"

primrec fast_results :: "nat \<Rightarrow> PyRangeIterator \<Rightarrow> int option list" where
  "fast_results 0 it = []"
| "fast_results (Suc n) it =
     (case next_fast it of (it', r) \<Rightarrow> r # fast_results n it')"

definition range_elements :: "PyRange \<Rightarrow> int list" where
  "range_elements r = progression (range_start r) (range_stop r) (range_step r)"

definition remaining :: "PyRangeIterator \<Rightarrow> int list" where
  "remaining it =
     progression (m_current_index it) (range_stop (m_pyrange it)) (range_step (m_pyrange it))"

section \<open>Iteration\<close>

lemma remaining_step:
  assumes "range_step (m_pyrange it) \<noteq> 0"
  shows "remaining it =
    (if within_range it then
       m_current_index it
         # remaining (it\<lparr>m_current_index := m_current_index it + range_step (m_pyrange it)\<rparr>)
     else [])"
  using assms progression_Cons [of "range_step (m_pyrange it)" "m_current_index it"]
    progression_empty [of "range_step (m_pyrange it)" "m_current_index it"]
  by (simp add: remaining_def within_range_def before_def)

lemma next_results_remaining:
  assumes "range_step (m_pyrange it) \<noteq> 0"
  shows "next_results n it =
    map Ok (take n (remaining it)) @ replicate (n - length (remaining it)) (Err StopIteration)"
  using assms
proof (induction n arbitrary: it)
  case (Suc n)
  show ?case
  proof (cases "within_range it")
    case True
    with Suc show ?thesis
      by (simp add: range_next_def remaining_step [OF Suc.prems])
  next
    case False
    with Suc.IH [OF Suc.prems] show ?thesis
      by (simp add: range_next_def remaining_step [OF Suc.prems])
  qed
qed simp

lemma fast_results_remaining:
  assumes "range_step (m_pyrange it) \<noteq> 0"
  shows "fast_results n it =
    map Some (take n (takeWhile in_int64 (remaining it)))
      @ replicate (n - length (takeWhile in_int64 (remaining it))) None"
  using assms
proof (induction n arbitrary: it)
  case (Suc n)
  show ?case
  proof (cases "within_range it \<and> in_int64 (m_current_index it)")
    case True
    with Suc show ?thesis
      by (simp add: next_fast_def remaining_step [OF Suc.prems])
  next
    case False
    then have *: "takeWhile in_int64 (remaining it) = []"
      by (auto simp: remaining_step [OF Suc.prems])
    with Suc.IH [OF Suc.prems] False show ?thesis
      by (simp add: next_fast_def)
  qed
qed simp

lemma remaining_iter [simp]: "remaining (range_iter r) = range_elements r"
  by (simp add: remaining_def range_iter_def range_elements_def)

section \<open>The length the code computes\<close>

text \<open>
  \<^verbatim>\<open>(stop - start) / step\<close> truncates, so it is the length only when the step divides the distance;
  otherwise it is one short.
\<close>

definition computed_length :: "PyRange \<Rightarrow> nat" where
  "computed_length r =
     (if range_step r dvd range_stop r - range_start r then length (range_elements r)
      else length (range_elements r) - 1)"

lemma sdiv_less_iff:
  fixes d t :: int
  assumes "0 < t"
  shows "k < nat (d sdiv t) \<longleftrightarrow> (int k + 1) * t \<le> d"
proof (cases "0 \<le> d")
  case True
  then show ?thesis
    using assms le_div_iff_times [OF assms, of "int k + 1" d] by (simp add: sdiv_nonneg) linarith
next
  case False
  then have "d sdiv t \<le> 0"
    using assms by (simp add: signed_divide_int_def pos_imp_zdiv_nonneg_iff)
  moreover have "0 < (int k + 1) * t" using assms by simp
  ultimately show ?thesis using False by simp
qed

lemma sdiv_minus_minus: "(- d) sdiv (- t) = d sdiv (t :: int)"
  by (simp add: signed_divide_int_def sgn_minus)

lemma less_truncated_quotient:
  assumes "step \<noteq> 0"
  shows "k < nat ((stop - start) sdiv step) \<longleftrightarrow>
    (if step < 0 then stop \<le> start + (int k + 1) * step else start + (int k + 1) * step \<le> stop)"
  using assms sdiv_less_iff [of step k "stop - start"] sdiv_less_iff [of "- step" k "start - stop"]
    sdiv_minus_minus [of "start - stop" "- step"]
  by auto

lemma nat_eqI_less: "(\<And>k. k < a \<longleftrightarrow> k < b) \<Longrightarrow> a = (b :: nat)"
  by (metis less_irrefl linorder_neqE_nat)

lemma truncated_quotient:
  assumes "step \<noteq> 0"
  shows "nat ((stop - start) sdiv step) =
    (if step dvd stop - start then progression_length start stop step
     else progression_length start stop step - 1)"
proof (cases "step dvd stop - start")
  case True
  then obtain q where q: "stop = start + q * step"
    by (metis add.commute diff_add_cancel dvdE mult.commute)
  have "k < nat ((stop - start) sdiv step) \<longleftrightarrow> k < progression_length start stop step" for k
    unfolding less_truncated_quotient [OF assms] less_progression_length [OF assms] before_def q
    using assms by (auto simp: mult_le_cancel_right mult_less_cancel_right)
  then have "nat ((stop - start) sdiv step) = progression_length start stop step"
    by (rule nat_eqI_less)
  with True show ?thesis by simp
next
  case False
  have "k < nat ((stop - start) sdiv step) \<longleftrightarrow> k < progression_length start stop step - 1" for k
  proof -
    have "start + (int k + 1) * step \<noteq> stop" using False by auto
    moreover have "k < progression_length start stop step - 1
        \<longleftrightarrow> before step (start + (int k + 1) * step) stop"
      using less_progression_length [OF assms, of "Suc k" start stop]
      by (simp add: less_diff_conv add.commute)
    ultimately show ?thesis
      unfolding less_truncated_quotient [OF assms] before_def by (auto simp: less_le)
  qed
  then have "nat ((stop - start) sdiv step) = progression_length start stop step - 1"
    by (rule nat_eqI_less)
  with False show ?thesis by simp
qed

lemma computed_length:
  assumes "range_step r \<noteq> 0"
  shows "nat ((range_stop r - range_start r) sdiv range_step r) = computed_length r"
  using truncated_quotient [OF assms] by (simp add: computed_length_def range_elements_def)

lemma nth_range_elements:
  "k < length (range_elements r) \<Longrightarrow> range_elements r ! k = range_start r + int k * range_step r"
  by (simp add: range_elements_def nth_progression)

lemma take_range_elements:
  "n \<le> length (range_elements r) \<Longrightarrow>
     take n (range_elements r) = map (\<lambda>k. range_start r + int k * range_step r) [0 ..< n]"
  by (simp add: range_elements_def progression_def take_map)

lemma computed_length_le: "computed_length r \<le> length (range_elements r)"
  by (simp add: computed_length_def)

lemma progression_reversed:
  assumes "step \<noteq> 0"
  shows "progression (start + (n - 1) * step) (start - step) (- step) =
    rev (map (\<lambda>k. start + int k * step) [0 ..< nat n])"
proof (rule nth_equalityI)
  have "progression_length (start + (n - 1) * step) (start - step) (- step) = nat n"
  proof (rule nat_eqI_less)
    fix k
    have eq: "(start + (n - 1) * step + int k * - step) - (start - step) = (n - int k) * step"
      by (simp add: algebra_simps)
    have "before (- step) (start + (n - 1) * step + int k * - step) (start - step) \<longleftrightarrow>
        (if 0 < step then 0 < (n - int k) * step else (n - int k) * step < 0)"
      unfolding before_def eq [symmetric] using assms by auto
    also have "\<dots> \<longleftrightarrow> k < nat n"
      using assms by (auto simp: zero_less_mult_iff mult_less_0_iff)
    finally show "k < progression_length (start + (n - 1) * step) (start - step) (- step)
        \<longleftrightarrow> k < nat n"
      using assms by (simp only: less_progression_length neg_equal_0_iff_equal simp_thms)
  qed
  then show len: "length (progression (start + (n - 1) * step) (start - step) (- step)) =
      length (rev (map (\<lambda>k. start + int k * step) [0 ..< nat n]))"
    by simp
  fix k assume "k < length (progression (start + (n - 1) * step) (start - step) (- step))"
  then show "progression (start + (n - 1) * step) (start - step) (- step) ! k =
      rev (map (\<lambda>k. start + int k * step) [0 ..< nat n]) ! k"
    using len by (auto simp: nth_progression rev_nth of_nat_diff algebra_simps)
qed

lemma progression_scaled:
  assumes "c \<noteq> 0" and "t \<noteq> 0"
  shows "progression (s + a * t) (s + b * t) (c * t) = map (\<lambda>i. s + i * t) (progression a b c)"
proof (rule nth_equalityI)
  have "progression_length (s + a * t) (s + b * t) (c * t) = progression_length a b c"
  proof (rule nat_eqI_less)
    fix k
    have "k < progression_length (s + a * t) (s + b * t) (c * t) \<longleftrightarrow>
        (if c * t < 0 then b * t < (a + int k * c) * t else (a + int k * c) * t < b * t)"
      using assms by (simp add: less_progression_length before_def algebra_simps)
    also have "\<dots> \<longleftrightarrow> (if c < 0 then b < a + int k * c else a + int k * c < b)"
      using assms by (auto simp: mult_less_cancel_right mult_less_0_iff)
    also have "\<dots> \<longleftrightarrow> k < progression_length a b c"
      using assms by (simp add: less_progression_length before_def)
    finally show "k < progression_length (s + a * t) (s + b * t) (c * t)
      \<longleftrightarrow> k < progression_length a b c" .
  qed
  then show len: "length (progression (s + a * t) (s + b * t) (c * t)) =
      length (map (\<lambda>i. s + i * t) (progression a b c))"
    by simp
  fix k assume "k < length (progression (s + a * t) (s + b * t) (c * t))"
  then show "progression (s + a * t) (s + b * t) (c * t) ! k =
      map (\<lambda>i. s + i * t) (progression a b c) ! k"
    using len by (simp add: nth_progression algebra_simps)
qed

lemma from_int_or_box_spec:
  assumes "alloc_ok alloc" and "heap_ok h"
  shows "alloc_or alloc h 0 (\<lambda>(h', p). heap_ok h' \<and> grows 1 h h' \<and> denote h' p = Some v)
    (from_int_or_box alloc h v)"
proof (cases "fits_tagged_int v")
  case True
  then show ?thesis
    using assms
    by (simp add: from_int_or_box_def denote_from_int)
next
  case False
  have "alloc_or alloc h 0 (\<lambda>(h', p). heap_ok h' \<and> grows 1 h h' \<and> denote h' p = Some v)
      (PyInteger_create alloc h v)"
    by (rule alloc_or_mono [OF PyInteger_create_spec [OF assms]])
      (auto simp: denote_def is_tagged_int_def heap_ok_def)
  with False show ?thesis by (simp add: from_int_or_box_def alloc_or_unwrap)
qed

section \<open>Properties\<close>

text \<open>Iterating over a range with a step other than zero yields exactly the terms of the
  arithmetic progression, in order, and then \<^verbatim>\<open>StopIteration\<close> on every further call; the
  \<^verbatim>\<open>next_fast\<close> path of compiled loops yields the same terms up to the first one that does not fit
  64 bits, and nothing after that.\<close>

theorem range_iteration:
  assumes "range_step r \<noteq> 0"
  shows "next_results n (range_iter r) =
      map Ok (take n (range_elements r))
        @ replicate (n - length (range_elements r)) (Err StopIteration) \<and>
    fast_results n (range_iter r) =
      map Some (take n (takeWhile in_int64 (range_elements r)))
        @ replicate (n - length (takeWhile in_int64 (range_elements r))) None"
  using assms next_results_remaining [of "range_iter r" n]
    fast_results_remaining [of "range_iter r" n]
  by (simp add: range_iter_def [of r] remaining_iter [of r, unfolded range_iter_def])

theorem range_iteration_witness:
  "let r = \<lparr>range_start = 1, range_stop = 8, range_step = 3\<rparr> in
   next_results 5 (range_iter r) =
      map Ok (take 5 (range_elements r))
        @ replicate (5 - length (range_elements r)) (Err StopIteration) \<and>
   fast_results 5 (range_iter r) =
      map Some (take 5 (takeWhile in_int64 (range_elements r)))
        @ replicate (5 - length (takeWhile in_int64 (range_elements r))) None"
  using range_iteration [of "\<lparr>range_start = 1, range_stop = 8, range_step = 3\<rparr>" 5]
  by (simp add: Let_def)

text \<open>\<^verbatim>\<open>reversed\<close> of a range iterates over its elements backwards when the step divides the
  distance between the bounds; when it does not, the last element is missing.\<close>

theorem range_reversed_exact:
  assumes "range_step r \<noteq> 0"
  shows "\<exists>r'. range_reversed r = Ok (range_iter r') \<and> range_step r' \<noteq> 0 \<and>
    range_elements r' =
      rev (if range_step r dvd range_stop r - range_start r then range_elements r
           else butlast (range_elements r))"
proof -
  let ?n = "(range_stop r - range_start r) sdiv range_step r"
  have "rev (map (\<lambda>k. range_start r + int k * range_step r) [0 ..< nat ?n]) =
      rev (take (computed_length r) (range_elements r))"
    using computed_length [OF assms] computed_length_le [of r] by (simp add: take_range_elements)
  also have "take (computed_length r) (range_elements r) =
      (if range_step r dvd range_stop r - range_start r then range_elements r
       else butlast (range_elements r))"
    by (simp add: computed_length_def butlast_conv_take)
  finally show ?thesis
    using assms progression_reversed [OF assms, of "range_start r" ?n]
    by (auto simp: range_reversed_def mpz_tdiv_q_def range_elements_def Let_def)
qed

theorem range_reversed_exact_witness:
  "\<exists>r'. range_reversed \<lparr>range_start = 0, range_stop = 5, range_step = 2\<rparr> = Ok (range_iter r') \<and>
     range_step r' \<noteq> 0 \<and> range_elements r' = [2, 0]"
  using range_reversed_exact [of "\<lparr>range_start = 0, range_stop = 5, range_step = 2\<rparr>"]
  by (simp add: range_elements_def progression_def progression_length_def upt_rec)

text \<open>Indexing a range with an integer: within the computed length the result is that element,
  negative indices counting from that length; an index at or above it is an \<^verbatim>\<open>IndexError\<close>. An index
  below the first element is \<^emph>\<open>not\<close> rejected.\<close>

theorem range_getitem_exact:
  assumes "range_step r \<noteq> 0" and "in_int64 i"
  defines "m \<equiv> int (computed_length r)"
  shows "(0 \<le> i \<and> i < m \<longrightarrow>
        range_getitem r (Subscript (PyInteger i)) = Ok (Element (range_elements r ! nat i))) \<and>
      (i < 0 \<and> - m \<le> i \<longrightarrow>
        range_getitem r (Subscript (PyInteger i)) =
          Ok (Element (range_elements r ! nat (m + i)))) \<and>
      (m \<le> i \<and> 0 \<le> i \<longrightarrow> range_getitem r (Subscript (PyInteger i)) = Err IndexError) \<and>
      (i < - m \<longrightarrow> is_ok (range_getitem r (Subscript (PyInteger i))))"
proof -
  let ?n = "(range_stop r - range_start r) sdiv range_step r"
  have n: "nat ?n = computed_length r" by (rule computed_length [OF assms(1)])
  have get: "range_getitem r (Subscript (PyInteger i)) =
      (let j = (if i < 0 then i + ?n else i) in
       if j \<ge> ?n then Err IndexError else Ok (Element (range_start r + range_step r * j)))"
    using assms by (simp add: range_getitem_def range_getitem_int_def mpz_tdiv_q_def Let_def)
  have nth: "range_elements r ! nat j = range_start r + range_step r * j"
    if "0 \<le> j" and "j < m" for j
    using that computed_length_le [of r] nth_range_elements [of "nat j" r]
    by (simp add: m_def mult.commute)
  show ?thesis
    using n nth [of i] nth [of "m + i"] by (auto simp: get Let_def m_def add.commute)
qed

theorem range_getitem_exact_witness:
  "range_getitem \<lparr>range_start = 10, range_stop = 40, range_step = 10\<rparr>
       (Subscript (PyInteger (- 1))) = Ok (Element 30)"
  using range_getitem_exact [of "\<lparr>range_start = 10, range_stop = 40, range_step = 10\<rparr>" "- 1"]
  by (simp add: in_int64_def computed_length_def range_elements_def progression_def
      progression_length_def upt_rec)

text \<open>A slice of a range with explicit bounds is the range of the elements at the positions of
  the slice, counted from the first element without clamping to the end.\<close>

theorem range_slice_exact:
  assumes "range_step r \<noteq> 0" and "step \<noteq> 0" and "in_int64 start" and "in_int64 stop"
    and "in_int64 step" and "start \<noteq> int64_max" and "stop \<noteq> int64_max" and "stop \<noteq> int64_min"
  shows "\<exists>r'. range_getitem r (SliceSubscript \<lparr>slice_start = PyInteger start,
      slice_stop = PyInteger stop, slice_step = PyInteger step\<rparr>) = Ok (SubRange r') \<and>
    range_elements r' =
      map (\<lambda>i. range_start r + i * range_step r) (progression start stop step)"
  using assms
  by (auto simp: range_getitem_def unpack_def as_i64_def assert_that_def range_elements_def
      progression_scaled Let_def)

theorem range_slice_exact_witness:
  "\<exists>r'. range_getitem \<lparr>range_start = 10, range_stop = 40, range_step = 10\<rparr>
      (SliceSubscript \<lparr>slice_start = PyInteger 0, slice_stop = PyInteger 3,
        slice_step = PyInteger 2\<rparr>) = Ok (SubRange r') \<and>
    range_elements r' = map (\<lambda>i. 10 + i * 10) (progression 0 3 2)"
  using range_slice_exact [of "\<lparr>range_start = 10, range_stop = 40, range_step = 10\<rparr>" 2 0 3]
  by (simp add: in_int64_def)

text \<open>One step of a compiled \<^verbatim>\<open>for\<close> loop over a range: while the current index is in the
  range and fits 64 bits, the loop variable becomes a word that denotes exactly that index (tagged
  or boxed), and the iterator moves on by the step; otherwise the loop ends, also when the index is
  still in the range but needs more than 64 bits.\<close>

theorem rt_iter_next_range_exact:
  assumes "alloc_ok alloc" and "heap_ok h"
  shows "(within_range it \<and> in_int64 (m_current_index it) \<longrightarrow>
      alloc_or alloc h 0
        (\<lambda>(it', h', w). heap_ok h' \<and> grows 1 h h' \<and>
           it' = it\<lparr>m_current_index := m_current_index it + range_step (m_pyrange it)\<rparr> \<and>
           (\<exists>p. w = Some p \<and> denote h' p = Some (m_current_index it)))
        (rt_iter_next_range alloc h it)) \<and>
    (\<not> (within_range it \<and> in_int64 (m_current_index it)) \<longrightarrow>
      rt_iter_next_range alloc h it = Ok (it, h, None))"
proof -
  let ?v = "m_current_index it"
  have word: "alloc_or alloc h 0 (\<lambda>(h', p). heap_ok h' \<and> grows 1 h h' \<and> denote h' p = Some ?v)
      (from_int_or_box alloc h ?v)"
    using assms by (rule from_int_or_box_spec)
  show ?thesis
    using assms(2)
    by (auto simp: rt_iter_next_range_def next_fast_def intro!: alloc_or_and_then [OF word])
qed

theorem rt_iter_next_range_exact_witness:
  "let it = range_iter \<lparr>range_start = 2, range_stop = 9, range_step = 3\<rparr> in
   alloc_or demo_alloc demo_heap 0
     (\<lambda>(it', h', w). heap_ok h' \<and> grows 1 demo_heap h' \<and>
        it' = it\<lparr>m_current_index := 5\<rparr> \<and> (\<exists>p. w = Some p \<and> denote h' p = Some 2))
     (rt_iter_next_range demo_alloc demo_heap it)"
  using rt_iter_next_range_exact [OF demo,
      of "range_iter \<lparr>range_start = 2, range_stop = 9, range_step = 3\<rparr>"]
  by (simp add: range_iter_def within_range_def in_int64_def Let_def)

end
