(* ===== verification/Lists.thy ===== *)
theory Lists
  imports Slices Tagged
begin

text \<open>
  List objects (\<^verbatim>\<open>src/src/runtime/PyList.hpp\<close>, \<^verbatim>\<open>PyList.cpp\<close>). A list keeps its elements in one
  of two ways: a vector of words with a gap of unused cells at the front (so that inserting at the
  front is cheap), or, while every element is \<^verbatim>\<open>True\<close> or \<^verbatim>\<open>False\<close>, a vector of bytes. Both are
  modelled field by field; \<open>contents\<close> is the sequence of words a Python program sees, and the
  theorems show each operation on the fields to be the expected operation on \<open>contents\<close>.

  An operation returns the new object together with its result, because several of them change the
  storage even when they report an error. Elements are the words of theory \<open>Tagged\<close>; where the code
  boxes a result with \<^verbatim>\<open>PyObject::from\<close>, the model returns the word. Sizes are natural numbers
  (a vector is far shorter than \<open>2 ^ 63\<close>); vector accesses out of range are \<open>Undefined\<close>.
\<close>

section \<open>Storage\<close>

record PyList =
  m_elements :: "rt_value list"
  m_bool_elements :: "8 word list"
  m_front_offset :: nat
  m_bool_storage :: bool

type_synonym 'a list_op = "PyList \<times> 'a py_result"

definition exact_bool_value :: "'f rt_heap \<Rightarrow> rt_value \<Rightarrow> int" where
  "exact_bool_value h value =
     (if \<not> is_heap_object value then - 1
      else if value = bool_ptr h True then 1
      else if value = bool_ptr h False then 0
      else - 1)"

definition list_create :: "rt_value list \<Rightarrow> PyList" where
  "list_create elements =
     \<lparr>m_elements = elements, m_bool_elements = [], m_front_offset = 0, m_bool_storage = False\<rparr>"

definition create_bool_filled :: "nat \<Rightarrow> bool \<Rightarrow> PyList" where
  "create_bool_filled count value =
     (list_create [])\<lparr>m_bool_storage := True, m_bool_elements := replicate count (of_bool value)\<rparr>"

definition logical_size :: "PyList \<Rightarrow> nat" where
  "logical_size l =
     (if m_bool_storage l then length (m_bool_elements l)
      else length (m_elements l) - m_front_offset l)"

definition promote_bool_storage :: "'f rt_heap \<Rightarrow> PyList \<Rightarrow> PyList" where
  "promote_bool_storage h l =
     (if \<not> m_bool_storage l then l
      else \<lparr>m_elements = map (\<lambda>b. bool_ptr h (b \<noteq> 0)) (m_bool_elements l), m_bool_elements = [],
            m_front_offset = 0, m_bool_storage = False\<rparr>)"

definition normalize_storage :: "'f rt_heap \<Rightarrow> PyList \<Rightarrow> PyList" where
  "normalize_storage h l0 =
     (let l = promote_bool_storage h l0 in
      if m_front_offset l = 0 then l
      else if m_front_offset l \<ge> length (m_elements l) then l\<lparr>m_elements := [], m_front_offset := 0\<rparr>
      else l\<lparr>m_elements := drop (m_front_offset l) (m_elements l), m_front_offset := 0\<rparr>)"

definition vector_at :: "'a list \<Rightarrow> nat \<Rightarrow> 'a py_result" where
  "vector_at xs i = (if i < length xs then Ok (xs ! i) else Abort Undefined)"

definition unchecked_value_at :: "'f rt_heap \<Rightarrow> PyList \<Rightarrow> nat \<Rightarrow> rt_value py_result" where
  "unchecked_value_at h l index =
     (if m_bool_storage l then
        and_then (vector_at (m_bool_elements l) index) (\<lambda>b. Ok (bool_ptr h (b \<noteq> 0)))
      else vector_at (m_elements l) (m_front_offset l + index))"

definition push_front_raw :: "'f rt_heap \<Rightarrow> PyList \<Rightarrow> rt_value \<Rightarrow> PyList" where
  "push_front_raw h l0 value =
     (if m_bool_storage l0 \<and> exact_bool_value h value \<ge> 0 then
        l0\<lparr>m_bool_elements := word_of_int (exact_bool_value h value) # m_bool_elements l0\<rparr>
      else
        let l = promote_bool_storage h l0 in
        if m_front_offset l > 0 then
          l\<lparr>m_front_offset := m_front_offset l - 1,
            m_elements := (m_elements l)[m_front_offset l - 1 := value]\<rparr>
        else
          let current_size = logical_size l; slack = max 16 (current_size div 2 + 1) in
          l\<lparr>m_elements := replicate slack 0 @ [value] @ drop (m_front_offset l) (m_elements l),
            m_front_offset := slack\<rparr>)"

definition append_raw :: "'f rt_heap \<Rightarrow> PyList \<Rightarrow> rt_value \<Rightarrow> PyList" where
  "append_raw h l0 value =
     (if m_bool_storage l0 \<and> exact_bool_value h value \<ge> 0 then
        l0\<lparr>m_bool_elements := m_bool_elements l0 @ [word_of_int (exact_bool_value h value)]\<rparr>
      else
        let l = promote_bool_storage h l0 in l\<lparr>m_elements := m_elements l @ [value]\<rparr>)"

definition pop_back_raw :: "'f rt_heap \<Rightarrow> PyList \<Rightarrow> rt_value list_op" where
  "pop_back_raw h l =
     (if logical_size l = 0 then (l, Abort Assertion)
      else if m_bool_storage l then
        (l\<lparr>m_bool_elements := butlast (m_bool_elements l)\<rparr>,
         Ok (bool_ptr h (last (m_bool_elements l) \<noteq> 0)))
      else
        let value = last (m_elements l); els = butlast (m_elements l) in
        (if m_front_offset l \<ge> length els then l\<lparr>m_elements := [], m_front_offset := 0\<rparr>
         else l\<lparr>m_elements := els\<rparr>,
         Ok value))"

definition insert_raw_clamped :: "'f rt_heap \<Rightarrow> PyList \<Rightarrow> int \<Rightarrow> rt_value \<Rightarrow> PyList" where
  "insert_raw_clamped h l index0 value =
     (let size = int (logical_size l);
          index1 = (if index0 < 0 then (if index0 + size < 0 then 0 else index0 + size) else index0);
          index = (if index1 > size then size else index1)
      in if index = 0 then push_front_raw h l value
         else if index = size then append_raw h l value
         else let l' = normalize_storage h l; i = nat index in
           l'\<lparr>m_elements := take i (m_elements l') @ [value] @ drop i (m_elements l')\<rparr>)"

text \<open>Returns whether the byte storage took the value; if not, the storage has been promoted.\<close>

definition set_bool_storage_item :: "'f rt_heap \<Rightarrow> PyList \<Rightarrow> nat \<Rightarrow> rt_value \<Rightarrow> PyList \<times> bool" where
  "set_bool_storage_item h l index value =
     (if \<not> m_bool_storage l then (l, False)
      else if exact_bool_value h value < 0 then (promote_bool_storage h l, False)
      else (l\<lparr>m_bool_elements := (m_bool_elements l)[index := word_of_int (exact_bool_value h value)]\<rparr>,
            True))"

section \<open>Methods\<close>

definition list_append :: "'f rt_heap \<Rightarrow> PyList \<Rightarrow> rt_value \<Rightarrow> unit list_op" where
  "list_append h l element = (append_raw h l element, Ok ())"

text \<open>
  Running an iterator is summarised by the values it yields and the exception that ends it;
  \<open>drain\<close> is the common \<^verbatim>\<open>while (value.is_ok())\<close> loop.
\<close>

type_synonym iteration = "rt_value list \<times> py_exception"

definition drain :: "'f rt_heap \<Rightarrow> PyList \<Rightarrow> rt_value list \<Rightarrow> PyList" where
  "drain h l vals = fold (\<lambda>v l. append_raw h l v) vals l"

definition list_new :: "'f rt_heap \<Rightarrow> iteration option \<Rightarrow> PyList py_result" where
  "list_new h iterable =
     (case iterable of
        None \<Rightarrow> Ok (list_create [])
      | Some (vals, stop) \<Rightarrow>
          let els = drain h (list_create []) vals in
          if stop \<noteq> StopIteration then Err stop else Ok els)"

definition list_extend :: "'f rt_heap \<Rightarrow> PyList \<Rightarrow> iteration \<Rightarrow> unit list_op" where
  "list_extend h l iterable =
     (case iterable of (vals, stop) \<Rightarrow>
        let tmp_list = drain h (list_create []) vals in
        if stop \<noteq> StopIteration then (l, Err stop)
        else (drain h l (m_elements (normalize_storage h tmp_list)), Ok ()))"

text \<open>\<^verbatim>\<open>std::abs\<close> of an \<^verbatim>\<open>int64_t\<close> is undefined for the smallest value.\<close>

definition abs_i64 :: "int \<Rightarrow> nat py_result" where
  "abs_i64 i = (if i = int64_min then Abort Undefined else Ok (nat \<bar>i\<bar>))"

definition pop_index :: "int \<Rightarrow> nat \<Rightarrow> nat py_result" where
  "pop_index idx_value len =
     and_then
       (if idx_value < 0 then
          and_then (abs_i64 idx_value) (\<lambda>d. if d > len then Err IndexError else Ok (len - d))
        else Ok (nat idx_value))
       (\<lambda>idx. if idx \<ge> len then Err IndexError else Ok idx)"

definition pop_at :: "'f rt_heap \<Rightarrow> PyList \<Rightarrow> nat \<Rightarrow> rt_value list_op" where
  "pop_at h l idx =
     (case unchecked_value_at h l idx of
        Ok el \<Rightarrow>
          if idx + 1 = logical_size l then (fst (pop_back_raw h l), Ok el)
          else let l' = normalize_storage h l in
            (l'\<lparr>m_elements := take idx (m_elements l') @ drop (Suc idx) (m_elements l')\<rparr>, Ok el)
      | Err e \<Rightarrow> (l, Err e)
      | Abort f \<Rightarrow> (l, Abort f))"

definition list_pop :: "'f rt_heap \<Rightarrow> PyList \<Rightarrow> 'f py_object option \<Rightarrow> rt_value list_op" where
  "list_pop h l index =
     (if logical_size l = 0 then (l, Err IndexError)
      else case index of
        Some (PyInteger n) \<Rightarrow>
          (case and_then (as_i64 n) (\<lambda>i. pop_index i (logical_size l)) of
             Ok idx \<Rightarrow> pop_at h l idx
           | Err e \<Rightarrow> (l, Err e)
           | Abort f \<Rightarrow> (l, Abort f))
      | Some _ \<Rightarrow> (l, Err TypeError)
      | None \<Rightarrow>
          (case unchecked_value_at h l (logical_size l - 1) of
             Ok el \<Rightarrow> (fst (pop_back_raw h l), Ok el)
           | Err e \<Rightarrow> (l, Err e)
           | Abort f \<Rightarrow> (l, Abort f)))"

definition list_insert :: "'f rt_heap \<Rightarrow> PyList \<Rightarrow> int \<Rightarrow> rt_value \<Rightarrow> unit list_op" where
  "list_insert h l index0 value =
     (let size = int (logical_size l);
          index1 = (if index0 < 0 then (if index0 + size < 0 then 0 else index0 + size) else index0);
          index = (if index1 > size then size else index1)
      in if index = 0 then (push_front_raw h l value, Ok ())
         else if index = size then (append_raw h l value, Ok ())
         else if \<not> in_uint64 index then (l, Abort Assertion)
         else (insert_raw_clamped h l (to_int64 index) value, Ok ()))"

definition list_getitem_int :: "'f rt_heap \<Rightarrow> PyList \<Rightarrow> int \<Rightarrow> rt_value py_result" where
  "list_getitem_int h l index0 =
     (let size = logical_size l in
      and_then
        (if index0 < 0 then
           and_then (abs_i64 index0) (\<lambda>d.
             if d > size then Err IndexError else Ok (index0 + int size))
         else Ok index0)
        (\<lambda>index. assert_that (index \<ge> 0)
          (if nat index \<ge> size then Err IndexError else unchecked_value_at h l (nat index))))"

definition list_setitem_int :: "'f rt_heap \<Rightarrow> PyList \<Rightarrow> int \<Rightarrow> rt_value \<Rightarrow> unit list_op" where
  "list_setitem_int h l index0 value =
     (let size = logical_size l; index = (if index0 < 0 then index0 + int size else index0) in
      if index < 0 \<or> nat index \<ge> size then (l, Err IndexError)
      else case set_bool_storage_item h l (nat index) value of
        (l', True) \<Rightarrow> (l', Ok ())
      | (l', False) \<Rightarrow>
          let l2 = promote_bool_storage h l'; i = m_front_offset l2 + nat index in
          (l2\<lparr>m_elements := (m_elements l2)[i := value]\<rparr>, Ok ()))"

text \<open>The lambda \<open>validate_index\<close> of \<open>__delitem__\<close> and \<open>__setitem__\<close>; the index may equal
  the size.\<close>

definition validate_index :: "nat \<Rightarrow> int \<Rightarrow> nat py_result" where
  "validate_index len index_value =
     (if index_value \<ge> 0 then
        assert_that (in_uint64 index_value)
          (let index = nat index_value in if index > len then Err IndexError else Ok index)
      else
        assert_that (in_int64 index_value)
          (and_then (abs_i64 index_value) (\<lambda>d. if d > len then Err IndexError else Ok (len - d))))"

text \<open>\<^verbatim>\<open>erase\<close> of one position of a vector, and of a range of positions.\<close>

definition erase_at :: "'a list \<Rightarrow> nat \<Rightarrow> 'a list py_result" where
  "erase_at xs i = (if i < length xs then Ok (take i xs @ drop (Suc i) xs) else Abort Undefined)"

definition erase_range :: "'a list \<Rightarrow> int \<Rightarrow> int \<Rightarrow> 'a list py_result" where
  "erase_range xs i j =
     (if 0 \<le> i \<and> i \<le> j \<and> j \<le> int (length xs) then Ok (take (nat i) xs @ drop (nat j) xs)
      else Abort Undefined)"

definition delete_index :: "rt_value list \<Rightarrow> int \<Rightarrow> rt_value list py_result" where
  "delete_index els index_value =
     and_then (validate_index (length els) index_value) (\<lambda>i. erase_at els i)"

text \<open>The two loops of \<open>__delitem__\<close>: \<open>idx\<close> falls back by one after each deletion.\<close>

function delete_up :: "rt_value list \<Rightarrow> int \<Rightarrow> int \<Rightarrow> int \<Rightarrow> rt_value list py_result" where
  "delete_up els idx stop step =
     (if idx < stop \<and> 0 < step then
        and_then (delete_index els idx) (\<lambda>els'. delete_up els' (idx - 1 + step) (stop - 1) step)
      else Ok els)"
  by pat_completeness auto
termination
  by (relation "measure (\<lambda>(els, idx, stop, step). nat (stop - idx))") auto

function delete_down :: "rt_value list \<Rightarrow> int \<Rightarrow> int \<Rightarrow> int \<Rightarrow> rt_value list py_result" where
  "delete_down els idx stop step =
     (if idx > stop \<and> step < 0 then
        and_then (delete_index els idx) (\<lambda>els'. delete_down els' (idx + step) stop step)
      else Ok els)"
  by pat_completeness auto
termination
  by (relation "measure (\<lambda>(els, idx, stop, step). nat (idx - stop))") auto

declare delete_up.simps [simp del] delete_down.simps [simp del]

text \<open>How \<open>__delitem__\<close> and \<open>__setitem__\<close> rewrite the bounds of \<open>unpack\<close>: the second
  conditional puts \<open>start\<close>, not \<open>stop\<close>, in its last branch.\<close>

definition assignment_bounds :: "int \<Rightarrow> int \<times> int \<times> int \<Rightarrow> int \<times> int \<times> int" where
  "assignment_bounds len bounds =
     (case bounds of (start0, stop0, step) \<Rightarrow>
        let start = (if start0 = int64_max then len - 1 else start0);
            stop = (if stop0 = int64_min then len - 1 else start)
        in (start, stop, step))"

definition delitem_slice :: "rt_value list \<Rightarrow> 'f PySlice \<Rightarrow> rt_value list py_result" where
  "delitem_slice els sl =
     and_then (unpack sl) (\<lambda>bounds.
       case assignment_bounds (int (length els)) bounds of (start0, stop0, step) \<Rightarrow>
       if step = 0 then Err ValueError
       else
         and_then (validate_index (length els) start0) (\<lambda>start_index.
         and_then (validate_index (length els) stop0) (\<lambda>stop_index.
           let start = int start_index; stop = int stop_index in
           if step > 0 then
             if start > stop then Ok els
             else if step = 1 then erase_range els start stop
             else delete_up els start stop step
           else
             if stop \<ge> start then Ok els
             else delete_down els (start - 1) stop step)))"

text \<open>Write back the elements a computation on the vector returns; errors leave them alone.\<close>

definition store_elements :: "PyList \<Rightarrow> rt_value list py_result \<Rightarrow> unit list_op" where
  "store_elements l r =
     (case r of
        Ok els \<Rightarrow> (l\<lparr>m_elements := els\<rparr>, Ok ())
      | Err e \<Rightarrow> (l, Err e)
      | Abort f \<Rightarrow> (l, Abort f))"

definition list_delitem :: "'f rt_heap \<Rightarrow> PyList \<Rightarrow> 'f subscript \<Rightarrow> unit list_op" where
  "list_delitem h l0 key =
     (let l = normalize_storage h l0 in
      case key of
        SliceSubscript sl \<Rightarrow> store_elements l (delitem_slice (m_elements l) sl)
      | Subscript obj \<Rightarrow>
          (case as_big_int obj of
             Some v \<Rightarrow> store_elements l (delete_index (m_elements l) v)
           | None \<Rightarrow> (l, Err TypeError)))"

text \<open>The copy loop of a slice.\<close>

fun copy_slice :: "'f rt_heap \<Rightarrow> rt_value list \<Rightarrow> PyList \<Rightarrow> int \<Rightarrow> int \<Rightarrow> nat \<Rightarrow> PyList py_result" where
  "copy_slice h els new_list idx step 0 = Ok new_list"
| "copy_slice h els new_list idx step (Suc n) =
     (if 0 \<le> idx \<and> idx < int (length els) then
        copy_slice h els (append_raw h new_list (els ! nat idx)) (idx + step) step n
      else Abort Undefined)"

datatype list_item = Item rt_value | SubList PyList

definition list_getitem :: "'f rt_heap \<Rightarrow> PyList \<Rightarrow> 'f subscript \<Rightarrow> list_item list_op" where
  "list_getitem h l index =
     (case index of
        Subscript (PyInteger n) \<Rightarrow>
          (l, and_then (as_i64 n) (\<lambda>i. and_then (list_getitem_int h l i) (\<lambda>v. Ok (Item v))))
      | SliceSubscript sl \<Rightarrow>
          let l' = normalize_storage h l; elements = m_elements l' in
          (l', and_then (unpack sl) (\<lambda>(start0, end0, step).
             and_then (adjust_indices start0 end0 step (int (length elements))) (\<lambda>(start, stop, n).
               if n = 0 then Ok (SubList (list_create []))
               else if start = 0 \<and> stop = int (length elements) \<and> step = 1 then
                 Ok (SubList (list_create elements))
               else and_then (copy_slice h elements (list_create []) start step (nat n))
                 (\<lambda>r. Ok (SubList r)))))
      | Subscript _ \<Rightarrow> (l, Err TypeError))"

text \<open>The overwriting loop of \<open>__setitem__\<close> for a step other than one. Going up it runs while
  \<open>i < stop\<close>, going down while \<open>i > stop\<close>.\<close>

function overwrite ::
  "rt_value list \<Rightarrow> rt_value list \<Rightarrow> nat \<Rightarrow> int \<Rightarrow> int \<Rightarrow> int \<Rightarrow> rt_value list py_result" where
  "overwrite els new_values k i stop step =
     (if step \<noteq> 0 \<and> (if step > 0 then i < stop else i > stop) then
        and_then (unwrap (validate_index (length els) i)) (\<lambda>idx.
          if idx < length els \<and> k < length new_values then
            overwrite (els[idx := new_values ! k]) new_values (Suc k) (i + step) stop step
          else Abort Undefined)
      else Ok els)"
  by pat_completeness auto
termination
  by (relation "measure (\<lambda>(els, new_values, k, i, stop, step).
        nat (if step > 0 then stop - i else i - stop))") (auto split: if_splits)

declare overwrite.simps [simp del]

definition setitem_slice ::
  "rt_value list \<Rightarrow> 'f PySlice \<Rightarrow> iteration \<Rightarrow> rt_value list py_result" where
  "setitem_slice els sl value_iter =
     and_then (unpack sl) (\<lambda>bounds.
       case assignment_bounds (int (length els)) bounds of (start, stop, step) \<Rightarrow>
       if step = 0 then Err ValueError
       else case value_iter of (new_values, ending) \<Rightarrow>
         if ending \<noteq> StopIteration then Err ending
         else if step = 1 then
           and_then (erase_range els start stop) (\<lambda>els'.
             Ok (take (nat start) els' @ new_values @ drop (nat start) els'))
         else overwrite els new_values 0 start stop step)"

text \<open>\<open>value\<close> is the word to store for an integer index; for a slice \<open>iter\<close> is what iterating
  it gives, \<open>None\<close> when it cannot be iterated.\<close>

definition list_setitem ::
  "'f rt_heap \<Rightarrow> PyList \<Rightarrow> 'f subscript \<Rightarrow> rt_value \<Rightarrow> iteration option \<Rightarrow> unit list_op" where
  "list_setitem h l index value iter =
     (case index of
        SliceSubscript sl \<Rightarrow>
          let l' = normalize_storage h l in
          (case iter of
             None \<Rightarrow> (l', Err TypeError)
           | Some it \<Rightarrow> store_elements l' (setitem_slice (m_elements l') sl it))
      | Subscript obj \<Rightarrow>
          (case as_big_int obj of
             Some v \<Rightarrow>
               (case as_i64 v of
                  Ok i \<Rightarrow> list_setitem_int h l i value
                | Err e \<Rightarrow> (l, Err e)
                | Abort f \<Rightarrow> (l, Abort f))
           | None \<Rightarrow> (l, Err TypeError)))"

definition list_len :: "PyList \<Rightarrow> nat py_result" where
  "list_len l = Ok (logical_size l)"

text \<open>\<open>__add__\<close> normalizes both operands and returns them with the new list.\<close>

definition list_add :: "'f rt_heap \<Rightarrow> PyList \<Rightarrow> PyList \<Rightarrow> PyList \<times> PyList \<times> PyList" where
  "list_add h l other =
     (let l' = normalize_storage h l; other' = normalize_storage h other;
          result = normalize_storage h (list_create (m_elements l'))
      in (l', other', result\<lparr>m_elements := m_elements result @ m_elements other'\<rparr>))"

definition list_mul :: "'f rt_heap \<Rightarrow> PyList \<Rightarrow> nat \<Rightarrow> PyList \<times> PyList" where
  "list_mul h l count =
     (if count = 0 then (l, list_create [])
      else if m_bool_storage l then
        let n = length (m_bool_elements l);
            list = create_bool_filled (n * count) False
        in (l, list\<lparr>m_bool_elements :=
                 fold (\<lambda>i bs. take (i * n) bs @ m_bool_elements l @ drop (i * n + n) bs)
                   [0 ..< count] (m_bool_elements list)\<rparr>)
      else
        let l' = normalize_storage h l; elements = m_elements l' in
        if length elements = 1 \<and> exact_bool_value h (hd elements) \<ge> 0 then
          (l', create_bool_filled count (exact_bool_value h (hd elements) \<noteq> 0))
        else (l', (list_create [])\<lparr>m_elements := concat (replicate count elements)\<rparr>))"

text \<open>\<open>equals\<close> is the comparison of two elements through the runtime context.\<close>

definition list_eq ::
  "'f rt_heap \<Rightarrow> (rt_value \<Rightarrow> rt_value \<Rightarrow> bool) \<Rightarrow> PyList \<Rightarrow> PyList \<Rightarrow> PyList \<times> PyList \<times> bool" where
  "list_eq h equals l other =
     (let l' = normalize_storage h l; other' = normalize_storage h other in
      (l', other',
       length (m_elements l') = length (m_elements other') \<and>
         list_all2 equals (m_elements l') (m_elements other')))"

section \<open>Iterators\<close>

text \<open>An iterator refers to the list; the list is an argument here, so that it can change between
  calls. The reverse iterator counts down in a \<^verbatim>\<open>size_t\<close> and relies on its wrap-around below zero;
  \<open>m_pylist\<close> tells whether it still holds the list.\<close>

definition list_next :: "'f rt_heap \<Rightarrow> PyList \<Rightarrow> nat \<Rightarrow> nat \<times> rt_value py_result" where
  "list_next h l current =
     (if current < logical_size l then (current + 1, unchecked_value_at h l current)
      else (current, Err StopIteration))"

definition list_next_raw :: "'f rt_heap \<Rightarrow> PyList \<Rightarrow> nat \<Rightarrow> nat \<times> rt_value option py_result" where
  "list_next_raw h l current =
     (if current < logical_size l then
        (current + 1, and_then (unchecked_value_at h l current) (\<lambda>v. Ok (Some v)))
      else (current, Ok None))"

record PyListReverseIterator =
  m_pylist :: bool
  m_reverse_index :: "64 word"

definition reverse_iterator_create :: "PyList \<Rightarrow> PyListReverseIterator" where
  "reverse_iterator_create l =
     \<lparr>m_pylist = True, m_reverse_index = of_nat (logical_size l) - 1\<rparr>"

definition reverse_next ::
  "'f rt_heap \<Rightarrow> PyList \<Rightarrow> PyListReverseIterator \<Rightarrow> PyListReverseIterator \<times> rt_value py_result" where
  "reverse_next h l it =
     (if m_pylist it then
        if unat (m_reverse_index it) < logical_size l then
          (it\<lparr>m_reverse_index := m_reverse_index it - 1\<rparr>,
           unchecked_value_at h l (unat (m_reverse_index it)))
        else (it\<lparr>m_pylist := False\<rparr>, Err StopIteration)
      else (it, Err StopIteration))"

section \<open>What a list contains\<close>

definition list_ok :: "PyList \<Rightarrow> bool" where
  "list_ok l \<longleftrightarrow>
     m_front_offset l \<le> length (m_elements l) \<and>
     (if m_bool_storage l then m_elements l = [] else m_bool_elements l = [])"

definition contents :: "'f rt_heap \<Rightarrow> PyList \<Rightarrow> rt_value list" where
  "contents h l =
     (if m_bool_storage l then map (\<lambda>b. bool_ptr h (b \<noteq> 0)) (m_bool_elements l)
      else drop (m_front_offset l) (m_elements l))"

text \<open>
  The contract of the storage layer, which the methods of the list rely on: whatever the
  representation, there is a sequence of values, both ends can grow and the back can shrink.
\<close>

locale value_storage =
  fixes ok :: "'l \<Rightarrow> bool"
    and seq :: "'l \<Rightarrow> 'v list"
    and len :: "'l \<Rightarrow> nat"
    and at :: "'l \<Rightarrow> nat \<Rightarrow> 'v py_result"
    and push_back :: "'l \<Rightarrow> 'v \<Rightarrow> 'l"
    and push_front :: "'l \<Rightarrow> 'v \<Rightarrow> 'l"
    and pop_back :: "'l \<Rightarrow> 'l \<times> 'v py_result"
  assumes len_seq: "ok l \<Longrightarrow> len l = length (seq l)"
    and at_seq: "ok l \<Longrightarrow> i < length (seq l) \<Longrightarrow> at l i = Ok (seq l ! i)"
    and ok_push_back: "ok l \<Longrightarrow> ok (push_back l v)"
    and seq_push_back: "ok l \<Longrightarrow> seq (push_back l v) = seq l @ [v]"
    and ok_push_front: "ok l \<Longrightarrow> ok (push_front l v)"
    and seq_push_front: "ok l \<Longrightarrow> seq (push_front l v) = v # seq l"
    and ok_pop_back: "ok l \<Longrightarrow> seq l \<noteq> [] \<Longrightarrow> ok (fst (pop_back l))"
    and seq_pop_back: "ok l \<Longrightarrow> seq l \<noteq> [] \<Longrightarrow> seq (fst (pop_back l)) = butlast (seq l)"
    and val_pop_back: "ok l \<Longrightarrow> seq l \<noteq> [] \<Longrightarrow> snd (pop_back l) = Ok (last (seq l))"
begin

lemma push_all:
  "ok l \<Longrightarrow> ok (fold (\<lambda>v l. push_back l v) vs l) \<and>
     seq (fold (\<lambda>v l. push_back l v) vs l) = seq l @ vs"
  by (induction vs arbitrary: l) (simp_all add: ok_push_back seq_push_back)

lemma push_front_all:
  "ok l \<Longrightarrow> ok (fold (\<lambda>v l. push_front l v) vs l) \<and>
     seq (fold (\<lambda>v l. push_front l v) vs l) = rev vs @ seq l"
  by (induction vs arbitrary: l) (simp_all add: ok_push_front seq_push_front)

lemma push_pop:
  "ok l \<Longrightarrow> seq (fst (pop_back (push_back l v))) = seq l \<and>
     snd (pop_back (push_back l v)) = Ok v \<and> ok (fst (pop_back (push_back l v)))"
  by (simp add: ok_push_back seq_push_back ok_pop_back seq_pop_back val_pop_back)

lemma at_front: "ok l \<Longrightarrow> at (push_front l v) 0 = Ok v"
  by (simp add: ok_push_front seq_push_front at_seq)

end

lemma exact_bool_value_exact:
  "exact_bool_value h v \<ge> 0 \<Longrightarrow> bool_ptr h (word_of_int (exact_bool_value h v) \<noteq> (0 :: 8 word)) = v"
  by (auto simp: exact_bool_value_def split: if_splits)

lemma logical_size_contents: "list_ok l \<Longrightarrow> logical_size l = length (contents h l)"
  by (simp add: logical_size_def contents_def)

lemma unchecked_value_at_contents:
  "list_ok l \<Longrightarrow> i < length (contents h l) \<Longrightarrow> unchecked_value_at h l i = Ok (contents h l ! i)"
  by (auto simp: unchecked_value_at_def contents_def vector_at_def list_ok_def split: if_splits)

lemma promote_bool_storage_spec [simp]:
  "list_ok l \<Longrightarrow> list_ok (promote_bool_storage h l)"
  "contents h (promote_bool_storage h l) = contents h l"
  "m_bool_storage (promote_bool_storage h l) = False"
  by (auto simp: promote_bool_storage_def list_ok_def contents_def)

lemma normalize_storage_spec [simp]:
  "m_bool_storage (normalize_storage h l) = False"
  "m_front_offset (normalize_storage h l) = 0"
  "list_ok l \<Longrightarrow> m_elements (normalize_storage h l) = contents h l"
  "list_ok l \<Longrightarrow> m_bool_elements (normalize_storage h l) = []"
  by (auto simp: normalize_storage_def promote_bool_storage_def Let_def contents_def list_ok_def)

lemma normalize_storage_keeps [simp]:
  "list_ok l \<Longrightarrow> list_ok (normalize_storage h l)"
  "list_ok l \<Longrightarrow> contents h (normalize_storage h l) = contents h l"
  by (simp_all add: list_ok_def [of "normalize_storage h l"] contents_def [of h "normalize_storage h l"])

lemma append_raw_spec:
  assumes "list_ok l"
  shows "list_ok (append_raw h l v)" and "contents h (append_raw h l v) = contents h l @ [v]"
proof -
  have "list_ok (append_raw h l v) \<and> contents h (append_raw h l v) = contents h l @ [v]"
  proof (cases "m_bool_storage l \<and> exact_bool_value h v \<ge> 0")
    case True
    with assms show ?thesis
      by (auto simp: append_raw_def list_ok_def contents_def exact_bool_value_exact)
  next
    case False
    have "list_ok (promote_bool_storage h l)" using assms by simp
    then have "list_ok (append_raw h l v) \<and>
        contents h (append_raw h l v) = contents h (promote_bool_storage h l) @ [v]"
      using False by (auto simp: append_raw_def list_ok_def contents_def Let_def)
    then show ?thesis by simp
  qed
  then show "list_ok (append_raw h l v)" and "contents h (append_raw h l v) = contents h l @ [v]"
    by simp_all
qed

lemma push_front_raw_spec:
  assumes "list_ok l"
  shows "list_ok (push_front_raw h l v)" and "contents h (push_front_raw h l v) = v # contents h l"
proof -
  have "list_ok (push_front_raw h l v) \<and> contents h (push_front_raw h l v) = v # contents h l"
  proof (cases "m_bool_storage l \<and> exact_bool_value h v \<ge> 0")
    case True
    with assms show ?thesis
      by (auto simp: push_front_raw_def list_ok_def contents_def exact_bool_value_exact)
  next
    case False
    let ?p = "promote_bool_storage h l"
    have "list_ok ?p" using assms by simp
    then have "list_ok (push_front_raw h l v) \<and>
        contents h (push_front_raw h l v) = v # contents h ?p"
      using False
      by (cases "m_front_offset ?p")
        (auto simp: push_front_raw_def list_ok_def contents_def Let_def drop_update_cancel
          Cons_nth_drop_Suc [symmetric])
    then show ?thesis by simp
  qed
  then show "list_ok (push_front_raw h l v)"
    and "contents h (push_front_raw h l v) = v # contents h l"
    by simp_all
qed

lemma pop_back_raw_spec:
  assumes "list_ok l" and "contents h l \<noteq> []"
  shows "list_ok (fst (pop_back_raw h l))"
    and "contents h (fst (pop_back_raw h l)) = butlast (contents h l)"
    and "snd (pop_back_raw h l) = Ok (last (contents h l))"
proof -
  have ne: "logical_size l \<noteq> 0" using assms by (simp add: logical_size_contents [of l h])
  have "list_ok (fst (pop_back_raw h l)) \<and>
      contents h (fst (pop_back_raw h l)) = butlast (contents h l) \<and>
      snd (pop_back_raw h l) = Ok (last (contents h l))"
    using assms ne
    by (auto simp: pop_back_raw_def list_ok_def contents_def Let_def map_butlast last_map
        butlast_drop last_drop)
  then show "list_ok (fst (pop_back_raw h l))"
    and "contents h (fst (pop_back_raw h l)) = butlast (contents h l)"
    and "snd (pop_back_raw h l) = Ok (last (contents h l))"
    by simp_all
qed

interpretation py_list: value_storage list_ok "contents h" logical_size "unchecked_value_at h"
    "append_raw h" "push_front_raw h" "pop_back_raw h" for h :: "'f rt_heap"
  by unfold_locales
    (simp_all add: logical_size_contents unchecked_value_at_contents append_raw_spec
      push_front_raw_spec pop_back_raw_spec)

section \<open>The methods on contents\<close>

lemma list_create_spec [simp]: "list_ok (list_create xs)" "contents h (list_create xs) = xs"
  by (simp_all add: list_create_def list_ok_def contents_def)

lemma create_bool_filled_spec [simp]:
  "list_ok (create_bool_filled n b)"
  "contents h (create_bool_filled n b) = replicate n (bool_ptr h b)"
  by (simp_all add: create_bool_filled_def list_create_def list_ok_def contents_def)

lemma drain_spec:
  "list_ok l \<Longrightarrow> list_ok (drain h l vs)"
  "list_ok l \<Longrightarrow> contents h (drain h l vs) = contents h l @ vs"
  using py_list.push_all [of l h vs] by (simp_all add: drain_def)

text \<open>Replacing the vector of a normalized list.\<close>

lemma normalized_update [simp]:
  "list_ok l \<Longrightarrow> list_ok ((normalize_storage h l)\<lparr>m_elements := els\<rparr>)"
  "contents h ((normalize_storage h l)\<lparr>m_elements := els\<rparr>) = els"
  by (simp_all add: list_ok_def [of "(normalize_storage h l)\<lparr>m_elements := els\<rparr>"] contents_def)

text \<open>Python's rule for the position of \<open>insert\<close>.\<close>

definition insert_position :: "int \<Rightarrow> nat \<Rightarrow> nat" where
  "insert_position i n = nat (clamp 0 (int n) (if i < 0 then i + int n else i))"

definition insert_at :: "int \<Rightarrow> 'a \<Rightarrow> 'a list \<Rightarrow> 'a list" where
  "insert_at i v xs =
     take (insert_position i (length xs)) xs @ [v] @ drop (insert_position i (length xs)) xs"

lemma insert_position_cases:
  "insert_position i n =
     nat (let i' = (if i < 0 then (if i + int n < 0 then 0 else i + int n) else i) in
          if i' > int n then int n else i')"
  by (auto simp: insert_position_def clamp_def Let_def)

lemma insert_raw_clamped_spec:
  assumes "list_ok l"
  shows "list_ok (insert_raw_clamped h l i v)"
    and "contents h (insert_raw_clamped h l i v) = insert_at i v (contents h l)"
  using assms
  by (auto simp: insert_raw_clamped_def insert_at_def insert_position_cases Let_def
      logical_size_contents [of l h] append_raw_spec push_front_raw_spec)

lemma list_insert_spec:
  assumes "list_ok l" and "int (logical_size l) \<le> int64_max"
  shows "list_ok (fst (list_insert h l i v))"
    and "contents h (fst (list_insert h l i v)) = insert_at i v (contents h l)"
    and "snd (list_insert h l i v) = Ok ()"
proof -
  let ?n = "int (length (contents h l))"
  define i' where "i' = (if i < 0 then (if i + ?n < 0 then 0 else i + ?n) else i)"
  define j where "j = (if i' > ?n then ?n else i')"
  have n: "int (logical_size l) = ?n" using assms(1) by (simp add: logical_size_contents [of l h])
  have j: "0 \<le> j" "j \<le> ?n" by (auto simp: j_def i'_def)
  have pos: "insert_position i (length (contents h l)) = nat j"
    by (simp add: insert_position_cases Let_def j_def i'_def)
  have again: "insert_position j (length (contents h l)) = nat j"
    using j by (simp add: insert_position_def clamp_def)
  have fits: "in_uint64 j" "to_int64 j = j"
    using j n assms(2) by (simp_all add: in_uint64_def to_int64_id in_int64_def)
  have "list_insert h l i v =
      (if j = 0 then (push_front_raw h l v, Ok ())
       else if j = ?n then (append_raw h l v, Ok ())
       else (insert_raw_clamped h l j v, Ok ()))"
    using fits
    by (simp only: list_insert_def n Let_def i'_def [symmetric] j_def [symmetric]) simp
  then show "list_ok (fst (list_insert h l i v))"
    and "contents h (fst (list_insert h l i v)) = insert_at i v (contents h l)"
    and "snd (list_insert h l i v) = Ok ()"
    using assms(1) pos again
    by (simp_all add: insert_raw_clamped_spec append_raw_spec push_front_raw_spec insert_at_def)
qed

text \<open>Which element an index means: counted from the end when it is negative.\<close>

definition index_position :: "int \<Rightarrow> nat \<Rightarrow> nat option" where
  "index_position i n =
     (if 0 \<le> i \<and> i < int n then Some (nat i)
      else if - int n \<le> i \<and> i < 0 then Some (nat (i + int n))
      else None)"

lemma index_position_less: "index_position i n = Some k \<Longrightarrow> k < n"
  by (auto simp: index_position_def split: if_splits)

lemma list_getitem_int_spec:
  assumes "list_ok l" and "i \<noteq> int64_min"
  shows "list_getitem_int h l i =
    (case index_position i (length (contents h l)) of
       Some k \<Rightarrow> Ok (contents h l ! k) | None \<Rightarrow> Err IndexError)"
  using assms
  by (auto simp: list_getitem_int_def index_position_def abs_i64_def assert_that_def Let_def
      logical_size_contents [of l h] unchecked_value_at_contents)

lemma set_item_spec:
  assumes "list_ok l" and "k < length (contents h l)"
    and "set_bool_storage_item h l k v = (l', done)"
  shows "list_ok l'" and "contents h l' = (if done then (contents h l)[k := v] else contents h l)"
    and "\<not> done \<Longrightarrow> \<not> m_bool_storage l'"
  using assms
  by (auto simp: set_bool_storage_item_def promote_bool_storage_def contents_def list_ok_def
      map_update exact_bool_value_exact split: if_splits)

lemma store_word_spec:
  assumes "list_ok l" and "\<not> m_bool_storage l"
  shows "list_ok (l\<lparr>m_elements := (m_elements l)[m_front_offset l + k := v]\<rparr>)"
    and "contents h (l\<lparr>m_elements := (m_elements l)[m_front_offset l + k := v]\<rparr>) =
      (contents h l)[k := v]"
  using assms by (simp_all add: list_ok_def contents_def drop_update_swap)

lemma list_setitem_int_spec:
  assumes "list_ok l"
  shows "index_position i (length (contents h l)) = Some k \<Longrightarrow>
      snd (list_setitem_int h l i v) = Ok () \<and> list_ok (fst (list_setitem_int h l i v)) \<and>
      contents h (fst (list_setitem_int h l i v)) = (contents h l)[k := v]"
    and "index_position i (length (contents h l)) = None \<Longrightarrow>
      list_setitem_int h l i v = (l, Err IndexError)"
proof -
  assume pos: "index_position i (length (contents h l)) = Some k"
  obtain l' don where set: "set_bool_storage_item h l k v = (l', don)" by fastforce
  note item = set_item_spec [OF assms index_position_less [OF pos] set]
  have "list_setitem_int h l i v =
      (case (l', don) of
        (l', True) \<Rightarrow> (l', Ok ())
      | (l', False) \<Rightarrow>
          let l2 = promote_bool_storage h l'; i = m_front_offset l2 + k in
          (l2\<lparr>m_elements := (m_elements l2)[i := v]\<rparr>, Ok ()))"
    using pos set assms
    by (auto simp: list_setitem_int_def index_position_def Let_def logical_size_contents [of l h]
        split: if_splits)
  then show "snd (list_setitem_int h l i v) = Ok () \<and> list_ok (fst (list_setitem_int h l i v)) \<and>
      contents h (fst (list_setitem_int h l i v)) = (contents h l)[k := v]"
    using item store_word_spec(1) [of "promote_bool_storage h l'" k v]
      store_word_spec(2) [of "promote_bool_storage h l'" h k v]
    by (cases don) (simp_all add: Let_def)
next
  assume "index_position i (length (contents h l)) = None"
  then show "list_setitem_int h l i v = (l, Err IndexError)"
    using assms
    by (auto simp: list_setitem_int_def index_position_def Let_def logical_size_contents [of l h]
        split: if_splits)
qed

lemma pop_index_position:
  "i \<noteq> int64_min \<Longrightarrow> pop_index i n =
     (case index_position i n of Some k \<Rightarrow> Ok k | None \<Rightarrow> Err IndexError)"
  by (auto simp: pop_index_def index_position_def abs_i64_def)

lemma pop_at_spec:
  assumes "list_ok l" and "k < length (contents h l)"
  shows "snd (pop_at h l k) = Ok (contents h l ! k)" and "list_ok (fst (pop_at h l k))"
    and "contents h (fst (pop_at h l k)) = take k (contents h l) @ drop (Suc k) (contents h l)"
proof -
  have ne: "contents h l \<noteq> []" using assms(2) by auto
  show "snd (pop_at h l k) = Ok (contents h l ! k)" and "list_ok (fst (pop_at h l k))"
    using assms ne
    by (simp_all add: pop_at_def unchecked_value_at_contents Let_def pop_back_raw_spec)
  show "contents h (fst (pop_at h l k)) = take k (contents h l) @ drop (Suc k) (contents h l)"
    using assms ne
    by (auto simp: pop_at_def unchecked_value_at_contents Let_def pop_back_raw_spec
        logical_size_contents [of l h] butlast_conv_take) (metis diff_Suc_Suc diff_zero)
qed

subsection \<open>Slices\<close>

lemma copy_slice_spec:
  assumes "list_ok l" and "\<And>k. k < n \<Longrightarrow> 0 \<le> idx + int k * step \<and> idx + int k * step < int (length els)"
  shows "\<exists>l'. copy_slice h els l idx step n = Ok l' \<and> list_ok l' \<and>
    contents h l' = contents h l @ map (\<lambda>k. els ! nat (idx + int k * step)) [0 ..< n]"
  using assms
proof (induction n arbitrary: l idx)
  case (Suc n)
  have "0 \<le> idx \<and> idx < int (length els)" using Suc.prems(2) [of 0] by simp
  moreover have "\<exists>l'. copy_slice h els (append_raw h l (els ! nat idx)) (idx + step) step n = Ok l' \<and>
      list_ok l' \<and> contents h l' = contents h (append_raw h l (els ! nat idx)) @
        map (\<lambda>k. els ! nat (idx + step + int k * step)) [0 ..< n]"
  proof (rule Suc.IH)
    show "list_ok (append_raw h l (els ! nat idx))" using Suc.prems(1) by (rule append_raw_spec)
    show "0 \<le> idx + step + int k * step \<and> idx + step + int k * step < int (length els)"
      if "k < n" for k
      using Suc.prems(2) [of "Suc k"] that by (simp add: algebra_simps)
  qed
  moreover have "map (\<lambda>k. els ! nat (idx + int k * step)) [0 ..< Suc n] =
      els ! nat idx # map (\<lambda>k. els ! nat (idx + step + int k * step)) [0 ..< n]"
    by (simp only: upt_rec [of 0 "Suc n"] map_Suc_upt [symmetric] map_map comp_def)
      (simp add: algebra_simps)
  ultimately show ?case using Suc.prems(1) by (auto simp: append_raw_spec)
qed simp

lemma getitem_slice_spec:
  assumes "list_ok l" and "slice_positions sl (int (length (contents h l))) = Ok ps"
    and "unpack sl = Ok (start, stop, step)" and "step \<noteq> int64_min"
  shows "\<exists>r. snd (list_getitem h l (SliceSubscript sl)) = Ok (SubList r) \<and> list_ok r \<and>
    contents h r = map (\<lambda>p. contents h l ! nat p) ps"
proof -
  let ?els = "contents h l" and ?n = "int (length (contents h l))"
  define s where "s = slice_bound start step ?n"
  define e where "e = slice_bound stop step ?n"
  define m where "m = progression_length s e step"
  have step: "step \<noteq> 0" using unpack_in_int64 [OF assms(3)] by simp
  have adj: "adjust_indices start stop step ?n = Ok (s, e, int m)"
    unfolding s_def e_def m_def by (rule adjust_indices_value) (use step assms(4) in simp_all)
  have ps: "ps = map (\<lambda>k. s + int k * step) [0 ..< m]"
    using assms(2) slice_positions_value [OF assms(3,4), of ?n]
    by (simp add: progression_def s_def e_def m_def)
  have bounds: "0 \<le> s + int k * step \<and> s + int k * step < ?n" if "k < m" for k
    using that positions_in_bounds [OF _ step, of ?n k start stop] by (simp add: s_def e_def m_def)
  have copy: "\<exists>l'. copy_slice h ?els (list_create []) s step m = Ok l' \<and> list_ok l' \<and>
      contents h l' = map (\<lambda>p. ?els ! nat p) ps"
    using copy_slice_spec [of "list_create []" m s step ?els h] bounds by (simp add: ps comp_def)
  have whole: "map (\<lambda>p. ?els ! nat p) ps = ?els" if "s = 0" "e = ?n" "step = 1"
    using that by (intro nth_equalityI) (simp_all add: ps m_def progression_length_def)
  have "snd (list_getitem h l (SliceSubscript sl)) =
      (if m = 0 then Ok (SubList (list_create []))
       else if s = 0 \<and> e = ?n \<and> step = 1 then Ok (SubList (list_create ?els))
       else and_then (copy_slice h ?els (list_create []) s step m) (\<lambda>r. Ok (SubList r)))"
    using assms(1,3) adj by (simp add: list_getitem_def Let_def)
  then show ?thesis using copy whole by (auto simp: ps)
qed

lemma validate_index_same [simp]:
  "0 \<le> i \<Longrightarrow> i \<le> int n \<Longrightarrow> in_int64 i \<Longrightarrow> validate_index n i = Ok (nat i)"
  by (auto simp: validate_index_def assert_that_def in_uint64_def in_int64_def Let_def)

lemma validate_index_le: "validate_index n i = Ok k \<Longrightarrow> k \<le> n"
  by (auto simp: validate_index_def assert_that_def Let_def result_simps split: if_splits)

lemma erase_nothing: "i \<le> length els \<Longrightarrow> erase_range els (int i) (int i) = Ok els"
  by (simp add: erase_range_def)

text \<open>The rewritten \<open>stop\<close> equals \<open>start\<close>, or it is the last position and the step is
  negative: no deletion loop is ever entered.\<close>

lemma delitem_slice_keeps:
  assumes "unpack sl = Ok (start, stop, step)" and "stop \<noteq> int64_min \<or> step < 0"
  shows "wp (delitem_slice els sl) (\<lambda>els'. els' = els)"
proof -
  have step: "step \<noteq> 0" using unpack_in_int64 [OF assms(1)] by simp
  define start' where "start' = (if start = int64_max then int (length els) - 1 else start)"
  define stop' where "stop' = (if stop = int64_min then int (length els) - 1 else start')"
  have del: "delitem_slice els sl =
      and_then (validate_index (length els) start') (\<lambda>i.
      and_then (validate_index (length els) stop') (\<lambda>j.
        if step > 0 then
          if int i > int j then Ok els
          else if step = 1 then erase_range els (int i) (int j)
          else delete_up els (int i) (int j) step
        else
          if int j \<ge> int i then Ok els else delete_down els (int i - 1) (int j) step))"
    using assms(1) step
    by (simp add: delitem_slice_def assignment_bounds_def start'_def stop'_def Let_def)
  show ?thesis
  proof (cases "stop = int64_min")
    case False
    then have "stop' = start'" by (simp add: stop'_def)
    then show ?thesis
      using validate_index_le [of "length els" start']
      by (cases "validate_index (length els) start'")
        (simp_all add: del delete_up.simps erase_nothing)
  next
    case True
    with assms(2) have neg: "step < 0" and last: "stop' = int (length els) - 1"
      by (simp_all add: stop'_def)
    have "wp (validate_index (length els) stop') (\<lambda>j. length els \<le> Suc j)"
      by (cases "els = []")
        (auto simp: last validate_index_def assert_that_def abs_i64_def Let_def wp_iff)
    moreover have "wp (validate_index (length els) start') (\<lambda>i. i \<le> length els)"
      by (simp add: wp_iff validate_index_le)
    ultimately show ?thesis
      using neg
      by (cases "validate_index (length els) start'"; cases "validate_index (length els) stop'")
        (simp_all add: del delete_down.simps)
  qed
qed

lemma setitem_slice_inserts:
  assumes "unpack sl = Ok (start, stop, 1)" and "stop \<noteq> int64_min" and "start \<noteq> int64_max"
    and "0 \<le> start" and "start \<le> int (length els)"
  shows "setitem_slice els sl (vs, StopIteration) =
    Ok (take (nat start) els @ vs @ drop (nat start) els)"
  using assms erase_nothing [of "nat start" els]
  by (simp add: setitem_slice_def assignment_bounds_def)

subsection \<open>Concatenation and repetition\<close>

lemma fill_blocks:
  "length bs = n * length xs \<Longrightarrow> m \<le> n \<Longrightarrow>
     fold (\<lambda>i bs. take (i * length xs) bs @ xs @ drop (i * length xs + length xs) bs) [0 ..< m] bs =
       concat (replicate m xs) @ drop (m * length xs) bs"
proof (induction m)
  case (Suc m)
  have "m * length xs + length xs \<le> n * length xs"
    using Suc.prems(2) by (metis add.commute mult_Suc mult_le_mono1)
  with Suc show ?case
    by (simp add: length_concat sum_list_replicate algebra_simps replicate_append_same [symmetric])
qed simp

lemma list_mul_spec:
  assumes "list_ok l"
  shows "contents h (fst (list_mul h l n)) = contents h l" and "list_ok (fst (list_mul h l n))"
    and "contents h (snd (list_mul h l n)) = concat (replicate n (contents h l))"
    and "list_ok (snd (list_mul h l n))"
proof -
  let ?bs = "m_bool_elements l" and ?xs = "contents h l"
  have bytes: "list_mul h l n =
      (l, (create_bool_filled (length ?bs * n) False)\<lparr>m_bool_elements := concat (replicate n ?bs)\<rparr>)"
    if "m_bool_storage l" "n \<noteq> 0"
    using that fill_blocks [of "replicate (length ?bs * n) 0" n ?bs n]
    by (simp add: list_mul_def create_bool_filled_def list_create_def Let_def mult.commute)
  have one: "concat (replicate n ?xs) = replicate n v" if "?xs = [v]" for v
    using that by (induction n) auto
  have words: "list_mul h l n =
      (normalize_storage h l,
       if length ?xs = 1 \<and> exact_bool_value h (hd ?xs) \<ge> 0
       then create_bool_filled n (exact_bool_value h (hd ?xs) \<noteq> 0)
       else list_create (concat (replicate n ?xs)))"
    if "\<not> m_bool_storage l" "n \<noteq> 0"
    using that assms by (simp add: list_mul_def Let_def list_create_def)
  have bool: "bool_ptr h (exact_bool_value h v \<noteq> 0) = v" if "exact_bool_value h v \<ge> 0" for v
    using that by (auto simp: exact_bool_value_def split: if_splits)
  show "contents h (fst (list_mul h l n)) = ?xs" and "list_ok (fst (list_mul h l n))"
    using assms bytes words by (auto simp: list_mul_def)
  show "list_ok (snd (list_mul h l n))"
    using bytes words
    by (cases "n = 0"; cases "m_bool_storage l")
      (auto simp: list_mul_def create_bool_filled_def list_create_def list_ok_def)
  show "contents h (snd (list_mul h l n)) = concat (replicate n ?xs)"
  proof (cases "n = 0 \<or> m_bool_storage l")
    case True
    then show ?thesis
      using bytes
      by (cases "n = 0") (auto simp: list_mul_def contents_def create_bool_filled_def
          list_create_def map_concat)
  next
    case False
    show ?thesis
    proof (cases "length ?xs = 1 \<and> exact_bool_value h (hd ?xs) \<ge> 0")
      case True
      then obtain v where "?xs = [v]" by (cases ?xs) auto
      with True False words one bool show ?thesis by simp
    qed (use False words in auto)
  qed
qed

lemma list_add_spec:
  assumes "list_ok l" and "list_ok other"
  shows "case list_add h l other of (l', other', r) \<Rightarrow>
    list_ok l' \<and> contents h l' = contents h l \<and>
    list_ok other' \<and> contents h other' = contents h other \<and>
    list_ok r \<and> contents h r = contents h l @ contents h other"
  using assms by (simp add: list_add_def Let_def)

subsection \<open>Iteration\<close>

text \<open>The results of the first \<open>n\<close> calls on a list that does not change.\<close>

primrec list_next_results :: "'f rt_heap \<Rightarrow> PyList \<Rightarrow> nat \<Rightarrow> nat \<Rightarrow> rt_value py_result list" where
  "list_next_results h l 0 i = []"
| "list_next_results h l (Suc n) i =
     (case list_next h l i of (i', r) \<Rightarrow> r # list_next_results h l n i')"

primrec reverse_results ::
  "'f rt_heap \<Rightarrow> PyList \<Rightarrow> nat \<Rightarrow> PyListReverseIterator \<Rightarrow> rt_value py_result list" where
  "reverse_results h l 0 it = []"
| "reverse_results h l (Suc n) it =
     (case reverse_next h l it of (it', r) \<Rightarrow> r # reverse_results h l n it')"

lemma list_next_results_drop:
  assumes "list_ok l"
  shows "list_next_results h l n i =
    map Ok (take n (drop i (contents h l)))
      @ replicate (n - (length (contents h l) - i)) (Err StopIteration)"
proof (induction n arbitrary: i)
  case (Suc n)
  show ?case
  proof (cases "i < length (contents h l)")
    case True
    then show ?thesis
      using assms Suc.IH [of "Suc i"]
      by (simp add: list_next_def logical_size_contents [of l h] unchecked_value_at_contents
          take_Suc_drop Suc_diff_Suc)
  next
    case False
    then show ?thesis
      using assms Suc.IH [of i] by (simp add: list_next_def logical_size_contents [of l h])
  qed
qed simp

lemma reverse_results_stopped:
  "\<not> m_pylist it \<Longrightarrow> reverse_results h l n it = replicate n (Err StopIteration)"
  by (induction n) (simp_all add: reverse_next_def)

text \<open>The index counts the elements still to come; below zero it wraps to the largest word, which
  is beyond the end of every list.\<close>

lemma reverse_results_take:
  assumes "list_ok l" and "length (contents h l) < 2 ^ 64" and "i \<le> length (contents h l)"
  shows "reverse_results h l n \<lparr>m_pylist = True, m_reverse_index = of_nat i - 1\<rparr> =
    map Ok (take n (rev (take i (contents h l)))) @ replicate (n - i) (Err StopIteration)"
  using assms(3)
proof (induction n arbitrary: i)
  case (Suc n)
  show ?case
  proof (cases i)
    case 0
    have "\<not> unat (- 1 :: 64 word) < length (contents h l)"
      using assms(2) by (simp add: unsigned_minus_1_eq_mask mask_eq_exp_minus_1)
    then show ?thesis
      using 0 assms(1)
      by (simp add: reverse_next_def logical_size_contents [of l h] reverse_results_stopped)
  next
    case (Suc k)
    then have "unat (of_nat k :: 64 word) = k"
      using Suc.prems assms(2) by (simp add: unat_of_nat)
    then show ?thesis
      using Suc Suc.prems Suc.IH [of k] assms(1)
      by (simp add: reverse_next_def logical_size_contents [of l h] unchecked_value_at_contents
          take_Suc_conv_app_nth)
  qed
qed simp

section \<open>Properties\<close>

text \<open>C17: The two storages of a list and the gap at its front are invisible: on every well-formed
  list, appending, inserting at any index, and pushing at the front give a well-formed list whose
  contents are the expected sequence, normalizing changes nothing, and the logical size is the
  number of elements.\<close>

theorem list_growth_refines:
  assumes "list_ok l" and "int (length (contents h l)) \<le> int64_max"
  shows "logical_size l = length (contents h l) \<and>
    list_ok (fst (list_append h l v)) \<and>
    contents h (fst (list_append h l v)) = contents h l @ [v] \<and>
    list_ok (push_front_raw h l v) \<and> contents h (push_front_raw h l v) = v # contents h l \<and>
    snd (list_insert h l i v) = Ok () \<and> list_ok (fst (list_insert h l i v)) \<and>
    contents h (fst (list_insert h l i v)) = insert_at i v (contents h l) \<and>
    list_ok (normalize_storage h l) \<and> contents h (normalize_storage h l) = contents h l"
  using assms
  by (simp add: logical_size_contents [of l h] list_append_def append_raw_spec push_front_raw_spec
      list_insert_spec)

text \<open>A list of two booleans in byte storage.\<close>

definition demo_list :: PyList where
  "demo_list = create_bool_filled 2 True"

lemma demo_list_contents: "contents demo_heap demo_list = [8, 8]" "list_ok demo_list"
  by (simp_all add: demo_list_def numeral_2_eq_2 bool_ptr_def demo_heap_def)

theorem list_growth_refines_witness:
  "contents demo_heap (fst (list_insert demo_heap demo_list (- 1) (from_int 7)))
     = [8, from_int 7, 8] \<and>
   contents demo_heap (fst (list_append demo_heap demo_list 16)) = [8, 8, 16]"
  using list_growth_refines [of demo_list demo_heap 16 0]
    list_growth_refines [of demo_list demo_heap "from_int 7" "- 1"]
  by (simp add: demo_list_contents insert_at_def insert_position_def clamp_def)

text \<open>Reading and writing by index follow the language: a negative index counts from the end,
  an index outside the list is an \<^verbatim>\<open>IndexError\<close> that leaves the list as it is, and a written
  element is the one read back while all others keep their values, whichever storage is in use.\<close>

theorem list_index_exact:
  assumes "list_ok l" and "i \<noteq> int64_min"
  shows "case index_position i (length (contents h l)) of
      Some k \<Rightarrow>
        list_getitem_int h l i = Ok (contents h l ! k) \<and>
        snd (list_setitem_int h l i v) = Ok () \<and> list_ok (fst (list_setitem_int h l i v)) \<and>
        contents h (fst (list_setitem_int h l i v)) = (contents h l)[k := v] \<and>
        list_getitem_int h (fst (list_setitem_int h l i v)) i = Ok v
    | None \<Rightarrow>
        list_getitem_int h l i = Err IndexError \<and> list_setitem_int h l i v = (l, Err IndexError)"
proof (cases "index_position i (length (contents h l))")
  case None
  with assms show ?thesis by (simp add: list_getitem_int_spec list_setitem_int_spec)
next
  case (Some k)
  note set = list_setitem_int_spec(1) [OF assms(1) Some, of v]
  have "list_getitem_int h (fst (list_setitem_int h l i v)) i = Ok v"
    using set Some index_position_less [OF Some] assms(2) by (simp add: list_getitem_int_spec)
  with Some set assms show ?thesis by (simp add: list_getitem_int_spec)
qed

theorem list_index_exact_witness:
  "list_getitem_int demo_heap (fst (list_setitem_int demo_heap demo_list (- 2) (from_int 7))) (- 2)
     = Ok (from_int 7) \<and>
   list_setitem_int demo_heap demo_list 2 (from_int 7) = (demo_list, Err IndexError)"
  using list_index_exact [of demo_list "- 2" demo_heap "from_int 7"]
    list_index_exact [of demo_list 2 demo_heap "from_int 7"]
  by (simp add: demo_list_contents index_position_def)

text \<open>\<^verbatim>\<open>pop\<close> with an index removes and returns exactly the element the index means and keeps
  the order of the others; without an index it is the last element; from an empty list and for an
  index out of range it is an \<^verbatim>\<open>IndexError\<close> and nothing changes.\<close>

theorem list_pop_exact:
  assumes "list_ok l" and "in_int64 i" and "i \<noteq> int64_min"
  shows "(contents h l = [] \<longrightarrow> list_pop h l idx = (l, Err IndexError)) \<and>
    (contents h l \<noteq> [] \<longrightarrow>
      (case index_position i (length (contents h l)) of
         Some k \<Rightarrow> snd (list_pop h l (Some (PyInteger i))) = Ok (contents h l ! k) \<and>
           list_ok (fst (list_pop h l (Some (PyInteger i)))) \<and>
           contents h (fst (list_pop h l (Some (PyInteger i)))) =
             take k (contents h l) @ drop (Suc k) (contents h l)
       | None \<Rightarrow> list_pop h l (Some (PyInteger i)) = (l, Err IndexError)) \<and>
      snd (list_pop h l None) = Ok (last (contents h l)) \<and>
      list_ok (fst (list_pop h l None)) \<and>
      contents h (fst (list_pop h l None)) = butlast (contents h l))"
proof (cases "contents h l = []")
  case True
  then show ?thesis using assms(1) by (simp add: list_pop_def logical_size_contents [of l h])
next
  case False
  have size: "logical_size l = length (contents h l)" by (rule logical_size_contents [OF assms(1)])
  have at: "list_pop h l (Some (PyInteger i)) =
      (case index_position i (length (contents h l)) of
         Some k \<Rightarrow> pop_at h l k | None \<Rightarrow> (l, Err IndexError))"
    using False assms(2,3)
    by (simp add: list_pop_def size as_i64_def assert_that_def pop_index_position split: option.split)
  have "list_pop h l None = (fst (pop_back_raw h l), Ok (last (contents h l)))"
    using False assms(1)
    by (simp add: list_pop_def size unchecked_value_at_contents last_conv_nth)
  then show ?thesis
    using False at assms(1) index_position_less [of i "length (contents h l)"]
    by (auto simp: pop_back_raw_spec pop_at_spec split: option.split)
qed

theorem list_pop_exact_witness:
  "snd (list_pop demo_heap demo_list (Some (PyInteger (- 2)))) = Ok 8 \<and>
   contents demo_heap (fst (list_pop demo_heap demo_list (Some (PyInteger (- 2))))) = [8]"
  using list_pop_exact [of demo_list "- 2" demo_heap None]
  by (simp add: demo_list_contents index_position_def in_int64_def)

text \<open>Reading a slice returns a new well-formed list with the elements at exactly the positions
  the slice selects, in order, and no access leaves the vector.\<close>

theorem list_slice_exact:
  assumes "list_ok l" and "unpack sl = Ok (start, stop, step)" and "step \<noteq> int64_min"
  shows "\<exists>r. snd (list_getitem h l (SliceSubscript sl)) = Ok (SubList r) \<and> list_ok r \<and>
    contents h r = map (\<lambda>p. contents h l ! nat p)
      (progression (slice_bound start step (int (length (contents h l))))
        (slice_bound stop step (int (length (contents h l)))) step)"
  using getitem_slice_spec [OF assms(1) slice_positions_value [OF assms(2,3)] assms(2,3)] by simp

theorem list_slice_exact_witness:
  "\<exists>r. snd (list_getitem demo_heap (list_create [2, 4, 6, 8]) (SliceSubscript (every (- 2))))
     = Ok (SubList r) \<and> list_ok r \<and> contents demo_heap r = [8, 4]"
  using list_slice_exact [of "list_create [2, 4, 6, 8]" "every (- 2)" int64_max int64_min "- 2"
      demo_heap]
  by (simp add: unpack_step in_int64_def slice_bound_def clamp_def progression_def
      progression_length_def upt_rec numeral_eq_Suc)

text \<open>Repetition and concatenation: \<^verbatim>\<open>l * n\<close> has the contents \<open>n\<close> times over, through the
  byte copy loop, the shortcut for a single boolean and the general loop alike; \<^verbatim>\<open>l + other\<close> has
  both contents; the operands keep theirs.\<close>

theorem list_mul_add_exact:
  assumes "list_ok l" and "list_ok other"
  shows "contents h (snd (list_mul h l n)) = concat (replicate n (contents h l)) \<and>
    list_ok (snd (list_mul h l n)) \<and> contents h (fst (list_mul h l n)) = contents h l \<and>
    (case list_add h l other of (l', other', r) \<Rightarrow>
       contents h l' = contents h l \<and> contents h other' = contents h other \<and>
       list_ok r \<and> contents h r = contents h l @ contents h other)"
  using assms list_add_spec [OF assms, of h] by (auto simp: list_mul_spec split: prod.splits)

theorem list_mul_add_exact_witness:
  "contents demo_heap (snd (list_mul demo_heap demo_list 2)) = [8, 8, 8, 8]"
  using list_mul_add_exact [of demo_list demo_list demo_heap 2]
  by (simp add: demo_list_contents numeral_2_eq_2)

text \<open>Iterating over a list that does not change yields its elements in order, and the reverse
  iterator yields them backwards, each followed by \<^verbatim>\<open>StopIteration\<close> for ever; the 64-bit index of
  the reverse iterator wraps below zero without harm, also for the empty list.\<close>

theorem list_iteration_exact:
  assumes "list_ok l" and "length (contents h l) < 2 ^ 64"
  shows "list_next_results h l n 0 =
      map Ok (take n (contents h l))
        @ replicate (n - length (contents h l)) (Err StopIteration) \<and>
    reverse_results h l n (reverse_iterator_create l) =
      map Ok (take n (rev (contents h l)))
        @ replicate (n - length (contents h l)) (Err StopIteration)"
  using list_next_results_drop [OF assms(1), of h n 0]
    reverse_results_take [OF assms order_refl, of n]
  by (simp add: reverse_iterator_create_def logical_size_contents [OF assms(1), of h])

theorem list_iteration_exact_witness:
  "reverse_results demo_heap (list_create [2, 4]) 3 (reverse_iterator_create (list_create [2, 4]))
     = [Ok 4, Ok 2, Err StopIteration]"
  using list_iteration_exact [of "list_create [2, 4]" demo_heap 3] by simp

text \<open>Deleting a slice never removes an element: whenever \<^verbatim>\<open>del l[start:stop:step]\<close> returns
  normally, the contents are what they were. Assigning to a contiguous slice inserts the new values
  at the start and removes nothing.\<close>

theorem list_slice_assignment_removes_nothing:
  assumes "list_ok l" and "unpack sl = Ok (start, stop, step)" and "stop \<noteq> int64_min"
    and "0 \<le> start" and "start \<le> int (length (contents h l))" and "start \<noteq> int64_max"
    and "in_int64 start"
  shows "contents h (fst (list_delitem h l (SliceSubscript sl))) = contents h l \<and>
    (step = 1 \<longrightarrow>
      contents h (fst (list_setitem h l (SliceSubscript sl) v (Some (vs, StopIteration)))) =
        take (nat start) (contents h l) @ vs @ drop (nat start) (contents h l))"
proof -
  have "wp (delitem_slice (contents h l) sl) (\<lambda>els'. els' = contents h l)"
    using assms(2,3) by (intro delitem_slice_keeps) auto
  then have "contents h (fst (list_delitem h l (SliceSubscript sl))) = contents h l"
    using assms(1)
    by (cases "delitem_slice (contents h l) sl")
      (simp_all add: list_delitem_def store_elements_def Let_def)
  moreover have "contents h
      (fst (list_setitem h l (SliceSubscript sl) v (Some (vs, StopIteration)))) =
        take (nat start) (contents h l) @ vs @ drop (nat start) (contents h l)" if "step = 1"
    using assms that setitem_slice_inserts [of sl start stop "contents h l" vs]
    by (simp add: list_setitem_def store_elements_def Let_def)
  ultimately show ?thesis by simp
qed

definition demo_slice :: "unit PySlice" where
  "demo_slice = \<lparr>slice_start = PyInteger 1, slice_stop = PyInteger 3, slice_step = PyNone\<rparr>"

theorem list_slice_assignment_removes_nothing_witness:
  "contents demo_heap
     (fst (list_delitem demo_heap (list_create [2, 4, 6, 8]) (SliceSubscript demo_slice)))
     = [2, 4, 6, 8] \<and>
   contents demo_heap
     (fst (list_setitem demo_heap (list_create [2, 4, 6, 8]) (SliceSubscript demo_slice) 0
        (Some ([10], StopIteration)))) = [2, 10, 4, 6, 8]"
  using list_slice_assignment_removes_nothing
    [of "list_create [2, 4, 6, 8]" demo_slice 1 3 1 demo_heap 0 "[10]"]
  by (simp add: demo_slice_def unpack_def as_i64_def assert_that_def in_int64_def)

end
