(* ===== verification/List_Sort.thy ===== *)
theory List_Sort
  imports Lists "HOL-Library.Multiset"
begin

text \<open>
  \<open>PyList::sort\<close> (\<^verbatim>\<open>src/src/runtime/PyList.cpp\<close>): sorting with and without a key function, in
  both directions. With a key the code sorts indices and then permutes the vector in place by
  swapping along the cycles of the permutation; without one it sorts the vector directly, with a
  shortcut when every element is a tagged integer. Comparing two values through the interpreter is
  the parameter \<open>lt_op\<close> (\<^verbatim>\<open>less_than\<close>), for values whose comparison raises nothing; a call of the key function is
  the parameter \<open>key\<close> and may raise.
\<close>

section \<open>The code\<close>

text \<open>
  \<^verbatim>\<open>std::stable_sort\<close>. For a strict weak order its result is determined: the elements in order,
  equivalent ones as they stood before.
\<close>

fun stable_insert :: "('a \<Rightarrow> 'a \<Rightarrow> bool) \<Rightarrow> 'a \<Rightarrow> 'a list \<Rightarrow> 'a list" where
  "stable_insert lt x [] = [x]"
| "stable_insert lt x (y # ys) = (if lt y x then y # stable_insert lt x ys else x # y # ys)"

definition stable_sort :: "('a \<Rightarrow> 'a \<Rightarrow> bool) \<Rightarrow> 'a list \<Rightarrow> 'a list" where
  "stable_sort lt xs = foldr (stable_insert lt) xs []"

text \<open>\<^verbatim>\<open>stable_sort(rbegin, rend, cmp)\<close> sorts the reversed sequence.\<close>

definition sort_direction :: "bool \<Rightarrow> ('a \<Rightarrow> 'a \<Rightarrow> bool) \<Rightarrow> 'a list \<Rightarrow> 'a list" where
  "sort_direction reverse cmp xs =
     (if reverse then rev (stable_sort cmp (rev xs)) else stable_sort cmp xs)"

fun call_key :: "(rt_value \<Rightarrow> rt_value py_result) \<Rightarrow> rt_value list \<Rightarrow> rt_value list py_result" where
  "call_key key [] = Ok []"
| "call_key key (x # xs) =
     and_then (key x) (\<lambda>k. and_then (call_key key xs) (\<lambda>ks. Ok (k # ks)))"

definition swap_at :: "'a list \<Rightarrow> nat \<Rightarrow> nat \<Rightarrow> 'a list" where
  "swap_at xs i j = xs[i := xs ! j, j := xs ! i]"

text \<open>The search for the position that holds \<open>i\<close>.\<close>

function position_from :: "nat list \<Rightarrow> nat \<Rightarrow> nat \<Rightarrow> nat" where
  "position_from indices i k =
     (if k < length indices \<and> indices ! k \<noteq> i then position_from indices i (Suc k) else k)"
  by pat_completeness auto
termination by (relation "measure (\<lambda>(indices, i, k). length indices - k)") auto

declare position_from.simps [simp del]

function permute_from :: "rt_value list \<Rightarrow> nat list \<Rightarrow> nat \<Rightarrow> rt_value list py_result" where
  "permute_from els indices i =
     (if i < length indices - 1 then
        if indices ! i = i then permute_from els indices (Suc i)
        else let k = position_from indices i (Suc i) in
          if k < length indices \<and> i < length els \<and> indices ! i < length els then
            permute_from (swap_at els i (indices ! i)) (swap_at indices i k) (Suc i)
          else Abort Undefined
      else Ok els)"
  by pat_completeness auto
termination
  by (relation "measure (\<lambda>(els, indices, i). length indices - i)") (auto simp: swap_at_def)

declare permute_from.simps [simp del]

definition sort_by_key ::
  "(rt_value \<Rightarrow> rt_value \<Rightarrow> bool) \<Rightarrow> (rt_value \<Rightarrow> rt_value py_result) \<Rightarrow> bool \<Rightarrow> rt_value list
     \<Rightarrow> rt_value list py_result" where
  "sort_by_key lt_op key reverse els =
     and_then (call_key key els) (\<lambda>cmp_list.
       let indices = sort_direction reverse (\<lambda>i j. lt_op (cmp_list ! i) (cmp_list ! j))
             [0 ..< length cmp_list]
       in permute_from els indices 0)"

text \<open>The comparison of two words: tagged integers directly, everything else through \<open>lt_op\<close>.\<close>

definition sort_cmp :: "(rt_value \<Rightarrow> rt_value \<Rightarrow> bool) \<Rightarrow> rt_value \<Rightarrow> rt_value \<Rightarrow> bool" where
  "sort_cmp lt_op lhs rhs =
     (if is_tagged_int lhs \<and> is_tagged_int rhs then as_int lhs < as_int rhs else lt_op lhs rhs)"

definition sort_values ::
  "(rt_value \<Rightarrow> rt_value \<Rightarrow> bool) \<Rightarrow> bool \<Rightarrow> rt_value list \<Rightarrow> rt_value list" where
  "sort_values lt_op reverse els =
     (if list_all is_tagged_int els then
        if reverse then stable_sort (\<lambda>lhs rhs. as_int lhs > as_int rhs) els
        else stable_sort (\<lambda>lhs rhs. as_int lhs < as_int rhs) els
      else sort_direction reverse (sort_cmp lt_op) els)"

definition list_sort ::
  "'f rt_heap \<Rightarrow> (rt_value \<Rightarrow> rt_value \<Rightarrow> bool) \<Rightarrow> (rt_value \<Rightarrow> rt_value py_result) option \<Rightarrow> bool
     \<Rightarrow> PyList \<Rightarrow> unit list_op" where
  "list_sort h lt_op key reverse l0 =
     (let l = normalize_storage h l0 in
      if m_elements l = [] then (l, Ok ())
      else case key of
        Some f \<Rightarrow> store_elements l (sort_by_key lt_op f reverse (m_elements l))
      | None \<Rightarrow> (l\<lparr>m_elements := sort_values lt_op reverse (m_elements l)\<rparr>, Ok ()))"

section \<open>Stable sorting\<close>

lemma mset_stable_insert [simp]: "mset (stable_insert lt x ys) = add_mset x (mset ys)"
  by (induction ys) auto

lemma mset_stable_sort [simp]: "mset (stable_sort lt xs) = mset xs"
  by (induction xs) (simp_all add: stable_sort_def)

lemma set_stable_insert [simp]: "set (stable_insert lt x ys) = insert x (set ys)"
  by (induction ys) auto

lemma stable_insert_map:
  "stable_insert lt (f x) (map f ys) = map f (stable_insert (\<lambda>a b. lt (f a) (f b)) x ys)"
  by (induction ys) auto

lemma stable_sort_map:
  "stable_sort lt (map f xs) = map f (stable_sort (\<lambda>a b. lt (f a) (f b)) xs)"
  by (induction xs) (simp_all add: stable_sort_def stable_insert_map)

lemma stable_insert_cong:
  "(\<And>y. y \<in> set ys \<Longrightarrow> lt y x = lt' y x) \<Longrightarrow> stable_insert lt x ys = stable_insert lt' x ys"
  by (induction ys) auto

lemma stable_sort_cong:
  assumes "\<And>x y. x \<in> set xs \<Longrightarrow> y \<in> set xs \<Longrightarrow> lt x y = lt' x y"
  shows "stable_sort lt xs = stable_sort lt' xs"
  using assms
proof (induction xs)
  case (Cons x xs)
  have "stable_sort lt xs = stable_sort lt' xs" using Cons by simp
  moreover have "set (stable_sort lt' xs) = set xs"
    by (metis mset_stable_sort set_mset_mset)
  ultimately show ?case
    using Cons.prems stable_insert_cong [of "stable_sort lt' xs" lt x lt']
    by (simp add: stable_sort_def)
qed (simp add: stable_sort_def)

lemma sort_direction_map:
  "sort_direction r lt (map f xs) = map f (sort_direction r (\<lambda>a b. lt (f a) (f b)) xs)"
  using stable_sort_map [of lt f "rev xs"] by (simp add: sort_direction_def stable_sort_map rev_map)

lemma sort_direction_cong:
  assumes "\<And>x y. x \<in> set xs \<Longrightarrow> y \<in> set xs \<Longrightarrow> lt x y = lt' x y"
  shows "sort_direction r lt xs = sort_direction r lt' xs"
  using assms stable_sort_cong [of xs lt lt'] stable_sort_cong [of "rev xs" lt lt']
  by (simp add: sort_direction_def)

lemma sort_direction_Nil [simp]: "sort_direction r lt [] = []"
  by (simp add: sort_direction_def stable_sort_def)

lemma mset_sort_direction [simp]: "mset (sort_direction r lt xs) = mset xs"
  by (simp add: sort_direction_def)

text \<open>A strict weak order, as \<^verbatim>\<open>std::stable_sort\<close> requires of its comparison.\<close>

locale strict_weak_order =
  fixes lt :: "'a \<Rightarrow> 'a \<Rightarrow> bool"
  assumes lt_asym: "lt x y \<Longrightarrow> \<not> lt y x"
    and not_lt_trans: "\<not> lt y x \<Longrightarrow> \<not> lt z y \<Longrightarrow> \<not> lt z x"
begin

lemma sorted_stable_insert:
  "sorted_wrt (\<lambda>a b. \<not> lt b a) ys \<Longrightarrow> sorted_wrt (\<lambda>a b. \<not> lt b a) (stable_insert lt x ys)"
proof (induction ys)
  case (Cons y ys)
  then show ?case using lt_asym [of y x] not_lt_trans [of y x] by auto
qed simp

lemma sorted_stable_sort: "sorted_wrt (\<lambda>a b. \<not> lt b a) (stable_sort lt xs)"
  by (induction xs) (simp_all add: stable_sort_def sorted_stable_insert)

lemma filter_stable_insert:
  "filter (\<lambda>y. \<not> lt v y \<and> \<not> lt y v) (stable_insert lt x ys) =
     filter (\<lambda>y. \<not> lt v y \<and> \<not> lt y v) (x # ys)"
  by (induction ys) (auto dest: not_lt_trans [of v x])

lemma filter_stable_sort:
  "filter (\<lambda>y. \<not> lt v y \<and> \<not> lt y v) (stable_sort lt xs) =
     filter (\<lambda>y. \<not> lt v y \<and> \<not> lt y v) xs"
  by (induction xs) (simp_all add: stable_sort_def filter_stable_insert)

lemma sort_direction_sorted:
  "sorted_wrt (\<lambda>a b. if r then \<not> lt a b else \<not> lt b a) (sort_direction r lt xs)"
  using sorted_stable_sort [of xs] sorted_stable_sort [of "rev xs"]
  by (cases r) (simp_all add: sort_direction_def sorted_wrt_rev)

lemma sort_direction_stable:
  "filter (\<lambda>y. \<not> lt v y \<and> \<not> lt y v) (sort_direction r lt xs) =
     filter (\<lambda>y. \<not> lt v y \<and> \<not> lt y v) xs"
  using filter_stable_sort [of v xs] filter_stable_sort [of v "rev xs"]
  by (simp add: sort_direction_def rev_filter [symmetric])

lemma by_key: "strict_weak_order (\<lambda>x y. lt (f x) (f y))"
  by unfold_locales (use lt_asym not_lt_trans in blast)+

end

text \<open>The two comparisons of the shortcut for tagged integers.\<close>

interpretation tagged_order: strict_weak_order "\<lambda>l r. as_int l < as_int r"
  by unfold_locales auto

interpretation tagged_reverse_order: strict_weak_order "\<lambda>l r. as_int l > as_int r"
  by unfold_locales auto

section \<open>The permutation in place\<close>

lemma position_from_found:
  assumes "k \<le> j" and "j < length indices" and "indices ! j = i"
  shows "k \<le> position_from indices i k \<and> position_from indices i k < length indices \<and>
    indices ! position_from indices i k = i"
  using assms
proof (induction indices i k rule: position_from.induct)
  case (1 indices i k)
  show ?case
  proof (cases "k < length indices \<and> indices ! k \<noteq> i")
    case True
    then have "Suc k \<le> j" using 1(2,4) by (metis le_neq_implies_less Suc_leI)
    then show ?thesis using 1(1,3,4) True by (subst (1 2 3) position_from.simps) auto
  next
    case False
    then show ?thesis using 1 by (subst (1 2 3) position_from.simps) auto
  qed
qed

text \<open>A list of indices that names every position once.\<close>

definition is_permutation :: "nat list \<Rightarrow> nat \<Rightarrow> bool" where
  "is_permutation indices n \<longleftrightarrow> mset indices = mset [0 ..< n]"

lemma is_permutationD:
  assumes "is_permutation indices n"
  shows "length indices = n" and "distinct indices" and "set indices = {..< n}"
proof -
  have m: "mset indices = mset [0 ..< n]" using assms by (simp add: is_permutation_def)
  show "length indices = n" using mset_eq_length [OF m] by simp
  show "distinct indices" using mset_eq_imp_distinct_iff [OF m] by simp
  have "set indices = set [0 ..< n]" by (rule mset_eq_setD [OF m])
  then show "set indices = {..< n}" by (simp only: set_upt lessThan_atLeast0)
qed

lemma mset_swap_at: "i < length xs \<Longrightarrow> j < length xs \<Longrightarrow> mset (swap_at xs i j) = mset xs"
  using mset_swap [of j xs i] by (simp add: swap_at_def)

lemma swap_at_nth:
  "i < length xs \<Longrightarrow> j < length xs \<Longrightarrow> swap_at xs i j ! m =
     (if m = j then xs ! i else if m = i then xs ! j else xs ! m)"
  by (simp add: swap_at_def nth_list_update)

lemma swap_keeps_target:
  assumes "is_permutation indices (length els)" and "i < length els" and "k < length els"
    and "indices ! k = i" and "indices ! i \<noteq> i"
  shows "map ((!) (swap_at els i (indices ! i))) (swap_at indices i k) = map ((!) els) indices"
proof (rule nth_equalityI)
  note perm = is_permutationD [OF assms(1)]
  have len: "length (swap_at indices i k) = length els" using perm by (simp add: swap_at_def)
  then show "length (map ((!) (swap_at els i (indices ! i))) (swap_at indices i k)) =
      length (map ((!) els) indices)"
    using perm by simp
  fix m assume "m < length (map ((!) (swap_at els i (indices ! i))) (swap_at indices i k))"
  then have m: "m < length els" using len by simp
  have in_range: "indices ! j < length els" if "j < length els" for j
    using that perm nth_mem [of j indices] by auto
  have inj: "indices ! j = indices ! j' \<longleftrightarrow> j = j'" if "j < length els" "j' < length els" for j j'
    using that perm by (simp add: nth_eq_iff_index_eq)
  have "swap_at els i (indices ! i) ! (swap_at indices i k ! m) = els ! (indices ! m)"
    using m assms perm in_range [of i] in_range [of m] inj [of m i] inj [of m k]
    by (auto simp: swap_at_nth)
  then show "map ((!) (swap_at els i (indices ! i))) (swap_at indices i k) ! m =
      map ((!) els) indices ! m"
    using m len perm by simp
qed

lemma all_but_last_fixed:
  assumes "is_permutation indices n" and "\<And>j. j < n - 1 \<Longrightarrow> indices ! j = j"
  shows "indices = [0 ..< n]"
proof (rule nth_equalityI)
  note perm = is_permutationD [OF assms(1)]
  show "length indices = length [0 ..< n]" using perm by simp
  fix j assume "j < length indices"
  then have j: "j < n" using perm by simp
  have "indices ! j = j"
  proof (rule ccontr)
    assume ne: "indices ! j \<noteq> j"
    then have last: "j = n - 1" using j assms(2) [of j] by linarith
    have "indices ! j < n" using j perm nth_mem [of j indices] by auto
    with ne last have "indices ! j < n - 1" by linarith
    then have "indices ! (indices ! j) = indices ! j" by (rule assms(2))
    then show False
      using ne j perm \<open>indices ! j < n\<close> nth_eq_iff_index_eq [of indices "indices ! j" j] by simp
  qed
  then show "indices ! j = [0 ..< n] ! j" using j by simp
qed

lemma permute_from_target:
  assumes "is_permutation indices (length els)" and "\<And>j. j < i \<Longrightarrow> j < length els \<Longrightarrow> indices ! j = j"
  shows "permute_from els indices i = Ok (map ((!) els) indices)"
  using assms
proof (induction els indices i rule: permute_from.induct)
  case (1 els indices i)
  note perm = is_permutationD [OF 1(3)]
  show ?case
  proof (cases "i < length indices - 1")
    case False
    then have "indices = [0 ..< length els]"
      using 1(3,4) perm(1) by (intro all_but_last_fixed) auto
    then show ?thesis using False by (simp add: permute_from.simps map_nth)
  next
    case i: True
    show ?thesis
    proof (cases "indices ! i = i")
      case True
      then have "permute_from els indices (Suc i) = Ok (map ((!) els) indices)"
        using i 1(3,4) by (intro 1(1)) (auto simp: less_Suc_eq)
      then show ?thesis using i True by (simp add: permute_from.simps [of els indices i])
    next
      case False
      have "i \<in> set indices" using i perm by simp
      then obtain j where j: "j < length indices" "indices ! j = i" by (auto simp: in_set_conv_nth)
      then have "Suc i \<le> j"
        using False 1(4) [of j] perm(1) by (metis not_less_eq_eq le_neq_implies_less)
      then obtain k where k: "k = position_from indices i (Suc i)" "Suc i \<le> k" "k < length indices"
          "indices ! k = i"
        using position_from_found [OF _ j] by blast
      have ok: "k < length indices \<and> i < length els \<and> indices ! i < length els"
        using i k perm nth_mem [of i indices] by auto
      have "permute_from (swap_at els i (indices ! i)) (swap_at indices i k) (Suc i) =
          Ok (map ((!) (swap_at els i (indices ! i))) (swap_at indices i k))"
      proof (rule 1(2) [OF i False k(1) ok])
        show "is_permutation (swap_at indices i k) (length (swap_at els i (indices ! i)))"
          using 1(3) ok perm(1) mset_swap_at [of i indices k]
          by (simp add: is_permutation_def) (simp add: swap_at_def)
        show "swap_at indices i k ! j = j"
          if "j < Suc i" "j < length (swap_at els i (indices ! i))" for j
          using that 1(4) [of j] ok k perm(1) by (auto simp: swap_at_nth swap_at_def [of els])
      qed
      also have "\<dots> = Ok (map ((!) els) indices)"
        using swap_keeps_target [OF 1(3), of i k] ok k perm(1) False by simp
      finally show ?thesis
        using i False ok k(1) by (simp add: permute_from.simps [of els indices i] Let_def)
    qed
  qed
qed

section \<open>Sorting a list\<close>

lemma call_key_map:
  "(\<And>x. x \<in> set xs \<Longrightarrow> key x = Ok (k x)) \<Longrightarrow> call_key key xs = Ok (map k xs)"
  by (induction xs) simp_all

lemma sort_by_key_value:
  assumes "\<And>x. x \<in> set els \<Longrightarrow> key x = Ok (k x)"
  shows "sort_by_key lt_op key r els = Ok (sort_direction r (\<lambda>x y. lt_op (k x) (k y)) els)"
proof -
  let ?n = "length els"
  let ?idx = "sort_direction r (\<lambda>i j. lt_op (map k els ! i) (map k els ! j)) [0 ..< ?n]"
  have "is_permutation ?idx ?n" by (simp add: is_permutation_def)
  then have "permute_from els ?idx 0 = Ok (map ((!) els) ?idx)"
    by (rule permute_from_target) simp
  moreover have "?idx = sort_direction r (\<lambda>i j. lt_op (k (els ! i)) (k (els ! j))) [0 ..< ?n]"
    by (rule sort_direction_cong) simp
  moreover have "map ((!) els) (sort_direction r (\<lambda>i j. lt_op (k (els ! i)) (k (els ! j))) [0 ..< ?n])
      = sort_direction r (\<lambda>x y. lt_op (k x) (k y)) els"
    using sort_direction_map [of r "\<lambda>x y. lt_op (k x) (k y)" "(!) els" "[0 ..< ?n]"]
    by (simp add: map_nth)
  ultimately show ?thesis
    using call_key_map [of els key k] assms by (simp add: sort_by_key_def Let_def)
qed

lemma list_sort_key_contents:
  assumes "list_ok l" and "\<And>x. x \<in> set (contents h l) \<Longrightarrow> key x = Ok (k x)"
  shows "snd (list_sort h lt_op (Some key) r l) = Ok ()"
    and "list_ok (fst (list_sort h lt_op (Some key) r l))"
    and "contents h (fst (list_sort h lt_op (Some key) r l)) =
      sort_direction r (\<lambda>x y. lt_op (k x) (k y)) (contents h l)"
proof -
  have "sort_by_key lt_op key r (contents h l) =
      Ok (sort_direction r (\<lambda>x y. lt_op (k x) (k y)) (contents h l))"
    by (rule sort_by_key_value) (rule assms(2))
  then show "snd (list_sort h lt_op (Some key) r l) = Ok ()"
    and "list_ok (fst (list_sort h lt_op (Some key) r l))"
    and "contents h (fst (list_sort h lt_op (Some key) r l)) =
      sort_direction r (\<lambda>x y. lt_op (k x) (k y)) (contents h l)"
    using assms(1)
    by (simp_all add: list_sort_def store_elements_def Let_def)
qed

lemma list_sort_contents:
  assumes "list_ok l"
  shows "snd (list_sort h lt_op None r l) = Ok ()"
    and "list_ok (fst (list_sort h lt_op None r l))"
    and "contents h (fst (list_sort h lt_op None r l)) = sort_values lt_op r (contents h l)"
  using assms
  by (simp_all add: list_sort_def Let_def sort_values_def stable_sort_def sort_direction_def)

lemma sort_values_tagged:
  assumes "list_all is_tagged_int els"
  shows "sort_values lt_op r els =
    (if r then stable_sort (\<lambda>lhs rhs. as_int lhs > as_int rhs) els
     else stable_sort (\<lambda>lhs rhs. as_int lhs < as_int rhs) els)"
  using assms by (simp add: sort_values_def)

lemma mset_eq_same:
  assumes "mset xs = mset ys" and "\<And>a b. a \<in> set xs \<Longrightarrow> b \<in> set xs \<Longrightarrow> a = b"
  shows "xs = ys"
proof (cases xs)
  case (Cons x xs')
  have "set ys = set xs" using mset_eq_setD [OF assms(1)] by simp
  then have "\<forall>y \<in> set xs. y = x" "\<forall>y \<in> set ys. y = x" using assms(2) Cons by auto
  then show ?thesis
    using mset_eq_length [OF assms(1)] by (metis replicate_length_same)
qed (use assms(1) in simp)

lemma tagged_words_eq:
  "is_tagged_int x \<Longrightarrow> is_tagged_int y \<Longrightarrow> as_int x = as_int y \<Longrightarrow> x = y"
  by (metis from_int_as_int)

lemma sort_values_spec:
  assumes "strict_weak_order (sort_cmp lt_op)"
  shows "mset (sort_values lt_op r els) = mset els"
    and "sorted_wrt (\<lambda>x y. if r then \<not> sort_cmp lt_op x y else \<not> sort_cmp lt_op y x)
      (sort_values lt_op r els)"
    and "filter (\<lambda>y. \<not> sort_cmp lt_op v y \<and> \<not> sort_cmp lt_op y v) (sort_values lt_op r els) =
      filter (\<lambda>y. \<not> sort_cmp lt_op v y \<and> \<not> sort_cmp lt_op y v) els"
proof -
  show m: "mset (sort_values lt_op r els) = mset els" by (simp add: sort_values_def)
  have set_eq: "set (sort_values lt_op r els) = set els"
    using mset_eq_setD [OF m] .
  have general: "sort_values lt_op r els = sort_direction r (sort_cmp lt_op) els"
    if "\<not> (list_all is_tagged_int els \<and> r)"
    using that stable_sort_cong [of els "\<lambda>lhs rhs. as_int lhs < as_int rhs" "sort_cmp lt_op"]
    by (auto simp: sort_values_def sort_direction_def sort_cmp_def list_all_iff)
  show "sorted_wrt (\<lambda>x y. if r then \<not> sort_cmp lt_op x y else \<not> sort_cmp lt_op y x)
      (sort_values lt_op r els)"
  proof (cases "list_all is_tagged_int els \<and> r")
    case True
    have "sorted_wrt (\<lambda>x y. \<not> as_int y > as_int x) (sort_values lt_op r els)"
      using True tagged_reverse_order.sorted_stable_sort [of els] by (simp add: sort_values_tagged)
    then show ?thesis
      using True set_eq
      by (auto elim!: sorted_wrt_mono_rel [rotated] simp: sort_cmp_def list_all_iff)
  next
    case False
    then show ?thesis
      using general strict_weak_order.sort_direction_sorted [OF assms, of r els] by simp
  qed
  show "filter (\<lambda>y. \<not> sort_cmp lt_op v y \<and> \<not> sort_cmp lt_op y v) (sort_values lt_op r els) =
      filter (\<lambda>y. \<not> sort_cmp lt_op v y \<and> \<not> sort_cmp lt_op y v) els"
  proof (cases "list_all is_tagged_int els \<and> r")
    case True
    let ?P = "\<lambda>y. \<not> sort_cmp lt_op v y \<and> \<not> sort_cmp lt_op y v"
    have "filter ?P els = filter ?P (sort_values lt_op r els)"
    proof (rule mset_eq_same)
      show "mset (filter ?P els) = mset (filter ?P (sort_values lt_op r els))"
        using m by (simp add: mset_filter)
      fix a b assume "a \<in> set (filter ?P els)" and "b \<in> set (filter ?P els)"
      then have "\<not> sort_cmp lt_op a b" "\<not> sort_cmp lt_op b a"
          and "is_tagged_int a" "is_tagged_int b"
        using True strict_weak_order.not_lt_trans [OF assms, of v]
        by (auto simp: list_all_iff)
      then show "a = b" by (auto simp: sort_cmp_def intro: tagged_words_eq)
    qed
    then show ?thesis by simp
  next
    case False
    then show ?thesis
      using general strict_weak_order.sort_direction_stable [OF assms, of v r els] by simp
  qed
qed

section \<open>Properties\<close>

text \<open>C18: \<^verbatim>\<open>sort\<close> with a key function that returns on every element: the list ends up with the
  same elements, ordered by their keys (descending with \<^verbatim>\<open>reverse\<close>), and elements with equivalent
  keys keep their order in both directions. The in-place permutation is exact for every list.\<close>

theorem list_sort_by_key_exact:
  assumes "list_ok l" and "strict_weak_order lt_op"
    and "\<And>x. x \<in> set (contents h l) \<Longrightarrow> key x = Ok (k x)"
  shows "case list_sort h lt_op (Some key) reverse l of (l', r) \<Rightarrow>
    r = Ok () \<and> list_ok l' \<and> mset (contents h l') = mset (contents h l) \<and>
    sorted_wrt (\<lambda>x y. if reverse then \<not> lt_op (k x) (k y) else \<not> lt_op (k y) (k x))
      (contents h l') \<and>
    (\<forall>v. filter (\<lambda>y. \<not> lt_op (k v) (k y) \<and> \<not> lt_op (k y) (k v)) (contents h l') =
      filter (\<lambda>y. \<not> lt_op (k v) (k y) \<and> \<not> lt_op (k y) (k v)) (contents h l))"
proof -
  note key_order = strict_weak_order.by_key [OF assms(2), of k]
  have returns: "snd (list_sort h lt_op (Some key) reverse l) = Ok ()"
      "list_ok (fst (list_sort h lt_op (Some key) reverse l))"
    and sorted: "contents h (fst (list_sort h lt_op (Some key) reverse l)) =
      sort_direction reverse (\<lambda>x y. lt_op (k x) (k y)) (contents h l)"
    using list_sort_key_contents [OF assms(1), of h key k] assms(3) by blast+
  show ?thesis
    unfolding case_prod_beta sorted
    by (intro conjI allI returns mset_sort_direction
        strict_weak_order.sort_direction_sorted [OF key_order]
        strict_weak_order.sort_direction_stable [OF key_order])
qed

theorem list_sort_by_key_exact_witness:
  "case list_sort demo_heap (\<lambda>x y. as_int x < as_int y) (Some (\<lambda>x. Ok (from_int (- as_int x))))
     False (list_create [from_int 1, from_int 2]) of (l', r) \<Rightarrow>
   r = Ok () \<and> mset (contents demo_heap l') = {#from_int 1, from_int 2#}"
  using list_sort_by_key_exact [OF list_create_spec(1) tagged_order.strict_weak_order_axioms,
      of demo_heap "[from_int 1, from_int 2]" "\<lambda>x. Ok (from_int (- as_int x))"
        "\<lambda>x. from_int (- as_int x)" False]
  by (auto simp: case_prod_beta)

text \<open>\<^verbatim>\<open>sort\<close> without a key: the same guarantees for the comparison the code uses on two
  words, including the shortcut for lists of tagged integers, whose reverse sort uses another
  comparison than the general path.\<close>

theorem list_sort_exact:
  assumes "list_ok l" and "strict_weak_order (sort_cmp lt_op)"
  shows "case list_sort h lt_op None reverse l of (l', r) \<Rightarrow>
    r = Ok () \<and> list_ok l' \<and> mset (contents h l') = mset (contents h l) \<and>
    sorted_wrt (\<lambda>x y. if reverse then \<not> sort_cmp lt_op x y else \<not> sort_cmp lt_op y x)
      (contents h l') \<and>
    (\<forall>v. filter (\<lambda>y. \<not> sort_cmp lt_op v y \<and> \<not> sort_cmp lt_op y v) (contents h l') =
      filter (\<lambda>y. \<not> sort_cmp lt_op v y \<and> \<not> sort_cmp lt_op y v) (contents h l))"
  unfolding case_prod_beta list_sort_contents [OF assms(1)]
  by (intro conjI allI refl sort_values_spec [OF assms(2)] list_sort_contents [OF assms(1)])

theorem list_sort_exact_witness:
  "case list_sort demo_heap (\<lambda>x y. as_int x < as_int y) None True
     (list_create [from_int 1, from_int 2]) of (l', r) \<Rightarrow>
   r = Ok () \<and> mset (contents demo_heap l') = {#from_int 1, from_int 2#}"
proof -
  have "sort_cmp (\<lambda>x y. as_int x < as_int y) = (\<lambda>x y. as_int x < as_int y)"
    by (simp add: sort_cmp_def fun_eq_iff)
  then have "strict_weak_order (sort_cmp (\<lambda>x y. as_int x < as_int y))"
    using tagged_order.strict_weak_order_axioms by simp
  from list_sort_exact [OF list_create_spec(1) this, where h = demo_heap and reverse = True]
  show ?thesis by (auto simp: case_prod_beta)
qed

end
