(* ===== verification/Arenas.thy ===== *)
theory Arenas
  imports Prelude
begin

text \<open>
  The arena allocator (\<^verbatim>\<open>src/src/memory/Arena.hpp\<close>, the configuration without the Boehm
  collector), the manager of the global arenas (\<^verbatim>\<open>ArenaManager.hpp\<close>) and the scoped regions of
  compiled functions (\<^verbatim>\<open>ScopedRegion.hpp\<close>). Addresses and \<^verbatim>\<open>size_t\<close> values are natural
  numbers, with the wrap-around at \<open>2 ^ 64\<close> written out where the code adds them. Memory comes
  from \<^verbatim>\<open>::operator new\<close>, a parameter that sees the segments now handed out; destructors are
  recorded in the order in which they run.
\<close>

unbundle bit_operations_syntax

section \<open>Memory\<close>

text \<open>The segments (address and size) that \<^verbatim>\<open>operator new\<close> has handed out and not taken back.\<close>

type_synonym segment = "nat \<times> nat"
type_synonym memory = "segment list"
type_synonym operator_new = "memory \<Rightarrow> nat \<Rightarrow> nat option"

definition span :: "segment \<Rightarrow> nat set" where
  "span s = {fst s ..< fst s + snd s}"

text \<open>
  What \<^verbatim>\<open>operator new\<close> guarantees when it does not throw: an address other than null, aligned for
  every fundamental type (16 bytes), a segment inside the address space, no larger than
  \<^verbatim>\<open>PTRDIFF_MAX\<close>, that overlaps no other segment.
\<close>

definition new_ok :: "operator_new \<Rightarrow> bool" where
  "new_ok new \<longleftrightarrow>
     (\<forall>m n p. new m n = Some p \<longrightarrow>
        0 < p \<and> 16 dvd p \<and> p + n < 2 ^ 64 \<and> n < 2 ^ 63 \<and>
        (\<forall>s \<in> set m. span (p, n) \<inter> span s = {}) \<and> p \<notin> fst ` set m)"

definition operator_delete :: "memory \<Rightarrow> nat \<Rightarrow> memory" where
  "operator_delete m p = filter (\<lambda>s. fst s \<noteq> p) m"

definition add_size :: "nat \<Rightarrow> nat \<Rightarrow> nat" where
  "add_size a b = (a + b) mod 2 ^ 64"

section \<open>Arenas\<close>

record block =
  block_memory :: nat
  capacity :: nat
  offset :: nat

text \<open>A destructor entry: the object and the function to call on it.\<close>

type_synonym dtor_entry = "nat \<times> nat"

record arena =
  m_blocks :: "block list"
  m_destructors :: "dtor_entry list"
  m_default_block_size :: nat
  m_total_allocated :: nat

definition kDefaultBlockSize :: nat where "kDefaultBlockSize = 64 * 1024"
definition kMaxBlockSize :: nat where "kMaxBlockSize = 4 * 1024 * 1024"

definition arena_create :: "nat \<Rightarrow> arena" where
  "arena_create default_block_size =
     \<lparr>m_blocks = [], m_destructors = [], m_default_block_size = default_block_size,
      m_total_allocated = 0\<rparr>"

definition align_up :: "nat \<Rightarrow> nat \<Rightarrow> nat" where
  "align_up off align =
     unat ((of_nat off + of_nat align - 1) AND NOT (of_nat align - 1) :: 64 word)"

text \<open>\<open>None\<close> is the exception that \<^verbatim>\<open>operator new\<close> throws.\<close>

definition add_block :: "operator_new \<Rightarrow> memory \<Rightarrow> arena \<Rightarrow> nat \<Rightarrow> (memory \<times> arena) option" where
  "add_block new m a min_size =
     (let size0 = (if m_blocks a = [] then m_default_block_size a
                   else min (capacity (last (m_blocks a)) * 2 mod 2 ^ 64) kMaxBlockSize);
          block_size = max size0 (add_size min_size 16)
      in case new m block_size of
           None \<Rightarrow> None
         | Some p \<Rightarrow>
             Some ((p, block_size) # m,
                   a\<lparr>m_blocks := m_blocks a @
                      [\<lparr>block_memory = p, capacity = block_size, offset = 0\<rparr>]\<rparr>))"

text \<open>The common tail of both branches of \<open>bump_allocate\<close>: take \<open>bytes\<close> bytes from the last
  block at the aligned offset.\<close>

definition bump :: "arena \<Rightarrow> nat \<Rightarrow> nat \<Rightarrow> arena \<times> nat" where
  "bump a bytes align =
     (let current = last (m_blocks a); aligned_offset = align_up (offset current) align in
      (a\<lparr>m_blocks := butlast (m_blocks a) @ [current\<lparr>offset := add_size aligned_offset bytes\<rparr>],
         m_total_allocated := add_size (m_total_allocated a) bytes\<rparr>,
       add_size (block_memory current) aligned_offset))"

definition bump_allocate ::
  "operator_new \<Rightarrow> memory \<Rightarrow> arena \<Rightarrow> nat \<Rightarrow> nat \<Rightarrow> (memory \<times> arena \<times> nat) option" where
  "bump_allocate new m a bytes align =
     (if m_blocks a \<noteq> [] \<and>
         add_size (align_up (offset (last (m_blocks a))) align) bytes \<le> capacity (last (m_blocks a))
      then Some (m, bump a bytes align)
      else case add_block new m a bytes of
        None \<Rightarrow> None
      | Some (m', a') \<Rightarrow> Some (m', bump a' bytes align))"

text \<open>
  \<open>allocate\<close> and \<open>allocate_with_extra\<close> for a type of the given size and alignment; \<open>dtor\<close> is
  its destructor, \<open>None\<close> when it is trivial. The constructor runs on the memory returned.
\<close>

definition allocate_with_extra ::
  "operator_new \<Rightarrow> memory \<Rightarrow> arena \<Rightarrow> nat \<Rightarrow> nat \<Rightarrow> nat option \<Rightarrow> nat
     \<Rightarrow> (memory \<times> arena \<times> nat) option" where
  "allocate_with_extra new m a bytes align dtor extra_bytes =
     (case bump_allocate new m a (add_size bytes extra_bytes) align of
        None \<Rightarrow> None
      | Some (m', a', p) \<Rightarrow>
          Some (m', (case dtor of
                       None \<Rightarrow> a'
                     | Some d \<Rightarrow> a'\<lparr>m_destructors := m_destructors a' @ [(p, d)]\<rparr>), p))"

definition arena_allocate ::
  "operator_new \<Rightarrow> memory \<Rightarrow> arena \<Rightarrow> nat \<Rightarrow> nat \<Rightarrow> nat option
     \<Rightarrow> (memory \<times> arena \<times> nat) option" where
  "arena_allocate new m a bytes align dtor =
     (case bump_allocate new m a bytes align of
        None \<Rightarrow> None
      | Some (m', a', p) \<Rightarrow>
          Some (m', (case dtor of
                       None \<Rightarrow> a'
                     | Some d \<Rightarrow> a'\<lparr>m_destructors := m_destructors a' @ [(p, d)]\<rparr>), p))"

definition allocate_raw ::
  "operator_new \<Rightarrow> memory \<Rightarrow> arena \<Rightarrow> nat \<Rightarrow> nat \<Rightarrow> (memory \<times> arena \<times> nat) option" where
  "allocate_raw new m a bytes align = bump_allocate new m a bytes align"

text \<open>\<open>reset\<close> also returns the destructors it calls, in order.\<close>

definition arena_reset :: "memory \<Rightarrow> arena \<Rightarrow> memory \<times> arena \<times> dtor_entry list" where
  "arena_reset m a =
     (fold (\<lambda>b m. operator_delete m (block_memory b)) (m_blocks a) m,
      a\<lparr>m_destructors := [], m_blocks := [], m_total_allocated := 0\<rparr>,
      rev (m_destructors a))"

record save_point =
  sp_block_count :: nat
  sp_block_offset :: nat
  sp_dtor_count :: nat
  sp_total_allocated :: nat

definition arena_save :: "arena \<Rightarrow> save_point" where
  "arena_save a =
     \<lparr>sp_block_count = length (m_blocks a),
      sp_block_offset = (if m_blocks a = [] then 0 else offset (last (m_blocks a))),
      sp_dtor_count = length (m_destructors a),
      sp_total_allocated = m_total_allocated a\<rparr>"

text \<open>The two loops of \<open>restore\<close>, from the back of each vector.\<close>

function run_destructors :: "nat \<Rightarrow> dtor_entry list \<Rightarrow> dtor_entry list \<times> dtor_entry list" where
  "run_destructors count ds =
     (if length ds > count then
        (case run_destructors count (butlast ds) of (rest, calls) \<Rightarrow> (rest, last ds # calls))
      else (ds, []))"
  by pat_completeness auto
termination by (relation "measure (\<lambda>(count, ds). length ds)") auto

function free_blocks :: "nat \<Rightarrow> block list \<Rightarrow> memory \<Rightarrow> block list \<times> memory" where
  "free_blocks count bs m =
     (if length bs > count then
        free_blocks count (butlast bs) (operator_delete m (block_memory (last bs)))
      else (bs, m))"
  by pat_completeness auto
termination by (relation "measure (\<lambda>(count, bs, m). length bs)") auto

declare run_destructors.simps [simp del] free_blocks.simps [simp del]

definition arena_restore ::
  "memory \<Rightarrow> arena \<Rightarrow> save_point \<Rightarrow> memory \<times> arena \<times> dtor_entry list" where
  "arena_restore m a sp =
     (case run_destructors (sp_dtor_count sp) (m_destructors a) of (ds, calls) \<Rightarrow>
      case free_blocks (sp_block_count sp) (m_blocks a) m of (bs, m') \<Rightarrow>
        (m',
         a\<lparr>m_destructors := ds,
           m_blocks := (if bs \<noteq> [] \<and> length bs = sp_block_count sp
                        then butlast bs @ [(last bs)\<lparr>offset := sp_block_offset sp\<rparr>] else bs),
           m_total_allocated := sp_total_allocated sp\<rparr>,
         calls))"

section \<open>Alignment\<close>

lemma and_not_mask: "w AND NOT (mask k) = push_bit k (drop_bit k (w :: 64 word))"
  by (rule bit_eqI) (auto simp: bit_simps not_less)

lemma align_up_eq:
  assumes "off + 2 ^ k < 2 ^ 64"
  shows "align_up off (2 ^ k) = (off + 2 ^ k - 1) div 2 ^ k * 2 ^ k"
proof -
  have k: "k < 64"
    using assms by (metis add_lessD1 add.commute nat_power_less_imp_less zero_less_numeral)
  let ?w = "of_nat (off + 2 ^ k - 1) :: 64 word"
  have w: "unat ?w = off + 2 ^ k - 1" using assms by (simp add: unat_of_nat)
  have "1 \<le> off + 2 ^ k" by (simp add: trans_le_add2)
  then have "of_nat off + of_nat (2 ^ k) - 1 = ?w" by (simp add: of_nat_diff)
  moreover have "of_nat (2 ^ k) - 1 = (mask k :: 64 word)" by (simp add: mask_eq_exp_minus_1)
  ultimately have "align_up off (2 ^ k) = unat (push_bit k (drop_bit k ?w))"
    unfolding align_up_def and_not_mask [symmetric] by simp
  also have "\<dots> = unat ?w div 2 ^ k * 2 ^ k mod 2 ^ 64"
    using w assms by (simp only: unsigned_push_bit_eq unsigned_drop_bit_eq)
      (simp add: take_bit_eq_mod push_bit_eq_mult drop_bit_eq_div)
  also have "\<dots> = unat ?w div 2 ^ k * 2 ^ k"
    using w assms div_times_less_eq_dividend [of "unat ?w" "2 ^ k"] by (intro mod_less) linarith
  finally show ?thesis using w by simp
qed

lemma align_up_bounds:
  assumes "off + 2 ^ k < 2 ^ 64"
  shows "off \<le> align_up off (2 ^ k)" and "align_up off (2 ^ k) < off + 2 ^ k"
    and "2 ^ k dvd align_up off (2 ^ k)"
proof -
  let ?d = "2 ^ k :: nat"
  have "off + ?d - 1 = (off + ?d - 1) div ?d * ?d + (off + ?d - 1) mod ?d"
    by (rule div_mult_mod_eq [symmetric])
  moreover have "(off + ?d - 1) mod ?d < ?d" by simp
  moreover have "1 \<le> ?d" by simp
  ultimately show "off \<le> align_up off ?d" and "align_up off ?d < off + ?d"
    unfolding align_up_eq [OF assms] by linarith+
  show "?d dvd align_up off ?d" unfolding align_up_eq [OF assms] by simp
qed

section \<open>The invariant\<close>

definition memory_ok :: "memory \<Rightarrow> bool" where
  "memory_ok m \<longleftrightarrow> distinct (map fst m) \<and> sorted_wrt (\<lambda>s t. span s \<inter> span t = {}) m"

definition segment_of :: "block \<Rightarrow> segment" where
  "segment_of b = (block_memory b, capacity b)"

definition block_ok :: "block \<Rightarrow> bool" where
  "block_ok b \<longleftrightarrow>
     offset b \<le> capacity b \<and> capacity b < 2 ^ 63 \<and> 0 < block_memory b \<and> 16 dvd block_memory b \<and>
     block_memory b + capacity b < 2 ^ 64"

definition arena_ok :: "memory \<Rightarrow> arena \<Rightarrow> bool" where
  "arena_ok m a \<longleftrightarrow>
     (\<forall>b \<in> set (m_blocks a). block_ok b) \<and> segment_of ` set (m_blocks a) \<subseteq> set m \<and>
     sorted_wrt (\<lambda>b c. span (segment_of b) \<inter> span (segment_of c) = {}) (m_blocks a)"

text \<open>The bytes of a block, and of an arena, that have been given out.\<close>

definition used_block :: "block \<Rightarrow> nat set" where
  "used_block b = {block_memory b ..< block_memory b + offset b}"

definition used :: "arena \<Rightarrow> nat set" where
  "used a = (\<Union>b \<in> set (m_blocks a). used_block b)"

lemma used_block_span: "block_ok b \<Longrightarrow> used_block b \<subseteq> span (segment_of b)"
  by (auto simp: used_block_def span_def segment_of_def block_ok_def)

lemma new_ok_Some:
  assumes "new_ok new" and "new m n = Some p"
  shows "0 < p" "16 dvd p" "p + n < 2 ^ 64" "n < 2 ^ 63" "p \<notin> fst ` set m"
    and "s \<in> set m \<Longrightarrow> span (p, n) \<inter> span s = {}"
  using assms unfolding new_ok_def by blast+

text \<open>Adding a block: it is fresh, large enough, and unused.\<close>

lemma add_block_spec:
  assumes "new_ok new" and "memory_ok m" and "arena_ok m a" and "add_block new m a n = Some (m', a')"
    and "n < 2 ^ 62"
  shows "\<exists>b. m_blocks a' = m_blocks a @ [b] \<and> offset b = 0 \<and> n + 16 \<le> capacity b \<and>
    memory_ok m' \<and> arena_ok m' a' \<and> used a' = used a \<and> set m \<subseteq> set m'"
proof -
  obtain sz p where new: "new m sz = Some p" and m': "m' = (p, sz) # m"
    and a': "a' = a\<lparr>m_blocks := m_blocks a @ [\<lparr>block_memory = p, capacity = sz, offset = 0\<rparr>]\<rparr>"
    and sz: "add_size n 16 \<le> sz"
    using assms(4) by (auto simp: add_block_def Let_def split: option.splits)
  note fresh = new_ok_Some [OF assms(1) new]
  let ?b = "\<lparr>block_memory = p, capacity = sz, offset = 0\<rparr>"
  have n: "n + 16 \<le> sz" using sz assms(5) by (simp add: add_size_def)
  have mem: "memory_ok m'" using assms(2) fresh by (auto simp: memory_ok_def m')
  have disj: "span (segment_of c) \<inter> span (segment_of ?b) = {}" if "c \<in> set (m_blocks a)" for c
    using that assms(3) fresh(6) [of "segment_of c"]
    by (auto simp: arena_ok_def segment_of_def [of ?b])
  have "arena_ok m' a'"
    using assms(3) fresh disj
    by (auto simp: arena_ok_def block_ok_def a' m' segment_of_def [of ?b] sorted_wrt_append)
  moreover have "used a' = used a" by (simp add: used_def used_block_def a')
  ultimately show ?thesis using n mem by (auto simp: a' m')
qed

text \<open>Bumping the last block, when it has room.\<close>

lemma bump_spec:
  assumes "arena_ok m a" and "m_blocks a = bs @ [b]" and "k \<le> 4"
    and "align_up (offset b) (2 ^ k) + n \<le> capacity b" and "bump a n (2 ^ k) = (a', p)"
  shows "arena_ok m a' \<and> 0 < p \<and> 2 ^ k dvd p \<and> {p ..< p + n} \<inter> used a = {} \<and>
    {p ..< p + n} \<subseteq> used a' \<and> used a \<subseteq> used a'"
proof -
  have b: "block_ok b" using assms(1,2) by (simp add: arena_ok_def)
  let ?o = "align_up (offset b) (2 ^ k)"
  have k: "(2 :: nat) ^ k \<le> 2 ^ 4" using assms(3) by (intro power_increasing) simp_all
  have small: "offset b + 2 ^ k < 2 ^ 64" using b k by (simp add: block_ok_def)
  note al = align_up_bounds [OF small]
  let ?b' = "b\<lparr>offset := ?o + n\<rparr>"
  have wrap: "add_size ?o n = ?o + n" "add_size (block_memory b) ?o = block_memory b + ?o"
    using b assms(4) by (simp_all add: add_size_def block_ok_def)
  have a': "m_blocks a' = bs @ [?b']" and p: "p = block_memory b + ?o"
    using assms(5) wrap by (auto simp: bump_def assms(2) Let_def)
  have seg: "segment_of ?b' = segment_of b" by (simp add: segment_of_def)
  have b': "block_ok ?b'" using b assms(4) by (simp add: block_ok_def)
  have ok: "arena_ok m a'"
    using assms(1) b' by (auto simp: arena_ok_def a' assms(2) seg sorted_wrt_append)
  have "2 ^ k dvd (16 :: nat)" using le_imp_power_dvd [OF assms(3), of "2 :: nat"] by simp
  then have "2 ^ k dvd p" using b al(3) unfolding p block_ok_def by (meson dvd_add dvd_trans)
  moreover have "{p ..< p + n} \<subseteq> used_block ?b'"
    using al(1) by (auto simp: p used_block_def)
  moreover have "{p ..< p + n} \<inter> used_block b = {}"
    using al(1) by (auto simp: p used_block_def)
  moreover have "{p ..< p + n} \<inter> used_block c = {}" if "c \<in> set bs" for c
  proof -
    have "{p ..< p + n} \<subseteq> span (segment_of b)"
      using assms(4) by (auto simp: p span_def segment_of_def)
    moreover have "span (segment_of c) \<inter> span (segment_of b) = {}" and "block_ok c"
      using that assms(1,2) by (auto simp: arena_ok_def sorted_wrt_append)
    ultimately show ?thesis using used_block_span [of c] by blast
  qed
  moreover have "used_block b \<subseteq> used_block ?b'" using al(1) by (auto simp: used_block_def)
  moreover have "0 < p" using b by (simp add: p block_ok_def)
  ultimately show ?thesis using ok by (auto simp: used_def a' assms(2))
qed

lemma bump_allocate_safe:
  assumes "new_ok new" and "memory_ok m" and "arena_ok m a" and "k \<le> 4" and "n < 2 ^ 62"
    and "bump_allocate new m a n (2 ^ k) = Some (m', a', p)"
  shows "memory_ok m' \<and> arena_ok m' a' \<and> 0 < p \<and> 2 ^ k dvd p \<and> {p ..< p + n} \<inter> used a = {} \<and>
    {p ..< p + n} \<subseteq> used a' \<and> used a \<subseteq> used a' \<and> set m \<subseteq> set m'"
proof (cases "m_blocks a \<noteq> [] \<and>
    add_size (align_up (offset (last (m_blocks a))) (2 ^ k)) n \<le> capacity (last (m_blocks a))")
  case True
  then obtain bs b where bs: "m_blocks a = bs @ [b]" by (metis append_butlast_last_id)
  have b: "block_ok b" using assms(3) bs by (simp add: arena_ok_def)
  have k: "(2 :: nat) ^ k \<le> 2 ^ 4" using assms(4) by (intro power_increasing) simp_all
  have "align_up (offset b) (2 ^ k) < offset b + 2 ^ k"
    using b k by (intro align_up_bounds) (simp add: block_ok_def)
  then have "add_size (align_up (offset b) (2 ^ k)) n = align_up (offset b) (2 ^ k) + n"
    using b k assms(5) by (simp add: add_size_def block_ok_def)
  with True bs have "align_up (offset b) (2 ^ k) + n \<le> capacity b" by simp
  moreover have "m' = m" and "bump a n (2 ^ k) = (a', p)"
    using True assms(6) by (simp_all add: bump_allocate_def)
  ultimately show ?thesis using bump_spec [OF assms(3) bs assms(4)] assms(2) by blast
next
  case False
  then obtain a1 where add: "add_block new m a n = Some (m', a1)" and bump: "bump a1 n (2 ^ k) = (a', p)"
    using assms(6) by (auto simp: bump_allocate_def split: option.splits)
  obtain b where b: "m_blocks a1 = m_blocks a @ [b]" "offset b = 0" "n + 16 \<le> capacity b"
    and ok: "memory_ok m'" "arena_ok m' a1" "used a1 = used a" "set m \<subseteq> set m'"
    using add_block_spec [OF assms(1-3) add assms(5)] by blast
  have "align_up (offset b) (2 ^ k) + n \<le> capacity b"
    using b(2,3) by (simp add: align_up_def and_not_mask mask_eq_exp_minus_1 [symmetric])
  then show ?thesis using bump_spec [OF ok(2) b(1) assms(4) _ bump] ok by auto
qed

section \<open>Saving and restoring\<close>

text \<open>
  How an arena looks after allocations: the blocks it had, the last one with another offset, then
  new blocks, and further destructors; the new blocks' segments are the new memory.
\<close>

definition with_last_offset :: "nat \<Rightarrow> block list \<Rightarrow> block list" where
  "with_last_offset q bs = (if bs = [] then [] else butlast bs @ [(last bs)\<lparr>offset := q\<rparr>])"

definition extends :: "memory \<Rightarrow> arena \<Rightarrow> memory \<Rightarrow> arena \<Rightarrow> bool" where
  "extends m a m' a' \<longleftrightarrow>
     (\<exists>q nb nd.
        m_blocks a' = with_last_offset q (m_blocks a) @ nb \<and>
        m_destructors a' = m_destructors a @ nd \<and>
        m_default_block_size a' = m_default_block_size a \<and>
        m' = rev (map segment_of nb) @ m \<and> distinct (map fst m') = distinct (map fst m))"

lemma with_last_offset_simps [simp]:
  "length (with_last_offset q bs) = length bs"
  "with_last_offset q [] = []"
  "with_last_offset q bs = [] \<longleftrightarrow> bs = []"
  "with_last_offset q (with_last_offset q' bs) = with_last_offset q bs"
  "bs \<noteq> [] \<Longrightarrow> with_last_offset (offset (last bs)) bs = bs"
  "with_last_offset q (bs @ [b]) = bs @ [b\<lparr>offset := q\<rparr>]"
  by (auto simp: with_last_offset_def)

lemma segment_of_offset [simp]: "segment_of (b\<lparr>offset := q\<rparr>) = segment_of b"
  by (simp add: segment_of_def)

lemma extends_refl: "extends m a m a"
  unfolding extends_def
  by (intro exI [of _ "offset (last (m_blocks a))"] exI [of _ "[]"])
    (cases "m_blocks a = []"; simp)

lemma extends_bump:
  assumes "extends m a m' a'" and "m_blocks a' \<noteq> []" and "bump a' n al = (a2, p)"
  shows "extends m a m' a2"
proof -
  obtain q nb nd where ext: "m_blocks a' = with_last_offset q (m_blocks a) @ nb"
      "m_destructors a' = m_destructors a @ nd" "m_default_block_size a' = m_default_block_size a"
      "m' = rev (map segment_of nb) @ m" "distinct (map fst m') = distinct (map fst m)"
    using assms(1) unfolding extends_def by blast
  obtain q2 where a2: "m_blocks a2 = with_last_offset q2 (m_blocks a')"
      "m_destructors a2 = m_destructors a'" "m_default_block_size a2 = m_default_block_size a'"
    using assms(2,3) by (auto simp: bump_def Let_def with_last_offset_def)
  show ?thesis
  proof (cases nb rule: rev_cases)
    case Nil
    then have "m_blocks a2 = with_last_offset q2 (m_blocks a) @ []" using a2 ext by simp
    then show ?thesis using a2 ext Nil unfolding extends_def by (metis append_Nil2)
  next
    case (snoc ys y)
    then have "m_blocks a2 = with_last_offset q (m_blocks a) @ ys @ [y\<lparr>offset := q2\<rparr>]"
      using a2 ext(1) by (simp flip: append_assoc)
    moreover have "m' = rev (map segment_of (ys @ [y\<lparr>offset := q2\<rparr>])) @ m"
      using ext snoc by simp
    ultimately show ?thesis using a2 ext unfolding extends_def by metis
  qed
qed

lemma extends_add_block:
  assumes "new_ok new" and "extends m a m' a'" and "add_block new m' a' n = Some (m2, a2)"
  shows "extends m a m2 a2" and "m_blocks a2 \<noteq> []"
proof -
  obtain q nb nd where ext: "m_blocks a' = with_last_offset q (m_blocks a) @ nb"
      "m_destructors a' = m_destructors a @ nd" "m_default_block_size a' = m_default_block_size a"
      "m' = rev (map segment_of nb) @ m" "distinct (map fst m') = distinct (map fst m)"
    using assms(2) unfolding extends_def by blast
  obtain sz p where new: "new m' sz = Some p" and m2: "m2 = (p, sz) # m'"
    and a2: "a2 = a'\<lparr>m_blocks := m_blocks a' @ [\<lparr>block_memory = p, capacity = sz, offset = 0\<rparr>]\<rparr>"
    using assms(3) by (auto simp: add_block_def Let_def split: option.splits)
  let ?nb = "nb @ [\<lparr>block_memory = p, capacity = sz, offset = 0\<rparr>]"
  have "distinct (map fst m2) = distinct (map fst m)"
    using ext(5) m2 new_ok_Some(5) [OF assms(1) new] by simp
  moreover have "m_blocks a2 = with_last_offset q (m_blocks a) @ ?nb" and
      "m2 = rev (map segment_of ?nb) @ m"
    using ext(1,4) m2 a2 by (simp_all add: segment_of_def)
  moreover have "m_destructors a2 = m_destructors a @ nd"
      and "m_default_block_size a2 = m_default_block_size a"
    using ext(2,3) a2 by simp_all
  ultimately show "extends m a m2 a2" unfolding extends_def by blast
  show "m_blocks a2 \<noteq> []" using a2 by simp
qed

lemma extends_allocate:
  assumes "new_ok new" and "extends m a m' a'"
    and "bump_allocate new m' a' n al = Some (m2, a2, p)"
  shows "extends m a m2 a2"
proof (cases "m_blocks a' \<noteq> [] \<and>
    add_size (align_up (offset (last (m_blocks a'))) al) n \<le> capacity (last (m_blocks a'))")
  case True
  then show ?thesis
    using assms(2,3) extends_bump [OF assms(2)] by (auto simp: bump_allocate_def)
next
  case False
  then obtain a1 where add: "add_block new m' a' n = Some (m2, a1)" and "bump a1 n al = (a2, p)"
    using assms(3) by (auto simp: bump_allocate_def split: option.splits)
  then show ?thesis using extends_bump extends_add_block [OF assms(1,2) add] by blast
qed

text \<open>A request: size, extra bytes, alignment and destructor; a run of requests on one arena.\<close>

record request =
  req_size :: nat
  req_extra :: nat
  req_align :: nat
  req_dtor :: "nat option"

fun allocate_all ::
  "operator_new \<Rightarrow> memory \<Rightarrow> arena \<Rightarrow> request list \<Rightarrow> (memory \<times> arena) option" where
  "allocate_all new m a [] = Some (m, a)"
| "allocate_all new m a (r # rs) =
     (case allocate_with_extra new m a (req_size r) (req_align r) (req_dtor r) (req_extra r) of
        None \<Rightarrow> None
      | Some (m', a', p) \<Rightarrow> allocate_all new m' a' rs)"

lemma extends_push_dtor:
  assumes "extends m a m' a'"
  shows "extends m a m' (a'\<lparr>m_destructors := m_destructors a' @ ds\<rparr>)"
  using assms unfolding extends_def by fastforce

lemma extends_allocate_with_extra:
  assumes "new_ok new" and "extends m a m' a'"
    and "allocate_with_extra new m' a' n al d e = Some (m2, a2, p)"
  shows "extends m a m2 a2"
proof -
  obtain a1 where bump: "bump_allocate new m' a' (add_size n e) al = Some (m2, a1, p)"
    and a2: "a2 = (case d of None \<Rightarrow> a1
      | Some d \<Rightarrow> a1\<lparr>m_destructors := m_destructors a1 @ [(p, d)]\<rparr>)"
    using assms(3) by (auto simp: allocate_with_extra_def split: option.splits)
  have "extends m a m2 a1" by (rule extends_allocate [OF assms(1,2) bump])
  then show ?thesis by (cases d) (simp_all add: a2 extends_push_dtor)
qed

lemma extends_allocate_all:
  assumes "new_ok new" and "extends m a m' a'" and "allocate_all new m' a' rs = Some (m2, a2)"
  shows "extends m a m2 a2"
  using assms(2,3)
  by (induction rs arbitrary: m' a')
    (auto split: option.splits dest: extends_allocate_with_extra [OF assms(1)])

lemma run_destructors_append:
  "run_destructors (length ds) (ds @ nd) = (ds, rev nd)"
  by (induction nd rule: rev_induct) (simp_all add: run_destructors.simps butlast_append)

lemma free_blocks_append:
  "free_blocks (length bs) (bs @ nb) m =
     (bs, foldr (\<lambda>b m. operator_delete m (block_memory b)) nb m)"
proof (induction nb arbitrary: m rule: rev_induct)
  case Nil
  then show ?case by (simp add: free_blocks.simps)
next
  case (snoc b nb)
  then show ?case by (subst free_blocks.simps) (simp add: butlast_append)
qed

lemma operator_delete_absent: "p \<notin> fst ` set m \<Longrightarrow> operator_delete m p = m"
  by (auto simp: operator_delete_def filter_id_conv)

lemma operator_delete_new:
  assumes "distinct (map fst (rev (map segment_of nb) @ m))"
  shows "foldr (\<lambda>b m. operator_delete m (block_memory b)) nb (rev (map segment_of nb) @ m) = m"
  using assms
proof (induction nb rule: rev_induct)
  case (snoc b nb)
  let ?m = "rev (map segment_of nb) @ m"
  have "block_memory b \<notin> fst ` set ?m" using snoc.prems by (simp add: segment_of_def [of b] image_Un)
  then have "operator_delete ?m (block_memory b) = ?m" by (rule operator_delete_absent)
  then have "operator_delete (segment_of b # ?m) (block_memory b) = ?m"
    by (simp add: operator_delete_def segment_of_def [of b])
  with snoc show ?case by simp
qed simp

lemma restore_extends:
  assumes "extends m a m' a'" and "memory_ok m"
  shows "\<exists>nd. m_destructors a' = m_destructors a @ nd \<and>
    arena_restore m' a' (arena_save a) = (m, a, rev nd)"
proof -
  obtain q nb nd where ext: "m_blocks a' = with_last_offset q (m_blocks a) @ nb"
      "m_destructors a' = m_destructors a @ nd" "m_default_block_size a' = m_default_block_size a"
      "m' = rev (map segment_of nb) @ m" "distinct (map fst m') = distinct (map fst m)"
    using assms(1) unfolding extends_def by blast
  have "free_blocks (length (m_blocks a)) (m_blocks a') m' = (with_last_offset q (m_blocks a), m)"
    using free_blocks_append [of "with_last_offset q (m_blocks a)" nb m'] ext assms(2)
    by (simp add: operator_delete_new memory_ok_def)
  then have "arena_restore m' a' (arena_save a) = (m, a, rev nd)"
    using ext run_destructors_append [of "m_destructors a" nd]
    by (cases "m_blocks a = []")
      (auto simp: arena_restore_def arena_save_def with_last_offset_def)
  with ext show ?thesis by blast
qed

lemma arena_allocation_safe_core:
  assumes "new_ok new" and "memory_ok m" and "arena_ok m a" and "k \<le> 4"
    and "bytes + extra < 2 ^ 62"
    and "allocate_with_extra new m a bytes (2 ^ k) dtor extra = Some (m', a', p)"
  shows "memory_ok m' \<and> arena_ok m' a' \<and> 0 < p \<and> 2 ^ k dvd p \<and>
    {p ..< p + bytes + extra} \<inter> used a = {} \<and> {p ..< p + bytes + extra} \<subseteq> used a' \<and>
    used a \<subseteq> used a'"
proof -
  have n: "add_size bytes extra = bytes + extra" using assms(5) by (simp add: add_size_def)
  obtain a1 where bump: "bump_allocate new m a (bytes + extra) (2 ^ k) = Some (m', a1, p)"
    and a': "m_blocks a' = m_blocks a1"
    using assms(6) by (auto simp: allocate_with_extra_def n split: option.splits)
  show ?thesis
    using bump_allocate_safe [OF assms(1-5) bump] a'
    by (auto simp: arena_ok_def used_def add.assoc)
qed

section \<open>Properties\<close>

text \<open>C23: A successful allocation of fewer than \<open>2 ^ 62\<close> bytes at a power-of-two alignment of
  at most 16 returns a non-null, aligned address whose bytes were free before and are marked used
  afterwards; nothing that was given out earlier overlaps or is lost, and the arena and the memory
  stay well formed.\<close>

theorem arena_allocation_safe:
  assumes "new_ok new" and "memory_ok m" and "arena_ok m a" and "k \<le> 4"
    and "bytes + extra < 2 ^ 62"
    and "allocate_with_extra new m a bytes (2 ^ k) dtor extra = Some (m', a', p)"
  shows "memory_ok m' \<and> arena_ok m' a' \<and> 0 < p \<and> 2 ^ k dvd p \<and>
    {p ..< p + bytes + extra} \<inter> used a = {} \<and> {p ..< p + bytes + extra} \<subseteq> used a' \<and>
    used a \<subseteq> used a'"
  using assms by (rule arena_allocation_safe_core)

text \<open>An \<^verbatim>\<open>operator new\<close> that hands out one segment at \<open>4096\<close>.\<close>

definition demo_new :: operator_new where
  "demo_new m n = (if m = [] \<and> n < 2 ^ 62 then Some 4096 else None)"

lemma demo_new_ok: "new_ok demo_new"
  by (auto simp: new_ok_def demo_new_def split: if_splits)

theorem arena_allocation_safe_witness:
  "\<exists>m' a' p. allocate_with_extra demo_new [] (arena_create 64) 24 8 (Some 1) 0 = Some (m', a', p) \<and>
     memory_ok m' \<and> arena_ok m' a' \<and> 0 < p \<and> 8 dvd p \<and> {p ..< p + 24 + 0} \<subseteq> used a'"
proof -
  have "memory_ok []" and "arena_ok [] (arena_create 64)"
    by (simp_all add: memory_ok_def arena_ok_def arena_create_def)
  moreover obtain m' a' p where alloc:
      "allocate_with_extra demo_new [] (arena_create 64) 24 (2 ^ 3) (Some 1) 0 = Some (m', a', p)"
    by (simp add: allocate_with_extra_def bump_allocate_def add_block_def arena_create_def
        demo_new_def add_size_def bump_def Let_def)
  ultimately show ?thesis
    using arena_allocation_safe [OF demo_new_ok, of "[]" "arena_create 64" 3 24 0 "Some 1" m' a' p]
    by auto
qed

text \<open>\<open>restore\<close> undoes any run of allocations since \<open>save\<close>: the arena is exactly what it
  was, the memory obtained in between is returned, and the destructors of exactly the objects made
  in between have run, the youngest first.\<close>

theorem arena_restore_exact:
  assumes "new_ok new" and "memory_ok m" and "allocate_all new m a rs = Some (m', a')"
  shows "\<exists>nd. m_destructors a' = m_destructors a @ nd \<and>
    arena_restore m' a' (arena_save a) = (m, a, rev nd)"
  using restore_extends [OF extends_allocate_all [OF assms(1) extends_refl assms(3)] assms(2)] .

theorem arena_restore_exact_witness:
  "\<exists>m' a' nd.
     allocate_all demo_new [] (arena_create 64) [\<lparr>req_size = 24, req_extra = 0, req_align = 8,
       req_dtor = Some 1\<rparr>] = Some (m', a') \<and>
     arena_restore m' a' (arena_save (arena_create 64)) = ([], arena_create 64, rev nd)"
proof -
  obtain m' a' where run: "allocate_all demo_new [] (arena_create 64) [\<lparr>req_size = 24,
      req_extra = 0, req_align = 8, req_dtor = Some 1\<rparr>] = Some (m', a')"
    by (simp add: allocate_with_extra_def bump_allocate_def add_block_def arena_create_def
        demo_new_def add_size_def bump_def Let_def)
  then show ?thesis
    using arena_restore_exact [OF demo_new_ok _ run] by (auto simp: memory_ok_def)
qed

end
