(* ===== verification/Arena_Manager.thy ===== *)
theory Arena_Manager
  imports Arenas
begin

text \<open>
  The owners of arenas: the process-wide manager with its program, module and thread arenas
  (\<^verbatim>\<open>src/src/memory/ArenaManager.hpp\<close>), the scoped regions of compiled functions
  (\<^verbatim>\<open>ScopedRegion.hpp\<close>), and the thread's current arena (\<open>Arena::current\<close>), as one state
  machine of one thread. An \<^verbatim>\<open>Arena\<close> object is named by a number; a \<^verbatim>\<open>unique_ptr\<close> or a pointer
  to it is that number. The theorems show that the current arena never dangles, that every byte
  obtained belongs to exactly one live arena, and that leaving a region undoes it.
\<close>

section \<open>State\<close>

record manager =
  mem :: memory
  arenas :: "nat \<Rightarrow> arena option"        \<comment> \<open>the \<^verbatim>\<open>Arena\<close> objects that exist\<close>
  next_arena :: nat
  m_initialized :: bool
  m_program_arena :: "nat option"
  m_module_arenas :: "(string \<times> nat) list"
  t_thread_arena :: "nat option"
  t_current_arena :: "nat option"
  regions :: "(nat \<times> nat option) list"    \<comment> \<open>open regions, innermost first: arena, \<open>previous\<close>\<close>
  dtor_log :: "dtor_entry list"           \<comment> \<open>the destructors run so far\<close>

definition manager_start :: manager where
  "manager_start =
     \<lparr>mem = [], arenas = (\<lambda>_. None), next_arena = 0, m_initialized = False,
      m_program_arena = None, m_module_arenas = [], t_thread_arena = None,
      t_current_arena = None, regions = [], dtor_log = []\<rparr>"

definition make_arena :: "manager \<Rightarrow> nat \<Rightarrow> manager \<times> nat" where
  "make_arena st block_size =
     (st\<lparr>arenas := (arenas st)(next_arena st := Some (arena_create block_size)),
         next_arena := Suc (next_arena st)\<rparr>, next_arena st)"

text \<open>\<^verbatim>\<open>~Arena\<close>: reset, and the object is gone.\<close>

definition destroy_arena :: "manager \<Rightarrow> nat \<Rightarrow> manager" where
  "destroy_arena st i =
     (case arenas st i of
        None \<Rightarrow> st
      | Some a \<Rightarrow>
          (case arena_reset (mem st) a of (m', _, calls) \<Rightarrow>
             st\<lparr>mem := m', arenas := (arenas st)(i := None), dtor_log := dtor_log st @ calls\<rparr>))"

section \<open>Operations\<close>

definition manager_initialize :: "manager \<Rightarrow> manager" where
  "manager_initialize st =
     (if m_initialized st then
        if t_current_arena st = None \<and> m_program_arena st \<noteq> None
        then st\<lparr>t_current_arena := m_program_arena st\<rparr> else st
      else case make_arena st kDefaultBlockSize of (st', i) \<Rightarrow>
        st'\<lparr>m_program_arena := Some i, t_current_arena := Some i, m_initialized := True\<rparr>)"

definition manager_shutdown :: "manager \<Rightarrow> manager" where
  "manager_shutdown st =
     (let st1 = (fold (\<lambda>(_, i) s. destroy_arena s i) (m_module_arenas st) st)\<lparr>m_module_arenas := []\<rparr>;
          st2 = st1\<lparr>t_current_arena := None\<rparr>;
          st3 = (case m_program_arena st2 of
                   None \<Rightarrow> st2
                 | Some i \<Rightarrow> (destroy_arena st2 i)\<lparr>m_program_arena := None\<rparr>)
      in st3\<lparr>m_initialized := False\<rparr>)"

definition program_arena :: "manager \<Rightarrow> nat py_result" where
  "program_arena st =
     (case m_program_arena st of None \<Rightarrow> Abort Assertion | Some i \<Rightarrow> Ok i)"

definition module_arena :: "manager \<Rightarrow> string \<Rightarrow> manager \<times> nat" where
  "module_arena st module_name =
     (case map_of (m_module_arenas st) module_name of
        Some i \<Rightarrow> (st, i)
      | None \<Rightarrow>
          (case make_arena st kDefaultBlockSize of (st', i) \<Rightarrow>
             (st'\<lparr>m_module_arenas := (module_name, i) # m_module_arenas st'\<rparr>, i)))"

definition thread_arena :: "manager \<Rightarrow> manager \<times> nat" where
  "thread_arena st =
     (case t_thread_arena st of
        Some i \<Rightarrow> (st, i)
      | None \<Rightarrow>
          (case make_arena st kDefaultBlockSize of (st', i) \<Rightarrow>
             let st2 = st'\<lparr>t_thread_arena := Some i\<rparr> in
             (if t_current_arena st2 = None then st2\<lparr>t_current_arena := Some i\<rparr> else st2, i)))"

definition region_enter :: "manager \<Rightarrow> nat \<Rightarrow> manager" where
  "region_enter st block_size =
     (case make_arena st block_size of (st', i) \<Rightarrow>
        st'\<lparr>regions := (i, t_current_arena st') # regions st', t_current_arena := Some i\<rparr>)"

definition region_leave :: "manager \<Rightarrow> manager" where
  "region_leave st =
     (case regions st of
        [] \<Rightarrow> st
      | (i, previous) # rest \<Rightarrow>
          (destroy_arena st i)\<lparr>t_current_arena := previous, regions := rest\<rparr>)"

text \<open>\<open>Arena::current\<close> and an allocation through it. \<open>None\<close> is the exception of
  \<^verbatim>\<open>operator new\<close>.\<close>

definition current_arena :: "manager \<Rightarrow> (nat \<times> arena) py_result" where
  "current_arena st =
     (case t_current_arena st of
        None \<Rightarrow> Abort Assertion
      | Some i \<Rightarrow> (case arenas st i of None \<Rightarrow> Abort Undefined | Some a \<Rightarrow> Ok (i, a)))"

definition allocate_in ::
  "operator_new \<Rightarrow> manager \<Rightarrow> nat \<Rightarrow> request \<Rightarrow> (manager \<times> nat) option" where
  "allocate_in new st i r =
     (case arenas st i of
        None \<Rightarrow> None
      | Some a \<Rightarrow>
          (case allocate_with_extra new (mem st) a (req_size r) (req_align r) (req_dtor r) (req_extra r) of
             None \<Rightarrow> None
           | Some (m', a', p) \<Rightarrow>
               Some (st\<lparr>mem := m', arenas := (arenas st)(i := Some a')\<rparr>, p)))"

text \<open>What \<^verbatim>\<open>static_assert\<close> and \<^verbatim>\<open>sizeof\<close> guarantee of a request.\<close>

definition request_ok :: "request \<Rightarrow> bool" where
  "request_ok r \<longleftrightarrow>
     req_align r \<in> {1, 2, 4, 8, 16} \<and> req_size r + req_extra r < 2 ^ 62"

text \<open>The runs of a thread. The manager is shut down when no region is open.\<close>

inductive manager_step :: "operator_new \<Rightarrow> manager \<Rightarrow> manager \<Rightarrow> bool" for new where
  initialize: "manager_step new st (manager_initialize st)"
| shutdown: "regions st = [] \<Longrightarrow> manager_step new st (manager_shutdown st)"
| module: "module_arena st name = (st', i) \<Longrightarrow> manager_step new st st'"
| thread: "thread_arena st = (st', i) \<Longrightarrow> manager_step new st st'"
| enter: "manager_step new st (region_enter st block_size)"
| leave: "manager_step new st (region_leave st)"
| allocate: "request_ok r \<Longrightarrow> allocate_in new st i r = Some (st', p) \<Longrightarrow> manager_step new st st'"

inductive manager_reachable :: "operator_new \<Rightarrow> manager \<Rightarrow> bool" for new where
  start: "manager_reachable new manager_start"
| step: "manager_reachable new st \<Longrightarrow> manager_step new st st' \<Longrightarrow> manager_reachable new st'"

section \<open>The invariant\<close>

definition segments :: "arena \<Rightarrow> segment set" where
  "segments a = segment_of ` set (m_blocks a)"

definition owned :: "manager \<Rightarrow> nat \<Rightarrow> segment set" where
  "owned st i = (case arenas st i of None \<Rightarrow> {} | Some a \<Rightarrow> segments a)"

text \<open>The arenas that outlive every region, and all owners.\<close>

definition base_arenas :: "manager \<Rightarrow> nat list" where
  "base_arenas st =
     (case m_program_arena st of None \<Rightarrow> [] | Some i \<Rightarrow> [i]) @
     (case t_thread_arena st of None \<Rightarrow> [] | Some i \<Rightarrow> [i]) @ map snd (m_module_arenas st)"

fun regions_ok :: "nat set \<Rightarrow> (nat \<times> nat option) list \<Rightarrow> bool" where
  "regions_ok base [] = True"
| "regions_ok base ((i, previous) # rest) =
     (set_option previous \<subseteq> base \<union> fst ` set rest \<and> regions_ok base rest)"

definition owners :: "manager \<Rightarrow> nat list" where
  "owners st = base_arenas st @ map fst (regions st)"

definition memory_inv :: "manager \<Rightarrow> bool" where
  "memory_inv st \<longleftrightarrow>
     memory_ok (mem st) \<and> (\<forall>i a. arenas st i = Some a \<longrightarrow> arena_ok (mem st) a) \<and>
     set (mem st) = (\<Union>i. owned st i) \<and> (\<forall>i j. i \<noteq> j \<longrightarrow> owned st i \<inter> owned st j = {})"

definition owner_inv :: "manager \<Rightarrow> bool" where
  "owner_inv st \<longleftrightarrow>
     distinct (owners st) \<and> set (owners st) = dom (arenas st) \<and>
     (\<forall>i \<in> set (owners st). i < next_arena st) \<and>
     set_option (t_current_arena st) \<subseteq> set (owners st) \<and>
     regions_ok (set (base_arenas st)) (regions st) \<and>
     (m_initialized st \<longleftrightarrow> m_program_arena st \<noteq> None)"

lemma memory_inv_cong:
  "mem st = mem st' \<Longrightarrow> arenas st = arenas st' \<Longrightarrow> memory_inv st = memory_inv st'"
  by (simp add: memory_inv_def owned_def)

lemma memory_invD:
  assumes "memory_inv st"
  shows "memory_ok (mem st)" and "owned st i \<subseteq> set (mem st)"
    and "i \<noteq> j \<Longrightarrow> owned st i \<inter> owned st j = {}"
    and "arenas st i = Some a \<Longrightarrow> arena_ok (mem st) a"
    and "s \<in> set (mem st) \<Longrightarrow> \<exists>k. s \<in> owned st k"
proof -
  have eq: "set (mem st) = (\<Union>i. owned st i)" using assms by (simp add: memory_inv_def)
  show "owned st i \<subseteq> set (mem st)" unfolding eq by blast
  show "\<exists>k. s \<in> owned st k" if "s \<in> set (mem st)" using that unfolding eq by blast
qed (use assms in \<open>simp_all add: memory_inv_def\<close>)

lemma owned_Some: "arenas st i = Some a \<Longrightarrow> owned st i = segments a"
  by (simp add: owned_def)

lemma arena_ok_mono:
  "arena_ok m a \<Longrightarrow> segments a \<subseteq> set m' \<Longrightarrow> arena_ok m' a"
  by (simp add: arena_ok_def segments_def)

lemma memory_inv_make:
  assumes "memory_inv st" and "arenas st (next_arena st) = None"
    and "make_arena st n = (st', i)"
  shows "memory_inv st'"
proof -
  have st': "mem st' = mem st"
      "arenas st' = (arenas st)(next_arena st := Some (arena_create n))"
    using assms(3) by (auto simp: make_arena_def)
  have "owned st' j = owned st j" for j
    using assms(2) by (simp add: owned_def st' segments_def arena_create_def)
  moreover have "arena_ok m (arena_create n)" for m by (simp add: arena_ok_def arena_create_def)
  ultimately show ?thesis using assms(1) by (auto simp: memory_inv_def st')
qed

lemma delete_all_blocks:
  "fold (\<lambda>b m. operator_delete m (block_memory b)) bs m =
     filter (\<lambda>s. fst s \<notin> block_memory ` set bs) m"
  by (induction bs arbitrary: m) (auto simp: operator_delete_def intro: filter_cong)

lemma memory_ok_filter: "memory_ok m \<Longrightarrow> memory_ok (filter P m)"
  by (simp add: memory_ok_def distinct_map_filter sorted_wrt_filter)

lemma segment_unique:
  "memory_ok m \<Longrightarrow> s \<in> set m \<Longrightarrow> t \<in> set m \<Longrightarrow> fst s = fst t \<Longrightarrow> s = t"
  by (auto simp: memory_ok_def distinct_map dest: inj_onD)

text \<open>Destroying an arena gives back exactly its own memory.\<close>

lemma destroy_arena_memory:
  assumes "memory_inv st"
  shows "set (mem (destroy_arena st i)) = set (mem st) - owned st i"
    and "memory_ok (mem (destroy_arena st i))"
proof -
  show "memory_ok (mem (destroy_arena st i))"
    using assms
    by (auto simp: destroy_arena_def arena_reset_def delete_all_blocks memory_inv_def
        memory_ok_filter split: option.splits)
  show "set (mem (destroy_arena st i)) = set (mem st) - owned st i"
  proof (cases "arenas st i")
    case (Some a)
    have own: "owned st i = segments a" "segments a \<subseteq> set (mem st)"
      using Some memory_invD(2) [OF assms, of i] by (simp_all add: owned_Some)
    have "s \<in> segments a"
      if s: "s \<in> set (mem st)" and addr: "fst s \<in> block_memory ` set (m_blocks a)" for s
    proof -
      obtain b where "b \<in> set (m_blocks a)" "fst s = fst (segment_of b)"
        using addr by (auto simp: segment_of_def)
      then show ?thesis
        using s own segment_unique [of "mem st" s "segment_of b"] assms
        by (auto simp: segments_def memory_inv_def)
    qed
    then show ?thesis
      by (auto simp: destroy_arena_def Some arena_reset_def delete_all_blocks own segments_def
          segment_of_def)
  qed (simp add: destroy_arena_def owned_def)
qed

lemma memory_inv_destroy:
  assumes "memory_inv st"
  shows "memory_inv (destroy_arena st i)"
proof -
  let ?st = "destroy_arena st i"
  have ar: "arenas ?st = (arenas st)(i := None)"
    by (auto simp: destroy_arena_def arena_reset_def split: option.splits)
  have own: "owned ?st j = (if j = i then {} else owned st j)" for j
    by (simp add: owned_def ar)
  have disj: "owned st j \<inter> owned st i = {}" if "j \<noteq> i" for j
    using that assms by (auto simp: memory_inv_def)
  have mem: "set (mem ?st) = set (mem st) - owned st i" and ok: "memory_ok (mem ?st)"
    using destroy_arena_memory [OF assms] by auto
  have "arena_ok (mem ?st) a" if "arenas ?st j = Some a" for j a
  proof -
    have "j \<noteq> i" and a: "arenas st j = Some a" using that by (auto simp: ar split: if_splits)
    then have "segments a \<subseteq> set (mem ?st)"
      using disj [of j] memory_invD(2) [OF assms, of j] owned_Some [OF a] mem by blast
    then show ?thesis by (rule arena_ok_mono [OF memory_invD(4) [OF assms a]])
  qed
  moreover have "set (mem ?st) = (\<Union>j. owned ?st j)"
  proof
    show "set (mem ?st) \<subseteq> (\<Union>j. owned ?st j)"
    proof
      fix s assume "s \<in> set (mem ?st)"
      then obtain k where "s \<in> owned st k" "s \<notin> owned st i"
        using memory_invD(5) [OF assms, of s] unfolding mem by blast
      then have "s \<in> owned ?st k" by (auto simp: own)
      then show "s \<in> (\<Union>j. owned ?st j)" by blast
    qed
    show "(\<Union>j. owned ?st j) \<subseteq> set (mem ?st)"
    proof
      fix s assume "s \<in> (\<Union>j. owned ?st j)"
      then obtain j where "j \<noteq> i" "s \<in> owned st j" by (auto simp: own split: if_splits)
      then show "s \<in> set (mem ?st)"
        using disj [of j] memory_invD(2) [OF assms, of j] unfolding mem by blast
    qed
  qed
  moreover have "owned ?st j \<inter> owned ?st k = {}" if "j \<noteq> k" for j k
    using that memory_invD(3) [OF assms] by (simp add: own)
  ultimately show ?thesis using ok by (simp add: memory_inv_def)
qed

lemma extends_segments:
  assumes "extends m a m' a'" and "memory_ok m"
  shows "\<exists>N. set m' = set m \<union> N \<and> segments a' = segments a \<union> N \<and> N \<inter> set m = {}"
proof -
  obtain q nb nd where ext: "m_blocks a' = with_last_offset q (m_blocks a) @ nb"
      "m' = rev (map segment_of nb) @ m" "distinct (map fst m') = distinct (map fst m)"
    using assms(1) unfolding extends_def by blast
  have "distinct (map fst m')" using ext(3) assms(2) by (simp add: memory_ok_def)
  then have "fst ` segment_of ` set nb \<inter> fst ` set m = {}" by (simp add: ext(2))
  then have "segment_of ` set nb \<inter> set m = {}" by blast
  moreover have "segment_of ` set (with_last_offset q (m_blocks a)) = segment_of ` set (m_blocks a)"
    by (cases "m_blocks a" rule: rev_cases) (auto simp: with_last_offset_def)
  ultimately show ?thesis
    using ext(1,2) by (intro exI [of _ "segment_of ` set nb"]) (auto simp: segments_def)
qed

lemma memory_inv_allocate:
  assumes "new_ok new" and "memory_inv st" and "request_ok r"
    and "allocate_in new st i r = Some (st', p)"
  shows "memory_inv st'"
proof -
  obtain a m' a' where a: "arenas st i = Some a"
    and alloc: "allocate_with_extra new (mem st) a (req_size r) (req_align r) (req_dtor r) (req_extra r)
        = Some (m', a', p)"
    and st': "st' = st\<lparr>mem := m', arenas := (arenas st)(i := Some a')\<rparr>"
    using assms(4) by (auto simp: allocate_in_def split: option.splits)
  have mok: "memory_ok (mem st)" and aok: "arena_ok (mem st) a"
    using assms(2) a by (auto simp: memory_inv_def)
  obtain k where k: "req_align r = 2 ^ k" "k \<le> 4"
  proof -
    have "req_align r = 2 ^ 0 \<or> req_align r = 2 ^ 1 \<or> req_align r = 2 ^ 2 \<or> req_align r = 2 ^ 3
        \<or> req_align r = 2 ^ 4"
      using assms(3) by (auto simp: request_ok_def)
    then show thesis by (elim disjE) (erule that; simp)+
  qed
  have ok: "memory_ok m'" "arena_ok m' a'"
    using arena_allocation_safe_core [OF assms(1) mok aok k(2) _ alloc [unfolded k(1)]] assms(3)
    by (auto simp: request_ok_def)
  obtain N where N: "set m' = set (mem st) \<union> N" "segments a' = segments a \<union> N" "N \<inter> set (mem st) = {}"
    using extends_segments [OF extends_allocate_with_extra [OF assms(1) extends_refl alloc] mok]
    by blast
  have own: "owned st' j = (if j = i then owned st i \<union> N else owned st j)" for j
    using a N by (simp add: owned_def st')
  note sub = memory_invD(2) [OF assms(2)]
  have "arena_ok m' b" if "arenas st' j = Some b" for j b
  proof (cases "j = i")
    case False
    then have "arena_ok (mem st) b" using that memory_invD(4) [OF assms(2)] by (simp add: st')
    then show ?thesis using N by (auto simp: arena_ok_def)
  qed (use that ok st' in auto)
  moreover have "set m' = (\<Union>j. owned st' j)"
    using sub memory_invD(5) [OF assms(2)] N(1)
    by (auto simp: own split: if_splits) (metis UnI1)
  moreover have "owned st' j \<inter> owned st' k = {}" if "j \<noteq> k" for j k
    using that memory_invD(3) [OF assms(2), of j k] N(3) sub [of j] sub [of k]
    by (auto simp: own split: if_splits)
  ultimately show ?thesis using ok by (simp add: memory_inv_def st')
qed

section \<open>Every step keeps the invariant\<close>

definition manager_ok :: "manager \<Rightarrow> bool" where
  "manager_ok st \<longleftrightarrow> memory_inv st \<and> owner_inv st"

lemma destroy_arena_fields [simp]:
  "arenas (destroy_arena st i) = (arenas st)(i := None)"
  "next_arena (destroy_arena st i) = next_arena st"
  "m_initialized (destroy_arena st i) = m_initialized st"
  "m_program_arena (destroy_arena st i) = m_program_arena st"
  "m_module_arenas (destroy_arena st i) = m_module_arenas st"
  "t_thread_arena (destroy_arena st i) = t_thread_arena st"
  "t_current_arena (destroy_arena st i) = t_current_arena st"
  "regions (destroy_arena st i) = regions st"
  by (auto simp: destroy_arena_def arena_reset_def fun_upd_idem split: option.splits)

lemma regions_ok_mono: "regions_ok base rs \<Longrightarrow> base \<subseteq> base' \<Longrightarrow> regions_ok base' rs"
  by (induction base rs rule: regions_ok.induct) auto

lemma fresh_arena: "owner_inv st \<Longrightarrow> arenas st (next_arena st) = None"
  by (auto simp: owner_inv_def dom_def)

lemma owner_inv_fresh: "owner_inv st \<Longrightarrow> next_arena st \<notin> set (owners st)"
  by (auto simp: owner_inv_def)

lemma manager_ok_make:
  assumes "manager_ok st" and "make_arena st n = (st', i)"
  shows "memory_inv st'" and "i = next_arena st" and "i \<notin> set (owners st)"
    and "dom (arenas st') = insert i (dom (arenas st))"
    and "next_arena st' = Suc i"
  using assms memory_inv_make [of st n st' i] fresh_arena [of st] owner_inv_fresh [of st]
  by (auto simp: manager_ok_def make_arena_def)

text \<open>A step that creates one arena with an owner.\<close>

lemma owner_inv_grow:
  assumes "owner_inv st" and "i = next_arena st" and "next_arena st' = Suc i"
    and "set (owners st') = insert i (set (owners st))"
    and "length (owners st') = Suc (length (owners st))"
    and "dom (arenas st') = insert i (dom (arenas st))"
    and "set_option (t_current_arena st') \<subseteq> insert i (set (owners st))"
    and "regions_ok (set (base_arenas st')) (regions st')"
    and "m_initialized st' \<longleftrightarrow> m_program_arena st' \<noteq> None"
  shows "owner_inv st'"
proof -
  have inv: "distinct (owners st)" "set (owners st) = dom (arenas st)"
      "\<forall>j \<in> set (owners st). j < next_arena st"
    using assms(1) by (simp_all add: owner_inv_def)
  have "i \<notin> set (owners st)" using inv(3) assms(2) by auto
  then have "card (set (owners st')) = length (owners st')"
    using distinct_card [OF inv(1)] assms(4,5) by simp
  then have "distinct (owners st')" by (rule card_distinct)
  moreover have "\<forall>j \<in> set (owners st'). j < next_arena st'"
    using inv(3) assms(2) unfolding assms(3,4) by (simp add: less_SucI)
  moreover have "set (owners st') = dom (arenas st')" using inv(2) assms(4,6) by simp
  ultimately show ?thesis using assms(4,7-9) unfolding owner_inv_def by blast
qed

lemma base_arenas_cong:
  "m_program_arena st' = m_program_arena st \<Longrightarrow> t_thread_arena st' = t_thread_arena st \<Longrightarrow>
     m_module_arenas st' = m_module_arenas st \<Longrightarrow> base_arenas st' = base_arenas st"
  by (simp add: base_arenas_def)

lemma owner_invD:
  assumes "owner_inv st"
  shows "set_option (t_current_arena st) \<subseteq> set (owners st)"
    and "regions_ok (set (base_arenas st)) (regions st)"
    and "m_initialized st \<longleftrightarrow> m_program_arena st \<noteq> None"
  using assms unfolding owner_inv_def by (blast, blast, blast)

lemma base_arenas_update [simp]:
  "base_arenas (st\<lparr>regions := rs\<rparr>) = base_arenas st"
  "base_arenas (st\<lparr>t_current_arena := c\<rparr>) = base_arenas st"
  "base_arenas (destroy_arena st i) = base_arenas st"
  by (simp_all add: base_arenas_def)

lemma make_arena_fields:
  assumes "make_arena st n = (st', i)"
  shows "m_initialized st' = m_initialized st" "m_program_arena st' = m_program_arena st"
    "m_module_arenas st' = m_module_arenas st" "t_thread_arena st' = t_thread_arena st"
    "t_current_arena st' = t_current_arena st" "regions st' = regions st"
  using assms by (auto simp: make_arena_def)

lemma manager_ok_initialize:
  assumes "manager_ok st"
  shows "manager_ok (manager_initialize st)"
proof (cases "m_initialized st")
  case True
  have "owner_inv (st\<lparr>t_current_arena := m_program_arena st\<rparr>)"
    using assms
    by (auto simp: manager_ok_def owner_inv_def owners_def base_arenas_def split: option.splits)
  then show ?thesis
    using True assms memory_inv_cong [of st "st\<lparr>t_current_arena := m_program_arena st\<rparr>"]
    by (simp add: manager_initialize_def manager_ok_def)
next
  case False
  obtain st' i where mk: "make_arena st kDefaultBlockSize = (st', i)" by fastforce
  note made = manager_ok_make [OF assms mk] and f = make_arena_fields [OF mk]
  let ?st = "st'\<lparr>m_program_arena := Some i, t_current_arena := Some i, m_initialized := True\<rparr>"
  have inv: "owner_inv st" using assms by (simp add: manager_ok_def)
  have none: "m_program_arena st = None" using False owner_invD(3) [OF inv] by simp
  have base: "base_arenas ?st = i # base_arenas st" by (simp add: base_arenas_def f none)
  have "memory_inv ?st" using made(1) memory_inv_cong [of ?st st'] by simp
  moreover have "owner_inv ?st"
    by (rule owner_inv_grow [OF inv made(2)])
      (use made(4,5) regions_ok_mono [OF owner_invD(2) [OF inv], of "set (base_arenas ?st)"]
        in \<open>simp_all add: owners_def base f subset_insertI\<close>)
  ultimately show ?thesis using False mk by (simp add: manager_initialize_def manager_ok_def)
qed

lemma manager_ok_module:
  assumes "manager_ok st" and "module_arena st name = (st', i)"
  shows "manager_ok st'"
proof (cases "map_of (m_module_arenas st) name")
  case None
  obtain st1 j where mk: "make_arena st kDefaultBlockSize = (st1, j)" by fastforce
  note made = manager_ok_make [OF assms(1) mk] and f = make_arena_fields [OF mk]
  have st': "st' = st1\<lparr>m_module_arenas := (name, j) # m_module_arenas st1\<rparr>"
    using assms(2) None mk by (auto simp: module_arena_def)
  have inv: "owner_inv st" using assms(1) by (simp add: manager_ok_def)
  have base: "set (base_arenas st') = insert j (set (base_arenas st))"
      "length (base_arenas st') = Suc (length (base_arenas st))"
    by (simp_all add: st' base_arenas_def f)
  have "memory_inv st'" using made(1) memory_inv_cong [of st' st1] by (simp add: st')
  moreover have "owner_inv st'"
    by (rule owner_inv_grow [OF inv made(2)])
      (use made(4,5) regions_ok_mono [OF owner_invD(2) [OF inv], of "set (base_arenas st')"]
         owner_invD(1,3) [OF inv]
        in \<open>simp_all add: owners_def base, simp_all add: st' f subset_insertI subset_insertI2\<close>)
  ultimately show ?thesis by (simp add: manager_ok_def)
qed (use assms in \<open>auto simp: module_arena_def\<close>)

lemma manager_ok_thread:
  assumes "manager_ok st" and "thread_arena st = (st', i)"
  shows "manager_ok st'"
proof (cases "t_thread_arena st")
  case None
  obtain st1 j where mk: "make_arena st kDefaultBlockSize = (st1, j)" by fastforce
  note made = manager_ok_make [OF assms(1) mk] and f = make_arena_fields [OF mk]
  have st': "mem st' = mem st1" "arenas st' = arenas st1" "next_arena st' = next_arena st1"
      "m_initialized st' = m_initialized st" "m_program_arena st' = m_program_arena st"
      "m_module_arenas st' = m_module_arenas st" "t_thread_arena st' = Some j"
      "regions st' = regions st"
      "t_current_arena st' = (if t_current_arena st = None then Some j else t_current_arena st)"
    using assms(2) None mk f by (auto simp: thread_arena_def Let_def split: if_splits)
  have inv: "owner_inv st" using assms(1) by (simp add: manager_ok_def)
  have base: "set (base_arenas st') = insert j (set (base_arenas st))"
      "length (base_arenas st') = Suc (length (base_arenas st))"
    by (simp_all add: st' base_arenas_def None split: option.splits)
  have "memory_inv st'" using made(1) memory_inv_cong [of st' st1] by (simp add: st')
  moreover have "owner_inv st'"
    by (rule owner_inv_grow [OF inv made(2)])
      (use made(4,5) regions_ok_mono [OF owner_invD(2) [OF inv], of "set (base_arenas st')"]
         owner_invD(1,3) [OF inv]
        in \<open>simp_all add: owners_def base, simp_all add: st' subset_insertI subset_insertI2\<close>)
  ultimately show ?thesis by (simp add: manager_ok_def)
qed (use assms in \<open>auto simp: thread_arena_def\<close>)

lemma manager_ok_enter:
  assumes "manager_ok st"
  shows "manager_ok (region_enter st n)"
proof -
  obtain st1 j where mk: "make_arena st n = (st1, j)" by fastforce
  note made = manager_ok_make [OF assms mk] and f = make_arena_fields [OF mk]
  let ?st = "st1\<lparr>regions := (j, t_current_arena st1) # regions st1, t_current_arena := Some j\<rparr>"
  have inv: "owner_inv st" using assms by (simp add: manager_ok_def)
  have base: "base_arenas st1 = base_arenas st" by (simp add: base_arenas_def f)
  have "memory_inv ?st" using made(1) memory_inv_cong [of ?st st1] by simp
  moreover have "owner_inv ?st"
    by (rule owner_inv_grow [OF inv made(2)])
      (use made(4,5) owner_invD [OF inv] in \<open>simp_all add: base owners_def f\<close>)
  ultimately show ?thesis using mk by (simp add: region_enter_def manager_ok_def)
qed

lemma manager_ok_leave:
  assumes "manager_ok st"
  shows "manager_ok (region_leave st)"
proof (cases "regions st")
  case (Cons r rest)
  obtain i previous where r: "r = (i, previous)" by fastforce
  let ?st = "(destroy_arena st i)\<lparr>t_current_arena := previous, regions := rest\<rparr>"
  have base: "base_arenas ?st = base_arenas st" by simp
  have "memory_inv ?st"
    using assms memory_inv_destroy [of st i] memory_inv_cong [of ?st "destroy_arena st i"]
    by (simp add: manager_ok_def)
  moreover have "owner_inv ?st"
    using assms Cons r unfolding manager_ok_def owner_inv_def owners_def base by auto
  ultimately show ?thesis using Cons r by (simp add: region_leave_def manager_ok_def)
qed (use assms in \<open>simp add: region_leave_def\<close>)

lemma fold_destroy:
  "arenas (fold (\<lambda>(_, i) s. destroy_arena s i) ms st) =
     (\<lambda>i. if i \<in> snd ` set ms then None else arenas st i)"
  "next_arena (fold (\<lambda>(_, i) s. destroy_arena s i) ms st) = next_arena st"
  "m_initialized (fold (\<lambda>(_, i) s. destroy_arena s i) ms st) = m_initialized st"
  "m_program_arena (fold (\<lambda>(_, i) s. destroy_arena s i) ms st) = m_program_arena st"
  "t_thread_arena (fold (\<lambda>(_, i) s. destroy_arena s i) ms st) = t_thread_arena st"
  "regions (fold (\<lambda>(_, i) s. destroy_arena s i) ms st) = regions st"
  "memory_inv st \<Longrightarrow> memory_inv (fold (\<lambda>(_, i) s. destroy_arena s i) ms st)"
  by (induction ms arbitrary: st) (auto simp: memory_inv_destroy fun_eq_iff)

lemma manager_ok_shutdown:
  assumes "manager_ok st" and "regions st = []"
  shows "manager_ok (manager_shutdown st)"
proof -
  define st1 where "st1 = (fold (\<lambda>(_, i) s. destroy_arena s i) (m_module_arenas st) st)
      \<lparr>m_module_arenas := [], t_current_arena := None\<rparr>"
  have f: "arenas st1 = (\<lambda>i. if i \<in> snd ` set (m_module_arenas st) then None else arenas st i)"
      "next_arena st1 = next_arena st" "m_program_arena st1 = m_program_arena st"
      "t_thread_arena st1 = t_thread_arena st" "regions st1 = []" "m_module_arenas st1 = []"
      "t_current_arena st1 = None"
    using assms(2) by (simp_all add: st1_def fold_destroy)
  have inv1: "memory_inv st1"
    using assms(1) fold_destroy(7) [of st "m_module_arenas st"]
      memory_inv_cong [of st1 "fold (\<lambda>(_, i) s. destroy_arena s i) (m_module_arenas st) st"]
    by (simp add: st1_def manager_ok_def)
  show ?thesis
  proof (cases "m_program_arena st")
    case None
    have shut: "manager_shutdown st = st1\<lparr>m_initialized := False\<rparr>"
      using None f by (simp add: manager_shutdown_def Let_def st1_def)
    have "memory_inv (st1\<lparr>m_initialized := False\<rparr>)"
      using inv1 memory_inv_cong [of st1 "st1\<lparr>m_initialized := False\<rparr>"] by simp
    moreover have "owner_inv (st1\<lparr>m_initialized := False\<rparr>)"
      using assms None f
      by (auto simp: manager_ok_def owner_inv_def owners_def base_arenas_def dom_def
          split: option.splits)
    ultimately show ?thesis unfolding shut manager_ok_def by simp
  next
    case (Some p)
    let ?st = "(destroy_arena st1 p)\<lparr>m_program_arena := None, m_initialized := False\<rparr>"
    have shut: "manager_shutdown st = ?st"
      using Some f by (simp add: manager_shutdown_def Let_def st1_def)
    have "memory_inv ?st"
      using inv1 memory_inv_destroy [of st1 p] memory_inv_cong [of ?st "destroy_arena st1 p"] by simp
    moreover have "owner_inv ?st"
      using assms Some f
      by (auto simp: manager_ok_def owner_inv_def owners_def base_arenas_def dom_def
          split: option.splits if_splits)
    ultimately show ?thesis unfolding shut manager_ok_def by simp
  qed
qed

lemma owner_inv_cong:
  assumes "owner_inv st" and "base_arenas st' = base_arenas st" and "regions st' = regions st"
    and "dom (arenas st') = dom (arenas st)" and "next_arena st' = next_arena st"
    and "t_current_arena st' = t_current_arena st" and "m_initialized st' = m_initialized st"
    and "m_program_arena st' = m_program_arena st"
  shows "owner_inv st'"
proof -
  have eq: "owners st' = owners st" using assms(2,3) by (simp add: owners_def)
  show ?thesis
    using assms(1) unfolding owner_inv_def eq assms(2-8) by blast
qed

lemma manager_ok_allocate:
  assumes "new_ok new" and "manager_ok st" and "request_ok r"
    and "allocate_in new st i r = Some (st', p)"
  shows "manager_ok st'"
proof -
  obtain a m' a' where a: "arenas st i = Some a"
    and st': "st' = st\<lparr>mem := m', arenas := (arenas st)(i := Some a')\<rparr>"
    using assms(4) by (auto simp: allocate_in_def split: option.splits)
  have "owner_inv st'"
    by (rule owner_inv_cong [of st])
      (use assms(2) a in \<open>auto simp: manager_ok_def st' base_arenas_def\<close>)
  moreover have "memory_inv st'"
    using assms(2) memory_inv_allocate [OF assms(1) _ assms(3,4)] by (simp add: manager_ok_def)
  ultimately show ?thesis by (simp add: manager_ok_def)
qed

lemma manager_step_ok:
  "manager_step new st st' \<Longrightarrow> new_ok new \<Longrightarrow> manager_ok st \<Longrightarrow> manager_ok st'"
  by (induction rule: manager_step.induct)
    (auto intro: manager_ok_initialize manager_ok_shutdown manager_ok_module manager_ok_thread
      manager_ok_enter manager_ok_leave manager_ok_allocate)

lemma manager_start_ok: "manager_ok manager_start"
  by (simp add: manager_ok_def memory_inv_def memory_ok_def owned_def owner_inv_def owners_def
      base_arenas_def manager_start_def)

lemma reachable_manager_ok: "manager_reachable new st \<Longrightarrow> new_ok new \<Longrightarrow> manager_ok st"
  by (induction rule: manager_reachable.induct) (auto intro: manager_start_ok manager_step_ok)

section \<open>Regions\<close>

text \<open>Allocations in one arena of the manager.\<close>

fun allocate_run :: "operator_new \<Rightarrow> manager \<Rightarrow> nat \<Rightarrow> request list \<Rightarrow> manager option" where
  "allocate_run new st i [] = Some st"
| "allocate_run new st i (r # rs) =
     (case allocate_in new st i r of
        None \<Rightarrow> None | Some (st', p) \<Rightarrow> allocate_run new st' i rs)"

lemma allocate_run_all:
  assumes "arenas st i = Some a" and "allocate_run new st i rs = Some st'"
  shows "\<exists>m' a'. allocate_all new (mem st) a rs = Some (m', a') \<and>
    st' = st\<lparr>mem := m', arenas := (arenas st)(i := Some a')\<rparr>"
  using assms
proof (induction rs arbitrary: st a)
  case Nil
  have eq: "(arenas st)(i := Some a) = arenas st" using Nil.prems(1) by (rule fun_upd_idem)
  have "st = st\<lparr>mem := mem st, arenas := (arenas st)(i := Some a)\<rparr>" unfolding eq by simp
  with Nil.prems(2) show ?case by (metis allocate_all.simps(1) allocate_run.simps(1) option.inject)
next
  case (Cons r rs)
  obtain m1 a1 p where alloc: "allocate_with_extra new (mem st) a (req_size r) (req_align r)
      (req_dtor r) (req_extra r) = Some (m1, a1, p)"
    and run: "allocate_run new (st\<lparr>mem := m1, arenas := (arenas st)(i := Some a1)\<rparr>) i rs = Some st'"
    using Cons.prems by (auto simp: allocate_in_def split: option.splits)
  from Cons.IH [OF _ run, of a1] alloc show ?case by (auto simp del: fun_upd_apply simp: fun_upd_same)
qed

lemma free_created:
  assumes "new_ok new" and "memory_ok m" and "allocate_all new m (arena_create n) rs = Some (m', a')"
  shows "filter (\<lambda>s. fst s \<notin> block_memory ` set (m_blocks a')) m' = m"
proof -
  have "extends m (arena_create n) m' a'"
    by (rule extends_allocate_all [OF assms(1) extends_refl assms(3)])
  then obtain nb where "m_blocks a' = with_last_offset 0 [] @ nb"
      and "m' = rev (map segment_of nb) @ m" and d: "distinct (map fst m') = distinct (map fst m)"
    unfolding extends_def by (auto simp: arena_create_def)
  then have m': "m' = rev (map segment_of (m_blocks a')) @ m" and "distinct (map fst m')"
    using assms(2) by (simp_all add: memory_ok_def)
  then have "fst ` segment_of ` set (m_blocks a') \<inter> fst ` set m = {}" by simp
  then have "block_memory ` set (m_blocks a') \<inter> fst ` set m = {}"
    by (simp add: segment_of_def image_image)
  then have "filter (\<lambda>s. fst s \<notin> block_memory ` set (m_blocks a')) m = m"
    by (intro filter_True) blast
  moreover have "filter (\<lambda>s. fst s \<notin> block_memory ` set (m_blocks a'))
      (rev (map segment_of (m_blocks a'))) = []"
    by (auto simp: filter_empty_conv segment_of_def)
  ultimately show ?thesis by (simp add: m')
qed

section \<open>Properties\<close>

text \<open>C24: In every state a thread can reach, with regions nested in any way and the manager
  initialized and shut down between them any number of times, the current arena is an existing,
  well-formed arena or null (it never dangles), and every segment of memory obtained from the system
  belongs to exactly one existing arena, so that nothing leaks once the arenas are gone.\<close>

theorem current_arena_never_dangles:
  assumes "new_ok new" and "manager_reachable new st"
  shows "current_arena st \<noteq> Abort Undefined \<and>
    (\<forall>i a. current_arena st = Ok (i, a) \<longrightarrow> arena_ok (mem st) a) \<and>
    (\<forall>s \<in> set (mem st). \<exists>!i. s \<in> owned st i) \<and>
    (arenas st = (\<lambda>_. None) \<longrightarrow> mem st = [])"
proof -
  have mem: "memory_inv st" and own: "owner_inv st"
    using reachable_manager_ok [OF assms(2,1)] by (simp_all add: manager_ok_def)
  have "set_option (t_current_arena st) \<subseteq> dom (arenas st)"
    using own unfolding owner_inv_def by blast
  then have "current_arena st \<noteq> Abort Undefined"
    by (auto simp: current_arena_def split: option.splits)
  moreover have "\<forall>s \<in> set (mem st). \<exists>!i. s \<in> owned st i"
    using memory_invD(3,5) [OF mem] by (metis IntI empty_iff)
  moreover have "mem st = []" if "arenas st = (\<lambda>_. None)"
    using mem that by (simp add: memory_inv_def owned_def)
  ultimately show ?thesis
    using memory_invD(4) [OF mem] by (auto simp: current_arena_def split: option.splits)
qed

theorem current_arena_never_dangles_witness:
  "current_arena (manager_initialize manager_start) \<noteq> Abort Undefined"
  using current_arena_never_dangles [OF demo_new_ok
      manager_reachable.step [OF manager_reachable.start manager_step.initialize]]
  by blast

text \<open>A scoped region leaves no trace: entering a region, allocating in it any number of
  times and leaving it gives back the memory, the arenas, the current arena and the open regions
  as they were, after running the destructors of the region's objects, the youngest first.\<close>

theorem region_restores:
  assumes "new_ok new" and "manager_reachable new st"
    and "allocate_run new (region_enter st block_size) (next_arena st) rs = Some st'"
  shows "\<exists>calls. region_leave st' =
    st\<lparr>next_arena := Suc (next_arena st), dtor_log := dtor_log st @ calls\<rparr>"
proof -
  let ?i = "next_arena st"
  let ?in = "region_enter st block_size"
  have ok: "memory_inv st" "owner_inv st"
    using reachable_manager_ok [OF assms(2,1)] by (simp_all add: manager_ok_def)
  have fresh: "arenas st ?i = None" by (rule fresh_arena [OF ok(2)])
  have enter: "arenas ?in ?i = Some (arena_create block_size)" "mem ?in = mem st"
    by (simp_all add: region_enter_def make_arena_def)
  obtain m' a' where all: "allocate_all new (mem st) (arena_create block_size) rs = Some (m', a')"
    and st': "st' = ?in\<lparr>mem := m', arenas := (arenas ?in)(?i := Some a')\<rparr>"
    using allocate_run_all [OF enter(1) assms(3)] enter(2) by auto
  have "filter (\<lambda>s. fst s \<notin> block_memory ` set (m_blocks a')) m' = mem st"
    by (rule free_created [OF assms(1) memory_invD(1) [OF ok(1)] all])
  then have "region_leave st' =
      st\<lparr>next_arena := Suc ?i, dtor_log := dtor_log st @ rev (m_destructors a')\<rparr>"
    using fresh
    by (simp add: st' region_leave_def region_enter_def make_arena_def destroy_arena_def
        arena_reset_def delete_all_blocks fun_upd_idem)
  then show ?thesis by blast
qed

theorem region_restores_witness:
  "\<exists>calls. region_leave (region_enter manager_start 64) =
     manager_start\<lparr>next_arena := 1, dtor_log := [] @ calls\<rparr>"
  using region_restores [OF demo_new_ok manager_reachable.start, of 64 "[]"]
  by (simp add: manager_start_def)

end
