(* ===== verification/Slabs.thy ===== *)
theory Slabs
  imports Arenas
begin

text \<open>
  The slab allocator below the garbage collector (\<^verbatim>\<open>src/src/memory/Heap.hpp\<close>,
  \<^verbatim>\<open>Heap.cpp\<close>): chunks of 64 cells of one size with a bit set of the occupied ones, blocks that
  grow by further chunks, and the slab of eight blocks for the cell sizes 16 to 2048. Addresses are
  natural numbers; memory comes from \<^verbatim>\<open>operator new\<close> as in theory \<open>Arenas\<close>. The number of chunks
  after growing is the single precision product of the code, with its rounding.
\<close>

section \<open>Chunks\<close>

record chunk =
  chunk_memory :: nat
  object_size :: nat
  occupied :: "bool list"

definition chunk_create :: "nat \<Rightarrow> nat \<Rightarrow> chunk" where
  "chunk_create memory obj_size =
     \<lparr>chunk_memory = memory, object_size = obj_size, occupied = replicate 64 False\<rparr>"

definition has_free_chunk :: "chunk \<Rightarrow> bool" where
  "has_free_chunk c \<longleftrightarrow> \<not> list_all id (occupied c)"

text \<open>\<^verbatim>\<open>while (m_occupied_chunks[i]) i++\<close>\<close>

fun first_free :: "bool list \<Rightarrow> nat" where
  "first_free [] = 0"
| "first_free (b # bs) = (if b then Suc (first_free bs) else 0)"

definition next_free_chunk :: "chunk \<Rightarrow> nat option" where
  "next_free_chunk c = (if has_free_chunk c then Some (first_free (occupied c)) else None)"

definition mark_next_free_chunk :: "chunk \<Rightarrow> (chunk \<times> nat option) py_result" where
  "mark_next_free_chunk c =
     (case next_free_chunk c of
        Some i \<Rightarrow>
          assert_that (\<not> occupied c ! i)
            (Ok (c\<lparr>occupied := (occupied c)[i := \<not> occupied c ! i]\<rparr>, Some i))
      | None \<Rightarrow> Ok (c, None))"

definition mark_chunk_as_free :: "chunk \<Rightarrow> nat \<Rightarrow> chunk py_result" where
  "mark_chunk_as_free c i =
     assert_that (occupied c ! i) (Ok (c\<lparr>occupied := (occupied c)[i := \<not> occupied c ! i]\<rparr>))"

definition chunk_allocate :: "chunk \<Rightarrow> (chunk \<times> nat option) py_result" where
  "chunk_allocate c =
     and_then (mark_next_free_chunk c) (\<lambda>(c', r).
       case r of
         Some i \<Rightarrow> Ok (c', Some (chunk_memory c + i * object_size c))
       | None \<Rightarrow> Ok (c', None))"

definition chunk_has_address :: "chunk \<Rightarrow> nat \<Rightarrow> bool" where
  "chunk_has_address c address =
     (if address < chunk_memory c \<or> address \<ge> chunk_memory c + object_size c * 64 then False
      else if (address - chunk_memory c) mod object_size c = 0 then
        occupied c ! ((address - chunk_memory c) div object_size c)
      else False)"

definition chunk_deallocate :: "chunk \<Rightarrow> nat \<Rightarrow> chunk py_result" where
  "chunk_deallocate c ptr =
     assert_that (ptr \<ge> chunk_memory c \<and> ptr < chunk_memory c + (object_size c + 1) * 64)
     (assert_that ((ptr - chunk_memory c) mod object_size c = 0)
     (let i = (ptr - chunk_memory c) div object_size c in
      assert_that (i < 64) (mark_chunk_as_free c i)))"

definition chunk_reset :: "chunk \<Rightarrow> chunk" where
  "chunk_reset c = c\<lparr>occupied := replicate 64 False\<rparr>"

text \<open>The cells that \<^verbatim>\<open>for_each_cell\<close> and \<^verbatim>\<open>for_each_cell_alive\<close> visit, in order.\<close>

definition all_cells :: "chunk \<Rightarrow> nat list" where
  "all_cells c = map (\<lambda>i. chunk_memory c + i * object_size c) [0 ..< length (occupied c)]"

definition alive_cells :: "chunk \<Rightarrow> nat list" where
  "alive_cells c =
     map (\<lambda>i. chunk_memory c + i * object_size c)
       (filter (\<lambda>i. occupied c ! i) [0 ..< length (occupied c)])"

section \<open>Blocks\<close>

record slab_block =
  b_memory :: "segment list"
  b_chunks :: "chunk list"

definition make_chunks :: "nat \<Rightarrow> nat \<Rightarrow> nat \<Rightarrow> chunk list" where
  "make_chunks base obj_size n =
     map (\<lambda>i. chunk_create (base + i * (obj_size * 64)) obj_size) [0 ..< n]"

definition block_create ::
  "operator_new \<Rightarrow> memory \<Rightarrow> nat \<Rightarrow> nat \<Rightarrow> (memory \<times> slab_block) py_result" where
  "block_create new m obj_size cap =
     (let chunks_needed = cap div 64; bytes = chunks_needed * 64 * obj_size in
      case new m bytes of
        None \<Rightarrow> Err MemoryError
      | Some p \<Rightarrow>
          Ok ((p, bytes) # m,
              \<lparr>b_memory = [(p, bytes)], b_chunks = make_chunks p obj_size chunks_needed\<rparr>))"

definition block_reset :: "slab_block \<Rightarrow> slab_block" where
  "block_reset b = b\<lparr>b_chunks := map chunk_reset (b_chunks b)\<rparr>"

text \<open>The first chunk that has a free cell.\<close>

fun allocate_in_chunks :: "chunk list \<Rightarrow> (chunk list \<times> nat option) py_result" where
  "allocate_in_chunks [] = Ok ([], None)"
| "allocate_in_chunks (c # cs) =
     and_then (chunk_allocate c) (\<lambda>(c', r).
       case r of
         Some p \<Rightarrow> Ok (c' # cs, Some p)
       | None \<Rightarrow> and_then (allocate_in_chunks cs) (\<lambda>(cs', r'). Ok (c' # cs', r')))"

text \<open>
  \<^verbatim>\<open>std::round(static_cast<float>(n) * 1.618f)\<close>. A \<^verbatim>\<open>float\<close> has a significand of 24 bits and
  rounds to nearest, ties to even: \<open>to_float x\<close> is the rounded integer, for any scaling by a
  power of two. The constant \<^verbatim>\<open>1.618f\<close> is \<open>13572768 / 2 ^ 23\<close>.
\<close>

fun bit_size :: "nat \<Rightarrow> nat" where
  "bit_size n = (if n = 0 then 0 else Suc (bit_size (n div 2)))"

declare bit_size.simps [simp del]

definition to_float :: "nat \<Rightarrow> nat" where
  "to_float x =
     (let k = bit_size x - 24; q = x div 2 ^ k; r = x mod 2 ^ k in
      if k = 0 then x
      else if 2 * r > 2 ^ k \<or> (2 * r = 2 ^ k \<and> odd q) then (q + 1) * 2 ^ k
      else q * 2 ^ k)"

definition grow :: "nat \<Rightarrow> nat" where
  "grow n = (to_float (to_float n * 13572768) + 2 ^ 22) div 2 ^ 23"

definition block_allocate ::
  "operator_new \<Rightarrow> memory \<Rightarrow> slab_block \<Rightarrow> (memory \<times> slab_block \<times> nat) py_result" where
  "block_allocate new m b =
     and_then (allocate_in_chunks (b_chunks b)) (\<lambda>(cs, r).
       case r of
         Some p \<Rightarrow> Ok (m, b\<lparr>b_chunks := cs\<rparr>, p)
       | None \<Rightarrow>
           if b_chunks b = [] then Abort Undefined
           else
             let old_chunk_count = length (b_chunks b);
                 new_chunk_count = grow old_chunk_count;
                 obj_size = object_size (last (b_chunks b));
                 bytes = new_chunk_count * 64 * obj_size
             in case new m bytes of
                  None \<Rightarrow> Err MemoryError
                | Some q \<Rightarrow>
                    let chunks = b_chunks b @ make_chunks q obj_size (new_chunk_count - old_chunk_count)
                    in if \<not> old_chunk_count < length chunks then Abort Undefined
                       else and_then (chunk_allocate (chunks ! old_chunk_count)) (\<lambda>(c', r').
                         case r' of
                           Some p \<Rightarrow>
                             Ok ((q, bytes) # m,
                                 \<lparr>b_memory = b_memory b @ [(q, bytes)],
                                  b_chunks = chunks[old_chunk_count := c']\<rparr>, p)
                         | None \<Rightarrow> Abort NotReached))"

text \<open>\<open>Block::deallocate\<close> takes the size of every piece of memory to be that of all chunks, and
  the chunk index to be counted from the start of the piece.\<close>

fun find_piece :: "nat \<Rightarrow> nat \<Rightarrow> segment list \<Rightarrow> nat option" where
  "find_piece ptr bytes [] = None"
| "find_piece ptr bytes (s # ss) =
     (if ptr < fst s \<or> ptr \<ge> fst s + bytes then find_piece ptr bytes ss else Some (fst s))"

definition block_deallocate :: "slab_block \<Rightarrow> nat \<Rightarrow> slab_block py_result" where
  "block_deallocate b ptr =
     (if b_chunks b = [] then Abort Undefined
      else
        let obj_size = object_size (last (b_chunks b));
            current_size = length (b_chunks b) * 64 * obj_size
        in case find_piece ptr current_size (b_memory b) of
             None \<Rightarrow> Abort NotReached
           | Some start \<Rightarrow>
               let chunk_idx = (ptr - start) div (64 * obj_size) in
               assert_that (chunk_idx < length (b_chunks b))
                 (and_then (chunk_deallocate (b_chunks b ! chunk_idx) ptr) (\<lambda>c'.
                    Ok (b\<lparr>b_chunks := (b_chunks b)[chunk_idx := c']\<rparr>))))"

section \<open>The slab\<close>

type_synonym slab = "slab_block list"

definition slab_sizes :: "nat list" where
  "slab_sizes = [16, 32, 64, 128, 256, 512, 1024, 2048]"

fun slab_create :: "operator_new \<Rightarrow> memory \<Rightarrow> nat list \<Rightarrow> (memory \<times> slab) py_result" where
  "slab_create new m [] = Ok (m, [])"
| "slab_create new m (n # ns) =
     and_then (block_create new m n 1000) (\<lambda>(m', b).
       and_then (slab_create new m' ns) (\<lambda>(m'', bs). Ok (m'', b # bs)))"

text \<open>\<^verbatim>\<open>Slab::allocate\<close>: the block of the first size that holds the object and its header.\<close>

fun size_class :: "nat \<Rightarrow> nat list \<Rightarrow> nat option" where
  "size_class n [] = None"
| "size_class n (k # ks) =
     (if n \<le> k then Some 0 else case size_class n ks of None \<Rightarrow> None | Some i \<Rightarrow> Some (Suc i))"

definition gc_header_size :: nat where "gc_header_size = 8"

definition slab_allocate ::
  "operator_new \<Rightarrow> memory \<Rightarrow> slab \<Rightarrow> nat \<Rightarrow> (memory \<times> slab \<times> nat) py_result" where
  "slab_allocate new m s bytes =
     (case size_class (bytes + gc_header_size) slab_sizes of
        None \<Rightarrow> Abort Todo
      | Some i \<Rightarrow>
          and_then (block_allocate new m (s ! i)) (\<lambda>(m', b, p). Ok (m', s[i := b], p)))"

definition slab_has_address :: "slab \<Rightarrow> nat \<Rightarrow> bool" where
  "slab_has_address s address \<longleftrightarrow>
     list_ex (\<lambda>b. list_ex (\<lambda>c. chunk_has_address c address) (b_chunks b)) s"

definition slab_reset :: "slab \<Rightarrow> slab" where
  "slab_reset s = map block_reset s"

section \<open>The invariant\<close>

definition chunk_ok :: "chunk \<Rightarrow> bool" where
  "chunk_ok c \<longleftrightarrow> 0 < object_size c \<and> 0 < chunk_memory c \<and> length (occupied c) = 64"

definition chunk_span :: "chunk \<Rightarrow> nat set" where
  "chunk_span c = {chunk_memory c ..< chunk_memory c + 64 * object_size c}"

definition cells :: "chunk \<Rightarrow> nat set" where
  "cells c = set (alive_cells c)"

definition memory_span :: "memory \<Rightarrow> nat set" where
  "memory_span m = (\<Union>s \<in> set m. span s)"

definition chunks_ok :: "memory \<Rightarrow> chunk list \<Rightarrow> bool" where
  "chunks_ok m cs \<longleftrightarrow>
     (\<forall>c \<in> set cs. chunk_ok c \<and> chunk_span c \<subseteq> memory_span m) \<and>
     sorted_wrt (\<lambda>c d. chunk_span c \<inter> chunk_span d = {}) cs"

definition slab_chunks :: "slab \<Rightarrow> chunk list" where
  "slab_chunks s = concat (map b_chunks s)"

definition slab_cells :: "slab \<Rightarrow> nat set" where
  "slab_cells s = (\<Union>c \<in> set (slab_chunks s). cells c)"

text \<open>The occupied cells with their sizes.\<close>

definition chunk_objects :: "chunk \<Rightarrow> segment set" where
  "chunk_objects c = (\<lambda>p. (p, object_size c)) ` cells c"

definition slab_objects :: "slab \<Rightarrow> segment set" where
  "slab_objects s = (\<Union>c \<in> set (slab_chunks s). chunk_objects c)"

definition block_sized :: "nat \<Rightarrow> slab_block \<Rightarrow> bool" where
  "block_sized n b \<longleftrightarrow> b_chunks b \<noteq> [] \<and> (\<forall>c \<in> set (b_chunks b). object_size c = n)"

definition slab_ok :: "memory \<Rightarrow> slab \<Rightarrow> bool" where
  "slab_ok m s \<longleftrightarrow> chunks_ok m (slab_chunks s) \<and> list_all2 block_sized slab_sizes s"

lemma slab_cells_objects: "slab_cells s = fst ` slab_objects s"
  by (force simp: slab_cells_def slab_objects_def chunk_objects_def)

lemma cells_iff:
  "p \<in> cells c \<longleftrightarrow> (\<exists>i < length (occupied c). occupied c ! i \<and> p = chunk_memory c + i * object_size c)"
  by (auto simp: cells_def alive_cells_def)

lemma cells_span: "chunk_ok c \<Longrightarrow> cells c \<subseteq> chunk_span c"
proof
  fix p assume "chunk_ok c" and "p \<in> cells c"
  then obtain i where "i < 64" "p = chunk_memory c + i * object_size c" "0 < object_size c"
    by (auto simp: cells_iff chunk_ok_def)
  moreover have "i * object_size c < 64 * object_size c" using calculation by simp
  ultimately show "p \<in> chunk_span c" by (simp add: chunk_span_def)
qed

lemma chunk_has_address_iff:
  assumes "chunk_ok c"
  shows "chunk_has_address c p \<longleftrightarrow> p \<in> cells c"
proof
  assume "chunk_has_address c p"
  then have p: "chunk_memory c \<le> p" "p < chunk_memory c + object_size c * 64"
      "(p - chunk_memory c) mod object_size c = 0"
      "occupied c ! ((p - chunk_memory c) div object_size c)"
    by (auto simp: chunk_has_address_def split: if_splits)
  let ?i = "(p - chunk_memory c) div object_size c"
  have "?i < 64" using p assms by (simp add: div_less_iff_less_mult chunk_ok_def mult.commute)
  moreover have "p = chunk_memory c + ?i * object_size c"
    using p(1,3) by (metis add.right_neutral div_mult_mod_eq le_add_diff_inverse)
  ultimately show "p \<in> cells c" using p(4) assms by (auto simp: cells_iff chunk_ok_def)
next
  assume "p \<in> cells c"
  then obtain i where "i < 64" "occupied c ! i" "p = chunk_memory c + i * object_size c"
    using assms by (auto simp: cells_iff chunk_ok_def)
  then show "chunk_has_address c p"
    using assms by (simp add: chunk_has_address_def chunk_ok_def)
qed

lemma slab_has_address_iff:
  assumes "slab_ok m s"
  shows "slab_has_address s p \<longleftrightarrow> p \<in> slab_cells s"
proof -
  have "chunk_has_address c p \<longleftrightarrow> p \<in> cells c" if "b \<in> set s" "c \<in> set (b_chunks b)" for b c
    using that assms by (intro chunk_has_address_iff) (auto simp: slab_ok_def chunks_ok_def slab_chunks_def)
  then show ?thesis
    by (auto simp: slab_has_address_def list_ex_iff slab_cells_def slab_chunks_def)
qed

section \<open>Allocation in a chunk\<close>

lemma first_free_spec:
  "\<not> list_all id bs \<Longrightarrow> first_free bs < length bs \<and> \<not> bs ! first_free bs"
  by (induction bs) auto

text \<open>\<open>c'\<close> is \<open>c\<close> with the free cell \<open>p\<close> taken.\<close>

definition occupies :: "chunk \<Rightarrow> chunk \<Rightarrow> nat \<Rightarrow> bool" where
  "occupies c c' p \<longleftrightarrow>
     chunk_ok c' \<and> chunk_memory c' = chunk_memory c \<and> object_size c' = object_size c \<and>
     p \<notin> cells c \<and> cells c' = insert p (cells c)"

lemma cell_index_inj:
  "chunk_ok c \<Longrightarrow> chunk_memory c + i * object_size c = chunk_memory c + j * object_size c \<longleftrightarrow> i = j"
  by (simp add: chunk_ok_def)

lemma chunk_allocate_full:
  "\<not> has_free_chunk c \<Longrightarrow> chunk_allocate c = Ok (c, None)"
  by (simp add: chunk_allocate_def mark_next_free_chunk_def next_free_chunk_def)

lemma chunk_allocate_free:
  assumes ok: "chunk_ok c" and free: "has_free_chunk c"
  shows "\<exists>c' p. chunk_allocate c = Ok (c', Some p) \<and> occupies c c' p"
proof -
  let ?i = "first_free (occupied c)"
  let ?c = "c\<lparr>occupied := (occupied c)[?i := True]\<rparr>" and ?p = "chunk_memory c + ?i * object_size c"
  have i: "?i < 64" "\<not> occupied c ! ?i" and len: "length (occupied c) = 64"
    using first_free_spec [of "occupied c"] free ok by (auto simp: has_free_chunk_def chunk_ok_def)
  have fresh: "?p \<notin> cells c"
    using i ok by (auto simp: cells_iff chunk_ok_def)
  have ins: "cells ?c = insert ?p (cells c)"
    using i len by (auto simp: cells_iff nth_list_update split: if_splits)
  have "chunk_allocate c = Ok (?c, Some ?p)"
    using i free by (simp add: chunk_allocate_def mark_next_free_chunk_def next_free_chunk_def assert_that_def)
  moreover have "occupies c ?c ?p"
    using fresh ins ok len by (simp add: occupies_def chunk_ok_def)
  ultimately show ?thesis by blast
qed

lemma occupies_span: "occupies c c' p \<Longrightarrow> chunk_span c' = chunk_span c"
  by (simp add: occupies_def chunk_span_def)

lemma occupies_in_span: "occupies c c' p \<Longrightarrow> p \<in> chunk_span c"
  using cells_span [of c'] occupies_span [of c c' p] by (auto simp: occupies_def)

lemma allocate_in_chunks_spec:
  assumes "\<forall>c \<in> set cs. chunk_ok c"
  shows "allocate_in_chunks cs = Ok (cs, None) \<or>
     (\<exists>k c' p. k < length cs \<and> allocate_in_chunks cs = Ok (cs[k := c'], Some p) \<and>
        occupies (cs ! k) c' p)"
  using assms
proof (induction cs)
  case Nil
  then show ?case by simp
next
  case (Cons c cs)
  show ?case
  proof (cases "has_free_chunk c")
    case True
    then obtain c' p where "chunk_allocate c = Ok (c', Some p)" "occupies c c' p"
      using chunk_allocate_free [of c] Cons.prems by auto
    then have "allocate_in_chunks (c # cs) = Ok ((c # cs)[0 := c'], Some p)" "occupies ((c # cs) ! 0) c' p"
      by auto
    then show ?thesis by (intro disjI2 exI [of _ 0]) auto
  next
    case False
    then have full: "chunk_allocate c = Ok (c, None)" by (rule chunk_allocate_full)
    from Cons.IH Cons.prems have "allocate_in_chunks cs = Ok (cs, None) \<or>
       (\<exists>k c' p. k < length cs \<and> allocate_in_chunks cs = Ok (cs[k := c'], Some p) \<and>
          occupies (cs ! k) c' p)" by simp
    then show ?thesis
    proof (elim disjE exE conjE)
      assume "allocate_in_chunks cs = Ok (cs, None)"
      then show ?thesis using full by simp
    next
      fix k c' p
      assume "k < length cs" "allocate_in_chunks cs = Ok (cs[k := c'], Some p)" "occupies (cs ! k) c' p"
      then show ?thesis using full by (intro disjI2 exI [of _ "Suc k"]) auto
    qed
  qed
qed

section \<open>Collections of chunks\<close>

lemma chunks_ok_disjoint:
  assumes "chunks_ok m cs" "i < length cs" "j < length cs" "p \<in> chunk_span (cs ! i)"
    "p \<in> chunk_span (cs ! j)"
  shows "i = j"
proof (rule ccontr)
  have *: False if "a < b" "b < length cs" "p \<in> chunk_span (cs ! a)" "p \<in> chunk_span (cs ! b)" for a b
    using sorted_wrt_nth_less [of "\<lambda>c d. chunk_span c \<inter> chunk_span d = {}" cs a b] that assms(1)
    by (auto simp: chunks_ok_def)
  assume "i \<noteq> j"
  then show False using * assms by (meson linorder_neqE_nat)
qed

lemma chunks_ok_same_spans:
  assumes "chunks_ok m cs" "length cs' = length cs"
    "\<And>i. i < length cs \<Longrightarrow> chunk_ok (cs' ! i) \<and> chunk_span (cs' ! i) = chunk_span (cs ! i)"
  shows "chunks_ok m cs'"
  using assms by (auto simp: chunks_ok_def sorted_wrt_iff_nth_less all_set_conv_all_nth)

lemma chunks_ok_append:
  "chunks_ok m (xs @ ys) \<longleftrightarrow> chunks_ok m xs \<and> chunks_ok m ys \<and>
     (\<forall>c \<in> set xs. \<forall>d \<in> set ys. chunk_span c \<inter> chunk_span d = {})"
  by (auto simp: chunks_ok_def sorted_wrt_append)

lemma chunks_ok_nth: "chunks_ok m cs \<Longrightarrow> i < length cs \<Longrightarrow> chunk_ok (cs ! i)"
  by (simp add: chunks_ok_def)

lemma chunks_ok_weaken: "chunks_ok m cs \<Longrightarrow> chunks_ok (s # m) cs"
  by (auto simp: chunks_ok_def memory_span_def)

lemma chunks_ok_update:
  assumes "chunks_ok m cs" "k < length cs" "occupies (cs ! k) c' p"
  shows "chunks_ok m (cs[k := c'])"
proof (rule chunks_ok_same_spans [OF assms(1)])
  fix i assume "i < length cs"
  then show "chunk_ok (cs[k := c'] ! i) \<and> chunk_span (cs[k := c'] ! i) = chunk_span (cs ! i)"
    using assms occupies_span [OF assms(3)] by (cases "i = k") (auto simp: occupies_def chunks_ok_nth)
qed simp

lemma chunk_object_span: "chunk_ok c \<Longrightarrow> x \<in> chunk_objects c \<Longrightarrow> span x \<subseteq> chunk_span c"
proof -
  assume "chunk_ok c" "x \<in> chunk_objects c"
  then obtain i where i: "i < 64" "x = (chunk_memory c + i * object_size c, object_size c)"
    by (auto simp: chunk_objects_def cells_iff chunk_ok_def)
  have "Suc i * object_size c \<le> 64 * object_size c" using i by (intro mult_le_mono1) simp
  then show "span x \<subseteq> chunk_span c" using i by (auto simp: span_def chunk_span_def)
qed

lemma multiples_apart:
  "i \<noteq> j \<Longrightarrow> {a + i * n ..< a + i * n + n} \<inter> {a + j * n ..< a + j * n + n} = {}" for i j a n :: nat
proof -
  have *: "i * n + n \<le> j * n" if "i < j" for i j
    using mult_le_mono1 [of "Suc i" j n] that by simp
  assume "i \<noteq> j"
  then show ?thesis using * [of i j] * [of j i] by (cases "i < j") auto
qed

lemma objects_apart:
  assumes ok: "chunks_ok m cs" and x: "c \<in> set cs" "x \<in> chunk_objects c"
    and y: "d \<in> set cs" "y \<in> chunk_objects d" and "x \<noteq> y"
  shows "span x \<inter> span y = {}"
proof -
  obtain i j where ij: "c = cs ! i" "i < length cs" "d = cs ! j" "j < length cs"
    using x(1) y(1) by (auto simp: in_set_conv_nth)
  have oks: "chunk_ok c" "chunk_ok d" using ok ij chunks_ok_nth by auto
  show ?thesis
  proof (cases "i = j")
    case True
    then have "c = d" using ij by simp
    obtain u where u: "x = (chunk_memory c + u * object_size c, object_size c)"
      using x(2) by (force simp: chunk_objects_def cells_iff)
    obtain v where v: "y = (chunk_memory c + v * object_size c, object_size c)"
      using y(2) \<open>c = d\<close> by (force simp: chunk_objects_def cells_iff)
    note uv = u v
    then have "u \<noteq> v" using \<open>x \<noteq> y\<close> by auto
    then show ?thesis using uv multiples_apart by (simp add: span_def)
  next
    case False
    then show ?thesis
      using chunk_object_span [OF oks(1) x(2)] chunk_object_span [OF oks(2) y(2)]
        chunks_ok_disjoint [OF ok ij(2,4)] ij by blast
  qed
qed

text \<open>Taking a cell of one chunk adds one object, that overlaps no other.\<close>

lemma chunks_ok_fresh:
  assumes "chunks_ok m cs" "k < length cs" "occupies (cs ! k) c' p"
  shows "p \<notin> fst ` (\<Union>c \<in> set cs. chunk_objects c)"
    and "(\<Union>c \<in> set (cs[k := c']). chunk_objects c) =
         insert (p, object_size (cs ! k)) (\<Union>c \<in> set cs. chunk_objects c)"
proof -
  have sub: "cells (cs ! j) \<subseteq> chunk_span (cs ! j)" if "j < length cs" for j
    using assms(1) that by (intro cells_span) (simp add: chunks_ok_def)
  have "p \<in> chunk_span (cs ! k)" using assms(3) by (rule occupies_in_span)
  then have "p \<notin> cells (cs ! j)" if "j < length cs" for j
    using that sub [of j] chunks_ok_disjoint [OF assms(1,2) that, of p] assms(3)
    by (auto simp: occupies_def)
  then show "p \<notin> fst ` (\<Union>c \<in> set cs. chunk_objects c)"
    by (auto simp: in_set_conv_nth chunk_objects_def)
  have new: "chunk_objects c' = insert (p, object_size (cs ! k)) (chunk_objects (cs ! k))"
    using assms(3) by (simp add: occupies_def chunk_objects_def)
  have "(\<Union>c \<in> set (cs[k := c']). chunk_objects c) =
      (\<Union>j \<in> {..< length cs}. chunk_objects (cs[k := c'] ! j))"
    by (auto simp: set_conv_nth)
  also have "\<dots> = insert (p, object_size (cs ! k)) (\<Union>j \<in> {..< length cs}. chunk_objects (cs ! j))"
    using assms(2) new by (auto simp: nth_list_update split: if_splits)
  finally show "(\<Union>c \<in> set (cs[k := c']). chunk_objects c) =
      insert (p, object_size (cs ! k)) (\<Union>c \<in> set cs. chunk_objects c)"
    by (auto simp: set_conv_nth)
qed

lemma length_make_chunks [simp]: "length (make_chunks q n k) = k"
  by (simp add: make_chunks_def)

lemma make_chunks_nth:
  "i < k \<Longrightarrow> make_chunks q n k ! i = chunk_create (q + i * (n * 64)) n"
  by (simp add: make_chunks_def)

lemma make_chunks_span:
  assumes "i < k"
  shows "chunk_span (make_chunks q n k ! i) = {q + i * (64 * n) ..< q + Suc i * (64 * n)}"
  using assms by (simp add: make_chunks_nth chunk_span_def chunk_create_def algebra_simps)

lemma make_chunks_ok:
  assumes "0 < n" "0 < q" and "i < k" and "k \<le> l"
  shows "chunk_ok (make_chunks q n k ! i)" and "chunk_span (make_chunks q n k ! i) \<subseteq> span (q, l * 64 * n)"
    and "cells (make_chunks q n k ! i) = {}" and "has_free_chunk (make_chunks q n k ! i)"
proof -
  show "chunk_ok (make_chunks q n k ! i)"
    using assms by (simp add: make_chunks_nth chunk_create_def chunk_ok_def)
  have "Suc i * (64 * n) \<le> l * (64 * n)" using assms by (intro mult_le_mono1) simp
  then show "chunk_span (make_chunks q n k ! i) \<subseteq> span (q, l * 64 * n)"
    using assms by (simp add: make_chunks_span span_def mult.assoc)
  show "cells (make_chunks q n k ! i) = {}"
    using assms by (auto simp: make_chunks_nth chunk_create_def cells_iff)
  show "has_free_chunk (make_chunks q n k ! i)"
    using assms by (simp add: make_chunks_nth chunk_create_def has_free_chunk_def list_all_length exI [of _ 0])
qed

lemma make_chunks_disjoint:
  assumes "p \<in> chunk_span (make_chunks q n k ! i)" "p \<in> chunk_span (make_chunks q n k ! j)" "i < k" "j < k"
  shows "i = j"
proof (rule ccontr)
  have *: False if "a < b" "x < q + Suc a * (64 * n)" "q + b * (64 * n) \<le> x" for a b x :: nat
    using that mult_le_mono1 [of "Suc a" b "64 * n"] by linarith
  assume "i \<noteq> j"
  then show False
    using * [of i j p] * [of j i p] assms by (auto simp: make_chunks_span neq_iff)
qed

text \<open>Chunks of a segment that \<^verbatim>\<open>operator new\<close> has just handed out join the others.\<close>

lemma chunks_ok_extend:
  assumes ok: "chunks_ok m (A @ C)" and n: "0 < n" "0 < q" and kl: "k \<le> l"
    and fresh: "\<forall>s \<in> set m. span (q, l * 64 * n) \<inter> span s = {}"
  shows "chunks_ok ((q, l * 64 * n) # m) (A @ make_chunks q n k @ C)"
proof -
  let ?N = "make_chunks q n k" and ?m = "(q, l * 64 * n) # m"
  have old: "chunk_span c \<subseteq> memory_span m" if "c \<in> set A \<union> set C" for c
    using ok that by (auto simp: chunks_ok_def)
  have new: "chunk_ok c \<and> chunk_span c \<subseteq> span (q, l * 64 * n)" if "c \<in> set ?N" for c
    using make_chunks_ok(1,2) [OF n _ kl] that by (auto simp: in_set_conv_nth)
  have apart: "memory_span m \<inter> span (q, l * 64 * n) = {}"
    using fresh by (auto simp: memory_span_def)
  have dis: "chunk_span c \<inter> chunk_span d = {}" if "c \<in> set A \<union> set C" "d \<in> set ?N" for c d
    using old [OF that(1)] new [OF that(2)] apart by blast
  have "sorted_wrt (\<lambda>c d. chunk_span c \<inter> chunk_span d = {}) ?N"
    unfolding sorted_wrt_iff_nth_less
  proof (intro allI impI)
    fix i j assume "i < j" "j < length ?N"
    then show "chunk_span (?N ! i) \<inter> chunk_span (?N ! j) = {}"
      using make_chunks_disjoint [of _ q n k i j] by fastforce
  qed
  moreover have "chunk_ok c \<and> chunk_span c \<subseteq> memory_span ?m" if "c \<in> set ?N" for c
    using new [OF that] by (auto simp: memory_span_def)
  ultimately have "chunks_ok ?m ?N" by (simp add: chunks_ok_def)
  moreover have "chunks_ok ?m (A @ C)" using ok by (rule chunks_ok_weaken)
  moreover have "\<forall>c \<in> set A. \<forall>d \<in> set ?N. chunk_span c \<inter> chunk_span d = {}" using dis by simp
  moreover have "\<forall>c \<in> set ?N. \<forall>d \<in> set C. chunk_span c \<inter> chunk_span d = {}"
    using dis by (metis Int_commute UnI2)
  ultimately show ?thesis unfolding chunks_ok_append set_append ball_Un by simp
qed

section \<open>Growing\<close>

lemma bit_size_bounds: "0 < n \<Longrightarrow> 2 ^ (bit_size n - 1) \<le> n \<and> n < 2 ^ bit_size n \<and> 0 < bit_size n"
proof (induction n rule: bit_size.induct)
  case (1 n)
  show ?case
  proof (cases "n div 2 = 0")
    case True
    then have "n = 1" using "1.prems" by simp
    then show ?thesis by (simp add: bit_size.simps)
  next
    case False
    then obtain b where b: "bit_size (n div 2) = Suc b" "2 ^ b \<le> n div 2" "n div 2 < 2 ^ Suc b"
      using 1 gr0_conv_Suc by auto
    then have "bit_size n = Suc (Suc b)" using "1.prems" bit_size.simps [of n] by simp
    moreover have "2 ^ Suc b \<le> n" "n < 2 ^ Suc (Suc b)" using b(2,3) by auto
    ultimately show ?thesis by simp
  qed
qed

text \<open>Rounding loses at most one part in \<open>2 ^ 24\<close>.\<close>

lemma to_float_lower: "(2 ^ 24 - 1) * x \<le> 2 ^ 24 * to_float x"
proof (cases "bit_size x \<le> 24")
  case True
  then show ?thesis by (simp add: to_float_def)
next
  case False
  define k where "k = bit_size x - 24"
  then have k: "0 < k" "bit_size x = k + 24" using False by auto
  then have "0 < x" by (cases "x = 0") (auto simp: bit_size.simps)
  then have x: "2 ^ (k + 23) \<le> x" using bit_size_bounds [of x] k by (simp add: add.commute)
  let ?q = "x div 2 ^ k" and ?r = "x mod 2 ^ k"
  have split: "x = ?q * 2 ^ k + ?r" by (simp only: div_mult_mod_eq)
  have "x \<le> to_float x + 2 ^ (k - 1)"
  proof -
    have half: "2 ^ k = 2 * (2 :: nat) ^ (k - 1)" using k(1) by (simp flip: power_Suc)
    have r: "?r < 2 ^ k" by simp
    show ?thesis
    proof (cases "2 * ?r > 2 ^ k \<or> (2 * ?r = 2 ^ k \<and> odd ?q)")
      case True
      then have "to_float x = ?q * 2 ^ k + 2 ^ k"
        using k(1) by (simp add: to_float_def Let_def flip: k_def)
      then show ?thesis using split r by linarith
    next
      case no: False
      then have "to_float x = ?q * 2 ^ k"
        using k(1) by (simp add: to_float_def Let_def flip: k_def)
      moreover have "?r \<le> 2 ^ (k - 1)" using no half by linarith
      ultimately show ?thesis using split by linarith
    qed
  qed
  moreover have "2 ^ 24 * 2 ^ (k - 1) \<le> x"
  proof -
    have "24 + (k - 1) = k + 23" using k(1) by simp
    then show ?thesis using x by (metis power_add)
  qed
  ultimately show ?thesis by (simp add: algebra_simps)
qed

lemma grow_increases: "0 < n \<Longrightarrow> n < grow n"
proof -
  assume "0 < n"
  let ?f = "to_float n" and ?p = "to_float (to_float n * 13572768)"
  have "(2 ^ 24 - 1) * n \<le> 2 ^ 24 * ?f" "(2 ^ 24 - 1) * (?f * 13572768) \<le> 2 ^ 24 * ?p"
    by (rule to_float_lower)+
  then have "(n + 1) * 2 ^ 23 \<le> ?p + 2 ^ 22" using \<open>0 < n\<close> by simp
  then show ?thesis by (simp add: grow_def less_eq_div_iff_mult_less_eq flip: Suc_le_eq)
qed

section \<open>Allocation in a block and in the slab\<close>

text \<open>
  Allocation in a block between other chunks \<open>A\<close> and \<open>C\<close>: it fails only when \<^verbatim>\<open>operator new\<close>
  does; otherwise it adds one object, keeps the others, and keeps the chunks apart.
\<close>

lemma block_allocate_spec:
  assumes new: "new_ok new" and b: "block_sized n b" and ok: "chunks_ok m (A @ b_chunks b @ C)"
  shows "block_allocate new m b = Err MemoryError \<or>
     (\<exists>m' b' p. block_allocate new m b = Ok (m', b', p) \<and> block_sized n b' \<and>
        chunks_ok m' (A @ b_chunks b' @ C) \<and> (\<exists>ss. m' = ss @ m) \<and>
        p \<notin> fst ` (\<Union>c \<in> set (A @ b_chunks b @ C). chunk_objects c) \<and>
        (\<Union>c \<in> set (A @ b_chunks b' @ C). chunk_objects c) =
          insert (p, n) (\<Union>c \<in> set (A @ b_chunks b @ C). chunk_objects c))"
proof -
  let ?cs = "b_chunks b" and ?a = "length A"
  have take: "\<exists>m' b' p. Ok (m0, \<lparr>b_memory = ms, b_chunks = cs[k := c']\<rparr>, q) = Ok (m', b', p) \<and>
        block_sized n b' \<and> chunks_ok m' (A @ b_chunks b' @ C) \<and> (\<exists>ss. m' = ss @ m) \<and>
        p \<notin> fst ` (\<Union>c \<in> set (A @ cs @ C). chunk_objects c) \<and>
        (\<Union>c \<in> set (A @ b_chunks b' @ C). chunk_objects c) =
          insert (p, n) (\<Union>c \<in> set (A @ cs @ C). chunk_objects c)"
    if k: "k < length cs" "occupies (cs ! k) c' q" and ok': "chunks_ok m0 (A @ cs @ C)"
      and sz: "\<forall>c \<in> set cs. object_size c = n" and ss: "\<exists>ss. m0 = ss @ m" for m0 ms cs k c' q
  proof -
    have upd: "A @ cs[k := c'] @ C = (A @ cs @ C)[?a + k := c']"
      using k(1) by (simp add: list_update_append)
    have nth: "(A @ cs @ C) ! (?a + k) = cs ! k" "?a + k < length (A @ cs @ C)"
      using k(1) by (simp_all add: nth_append)
    have size: "object_size c' = n" "object_size (cs ! k) = n"
      using k sz by (auto simp: occupies_def)
    have "block_sized n \<lparr>b_memory = ms, b_chunks = cs[k := c']\<rparr>"
      using k(1) sz size
      by (auto simp: block_sized_def all_set_conv_all_nth nth_list_update simp del: set_simps)
    moreover have occ: "occupies ((A @ cs @ C) ! (?a + k)) c' q" using k(2) nth(1) by simp
    have "chunks_ok m0 (A @ cs[k := c'] @ C)"
      unfolding upd by (rule chunks_ok_update [OF ok' nth(2) occ])
    moreover note chunks_ok_fresh [OF ok' nth(2) occ, unfolded nth(1) size(2), folded upd]
    ultimately show ?thesis using ss by auto
  qed
  have ne: "?cs \<noteq> []" "object_size (last ?cs) = n" and sz: "\<forall>c \<in> set ?cs. object_size c = n"
    using b by (auto simp: block_sized_def)
  have cok: "\<forall>c \<in> set ?cs. chunk_ok c" using ok by (auto simp: chunks_ok_def)
  then have n: "0 < n" using ne last_in_set [OF ne(1)] by (auto simp: chunk_ok_def)
  from allocate_in_chunks_spec [OF cok] show ?thesis
  proof (elim disjE exE conjE)
    fix k c' p assume k: "k < length ?cs" "allocate_in_chunks ?cs = Ok (?cs[k := c'], Some p)"
        "occupies (?cs ! k) c' p"
    then have "block_allocate new m b = Ok (m, \<lparr>b_memory = b_memory b, b_chunks = ?cs[k := c']\<rparr>, p)"
      by (simp add: block_allocate_def)
    with take [OF k(1,3) ok sz, of "b_memory b"] show ?thesis by simp
  next
    let ?o = "length ?cs"
    let ?bytes = "grow ?o * 64 * n"
    assume full: "allocate_in_chunks ?cs = Ok (?cs, None)"
    show ?thesis
    proof (cases "new m ?bytes")
      case None
      then show ?thesis using full ne by (simp add: block_allocate_def)
    next
      case (Some q)
      have q: "0 < q" "\<forall>s \<in> set m. span (q, ?bytes) \<inter> span s = {}"
        using new Some by (auto simp: new_ok_def)
      have g: "?o < grow ?o" using ne by (intro grow_increases) simp
      let ?N = "make_chunks q n (grow ?o - ?o)"
      have N: "chunk_ok (?N ! 0)" "cells (?N ! 0) = {}" "has_free_chunk (?N ! 0)"
        using make_chunks_ok [of n q 0 "grow ?o - ?o" "grow ?o"] n q g by simp_all
      have N0: "(?cs @ ?N) ! ?o = ?N ! 0" by (simp add: nth_append)
      obtain c' p where c': "chunk_allocate (?N ! 0) = Ok (c', Some p)" "occupies (?N ! 0) c' p"
        using chunk_allocate_free [OF N(1,3)] by blast
      have run: "block_allocate new m b = Ok ((q, ?bytes) # m,
          \<lparr>b_memory = b_memory b @ [(q, ?bytes)], b_chunks = (?cs @ ?N)[?o := c']\<rparr>, p)"
        using full ne Some g c'(1) N0 by (simp add: block_allocate_def Let_def)
      have ok': "chunks_ok ((q, ?bytes) # m) (A @ (?cs @ ?N) @ C)"
        using chunks_ok_extend [of m "A @ ?cs" C n q "grow ?o - ?o" "grow ?o"] ok n q by simp
      have sz': "\<forall>c \<in> set (?cs @ ?N). object_size c = n"
        using sz by (auto simp: make_chunks_def chunk_create_def)
      have none: "chunk_objects c = {}" if "c \<in> set ?N" for c
        using make_chunks_ok(3) [of n q _ "grow ?o - ?o" "grow ?o"] that n q
        by (auto simp: in_set_conv_nth chunk_objects_def)
      have same: "(\<Union>c \<in> set (A @ (?cs @ ?N) @ C). chunk_objects c) =
          (\<Union>c \<in> set (A @ ?cs @ C). chunk_objects c)"
        using none by auto
      have "?o < length (?cs @ ?N)" using g by simp
      from take [OF this _ ok' sz', of c' p "b_memory b @ [(q, ?bytes)]"] c'(2)
      show ?thesis unfolding run same N0 by simp
    qed
  qed
qed

lemma size_class_spec:
  "size_class n ks = Some i \<Longrightarrow> i < length ks \<and> n \<le> ks ! i"
  by (induction ks arbitrary: i) (auto split: if_splits option.splits)

lemma size_class_total: "ks \<noteq> [] \<Longrightarrow> n \<le> last ks \<Longrightarrow> \<exists>i. size_class n ks = Some i"
  by (induction ks) (auto split: if_splits)

lemma slab_chunks_update:
  assumes "i < length s"
  shows "slab_chunks (s[i := b]) =
     slab_chunks (take i s) @ b_chunks b @ slab_chunks (drop (Suc i) s)"
    and "slab_chunks s = slab_chunks (take i s) @ b_chunks (s ! i) @ slab_chunks (drop (Suc i) s)"
proof -
  show "slab_chunks (s[i := b]) = slab_chunks (take i s) @ b_chunks b @ slab_chunks (drop (Suc i) s)"
    using assms by (simp add: upd_conv_take_nth_drop slab_chunks_def)
  have "s = take i s @ s ! i # drop (Suc i) s" using assms by (rule id_take_nth_drop)
  then have "map b_chunks s = map b_chunks (take i s) @ b_chunks (s ! i) # map b_chunks (drop (Suc i) s)"
    by (metis list.simps(9) map_append)
  then show "slab_chunks s = slab_chunks (take i s) @ b_chunks (s ! i) @ slab_chunks (drop (Suc i) s)"
    by (simp add: slab_chunks_def)
qed

text \<open>\<open>G\<close> are further regions that the slab stays clear of (the static memory of the heap).\<close>

definition slab_in :: "memory \<Rightarrow> chunk list \<Rightarrow> slab \<Rightarrow> bool" where
  "slab_in m G s \<longleftrightarrow> chunks_ok m (G @ slab_chunks s) \<and> list_all2 block_sized slab_sizes s"

lemma slab_in_ok: "slab_in m G s \<Longrightarrow> slab_ok m s"
  by (simp add: slab_in_def slab_ok_def chunks_ok_append)

lemma slab_in_Nil: "slab_in m [] s = slab_ok m s"
  by (simp add: slab_in_def slab_ok_def)

definition slab_takes :: "memory \<Rightarrow> chunk list \<Rightarrow> slab \<Rightarrow> nat \<Rightarrow> memory \<Rightarrow> slab \<Rightarrow> nat \<Rightarrow> bool" where
  "slab_takes m G s bytes m' s' p \<longleftrightarrow>
     slab_in m' G s' \<and> (\<exists>ss. m' = ss @ m) \<and> p \<notin> slab_cells s \<and>
     (\<exists>n. bytes + gc_header_size \<le> n \<and> slab_objects s' = insert (p, n) (slab_objects s) \<and>
        (\<forall>x \<in> slab_objects s. span (p, n) \<inter> span x = {}))"

lemma slab_allocate_spec:
  assumes new: "new_ok new" and G: "\<forall>c \<in> set G. chunk_objects c = {}" and ok: "slab_in m G s" and size: "bytes + gc_header_size \<le> 2048"
  shows "slab_allocate new m s bytes = Err MemoryError \<or>
     (\<exists>m' s' p. slab_allocate new m s bytes = Ok (m', s', p) \<and> slab_takes m G s bytes m' s' p)"
proof -
  obtain i where i: "size_class (bytes + gc_header_size) slab_sizes = Some i"
    using size_class_total [of slab_sizes "bytes + gc_header_size"] size
    by (auto simp: slab_sizes_def)
  let ?n = "slab_sizes ! i" and ?A = "G @ slab_chunks (take i s)" and ?C = "slab_chunks (drop (Suc i) s)"
  have il: "i < length slab_sizes" "bytes + gc_header_size \<le> ?n" using size_class_spec [OF i] by auto
  have all: "list_all2 block_sized slab_sizes s" using ok by (simp add: slab_in_def)
  then have il2: "i < length s" using il by (simp add: list_all2_lengthD)
  have bi: "block_sized ?n (s ! i)" using all il(1) by (rule list_all2_nthD)
  have "chunks_ok m (?A @ b_chunks (s ! i) @ ?C)"
    using ok slab_chunks_update(2) [OF il2] by (simp add: slab_in_def)
  from block_allocate_spec [OF new bi this] show ?thesis
  proof (elim disjE exE conjE)
    assume "block_allocate new m (s ! i) = Err MemoryError"
    then show ?thesis using i by (simp add: slab_allocate_def)
  next
    fix m' b' p ss
    assume run: "block_allocate new m (s ! i) = Ok (m', b', p)" and b': "block_sized ?n b'"
      and ok': "chunks_ok m' (?A @ b_chunks b' @ ?C)" and ss: "m' = ss @ m"
      and fresh: "p \<notin> fst ` (\<Union>c \<in> set (?A @ b_chunks (s ! i) @ ?C). chunk_objects c)"
      and ins: "(\<Union>c \<in> set (?A @ b_chunks b' @ ?C). chunk_objects c) =
          insert (p, ?n) (\<Union>c \<in> set (?A @ b_chunks (s ! i) @ ?C). chunk_objects c)"
    let ?s = "s[i := b']"
    let ?B = "slab_chunks (take i s)" and ?g = "\<Union>c \<in> set G. chunk_objects c"
    have up: "slab_chunks ?s = ?B @ b_chunks b' @ ?C" "slab_chunks s = ?B @ b_chunks (s ! i) @ ?C"
      using slab_chunks_update [OF il2] by auto
    have none: "?g = {}" using G by simp
    have objs: "slab_objects ?s = insert (p, ?n) (slab_objects s)"
      using ins none unfolding slab_objects_def up by simp
    have p: "p \<notin> slab_cells s" using fresh unfolding slab_cells_objects slab_objects_def up by auto
    have s: "slab_in m' G ?s"
      using ok' all b' il(1) unfolding slab_in_def up
      by (simp add: list_all2_conv_all_nth nth_list_update)
    have "span (p, ?n) \<inter> span x = {}" if "x \<in> slab_objects s" for x
    proof -
      have "(p, ?n) \<in> slab_objects ?s" "x \<in> slab_objects ?s" "x \<noteq> (p, ?n)"
        using that p objs by (auto simp: slab_cells_objects image_iff)
      then show ?thesis
        using objects_apart slab_in_ok [OF s] unfolding slab_ok_def slab_objects_def by blast
    qed
    then have "slab_takes m G s bytes m' ?s p"
      using s ss p objs il(2) unfolding slab_takes_def by blast
    then show ?thesis using run i by (simp add: slab_allocate_def)
  qed
qed

section \<open>Deallocation in a chunk\<close>

lemma chunk_deallocate_spec:
  assumes ok: "chunk_ok c" and p: "p \<in> cells c"
  shows "\<exists>c'. chunk_deallocate c p = Ok c' \<and> chunk_ok c' \<and> chunk_memory c' = chunk_memory c \<and>
     object_size c' = object_size c \<and> cells c' = cells c - {p} \<and>
     occupied c' = (occupied c)[(p - chunk_memory c) div object_size c := False]"
proof -
  obtain i where i: "i < 64" "occupied c ! i" "p = chunk_memory c + i * object_size c"
    using p ok by (auto simp: cells_iff chunk_ok_def)
  let ?c = "c\<lparr>occupied := (occupied c)[i := False]\<rparr>"
  have n: "0 < object_size c" "length (occupied c) = 64" using ok by (auto simp: chunk_ok_def)
  have "i * object_size c < 64 * object_size c" using i(1) n(1) by simp
  then have "i * object_size c < (object_size c + 1) * 64"
    by (rule less_le_trans) (simp add: algebra_simps)
  then have "chunk_deallocate c p = Ok ?c"
    using i n by (simp add: chunk_deallocate_def mark_chunk_as_free_def assert_that_def Let_def)
  moreover have "cells ?c = cells c - {p}"
    using i n by (auto simp: cells_iff nth_list_update split: if_splits)
  moreover have "chunk_ok ?c" using ok by (simp add: chunk_ok_def)
  moreover have "(p - chunk_memory c) div object_size c = i" using i n by simp
  ultimately show ?thesis by simp
qed

section \<open>The slab at the start\<close>

lemma slab_create_spec:
  assumes new: "new_ok new" and "\<forall>n \<in> set ns. 0 < n" and "chunks_ok m A"
  shows "slab_create new m ns = Err MemoryError \<or>
     (\<exists>m' s ss. slab_create new m ns = Ok (m', s) \<and> m' = ss @ m \<and> chunks_ok m' (A @ slab_chunks s) \<and>
        list_all2 block_sized ns s \<and> (\<forall>c \<in> set (slab_chunks s). cells c = {}))"
  using assms(2,3)
proof (induction ns arbitrary: m A)
  case Nil
  then show ?case by (simp add: slab_chunks_def)
next
  case (Cons n ns)
  show ?case
  proof (cases "new m (15 * 64 * n)")
    case None
    then show ?thesis by (simp add: block_create_def)
  next
    case (Some q)
    let ?m = "(q, 15 * 64 * n) # m" and ?N = "make_chunks q n 15"
    have q: "0 < q" "\<forall>s \<in> set m. span (q, 15 * 64 * n) \<inter> span s = {}" "0 < n"
      using new Some Cons.prems by (auto simp: new_ok_def)
    have blk: "block_create new m n 1000 = Ok (?m, \<lparr>b_memory = [(q, 15 * 64 * n)], b_chunks = ?N\<rparr>)"
      (is "_ = Ok (_, ?b)") using Some by (simp add: block_create_def Let_def)
    have ok: "chunks_ok ?m (A @ ?N)"
      using chunks_ok_extend [of m A "[]" n q 15 15] Cons.prems(2) q by simp
    have sized: "block_sized n ?b"
      by (auto simp: block_sized_def make_chunks_def chunk_create_def)
    have none: "\<forall>c \<in> set ?N. cells c = {}"
      using make_chunks_ok(3) [of n q _ 15 15] q by (auto simp: in_set_conv_nth)
    from Cons.IH [of ?m "A @ ?N"] Cons.prems ok
    consider "slab_create new ?m ns = Err MemoryError"
      | m' s ss where "slab_create new ?m ns = Ok (m', s)" "m' = ss @ ?m"
          "chunks_ok m' ((A @ ?N) @ slab_chunks s)" "list_all2 block_sized ns s"
          "\<forall>c \<in> set (slab_chunks s). cells c = {}"
      by auto
    then show ?thesis
    proof cases
      case 1
      then show ?thesis using blk by simp
    next
      case (2 m' s ss)
      let ?s = "?b # s"
      have "slab_chunks ?s = ?N @ slab_chunks s" by (simp add: slab_chunks_def)
      then have "chunks_ok m' (A @ slab_chunks ?s)" "\<forall>c \<in> set (slab_chunks ?s). cells c = {}"
        using 2(3,5) none by auto
      moreover have "slab_create new m (n # ns) = Ok (m', ?s)" using blk 2(1) by simp
      moreover have "m' = (ss @ [(q, 15 * 64 * n)]) @ m" using 2(2) by simp
      moreover have "list_all2 block_sized (n # ns) ?s" using 2(4) sized by simp
      ultimately show ?thesis by blast
    qed
  qed
qed

lemma slab_create_ok:
  assumes "new_ok new" and "slab_create new m slab_sizes = Ok (m', s)"
  shows "slab_ok m' s" and "slab_objects s = {}"
proof -
  have "chunks_ok m []" by (simp add: chunks_ok_def)
  from slab_create_spec [OF assms(1) _ this, of slab_sizes] assms(2)
  have "chunks_ok m' (slab_chunks s)" "list_all2 block_sized slab_sizes s"
      "\<forall>c \<in> set (slab_chunks s). cells c = {}"
    by (auto simp: slab_sizes_def)
  then show "slab_ok m' s" "slab_objects s = {}"
    by (auto simp: slab_ok_def slab_objects_def chunk_objects_def)
qed

section \<open>Properties\<close>


text \<open>An \<^verbatim>\<open>operator new\<close> that hands out addresses in increasing order.\<close>

definition memory_top :: "memory \<Rightarrow> nat" where
  "memory_top m = foldr (\<lambda>s t. max (fst s + snd s) t) m 4096"

definition next_new :: operator_new where
  "next_new m n =
     (let p = 16 * (memory_top m div 16 + 1)
      in if n < 2 ^ 62 \<and> p + n < 2 ^ 64 then Some p else None)"

lemma next_new_ok: "new_ok next_new"
proof -
  have top: "fst s + snd s \<le> memory_top m" if "s \<in> set m" for s m
    using that by (induction m) (auto simp: memory_top_def)
  have "memory_top m < 16 * (memory_top m div 16 + 1)" for m
    by (simp add: mult.commute dividend_less_div_times)
  then have "fst s + snd s < 16 * (memory_top m div 16 + 1)" if "s \<in> set m" for s m
    using top [OF that] by (meson le_less_trans)
  then show ?thesis
    by (force simp: new_ok_def next_new_def Let_def span_def split: if_splits)
qed

lemma allocate_in_fresh:
  assumes "0 < n" "0 < q" "0 < k"
  shows "\<exists>cs p. allocate_in_chunks (make_chunks q n k) = Ok (cs, Some p)"
proof -
  let ?c = "make_chunks q n k ! 0"
  have "length (make_chunks q n k) > 0" using assms(3) by simp
  then obtain cs where "make_chunks q n k = ?c # cs" by (metis hd_conv_nth length_greater_0_conv list.collapse)
  moreover obtain c' p where "chunk_allocate ?c = Ok (c', Some p)"
    using chunk_allocate_free [of ?c] make_chunks_ok [of n q 0 k k] assms by auto
  ultimately have "allocate_in_chunks (make_chunks q n k) = Ok (c' # cs, Some p)"
    using allocate_in_chunks.simps(2) [of ?c cs] by simp
  then show ?thesis by blast
qed

lemma slab_demo:
  "\<exists>m s. slab_create next_new [] slab_sizes = Ok (m, s) \<and> next_new m (1024 * 1024) \<noteq> None \<and>
     (\<forall>m1. \<exists>m' s' p. slab_allocate next_new m1 s 40 = Ok (m', s', p))"
proof -
  obtain m s where ms: "slab_create next_new [] slab_sizes = Ok (m, s)" and
      s: "b_chunks (s ! 2) = make_chunks 50224 64 15" "next_new m (1024 * 1024) \<noteq> None"
    by (simp add: block_create_def next_new_def memory_top_def slab_sizes_def Let_def)
  obtain cs p where "allocate_in_chunks (make_chunks 50224 64 15) = Ok (cs, Some p)"
    using allocate_in_fresh [of 64 50224 15] by auto
  moreover have ne: "b_chunks (s ! 2) \<noteq> []"
    using s by (metis length_make_chunks list.size(3) numeral_eq_Suc old.nat.distinct(2))
  ultimately have "\<exists>m' s' p. slab_allocate next_new m1 s 40 = Ok (m', s', p)" for m1
    using s ne by (simp add: slab_allocate_def slab_sizes_def gc_header_size_def block_allocate_def
        numeral_2_eq_2)
  with ms s(2) show ?thesis by blast
qed


end
