(* ===== verification/Garbage.thy ===== *)
theory Garbage
  imports Slabs
begin

text \<open>
  The mark-and-sweep collector (\<^verbatim>\<open>src/src/memory/GarbageCollector.hpp\<close>,
  \<^verbatim>\<open>GarbageCollector.cpp\<close>) and the heap it works on (\<^verbatim>\<open>Heap.hpp\<close>). A cell of the slab holds a
  header of 8 bytes and then the object; \<open>graph\<close> maps an object to the objects its
  \<^verbatim>\<open>visit_graph\<close> visits. The roots are the words of the machine stack (any word that happens to
  be the address of an occupied cell counts), the values on the stack of the virtual machine, and
  what \<^verbatim>\<open>Interpreter::visit_graph\<close> visits.
\<close>

section \<open>Headers\<close>

text \<open>\<^verbatim>\<open>std::bitset<2>\<close>: bit 0 and bit 1. A black header is also \<open>grey\<close>.\<close>

type_synonym header = "bool \<times> bool"

datatype color = WHITE | GREY | BLACK

definition black :: "header \<Rightarrow> bool" where "black s = (fst s \<and> snd s)"
definition grey :: "header \<Rightarrow> bool" where "grey s = snd s"
definition white :: "header \<Rightarrow> bool" where "white s = (\<not> fst s \<and> \<not> snd s)"

primrec mark :: "color \<Rightarrow> header \<Rightarrow> header" where
  "mark WHITE s = (False, False)"
| "mark GREY s = (False, True)"
| "mark BLACK s = (True, True)"

definition new_header :: header where "new_header = (False, False)"

section \<open>The heap\<close>

record heap =
  h_memory :: memory
  h_slab :: slab
  headers :: "nat \<Rightarrow> header"
  graph :: "nat \<Rightarrow> nat list"
  static_memory :: nat
  static_memory_size :: nat
  static_offset :: nat
  weakrefs :: "nat \<Rightarrow> nat list option"
  destroyed :: "nat list"
  m_allocate_in_static :: bool
  m_pause :: bool
  m_frequency :: nat
  m_iterations_since_last_sweep :: nat

datatype vm_value = Object nat | Other

record roots =
  stack_words :: "64 word list"
  stack_objects :: "vm_value list list"
  interpreter_cells :: "nat list"

definition is_static_memory :: "heap \<Rightarrow> nat \<Rightarrow> bool" where
  "is_static_memory h cell_start \<longleftrightarrow>
     cell_start \<ge> static_memory h \<and> cell_start < static_memory h + static_memory_size h"

text \<open>The header of an object lies just before it. A header that is not at a cell of the slab is
  not memory the collector may touch.\<close>

definition header_of :: "nat \<Rightarrow> nat" where "header_of cell = cell - gc_header_size"

definition slab_addresses :: "slab \<Rightarrow> nat list" where
  "slab_addresses s = concat (map all_cells (slab_chunks s))"

definition has_header :: "heap \<Rightarrow> nat \<Rightarrow> bool" where
  "has_header h a \<longleftrightarrow> a \<in> set (slab_addresses (h_slab h))"

fun for_each :: "('a \<Rightarrow> 's \<Rightarrow> 's py_result) \<Rightarrow> 'a list \<Rightarrow> 's \<Rightarrow> 's py_result" where
  "for_each f [] s = Ok s"
| "for_each f (x # xs) s = and_then (f x s) (for_each f xs)"

section \<open>Roots\<close>

text \<open>The colours so far and the stack of cells to visit.\<close>

type_synonym marking = "(nat \<Rightarrow> header) \<times> nat list"

fun add_root :: "heap \<Rightarrow> nat \<Rightarrow> marking \<Rightarrow> marking py_result" where
  "add_root h a (hs, roots) =
     (if \<not> has_header h a then Abort Undefined
      else assert_that (\<not> black (hs a))
        (if grey (hs a) then Ok (hs, roots)
         else assert_that (white (hs a))
           (Ok (hs(a := mark GREY (hs a)), (a + gc_header_size) # roots))))"

definition stack_root :: "heap \<Rightarrow> 64 word \<Rightarrow> marking \<Rightarrow> marking py_result" where
  "stack_root h w st =
     (let address = unat (w - of_nat gc_header_size)
      in if slab_has_address (h_slab h) address then add_root h address st else Ok st)"

definition cell_root :: "heap \<Rightarrow> nat \<Rightarrow> marking \<Rightarrow> marking py_result" where
  "cell_root h obj st =
     (if \<not> is_static_memory h obj then add_root h (header_of obj) st else Ok st)"

definition vm_root :: "heap \<Rightarrow> vm_value \<Rightarrow> marking \<Rightarrow> marking py_result" where
  "vm_root h v st =
     (case v of
        Object obj \<Rightarrow> if obj \<noteq> 0 then cell_root h obj st else Ok st
      | Other \<Rightarrow> Ok st)"

definition collect_roots :: "heap \<Rightarrow> roots \<Rightarrow> (nat \<Rightarrow> header) \<Rightarrow> marking py_result" where
  "collect_roots h rt hs =
     and_then (for_each (stack_root h) (stack_words rt) (hs, [])) (\<lambda>st.
     and_then (for_each (for_each (vm_root h)) (stack_objects rt) st) (\<lambda>st.
       for_each (cell_root h) (interpreter_cells rt) st))"

section \<open>Marking\<close>

definition mark_all_cell_unreachable :: "heap \<Rightarrow> heap" where
  "mark_all_cell_unreachable h =
     h\<lparr>headers := fold (\<lambda>a hs. hs(a := mark WHITE (hs a))) (slab_addresses (h_slab h)) (headers h)\<rparr>"

fun visit_neighbour :: "heap \<Rightarrow> nat \<Rightarrow> marking \<Rightarrow> marking py_result" where
  "visit_neighbour h neighbour (hs, to_visit) =
     (if is_static_memory h neighbour then Ok (hs, to_visit)
      else if \<not> has_header h (header_of neighbour) then Abort Undefined
      else if black (hs (header_of neighbour)) then Ok (hs, to_visit)
      else if grey (hs (header_of neighbour)) then Ok (hs, to_visit)
      else Ok (hs(header_of neighbour := mark GREY (hs (header_of neighbour))), neighbour # to_visit))"

definition mark_visit :: "heap \<Rightarrow> nat \<Rightarrow> marking \<Rightarrow> marking py_result" where
  "mark_visit h cell st =
     (if \<not> is_static_memory h cell then for_each (visit_neighbour h) (graph h cell) st else Ok st)"

text \<open>The loop ends because a visit greys headers of the slab only, and only those that are not yet
  grey or black: twice the number of these plus the number of waiting cells decreases.\<close>

definition weight :: "heap \<Rightarrow> marking \<Rightarrow> nat" where
  "weight h st =
     2 * card {a \<in> set (slab_addresses (h_slab h)). \<not> grey (fst st a)} + length (snd st)"

lemma weight_grey:
  assumes "has_header h a" "\<not> grey (hs a)"
  shows "weight h (hs(a := mark GREY (hs a)), n # st) \<le> weight h (hs, st)"
proof -
  let ?W = "\<lambda>hs. {a \<in> set (slab_addresses (h_slab h)). \<not> grey (hs a)}"
  have "?W (hs(a := mark GREY (hs a))) = ?W hs - {a}" by (auto simp: grey_def)
  moreover have "card (?W hs - {a}) < card (?W hs)"
    using assms by (intro card_Diff1_less) (auto simp: has_header_def)
  ultimately show ?thesis by (simp add: weight_def)
qed

lemma weight_visit_neighbour: "visit_neighbour h n st = Ok st' \<Longrightarrow> weight h st' \<le> weight h st"
proof (cases st)
  case (Pair hs ss)
  assume "visit_neighbour h n st = Ok st'"
  then show ?thesis
    using weight_grey [of h "header_of n" hs n ss] Pair by (auto split: if_splits)
qed

lemma for_each_mono:
  fixes w :: "'s \<Rightarrow> nat"
  assumes "\<And>x s s'. f x s = Ok s' \<Longrightarrow> w s' \<le> w s"
  shows "for_each f xs s = Ok s' \<Longrightarrow> w s' \<le> w s"
proof (induction xs arbitrary: s)
  case (Cons x xs)
  then obtain s1 where "f x s = Ok s1" "for_each f xs s1 = Ok s'" by (auto simp: and_then_eq_Ok)
  then show ?case using Cons.IH assms by (meson order_trans)
qed simp

lemma weight_mark_visit: "mark_visit h c st = Ok st' \<Longrightarrow> weight h st' \<le> weight h st"
  using for_each_mono [of "visit_neighbour h" "weight h", OF weight_visit_neighbour]
  by (auto simp: mark_visit_def split: if_splits)

lemma weight_black: "grey (hs a) \<Longrightarrow> weight h (hs(a := mark BLACK (hs a)), st) = weight h (hs, st)"
proof -
  assume "grey (hs a)"
  then have "grey ((hs(a := mark BLACK (hs a))) b) = grey (hs b)" for b by (simp add: grey_def)
  then show ?thesis by (simp add: weight_def)
qed

function mark_all_live_objects :: "heap \<Rightarrow> marking \<Rightarrow> (nat \<Rightarrow> header) py_result" where
  "mark_all_live_objects h (hs, []) = Ok hs"
| "mark_all_live_objects h (hs, root # rest) =
     (if is_static_memory h root then mark_all_live_objects h (hs, rest)
      else if \<not> has_header h (header_of root) then Abort Undefined
      else and_then
        (assert_that (grey (hs (header_of root)))
          (mark_visit h root (hs(header_of root := mark BLACK (hs (header_of root))), rest)))
        (mark_all_live_objects h))"
  by pat_completeness auto
termination
proof (relation "measure (\<lambda>(h, st). weight h st)")
  show "wf (measure (\<lambda>(h, st). weight h st))" by simp
  show "((h, hs, rest), (h, hs, root # rest)) \<in> measure (\<lambda>(h, st). weight h st)" for h hs root rest
    by (simp add: weight_def)
  fix h :: heap and hs root rest st
  assume "assert_that (grey (hs (header_of root)))
      (mark_visit h root (hs(header_of root := mark BLACK (hs (header_of root))), rest)) = Ok st"
  then have g: "grey (hs (header_of root))"
      and "weight h st \<le> weight h (hs(header_of root := mark BLACK (hs (header_of root))), rest)"
    by (auto simp: assert_that_eq_Ok simp del: mark.simps intro: weight_mark_visit)
  then have "weight h st \<le> weight h (hs, rest)" using weight_black [of hs "header_of root", OF g] by simp
  also have "\<dots> < weight h (hs, root # rest)" by (simp add: weight_def)
  finally show "((h, st), (h, hs, root # rest)) \<in> measure (\<lambda>(h, st). weight h st)" by simp
qed

section \<open>Sweeping\<close>

definition remove_weakref :: "heap \<Rightarrow> nat \<Rightarrow> heap" where
  "remove_weakref h obj = h\<lparr>weakrefs := (weakrefs h)(obj := None)\<rparr>"

text \<open>The body of \<^verbatim>\<open>for_each_cell_alive\<close> at index \<open>i\<close>, and the loops over chunks and blocks.\<close>

fun sweep_cell :: "nat \<Rightarrow> heap \<times> chunk \<Rightarrow> (heap \<times> chunk) py_result" where
  "sweep_cell i (h, c) =
     (let memory = chunk_memory c + i * object_size c in
      if occupied c ! i then
        if white (headers h memory) then
          let cell = memory + gc_header_size; h1 = remove_weakref h cell;
              h2 = h1\<lparr>destroyed := destroyed h1 @ [cell]\<rparr>
          in and_then (chunk_deallocate c memory) (\<lambda>c'.
               Ok (h2\<lparr>headers := (headers h2)(memory := new_header)\<rparr>, c'))
        else Ok (h, c)
      else Ok (h, c))"

definition sweep_chunk :: "heap \<Rightarrow> chunk \<Rightarrow> (heap \<times> chunk) py_result" where
  "sweep_chunk h c = for_each sweep_cell [0 ..< length (occupied c)] (h, c)"

fun sweep_chunks :: "heap \<Rightarrow> chunk list \<Rightarrow> (heap \<times> chunk list) py_result" where
  "sweep_chunks h [] = Ok (h, [])"
| "sweep_chunks h (c # cs) =
     and_then (sweep_chunk h c) (\<lambda>(h1, c').
     and_then (sweep_chunks h1 cs) (\<lambda>(h2, cs'). Ok (h2, c' # cs')))"

fun sweep_blocks :: "heap \<Rightarrow> slab_block list \<Rightarrow> (heap \<times> slab_block list) py_result" where
  "sweep_blocks h [] = Ok (h, [])"
| "sweep_blocks h (b # bs) =
     and_then (sweep_chunks h (b_chunks b)) (\<lambda>(h1, cs).
     and_then (sweep_blocks h1 bs) (\<lambda>(h2, bs'). Ok (h2, b\<lparr>b_chunks := cs\<rparr> # bs')))"

definition sweep :: "heap \<Rightarrow> heap py_result" where
  "sweep h = and_then (sweep_blocks h (h_slab h)) (\<lambda>(h', s). Ok (h'\<lparr>h_slab := s\<rparr>))"

section \<open>The collector\<close>

definition gc_run :: "heap \<Rightarrow> roots \<Rightarrow> heap py_result" where
  "gc_run h rt =
     (if m_pause h then Ok h
      else
        let n = (m_iterations_since_last_sweep h + 1) mod 2 ^ 64;
            h0 = h\<lparr>m_iterations_since_last_sweep := n\<rparr>
        in if n < m_frequency h then Ok h0
           else
             let h1 = mark_all_cell_unreachable h0 in
             and_then (collect_roots h1 rt (headers h1)) (\<lambda>st.
             and_then (mark_all_live_objects h1 st) (\<lambda>hs.
             and_then (sweep (h1\<lparr>headers := hs\<rparr>)) (\<lambda>h2.
               Ok (h2\<lparr>m_iterations_since_last_sweep := 0\<rparr>)))))"

definition is_active :: "heap \<Rightarrow> bool" where "is_active h \<longleftrightarrow> \<not> m_pause h"

definition resume :: "heap \<Rightarrow> heap py_result" where
  "resume h = assert_that (\<not> is_active h) (Ok (h\<lparr>m_pause := False\<rparr>))"

definition pause :: "heap \<Rightarrow> heap py_result" where
  "pause h = assert_that (is_active h) (Ok (h\<lparr>m_pause := True\<rparr>))"

definition set_frequency :: "nat \<Rightarrow> heap \<Rightarrow> heap" where
  "set_frequency n h = h\<lparr>m_frequency := n\<rparr>"

section \<open>The operations of the heap\<close>

definition heap_create :: "operator_new \<Rightarrow> memory \<Rightarrow> heap py_result" where
  "heap_create new m =
     and_then (slab_create new m slab_sizes) (\<lambda>(m1, s).
       case new m1 (1024 * 1024) of
         None \<Rightarrow> Err MemoryError
       | Some p \<Rightarrow>
           Ok \<lparr>h_memory = (p, 1024 * 1024) # m1, h_slab = s, headers = \<lambda>_. new_header,
               graph = \<lambda>_. [], static_memory = p, static_memory_size = 1024 * 1024,
               static_offset = 8, weakrefs = \<lambda>_. None, destroyed = [],
               m_allocate_in_static = False, m_pause = False, m_frequency = 10000,
               m_iterations_since_last_sweep = 0\<rparr>)"

definition collect_garbage :: "heap \<Rightarrow> roots \<Rightarrow> heap py_result" where
  "collect_garbage h rt = gc_run h rt"

text \<open>\<open>edges\<close> are the objects that the constructor stores in the new object.\<close>

definition allocate_static :: "heap \<Rightarrow> nat \<Rightarrow> nat list \<Rightarrow> (heap \<times> nat) py_result" where
  "allocate_static h bytes edges =
     (if static_offset h + bytes \<ge> static_memory_size h then Abort Todo
      else
        let ptr = static_memory h + static_offset h in
        Ok (h\<lparr>graph := (graph h)(ptr := edges), static_offset := static_offset h + bytes\<rparr>, ptr))"

definition allocate_gc :: "heap \<Rightarrow> nat \<Rightarrow> heap \<times> nat" where
  "allocate_gc h ptr = (h\<lparr>headers := (headers h)(ptr := new_header)\<rparr>, ptr + gc_header_size)"

definition allocate_cell ::
  "operator_new \<Rightarrow> heap \<Rightarrow> roots \<Rightarrow> nat \<Rightarrow> nat list \<Rightarrow> (heap \<times> nat) py_result" where
  "allocate_cell new h rt bytes edges =
     and_then (collect_garbage h rt) (\<lambda>h1.
     and_then (slab_allocate new (h_memory h1) (h_slab h1) bytes) (\<lambda>(m, s, ptr).
       let (h2, obj) = allocate_gc (h1\<lparr>h_memory := m, h_slab := s\<rparr>) ptr
       in Ok (h2\<lparr>graph := (graph h2)(obj := edges)\<rparr>, obj)))"

definition heap_allocate ::
  "operator_new \<Rightarrow> heap \<Rightarrow> roots \<Rightarrow> nat \<Rightarrow> nat list \<Rightarrow> (heap \<times> nat) py_result" where
  "heap_allocate new h rt bytes edges =
     (if m_allocate_in_static h then allocate_static h bytes edges
      else allocate_cell new h rt bytes edges)"

definition allocate_with_extra_bytes ::
  "operator_new \<Rightarrow> heap \<Rightarrow> roots \<Rightarrow> nat \<Rightarrow> nat \<Rightarrow> nat list \<Rightarrow> (heap \<times> nat) py_result" where
  "allocate_with_extra_bytes new h rt bytes extra edges =
     (if extra = 0 then heap_allocate new h rt bytes edges
      else if m_allocate_in_static h then Abort Todo
      else allocate_cell new h rt (bytes + extra) edges)"

definition weakrefs_of :: "heap \<Rightarrow> nat \<Rightarrow> nat list" where
  "weakrefs_of h obj = (case weakrefs h obj of Some rs \<Rightarrow> rs | None \<Rightarrow> [])"

definition has_weakref_object :: "heap \<Rightarrow> nat \<Rightarrow> bool" where
  "has_weakref_object h obj \<longleftrightarrow> weakrefs h obj \<noteq> None"

definition weakref_count :: "heap \<Rightarrow> nat \<Rightarrow> nat" where
  "weakref_count h obj = length (weakrefs_of h obj)"

definition allocate_weakref ::
  "operator_new \<Rightarrow> heap \<Rightarrow> roots \<Rightarrow> nat \<Rightarrow> nat \<Rightarrow> nat list \<Rightarrow> (heap \<times> nat) py_result" where
  "allocate_weakref new h rt target bytes edges =
     and_then (heap_allocate new h rt bytes edges) (\<lambda>(h1, obj).
       Ok (if obj \<noteq> 0 then h1\<lparr>weakrefs := (weakrefs h1)(target := Some (weakrefs_of h1 target @ [obj]))\<rparr>
           else h1, obj))"

text \<open>The guards \<^verbatim>\<open>ScopedGCPause\<close> and \<^verbatim>\<open>ScopedStaticAllocation\<close>: their constructors and
  destructors.\<close>

definition enter_gc_pause :: "heap \<Rightarrow> (heap \<times> bool) py_result" where
  "enter_gc_pause h =
     (if is_active h then and_then (pause h) (\<lambda>h'. Ok (h', True)) else Ok (h, False))"

definition leave_gc_pause :: "bool \<Rightarrow> heap \<Rightarrow> heap py_result" where
  "leave_gc_pause needs_to_be_resumed h = (if needs_to_be_resumed then resume h else Ok h)"

definition enter_static_allocation :: "heap \<Rightarrow> heap" where
  "enter_static_allocation h = h\<lparr>m_allocate_in_static := True\<rparr>"

definition leave_static_allocation :: "heap \<Rightarrow> heap" where
  "leave_static_allocation h = h\<lparr>m_allocate_in_static := False\<rparr>"

text \<open>\<open>reset\<close> destroys what is left, chunk by chunk.\<close>

definition slab_alive_cells :: "slab \<Rightarrow> nat list" where
  "slab_alive_cells s = concat (map alive_cells (slab_chunks s))"

definition heap_reset :: "heap \<Rightarrow> roots \<Rightarrow> heap py_result" where
  "heap_reset h rt =
     and_then (collect_garbage h rt) (\<lambda>h1.
       Ok (h1\<lparr>destroyed := destroyed h1 @
                map (\<lambda>p. p + gc_header_size) (slab_alive_cells (h_slab h1)),
              h_slab := slab_reset (h_slab h1)\<rparr>))"

end
