(* ===== verification/Garbage_Props.thy ===== *)
theory Garbage_Props
  imports Garbage
begin

text \<open>
  The collector frees exactly the objects that cannot be reached from the roots, and no
  interleaving of the program with the collector leaves a root or an object with a reference to
  freed memory.
\<close>

section \<open>The invariant of the heap\<close>

text \<open>The static memory as a region the slab stays clear of.\<close>

definition static_region :: "heap \<Rightarrow> chunk" where
  "static_region h = chunk_create (static_memory h) (static_memory_size h div 64)"

definition live :: "heap \<Rightarrow> nat set" where
  "live h = (\<lambda>p. p + gc_header_size) ` slab_cells (h_slab h)"

definition valid_target :: "heap \<Rightarrow> nat \<Rightarrow> bool" where
  "valid_target h n \<longleftrightarrow> is_static_memory h n \<or> n \<in> live h"

definition heap_inv :: "heap \<Rightarrow> bool" where
  "heap_inv h \<longleftrightarrow>
     slab_in (h_memory h) [static_region h] (h_slab h) \<and> 64 dvd static_memory_size h \<and>
     (\<forall>x \<in> live h. \<forall>n \<in> set (graph h x). valid_target h n)"

definition roots_ok :: "heap \<Rightarrow> roots \<Rightarrow> bool" where
  "roots_ok h rt \<longleftrightarrow>
     (\<forall>vs \<in> set (stack_objects rt). \<forall>obj. Object obj \<in> set vs \<longrightarrow> obj \<noteq> 0 \<longrightarrow> valid_target h obj) \<and>
     (\<forall>obj \<in> set (interpreter_cells rt). valid_target h obj)"

text \<open>The objects the roots mention, and what can be reached from them outside the static
  memory.\<close>

definition root_cells :: "heap \<Rightarrow> roots \<Rightarrow> nat set" where
  "root_cells h rt =
     {unat (w - 8) + gc_header_size | w. w \<in> set (stack_words rt) \<and> unat (w - 8) \<in> slab_cells (h_slab h)} \<union>
     {obj. obj \<noteq> 0 \<and> (\<exists>vs \<in> set (stack_objects rt). Object obj \<in> set vs)} \<union>
     set (interpreter_cells rt)"

inductive_set reached :: "heap \<Rightarrow> roots \<Rightarrow> nat set" for h rt where
  root: "x \<in> root_cells h rt \<Longrightarrow> \<not> is_static_memory h x \<Longrightarrow> x \<in> reached h rt"
| step: "x \<in> reached h rt \<Longrightarrow> n \<in> set (graph h x) \<Longrightarrow> \<not> is_static_memory h n \<Longrightarrow> n \<in> reached h rt"

declare split_paired_Ex [simp del] split_paired_All [simp del]

lemma header_size_word [simp]: "(of_nat gc_header_size :: 64 word) = 8"
  by (simp add: gc_header_size_def)

lemma heap_inv_slab: "heap_inv h \<Longrightarrow> slab_ok (h_memory h) (h_slab h)"
  by (auto simp: heap_inv_def intro: slab_in_ok)

lemma cells_all_cells: "cells c \<subseteq> set (all_cells c)"
  by (auto simp: cells_def all_cells_def alive_cells_def)

lemma slab_cells_addresses: "slab_cells s \<subseteq> set (slab_addresses s)"
  using cells_all_cells by (fastforce simp: slab_cells_def slab_addresses_def)

lemma live_header: "x \<in> live h \<Longrightarrow> has_header h (header_of x)"
  using slab_cells_addresses [of "h_slab h"] by (auto simp: live_def has_header_def header_of_def)

lemma header_of_add [simp]: "header_of (p + gc_header_size) = p"
  by (simp add: header_of_def)

lemma live_ge: "x \<in> live h \<Longrightarrow> header_of x + gc_header_size = x"
  by (auto simp: live_def)

lemma live_iff: "p + gc_header_size \<in> live h \<longleftrightarrow> p \<in> slab_cells (h_slab h)"
  by (auto simp: live_def)

lemma static_span:
  "64 dvd static_memory_size h \<Longrightarrow> is_static_memory h x \<longleftrightarrow> x \<in> chunk_span (static_region h)"
  by (auto simp: is_static_memory_def static_region_def chunk_span_def chunk_create_def)

lemma block_sized_sizes:
  assumes "list_all2 block_sized slab_sizes s" and "c \<in> set (slab_chunks s)"
  shows "16 \<le> object_size c"
proof -
  obtain b where b: "b \<in> set s" "c \<in> set (b_chunks b)" using assms(2) by (auto simp: slab_chunks_def)
  obtain i where i: "i < length s" "s ! i = b" using b(1) by (auto simp: in_set_conv_nth)
  have "slab_sizes ! i \<in> set slab_sizes" "block_sized (slab_sizes ! i) b"
    using i assms(1) by (auto simp: list_all2_conv_all_nth)
  then show ?thesis using b(2) by (auto simp: block_sized_def slab_sizes_def)
qed

lemma live_not_static:
  assumes ok: "heap_inv h" and x: "x \<in> live h"
  shows "\<not> is_static_memory h x"
proof -
  from ok have "chunks_ok (h_memory h) ([static_region h] @ slab_chunks (h_slab h))"
      and sized: "list_all2 block_sized slab_sizes (h_slab h)" and d: "64 dvd static_memory_size h"
    by (auto simp: heap_inv_def slab_in_def)
  then have apart: "\<forall>c \<in> set (slab_chunks (h_slab h)). chunk_span (static_region h) \<inter> chunk_span c = {}"
      and cok: "\<forall>c \<in> set (slab_chunks (h_slab h)). chunk_ok c"
    unfolding chunks_ok_append by (auto simp: chunks_ok_def)
  obtain c p where c: "c \<in> set (slab_chunks (h_slab h))" "p \<in> cells c" "x = p + 8"
    using x by (auto simp: live_def slab_cells_def gc_header_size_def)
  obtain i where i: "i < 64" "p = chunk_memory c + i * object_size c"
    using c cok by (auto simp: cells_iff chunk_ok_def)
  have "Suc i * object_size c \<le> 64 * object_size c" using i by (intro mult_le_mono1) simp
  then have "i * object_size c + object_size c \<le> 64 * object_size c" by simp
  moreover have "16 \<le> object_size c" using block_sized_sizes [OF sized c(1)] .
  ultimately have "x \<in> chunk_span c" using i c(3) unfolding chunk_span_def by (simp, linarith)
  then show ?thesis using apart c(1) static_span [OF d] by blast
qed

lemma reached_valid:
  assumes "heap_inv h" "roots_ok h rt" "x \<in> reached h rt"
  shows "x \<in> live h"
  using assms(3)
proof induction
  case (root x)
  then show ?case
    using assms(2) unfolding root_cells_def roots_ok_def valid_target_def live_def by blast
next
  case (step x n)
  then show ?case using assms(1) unfolding heap_inv_def valid_target_def by blast
qed

section \<open>Greying\<close>

text \<open>The only effect of a root or of a visited neighbour is that white cells become grey and join
  the stack.\<close>

definition greyed :: "nat list \<Rightarrow> (nat \<Rightarrow> header) \<Rightarrow> nat \<Rightarrow> header" where
  "greyed new hs = (\<lambda>a. if a + gc_header_size \<in> set new then (False, True) else hs a)"

definition greys :: "heap \<Rightarrow> nat set \<Rightarrow> marking \<Rightarrow> marking \<Rightarrow> bool" where
  "greys h N st st' \<longleftrightarrow>
     (\<exists>new. fst st' = greyed new (fst st) \<and> snd st' = rev new @ snd st \<and> distinct new \<and>
        (\<forall>x \<in> set new. x \<in> N \<and> x \<in> live h \<and> white (fst st (header_of x))))"

lemma greys_refl: "greys h N st st"
  by (auto simp: greys_def greyed_def intro: exI [of _ "[]"])

lemma greys_trans:
  assumes "greys h N st st1" "greys h N st1 st2" shows "greys h N st st2"
proof -
  obtain a where a: "fst st1 = greyed a (fst st)" "snd st1 = rev a @ snd st" "distinct a"
      "\<forall>x \<in> set a. x \<in> N \<and> x \<in> live h \<and> white (fst st (header_of x))"
    using assms(1) by (auto simp: greys_def)
  obtain b where b: "fst st2 = greyed b (fst st1)" "snd st2 = rev b @ snd st1" "distinct b"
      "\<forall>x \<in> set b. x \<in> N \<and> x \<in> live h \<and> white (fst st1 (header_of x))"
    using assms(2) by (auto simp: greys_def)
  have new: "x \<notin> set a \<and> white (fst st (header_of x))" if "x \<in> set b" for x
  proof -
    have "white (greyed a (fst st) (header_of x))" "x \<in> live h" using b(4) a(1) that by auto
    then show ?thesis by (auto simp: greyed_def live_ge white_def split: if_splits)
  qed
  have "fst st2 = greyed (a @ b) (fst st)" unfolding b(1) a(1) by (auto simp: greyed_def)
  moreover have "snd st2 = rev (a @ b) @ snd st" using a(2) b(2) by simp
  moreover have "distinct (a @ b)" using a(3) b(3) new by auto
  moreover have "\<forall>x \<in> set (a @ b). x \<in> N \<and> x \<in> live h \<and> white (fst st (header_of x))"
    using a(4) b(4) new by auto
  ultimately show ?thesis unfolding greys_def by blast
qed

lemma greys_mono: "greys h N st st' \<Longrightarrow> N \<subseteq> N' \<Longrightarrow> greys h N' st st'"
  unfolding greys_def by blast

lemma greys_not_white: "greys h N st st' \<Longrightarrow> \<not> white (fst st a) \<Longrightarrow> \<not> white (fst st' a)"
  by (auto simp: greys_def greyed_def white_def)

lemma greys_one:
  assumes "x \<in> live h" "white (hs (header_of x))" "x \<in> N"
  shows "greys h N (hs, st) (hs(header_of x := mark GREY (hs (header_of x))), x # st)"
proof -
  have "greyed [x] hs = hs(header_of x := mark GREY (hs (header_of x)))"
    using live_ge [OF assms(1)] by (auto simp: greyed_def)
  then show ?thesis using assms unfolding greys_def by (intro exI [of _ "[x]"]) simp
qed

text \<open>A loop of such steps greys all its targets.\<close>

lemma for_each_greys:
  assumes "\<And>x st. x \<in> set xs \<Longrightarrow> Q st \<Longrightarrow> \<exists>st'. f x st = Ok st' \<and> greys h N st st' \<and>
      (\<forall>n \<in> T x. \<not> white (fst st' (header_of n)))"
    and "\<And>st st'. greys h N st st' \<Longrightarrow> Q st \<Longrightarrow> Q st'" and "Q st"
  shows "\<exists>st'. for_each f xs st = Ok st' \<and> greys h N st st' \<and>
      (\<forall>x \<in> set xs. \<forall>n \<in> T x. \<not> white (fst st' (header_of n)))"
  using assms(1,3)
proof (induction xs arbitrary: st)
  case Nil
  then show ?case by (simp add: greys_refl)
next
  case (Cons x xs)
  then obtain st1 where st1: "f x st = Ok st1" "greys h N st st1" "\<forall>n \<in> T x. \<not> white (fst st1 (header_of n))"
    by (meson list.set_intros(1))
  have Q1: "Q st1" using assms(2) st1(2) Cons.prems(2) by blast
  from Cons.IH [OF Cons.prems(1) Q1] obtain st2 where st2: "for_each f xs st1 = Ok st2" "greys h N st1 st2"
      "\<forall>x \<in> set xs. \<forall>n \<in> T x. \<not> white (fst st2 (header_of n))"
    by auto
  have "for_each f (x # xs) st = Ok st2" using st1(1) st2(1) by simp
  moreover have "\<forall>y \<in> set (x # xs). \<forall>n \<in> T y. \<not> white (fst st2 (header_of n))"
    using st1(3) st2(3) greys_not_white [OF st2(2)] by simp
  ultimately show ?case using greys_trans [OF st1(2) st2(2)] by blast
qed

definition targets :: "heap \<Rightarrow> nat \<Rightarrow> nat set" where
  "targets h n = (if is_static_memory h n then {} else {n})"

lemma visit_neighbour_greys:
  assumes "valid_target h n" and "\<not> is_static_memory h n \<Longrightarrow> n \<in> N"
    and "\<forall>a. has_header h a \<longrightarrow> fst st a \<noteq> (True, False)"
  shows "\<exists>st'. visit_neighbour h n st = Ok st' \<and> greys h N st st' \<and>
     (\<forall>x \<in> targets h n. \<not> white (fst st' (header_of x)))"
proof (cases st)
  case (Pair hs ss)
  show ?thesis
  proof (cases "is_static_memory h n")
    case True
    then show ?thesis using Pair by (simp add: targets_def greys_refl)
  next
    case False
    then have n: "n \<in> live h" "n \<in> N" using assms by (auto simp: valid_target_def)
    show ?thesis
    proof (cases "grey (hs (header_of n))")
      case True
      then show ?thesis using Pair False live_header [OF n(1)]
        by (auto simp: targets_def greys_refl white_def grey_def)
    next
      case no: False
      then have "white (hs (header_of n))" "\<not> black (hs (header_of n))"
        using assms(3) Pair live_header [OF n(1)]
        by (auto simp: white_def grey_def black_def prod_eq_iff)
      then show ?thesis using Pair False no live_header [OF n(1)] greys_one [OF n(1) _ n(2)]
        by (auto simp: targets_def white_def)
    qed
  qed
qed

lemma add_root_greys:
  assumes x: "x \<in> live h" "x \<in> N" and f: "\<forall>a. has_header h a \<longrightarrow> \<not> fst (fst st a)"
  shows "\<exists>st'. add_root h (header_of x) st = Ok st' \<and> greys h N st st' \<and> \<not> white (fst st' (header_of x))"
proof (cases st)
  case (Pair hs ss)
  have hdr: "has_header h (header_of x)" and f: "\<not> fst (hs (header_of x))"
    using live_header [OF x(1)] f Pair by auto
  show ?thesis
  proof (cases "grey (hs (header_of x))")
    case True
    then show ?thesis using Pair hdr f
      by (auto simp: assert_that_def black_def greys_refl white_def grey_def)
  next
    case False
    then have w: "white (hs (header_of x))" "\<not> black (hs (header_of x))"
      using f by (auto simp: white_def grey_def black_def)
    then show ?thesis using Pair hdr False greys_one [of x h hs N ss] x w(1) live_ge [OF x(1)]
      by (auto simp: assert_that_def white_def)
  qed
qed

lemma greys_keeps_unblack:
  "greys h N st st' \<Longrightarrow> \<forall>a. has_header h a \<longrightarrow> \<not> fst (fst st a) \<Longrightarrow>
   \<forall>a. has_header h a \<longrightarrow> \<not> fst (fst st' a)"
  by (auto simp: greys_def greyed_def split: if_splits)

lemma greys_keeps_valid:
  "greys h N st st' \<Longrightarrow> \<forall>a. has_header h a \<longrightarrow> fst st a \<noteq> (True, False) \<Longrightarrow>
   \<forall>a. has_header h a \<longrightarrow> fst st' a \<noteq> (True, False)"
  by (auto simp: greys_def greyed_def split: if_splits)

lemma for_each_unblack:
  assumes "\<And>x st. x \<in> set xs \<Longrightarrow> \<forall>a. has_header h a \<longrightarrow> \<not> fst (fst st a) \<Longrightarrow>
      \<exists>st'. f x st = Ok st' \<and> greys h N st st' \<and> (\<forall>n \<in> T x. \<not> white (fst st' (header_of n)))"
    and "\<forall>a. has_header h a \<longrightarrow> \<not> fst (fst st a)"
  shows "\<exists>st'. for_each f xs st = Ok st' \<and> greys h N st st' \<and>
      (\<forall>x \<in> set xs. \<forall>n \<in> T x. \<not> white (fst st' (header_of n)))"
  by (rule for_each_greys [where Q = "\<lambda>st. \<forall>a. has_header h a \<longrightarrow> \<not> fst (fst st a)",
        OF assms(1) _ assms(2)]) (assumption | erule greys_keeps_unblack)+

lemma for_each_valid:
  assumes "\<And>x st. x \<in> set xs \<Longrightarrow> \<forall>a. has_header h a \<longrightarrow> fst st a \<noteq> (True, False) \<Longrightarrow>
      \<exists>st'. f x st = Ok st' \<and> greys h N st st' \<and> (\<forall>n \<in> T x. \<not> white (fst st' (header_of n)))"
    and "\<forall>a. has_header h a \<longrightarrow> fst st a \<noteq> (True, False)"
  shows "\<exists>st'. for_each f xs st = Ok st' \<and> greys h N st st' \<and>
      (\<forall>x \<in> set xs. \<forall>n \<in> T x. \<not> white (fst st' (header_of n)))"
  by (rule for_each_greys [where Q = "\<lambda>st. \<forall>a. has_header h a \<longrightarrow> fst st a \<noteq> (True, False)",
        OF assms(1) _ assms(2)]) (assumption | erule greys_keeps_valid)+

lemma cell_root_greys:
  assumes "valid_target h n" and "\<not> is_static_memory h n \<Longrightarrow> n \<in> N"
    and "\<forall>a. has_header h a \<longrightarrow> \<not> fst (fst st a)"
  shows "\<exists>st'. cell_root h n st = Ok st' \<and> greys h N st st' \<and>
     (\<forall>x \<in> targets h n. \<not> white (fst st' (header_of x)))"
  using assms add_root_greys [of n h N st]
  by (auto simp: cell_root_def targets_def valid_target_def greys_refl)

definition vm_targets :: "heap \<Rightarrow> vm_value \<Rightarrow> nat set" where
  "vm_targets h v = (case v of Object obj \<Rightarrow> if obj \<noteq> 0 then targets h obj else {} | Other \<Rightarrow> {})"

lemma vm_root_greys:
  assumes "\<And>n. v = Object n \<Longrightarrow> n \<noteq> 0 \<Longrightarrow> valid_target h n \<and> (\<not> is_static_memory h n \<longrightarrow> n \<in> N)"
    and "\<forall>a. has_header h a \<longrightarrow> \<not> fst (fst st a)"
  shows "\<exists>st'. vm_root h v st = Ok st' \<and> greys h N st st' \<and>
     (\<forall>x \<in> vm_targets h v. \<not> white (fst st' (header_of x)))"
  using assms cell_root_greys [of h _ N st]
  by (cases v) (auto simp: vm_root_def vm_targets_def greys_refl)

definition word_targets :: "heap \<Rightarrow> 64 word \<Rightarrow> nat set" where
  "word_targets h w =
     (if unat (w - 8) \<in> slab_cells (h_slab h) then {unat (w - 8) + gc_header_size} else {})"

lemma stack_root_greys:
  assumes "heap_inv h" and "word_targets h w \<subseteq> N" and "\<forall>a. has_header h a \<longrightarrow> \<not> fst (fst st a)"
  shows "\<exists>st'. stack_root h w st = Ok st' \<and> greys h N st st' \<and>
     (\<forall>x \<in> word_targets h w. \<not> white (fst st' (header_of x)))"
proof (cases "unat (w - 8) \<in> slab_cells (h_slab h)")
  case True
  then have "unat (w - 8) + gc_header_size \<in> live h" by (simp add: live_iff)
  from add_root_greys [OF this _ assms(3), of N] True assms(1,2) show ?thesis
    by (simp add: stack_root_def word_targets_def slab_has_address_iff [OF heap_inv_slab])
next
  case False
  then show ?thesis using assms(1)
    by (simp add: stack_root_def word_targets_def slab_has_address_iff [OF heap_inv_slab] greys_refl)
qed

lemma root_cells_targets:
  "x \<in> root_cells h rt \<Longrightarrow> \<not> is_static_memory h x \<Longrightarrow>
     (\<exists>w \<in> set (stack_words rt). x \<in> word_targets h w) \<or>
     (\<exists>vs \<in> set (stack_objects rt). \<exists>v \<in> set vs. x \<in> vm_targets h v) \<or>
     (\<exists>n \<in> set (interpreter_cells rt). x \<in> targets h n)"
  unfolding root_cells_def word_targets_def vm_targets_def targets_def
  by (force split: if_splits)

lemma collect_roots_greys:
  assumes ok: "heap_inv h" "roots_ok h rt" and f: "\<forall>a. has_header h a \<longrightarrow> \<not> fst (hs a)"
  shows "\<exists>st. collect_roots h rt hs = Ok st \<and> greys h (reached h rt) (hs, []) st \<and>
     (\<forall>x \<in> root_cells h rt. \<not> is_static_memory h x \<longrightarrow> \<not> white (fst st (header_of x)))"
proof -
  let ?N = "reached h rt" and ?Q = "\<lambda>st. \<forall>a. has_header h a \<longrightarrow> \<not> fst (fst st a)"
  note loop = for_each_unblack [where h = h and N = ?N]
  have words: "word_targets h w \<subseteq> ?N" if "w \<in> set (stack_words rt)" for w
  proof
    fix x assume "x \<in> word_targets h w"
    then have "x \<in> root_cells h rt" "x \<in> live h"
      using that by (auto simp: word_targets_def root_cells_def live_iff split: if_splits)
    then show "x \<in> ?N" using live_not_static [OF ok(1)] by (blast intro: reached.root)
  qed
  have vm: "valid_target h n \<and> (\<not> is_static_memory h n \<longrightarrow> n \<in> ?N)"
    if "vs \<in> set (stack_objects rt)" "Object n \<in> set vs" "n \<noteq> 0" for vs n
    using ok(2) that by (auto simp: roots_ok_def root_cells_def intro!: reached.root)
  have cells: "valid_target h n" "\<not> is_static_memory h n \<Longrightarrow> n \<in> ?N"
    if "n \<in> set (interpreter_cells rt)" for n
    using ok(2) that by (auto simp: roots_ok_def root_cells_def intro!: reached.root)
  obtain st1 where st1: "for_each (stack_root h) (stack_words rt) (hs, []) = Ok st1"
      "greys h ?N (hs, []) st1"
      "\<forall>w \<in> set (stack_words rt). \<forall>n \<in> word_targets h w. \<not> white (fst st1 (header_of n))"
    using loop [where xs = "stack_words rt" and f = "stack_root h" and T = "word_targets h" and st = "(hs, [])"]
      stack_root_greys [OF ok(1) words] f by auto
  have q1: "?Q st1" using greys_keeps_unblack [OF st1(2)] f by simp
  have inner: "\<exists>st'. for_each (vm_root h) vs st = Ok st' \<and> greys h ?N st st' \<and>
      (\<forall>n \<in> (\<Union>v \<in> set vs. vm_targets h v). \<not> white (fst st' (header_of n)))"
    if "vs \<in> set (stack_objects rt)" "?Q st" for vs st
  proof -
    have one: "\<exists>st'. vm_root h v st = Ok st' \<and> greys h ?N st st' \<and>
        (\<forall>n \<in> vm_targets h v. \<not> white (fst st' (header_of n)))" if "v \<in> set vs" "?Q st" for v st
      by (rule vm_root_greys) (use vm [OF \<open>vs \<in> set (stack_objects rt)\<close>] that in auto)
    show ?thesis
      using loop [where xs = vs and f = "vm_root h" and T = "vm_targets h" and st = st, OF one that(2)]
      by auto
  qed
  obtain st2 where st2: "for_each (for_each (vm_root h)) (stack_objects rt) st1 = Ok st2"
      "greys h ?N st1 st2"
      "\<forall>vs \<in> set (stack_objects rt). \<forall>n \<in> (\<Union>v \<in> set vs. vm_targets h v). \<not> white (fst st2 (header_of n))"
    using loop [where xs = "stack_objects rt" and f = "for_each (vm_root h)" and
        T = "\<lambda>vs. \<Union>v \<in> set vs. vm_targets h v" and st = st1]
      inner q1 by blast
  have q2: "?Q st2" using greys_keeps_unblack [OF st2(2) q1] .
  obtain st3 where st3: "for_each (cell_root h) (interpreter_cells rt) st2 = Ok st3"
      "greys h ?N st2 st3"
      "\<forall>c \<in> set (interpreter_cells rt). \<forall>n \<in> targets h c. \<not> white (fst st3 (header_of n))"
    using loop [where xs = "interpreter_cells rt" and f = "cell_root h" and T = "targets h" and st = st2]
      cell_root_greys [of h _ ?N] cells q2 by blast
  have g13: "greys h ?N (hs, []) st3" using greys_trans st1(2) st2(2) st3(2) by blast
  have "\<not> white (fst st3 (header_of x))" if "x \<in> root_cells h rt" "\<not> is_static_memory h x" for x
    using root_cells_targets [OF that] st1(3) st2(3) st3(3)
      greys_not_white [OF greys_trans [OF st2(2) st3(2)]] greys_not_white [OF st3(2)] by blast
  with g13 show ?thesis using st1(1) st2(1) st3(1) by (simp add: collect_roots_def)
qed

section \<open>Marking\<close>

text \<open>The three-colour invariant of the marking loop.\<close>

definition marking_ok :: "heap \<Rightarrow> roots \<Rightarrow> marking \<Rightarrow> bool" where
  "marking_ok h rt st \<longleftrightarrow>
     distinct (snd st) \<and>
     (\<forall>x \<in> set (snd st). x \<in> reached h rt \<and> fst st (header_of x) = (False, True)) \<and>
     (\<forall>a. has_header h a \<longrightarrow> fst st a \<noteq> (True, False)) \<and>
     (\<forall>x \<in> live h. \<not> white (fst st (header_of x)) \<longrightarrow> x \<in> reached h rt) \<and>
     (\<forall>x \<in> live h. fst st (header_of x) = (False, True) \<longrightarrow> x \<in> set (snd st)) \<and>
     (\<forall>x \<in> live h. fst st (header_of x) = (True, True) \<longrightarrow>
        (\<forall>n \<in> set (graph h x). \<not> is_static_memory h n \<longrightarrow> \<not> white (fst st (header_of n)))) \<and>
     (\<forall>x \<in> root_cells h rt. \<not> is_static_memory h x \<longrightarrow> \<not> white (fst st (header_of x)))"

lemma header_of_inj: "x \<in> live h \<Longrightarrow> y \<in> live h \<Longrightarrow> header_of x = header_of y \<longleftrightarrow> x = y"
  by (auto simp: live_def)

lemma greyed_header: "x \<in> live h \<Longrightarrow> greyed new hs (header_of x) = (if x \<in> set new then (False, True) else hs (header_of x))"
  by (simp add: greyed_def live_ge)

lemma marking_step:
  assumes ok: "heap_inv h" "roots_ok h rt" and inv: "marking_ok h rt (hs, r # rest)"
  shows "\<not> is_static_memory h r" and "has_header h (header_of r)" and "grey (hs (header_of r))"
    and "\<exists>st'. mark_visit h r (hs(header_of r := mark BLACK (hs (header_of r))), rest) = Ok st' \<and>
       marking_ok h rt st'"
proof -
  let ?hs = "hs(header_of r := (True, True))" and ?N = "{n \<in> set (graph h r). \<not> is_static_memory h n}"
  have r: "r \<in> reached h rt" "hs (header_of r) = (False, True)" "r \<notin> set rest"
    using inv by (auto simp: marking_ok_def)
  have rl: "r \<in> live h" using reached_valid [OF ok r(1)] .
  show ns: "\<not> is_static_memory h r" using live_not_static [OF ok(1) rl] .
  show "has_header h (header_of r)" using live_header [OF rl] .
  show "grey (hs (header_of r))" using r(2) by (simp add: grey_def)
  have valid: "\<forall>a. has_header h a \<longrightarrow> fst (?hs, rest) a \<noteq> (True, False)"
    using inv by (auto simp: marking_ok_def)
  have tgt: "valid_target h n" if "n \<in> set (graph h r)" for n
    using ok(1) rl that by (auto simp: heap_inv_def)
  obtain st' where st': "for_each (visit_neighbour h) (graph h r) (?hs, rest) = Ok st'"
      "greys h ?N (?hs, rest) st'"
      "\<forall>c \<in> set (graph h r). \<forall>n \<in> targets h c. \<not> white (fst st' (header_of n))"
    using for_each_valid [where h = h and N = ?N and f = "visit_neighbour h" and T = "targets h" and
        xs = "graph h r" and st = "(?hs, rest)", OF _ valid] visit_neighbour_greys [of h _ ?N] tgt
    by blast
  obtain new where new: "fst st' = greyed new ?hs" "snd st' = rev new @ rest" "distinct new"
      "\<forall>x \<in> set new. x \<in> ?N \<and> x \<in> live h \<and> white (?hs (header_of x))"
    using st'(2) by (auto simp: greys_def)
  have reach: "x \<in> reached h rt" if "x \<in> set new" for x
    using new(4) that r(1) by (blast intro: reached.step)
  have rest: "x \<in> reached h rt" "hs (header_of x) = (False, True)" "x \<in> live h" "x \<noteq> r"
    if "x \<in> set rest" for x
    using inv that reached_valid [OF ok] by (auto simp: marking_ok_def)
  have colour: "fst st' (header_of x) = (if x \<in> set new then (False, True)
      else if x = r then (True, True) else hs (header_of x))" if "x \<in> live h" for x
    using that rl by (simp add: new(1) greyed_header header_of_inj)
  have apart: "x \<notin> set rest \<and> x \<noteq> r \<and> white (hs (header_of x))" if "x \<in> set new" for x
    using new(4) that rest(2) [of x] by (auto simp: white_def split: if_splits)
  have mono: "\<not> white (hs (header_of x)) \<Longrightarrow> \<not> white (fst st' (header_of x))" for x
    using greys_not_white [OF st'(2), of "header_of x"] by (auto simp: white_def)
  have "distinct (snd st')" using new(2,3) apart inv by (auto simp: marking_ok_def)
  moreover have "\<forall>x \<in> set (snd st'). x \<in> reached h rt \<and> fst st' (header_of x) = (False, True)"
    using new(2,4) reach rest colour by auto
  moreover have "\<forall>a. has_header h a \<longrightarrow> fst st' a \<noteq> (True, False)"
    using greys_keeps_valid [OF st'(2) valid] .
  moreover have "\<forall>x \<in> live h. \<not> white (fst st' (header_of x)) \<longrightarrow> x \<in> reached h rt"
    using colour reach r(1) inv by (auto simp: marking_ok_def split: if_splits)
  moreover have "\<forall>x \<in> live h. fst st' (header_of x) = (False, True) \<longrightarrow> x \<in> set (snd st')"
    using colour new(2) inv by (auto simp: marking_ok_def split: if_splits)
  moreover have "\<not> white (fst st' (header_of n))"
    if "x \<in> live h" "fst st' (header_of x) = (True, True)" "n \<in> set (graph h x)" "\<not> is_static_memory h n" for x n
  proof (cases "x = r")
    case True
    then show ?thesis using st'(3) that(3,4) by (auto simp: targets_def)
  next
    case False
    then have "hs (header_of x) = (True, True)" using that(1,2) colour by (auto split: if_splits)
    then show ?thesis using inv that mono by (auto simp: marking_ok_def)
  qed
  moreover have "\<forall>x \<in> root_cells h rt. \<not> is_static_memory h x \<longrightarrow> \<not> white (fst st' (header_of x))"
    using inv mono by (auto simp: marking_ok_def)
  ultimately have "marking_ok h rt st'" by (auto simp: marking_ok_def)
  then show "\<exists>st'. mark_visit h r (hs(header_of r := mark BLACK (hs (header_of r))), rest) = Ok st' \<and>
       marking_ok h rt st'"
    using st'(1) ns by (auto simp: mark_visit_def)
qed

lemma mark_all_live_objects_ok:
  assumes "heap_inv h" "roots_ok h rt"
  shows "marking_ok h rt st \<Longrightarrow> \<exists>hs'. mark_all_live_objects h st = Ok hs' \<and> marking_ok h rt (hs', [])"
  using assms
proof (induction h st rule: mark_all_live_objects.induct)
  case (1 h hs)
  then show ?case by simp
next
  case (2 h hs r rest)
  from marking_step [OF "2.prems"(2,3,1)] obtain st' where
    r: "\<not> is_static_memory h r" "has_header h (header_of r)" "grey (hs (header_of r))"
    and st': "mark_visit h r (hs(header_of r := mark BLACK (hs (header_of r))), rest) = Ok st'"
      "marking_ok h rt st'" by blast
  then have run: "assert_that (grey (hs (header_of r)))
      (mark_visit h r (hs(header_of r := mark BLACK (hs (header_of r))), rest)) = Ok st'"
    by (simp add: assert_that_def del: mark.simps)
  from "2.IH"(2) [OF r(1) _ run st'(2) "2.prems"(2,3)] r run show ?case
    by (simp del: mark.simps)
qed

lemma marked_reached:
  assumes "heap_inv h" "roots_ok h rt" "marking_ok h rt (hs, [])" "x \<in> live h"
  shows "\<not> white (hs (header_of x)) \<longleftrightarrow> x \<in> reached h rt"
proof
  assume "x \<in> reached h rt"
  then show "\<not> white (hs (header_of x))"
  proof induction
    case (root x)
    then show ?case using assms(3) by (auto simp: marking_ok_def)
  next
    case (step x n)
    have x: "x \<in> live h" using reached_valid [OF assms(1,2) step.hyps(1)] .
    then have "hs (header_of x) = (True, True)"
      using step.IH assms(3) live_header [OF x] unfolding marking_ok_def white_def
      by (metis empty_iff empty_set fst_conv prod.collapse snd_conv)
    then show ?case using x step.hyps assms(3) by (auto simp: marking_ok_def)
  qed
qed (use assms in \<open>auto simp: marking_ok_def\<close>)

end
