(* ===== verification/Garbage_Sweep.thy ===== *)
theory Garbage_Sweep
  imports Garbage_Props
begin

text \<open>
  The sweep and the whole collection: exactly the objects that the roots reach stay, the others are
  destroyed once and their weak references forgotten. Then the operations of the heap, the moves
  of a program that runs on it, and the invariant that every interleaving keeps.
\<close>

section \<open>Sweeping\<close>

text \<open>A chunk after the sweep, and the objects destroyed in it, in order.\<close>

definition survives :: "(nat \<Rightarrow> header) \<Rightarrow> chunk \<Rightarrow> nat \<Rightarrow> bool" where
  "survives hs c i \<longleftrightarrow> occupied c ! i \<and> \<not> white (hs (chunk_memory c + i * object_size c))"

definition swept :: "(nat \<Rightarrow> header) \<Rightarrow> chunk \<Rightarrow> chunk" where
  "swept hs c = c\<lparr>occupied := map (survives hs c) [0 ..< length (occupied c)]\<rparr>"

definition dead_at :: "(nat \<Rightarrow> header) \<Rightarrow> chunk \<Rightarrow> nat list \<Rightarrow> nat list" where
  "dead_at hs c is = map (\<lambda>i. chunk_memory c + i * object_size c + gc_header_size)
     (filter (\<lambda>i. occupied c ! i \<and> white (hs (chunk_memory c + i * object_size c))) is)"

definition dead :: "(nat \<Rightarrow> header) \<Rightarrow> chunk \<Rightarrow> nat list" where
  "dead hs c = dead_at hs c [0 ..< length (occupied c)]"

definition bury :: "nat list \<Rightarrow> heap \<Rightarrow> heap" where
  "bury ds h = h\<lparr>weakrefs := (\<lambda>x. if x \<in> set ds then None else weakrefs h x),
                destroyed := destroyed h @ ds\<rparr>"

lemma bury_simps [simp]:
  "headers (bury ds h) = headers h" "h_slab (bury ds h) = h_slab h" "graph (bury ds h) = graph h"
  "h_memory (bury ds h) = h_memory h" "static_memory (bury ds h) = static_memory h"
  "static_memory_size (bury ds h) = static_memory_size h" "destroyed (bury ds h) = destroyed h @ ds"
  "m_pause (bury ds h) = m_pause h" "m_frequency (bury ds h) = m_frequency h"
  "m_allocate_in_static (bury ds h) = m_allocate_in_static h"
  "weakrefs (bury ds h) x = (if x \<in> set ds then None else weakrefs h x)"
  by (simp_all add: bury_def)

lemma bury_Nil [simp]: "bury [] h = h"
  by (simp add: bury_def)

lemma bury_append: "bury ds2 (bury ds1 h) = bury (ds1 @ ds2) h"
  by (rule heap.equality) (auto simp: bury_def)

lemma white_eq: "white s \<longleftrightarrow> s = new_header"
  by (cases s) (auto simp: white_def new_header_def)

lemma chunk_ok_free: "chunk_ok c \<Longrightarrow> chunk_ok (c\<lparr>occupied := (occupied c)[i := b]\<rparr>)"
  by (simp add: chunk_ok_def)

lemma sweep_cell_dead:
  assumes "chunk_ok c" "i < 64" "occupied c ! i" "white (headers h (chunk_memory c + i * object_size c))"
  shows "sweep_cell i (h, c) = Ok (bury [chunk_memory c + i * object_size c + gc_header_size] h,
           c\<lparr>occupied := (occupied c)[i := False]\<rparr>)"
proof -
  let ?p = "chunk_memory c + i * object_size c"
  have "?p \<in> cells c" using assms by (auto simp: cells_iff chunk_ok_def)
  from chunk_deallocate_spec [OF assms(1) this] obtain c' where
    c': "chunk_deallocate c ?p = Ok c'" "chunk_memory c' = chunk_memory c" "object_size c' = object_size c"
      "occupied c' = (occupied c)[(?p - chunk_memory c) div object_size c := False]" by auto
  have "(?p - chunk_memory c) div object_size c = i" using assms(1) by (simp add: chunk_ok_def)
  then have eq: "c' = c\<lparr>occupied := (occupied c)[i := False]\<rparr>"
    using c' by (intro chunk.equality) simp_all
  have hdr: "(headers h)(?p := new_header) = headers h" using assms(4) by (auto simp: white_eq)
  let ?h = "remove_weakref h (?p + gc_header_size)"
  have "?h\<lparr>destroyed := destroyed ?h @ [?p + gc_header_size], headers := headers h\<rparr> =
      bury [?p + gc_header_size] h"
    by (rule heap.equality) (auto simp: bury_def remove_weakref_def)
  then show ?thesis
    using assms(3,4) c'(1) eq hdr by (simp add: Let_def remove_weakref_def)
qed

lemma sweep_cells:
  assumes "chunk_ok c" "distinct is" "\<forall>i \<in> set is. i < 64"
  shows "for_each sweep_cell is (h, c) = Ok (bury (dead_at (headers h) c is) h,
     c\<lparr>occupied := map (\<lambda>i. if i \<in> set is then survives (headers h) c i else occupied c ! i)
        [0 ..< length (occupied c)]\<rparr>)"
  using assms
proof (induction "is" arbitrary: h c)
  case Nil
  have "map (\<lambda>i. occupied c ! i) [0 ..< length (occupied c)] = occupied c" by (rule map_nth)
  then show ?case by (simp add: dead_at_def)
next
  case (Cons i "is")
  let ?p = "chunk_memory c + i * object_size c"
  show ?case
  proof (cases "occupied c ! i \<and> white (headers h ?p)")
    case True
    let ?c = "c\<lparr>occupied := (occupied c)[i := False]\<rparr>" and ?h = "bury [?p + gc_header_size] h"
    have run: "sweep_cell i (h, c) = Ok (?h, ?c)" using Cons.prems True by (intro sweep_cell_dead) auto
    have other: "occupied ?c ! j = occupied c ! j" if "j \<in> set is" for j
      using that Cons.prems by (cases "i = j") auto
    have dead: "dead_at (headers ?h) ?c is = dead_at (headers h) c is"
      unfolding dead_at_def using other by (auto intro!: arg_cong [where f = "map _"] filter_cong)
    have surv: "survives (headers ?h) ?c j = survives (headers h) c j" if "j \<in> set is" for j
      using other [OF that] by (simp add: survives_def)
    have occ: "map (\<lambda>j. if j \<in> set is then survives (headers ?h) ?c j else occupied ?c ! j)
          [0 ..< length (occupied ?c)] =
        map (\<lambda>j. if j \<in> set (i # is) then survives (headers h) c j else occupied c ! j)
          [0 ..< length (occupied c)]"
      using True surv by (auto simp: survives_def nth_list_update)
    have "for_each sweep_cell (i # is) (h, c) = Ok (bury (dead_at (headers ?h) ?c is) ?h,
        ?c\<lparr>occupied := map (\<lambda>j. if j \<in> set is then survives (headers ?h) ?c j else occupied ?c ! j)
          [0 ..< length (occupied ?c)]\<rparr>)"
      using run Cons.IH [of ?c ?h] Cons.prems chunk_ok_free [of c] by (simp del: bury_simps)
    also have "\<dots> = Ok (bury (dead_at (headers h) c (i # is)) h,
        c\<lparr>occupied := map (\<lambda>j. if j \<in> set (i # is) then survives (headers h) c j else occupied c ! j)
          [0 ..< length (occupied c)]\<rparr>)"
      unfolding dead occ bury_append using True by (simp add: dead_at_def)
    finally show ?thesis .
  next
    case False
    then have "sweep_cell i (h, c) = Ok (h, c)" by (auto simp: Let_def)
    moreover have "dead_at (headers h) c (i # is) = dead_at (headers h) c is"
      using False by (auto simp: dead_at_def)
    moreover have "map (\<lambda>j. if j \<in> set is then survives (headers h) c j else occupied c ! j)
          [0 ..< length (occupied c)] =
        map (\<lambda>j. if j \<in> set (i # is) then survives (headers h) c j else occupied c ! j)
          [0 ..< length (occupied c)]"
      using False by (auto simp: survives_def)
    ultimately show ?thesis using Cons.IH [of c h] Cons.prems by simp
  qed
qed

lemma sweep_chunk_eq:
  assumes "chunk_ok c"
  shows "sweep_chunk h c = Ok (bury (dead (headers h) c) h, swept (headers h) c)"
proof -
  have "\<forall>i \<in> set [0 ..< length (occupied c)]. i < 64" using assms by (simp add: chunk_ok_def)
  from sweep_cells [OF assms distinct_upt this] show ?thesis
    by (simp add: sweep_chunk_def dead_def swept_def cong: map_cong)
qed

lemma sweep_chunks_eq:
  "\<forall>c \<in> set cs. chunk_ok c \<Longrightarrow>
   sweep_chunks h cs = Ok (bury (concat (map (dead (headers h)) cs)) h, map (swept (headers h)) cs)"
  by (induction cs arbitrary: h) (simp_all add: sweep_chunk_eq bury_append)

definition swept_block :: "(nat \<Rightarrow> header) \<Rightarrow> slab_block \<Rightarrow> slab_block" where
  "swept_block hs b = b\<lparr>b_chunks := map (swept hs) (b_chunks b)\<rparr>"

lemma sweep_blocks_eq:
  "\<forall>c \<in> set (slab_chunks bs). chunk_ok c \<Longrightarrow>
   sweep_blocks h bs = Ok (bury (concat (map (dead (headers h)) (slab_chunks bs))) h,
     map (swept_block (headers h)) bs)"
proof (induction bs arbitrary: h)
  case Nil
  then show ?case by (simp add: slab_chunks_def)
next
  case (Cons b bs)
  then have "\<forall>c \<in> set (b_chunks b). chunk_ok c" "\<forall>c \<in> set (slab_chunks bs). chunk_ok c"
    by (auto simp: slab_chunks_def)
  then show ?case
    using Cons.IH sweep_chunks_eq [of "b_chunks b" h]
    by (simp add: bury_append swept_block_def slab_chunks_def)
qed

definition dead_objects :: "heap \<Rightarrow> nat list" where
  "dead_objects h = concat (map (dead (headers h)) (slab_chunks (h_slab h)))"

lemma sweep_eq:
  assumes "\<forall>c \<in> set (slab_chunks (h_slab h)). chunk_ok c"
  shows "sweep h = Ok ((bury (dead_objects h) h)\<lparr>h_slab := map (swept_block (headers h)) (h_slab h)\<rparr>)"
  using sweep_blocks_eq [OF assms, of h] by (simp add: sweep_def dead_objects_def)

lemma swept_simps [simp]:
  "chunk_memory (swept hs c) = chunk_memory c" "object_size (swept hs c) = object_size c"
  "chunk_ok (swept hs c) = chunk_ok c" "chunk_span (swept hs c) = chunk_span c"
  by (simp_all add: swept_def chunk_ok_def chunk_span_def)

lemma swept_index:
  "i < length (occupied c) \<Longrightarrow> occupied (swept hs c) ! i = survives hs c i"
  "length (occupied (swept hs c)) = length (occupied c)"
  by (simp_all add: swept_def)

lemma cells_swept: "cells (swept hs c) = {p \<in> cells c. \<not> white (hs p)}"
proof (rule set_eqI)
  fix p
  have "p \<in> cells (swept hs c) \<longleftrightarrow>
      (\<exists>i < length (occupied c). survives hs c i \<and> p = chunk_memory c + i * object_size c)"
    unfolding cells_iff swept_simps swept_index(2) by (metis swept_index(1))
  also have "\<dots> \<longleftrightarrow> p \<in> cells c \<and> \<not> white (hs p)"
    unfolding cells_iff survives_def by metis
  finally show "p \<in> cells (swept hs c) \<longleftrightarrow> p \<in> {p \<in> cells c. \<not> white (hs p)}" by simp
qed

lemma set_dead: "x \<in> set (dead hs c) \<longleftrightarrow> (\<exists>p. x = p + gc_header_size \<and> p \<in> cells c \<and> white (hs p))"
proof -
  have "x \<in> set (dead hs c) \<longleftrightarrow> (\<exists>i < length (occupied c). occupied c ! i \<and>
      white (hs (chunk_memory c + i * object_size c)) \<and> x = chunk_memory c + i * object_size c + gc_header_size)"
    unfolding dead_def dead_at_def set_map set_filter set_upt image_iff Bex_def
    by (simp only: mem_Collect_eq atLeastLessThan_iff le0 simp_thms) blast
  also have "\<dots> \<longleftrightarrow> (\<exists>p. x = p + gc_header_size \<and> p \<in> cells c \<and> white (hs p))"
    unfolding cells_iff by metis
  finally show ?thesis .
qed

lemma slab_chunks_swept: "slab_chunks (map (swept_block hs) s) = map (swept hs) (slab_chunks s)"
  by (induction s) (simp_all add: slab_chunks_def swept_block_def)

lemma slab_cells_swept: "slab_cells (map (swept_block hs) s) = {p \<in> slab_cells s. \<not> white (hs p)}"
  by (auto simp: slab_cells_def slab_chunks_swept cells_swept)

lemma slab_in_swept:
  assumes "slab_in m G s" shows "slab_in m G (map (swept_block hs) s)"
proof -
  have ok: "chunks_ok m (G @ slab_chunks s)" using assms by (simp add: slab_in_def)
  have "chunks_ok m (G @ map (swept hs) (slab_chunks s))"
  proof (rule chunks_ok_same_spans [OF ok])
    fix i assume "i < length (G @ slab_chunks s)"
    then show "chunk_ok ((G @ map (swept hs) (slab_chunks s)) ! i) \<and>
        chunk_span ((G @ map (swept hs) (slab_chunks s)) ! i) = chunk_span ((G @ slab_chunks s) ! i)"
      using chunks_ok_nth [OF ok, of i] by (auto simp: nth_append)
  qed simp
  moreover have "list_all2 block_sized slab_sizes (map (swept_block hs) s)"
    using assms by (auto simp: slab_in_def list_all2_conv_all_nth block_sized_def swept_block_def)
  ultimately show ?thesis by (simp add: slab_in_def slab_chunks_swept)
qed

lemma distinct_dead: "chunk_ok c \<Longrightarrow> distinct (dead hs c)"
  by (auto simp: dead_def dead_at_def distinct_map inj_on_def chunk_ok_def)

lemma distinct_dead_chunks: "chunks_ok m cs \<Longrightarrow> distinct (concat (map (dead hs) cs))"
proof (induction cs)
  case (Cons c cs)
  then have "chunks_ok m ([c] @ cs)" by simp
  then have c: "chunk_ok c" and cs: "chunks_ok m cs"
      and apart: "\<forall>d \<in> set cs. chunk_span c \<inter> chunk_span d = {}"
    unfolding chunks_ok_append by (auto simp: chunks_ok_def)
  have "False" if x: "x \<in> set (dead hs c)" and d: "d \<in> set cs" "x \<in> set (dead hs d)" for x d
  proof -
    have "chunk_ok d" using cs d(1) by (simp add: chunks_ok_def)
    then show False
      using x d apart cells_span [OF c] cells_span [of d] by (fastforce simp: set_dead)
  qed
  then show ?case using Cons.IH [OF cs] distinct_dead [OF c] by auto
qed simp

section \<open>A collection\<close>

definition due :: "heap \<Rightarrow> bool" where
  "due h \<longleftrightarrow> \<not> m_pause h \<and> m_frequency h \<le> (m_iterations_since_last_sweep h + 1) mod 2 ^ 64"

text \<open>What a collection leaves: the reached objects, with their graph; the rest is destroyed.\<close>

definition collected :: "heap \<Rightarrow> roots \<Rightarrow> heap \<Rightarrow> bool" where
  "collected h rt h' \<longleftrightarrow>
     live h' = reached h rt \<and>
     (\<exists>ds. destroyed h' = destroyed h @ ds \<and> distinct ds \<and> set ds = live h - reached h rt) \<and>
     (\<forall>x. weakrefs h' x = (if x \<in> live h - reached h rt then None else weakrefs h x)) \<and>
     graph h' = graph h \<and> h_memory h' = h_memory h \<and>
     static_memory h' = static_memory h \<and> static_memory_size h' = static_memory_size h \<and>
     m_allocate_in_static h' = m_allocate_in_static h \<and>
     heap_inv h' \<and> roots_ok h' rt \<and> reached h' rt = reached h rt"

lemma reached_subset:
  assumes "\<And>x. x \<in> root_cells h' rt' \<Longrightarrow> \<not> is_static_memory h' x \<Longrightarrow> x \<in> reached h rt"
    and "\<And>x n. x \<in> reached h rt \<Longrightarrow> n \<in> set (graph h' x) \<Longrightarrow> \<not> is_static_memory h' n \<Longrightarrow> n \<in> reached h rt"
  shows "reached h' rt' \<subseteq> reached h rt"
proof
  fix x assume "x \<in> reached h' rt'"
  then show "x \<in> reached h rt" by induction (use assms in blast)+
qed

lemma reached_cong:
  assumes "root_cells h' rt = root_cells h rt" "graph h' = graph h"
    "static_memory h' = static_memory h" "static_memory_size h' = static_memory_size h"
  shows "reached h' rt = reached h rt"
proof -
  have st: "is_static_memory h' x = is_static_memory h x" for x using assms by (simp add: is_static_memory_def)
  show ?thesis
    by (intro equalityI; rule reached_subset) (use assms st in \<open>auto intro: reached.intros\<close>)
qed

lemma whitened:
  "fold (\<lambda>a hs. hs(a := mark WHITE (hs a))) as hs a = (if a \<in> set as then new_header else hs a)"
  by (induction as arbitrary: hs) (auto simp: new_header_def)

lemma heap_inv_fields:
  "heap_inv (h\<lparr>headers := hs\<rparr>) = heap_inv h" "heap_inv (h\<lparr>m_iterations_since_last_sweep := n\<rparr>) = heap_inv h"
  "heap_inv (h\<lparr>m_pause := b\<rparr>) = heap_inv h" "heap_inv (h\<lparr>weakrefs := wr\<rparr>) = heap_inv h"
  "heap_inv (h\<lparr>m_allocate_in_static := b\<rparr>) = heap_inv h" "heap_inv (h\<lparr>m_frequency := n\<rparr>) = heap_inv h"
  by (simp_all add: heap_inv_def valid_target_def live_def is_static_memory_def static_region_def)

lemma roots_ok_fields:
  "roots_ok (h\<lparr>headers := hs\<rparr>) = roots_ok h" "roots_ok (h\<lparr>m_iterations_since_last_sweep := n\<rparr>) = roots_ok h"
  "roots_ok (h\<lparr>m_pause := b\<rparr>) = roots_ok h" "roots_ok (h\<lparr>weakrefs := wr\<rparr>) = roots_ok h"
  "roots_ok (h\<lparr>m_allocate_in_static := b\<rparr>) = roots_ok h" "roots_ok (h\<lparr>m_frequency := n\<rparr>) = roots_ok h"
  by (simp_all add: fun_eq_iff roots_ok_def valid_target_def live_def is_static_memory_def)

lemma live_fields [simp]:
  "live (h\<lparr>headers := hs\<rparr>) = live h" "live (h\<lparr>m_iterations_since_last_sweep := n\<rparr>) = live h"
  "live (h\<lparr>m_pause := b\<rparr>) = live h" "live (h\<lparr>weakrefs := wr\<rparr>) = live h"
  "live (h\<lparr>m_allocate_in_static := b\<rparr>) = live h" "live (h\<lparr>m_frequency := n\<rparr>) = live h"
  "live (h\<lparr>graph := g\<rparr>) = live h" "live (h\<lparr>static_offset := n\<rparr>) = live h"
  by (simp_all add: live_def)

lemma reached_fields:
  "reached (h\<lparr>headers := hs\<rparr>) rt = reached h rt"
  "reached (h\<lparr>m_iterations_since_last_sweep := n\<rparr>) rt = reached h rt"
  "reached (h\<lparr>m_pause := b\<rparr>) rt = reached h rt" "reached (h\<lparr>weakrefs := wr\<rparr>) rt = reached h rt"
  "reached (h\<lparr>m_allocate_in_static := b\<rparr>) rt = reached h rt"
  "reached (h\<lparr>m_frequency := n\<rparr>) rt = reached h rt"
  by (rule reached_cong; simp add: root_cells_def)+

lemma dead_objects_set:
  "set (dead_objects h) = {x \<in> live h. white (headers h (header_of x))}"
  by (force simp: dead_objects_def set_dead live_def slab_cells_def header_of_def)

lemma live_swept:
  "live ((bury ds h)\<lparr>h_slab := map (swept_block hs) (h_slab h)\<rparr>) = {x \<in> live h. \<not> white (hs (header_of x))}"
  by (auto simp: live_def slab_cells_swept header_of_def)

lemma vm_root_cell:
  "vs \<in> set (stack_objects rt) \<Longrightarrow> Object obj \<in> set vs \<Longrightarrow> obj \<noteq> 0 \<Longrightarrow> obj \<in> root_cells h rt"
  by (auto simp: root_cells_def)

lemma interpreter_root_cell: "obj \<in> set (interpreter_cells rt) \<Longrightarrow> obj \<in> root_cells h rt"
  by (auto simp: root_cells_def)

text \<open>The sweep after marking.\<close>

lemma sweep_collects:
  assumes ok: "heap_inv h" "roots_ok h rt"
    and marked: "\<And>x. x \<in> live h \<Longrightarrow> \<not> white (headers h (header_of x)) \<longleftrightarrow> x \<in> reached h rt"
  shows "\<exists>h'. sweep h = Ok h' \<and> collected h rt h' \<and> m_pause h' = m_pause h \<and> m_frequency h' = m_frequency h"
proof -
  let ?s = "map (swept_block (headers h)) (h_slab h)"
  let ?h = "(bury (dead_objects h) h)\<lparr>h_slab := ?s\<rparr>"
  have inn: "slab_in (h_memory h) [static_region h] (h_slab h)" using ok(1) by (simp add: heap_inv_def)
  then have cs: "chunks_ok (h_memory h) (slab_chunks (h_slab h))" using slab_in_ok by (auto simp: slab_ok_def)
  then have run: "sweep h = Ok ?h" by (intro sweep_eq) (simp add: chunks_ok_def)
  have live: "live ?h = reached h rt"
    unfolding live_swept using marked reached_valid [OF ok] by blast
  have dead: "set (dead_objects h) = live h - reached h rt" using dead_objects_set marked by auto
  have st: "is_static_memory ?h = is_static_memory h" "static_region ?h = static_region h"
    by (simp_all add: fun_eq_iff is_static_memory_def static_region_def)
  have heap: "heap_inv ?h"
    unfolding heap_inv_def valid_target_def live st
    using slab_in_swept [OF inn] ok(1) by (auto simp: heap_inv_def intro: reached.step)
  have roots: "root_cells ?h rt = root_cells h rt"
  proof -
    have cell: "p \<in> slab_cells ?s \<longleftrightarrow> p + gc_header_size \<in> reached h rt" for p
      using live live_iff [of p ?h] by simp
    have "unat (w - 8) \<in> slab_cells ?s \<longleftrightarrow> unat (w - 8) \<in> slab_cells (h_slab h)"
      if "w \<in> set (stack_words rt)" for w
    proof
      assume a: "unat (w - 8) \<in> slab_cells (h_slab h)"
      then have "unat (w - 8) + gc_header_size \<in> root_cells h rt" "unat (w - 8) + gc_header_size \<in> live h"
        using that by (auto simp: root_cells_def live_iff)
      then show "unat (w - 8) \<in> slab_cells ?s"
        using cell live_not_static [OF ok(1)] by (blast intro: reached.root)
    qed (simp add: slab_cells_swept)
    then show ?thesis unfolding root_cells_def by auto
  qed
  have "reached ?h rt = reached h rt" by (rule reached_cong [OF roots]) simp_all
  moreover have "roots_ok ?h rt"
    unfolding roots_ok_def valid_target_def live st using vm_root_cell interpreter_root_cell
    by (blast intro: reached.root)
  ultimately have "collected h rt ?h"
    using live dead heap distinct_dead_chunks [OF cs] unfolding collected_def
    by (simp add: dead_objects_def)
  then show ?thesis using run by simp
qed

lemma gc_run_collects:
  assumes ok: "heap_inv h" "roots_ok h rt" and due: "due h"
  shows "\<exists>h'. gc_run h rt = Ok h' \<and> collected h rt h' \<and> m_pause h' = m_pause h \<and>
     m_frequency h' = m_frequency h \<and> m_iterations_since_last_sweep h' = 0"
proof -
  let ?n = "(m_iterations_since_last_sweep h + 1) mod 2 ^ 64"
  let ?h0 = "h\<lparr>m_iterations_since_last_sweep := ?n\<rparr>"
  let ?h1 = "mark_all_cell_unreachable ?h0"
  have h1: "\<exists>hs. ?h1 = ?h0\<lparr>headers := hs\<rparr>" by (auto simp: mark_all_cell_unreachable_def)
  have ok1: "heap_inv ?h1" "roots_ok ?h1 rt" and eq1: "reached ?h1 rt = reached h rt" "live ?h1 = live h"
    using h1 ok by (auto simp: heap_inv_fields roots_ok_fields reached_fields)
  have white1: "headers ?h1 a = new_header" if "has_header ?h1 a" for a
    using that by (simp add: mark_all_cell_unreachable_def whitened has_header_def del: mark.simps)
  have wl: "white (headers ?h1 (header_of x))" if "x \<in> live ?h1" for x
    using white1 live_header [OF that] by (simp add: white_eq)
  obtain st where st: "collect_roots ?h1 rt (headers ?h1) = Ok st"
      "greys ?h1 (reached ?h1 rt) (headers ?h1, []) st"
      "\<forall>x \<in> root_cells ?h1 rt. \<not> is_static_memory ?h1 x \<longrightarrow> \<not> white (fst st (header_of x))"
    using collect_roots_greys [OF ok1, of "headers ?h1"] white1 by (auto simp: new_header_def)
  obtain new where new: "fst st = greyed new (headers ?h1)" "snd st = rev new" "distinct new"
      "\<forall>x \<in> set new. x \<in> reached ?h1 rt \<and> x \<in> live ?h1"
    using st(2) by (auto simp: greys_def)
  have colour: "fst st (header_of x) = (if x \<in> set new then (False, True) else new_header)"
    if "x \<in> live ?h1" for x
    using that white1 live_header [OF that] by (simp add: new(1) greyed_header [OF that])
  have val: "fst st a \<noteq> (True, False)" if "has_header ?h1 a" for a
    using white1 [OF that] by (simp add: new(1) greyed_def new_header_def)
  have "marking_ok ?h1 rt st"
    unfolding marking_ok_def new(2)
    using new(3,4) colour st(3) val by (auto simp: white_eq new_header_def)
  then obtain hs where hs: "mark_all_live_objects ?h1 st = Ok hs" "marking_ok ?h1 rt (hs, [])"
    using mark_all_live_objects_ok [OF ok1] by blast
  let ?h2 = "?h1\<lparr>headers := hs\<rparr>"
  have ok2: "heap_inv ?h2" "roots_ok ?h2 rt" and eq2: "reached ?h2 rt = reached h rt" "live ?h2 = live h"
    using ok1 eq1 by (simp_all add: heap_inv_fields roots_ok_fields reached_fields)
  have "\<not> white (headers ?h2 (header_of x)) \<longleftrightarrow> x \<in> reached ?h2 rt" if "x \<in> live ?h2" for x
    using marked_reached [OF ok1 hs(2), of x] that eq1 eq2 by simp
  from sweep_collects [OF ok2 this] obtain h' where
    h': "sweep ?h2 = Ok h'" "collected ?h2 rt h'" "m_pause h' = m_pause ?h2" "m_frequency h' = m_frequency ?h2"
    by blast
  let ?h' = "h'\<lparr>m_iterations_since_last_sweep := 0\<rparr>"
  have "gc_run h rt = Ok ?h'"
    using due st(1) hs(1) h'(1) by (simp add: gc_run_def due_def Let_def)
  moreover have "collected h rt ?h'"
    using h'(2) h1 eq2 unfolding collected_def
    by (auto simp: heap_inv_fields roots_ok_fields reached_fields)
  moreover have "m_pause ?h' = m_pause h" "m_frequency ?h' = m_frequency h"
    using h'(3,4) h1 by auto
  ultimately show ?thesis by auto
qed

lemma gc_run_not_due:
  "\<not> due h \<Longrightarrow> \<exists>n. gc_run h rt = Ok (h\<lparr>m_iterations_since_last_sweep := n\<rparr>)"
proof -
  assume "\<not> due h"
  then consider "m_pause h" | "\<not> m_pause h" "(m_iterations_since_last_sweep h + 1) mod 2 ^ 64 < m_frequency h"
    unfolding due_def by linarith
  then show ?thesis
  proof cases
    case 1
    then have "gc_run h rt = Ok (h\<lparr>m_iterations_since_last_sweep := m_iterations_since_last_sweep h\<rparr>)"
      by (simp add: gc_run_def)
    then show ?thesis by blast
  next
    case 2
    then show ?thesis by (auto simp: gc_run_def Let_def)
  qed
qed

section \<open>Allocation on the heap\<close>

text \<open>The collection that an allocation starts with.\<close>

definition maybe_collected :: "heap \<Rightarrow> roots \<Rightarrow> heap \<Rightarrow> bool" where
  "maybe_collected h rt h' \<longleftrightarrow> reached h rt \<subseteq> live h' \<and> live h' \<subseteq> live h \<and> graph h' = graph h \<and>
     heap_inv h' \<and> roots_ok h' rt \<and> reached h' rt = reached h rt \<and> h_memory h' = h_memory h \<and>
     static_memory h' = static_memory h \<and> static_memory_size h' = static_memory_size h \<and>
     m_allocate_in_static h' = m_allocate_in_static h"

lemma gc_run_ok:
  assumes "heap_inv h" "roots_ok h rt"
  shows "\<exists>h'. gc_run h rt = Ok h' \<and> maybe_collected h rt h'"
proof (cases "due h")
  case True
  obtain h' where "gc_run h rt = Ok h'" "collected h rt h'"
    using gc_run_collects [OF assms True] by blast
  then show ?thesis using reached_valid [OF assms] by (auto simp: collected_def maybe_collected_def)
next
  case False
  then show ?thesis using gc_run_not_due [OF False, of rt] assms reached_valid [OF assms]
    by (auto simp: maybe_collected_def heap_inv_fields roots_ok_fields reached_fields)
qed

lemma static_region_objects: "chunk_objects (static_region h) = {}"
  by (auto simp: chunk_objects_def cells_iff static_region_def chunk_create_def)

text \<open>An allocation: the new object is none of those there before the collection or after it; all
  reached objects stay; the new object may refer to static or reached objects.\<close>

definition heap_extends :: "heap \<Rightarrow> roots \<Rightarrow> nat list \<Rightarrow> heap \<Rightarrow> nat \<Rightarrow> bool" where
  "heap_extends h rt edges h' x \<longleftrightarrow>
     heap_inv h' \<and> roots_ok h' rt \<and> x \<notin> reached h rt \<and> x \<in> live h' \<and> reached h rt \<subseteq> live h' \<and>
     live h' - {x} \<subseteq> live h \<and> graph h' = (graph h)(x := edges) \<and>
     static_memory h' = static_memory h \<and> static_memory_size h' = static_memory_size h"

lemma allocate_cell_spec:
  assumes new: "new_ok new" and ok: "heap_inv h" "roots_ok h rt" and size: "bytes + gc_header_size \<le> 2048"
    and edges: "\<forall>n \<in> set edges. is_static_memory h n \<or> n \<in> reached h rt"
  shows "allocate_cell new h rt bytes edges = Err MemoryError \<or>
     (\<exists>h' x. allocate_cell new h rt bytes edges = Ok (h', x) \<and> heap_extends h rt edges h' x)"
proof -
  obtain h1 where h1: "gc_run h rt = Ok h1" "maybe_collected h rt h1" using gc_run_ok [OF ok] by blast
  then have in1: "slab_in (h_memory h1) [static_region h1] (h_slab h1)" and ok1: "heap_inv h1" "roots_ok h1 rt"
    by (auto simp: maybe_collected_def heap_inv_def)
  from slab_allocate_spec [OF new _ in1 size] static_region_objects
  consider "slab_allocate new (h_memory h1) (h_slab h1) bytes = Err MemoryError"
    | m s p where "slab_allocate new (h_memory h1) (h_slab h1) bytes = Ok (m, s, p)"
        "slab_takes (h_memory h1) [static_region h1] (h_slab h1) bytes m s p" by auto
  then show ?thesis
  proof cases
    case 1
    then show ?thesis using h1(1) by (simp add: allocate_cell_def collect_garbage_def)
  next
    case (2 m s p)
    let ?x = "p + gc_header_size"
    let ?h = "h1\<lparr>h_memory := m, h_slab := s, headers := (headers h1)(p := new_header),
                graph := (graph h1)(?x := edges)\<rparr>"
    have run: "allocate_cell new h rt bytes edges = Ok (?h, ?x)"
      using h1(1) 2(1) by (simp add: allocate_cell_def collect_garbage_def allocate_gc_def)
    have takes: "slab_in m [static_region h1] s" "p \<notin> slab_cells (h_slab h1)"
        "slab_cells s = insert p (slab_cells (h_slab h1))"
      using 2(2) by (auto simp: slab_takes_def slab_cells_objects)
    have live: "live ?h = insert ?x (live h1)" "?x \<notin> live h1"
      using takes by (simp_all add: live_def live_iff) (auto simp: live_def)
    have st: "is_static_memory ?h = is_static_memory h" "static_region ?h = static_region h1"
        "is_static_memory h1 = is_static_memory h"
      using h1(2) by (simp_all add: fun_eq_iff is_static_memory_def static_region_def maybe_collected_def)
    have reach: "reached h rt \<subseteq> live h1" using h1(2) by (simp add: maybe_collected_def)
    have "heap_inv ?h"
      unfolding heap_inv_def valid_target_def live st
      using takes(1) ok1(1) live(2) edges reach st(3) by (auto simp: heap_inv_def valid_target_def)
    moreover have "roots_ok ?h rt"
      using ok1(2) unfolding roots_ok_def valid_target_def live st by auto
    moreover have "live ?h - {?x} \<subseteq> live h" using live(1) h1(2) by (auto simp: maybe_collected_def)
    ultimately have "heap_extends h rt edges ?h ?x"
      using live reach h1(2) by (auto simp: heap_extends_def maybe_collected_def)
    then show ?thesis using run by blast
  qed
qed

section \<open>The program and the collector\<close>

lemma heap_create_fields:
  assumes "heap_create new m = Ok h"
  obtains m1 s p where "slab_create new m slab_sizes = Ok (m1, s)" "new m1 (1024 * 1024) = Some p"
    "h_slab h = s" "h_memory h = (p, 1024 * 1024) # m1" "static_memory h = p"
    "static_memory_size h = 1024 * 1024" "\<not> m_allocate_in_static h"
proof -
  obtain m1 s where s: "slab_create new m slab_sizes = Ok (m1, s)"
    using assms by (cases "slab_create new m slab_sizes") (auto simp: heap_create_def)
  moreover obtain p where "new m1 (1024 * 1024) = Some p"
    using assms s by (cases "new m1 (1024 * 1024)") (auto simp: heap_create_def)
  ultimately show ?thesis using assms by (intro that) (auto simp: heap_create_def)
qed

lemma heap_create_ok:
  assumes new: "new_ok new" and run: "heap_create new m = Ok h"
  shows "heap_inv h" and "live h = {}"
proof -
  obtain m1 s p where s: "slab_create new m slab_sizes = Ok (m1, s)" and p: "new m1 (1024 * 1024) = Some p"
      and h: "h_slab h = s" "h_memory h = (p, 1024 * 1024) # m1" "static_memory h = p"
        "static_memory_size h = 1024 * 1024"
    by (rule heap_create_fields [OF run])
  have ok: "slab_ok m1 s" and none: "slab_objects s = {}" using slab_create_ok [OF new s] by auto
  have seg: "0 < p" "\<forall>x \<in> set m1. span (p, 1024 * 1024) \<inter> span x = {}"
    using new p by (auto simp: new_ok_def)
  have region: "chunk_span (static_region h) = span (p, 1024 * 1024)"
    by (simp add: static_region_def chunk_span_def chunk_create_def span_def h)
  have "chunk_ok (static_region h)"
    using seg by (simp add: static_region_def chunk_create_def chunk_ok_def h)
  then have "chunks_ok (h_memory h) [static_region h]"
    by (simp add: chunks_ok_def region memory_span_def h)
  moreover have "chunks_ok (h_memory h) (slab_chunks s)"
    using ok by (simp add: slab_ok_def h chunks_ok_weaken)
  moreover have "chunk_span (static_region h) \<inter> chunk_span c = {}" if "c \<in> set (slab_chunks s)" for c
  proof -
    have "chunk_span c \<subseteq> memory_span m1" using ok that by (auto simp: slab_ok_def chunks_ok_def)
    then show ?thesis using seg(2) unfolding region memory_span_def by blast
  qed
  ultimately have "chunks_ok (h_memory h) ([static_region h] @ slab_chunks s)"
    unfolding chunks_ok_append by simp
  then have "slab_in (h_memory h) [static_region h] s"
    using ok unfolding slab_in_def slab_ok_def by blast
  moreover show "live h = {}" using none by (simp add: live_def slab_cells_objects h)
  ultimately show "heap_inv h" by (simp add: heap_inv_def h)
qed

text \<open>The moves of a program on the heap: it allocates objects that refer to objects it can reach and
  keeps the address on its stack, stores references in objects it can reach, changes its stack and
  what the virtual machine and the interpreter hold (again objects it can reach), pauses and
  resumes the collector, and calls it.\<close>

inductive heap_step :: "operator_new \<Rightarrow> heap \<times> roots \<Rightarrow> heap \<times> roots \<Rightarrow> bool" for new where
  alloc: "\<lbrakk> \<not> m_allocate_in_static h; bytes + extra + gc_header_size \<le> 2048;
      \<forall>n \<in> set edges. is_static_memory h n \<or> n \<in> reached h rt;
      allocate_with_extra_bytes new h rt bytes extra edges = Ok (h', x) \<rbrakk> \<Longrightarrow>
    heap_step new (h, rt) (h', rt\<lparr>stack_words := of_nat x # stack_words rt\<rparr>)"
| store: "\<lbrakk> x \<in> reached h rt; \<forall>n \<in> set edges. is_static_memory h n \<or> n \<in> reached h rt \<rbrakk> \<Longrightarrow>
    heap_step new (h, rt) (h\<lparr>graph := (graph h)(x := edges)\<rparr>, rt)"
| move: "\<lbrakk> \<forall>vs \<in> set (stack_objects rt'). \<forall>n. Object n \<in> set vs \<longrightarrow> n \<noteq> 0 \<longrightarrow>
        is_static_memory h n \<or> n \<in> reached h rt;
      \<forall>n \<in> set (interpreter_cells rt'). is_static_memory h n \<or> n \<in> reached h rt \<rbrakk> \<Longrightarrow>
    heap_step new (h, rt) (h, rt')"
| collect: "collect_garbage h rt = Ok h' \<Longrightarrow> heap_step new (h, rt) (h', rt)"
| pause_gc: "pause h = Ok h' \<Longrightarrow> heap_step new (h, rt) (h', rt)"
| resume_gc: "resume h = Ok h' \<Longrightarrow> heap_step new (h, rt) (h', rt)"
| frequency: "heap_step new (h, rt) (set_frequency n h, rt)"

inductive heap_reachable :: "operator_new \<Rightarrow> heap \<times> roots \<Rightarrow> bool" for new where
  start: "\<lbrakk> heap_create new m = Ok h; stack_objects rt = []; interpreter_cells rt = [] \<rbrakk> \<Longrightarrow>
    heap_reachable new (h, rt)"
| step: "\<lbrakk> heap_reachable new c; heap_step new c d \<rbrakk> \<Longrightarrow> heap_reachable new d"

lemma roots_ok_reached:
  assumes "\<forall>vs \<in> set (stack_objects rt'). \<forall>n. Object n \<in> set vs \<longrightarrow> n \<noteq> 0 \<longrightarrow>
        is_static_memory h n \<or> n \<in> live h"
    and "\<forall>n \<in> set (interpreter_cells rt'). is_static_memory h n \<or> n \<in> live h"
  shows "roots_ok h rt'"
  using assms by (simp add: roots_ok_def valid_target_def)

lemma heap_step_ok:
  assumes new: "new_ok new" and "heap_step new (h, rt) (h', rt')" and ok: "heap_inv h" "roots_ok h rt"
  shows "heap_inv h' \<and> roots_ok h' rt'"
  using assms(2)
proof cases
  case (alloc bytes extra edges x)
  have "\<exists>b. allocate_with_extra_bytes new h rt bytes extra edges = allocate_cell new h rt b edges \<and>
      b + gc_header_size \<le> 2048"
    using alloc(2,3) by (cases "extra = 0") (auto simp: allocate_with_extra_bytes_def heap_allocate_def)
  then obtain b where b: "allocate_cell new h rt b edges = Ok (h', x)" "b + gc_header_size \<le> 2048"
    using alloc by auto
  then have "heap_extends h rt edges h' x"
    using allocate_cell_spec [OF new ok b(2), of edges] alloc by auto
  then have "heap_inv h'" "roots_ok h' rt" by (auto simp: heap_extends_def)
  then show ?thesis using alloc by (auto simp: roots_ok_def)
next
  case (store x edges)
  have st: "is_static_memory (h\<lparr>graph := g\<rparr>) = is_static_memory h"
      "static_region (h\<lparr>graph := g\<rparr>) = static_region h" for g
    by (simp_all add: fun_eq_iff is_static_memory_def static_region_def)
  have "\<forall>n \<in> set edges. valid_target h n"
    using store reached_valid [OF ok] by (auto simp: valid_target_def)
  then show ?thesis
    using ok store by (auto simp: heap_inv_def roots_ok_def valid_target_def st)
next
  case move
  then show ?thesis using ok reached_valid [OF ok] by (auto intro!: roots_ok_reached)
next
  case collect
  then show ?thesis using gc_run_ok [OF ok] by (auto simp: collect_garbage_def maybe_collected_def)
next
  case pause_gc
  then show ?thesis using ok by (auto simp: pause_def result_simps heap_inv_fields roots_ok_fields)
next
  case resume_gc
  then show ?thesis using ok by (auto simp: resume_def result_simps heap_inv_fields roots_ok_fields)
next
  case (frequency n)
  then show ?thesis using ok by (auto simp: set_frequency_def heap_inv_fields roots_ok_fields)
qed

lemma heap_reachable_ok:
  assumes "new_ok new" "heap_reachable new c"
  shows "heap_inv (fst c) \<and> roots_ok (fst c) (snd c)"
  using assms(2)
proof induction
  case (start m h rt)
  then show ?case using heap_create_ok [OF assms(1) start(1)] by (simp add: roots_ok_def)
next
  case (step c d)
  then show ?case using heap_step_ok [OF assms(1), of "fst c" "snd c" "fst d" "snd d"] by simp
qed

section \<open>Properties\<close>

text \<open>C20: when a collection is due it returns, without a failed assertion or an access outside the
  slab; afterwards the objects are exactly those the roots reach; each of the others has been
  destroyed once and its weak references are gone, and the reached objects and their weak
  references are unchanged.\<close>

theorem collection_exact:
  assumes "heap_inv h" "roots_ok h rt" "due h"
  shows "\<exists>h' ds. gc_run h rt = Ok h' \<and> live h' = reached h rt \<and>
     destroyed h' = destroyed h @ ds \<and> distinct ds \<and> set ds = live h - reached h rt \<and>
     (\<forall>x. weakrefs h' x = (if x \<in> live h - reached h rt then None else weakrefs h x)) \<and>
     graph h' = graph h \<and> heap_inv h'"
  using gc_run_collects [OF assms] by (auto simp: collected_def)

definition no_roots :: roots where
  "no_roots = \<lparr>stack_words = [], stack_objects = [], interpreter_cells = []\<rparr>"

lemma heap_demo:
  "\<exists>h h' x. heap_create next_new [] = Ok h \<and>
     allocate_with_extra_bytes next_new h no_roots 40 0 [] = Ok (h', x) \<and> heap_inv h' \<and> live h' = {x} \<and>
     destroyed h' = [] \<and> \<not> m_pause h' \<and> m_iterations_since_last_sweep h' = 1"
proof -
  obtain m s where s: "slab_create next_new [] slab_sizes = Ok (m, s)" "next_new m (1024 * 1024) \<noteq> None"
      "\<And>m1. \<exists>m' s' p. slab_allocate next_new m1 s 40 = Ok (m', s', p)"
    using slab_demo by blast
  then obtain h where h: "heap_create next_new [] = Ok h" "h_slab h = s" "\<not> m_allocate_in_static h"
      "\<not> m_pause h" "m_iterations_since_last_sweep h = 0" "m_frequency h = 10000" "destroyed h = []"
    by (auto simp: heap_create_def)
  have ok: "heap_inv h" "live h = {}" using heap_create_ok [OF next_new_ok h(1)] by auto
  have rok: "roots_ok h no_roots" by (simp add: roots_ok_def no_roots_def)
  let ?h1 = "h\<lparr>m_iterations_since_last_sweep := 1\<rparr>"
  have "gc_run h no_roots = Ok ?h1" using h by (simp add: gc_run_def Let_def)
  moreover obtain m' s' p where "slab_allocate next_new (h_memory h) s 40 = Ok (m', s', p)"
    using s(3) by blast
  ultimately obtain h' x where run: "allocate_cell next_new h no_roots 40 [] = Ok (h', x)" and
      f: "destroyed h' = []" "\<not> m_pause h'" "m_iterations_since_last_sweep h' = 1"
    using h by (auto simp: allocate_cell_def collect_garbage_def allocate_gc_def)
  have "heap_extends h no_roots [] h' x"
    using allocate_cell_spec [OF next_new_ok ok(1) rok, of 40 "[]"] run by (auto simp: gc_header_size_def)
  then have "heap_inv h'" "live h' = {x}" using ok(2) by (auto simp: heap_extends_def)
  moreover have "allocate_with_extra_bytes next_new h no_roots 40 0 [] = Ok (h', x)"
    using run h(3) by (simp add: allocate_with_extra_bytes_def heap_allocate_def)
  ultimately show ?thesis using h(1) f by blast
qed

theorem collection_exact_witness:
  "\<exists>h h' x. live h = {x} \<and> gc_run h no_roots = Ok h' \<and> live h' = {} \<and> destroyed h' = [x]"
proof -
  obtain h1 x where h1: "heap_inv h1" "live h1 = {x}" "destroyed h1 = []" "\<not> m_pause h1"
      "m_iterations_since_last_sweep h1 = 1"
    using heap_demo by blast
  let ?h = "set_frequency 1 h1"
  have "heap_inv ?h" "due ?h" "live ?h = {x}" "destroyed ?h = []"
    using h1 by (simp_all add: set_frequency_def heap_inv_fields due_def)
  moreover have "roots_ok ?h no_roots" "root_cells ?h no_roots = {}"
    by (auto simp: roots_ok_def root_cells_def no_roots_def)
  moreover have none: "reached ?h no_roots = {}"
    using reached_subset [of ?h no_roots ?h no_roots] \<open>root_cells ?h no_roots = {}\<close>
    by (auto elim: reached.induct)
  ultimately obtain h' ds where "gc_run ?h no_roots = Ok h'" "live h' = {}" "destroyed h' = ds"
      "distinct ds" "set ds = {x}"
    using collection_exact [of ?h no_roots] by auto
  moreover have "ds = [x]"
    using \<open>distinct ds\<close> \<open>set ds = {x}\<close>
    by (metis distinct_card card.empty card.insert empty_iff finite.emptyI length_0_conv length_Suc_conv
        list.set_intros(1) singletonD One_nat_def)
  ultimately show ?thesis using \<open>live ?h = {x}\<close> by blast
qed



end
