(* ===== verification/Liveness.thy ===== *)
theory Liveness
  imports Prelude
begin

text \<open>
  The backward liveness analysis of the bytecode register allocator
  (\<^verbatim>\<open>src/src/executable/mlir/Target/PythonBytecode/LiveAnalysis.hpp\<close>,
  \<^verbatim>\<open>RegisterAllocationTypes.hpp\<close>). A function is the list of its blocks in the order of
  \<^verbatim>\<open>getBlocksSortedByDominance\<close> with their operations in the order of
  \<^verbatim>\<open>sortTopologically\<close>, both of MLIR; an MLIR value is the address of its implementation.
\<close>

section \<open>Functions\<close>

text \<open>\<^verbatim>\<open>std::variant<mlir::Value, ForwardedOutput>\<close>.\<close>

datatype ir_value = Value nat | ForwardedOutput nat nat

text \<open>\<^verbatim>\<open>ValueMappingComparator\<close>.\<close>

instantiation ir_value :: linorder
begin

definition less_ir_value :: "ir_value \<Rightarrow> ir_value \<Rightarrow> bool" where
  "less_ir_value lhs rhs =
     (case lhs of
        Value a \<Rightarrow> (case rhs of Value b \<Rightarrow> a < b | ForwardedOutput p j \<Rightarrow> True)
      | ForwardedOutput o1 i \<Rightarrow>
          (case rhs of Value b \<Rightarrow> False | ForwardedOutput p j \<Rightarrow> o1 < p \<or> (o1 = p \<and> i < j)))"

definition less_eq_ir_value :: "ir_value \<Rightarrow> ir_value \<Rightarrow> bool" where
  "less_eq_ir_value lhs rhs = (lhs < rhs \<or> lhs = rhs)"

instance
  by standard (auto simp: less_ir_value_def less_eq_ir_value_def split: ir_value.splits)

end

datatype op_kind =
  FunctionCall | FunctionCallEx | FunctionCallWithKeywords | WithExceptStart | Yield | YieldFrom |
  GetIter | ForIter | JumpIfFalse | Branch | OtherOp

record operation =
  op_id :: nat
  kind :: op_kind
  operands :: "nat list"
  results :: "nat list"
  is_pure :: bool

text \<open>\<open>successors\<close> pairs a block with the operands passed to its arguments: for \<open>ForIter\<close> the body
  comes first.\<close>

record basic_block =
  arguments :: "nat list"
  ops :: "operation list"
  successors :: "(nat \<times> nat list) list"

type_synonym func = "basic_block list"

definition func_ops :: "func \<Rightarrow> operation list" where
  "func_ops fn = concat (map ops fn)"

definition defining_op :: "func \<Rightarrow> nat \<Rightarrow> operation option" where
  "defining_op fn v = find (\<lambda>p. v \<in> set (results p)) (func_ops fn)"

definition is_function_call :: "func \<Rightarrow> nat \<Rightarrow> bool" where
  "is_function_call fn v =
     (case defining_op fn v of
        None \<Rightarrow> False
      | Some p \<Rightarrow> kind p \<in> {FunctionCall, FunctionCallEx, FunctionCallWithKeywords})"

definition clobbers_r0 :: "func \<Rightarrow> nat \<Rightarrow> bool" where
  "clobbers_r0 fn v =
     (case defining_op fn v of
        None \<Rightarrow> False
      | Some p \<Rightarrow> is_function_call fn v \<or> kind p \<in> {WithExceptStart, Yield, YieldFrom})"

section \<open>Use and definition sets\<close>

record block_info =
  bi_use :: "ir_value set"
  bi_def :: "ir_value set"
  bi_forwarded :: "ir_value list"

definition add_operation :: "operation \<Rightarrow> block_info \<Rightarrow> block_info" where
  "add_operation p info =
     (let info1 = info\<lparr>bi_use := bi_use info \<union> {v \<in> Value ` set (operands p). v \<notin> bi_def info}\<rparr>
      in info1\<lparr>bi_def := bi_def info1 \<union> Value ` set (results p)\<rparr>)"

text \<open>\<open>handle_terminator\<close> and its three handlers: the values passed to block arguments, and what a
  \<open>ForIter\<close> forwards.\<close>

definition handle_conditional_branch :: "func \<Rightarrow> basic_block \<Rightarrow> (ir_value \<times> nat) list" where
  "handle_conditional_branch fn b =
     concat (map (\<lambda>(s, ps). zip (map Value ps) (arguments (fn ! s))) (take 2 (successors b)))"

definition handle_unconditional_branch :: "func \<Rightarrow> basic_block \<Rightarrow> (ir_value \<times> nat) list" where
  "handle_unconditional_branch fn b =
     (case successors b of
        [] \<Rightarrow> []
      | (s, ps) # _ \<Rightarrow> zip (map Value ps) (arguments (fn ! s)))"

definition handle_for_iter ::
  "func \<Rightarrow> basic_block \<Rightarrow> operation \<Rightarrow> ir_value list \<times> (ir_value \<times> nat) list" where
  "handle_for_iter fn b for_iter =
     (let loop_var = ForwardedOutput (op_id for_iter) 0 in
      case successors b of
        [] \<Rightarrow> ([], [])
      | (body, _) # _ \<Rightarrow> ([loop_var], [(loop_var, arguments (fn ! body) ! 0)]))"

definition handle_terminator ::
  "func \<Rightarrow> basic_block \<Rightarrow> ir_value list \<times> (ir_value \<times> nat) list" where
  "handle_terminator fn b =
     (if ops b = [] then ([], [])
      else let terminator = last (ops b) in
        case kind terminator of
          JumpIfFalse \<Rightarrow> ([], handle_conditional_branch fn b)
        | Branch \<Rightarrow> ([], handle_unconditional_branch fn b)
        | ForIter \<Rightarrow> handle_for_iter fn b terminator
        | _ \<Rightarrow> ([], []))"

definition build_block_info :: "func \<Rightarrow> basic_block \<Rightarrow> block_info" where
  "build_block_info fn b =
     (let info = fold add_operation (ops b) \<lparr>bi_use = {}, bi_def = {}, bi_forwarded = []\<rparr>
      in info\<lparr>bi_forwarded := fst (handle_terminator fn b)\<rparr>)"

definition block_parameters_to_args :: "func \<Rightarrow> (ir_value \<times> nat) list" where
  "block_parameters_to_args fn = concat (map (\<lambda>b. snd (handle_terminator fn b)) fn)"

section \<open>The data flow equations\<close>

text \<open>\<open>live_in\<close> and \<open>live_out\<close> of every block.\<close>

record liveness =
  live_in :: "nat \<Rightarrow> ir_value set"
  live_out :: "nat \<Rightarrow> ir_value set"

definition no_liveness :: liveness where
  "no_liveness = \<lparr>live_in = \<lambda>_. {}, live_out = \<lambda>_. {}\<rparr>"

definition update_block :: "func \<Rightarrow> nat \<Rightarrow> liveness \<Rightarrow> liveness" where
  "update_block fn b l =
     (let info = build_block_info fn (fn ! b);
          out = (\<Union>s \<in> fst ` set (successors (fn ! b)). live_in l s);
          inn = bi_use info \<union> (out - bi_def info) \<union> set (bi_forwarded info)
      in \<lparr>live_in = (live_in l)(b := inn), live_out = (live_out l)(b := out)\<rparr>)"

text \<open>One round over the blocks from the last to the first, with the flag \<^verbatim>\<open>changed\<close>.\<close>

fun liveness_round :: "func \<Rightarrow> nat list \<Rightarrow> liveness \<Rightarrow> bool \<Rightarrow> liveness \<times> bool" where
  "liveness_round fn [] l changed = (l, changed)"
| "liveness_round fn (b # bs) l changed =
     (let l' = update_block fn b l
      in liveness_round fn bs l' (changed \<or> live_in l' b \<noteq> live_in l b))"

partial_function (option) liveness_loop :: "func \<Rightarrow> liveness \<Rightarrow> liveness option" where
  "liveness_loop fn l =
     (case liveness_round fn (rev [0 ..< length fn]) l False of (l', changed) \<Rightarrow>
        if changed then liveness_loop fn l' else Some l')"

definition compute_liveness :: "func \<Rightarrow> liveness option" where
  "compute_liveness fn = liveness_loop fn no_liveness"

section \<open>Time steps\<close>

text \<open>Backwards through the operations of a block: what is alive before each.\<close>

fun alive_before_op :: "operation list \<Rightarrow> ir_value set \<Rightarrow> ir_value set list" where
  "alive_before_op [] alive_after = []"
| "alive_before_op (p # ps) alive_after =
     (let rest = alive_before_op ps alive_after;
          after = (case rest of [] \<Rightarrow> alive_after | a # _ \<Rightarrow> a)
      in ((after - Value ` set (results p)) \<union> Value ` set (operands p)) # rest)"

definition keep_results :: "operation \<Rightarrow> ir_value set \<Rightarrow> ir_value set" where
  "keep_results p alive = (if \<not> is_pure p then alive \<union> Value ` set (results p) else alive)"

definition add_forwarded :: "ir_value set \<Rightarrow> ir_value list \<Rightarrow> ir_value set list \<Rightarrow> ir_value set list" where
  "add_forwarded inn fwd alive =
     (case alive of [] \<Rightarrow> [] | a # as \<Rightarrow> (a \<union> {f \<in> set fwd. f \<in> inn}) # as)"

definition block_timesteps :: "func \<Rightarrow> liveness \<Rightarrow> nat \<Rightarrow> ir_value set list" where
  "block_timesteps fn l b =
     (let info = build_block_info fn (fn ! b);
          alive = alive_before_op (ops (fn ! b)) (live_out l b)
      in add_forwarded (live_in l b) (bi_forwarded info) (map2 keep_results (ops (fn ! b)) alive))"

datatype alive_value = Alive ir_value | BlockArgumentInputs nat "ir_value list"

text \<open>The values of one step in the order of the set, and the steps of all blocks in order.\<close>

definition build_timesteps :: "func \<Rightarrow> liveness \<Rightarrow> alive_value list list" where
  "build_timesteps fn l =
     map (\<lambda>s. map Alive (sorted_list_of_set s)) (concat (map (block_timesteps fn l) [0 ..< length fn]))"

definition block_span :: "func \<Rightarrow> nat \<Rightarrow> nat \<times> nat" where
  "block_span fn b =
     (let start = length (concat (map ops (take b fn))) in (start, start + length (ops (fn ! b))))"

section \<open>Block arguments\<close>

text \<open>The block that owns an argument; which arguments a value flows into.\<close>

definition argument_owner :: "func \<Rightarrow> nat \<Rightarrow> nat option" where
  "argument_owner fn arg = find (\<lambda>b. arg \<in> set (arguments (fn ! b))) [0 ..< length fn]"

type_synonym input_mappings = "ir_value \<Rightarrow> nat set"

definition propagate_value ::
  "ir_value \<Rightarrow> nat \<Rightarrow> alive_value \<Rightarrow> input_mappings \<Rightarrow> alive_value \<times> input_mappings" where
  "propagate_value param arg val m =
     (case val of
        Alive v \<Rightarrow>
          if v = Value arg then (BlockArgumentInputs arg [param], m(param := insert arg (m param)))
          else (val, m)
      | BlockArgumentInputs a inputs \<Rightarrow>
          if a = arg then (BlockArgumentInputs a (inputs @ [param]), m(param := insert arg (m param)))
          else (val, m))"

fun propagate_values ::
  "ir_value \<Rightarrow> nat \<Rightarrow> alive_value list \<Rightarrow> input_mappings \<Rightarrow> alive_value list \<times> input_mappings" where
  "propagate_values param arg [] m = ([], m)"
| "propagate_values param arg (v # vs) m =
     (case propagate_value param arg v m of (v', m1) \<Rightarrow>
      case propagate_values param arg vs m1 of (vs', m2) \<Rightarrow> (v' # vs', m2))"

fun propagate_steps ::
  "ir_value \<Rightarrow> nat \<Rightarrow> alive_value list list \<Rightarrow> input_mappings \<Rightarrow> alive_value list list \<times> input_mappings" where
  "propagate_steps param arg [] m = ([], m)"
| "propagate_steps param arg (ts # tss) m =
     (case propagate_values param arg ts m of (ts', m1) \<Rightarrow>
      case propagate_steps param arg tss m1 of (tss', m2) \<Rightarrow> (ts' # tss', m2))"

fun propagate_block_arguments ::
  "func \<Rightarrow> (ir_value \<times> nat) list \<Rightarrow> alive_value list list \<Rightarrow> input_mappings
     \<Rightarrow> (alive_value list list \<times> input_mappings) py_result" where
  "propagate_block_arguments fn [] steps m = Ok (steps, m)"
| "propagate_block_arguments fn ((param, arg) # ps) steps m =
     (case argument_owner fn arg of
        None \<Rightarrow> Abort Undefined
      | Some b \<Rightarrow>
          (case block_span fn b of (start, stop) \<Rightarrow>
           case propagate_steps param arg (take (stop - start) (drop start steps)) m of (mid, m') \<Rightarrow>
             propagate_block_arguments fn ps (take start steps @ mid @ drop stop steps) m'))"

text \<open>The chain from a value through the arguments it flows into; it may never end, when an argument
  flows into itself.\<close>

partial_function (option) follow_chain ::
  "ir_value \<Rightarrow> ir_value \<Rightarrow> input_mappings \<Rightarrow> (ir_value \<times> input_mappings) py_result option" where
  "follow_chain start v m =
     (if m v = {} then Some (Ok (v, m))
      else if card (m v) \<noteq> 1 then Some (Abort Assertion)
      else let arg = Min (m v);
               m' = m(start := insert arg (m start - {Min (m start)}))
           in follow_chain start (Value arg) m')"

definition resolve_value ::
  "alive_value \<Rightarrow> input_mappings \<Rightarrow> (alive_value \<times> input_mappings) py_result option" where
  "resolve_value val m =
     (let v = (case val of Alive v \<Rightarrow> v | BlockArgumentInputs arg _ \<Rightarrow> Value arg) in
      map_option (\<lambda>r. and_then r (\<lambda>(v', m'). Ok (Alive v', m'))) (follow_chain v v m))"

text \<open>\<^verbatim>\<open>for (auto &value : values | std::views::reverse)\<close>: the last one first.\<close>

fun resolve_values ::
  "alive_value list \<Rightarrow> input_mappings \<Rightarrow> (alive_value list \<times> input_mappings) py_result option" where
  "resolve_values [] m = Some (Ok ([], m))"
| "resolve_values (v # vs) m =
     (case resolve_values vs m of
        Some (Ok (vs', m1)) \<Rightarrow>
          (case resolve_value v m1 of
             Some (Ok (v', m2)) \<Rightarrow> Some (Ok (v' # vs', m2))
           | Some (Err e) \<Rightarrow> Some (Err e) | Some (Abort a) \<Rightarrow> Some (Abort a) | None \<Rightarrow> None)
      | Some (Err e) \<Rightarrow> Some (Err e) | Some (Abort a) \<Rightarrow> Some (Abort a) | None \<Rightarrow> None)"

fun resolve_block_argument_chains ::
  "alive_value list list \<Rightarrow> input_mappings
     \<Rightarrow> (alive_value list list \<times> input_mappings) py_result option" where
  "resolve_block_argument_chains [] m = Some (Ok ([], m))"
| "resolve_block_argument_chains (ts # tss) m =
     (case resolve_block_argument_chains tss m of
        Some (Ok (tss', m1)) \<Rightarrow>
          (case resolve_values ts m1 of
             Some (Ok (ts', m2)) \<Rightarrow> Some (Ok (ts' # tss', m2))
           | Some (Err e) \<Rightarrow> Some (Err e) | Some (Abort a) \<Rightarrow> Some (Abort a) | None \<Rightarrow> None)
      | Some (Err e) \<Rightarrow> Some (Err e) | Some (Abort a) \<Rightarrow> Some (Abort a) | None \<Rightarrow> None)"

definition live_analyse :: "func \<Rightarrow> (alive_value list list \<times> input_mappings) py_result option" where
  "live_analyse fn =
     (case compute_liveness fn of
        None \<Rightarrow> None
      | Some l \<Rightarrow>
          (case propagate_block_arguments fn (block_parameters_to_args fn) (build_timesteps fn l) (\<lambda>_. {}) of
             Ok (steps, m) \<Rightarrow> resolve_block_argument_chains steps m
           | Err e \<Rightarrow> Some (Err e)
           | Abort a \<Rightarrow> Some (Abort a)))"

end
