(* ===== verification/Linear_Scan.thy ===== *)
theory Linear_Scan
  imports Liveness "HOL-Library.Multiset"
begin

text \<open>
  Live intervals and the linear scan register allocator
  (\<^verbatim>\<open>src/src/executable/mlir/Target/PythonBytecode/LiveIntervalAnalysis.hpp\<close>,
  \<^verbatim>\<open>LinearScanRegisterAllocation.hpp\<close>). The 32 registers are bits of a list; \<^verbatim>\<open>value2mem_map\<close>
  only ever holds registers. \<^verbatim>\<open>std::sort\<close> may order equal elements in any way and is a
  parameter; the instructions inserted around an operation are recorded. A missing key in
  \<^verbatim>\<open>map::at\<close>, an exception that nothing catches, is \<open>Abort NotReached\<close>.
\<close>

section \<open>Live intervals\<close>

record live_interval =
  intervals :: "(nat \<times> nat) list"
  ivalue :: ir_value

definition li_start :: "live_interval \<Rightarrow> nat" where
  "li_start li = fst (hd (intervals li))"

definition li_end :: "live_interval \<Rightarrow> nat" where
  "li_end li = snd (last (intervals li))"

definition alive_at :: "live_interval \<Rightarrow> nat \<Rightarrow> bool" where
  "alive_at li pos \<longleftrightarrow> pos \<ge> li_start li \<and> pos < li_end li"

definition overlaps :: "live_interval \<Rightarrow> live_interval \<Rightarrow> bool" where
  "overlaps li other \<longleftrightarrow>
     list_ex (\<lambda>(start, stop). list_ex (\<lambda>(other_start, other_stop).
       (other_start \<ge> start \<and> other_start \<le> stop) \<or> (other_stop \<ge> start \<and> other_stop \<le> stop))
       (intervals other)) (intervals li)"

definition extend_interval :: "nat \<Rightarrow> live_interval \<Rightarrow> live_interval" where
  "extend_interval timestep li =
     (let (start, stop) = last (intervals li)
      in if timestep = stop
         then li\<lparr>intervals := butlast (intervals li) @ [(start, stop + 1)]\<rparr>
         else li\<lparr>intervals := intervals li @ [(timestep, timestep + 1)]\<rparr>)"

fun update_value :: "nat \<Rightarrow> ir_value \<Rightarrow> live_interval list \<Rightarrow> live_interval list" where
  "update_value timestep value [] = [\<lparr>intervals = [(timestep, timestep + 1)], ivalue = value\<rparr>]"
| "update_value timestep value (li # lis) =
     (if ivalue li = value then extend_interval timestep li # lis
      else li # update_value timestep value lis)"

definition values_to_track :: "alive_value \<Rightarrow> ir_value list" where
  "values_to_track alive = (case alive of Alive v \<Rightarrow> [v] | BlockArgumentInputs arg inputs \<Rightarrow> inputs)"

definition update_interval :: "nat \<Rightarrow> alive_value \<Rightarrow> live_interval list \<Rightarrow> live_interval list" where
  "update_interval timestep alive lis = fold (update_value timestep) (values_to_track alive) lis"

fun collect_intervals :: "nat \<Rightarrow> alive_value list list \<Rightarrow> live_interval list \<Rightarrow> live_interval list" where
  "collect_intervals timestep [] lis = lis"
| "collect_intervals timestep (ts # tss) lis =
     collect_intervals (timestep + 1) tss (fold (update_interval timestep) ts lis)"

text \<open>The inverted mapping: what flows into an argument, in the order of the keys.\<close>

type_synonym flows_in = "ir_value \<Rightarrow> ir_value list"

definition invert_mappings :: "ir_value list \<Rightarrow> input_mappings \<Rightarrow> flows_in" where
  "invert_mappings params m el =
     filter (\<lambda>key. el \<in> Value ` m key) (sorted_list_of_set (set params))"

type_synonym sorter = "live_interval list \<Rightarrow> live_interval list"

definition sorts :: "sorter \<Rightarrow> bool" where
  "sorts srt \<longleftrightarrow> (\<forall>xs. mset (srt xs) = mset xs \<and> sorted (map li_start (srt xs)))"

definition interval_analyse ::
  "sorter \<Rightarrow> func \<Rightarrow> (live_interval list \<times> flows_in) py_result option" where
  "interval_analyse srt fn =
     map_option (\<lambda>r. and_then r (\<lambda>(steps, m).
       Ok (srt (collect_intervals 0 steps []),
           invert_mappings (map fst (block_parameters_to_args fn)) m))) (live_analyse fn)"

section \<open>The allocator\<close>

text \<open>\<^verbatim>\<open>std::multiset\<close> ordered by the end: a new element goes behind the equal ones.\<close>

fun set_insert :: "live_interval \<Rightarrow> live_interval list \<Rightarrow> live_interval list" where
  "set_insert i [] = [i]"
| "set_insert i (j # js) = (if li_end i < li_end j then i # j # js else j # set_insert i js)"

record scan =
  value2mem :: "ir_value \<Rightarrow> nat option"
  foriter_reserved_regs :: "ir_value \<Rightarrow> nat option"
  active :: "live_interval list"
  inactive :: "live_interval list"
  handled :: "live_interval list"
  free :: "bool list"
  emitted :: "(nat \<times> nat \<times> nat) list"

definition scan_start :: scan where
  "scan_start =
     \<lparr>value2mem = \<lambda>_. None, foriter_reserved_regs = \<lambda>_. None, active = [], inactive = [],
      handled = [], free = replicate 32 True, emitted = []\<rparr>"

definition op_by_id :: "func \<Rightarrow> nat \<Rightarrow> operation option" where
  "op_by_id fn n = find (\<lambda>p. op_id p = n) (func_ops fn)"

text \<open>The iterator of the \<open>ForIter\<close> that forwards a value, if it is one.\<close>

definition for_iter_iterator :: "func \<Rightarrow> nat \<Rightarrow> nat option" where
  "for_iter_iterator fn n =
     (case op_by_id fn n of
        Some p \<Rightarrow> if kind p = ForIter then Some (operands p ! 0) else None
      | None \<Rightarrow> None)"

definition is_block_argument :: "func \<Rightarrow> nat \<Rightarrow> bool" where
  "is_block_argument fn v \<longleftrightarrow> argument_owner fn v \<noteq> None"

definition needs_r0 :: "func \<Rightarrow> flows_in \<Rightarrow> ir_value \<Rightarrow> bool" where
  "needs_r0 fn im value \<longleftrightarrow>
     (case value of Value v \<Rightarrow> clobbers_r0 fn v | ForwardedOutput _ _ \<Rightarrow> False) \<or>
     list_ex (\<lambda>mapped. case mapped of Value v \<Rightarrow> clobbers_r0 fn v | ForwardedOutput _ _ \<Rightarrow> False) (im value)"

fun preallocate_r0 :: "func \<Rightarrow> flows_in \<Rightarrow> live_interval list \<Rightarrow> scan \<Rightarrow> scan" where
  "preallocate_r0 fn im [] s = s"
| "preallocate_r0 fn im (i # is) s =
     preallocate_r0 fn im is
       (if needs_r0 fn im (ivalue i)
        then s\<lparr>value2mem := (value2mem s)(ivalue i := Some 0), inactive := set_insert i (inactive s)\<rparr>
        else s)"

definition free_register :: "live_interval \<Rightarrow> scan \<Rightarrow> scan py_result" where
  "free_register i s =
     (case value2mem s (ivalue i) of
        None \<Rightarrow> Abort NotReached
      | Some r \<Rightarrow>
          let s1 = s\<lparr>free := (free s)[r := True]\<rparr>
          in case foriter_reserved_regs s1 (ivalue i) of
               None \<Rightarrow> Ok s1
             | Some q \<Rightarrow>
                 Ok (s1\<lparr>free := (free s1)[q := True],
                        foriter_reserved_regs := (foriter_reserved_regs s1)(ivalue i := None)\<rparr>))"

definition mark_register_used :: "live_interval \<Rightarrow> scan \<Rightarrow> scan py_result" where
  "mark_register_used i s =
     (case value2mem s (ivalue i) of
        None \<Rightarrow> Abort NotReached
      | Some r \<Rightarrow>
          assert_that (free s ! r)
            (let s1 = s\<lparr>free := (free s)[r := False]\<rparr>
             in case foriter_reserved_regs s1 (ivalue i) of
                  None \<Rightarrow> Ok s1
                | Some q \<Rightarrow> Ok (s1\<lparr>free := (free s1)[q := False]\<rparr>)))"

text \<open>The two loops of \<open>expire_old_intervals\<close>; they return what stays in the set.\<close>

fun expire_active :: "live_interval \<Rightarrow> live_interval list \<Rightarrow> scan \<Rightarrow> (live_interval list \<times> scan) py_result" where
  "expire_active cur [] s = Ok ([], s)"
| "expire_active cur (i # is) s =
     assert_that (ivalue i \<noteq> ivalue cur)
       (if li_end i < li_start cur then
          and_then (free_register i (s\<lparr>handled := set_insert i (handled s)\<rparr>)) (expire_active cur is)
        else if \<not> alive_at i (li_start cur) then
          and_then (free_register i (s\<lparr>inactive := set_insert i (inactive s)\<rparr>)) (expire_active cur is)
        else and_then (expire_active cur is s) (\<lambda>(kept, s'). Ok (i # kept, s')))"

fun reactivate :: "live_interval \<Rightarrow> live_interval list \<Rightarrow> scan \<Rightarrow> (live_interval list \<times> scan) py_result" where
  "reactivate cur [] s = Ok ([], s)"
| "reactivate cur (i # is) s =
     (if ivalue i = ivalue cur then reactivate cur is (s\<lparr>active := set_insert i (active s)\<rparr>)
      else if li_end i < li_start cur then reactivate cur is (s\<lparr>handled := set_insert i (handled s)\<rparr>)
      else if alive_at i (li_start cur) then
        and_then (mark_register_used i (s\<lparr>active := set_insert i (active s)\<rparr>)) (reactivate cur is)
      else and_then (reactivate cur is s) (\<lambda>(kept, s'). Ok (i # kept, s')))"

definition expire_old_intervals :: "live_interval \<Rightarrow> scan \<Rightarrow> scan py_result" where
  "expire_old_intervals cur s =
     and_then (expire_active cur (active s) (s\<lparr>active := []\<rparr>)) (\<lambda>(kept, s1).
     and_then (reactivate cur (inactive s1) (s1\<lparr>active := kept, inactive := []\<rparr>)) (\<lambda>(kept', s2).
       Ok (s2\<lparr>inactive := kept'\<rparr>)))"

definition exclude_overlapping :: "live_interval \<Rightarrow> scan \<Rightarrow> live_interval list \<Rightarrow> bool list \<Rightarrow> bool list" where
  "exclude_overlapping cur s is available =
     fold (\<lambda>i available. case value2mem s (ivalue i) of
              Some r \<Rightarrow> available[r := False] | None \<Rightarrow> available)
       (filter (\<lambda>i. overlaps i cur) is) available"

definition apply_special_constraints ::
  "func \<Rightarrow> flows_in \<Rightarrow> live_interval \<Rightarrow> scan \<Rightarrow> bool list \<Rightarrow> bool list" where
  "apply_special_constraints fn im cur s available =
     (case ivalue cur of
        Value v \<Rightarrow>
          (case defining_op fn v of
             Some p \<Rightarrow> if kind p = GetIter then available[0 := False] else available
           | None \<Rightarrow> available)
      | ForwardedOutput n _ \<Rightarrow>
          (case for_iter_iterator fn n of
             None \<Rightarrow> available
           | Some it \<Rightarrow>
               let iterator_reg =
                     (case value2mem s (Value it) of
                        Some r \<Rightarrow> Some r
                      | None \<Rightarrow> case List.map_filter (value2mem s) (im (Value it)) of
                                 [] \<Rightarrow> None | r # _ \<Rightarrow> Some r)
               in case iterator_reg of Some r \<Rightarrow> available[r := False] | None \<Rightarrow> available))"

definition collect_available_registers ::
  "func \<Rightarrow> flows_in \<Rightarrow> live_interval \<Rightarrow> scan \<Rightarrow> live_interval list \<Rightarrow> bool list" where
  "collect_available_registers fn im cur s unhandled =
     apply_special_constraints fn im cur s
       (exclude_overlapping cur s unhandled (exclude_overlapping cur s (inactive s) (free s)))"

fun first_set :: "nat \<Rightarrow> bool list \<Rightarrow> nat option" where
  "first_set i [] = None"
| "first_set i (b # bs) = (if b then Some i else first_set (Suc i) bs)"

text \<open>The operation around which a conflict is resolved.\<close>

fun clobbering_input :: "func \<Rightarrow> ir_value list \<Rightarrow> nat option py_result" where
  "clobbering_input fn [] = Ok None"
| "clobbering_input fn (ForwardedOutput n k # ms) = Abort Assertion"
| "clobbering_input fn (Value v # ms) = (if clobbers_r0 fn v then Ok (Some v) else clobbering_input fn ms)"

definition handle_register_conflict ::
  "func \<Rightarrow> flows_in \<Rightarrow> live_interval \<Rightarrow> nat \<Rightarrow> bool list \<Rightarrow> scan \<Rightarrow> scan py_result" where
  "handle_register_conflict fn im cur cur_reg available s =
     (case first_set 1 (tl available) of
        None \<Rightarrow> Abort Assertion
      | Some scratch_reg \<Rightarrow>
          (case ivalue cur of
             ForwardedOutput _ _ \<Rightarrow> Ok s
           | Value v \<Rightarrow>
               and_then
                 (if is_block_argument fn v
                  then and_then (clobbering_input fn (im (ivalue cur))) (\<lambda>r.
                         Ok (case r of Some w \<Rightarrow> w | None \<Rightarrow> v))
                  else Ok v)
                 (\<lambda>current_value.
                    assert_that (\<not> is_block_argument fn current_value)
                      (Ok (s\<lparr>emitted := emitted s @ [(current_value, cur_reg, scratch_reg)],
                             value2mem := (value2mem s)(ivalue cur := Some scratch_reg)\<rparr>)))))"

text \<open>The reservation of the register of the iterator for a loop variable.\<close>

definition reserve_iterator :: "func \<Rightarrow> ir_value \<Rightarrow> ir_value \<Rightarrow> scan \<Rightarrow> scan" where
  "reserve_iterator fn value input s =
     (case input of
        Value _ \<Rightarrow> s
      | ForwardedOutput n _ \<Rightarrow>
          (case for_iter_iterator fn n of
             None \<Rightarrow> s
           | Some it \<Rightarrow>
               (case value2mem s (Value it) of
                  None \<Rightarrow> s
                | Some r \<Rightarrow>
                    s\<lparr>foriter_reserved_regs := (foriter_reserved_regs s)(value := Some r),
                      free := (free s)[r := False]\<rparr>)))"

definition allocate_register ::
  "func \<Rightarrow> flows_in \<Rightarrow> live_interval \<Rightarrow> bool list \<Rightarrow> scan \<Rightarrow> scan py_result" where
  "allocate_register fn im cur available s =
     (case (case value2mem s (ivalue cur) of
              Some r \<Rightarrow> Some (r, s)
            | None \<Rightarrow> (case first_set 0 available of
                         Some i \<Rightarrow> Some (i, s\<lparr>value2mem := (value2mem s)(ivalue cur := Some i)\<rparr>)
                       | None \<Rightarrow> None)) of
        None \<Rightarrow> Abort Assertion
      | Some (cur_reg, s1) \<Rightarrow>
          and_then
            (if \<not> free s1 ! cur_reg then handle_register_conflict fn im cur cur_reg available s1
             else Ok (s1\<lparr>free := (free s1)[cur_reg := False]\<rparr>))
            (\<lambda>s2.
               let s3 = s2\<lparr>active := set_insert cur (active s2)\<rparr>
               in case ivalue cur of
                    Value v \<Rightarrow>
                      if is_block_argument fn v
                      then Ok (fold (reserve_iterator fn (ivalue cur)) (im (ivalue cur)) s3)
                      else Ok s3
                  | ForwardedOutput _ _ \<Rightarrow> Ok s3))"

fun scan_loop :: "func \<Rightarrow> flows_in \<Rightarrow> live_interval list \<Rightarrow> scan \<Rightarrow> scan py_result" where
  "scan_loop fn im [] s = Ok s"
| "scan_loop fn im (cur # unhandled) s =
     and_then (expire_old_intervals cur s) (\<lambda>s1.
       let available = collect_available_registers fn im cur s1 unhandled
       in if list_all Not available then Abort Todo
          else and_then (allocate_register fn im cur available s1) (scan_loop fn im unhandled))"

definition linear_scan :: "func \<Rightarrow> flows_in \<Rightarrow> live_interval list \<Rightarrow> scan py_result" where
  "linear_scan fn im unhandled =
     assert_that (sorted (map li_start unhandled))
       (scan_loop fn im unhandled (preallocate_r0 fn im unhandled scan_start))"

definition propagate_register_assignments ::
  "flows_in \<Rightarrow> ir_value list \<Rightarrow> scan \<Rightarrow> scan" where
  "propagate_register_assignments im values s =
     (let keys = filter (\<lambda>v. value2mem s v \<noteq> None) (sorted_list_of_set (set values));
          additional = fold (\<lambda>v m. fold (\<lambda>w m. m(w := value2mem s v)) (im v) m) keys (\<lambda>_. None)
      in s\<lparr>value2mem := (\<lambda>v. case value2mem s v of Some r \<Rightarrow> Some r | None \<Rightarrow> additional v)\<rparr>)"

definition allocate_registers :: "sorter \<Rightarrow> func \<Rightarrow> scan py_result option" where
  "allocate_registers srt fn =
     map_option (\<lambda>r. and_then r (\<lambda>(lis, im).
       and_then (linear_scan fn im lis) (\<lambda>s.
         Ok (propagate_register_assignments im (map ivalue lis) s)))) (interval_analyse srt fn)"

end
