(* ===== verification/Liveness_Props.thy ===== *)
theory Liveness_Props
  imports Liveness
begin

text \<open>
  The data flow loop ends and computes exactly the values with a later use on some path; the steps
  record them before every operation.
\<close>

section \<open>The reference\<close>

definition func_ok :: "func \<Rightarrow> bool" where
  "func_ok fn \<longleftrightarrow>
     (\<forall>b < length fn. ops (fn ! b) \<noteq> [] \<and> (\<forall>s \<in> fst ` set (successors (fn ! b)). s < length fn))"

text \<open>\<open>needed fn b i v\<close>: on some path from operation \<open>i\<close> of block \<open>b\<close> there is a use of \<open>v\<close> and no
  operation before it defines \<open>v\<close>.\<close>

inductive needed :: "func \<Rightarrow> nat \<Rightarrow> nat \<Rightarrow> nat \<Rightarrow> bool" for fn where
  used: "\<lbrakk> b < length fn; i < length (ops (fn ! b)); v \<in> set (operands (ops (fn ! b) ! i)) \<rbrakk> \<Longrightarrow>
    needed fn b i v"
| later: "\<lbrakk> b < length fn; Suc i < length (ops (fn ! b)); needed fn b (Suc i) v;
      v \<notin> set (results (ops (fn ! b) ! i)) \<rbrakk> \<Longrightarrow> needed fn b i v"
| across: "\<lbrakk> b < length fn; Suc i = length (ops (fn ! b)); s \<in> fst ` set (successors (fn ! b));
      needed fn s 0 v; v \<notin> set (results (ops (fn ! b) ! i)) \<rbrakk> \<Longrightarrow> needed fn b i v"

section \<open>Use and definition sets\<close>

fun uses :: "operation list \<Rightarrow> ir_value set" where
  "uses [] = {}"
| "uses (p # ps) = Value ` set (operands p) \<union> (uses ps - Value ` set (results p))"

fun defs :: "operation list \<Rightarrow> ir_value set" where
  "defs [] = {}"
| "defs (p # ps) = Value ` set (results p) \<union> defs ps"

lemma add_operations:
  "bi_use (fold add_operation ps info) = bi_use info \<union> (uses ps - bi_def info)"
  "bi_def (fold add_operation ps info) = bi_def info \<union> defs ps"
  by (induction ps arbitrary: info) (auto simp: add_operation_def Let_def)

lemma block_info_sets [simp]:
  "bi_use (build_block_info fn b) = uses (ops b)" "bi_def (build_block_info fn b) = defs (ops b)"
  by (simp_all add: build_block_info_def Let_def add_operations)

lemma alive_before_op_nth:
  "i < length ps \<Longrightarrow> alive_before_op ps out ! i = uses (drop i ps) \<union> (out - defs (drop i ps))"
proof (induction ps arbitrary: i)
  case (Cons p ps)
  have len: "length (alive_before_op ps out) = length ps" for ps
    by (induction ps) (simp_all add: Let_def)
  show ?case
  proof (cases i)
    case 0
    show ?thesis
    proof (cases ps)
      case Nil
      then show ?thesis using 0 by auto
    next
      case (Cons q qs)
      then have "alive_before_op ps out ! 0 = uses ps \<union> (out - defs ps)"
        using Cons.IH [of 0] by simp
      moreover have "alive_before_op ps out \<noteq> []" using Cons len [of ps] by (metis length_0_conv list.distinct(1))
      ultimately show ?thesis
        using 0 by (cases "alive_before_op ps out") (auto simp: Let_def)
    qed
  next
    case (Suc j)
    then show ?thesis using Cons by (simp add: Let_def)
  qed
qed simp

lemma length_alive_before_op [simp]: "length (alive_before_op ps out) = length ps"
  by (induction ps) (simp_all add: Let_def)

section \<open>The data flow loop\<close>

text \<open>The right-hand side of the equation of a block.\<close>

definition flow :: "func \<Rightarrow> (nat \<Rightarrow> ir_value set) \<Rightarrow> nat \<Rightarrow> ir_value set" where
  "flow fn f b =
     uses (ops (fn ! b)) \<union> ((\<Union>s \<in> fst ` set (successors (fn ! b)). f s) - defs (ops (fn ! b))) \<union>
     set (bi_forwarded (build_block_info fn (fn ! b)))"

inductive live_entry :: "func \<Rightarrow> nat \<Rightarrow> ir_value \<Rightarrow> bool" for fn where
  gen: "\<lbrakk> b < length fn; v \<in> uses (ops (fn ! b)) \<union> set (bi_forwarded (build_block_info fn (fn ! b))) \<rbrakk> \<Longrightarrow>
    live_entry fn b v"
| pass: "\<lbrakk> b < length fn; s \<in> fst ` set (successors (fn ! b)); live_entry fn s v; v \<notin> defs (ops (fn ! b)) \<rbrakk> \<Longrightarrow>
    live_entry fn b v"

lemma flow_mono: "(\<And>s. f s \<subseteq> g s) \<Longrightarrow> flow fn f b \<subseteq> flow fn g b"
  unfolding flow_def by blast

lemma update_block_in: "live_in (update_block fn b l) = (live_in l)(b := flow fn (live_in l) b)"
  by (auto simp: update_block_def Let_def flow_def)

lemma update_block_out:
  "live_out (update_block fn b l) =
     (live_out l)(b := (\<Union>s \<in> fst ` set (successors (fn ! b)). live_in l s))"
  by (simp add: update_block_def Let_def)

text \<open>What every round keeps: the sets only grow, below the reference.\<close>

definition rising :: "func \<Rightarrow> liveness \<Rightarrow> bool" where
  "rising fn l \<longleftrightarrow>
     (\<forall>b. live_in l b \<subseteq> {v. live_entry fn b v}) \<and> (\<forall>b < length fn. live_in l b \<subseteq> flow fn (live_in l) b)"

lemma rising_update:
  assumes "rising fn l" "b < length fn"
  shows "rising fn (update_block fn b l)" and "live_in l a \<subseteq> live_in (update_block fn b l) a"
proof -
  let ?f = "live_in l" and ?g = "live_in (update_block fn b l)"
  have grow: "?f s \<subseteq> ?g s" for s using assms by (auto simp: update_block_in rising_def)
  then show "?f a \<subseteq> ?g a" .
  have "flow fn ?f b \<subseteq> {v. live_entry fn b v}"
    using assms unfolding rising_def flow_def by (auto intro: live_entry.intros)
  then have "\<forall>c. ?g c \<subseteq> {v. live_entry fn c v}"
    using assms(1) by (auto simp: update_block_in rising_def)
  moreover have "?g c \<subseteq> flow fn ?g c" if "c < length fn" for c
  proof -
    have "flow fn ?f c \<subseteq> flow fn ?g c" using grow by (rule flow_mono)
    moreover have "live_in l c \<subseteq> flow fn ?f c" using assms(1) that by (simp add: rising_def)
    ultimately show ?thesis using update_block_in [of fn b l] by (cases "c = b") auto
  qed
  ultimately show "rising fn (update_block fn b l)" by (simp add: rising_def)
qed

lemma liveness_round_spec:
  assumes "rising fn l" "\<forall>b \<in> set bs. b < length fn" "liveness_round fn bs l changed = (l', changed')"
  shows "rising fn l' \<and> (\<forall>a. live_in l a \<subseteq> live_in l' a) \<and> (changed \<longrightarrow> changed') \<and>
     (\<not> changed' \<longrightarrow> live_in l' = live_in l \<and>
        (\<forall>b \<in> set bs. live_in l b = flow fn (live_in l) b \<and>
           live_out l' b = (\<Union>s \<in> fst ` set (successors (fn ! b)). live_in l s))) \<and>
     (changed' \<and> \<not> changed \<longrightarrow> live_in l' \<noteq> live_in l) \<and>
     (\<forall>b. b \<notin> set bs \<longrightarrow> live_out l' b = live_out l b)"
  using assms
proof (induction bs arbitrary: l changed)
  case Nil
  then show ?case by simp
next
  case (Cons b bs)
  let ?l = "update_block fn b l" and ?c = "changed \<or> live_in (update_block fn b l) b \<noteq> live_in l b"
  have b: "b < length fn" and bs: "\<forall>b \<in> set bs. b < length fn" using Cons.prems by auto
  have run: "liveness_round fn bs ?l ?c = (l', changed')" using Cons.prems(3) by (simp add: Let_def)
  note IH = Cons.IH [OF rising_update(1) [OF Cons.prems(1) b] bs run]
  have grow: "live_in l a \<subseteq> live_in ?l a" for a using rising_update(2) [OF Cons.prems(1) b] .
  then have all: "\<forall>a. live_in l a \<subseteq> live_in l' a" using IH by (meson order_trans)
  have same: "live_in ?l = live_in l" if "\<not> ?c"
    using that by (auto simp: update_block_in fun_eq_iff)
  have quiet: "live_in l' = live_in l \<and> (\<forall>a \<in> set (b # bs). live_in l a = flow fn (live_in l) a \<and>
      live_out l' a = (\<Union>s \<in> fst ` set (successors (fn ! a)). live_in l s))" if "\<not> changed'"
  proof -
    have nc: "\<not> ?c" using IH that by blast
    then have s: "live_in ?l = live_in l" by (rule same)
    have fix_b: "live_in l b = flow fn (live_in l) b" using nc by (simp add: update_block_in)
    have out_b: "live_out ?l b = (\<Union>s \<in> fst ` set (successors (fn ! b)). live_in l s)"
      by (simp add: update_block_out)
    show ?thesis using IH that s fix_b out_b by (cases "b \<in> set bs") auto
  qed
  have differs: "live_in l' \<noteq> live_in l" if "changed'" "\<not> changed"
  proof (cases "?c")
    case True
    then obtain v where "v \<in> live_in ?l b" "v \<notin> live_in l b" using True \<open>\<not> changed\<close> grow [of b] by blast
    then show ?thesis using IH by (metis subsetD)
  next
    case False
    then show ?thesis using IH that same by metis
  qed
  have outs: "live_out l' a = live_out l a" if "a \<notin> set (b # bs)" for a
    using IH that by (simp add: update_block_out)
  show ?case using IH all quiet differs outs by blast
qed

text \<open>The values that can occur at all, and the measure of the loop.\<close>

definition universe :: "func \<Rightarrow> ir_value set" where
  "universe fn = (\<Union>b \<in> {..< length fn}. uses (ops (fn ! b)) \<union>
     set (bi_forwarded (build_block_info fn (fn ! b))))"

lemma finite_universe: "finite (universe fn)"
proof -
  have "finite (uses ps)" for ps by (induction ps) auto
  then show ?thesis by (simp add: universe_def)
qed

lemma live_entry_universe: "live_entry fn b v \<Longrightarrow> b < length fn \<and> v \<in> universe fn"
  by (induction rule: live_entry.induct) (auto simp: universe_def)

definition room :: "func \<Rightarrow> liveness \<Rightarrow> nat" where
  "room fn l = card ({(b, v). b < length fn \<and> v \<in> universe fn} - {(b, v). v \<in> live_in l b})"

lemma room_decreases:
  assumes "rising fn l'" "\<forall>a. live_in l a \<subseteq> live_in l' a" "live_in l' \<noteq> live_in l"
  shows "room fn l' < room fn l"
proof -
  let ?U = "{(b, v). b < length fn \<and> v \<in> universe fn}"
  have "?U = {..< length fn} \<times> universe fn" by auto
  then have fin: "finite ?U" using finite_universe by simp
  obtain b v where bv: "v \<in> live_in l' b" "v \<notin> live_in l b"
    using assms(2,3) by (metis ext subset_antisym subsetI)
  then have "live_entry fn b v" using assms(1) by (auto simp: rising_def)
  then have "(b, v) \<in> ?U" using live_entry_universe by blast
  then have "?U - {(b, v). v \<in> live_in l' b} \<subset> ?U - {(b, v). v \<in> live_in l b}"
    using assms(2) bv by auto
  then show ?thesis unfolding room_def using fin by (intro psubset_card_mono) auto
qed

lemma liveness_loop_spec:
  assumes "rising fn l"
  shows "\<exists>l'. liveness_loop fn l = Some l' \<and> rising fn l' \<and>
     (\<forall>b < length fn. live_in l' b = flow fn (live_in l') b \<and>
        live_out l' b = (\<Union>s \<in> fst ` set (successors (fn ! b)). live_in l' s))"
  using assms
proof (induction "room fn l" arbitrary: l rule: less_induct)
  case less
  obtain l1 changed where run: "liveness_round fn (rev [0 ..< length fn]) l False = (l1, changed)"
    by fastforce
  note spec = liveness_round_spec [OF less.prems _ run]
  show ?case
  proof (cases changed)
    case True
    have "room fn l1 < room fn l" using room_decreases spec True by auto
    from less.hyps [OF this] spec obtain l' where "liveness_loop fn l1 = Some l'" "rising fn l' \<and>
     (\<forall>b < length fn. live_in l' b = flow fn (live_in l') b \<and>
        live_out l' b = (\<Union>s \<in> fst ` set (successors (fn ! b)). live_in l' s))" by auto
    then show ?thesis using run True by (subst liveness_loop.simps) simp
  next
    case False
    then have "liveness_loop fn l = Some l1" using run by (subst liveness_loop.simps) simp
    then show ?thesis using spec False by auto
  qed
qed

lemma fixpoint_above:
  assumes "\<And>b. b < length fn \<Longrightarrow> f b = flow fn f b" "live_entry fn b v"
  shows "v \<in> f b"
  using assms(2)
proof induction
  case (gen b v)
  then show ?case using assms(1) [of b] by (auto simp: flow_def)
next
  case (pass b s v)
  then show ?case using assms(1) [of b] by (auto simp: flow_def)
qed

lemma compute_liveness_spec:
  "\<exists>l. compute_liveness fn = Some l \<and>
     (\<forall>b < length fn. live_in l b = {v. live_entry fn b v} \<and>
        live_out l b = (\<Union>s \<in> fst ` set (successors (fn ! b)). live_in l s)) \<and>
     (\<forall>b. live_in l b \<subseteq> {v. live_entry fn b v})"
proof -
  have "rising fn no_liveness" by (simp add: rising_def no_liveness_def)
  from liveness_loop_spec [OF this] obtain l where l: "compute_liveness fn = Some l" "rising fn l"
      "\<forall>b < length fn. live_in l b = flow fn (live_in l) b \<and>
        live_out l b = (\<Union>s \<in> fst ` set (successors (fn ! b)). live_in l s)"
    by (auto simp: compute_liveness_def)
  have "live_in l b = {v. live_entry fn b v}" if "b < length fn" for b
    using l(2) fixpoint_above [of fn "live_in l" b] l(3) by (auto simp: rising_def)
  then show ?thesis using l by (auto simp: rising_def)
qed

section \<open>The steps\<close>

lemma uses_needed:
  assumes "b < length fn" "i \<le> length (ops (fn ! b))" "Value v \<in> uses (drop i (ops (fn ! b)))"
  shows "needed fn b i v"
  using assms(2,3)
proof (induction "length (ops (fn ! b)) - i" arbitrary: i)
  case 0
  then show ?case by simp
next
  case (Suc n)
  then have i: "i < length (ops (fn ! b))" by simp
  then have drop: "drop i (ops (fn ! b)) = ops (fn ! b) ! i # drop (Suc i) (ops (fn ! b))"
    by (simp add: Cons_nth_drop_Suc)
  show ?case
  proof (cases "v \<in> set (operands (ops (fn ! b) ! i))")
    case True
    then show ?thesis using assms(1) i by (intro needed.used)
  next
    case False
    then have v: "Value v \<in> uses (drop (Suc i) (ops (fn ! b)))" "v \<notin> set (results (ops (fn ! b) ! i))"
      using Suc.prems(2) by (auto simp: drop)
    then have "drop (Suc i) (ops (fn ! b)) \<noteq> []" by auto
    then have "Suc i < length (ops (fn ! b))" by simp
    moreover from this have "needed fn b (Suc i) v"
      using Suc.hyps(1) [of "Suc i"] Suc.hyps(2) v(1) by simp
    ultimately show ?thesis using v(2) by (rule needed.later [OF assms(1)])
  qed
qed

lemma across_needed:
  assumes b: "b < length fn" and s: "s \<in> fst ` set (successors (fn ! b))" "needed fn s 0 v"
    and i: "i < length (ops (fn ! b))" "Value v \<notin> defs (drop i (ops (fn ! b)))"
  shows "needed fn b i v"
  using i
proof (induction "length (ops (fn ! b)) - i" arbitrary: i)
  case 0
  then show ?case by simp
next
  case (Suc n)
  then have drop: "drop i (ops (fn ! b)) = ops (fn ! b) ! i # drop (Suc i) (ops (fn ! b))"
    by (simp add: Cons_nth_drop_Suc)
  then have v: "v \<notin> set (results (ops (fn ! b) ! i))" "Value v \<notin> defs (drop (Suc i) (ops (fn ! b)))"
    using Suc.prems(2) by auto
  show ?case
  proof (cases "Suc i = length (ops (fn ! b))")
    case True
    then show ?thesis using s v(1) by (rule needed.across [OF b])
  next
    case False
    then have "Suc i < length (ops (fn ! b))" using Suc.prems(1) by simp
    moreover from this have "needed fn b (Suc i) v"
      using Suc.hyps(1) [of "Suc i"] Suc.hyps(2) v(2) by simp
    ultimately show ?thesis using v(1) by (rule needed.later [OF b])
  qed
qed

lemma live_entry_needed:
  assumes ok: "func_ok fn" and "live_entry fn b w" "w = Value v"
  shows "needed fn b 0 v"
  using assms(2,3)
proof induction
  case (gen b w)
  have "Value v \<notin> set (bi_forwarded (build_block_info fn (fn ! b)))"
    by (auto simp: build_block_info_def handle_terminator_def handle_for_iter_def Let_def
        split: if_splits op_kind.splits list.splits)
  then show ?case using gen uses_needed [of b fn 0 v] by auto
next
  case (pass b s w)
  then show ?case using ok across_needed [of b fn s v 0] by (auto simp: func_ok_def)
qed

lemma needed_live_entry:
  "needed fn b i v \<Longrightarrow> Value v \<in> uses (drop i (ops (fn ! b))) \<or>
     (Value v \<notin> defs (drop i (ops (fn ! b))) \<and>
      (\<exists>s \<in> fst ` set (successors (fn ! b)). live_entry fn s (Value v)))"
proof (induction rule: needed.induct)
  case (used b i v)
  then show ?case by (simp add: Cons_nth_drop_Suc [symmetric])
next
  case (later b i v)
  then show ?case by (auto simp: Cons_nth_drop_Suc [symmetric])
next
  case (across b i s v)
  then have "s < length fn" by (auto elim: needed.cases)
  then have "live_entry fn s (Value v)"
    using across.IH by (auto intro: live_entry.intros)
  then show ?case using across by (auto simp: Cons_nth_drop_Suc [symmetric])
qed

lemma needed_iff:
  assumes ok: "func_ok fn" and b: "b < length fn" and i: "i < length (ops (fn ! b))"
  shows "needed fn b i v \<longleftrightarrow> Value v \<in> uses (drop i (ops (fn ! b))) \<union>
     ((\<Union>s \<in> fst ` set (successors (fn ! b)). {w. live_entry fn s w}) - defs (drop i (ops (fn ! b))))"
  using needed_live_entry [of fn b i v] uses_needed [OF b, of i v] across_needed [OF b _ _ i, of _ v]
    live_entry_needed [OF ok] i by auto

lemma forwarded_not_value: "Value v \<notin> set (bi_forwarded (build_block_info fn b))"
  by (auto simp: build_block_info_def handle_terminator_def handle_for_iter_def Let_def
      split: if_splits op_kind.splits list.splits)

lemma add_forwarded_Value:
  "\<forall>v. Value v \<notin> set fwd \<Longrightarrow> i < length alive \<Longrightarrow>
   Value v \<in> add_forwarded inn fwd alive ! i \<longleftrightarrow> Value v \<in> alive ! i"
  by (cases alive; cases i) (auto simp: add_forwarded_def)

lemma length_add_forwarded [simp]: "length (add_forwarded inn fwd alive) = length alive"
  by (cases alive) (auto simp: add_forwarded_def)

lemma length_block_timesteps [simp]: "length (block_timesteps fn l b) = length (ops (fn ! b))"
  by (simp add: block_timesteps_def Let_def)

text \<open>C25: The data flow loop always ends; a value is in the step of an operation exactly when some path
  from that operation uses it before redefining it, or when the operation has side effects and
  produces it.\<close>

theorem liveness_exact:
  assumes "func_ok fn"
  shows "\<exists>l. compute_liveness fn = Some l \<and>
    (\<forall>b i v. b < length fn \<longrightarrow> i < length (ops (fn ! b)) \<longrightarrow>
       (Value v \<in> block_timesteps fn l b ! i \<longleftrightarrow>
          needed fn b i v \<or> (\<not> is_pure (ops (fn ! b) ! i) \<and> v \<in> set (results (ops (fn ! b) ! i)))))"
proof -
  obtain l where run: "compute_liveness fn = Some l" and eqs:
     "(\<forall>b < length fn. live_in l b = {v. live_entry fn b v} \<and>
        live_out l b = (\<Union>s \<in> fst ` set (successors (fn ! b)). live_in l s)) \<and>
      (\<forall>b. live_in l b \<subseteq> {v. live_entry fn b v})"
    using compute_liveness_spec [of fn] by (elim exE conjE) (rule that; assumption?; simp)
  note l = run eqs [THEN conjunct1, rule_format, THEN conjunct1]
    eqs [THEN conjunct1, rule_format, THEN conjunct2]
  have "Value v \<in> block_timesteps fn l b ! i \<longleftrightarrow>
          needed fn b i v \<or> (\<not> is_pure (ops (fn ! b) ! i) \<and> v \<in> set (results (ops (fn ! b) ! i)))"
    if b: "b < length fn" and i: "i < length (ops (fn ! b))" for b i v
  proof -
    have out: "live_out l b = (\<Union>s \<in> fst ` set (successors (fn ! b)). {w. live_entry fn s w})"
      using l(2,3) b assms by (auto simp: func_ok_def)
    show ?thesis
      using i forwarded_not_value
      by (auto simp: block_timesteps_def Let_def add_forwarded_Value keep_results_def
          alive_before_op_nth needed_iff [OF assms b i] out)
  qed
  then show ?thesis using l(1) by blast
qed

definition demo_op :: "nat \<Rightarrow> op_kind \<Rightarrow> nat list \<Rightarrow> nat list \<Rightarrow> operation" where
  "demo_op n k us ds = \<lparr>op_id = n, kind = k, operands = us, results = ds, is_pure = True\<rparr>"

definition demo_func :: func where
  "demo_func =
     [\<lparr>arguments = [], ops = [demo_op 0 OtherOp [] [7], demo_op 1 Branch [] []], successors = [(1, [])]\<rparr>,
      \<lparr>arguments = [], ops = [demo_op 2 JumpIfFalse [7] []], successors = [(1, []), (0, [])]\<rparr>]"

theorem liveness_exact_witness:
  "\<exists>l. compute_liveness demo_func = Some l \<and> Value 7 \<in> block_timesteps demo_func l 0 ! 1"
proof -
  have "func_ok demo_func" by (simp add: func_ok_def demo_func_def All_less_Suc)
  then obtain l where l: "compute_liveness demo_func = Some l"
      "\<And>b i v. b < length demo_func \<Longrightarrow> i < length (ops (demo_func ! b)) \<Longrightarrow>
       (Value v \<in> block_timesteps demo_func l b ! i \<longleftrightarrow> needed demo_func b i v \<or>
          (\<not> is_pure (ops (demo_func ! b) ! i) \<and> v \<in> set (results (ops (demo_func ! b) ! i))))"
    using liveness_exact [of demo_func] by blast
  have "needed demo_func 1 0 7" by (rule needed.used) (simp_all add: demo_func_def demo_op_def)
  then have "needed demo_func 0 1 7"
    by (rule needed.across [rotated 3]) (simp_all add: demo_func_def demo_op_def)
  then show ?thesis using l by (auto simp: demo_func_def)
qed

end
