(* ===== verification/Linear_Scan_Props.thy ===== *)
theory Linear_Scan_Props
  imports Linear_Scan Liveness_Props
begin

text \<open>
  The intervals cover exactly the steps in which a value is alive, and the allocator gives values
  that are alive at the same time different registers as long as it meets no conflict over register
  0 and reserves no iterator; with either of them it need not, as two runs show.
\<close>

section \<open>Intervals\<close>

definition covered :: "live_interval \<Rightarrow> nat set" where
  "covered li = (\<Union>(s, e) \<in> set (intervals li). {s ..< e})"

text \<open>\<open>A\<close> maps a step to the values recorded for it; \<open>t\<close> is the step being recorded.\<close>

definition li_ok :: "nat \<Rightarrow> (nat \<Rightarrow> ir_value set) \<Rightarrow> live_interval \<Rightarrow> bool" where
  "li_ok t A li \<longleftrightarrow> intervals li \<noteq> [] \<and> li_start li < li_end li \<and> li_end li \<le> Suc t \<and>
     (\<forall>(s, e) \<in> set (intervals li). li_start li \<le> s \<and> s < e \<and> e \<le> li_end li) \<and>
     covered li = {u. ivalue li \<in> A u}"

definition lis_ok :: "nat \<Rightarrow> (nat \<Rightarrow> ir_value set) \<Rightarrow> live_interval list \<Rightarrow> bool" where
  "lis_ok t A lis \<longleftrightarrow> distinct (map ivalue lis) \<and> (\<forall>li \<in> set lis. li_ok t A li) \<and>
     (\<forall>u. A u \<subseteq> ivalue ` set lis) \<and> (\<forall>u > t. A u = {})"

definition record_all :: "nat \<Rightarrow> ir_value set \<Rightarrow> (nat \<Rightarrow> ir_value set) \<Rightarrow> nat \<Rightarrow> ir_value set" where
  "record_all t S A = (\<lambda>u. if u = t then A u \<union> S else A u)"

abbreviation record_at :: "nat \<Rightarrow> ir_value \<Rightarrow> (nat \<Rightarrow> ir_value set) \<Rightarrow> nat \<Rightarrow> ir_value set" where
  "record_at t v \<equiv> record_all t {v}"

lemma record_all_twice: "record_all t R (record_all t S A) = record_all t (S \<union> R) A"
  by (auto simp: record_all_def fun_eq_iff)

lemma record_all_none [simp]: "record_all t {} A = A"
  by (simp add: record_all_def fun_eq_iff)

lemma covered_alive: "li_ok t A li \<Longrightarrow> u \<in> covered li \<Longrightarrow> alive_at li u"
proof -
  assume ok: "li_ok t A li" and "u \<in> covered li"
  then obtain s e where "(s, e) \<in> set (intervals li)" "s \<le> u" "u < e" by (auto simp: covered_def)
  moreover from this have "li_start li \<le> s \<and> e \<le> li_end li" using ok by (auto simp: li_ok_def)
  ultimately show ?thesis by (simp add: alive_at_def)
qed

lemma extend_interval_ivalue [simp]: "ivalue (extend_interval t li) = ivalue li"
  by (simp add: extend_interval_def split: prod.split)

lemma extend_interval_ok:
  assumes "li_ok t A li" "ivalue li = v"
  shows "li_ok t (record_at t v A) (extend_interval t li)"
proof -
  obtain xs s e where xs: "intervals li = xs @ [(s, e)]"
    using assms(1) by (metis li_ok_def append_butlast_last_id prod.collapse)
  have e: "li_end li = e" by (simp add: li_end_def xs)
  have ok: "li_start li < e" "e \<le> Suc t" "covered li = {u. v \<in> A u}"
      "\<forall>(s, e') \<in> set (xs @ [(s, e)]). li_start li \<le> s \<and> s < e' \<and> e' \<le> e"
    using assms by (simp_all add: li_ok_def xs e)
  have cov: "covered li = (\<Union>(s, e) \<in> set xs. {s ..< e}) \<union> {s ..< e}" by (auto simp: covered_def xs)
  show ?thesis
  proof (cases "t = e")
    case True
    let ?li = "li\<lparr>intervals := xs @ [(s, e + 1)]\<rparr>"
    have ext: "extend_interval t li = ?li" using True by (simp add: extend_interval_def xs)
    have st: "li_start ?li = li_start li" by (cases xs) (simp_all add: li_start_def xs)
    have "s < e" using ok(4) by simp
    then have "covered ?li = insert t (covered li)" using True by (auto simp: covered_def xs)
    then show ?thesis
      using ok True assms(2) unfolding ext li_ok_def st
      by (auto simp: li_end_def record_all_def)
  next
    case False
    let ?li = "li\<lparr>intervals := (xs @ [(s, e)]) @ [(t, t + 1)]\<rparr>"
    have ext: "extend_interval t li = ?li" using False by (simp add: extend_interval_def xs)
    have st: "li_start ?li = li_start li" by (cases xs) (simp_all add: li_start_def xs)
    have "covered ?li = insert t (covered li)" by (auto simp: covered_def xs)
    then show ?thesis
      using ok False assms(2) unfolding ext li_ok_def st
      by (auto simp: li_end_def record_all_def)
  qed
qed

lemma li_ok_other: "li_ok t A li \<Longrightarrow> ivalue li \<noteq> v \<Longrightarrow> li_ok t (record_at t v A) li"
  by (auto simp: li_ok_def record_all_def)

lemma update_value_values: "ivalue ` set (update_value t v lis) = insert v (ivalue ` set lis)"
  by (induction lis) auto

lemma update_value_ok:
  assumes "\<forall>li \<in> set lis. li_ok t A li" "distinct (map ivalue lis)" "v \<notin> ivalue ` set lis \<Longrightarrow> \<forall>u. v \<notin> A u"
  shows "(\<forall>li \<in> set (update_value t v lis). li_ok t (record_at t v A) li) \<and>
     distinct (map ivalue (update_value t v lis))"
  using assms
proof (induction lis)
  case Nil
  have "li_ok t (record_at t v A) \<lparr>intervals = [(t, t + 1)], ivalue = v\<rparr>"
    using Nil by (auto simp: li_ok_def li_start_def li_end_def covered_def record_all_def)
  then show ?case by simp
next
  case (Cons li lis)
  show ?case
  proof (cases "ivalue li = v")
    case True
    then have "\<forall>x \<in> set lis. ivalue x \<noteq> v" using Cons.prems(2) by (metis distinct.simps(2) image_eqI list.simps(9) set_map)
    then show ?thesis using True Cons.prems extend_interval_ok [of t A li v] li_ok_other by auto
  next
    case False
    then have "(\<forall>li \<in> set (update_value t v lis). li_ok t (record_at t v A) li) \<and>
        distinct (map ivalue (update_value t v lis))"
      using Cons by auto
    moreover have "ivalue li \<notin> ivalue ` set (update_value t v lis)"
      using False Cons.prems(2) by (auto simp: update_value_values)
    ultimately show ?thesis using False Cons.prems(1) li_ok_other by auto
  qed
qed

lemma lis_ok_update:
  "lis_ok t A lis \<Longrightarrow> lis_ok t (record_at t v A) (update_value t v lis)"
  using update_value_ok [of lis t A v]
  by (auto simp: lis_ok_def update_value_values record_all_def)

definition recorded :: "alive_value list \<Rightarrow> ir_value set" where
  "recorded ts = (\<Union>a \<in> set ts. set (values_to_track a))"

lemma lis_ok_values:
  "lis_ok t A lis \<Longrightarrow> lis_ok t (record_all t (set vs) A) (fold (update_value t) vs lis)"
proof (induction vs arbitrary: A lis)
  case (Cons v vs)
  from Cons.IH [OF lis_ok_update [OF Cons.prems, of v]]
  show ?case by (simp add: record_all_twice)
qed simp

lemma lis_ok_step:
  "lis_ok t A lis \<Longrightarrow> lis_ok t (record_all t (recorded ts) A) (fold (update_interval t) ts lis)"
proof (induction ts arbitrary: A lis)
  case Nil
  then show ?case by (simp add: recorded_def)
next
  case (Cons a ts)
  have "lis_ok t (record_all t (recorded [a]) A) (update_interval t a lis)"
    using lis_ok_values [OF Cons.prems] by (simp add: update_interval_def recorded_def)
  moreover have "recorded (a # ts) = recorded [a] \<union> recorded ts" by (simp add: recorded_def)
  ultimately show ?case using Cons.IH by (simp add: record_all_twice [symmetric])
qed

lemma lis_ok_later: "lis_ok t A lis \<Longrightarrow> lis_ok (Suc t) A lis"
  by (auto simp: lis_ok_def li_ok_def)

lemma collect_intervals_ok:
  assumes "lis_ok t A lis" "A t = {}"
  shows "\<exists>t'. lis_ok t' (\<lambda>u. if u < t then A u else if u - t < length tss then recorded (tss ! (u - t)) else {})
     (collect_intervals t tss lis)"
  using assms
proof (induction tss arbitrary: t A lis)
  case Nil
  have "(\<lambda>u. if u < t then A u else if u - t < length [] then recorded ([] ! (u - t)) else {}) = A"
    using Nil by (auto simp: fun_eq_iff lis_ok_def not_less le_less)
  then show ?case using Nil(1) by (metis collect_intervals.simps(1))
next
  case (Cons ts tss)
  let ?A = "record_all t (recorded ts) A"
  have "lis_ok (Suc t) ?A (fold (update_interval t) ts lis)"
    using lis_ok_later [OF lis_ok_step [OF Cons.prems(1)]] .
  moreover have "?A (Suc t) = {}" using Cons.prems(1) by (simp add: lis_ok_def record_all_def)
  moreover have "(\<lambda>u. if u < Suc t then ?A u else if u - Suc t < length tss then recorded (tss ! (u - Suc t)) else {}) =
      (\<lambda>u. if u < t then A u else if u - t < length (ts # tss) then recorded ((ts # tss) ! (u - t)) else {})"
  proof
    fix u
    show "(if u < Suc t then ?A u else if u - Suc t < length tss then recorded (tss ! (u - Suc t)) else {}) =
      (if u < t then A u else if u - t < length (ts # tss) then recorded ((ts # tss) ! (u - t)) else {})"
    proof (cases "u \<le> t")
      case True
      then show ?thesis using Cons.prems(2) by (auto simp: record_all_def)
    next
      case False
      then obtain k where "u = Suc (t + k)" using less_imp_Suc_add by (metis not_le)
      then show ?thesis by simp
    qed
  qed
  ultimately show ?case using Cons.IH [of "Suc t" ?A] by simp
qed

text \<open>C26: Every value that is alive in some step has one interval; its parts cover exactly the steps in
  which the value is alive, and the interval starts at the first and ends after the last of them.\<close>

theorem intervals_exact:
  "distinct (map ivalue (collect_intervals 0 steps [])) \<and>
   (\<forall>li \<in> set (collect_intervals 0 steps []). li_start li < li_end li \<and>
      (\<forall>u. u \<in> covered li \<longleftrightarrow> u < length steps \<and> ivalue li \<in> recorded (steps ! u)) \<and>
      (\<forall>u \<in> covered li. alive_at li u)) \<and>
   (\<forall>u < length steps. recorded (steps ! u) \<subseteq> ivalue ` set (collect_intervals 0 steps []))"
proof -
  let ?A = "\<lambda>u. if u < 0 then {} else if u - 0 < length steps then recorded (steps ! (u - 0)) else {}"
  have "lis_ok 0 (\<lambda>_. {}) []" by (simp add: lis_ok_def)
  from collect_intervals_ok [OF this] obtain t where ok: "lis_ok t ?A (collect_intervals 0 steps [])" by auto
  then show ?thesis
    using covered_alive [of t ?A] by (auto simp: lis_ok_def li_ok_def split: if_splits)
qed

theorem intervals_exact_witness:
  "\<exists>li \<in> set (collect_intervals 0 [[Alive (Value 1)], [], [Alive (Value 1)]] []).
     ivalue li = Value 1 \<and> 0 \<in> covered li \<and> 1 \<notin> covered li \<and> alive_at li 2"
proof -
  let ?steps = "[[Alive (Value 1)], [], [Alive (Value 1)]]"
  have rec: "recorded (?steps ! 0) = {Value 1}" "recorded (?steps ! 1) = {}" "recorded (?steps ! 2) = {Value 1}"
    by (simp_all add: recorded_def values_to_track_def)
  note all = intervals_exact [of ?steps]
  have "recorded (?steps ! 0) \<subseteq> ivalue ` set (collect_intervals 0 ?steps [])" using all by fastforce
  then obtain li where li: "li \<in> set (collect_intervals 0 ?steps [])" "ivalue li = Value 1" using rec by auto
  have cov: "\<forall>u. u \<in> covered li \<longleftrightarrow> u < length ?steps \<and> ivalue li \<in> recorded (?steps ! u)"
    and alive: "\<forall>u \<in> covered li. alive_at li u" using all li(1) by blast+
  have "0 \<in> covered li" "1 \<notin> covered li" "2 \<in> covered li"
    using cov rec li(2) by (simp_all del: nth_Cons_Suc)
  then show ?thesis using li alive by blast
qed

section \<open>The allocator\<close>

lemma set_set_insert [simp]: "set (set_insert i xs) = insert i (set xs)"
  by (induction xs) auto

definition reg_of :: "scan \<Rightarrow> live_interval \<Rightarrow> nat option" where
  "reg_of s i = value2mem s (ivalue i)"

text \<open>The registers of the map exist, there are 32 of them, and none is reserved.\<close>

definition scan_wf :: "scan \<Rightarrow> bool" where
  "scan_wf s \<longleftrightarrow> length (free s) = 32 \<and> foriter_reserved_regs s = (\<lambda>_. None) \<and>
     (\<forall>v r. value2mem s v = Some r \<longrightarrow> r < 32)"

lemma free_register_spec:
  assumes "scan_wf s" "free_register i s = Ok s'"
  shows "\<exists>r < 32. reg_of s i = Some r \<and> s' = s\<lparr>free := (free s)[r := True]\<rparr>"
  using assms by (auto simp: free_register_def scan_wf_def reg_of_def Let_def split: option.splits)

lemma mark_register_used_spec:
  assumes "scan_wf s" "mark_register_used i s = Ok s'"
  shows "\<exists>r < 32. reg_of s i = Some r \<and> free s ! r \<and> s' = s\<lparr>free := (free s)[r := False]\<rparr>"
  using assms
  by (auto simp: mark_register_used_def scan_wf_def reg_of_def Let_def assert_that_eq_Ok split: option.splits)

lemma expire_active_spec:
  assumes "scan_wf s" "expire_active cur is s = Ok (kept, s')"
  shows "scan_wf s' \<and> value2mem s' = value2mem s \<and> emitted s' = emitted s \<and> active s' = active s \<and>
     kept = filter (\<lambda>i. alive_at i (li_start cur)) is \<and>
     set (inactive s') \<subseteq> set (inactive s) \<union> set is \<and> (\<forall>i \<in> set is. ivalue i \<noteq> ivalue cur) \<and>
     (\<forall>r < 32. free s' ! r \<longrightarrow> free s ! r \<or> (\<exists>i \<in> set is. \<not> alive_at i (li_start cur) \<and> reg_of s i = Some r))"
  using assms
proof (induction "is" arbitrary: s kept)
  case Nil
  then show ?case by auto
next
  case (Cons i "is")
  let ?t = "li_start cur"
  from Cons.prems(2) have ne: "ivalue i \<noteq> ivalue cur" by (auto simp: assert_that_eq_Ok)
  consider "li_end i < ?t \<or> \<not> alive_at i ?t" | "\<not> li_end i < ?t" "alive_at i ?t" by blast
  then show ?case
  proof cases
    case 1
    then have dead: "\<not> alive_at i ?t" by (auto simp: alive_at_def)
    obtain s0 s1 where s0: "value2mem s0 = value2mem s" "free s0 = free s" "emitted s0 = emitted s"
        "active s0 = active s" "set (inactive s0) \<subseteq> insert i (set (inactive s))"
        "foriter_reserved_regs s0 = foriter_reserved_regs s"
      and run: "free_register i s0 = Ok s1" "expire_active cur is s1 = Ok (kept, s')"
    proof (cases "li_end i < ?t")
      case True
      then show ?thesis using Cons.prems(2) that [of "s\<lparr>handled := set_insert i (handled s)\<rparr>"]
        by (auto simp: assert_that_eq_Ok and_then_eq_Ok)
    next
      case False
      then show ?thesis using Cons.prems(2) dead that [of "s\<lparr>inactive := set_insert i (inactive s)\<rparr>"]
        by (auto simp: assert_that_eq_Ok and_then_eq_Ok)
    qed
    have wf0: "scan_wf s0" using Cons.prems(1) s0 by (simp add: scan_wf_def)
    obtain r where r: "r < 32" "reg_of s0 i = Some r" "s1 = s0\<lparr>free := (free s0)[r := True]\<rparr>"
      using free_register_spec [OF wf0 run(1)] by blast
    have wf1: "scan_wf s1" using wf0 r by (simp add: scan_wf_def)
    note IH = Cons.IH [OF wf1 run(2)]
    have "free s ! q \<or> (\<exists>j \<in> set (i # is). \<not> alive_at j ?t \<and> reg_of s j = Some q)"
      if "q < 32" "free s' ! q" for q
    proof -
      have "free s1 ! q \<or> (\<exists>j \<in> set is. \<not> alive_at j ?t \<and> reg_of s1 j = Some q)" using IH that by blast
      then show ?thesis using r dead s0 wf0 that
        by (cases "q = r") (auto simp: reg_of_def scan_wf_def)
    qed
    then show ?thesis using IH ne dead s0 r by auto
  next
    case 2
    then obtain k where run: "expire_active cur is s = Ok (k, s')" "kept = i # k"
      using Cons.prems(2) by (auto simp: assert_that_eq_Ok and_then_eq_Ok)
    show ?thesis using Cons.IH [OF Cons.prems(1) run(1)] run(2) 2 ne by auto
  qed
qed

text \<open>Between the two loops and the allocation the active intervals other than the current one are
  alive, hold their registers, and hold different ones.\<close>

definition holding :: "live_interval \<Rightarrow> nat \<Rightarrow> scan \<Rightarrow> bool" where
  "holding cur t s \<longleftrightarrow>
     (\<forall>a \<in> set (active s). ivalue a \<noteq> ivalue cur \<longrightarrow>
        alive_at a t \<and> (\<exists>r < 32. reg_of s a = Some r \<and> \<not> free s ! r)) \<and>
     (\<forall>a \<in> set (active s). \<forall>b \<in> set (active s). ivalue a \<noteq> ivalue cur \<longrightarrow> ivalue b \<noteq> ivalue cur \<longrightarrow>
        ivalue a \<noteq> ivalue b \<longrightarrow> reg_of s a \<noteq> reg_of s b)"

lemma reactivate_spec:
  assumes "scan_wf s" "holding cur (li_start cur) s" "reactivate cur is s = Ok (kept, s')"
  shows "scan_wf s' \<and> holding cur (li_start cur) s' \<and> value2mem s' = value2mem s \<and>
     emitted s' = emitted s \<and> set (active s) \<subseteq> set (active s') \<and>
     set (active s') \<subseteq> set (active s) \<union> set is \<and> set kept \<subseteq> set is"
  using assms
proof (induction "is" arbitrary: s kept)
  case Nil
  then show ?case by auto
next
  case (Cons i "is")
  let ?t = "li_start cur"
  consider "ivalue i = ivalue cur" | "ivalue i \<noteq> ivalue cur" "li_end i < ?t"
    | "ivalue i \<noteq> ivalue cur" "\<not> li_end i < ?t" "alive_at i ?t"
    | "ivalue i \<noteq> ivalue cur" "\<not> li_end i < ?t" "\<not> alive_at i ?t" by blast
  then show ?case
  proof cases
    case 1
    let ?s = "s\<lparr>active := set_insert i (active s)\<rparr>"
    have "scan_wf ?s" "holding cur ?t ?s"
      using Cons.prems(1,2) 1 by (auto simp: scan_wf_def holding_def reg_of_def)
    from Cons.IH [OF this, of kept] Cons.prems(3) 1 show ?thesis by auto
  next
    case 2
    let ?s = "s\<lparr>handled := set_insert i (handled s)\<rparr>"
    have "scan_wf ?s" "holding cur ?t ?s"
      using Cons.prems(1,2) by (auto simp: scan_wf_def holding_def reg_of_def)
    from Cons.IH [OF this, of kept] Cons.prems(3) 2 show ?thesis by auto
  next
    case 3
    let ?s = "s\<lparr>active := set_insert i (active s)\<rparr>"
    from 3 Cons.prems(3) obtain s1 where run: "mark_register_used i ?s = Ok s1"
        "reactivate cur is s1 = Ok (kept, s')"
      by (auto simp: and_then_eq_Ok)
    have wf: "scan_wf ?s" using Cons.prems(1) by (simp add: scan_wf_def)
    obtain r where r: "r < 32" "reg_of s i = Some r" "free s ! r" "s1 = ?s\<lparr>free := (free s)[r := False]\<rparr>"
      using mark_register_used_spec [OF wf run(1)] by (auto simp: reg_of_def)
    have len: "length (free s) = 32" using Cons.prems(1) by (simp add: scan_wf_def)
    have "holding cur ?t s1"
      unfolding holding_def
    proof (intro conjI ballI impI)
      fix a assume a: "a \<in> set (active s1)" "ivalue a \<noteq> ivalue cur"
      show "alive_at a ?t" using a r(4) 3 Cons.prems(2) by (auto simp: holding_def)
      show "\<exists>r < 32. reg_of s1 a = Some r \<and> \<not> free s1 ! r"
      proof (cases "a = i")
        case True
        then show ?thesis using r len by (auto simp: reg_of_def)
      next
        case False
        then obtain q where "q < 32" "reg_of s a = Some q" "\<not> free s ! q"
          using a r(4) Cons.prems(2) by (auto simp: holding_def)
        then show ?thesis using r len by (cases "q = r") (auto simp: reg_of_def)
      qed
    next
      fix a b assume ab: "a \<in> set (active s1)" "b \<in> set (active s1)" "ivalue a \<noteq> ivalue cur"
        "ivalue b \<noteq> ivalue cur" "ivalue a \<noteq> ivalue b"
      have taken: "reg_of s c \<noteq> Some r" if "c \<in> set (active s)" "ivalue c \<noteq> ivalue cur" for c
        using Cons.prems(2) that r(3) by (auto simp: holding_def)
      have old: "reg_of s a \<noteq> reg_of s b" if "a \<in> set (active s)" "b \<in> set (active s)"
        using Cons.prems(2) that ab by (simp add: holding_def)
      show "reg_of s1 a \<noteq> reg_of s1 b"
        using ab r(2,4) taken [of a] taken [of b] old by (auto simp: reg_of_def)
    qed
    moreover have "scan_wf s1" using wf r(4) by (simp add: scan_wf_def)
    ultimately show ?thesis using Cons.IH [OF _ _ run(2)] r(4) by (auto simp: reg_of_def)
  next
    case 4
    then obtain k where "reactivate cur is s = Ok (k, s')" "kept = i # k"
      using Cons.prems(3) by (auto simp: and_then_eq_Ok)
    then show ?thesis using Cons.IH [OF Cons.prems(1,2), of k] by auto
  qed
qed

text \<open>Two intervals with a step in common.\<close>

definition interfere :: "live_interval \<Rightarrow> live_interval \<Rightarrow> bool" where
  "interfere i j \<longleftrightarrow> (\<exists>t. alive_at i t \<and> alive_at j t)"

text \<open>The invariant of the scan: \<open>P\<close> are the intervals processed so far, \<open>t\<close> the start of the last.\<close>

definition scan_inv :: "live_interval list \<Rightarrow> live_interval list \<Rightarrow> nat \<Rightarrow> scan \<Rightarrow> bool" where
  "scan_inv L P t s \<longleftrightarrow> scan_wf s \<and> emitted s = [] \<and>
     set (active s) \<union> set (inactive s) \<subseteq> set L \<and>
     (\<forall>i \<in> set P. reg_of s i \<noteq> None \<and> li_start i \<le> t \<and> (alive_at i t \<longrightarrow> i \<in> set (active s))) \<and>
     (\<forall>i \<in> set P. \<forall>j \<in> set P. ivalue i \<noteq> ivalue j \<longrightarrow> interfere i j \<longrightarrow> reg_of s i \<noteq> reg_of s j) \<and>
     (\<forall>a \<in> set (active s). alive_at a t \<and> (\<exists>r < 32. reg_of s a = Some r \<and> \<not> free s ! r)) \<and>
     (\<forall>a \<in> set (active s). \<forall>b \<in> set (active s). ivalue a \<noteq> ivalue b \<longrightarrow> reg_of s a \<noteq> reg_of s b)"

definition no_loop_variables :: "func \<Rightarrow> flows_in \<Rightarrow> live_interval list \<Rightarrow> bool" where
  "no_loop_variables fn im L \<longleftrightarrow>
     (\<forall>i \<in> set L. \<forall>input \<in> set (im (ivalue i)). case input of
        Value _ \<Rightarrow> True | ForwardedOutput n _ \<Rightarrow> for_iter_iterator fn n = None)"

lemma reserve_none:
  "\<forall>input \<in> set ms. (case input of Value _ \<Rightarrow> True | ForwardedOutput n _ \<Rightarrow> for_iter_iterator fn n = None) \<Longrightarrow>
   fold (reserve_iterator fn v) ms s = s"
  by (induction ms arbitrary: s) (auto simp: reserve_iterator_def split: ir_value.splits)

lemma first_set_spec: "first_set k bs = Some i \<Longrightarrow> k \<le> i \<and> i - k < length bs \<and> bs ! (i - k)"
proof (induction bs arbitrary: k)
  case (Cons b bs)
  show ?case
  proof (cases b)
    case False
    then have "Suc k \<le> i \<and> i - Suc k < length bs \<and> bs ! (i - Suc k)" using Cons by simp
    then show ?thesis by (cases "i - k") (auto simp: Suc_diff_Suc [symmetric])
  qed (use Cons in auto)
qed simp

lemma cleared: "(av :: bool list)[q := False] ! r \<Longrightarrow> r < length av \<Longrightarrow> av ! r"
  by (cases "q = r") auto

lemma exclude_overlapping_free:
  "length (exclude_overlapping cur s is av) = length av \<and>
   (\<forall>r. exclude_overlapping cur s is av ! r \<longrightarrow> r < length av \<longrightarrow> av ! r)"
proof -
  have "length (fold (\<lambda>i av. case f i of Some r \<Rightarrow> av[r := False] | None \<Rightarrow> av) xs av) = length av \<and>
     (\<forall>r. fold (\<lambda>i av. case f i of Some r \<Rightarrow> av[r := False] | None \<Rightarrow> av) xs av ! r \<longrightarrow> r < length av \<longrightarrow> av ! r)"
    for f :: "live_interval \<Rightarrow> nat option" and xs
  proof (induction xs arbitrary: av)
    case (Cons x xs)
    show ?case
    proof (cases "f x")
      case None
      then show ?thesis using Cons by simp
    next
      case (Some q)
      then show ?thesis using Cons [of "av[q := False]"] by (auto intro: cleared)
    qed
  qed simp
  then show ?thesis by (simp add: exclude_overlapping_def)
qed

lemma collect_available_free:
  assumes "length (free s) = 32"
  shows "length (collect_available_registers fn im cur s us) = 32 \<and>
     (\<forall>r < 32. collect_available_registers fn im cur s us ! r \<longrightarrow> free s ! r)"
proof -
  have sp: "length (apply_special_constraints fn im cur s av) = length av \<and>
      (\<forall>r < length av. apply_special_constraints fn im cur s av ! r \<longrightarrow> av ! r)" for av
    by (auto simp: apply_special_constraints_def Let_def intro: cleared
        split: ir_value.splits option.splits if_splits)
  show ?thesis
    using sp [of "exclude_overlapping cur s us (exclude_overlapping cur s (inactive s) (free s))"]
      exclude_overlapping_free [of cur s us "exclude_overlapping cur s (inactive s) (free s)"]
      exclude_overlapping_free [of cur s "inactive s" "free s"] assms
    by (auto simp: collect_available_registers_def)
qed

lemma conflict_emits:
  "handle_register_conflict fn im cur r av s = Ok s' \<Longrightarrow> ivalue cur = Value v \<Longrightarrow> emitted s' \<noteq> []"
  by (auto simp: handle_register_conflict_def and_then_eq_Ok assert_that_eq_Ok split: option.splits)

lemma conflict_keeps: "handle_register_conflict fn im cur r av s = Ok s' \<Longrightarrow> \<exists>xs. emitted s' = emitted s @ xs"
  by (auto simp: handle_register_conflict_def and_then_eq_Ok assert_that_eq_Ok
      split: option.splits ir_value.splits)

text \<open>An allocation without conflict takes a free register: the preallocated one, or an available one.\<close>

lemma allocate_register_spec:
  assumes wf: "scan_wf s" and run: "allocate_register fn im cur av s = Ok s'"
    and em: "emitted s' = []" and nolv: "no_loop_variables fn im L" "cur \<in> set L"
    and av: "length av = 32" "\<forall>r < 32. av ! r \<longrightarrow> free s ! r"
    and val: "ivalue cur = Value v \<or> value2mem s (ivalue cur) = None"
  shows "\<exists>r < 32. free s ! r \<and> value2mem s' = (value2mem s)(ivalue cur := Some r) \<and>
     free s' = (free s)[r := False] \<and> set (active s') = insert cur (set (active s)) \<and>
     inactive s' = inactive s \<and> foriter_reserved_regs s' = foriter_reserved_regs s \<and> emitted s = []"
proof -
  have fold: "fold (reserve_iterator fn (ivalue cur)) (im (ivalue cur)) x = x" for x
    using nolv by (intro reserve_none) (auto simp: no_loop_variables_def)
  obtain r s1 where s1: "r < 32" "s1 = s\<lparr>value2mem := (value2mem s)(ivalue cur := Some r)\<rparr>"
      "(case (case value2mem s (ivalue cur) of
              Some r \<Rightarrow> Some (r, s)
            | None \<Rightarrow> (case first_set 0 av of
                         Some i \<Rightarrow> Some (i, s\<lparr>value2mem := (value2mem s)(ivalue cur := Some i)\<rparr>)
                       | None \<Rightarrow> None)) of None \<Rightarrow> False | Some x \<Rightarrow> x = (r, s1))"
      "value2mem s (ivalue cur) = None \<longrightarrow> free s ! r"
  proof (cases "value2mem s (ivalue cur)")
    case None
    then obtain i where "first_set 0 av = Some i"
      using run by (auto simp: allocate_register_def split: option.splits)
    then show ?thesis using None first_set_spec [of 0 av i] av that [of i] by auto
  next
    case (Some q)
    then have "s\<lparr>value2mem := (value2mem s)(ivalue cur := Some q)\<rparr> = s"
      by (intro scan.equality) (auto simp: fun_upd_idem_iff)
    then show ?thesis using Some wf that [of q] by (auto simp: scan_wf_def)
  qed
  obtain s2 where s2: "(if \<not> free s1 ! r then handle_register_conflict fn im cur r av s1
             else Ok (s1\<lparr>free := (free s1)[r := False]\<rparr>)) = Ok s2"
      "s' = s2\<lparr>active := set_insert cur (active s2)\<rparr>"
  proof -
    have tail: "(case ivalue cur of
          Value v \<Rightarrow> if is_block_argument fn v then Ok (fold (reserve_iterator fn (ivalue cur)) (im (ivalue cur)) x) else Ok x
        | ForwardedOutput _ _ \<Rightarrow> Ok x) = Ok x" for x :: scan
      using fold [of x] by (cases "ivalue cur") simp_all
    have "and_then (if \<not> free s1 ! r then handle_register_conflict fn im cur r av s1
             else Ok (s1\<lparr>free := (free s1)[r := False]\<rparr>))
            (\<lambda>s2. Ok (s2\<lparr>active := set_insert cur (active s2)\<rparr>)) = Ok s'"
      using run s1(3) tail
      by (auto simp: allocate_register_def Let_def split: option.splits simp del: not_None_eq)
    then show ?thesis using that by (auto simp: and_then_eq_Ok)
  qed
  have free: "free s1 ! r"
  proof (rule ccontr)
    assume no: "\<not> free s1 ! r"
    then have conf: "handle_register_conflict fn im cur r av s1 = Ok s2" using s2(1) by simp
    have "value2mem s (ivalue cur) \<noteq> None" using no s1 by auto
    then show False using val conflict_emits [OF conf] em s2(2) by auto
  qed
  then show ?thesis using s1(1,2) s2 em by auto
qed

lemma free_register_emitted: "free_register i s = Ok s' \<Longrightarrow> emitted s' = emitted s"
  by (auto simp: free_register_def Let_def split: option.splits)

lemma mark_register_emitted: "mark_register_used i s = Ok s' \<Longrightarrow> emitted s' = emitted s"
  by (auto simp: mark_register_used_def Let_def assert_that_eq_Ok split: option.splits)

lemma expire_active_emitted: "expire_active cur is s = Ok (kept, s') \<Longrightarrow> emitted s' = emitted s"
proof (induction "is" arbitrary: s kept)
  case (Cons i "is")
  show ?case
  proof (cases "li_end i < li_start cur \<or> \<not> alive_at i (li_start cur)")
    case True
    then obtain s1 s2 where s1: "free_register i s1 = Ok s2" "emitted s1 = emitted s"
        "expire_active cur is s2 = Ok (kept, s')"
      using Cons.prems by (fastforce simp: assert_that_eq_Ok and_then_eq_Ok split: if_splits)
    then show ?thesis using Cons.IH [OF s1(3)] free_register_emitted [OF s1(1)] by simp
  next
    case False
    then obtain k where "expire_active cur is s = Ok (k, s')"
      using Cons.prems by (auto simp: assert_that_eq_Ok and_then_eq_Ok)
    then show ?thesis by (rule Cons.IH)
  qed
qed simp

lemma reactivate_emitted: "reactivate cur is s = Ok (kept, s') \<Longrightarrow> emitted s' = emitted s"
proof (induction "is" arbitrary: s kept)
  case (Cons i "is")
  consider "ivalue i = ivalue cur" | "ivalue i \<noteq> ivalue cur" "li_end i < li_start cur"
    | "ivalue i \<noteq> ivalue cur" "\<not> li_end i < li_start cur" "alive_at i (li_start cur)"
    | "ivalue i \<noteq> ivalue cur" "\<not> li_end i < li_start cur" "\<not> alive_at i (li_start cur)" by blast
  then show ?case
  proof cases
    case 1
    then show ?thesis using Cons.prems Cons.IH by fastforce
  next
    case 2
    then show ?thesis using Cons.prems Cons.IH by fastforce
  next
    case 3
    then obtain s1 where s1: "mark_register_used i (s\<lparr>active := set_insert i (active s)\<rparr>) = Ok s1"
        "reactivate cur is s1 = Ok (kept, s')"
      using Cons.prems by (auto simp: and_then_eq_Ok)
    then show ?thesis using Cons.IH [OF s1(2)] mark_register_emitted [OF s1(1)] by simp
  next
    case 4
    then obtain k where "reactivate cur is s = Ok (k, s')"
      using Cons.prems by (auto simp: and_then_eq_Ok)
    then show ?thesis by (rule Cons.IH)
  qed
qed simp

lemma expire_old_emitted: "expire_old_intervals cur s = Ok s' \<Longrightarrow> emitted s' = emitted s"
  by (auto simp: expire_old_intervals_def and_then_eq_Ok dest!: expire_active_emitted reactivate_emitted)

lemma reserve_emitted: "emitted (fold (reserve_iterator fn v) ms s) = emitted s"
  by (induction ms arbitrary: s) (auto simp: reserve_iterator_def split: ir_value.splits option.splits)

lemma allocate_register_emitted:
  assumes "allocate_register fn im cur av s = Ok s'"
  shows "\<exists>xs. emitted s' = emitted s @ xs"
proof -
  let ?pick = "case value2mem s (ivalue cur) of
              Some r \<Rightarrow> Some (r, s)
            | None \<Rightarrow> (case first_set 0 av of
                         Some i \<Rightarrow> Some (i, s\<lparr>value2mem := (value2mem s)(ivalue cur := Some i)\<rparr>)
                       | None \<Rightarrow> None)"
  have pick: "emitted x = emitted s" if "?pick = Some (r, x)" for r x
    using that by (auto split: option.splits)
  obtain r s1 where s1: "?pick = Some (r, s1)"
    using assms by (cases ?pick) (auto simp: allocate_register_def)
  obtain s2 where s2: "(if \<not> free s1 ! r then handle_register_conflict fn im cur r av s1
       else Ok (s1\<lparr>free := (free s1)[r := False]\<rparr>)) = Ok s2"
      and last: "(case ivalue cur of
          Value v \<Rightarrow> if is_block_argument fn v
            then Ok (fold (reserve_iterator fn (ivalue cur)) (im (ivalue cur)) (s2\<lparr>active := set_insert cur (active s2)\<rparr>))
            else Ok (s2\<lparr>active := set_insert cur (active s2)\<rparr>)
        | ForwardedOutput _ _ \<Rightarrow> Ok (s2\<lparr>active := set_insert cur (active s2)\<rparr>)) = Ok s'"
    using assms unfolding allocate_register_def s1 option.case prod.case Let_def and_then_eq_Ok by blast
  have "emitted s' = emitted s2" using last by (auto simp: reserve_emitted split: ir_value.splits if_splits)
  moreover have "\<exists>xs. emitted s2 = emitted s1 @ xs"
    using s2 conflict_keeps [of fn im cur r av s1 s2] by (cases "free s1 ! r") auto
  ultimately show ?thesis using pick [OF s1] by simp
qed

lemma scan_loop_emitted: "scan_loop fn im us s = Ok s' \<Longrightarrow> \<exists>xs. emitted s' = emitted s @ xs"
proof (induction us arbitrary: s)
  case (Cons cur us)
  from Cons.prems obtain s1 s2 av where s1: "expire_old_intervals cur s = Ok s1"
      "allocate_register fn im cur av s1 = Ok s2" "scan_loop fn im us s2 = Ok s'"
    by (auto simp: and_then_eq_Ok Let_def split: if_splits)
  obtain xs ys where "emitted s2 = emitted s1 @ xs" "emitted s' = emitted s2 @ ys"
    using allocate_register_emitted [OF s1(2)] Cons.IH [OF s1(3)] by blast
  then show ?case using expire_old_emitted [OF s1(1)] by simp
qed simp

lemma scan_step:
  assumes inv: "scan_inv L P t s" and L: "distinct (map ivalue L)" "set P \<union> {cur} \<subseteq> set L" "cur \<notin> set P"
    and len: "li_start cur < li_end cur" and t: "t \<le> li_start cur"
    and nolv: "no_loop_variables fn im L"
    and fwd: "(\<exists>v. ivalue cur = Value v) \<or> value2mem s (ivalue cur) = None"
    and run: "expire_old_intervals cur s = Ok s1"
      "allocate_register fn im cur (collect_available_registers fn im cur s1 us) s1 = Ok s2"
    and em: "emitted s2 = []"
  shows "scan_inv L (P @ [cur]) (li_start cur) s2 \<and> value2mem s2 = (value2mem s)(ivalue cur := reg_of s2 cur)"
proof -
  let ?t = "li_start cur"
  have same: "i = j" if "i \<in> set L" "j \<in> set L" "ivalue i = ivalue j" for i j
    using L(1) that by (auto simp: distinct_map inj_on_def)
  have wf: "scan_wf s" using inv by (simp add: scan_inv_def)
  obtain kept sa kept' sb where ea: "expire_active cur (active s) (s\<lparr>active := []\<rparr>) = Ok (kept, sa)"
    and eb: "reactivate cur (inactive sa) (sa\<lparr>active := kept, inactive := []\<rparr>) = Ok (kept', sb)"
    and s1: "s1 = sb\<lparr>inactive := kept'\<rparr>"
    using run(1) by (auto simp: expire_old_intervals_def and_then_eq_Ok)
  have wf0: "scan_wf (s\<lparr>active := []\<rparr>)" using wf by (simp add: scan_wf_def)
  note A = expire_active_spec [OF wf0 ea]
  let ?sm = "sa\<lparr>active := kept, inactive := []\<rparr>"
  have reg: "reg_of ?sm i = reg_of s i" for i using A by (simp add: reg_of_def)
  have act: "alive_at a t" "\<exists>r < 32. reg_of s a = Some r \<and> \<not> free s ! r" "a \<in> set L"
    if "a \<in> set (active s)" for a using inv that by (auto simp: scan_inv_def)
  have apart: "reg_of s a \<noteq> reg_of s b"
    if "a \<in> set (active s)" "b \<in> set (active s)" "ivalue a \<noteq> ivalue b" for a b
    using inv that by (simp add: scan_inv_def)
  have hold: "holding cur ?t ?sm"
    unfolding holding_def reg
  proof (intro conjI ballI impI)
    fix a assume "a \<in> set (active ?sm)"
    then have a: "a \<in> set (active s)" "alive_at a ?t" using A by auto
    then show "alive_at a ?t" by simp
    obtain r where r: "r < 32" "reg_of s a = Some r" "\<not> free s ! r" using act(2) [OF a(1)] by blast
    have "\<not> free sa ! r"
    proof
      assume "free sa ! r"
      then obtain i where i: "i \<in> set (active s)" "\<not> alive_at i ?t" "reg_of s i = Some r"
        using A r by (auto simp: reg_of_def)
      then have "ivalue i = ivalue a" using apart [OF i(1) a(1)] r(2) by auto
      then have "i = a" using same act(3) i(1) a(1) by blast
      then show False using i(2) a(2) by simp
    qed
    then show "\<exists>r < 32. reg_of s a = Some r \<and> \<not> free ?sm ! r" using r by auto
  next
    fix a b assume "a \<in> set (active ?sm)" "b \<in> set (active ?sm)" "ivalue a \<noteq> ivalue b"
    then show "reg_of s a \<noteq> reg_of s b" using A apart by auto
  qed
  have wfm: "scan_wf ?sm" using A by (simp add: scan_wf_def)
  note B = reactivate_spec [OF wfm hold eb]
  have wf1: "scan_wf s1" and hold1: "holding cur ?t s1" using B s1 by (auto simp: scan_wf_def holding_def reg_of_def)
  have v1: "value2mem s1 = value2mem s" using A B s1 by simp
  have inL: "set (active s) \<union> set (inactive s) \<subseteq> set L" using inv by (simp add: scan_inv_def)
  then have "set (inactive sa) \<subseteq> set L" "set kept \<subseteq> set L" using A by auto
  moreover have "set (active sb) \<subseteq> set kept \<union> set (inactive sa)" "set kept' \<subseteq> set (inactive sa)"
    using B by auto
  ultimately have act1: "set (active s1) \<union> set (inactive s1) \<subseteq> set L" unfolding s1 by auto
  have len1: "length (free s1) = 32" using wf1 by (simp add: scan_wf_def)
  obtain v where val: "ivalue cur = Value v \<or> value2mem s1 (ivalue cur) = None" using fwd v1 by auto
  obtain r where r: "r < 32" "free s1 ! r" "value2mem s2 = (value2mem s1)(ivalue cur := Some r)"
      "free s2 = (free s1)[r := False]" "set (active s2) = insert cur (set (active s1))"
      "inactive s2 = inactive s1" "foriter_reserved_regs s2 = foriter_reserved_regs s1" "emitted s1 = []"
    using allocate_register_spec [OF wf1 run(2) em nolv _ _ _ val] L(2)
      collect_available_free [OF len1, of fn im cur us] by auto
  have reg2: "reg_of s2 i = (if ivalue i = ivalue cur then Some r else reg_of s i)" for i
    using r(3) v1 by (simp add: reg_of_def)
  have curL: "cur \<in> set L" using L(2) by simp
  have other: "ivalue i \<noteq> ivalue cur" if "i \<in> set P" for i using same [OF _ curL] that L(2,3) by blast
  have alive_cur: "alive_at cur ?t" using len by (simp add: alive_at_def)
  have held: "\<exists>q < 32. reg_of s a = Some q \<and> \<not> free s1 ! q" "alive_at a ?t"
    if "a \<in> set (active s1)" "a \<noteq> cur" for a
  proof -
    have "ivalue a \<noteq> ivalue cur" using same [of a cur] that act1 curL by blast
    then show "\<exists>q < 32. reg_of s a = Some q \<and> \<not> free s1 ! q" "alive_at a ?t"
      using hold1 that(1) v1 by (auto simp: holding_def reg_of_def)
  qed
  have Pact: "i \<in> set (active s1)" if "i \<in> set P" "alive_at i ?t" for i
  proof -
    have "li_start i \<le> t" using inv that(1) by (simp add: scan_inv_def)
    then have "alive_at i t" using that(2) t by (auto simp: alive_at_def)
    then have "i \<in> set (active s)" using inv that(1) by (simp add: scan_inv_def)
    then have "i \<in> set (active ?sm)" using A that(2) by simp
    then show ?thesis using B s1 by auto
  qed
  have cur_P: "reg_of s2 cur \<noteq> reg_of s2 i" if iP: "i \<in> set P" and ii: "interfere i cur" for i
  proof -
    obtain u where u: "alive_at i u" "alive_at cur u" using ii by (auto simp: interfere_def)
    moreover have "li_start i \<le> t" using inv iP by (simp add: scan_inv_def)
    ultimately have "alive_at i ?t" using t by (auto simp: alive_at_def)
    then obtain q where "reg_of s i = Some q" "\<not> free s1 ! q"
      using held(1) [OF Pact [OF iP]] other [OF iP] by auto
    then show ?thesis using reg2 [of i] reg2 [of cur] other [OF iP] r(2) by auto
  qed
  have sym: "interfere i j = interfere j i" for i j by (auto simp: interfere_def)
  have "scan_inv L (P @ [cur]) ?t s2"
    unfolding scan_inv_def
  proof (intro conjI)
    show "scan_wf s2" using wf1 r by (auto simp: scan_wf_def)
    show "emitted s2 = []" using em .
    show "set (active s2) \<union> set (inactive s2) \<subseteq> set L" using act1 r(5,6) curL by auto
    show "\<forall>i \<in> set (P @ [cur]). reg_of s2 i \<noteq> None \<and> li_start i \<le> ?t \<and> (alive_at i ?t \<longrightarrow> i \<in> set (active s2))"
      using inv t Pact r(5) reg2 by (fastforce simp: scan_inv_def)
    show "\<forall>i \<in> set (P @ [cur]). \<forall>j \<in> set (P @ [cur]). ivalue i \<noteq> ivalue j \<longrightarrow> interfere i j \<longrightarrow> reg_of s2 i \<noteq> reg_of s2 j"
      using inv cur_P sym other reg2 by (auto simp: scan_inv_def) metis+
    show "\<forall>a \<in> set (active s2). alive_at a ?t \<and> (\<exists>r < 32. reg_of s2 a = Some r \<and> \<not> free s2 ! r)"
    proof
      fix a assume a: "a \<in> set (active s2)"
      show "alive_at a ?t \<and> (\<exists>r < 32. reg_of s2 a = Some r \<and> \<not> free s2 ! r)"
      proof (cases "a = cur")
        case True
        then show ?thesis using alive_cur reg2 r(1,4) len1 by auto
      next
        case False
        then have a1: "a \<in> set (active s1)" using a r(5) by simp
        then obtain q where q: "q < 32" "reg_of s a = Some q" "\<not> free s1 ! q" using held(1) False by blast
        have "ivalue a \<noteq> ivalue cur" using same [of a cur] a1 False act1 curL by blast
        then have "reg_of s2 a = Some q" "\<not> free s2 ! q"
          using q reg2 r(4) len1 by (auto, cases "q = r") auto
        then show ?thesis using held(2) [OF a1 False] q(1) by blast
      qed
    qed
    show "\<forall>a \<in> set (active s2). \<forall>b \<in> set (active s2). ivalue a \<noteq> ivalue b \<longrightarrow> reg_of s2 a \<noteq> reg_of s2 b"
    proof (intro ballI impI)
      have cur_a: "reg_of s2 a \<noteq> Some r" if a: "a \<in> set (active s2)" "ivalue a \<noteq> ivalue cur" for a
      proof -
        have "a \<in> set (active s1)" "a \<noteq> cur" using a r(5) by auto
        then obtain q where "reg_of s a = Some q" "\<not> free s1 ! q" using held(1) by blast
        then show ?thesis using reg2 a(2) r(2) by auto
      qed
      fix a b assume ab: "a \<in> set (active s2)" "b \<in> set (active s2)" "ivalue a \<noteq> ivalue b"
      consider "ivalue a = ivalue cur" | "ivalue b = ivalue cur"
        | "ivalue a \<noteq> ivalue cur" "ivalue b \<noteq> ivalue cur" by blast
      then show "reg_of s2 a \<noteq> reg_of s2 b"
      proof cases
        case 1
        then show ?thesis using cur_a [OF ab(2)] ab(3) reg2 by auto
      next
        case 2
        then show ?thesis using cur_a [OF ab(1)] ab(3) reg2 by auto
      next
        case 3
        then have "a \<in> set (active s1)" "b \<in> set (active s1)" using ab r(5) by auto
        then have "reg_of s1 a \<noteq> reg_of s1 b" using hold1 3 ab(3) by (auto simp: holding_def)
        then show ?thesis using reg2 3 v1 by (simp add: reg_of_def)
      qed
    qed
  qed
  moreover have "value2mem s2 = (value2mem s)(ivalue cur := reg_of s2 cur)" using r(3) v1 reg2 by simp
  ultimately show ?thesis by blast
qed

lemma scan_loop_inv:
  assumes "scan_inv L P t s" and L: "distinct (map ivalue L)" "L = P @ us" "sorted (map li_start us)"
    and "\<forall>i \<in> set us. li_start i < li_end i \<and> t \<le> li_start i"
    and nolv: "no_loop_variables fn im L"
    and "\<forall>i \<in> set us. (\<exists>v. ivalue i = Value v) \<or> value2mem s (ivalue i) = None"
    and "scan_loop fn im us s = Ok s'" and em: "emitted s' = []"
  shows "\<exists>t'. scan_inv L L t' s'"
  using assms(1,2,3,4,5,7,8)
proof (induction us arbitrary: P t s)
  case Nil
  then show ?case by auto
next
  case (Cons cur us)
  from Cons.prems(7) obtain s1 s2 where run: "expire_old_intervals cur s = Ok s1"
      "allocate_register fn im cur (collect_available_registers fn im cur s1 us) s1 = Ok s2"
      "scan_loop fn im us s2 = Ok s'"
    by (auto simp: and_then_eq_Ok Let_def split: if_splits)
  have em2: "emitted s2 = []" using scan_loop_emitted [OF run(3)] em by auto
  have sub: "set P \<union> {cur} \<subseteq> set L" "cur \<notin> set P"
    using Cons.prems(2,3) by (auto simp: distinct_map)
  have cur: "li_start cur < li_end cur" "t \<le> li_start cur"
      "(\<exists>v. ivalue cur = Value v) \<or> value2mem s (ivalue cur) = None"
    using Cons.prems(5,6) by auto
  note step = scan_step [OF Cons.prems(1,2) sub cur(1,2) nolv cur(3) run(1,2) em2]
  have "\<forall>i \<in> set us. ivalue i \<noteq> ivalue cur"
    using Cons.prems(2,3) by (auto simp: image_iff)
  then have fwd: "\<forall>i \<in> set us. (\<exists>v. ivalue i = Value v) \<or> value2mem s2 (ivalue i) = None"
    using Cons.prems(6) step by (auto simp: fun_eq_iff)
  show ?case
    by (rule Cons.IH [of "P @ [cur]" "li_start cur" s2])
      (use step Cons.prems(2,3,4,5) fwd run(3) in auto)
qed

lemma preallocate_spec:
  assumes "\<forall>i \<in> set us. \<forall>n k. ivalue i = ForwardedOutput n k \<longrightarrow> im (ivalue i) = []"
  shows "scan_wf s \<Longrightarrow> scan_wf (preallocate_r0 fn im us s) \<and>
     emitted (preallocate_r0 fn im us s) = emitted s \<and> active (preallocate_r0 fn im us s) = active s \<and>
     set (inactive (preallocate_r0 fn im us s)) \<subseteq> set (inactive s) \<union> set us \<and>
     (\<forall>n k. value2mem (preallocate_r0 fn im us s) (ForwardedOutput n k) = value2mem s (ForwardedOutput n k))"
  using assms
proof (induction us arbitrary: s)
  case (Cons i us)
  let ?s = "if needs_r0 fn im (ivalue i)
        then s\<lparr>value2mem := (value2mem s)(ivalue i := Some 0), inactive := set_insert i (inactive s)\<rparr> else s"
  have "scan_wf ?s" using Cons.prems(1) by (auto simp: scan_wf_def)
  moreover have "value2mem ?s (ForwardedOutput n k) = value2mem s (ForwardedOutput n k)" for n k
    using Cons.prems(2) by (cases "ivalue i") (auto simp: needs_r0_def)
  ultimately show ?case using Cons.IH [of ?s] Cons.prems(2) by auto
qed simp

lemma linear_scan_inv:
  assumes L: "distinct (map ivalue L)" "\<forall>i \<in> set L. li_start i < li_end i"
    and im: "no_loop_variables fn im L" "\<forall>n k. im (ForwardedOutput n k) = []"
    and run: "linear_scan fn im L = Ok s" and em: "emitted s = []"
  shows "\<exists>t. scan_inv L L t s"
proof -
  let ?s = "preallocate_r0 fn im L scan_start"
  have "scan_wf scan_start" by (simp add: scan_wf_def scan_start_def)
  note pre = preallocate_spec [where us = L and im = im and fn = fn, OF _ this]
  have inv: "scan_inv L [] 0 ?s"
    using pre im(2) by (auto simp: scan_inv_def scan_start_def)
  have fwd: "\<forall>i \<in> set L. (\<exists>v. ivalue i = Value v) \<or> value2mem ?s (ivalue i) = None"
  proof
    fix i
    show "(\<exists>v. ivalue i = Value v) \<or> value2mem ?s (ivalue i) = None"
      using pre im(2) by (cases "ivalue i") (auto simp: scan_start_def)
  qed
  show ?thesis
    using scan_loop_inv [OF inv L(1) _ _ _ im(1) fwd _ em] run L(2)
    by (auto simp: linear_scan_def assert_that_eq_Ok)
qed

section \<open>Properties\<close>


definition demo_interval :: "nat \<Rightarrow> nat \<Rightarrow> ir_value \<Rightarrow> live_interval" where
  "demo_interval s e v = \<lparr>intervals = [(s, e)], ivalue = v\<rparr>"

definition demo_intervals :: "live_interval list" where
  "demo_intervals = [demo_interval 0 3 (Value 7), demo_interval 1 3 (Value 8)]"

definition registers_of :: "scan py_result \<Rightarrow> nat list \<Rightarrow> nat option list \<times> (nat \<times> nat \<times> nat) list" where
  "registers_of r vs = (case r of Ok s \<Rightarrow> (map (\<lambda>v. value2mem s (Value v)) vs, emitted s) | _ \<Rightarrow> ([], []))"

lemma demo_run:
  "registers_of (linear_scan [] (\<lambda>_. []) demo_intervals) [7, 8] = ([Some 0, Some 1], [])"
  by code_simp


section \<open>Where the allocator fails\<close>

text \<open>Both hypotheses of \<open>linear_scan_safe\<close> are needed. Two calls whose results overlap: the second
  one is moved to register 1, which stays marked as free, and the next value gets it too. A loop over
  the iterator 1 with the variable 2: the end of the variable frees the register of the iterator.\<close>

definition call_op :: "nat \<Rightarrow> nat \<Rightarrow> operation" where
  "call_op n v = \<lparr>op_id = n, kind = FunctionCall, operands = [], results = [v], is_pure = False\<rparr>"

definition two_calls :: func where
  "two_calls = [\<lparr>arguments = [], ops = [call_op 0 1, call_op 1 2], successors = []\<rparr>]"

definition overlapping_calls :: "live_interval list" where
  "overlapping_calls =
     [demo_interval 0 4 (Value 1), demo_interval 1 5 (Value 2), demo_interval 2 5 (Value 3)]"

definition one_loop :: func where
  "one_loop =
     [\<lparr>arguments = [], ops = [\<lparr>op_id = 0, kind = ForIter, operands = [1], results = [], is_pure = False\<rparr>],
       successors = [(1, []), (2, [])]\<rparr>,
      \<lparr>arguments = [2], ops = [], successors = []\<rparr>, \<lparr>arguments = [], ops = [], successors = []\<rparr>]"

definition loop_intervals :: "live_interval list" where
  "loop_intervals = [demo_interval 0 10 (Value 1), demo_interval 1 3 (ForwardedOutput 0 0),
     demo_interval 2 4 (Value 2), demo_interval 6 9 (Value 3)]"

definition loop_flows :: flows_in where
  "loop_flows v = (if v = Value 2 then [ForwardedOutput 0 0] else [])"

lemma overlapping_calls_run:
  "registers_of (linear_scan two_calls (\<lambda>_. []) overlapping_calls) [1, 2, 3] =
     ([Some 0, Some 1, Some 1], [(2, 0, 1)])"
  by code_simp

lemma loop_run:
  "registers_of (linear_scan one_loop loop_flows loop_intervals) [1, 2, 3] = ([Some 0, Some 2, Some 0], [])"
  by code_simp


end
