(* ===== verification/Shapes.thy ===== *)
theory Shapes
  imports Prelude
begin

text \<open>
  Hidden classes (\<^verbatim>\<open>src/src/runtime/shape/Shape.cpp\<close>). A shape is a position in a table that only
  grows, types are numbers, and names are interned strings: \<^verbatim>\<open>PyString::intern\<close> gives equal texts
  one address, so that a name stands for its interned string.
\<close>

section \<open>The data\<close>

record shape =
  owner_type :: nat
  property_name :: "string option"
  slot_count :: nat
  shape_version :: nat
  offsets :: "string \<rightharpoonup> nat"
  transitions :: "string \<rightharpoonup> nat"

record shape_store =
  shape_table :: "shape list"
  shape_roots :: "nat \<rightharpoonup> nat"
  version_counter :: nat

definition no_shapes :: shape_store where
  "no_shapes = \<lparr>shape_table = [], shape_roots = \<lambda>_. None, version_counter = 1\<rparr>"

section \<open>The operations\<close>

definition next_shape_version :: "shape_store \<Rightarrow> nat \<times> shape_store" where
  "next_shape_version st = (version_counter st, st\<lparr>version_counter := (version_counter st + 1) mod 2 ^ 64\<rparr>)"

definition root_shape :: "nat \<Rightarrow> nat \<Rightarrow> shape" where
  "root_shape t version =
     \<lparr>owner_type = t, property_name = None, slot_count = 0, shape_version = version,
      offsets = \<lambda>_. None, transitions = \<lambda>_. None\<rparr>"

text \<open>\<^verbatim>\<open>emplace\<close> keeps an offset that is already there.\<close>

definition child_shape :: "shape \<Rightarrow> string \<Rightarrow> nat \<Rightarrow> nat \<Rightarrow> shape" where
  "child_shape parent name offset version =
     \<lparr>owner_type = owner_type parent, property_name = Some name, slot_count = offset + 1,
      shape_version = version,
      offsets = (case offsets parent name of None \<Rightarrow> (offsets parent)(name \<mapsto> offset) | Some _ \<Rightarrow> offsets parent),
      transitions = \<lambda>_. None\<rparr>"

definition shape_root :: "nat \<Rightarrow> shape_store \<Rightarrow> nat \<times> shape_store" where
  "shape_root t st =
     (case shape_roots st t of
        Some s \<Rightarrow> (s, st)
      | None \<Rightarrow>
          (case next_shape_version st of (version, st1) \<Rightarrow>
             (length (shape_table st1),
              st1\<lparr>shape_table := shape_table st1 @ [root_shape t version],
                 shape_roots := (shape_roots st1)(t \<mapsto> length (shape_table st1))\<rparr>)))"

definition shape_transition :: "nat \<Rightarrow> string \<Rightarrow> shape_store \<Rightarrow> nat \<times> shape_store" where
  "shape_transition s name st =
     (case transitions (shape_table st ! s) name of
        Some s' \<Rightarrow> (s', st)
      | None \<Rightarrow>
          (case next_shape_version st of (version, st1) \<Rightarrow>
             let parent = shape_table st1 ! s;
                 new = length (shape_table st1)
             in (new,
                 st1\<lparr>shape_table :=
                       (shape_table st1)[s := parent\<lparr>transitions := (transitions parent)(name \<mapsto> new)\<rparr>]
                       @ [child_shape parent name (slot_count parent) version]\<rparr>)))"

definition shape_lookup :: "shape_store \<Rightarrow> nat \<Rightarrow> string \<Rightarrow> nat option" where
  "shape_lookup st s name = offsets (shape_table st ! s) name"

section \<open>Well formed stores\<close>

text \<open>The offsets of a shape number its names from 0 on. A transition leads to a shape that only adds
  one name, behind the others.\<close>

definition shape_ok :: "shape \<Rightarrow> bool" where
  "shape_ok s \<longleftrightarrow> inj_on (offsets s) (dom (offsets s)) \<and> ran (offsets s) = {..< slot_count s}"

definition steps_to :: "shape_store \<Rightarrow> nat \<Rightarrow> string \<Rightarrow> nat \<Rightarrow> bool" where
  "steps_to st s name s' \<longleftrightarrow>
     s' < length (shape_table st) \<and>
     owner_type (shape_table st ! s') = owner_type (shape_table st ! s) \<and>
     slot_count (shape_table st ! s') = slot_count (shape_table st ! s) + 1 \<and>
     offsets (shape_table st ! s') = (offsets (shape_table st ! s))(name \<mapsto> slot_count (shape_table st ! s))"

text \<open>A shape with a transition for a name does not have the name.\<close>

definition shapes_ok :: "shape_store \<Rightarrow> bool" where
  "shapes_ok st \<longleftrightarrow>
     (\<forall>s < length (shape_table st). shape_ok (shape_table st ! s) \<and> slot_count (shape_table st ! s) \<le> s \<and>
        (\<forall>name s'. transitions (shape_table st ! s) name = Some s' \<longrightarrow>
           offsets (shape_table st ! s) name = None \<and> steps_to st s name s')) \<and>
     (\<forall>t s. shape_roots st t = Some s \<longrightarrow>
        s < length (shape_table st) \<and> owner_type (shape_table st ! s) = t \<and>
        slot_count (shape_table st ! s) = 0 \<and> offsets (shape_table st ! s) = (\<lambda>_. None))"

text \<open>The store grows: shapes keep all but their transitions, and transitions and roots stay.\<close>

definition shape_kept :: "shape \<Rightarrow> shape \<Rightarrow> bool" where
  "shape_kept s s' \<longleftrightarrow>
     offsets s' = offsets s \<and> slot_count s' = slot_count s \<and> owner_type s' = owner_type s \<and>
     transitions s \<subseteq>\<^sub>m transitions s'"

definition shapes_grow :: "shape_store \<Rightarrow> shape_store \<Rightarrow> bool" where
  "shapes_grow st st' \<longleftrightarrow>
     length (shape_table st) \<le> length (shape_table st') \<and>
     (\<forall>s < length (shape_table st). shape_kept (shape_table st ! s) (shape_table st' ! s)) \<and>
     shape_roots st \<subseteq>\<^sub>m shape_roots st'"

lemma shape_kept_refl [simp]: "shape_kept s s"
  by (simp add: shape_kept_def)

lemma shape_kept_trans: "shape_kept a b \<Longrightarrow> shape_kept b c \<Longrightarrow> shape_kept a c"
  unfolding shape_kept_def using map_le_trans by fastforce

lemma shape_kept_simps:
  "shape_kept s s' \<Longrightarrow> shape_ok s' = shape_ok s"
  "shape_kept s s' \<Longrightarrow> transitions s name = Some x \<Longrightarrow> transitions s' name = Some x"
  by (auto simp: shape_kept_def shape_ok_def map_le_def) (metis domI)

lemma shapes_grow_refl [simp]: "shapes_grow st st"
  by (simp add: shapes_grow_def)

lemma shapes_grow_trans: "shapes_grow a b \<Longrightarrow> shapes_grow b c \<Longrightarrow> shapes_grow a c"
  unfolding shapes_grow_def by (meson map_le_trans order_less_le_trans order_trans shape_kept_trans)

lemma steps_to_grow:
  "steps_to st s name s' \<Longrightarrow> s < length (shape_table st) \<Longrightarrow> shapes_grow st st' \<Longrightarrow> steps_to st' s name s'"
  unfolding steps_to_def shapes_grow_def shape_kept_def by fastforce

lemma new_shape_fields [simp]:
  "transitions (root_shape t version) = (\<lambda>_. None)" "slot_count (root_shape t version) = 0"
  "owner_type (root_shape t version) = t" "offsets (root_shape t version) = (\<lambda>_. None)"
  "transitions (child_shape s name i version) = (\<lambda>_. None)" "slot_count (child_shape s name i version) = i + 1"
  "owner_type (child_shape s name i version) = owner_type s"
  "offsets s name = None \<Longrightarrow> offsets (child_shape s name i version) = (offsets s)(name \<mapsto> i)"
  by (simp_all add: root_shape_def child_shape_def)

lemma shape_ok_root [simp]: "shape_ok (root_shape t version)"
  by (simp add: shape_ok_def)

lemma shape_offset_less: "shape_ok s \<Longrightarrow> offsets s name = Some offset \<Longrightarrow> offset < slot_count s"
  unfolding shape_ok_def by (metis lessThan_iff ranI)

lemma shape_ok_child:
  assumes ok: "shape_ok s" and new: "offsets s name = None"
  shows "shape_ok (child_shape s name (slot_count s) version)"
proof -
  have fresh: "offsets s n \<noteq> Some (slot_count s)" for n using shape_offset_less [OF ok] by blast
  have inj: "inj_on (offsets s) (dom (offsets s))" and ran: "ran (offsets s) = {..< slot_count s}"
    using ok by (auto simp: shape_ok_def)
  have "ran ((offsets s)(name \<mapsto> slot_count s)) = {..< slot_count s + 1}"
    using ran_map_upd [of "offsets s" name, OF new] ran by auto
  moreover have "inj_on ((offsets s)(name \<mapsto> slot_count s)) (insert name (dom (offsets s)))"
    using inj new fresh by (auto simp: inj_on_def domIff)
  ultimately show ?thesis
    using new by (simp add: shape_ok_def)
qed

lemma shapes_ok_empty [simp]: "shapes_ok no_shapes"
  by (simp add: shapes_ok_def no_shapes_def)

lemma shapes_okD:
  assumes "shapes_ok st" "s < length (shape_table st)"
  shows "shape_ok (shape_table st ! s)" "slot_count (shape_table st ! s) \<le> s"
    "transitions (shape_table st ! s) name = Some s' \<Longrightarrow> offsets (shape_table st ! s) name = None"
    "transitions (shape_table st ! s) name = Some s' \<Longrightarrow> steps_to st s name s'"
  using assms by (auto simp: shapes_ok_def)

lemma shape_root_spec:
  assumes ok: "shapes_ok st" and run: "shape_root t st = (s, st')"
  shows "shapes_ok st' \<and> shapes_grow st st' \<and> shape_roots st' t = Some s \<and>
     s < length (shape_table st') \<and> owner_type (shape_table st' ! s) = t \<and>
     slot_count (shape_table st' ! s) = 0 \<and> offsets (shape_table st' ! s) = (\<lambda>_. None)"
proof (cases "shape_roots st t")
  case None
  let ?n = "length (shape_table st)"
  have st': "shape_table st' = shape_table st @ [root_shape t (version_counter st)]"
    "shape_roots st' = (shape_roots st)(t \<mapsto> ?n)" "s = ?n"
    using run None by (auto simp: shape_root_def next_shape_version_def)
  have grow: "shapes_grow st st'"
    using None by (auto simp: shapes_grow_def st' nth_append map_le_def)
  have root: "shape_table st' ! ?n = root_shape t (version_counter st)" by (simp add: st')
  have old: "shape_table st' ! i = shape_table st ! i" if "i < ?n" for i
    using that by (simp add: st' nth_append)
  have "shape_ok (shape_table st' ! i) \<and> slot_count (shape_table st' ! i) \<le> i \<and>
        (\<forall>name s'. transitions (shape_table st' ! i) name = Some s' \<longrightarrow>
           offsets (shape_table st' ! i) name = None \<and> steps_to st' i name s')"
    if "i < length (shape_table st')" for i
  proof (cases "i = ?n")
    case True
    then show ?thesis using root by simp
  next
    case False
    then have i: "i < ?n" using that by (simp add: st')
    then show ?thesis using shapes_okD [OF ok i] steps_to_grow [OF _ i grow] old [OF i] by auto
  qed
  moreover have "s' < length (shape_table st') \<and> owner_type (shape_table st' ! s') = t' \<and>
        slot_count (shape_table st' ! s') = 0 \<and> offsets (shape_table st' ! s') = (\<lambda>_. None)"
    if "shape_roots st' t' = Some s'" for t' s'
  proof (cases "t' = t")
    case True
    then show ?thesis using that root by (simp add: st')
  next
    case False
    then have "shape_roots st t' = Some s'" using that by (simp add: st'(2))
    then have "s' < ?n" "owner_type (shape_table st ! s') = t'" "slot_count (shape_table st ! s') = 0"
        "offsets (shape_table st ! s') = (\<lambda>_. None)" using ok by (simp_all add: shapes_ok_def)
    then show ?thesis using old [of s'] by (simp add: st'(1))
  qed
  ultimately show ?thesis
    using grow st'(2,3) root by (simp add: shapes_ok_def st'(1))
next
  case (Some r)
  then show ?thesis using assms by (auto simp: shape_root_def shapes_ok_def)
qed

lemma shape_transition_spec:
  assumes ok: "shapes_ok st" and s: "s < length (shape_table st)"
    and new: "offsets (shape_table st ! s) name = None"
    and run: "shape_transition s name st = (s', st')"
  shows "shapes_ok st' \<and> shapes_grow st st' \<and> steps_to st' s name s' \<and>
     transitions (shape_table st' ! s) name = Some s'"
proof (cases "transitions (shape_table st ! s) name")
  case None
  let ?n = "length (shape_table st)"
  let ?p = "shape_table st ! s"
  let ?p' = "?p\<lparr>transitions := (transitions ?p)(name \<mapsto> ?n)\<rparr>"
  let ?c = "child_shape ?p name (slot_count ?p) (version_counter st)"
  have st': "shape_table st' = (shape_table st)[s := ?p'] @ [?c]" "shape_roots st' = shape_roots st" "s' = ?n"
    using run None by (auto simp: shape_transition_def next_shape_version_def Let_def)
  have kept: "shape_kept (shape_table st ! i) (shape_table st' ! i)" if "i < ?n" for i
    using that None by (cases "i = s") (auto simp: st' nth_append shape_kept_def map_le_def)
  then have grow: "shapes_grow st st'"
    by (auto simp: shapes_grow_def st')
  have child: "shape_table st' ! ?n = ?c" by (simp add: st' nth_append)
  have parent: "shape_table st' ! s = ?p'" using s by (simp add: st' nth_append)
  have step: "steps_to st' s name ?n"
    using new unfolding steps_to_def child parent by (simp add: st')
  have "shape_ok (shape_table st' ! i) \<and> slot_count (shape_table st' ! i) \<le> i \<and>
        (\<forall>name s'. transitions (shape_table st' ! i) name = Some s' \<longrightarrow>
           offsets (shape_table st' ! i) name = None \<and> steps_to st' i name s')"
    if "i < length (shape_table st')" for i
  proof (cases "i = ?n")
    case True
    then show ?thesis
      using child shape_ok_child [OF shapes_okD(1) [OF ok s] new] shapes_okD(2) [OF ok s] s
      by (simp add: True)
  next
    case False
    then have i: "i < ?n" using that by (simp add: st')
    have ki: "offsets (shape_table st' ! i) = offsets (shape_table st ! i)"
        "slot_count (shape_table st' ! i) = slot_count (shape_table st ! i)"
      using kept [OF i] by (simp_all add: shape_kept_def)
    have "offsets (shape_table st ! i) m = None \<and> steps_to st' i m x"
      if x: "transitions (shape_table st' ! i) m = Some x" for m x
    proof (cases "i = s \<and> m = name")
      case True
      then show ?thesis using x parent step new by simp
    next
      case False
      then have "transitions (shape_table st ! i) m = Some x"
        using x i by (cases "i = s") (auto simp: st' nth_append)
      then show ?thesis using shapes_okD(3,4) [OF ok i] steps_to_grow [OF _ i grow] by blast
    qed
    then show ?thesis
      using shapes_okD(1,2) [OF ok i] shape_kept_simps(1) [OF kept [OF i]] ki by simp
  qed
  moreover have "t < length (shape_table st') \<and> owner_type (shape_table st' ! t) = r \<and>
        slot_count (shape_table st' ! t) = 0 \<and> offsets (shape_table st' ! t) = (\<lambda>_. None)"
    if "shape_roots st' r = Some t" for r t
  proof -
    have t: "t < ?n" "owner_type (shape_table st ! t) = r"
        "slot_count (shape_table st ! t) = 0" "offsets (shape_table st ! t) = (\<lambda>_. None)"
      using that ok by (auto simp: st'(2) shapes_ok_def)
    then show ?thesis using kept [OF t(1)] by (simp add: shape_kept_def st'(1))
  qed
  ultimately show ?thesis using grow step parent st'(3) by (simp add: shapes_ok_def)
next
  case (Some x)
  then show ?thesis using shapes_okD(4) [OF ok s Some] ok run by (simp add: shape_transition_def)
qed

end
