(* ===== verification/Attributes.thy ===== *)
theory Attributes
  imports Shapes "HOL-Library.Word"
begin

unbundle bit_operations_syntax

text \<open>
  Attribute access and its inline caches: \<^verbatim>\<open>PyObject::__getattribute__\<close>, \<^verbatim>\<open>__setattribute__\<close> and
  \<^verbatim>\<open>materialize_instance_dict\<close> (\<^verbatim>\<open>src/src/runtime/PyObject.cpp\<close>), \<^verbatim>\<open>PyType::lookup\<close>
  (\<^verbatim>\<open>PyType.cpp\<close>), \<^verbatim>\<open>AttrCache\<close> (\<^verbatim>\<open>AttributeCache.hpp\<close>), and \<^verbatim>\<open>rt_getattr_ic\<close>,
  \<^verbatim>\<open>rt_setattr_ic\<close> (\<^verbatim>\<open>export/cache/rt_attr_cache.cpp\<close>). Addresses are numbers and 0 is the null
  pointer. What calls other code (the \<^verbatim>\<open>__get__\<close> and \<^verbatim>\<open>__set__\<close> of a descriptor, a
  \<^verbatim>\<open>__getattribute__\<close> of a class) ends the access with a result that names the call.
\<close>

section \<open>Objects, types and the state\<close>

definition holds_for :: "'a option \<Rightarrow> ('a \<Rightarrow> bool) \<Rightarrow> bool" where
  "holds_for x P = (case x of None \<Rightarrow> False | Some d \<Rightarrow> P d)"

lemma holds_for_simps [simp]: "\<not> holds_for None P" "holds_for (Some d) P = P d"
  by (simp_all add: holds_for_def)

lemma holds_for_iff: "holds_for x P \<longleftrightarrow> (\<exists>d. x = Some d \<and> P d)"
  by (cases x) simp_all

text \<open>The types the code compares with, one of each.\<close>

datatype builtin_type =
  TypeType | FunctionType | NativeFunctionType | MethodWrapperType | SlotWrapperType
| StaticMethodType | ClassMethodType | ClassMethodDescriptorType | OtherType

text \<open>A slot of a type holds \<^verbatim>\<open>PyObject\<close>'s own function, a function of another built-in class, or a
  Python object.\<close>

datatype attr_slot = No_slot | Object_slot | Builtin_slot | Python_slot

record pytype =
  which :: builtin_type
  is_type :: bool
  is_heaptype :: bool
  explicit_slots :: bool
  slot_names :: "string list"
  bases :: "nat list"
  mro :: "nat list"
  tdict :: "string \<rightharpoonup> nat"
  has_get :: bool
  has_set :: bool
  getattribute_slot :: attr_slot
  setattribute_slot :: attr_slot

record py_object =
  otype :: nat
  oshape :: "nat option"
  oslots :: "nat list"
  instance_dict :: "nat option"

record cache_entry =
  ce_type :: nat
  ce_name :: nat
  ce_attr :: nat
  ce_version :: nat

record world =
  shapes :: shape_store
  types :: "nat \<Rightarrow> pytype"
  objects :: "nat \<Rightarrow> py_object"
  dicts :: "nat \<Rightarrow> (string \<rightharpoonup> nat)"
  next_dict :: nat
  global_version :: nat
  lookup_table :: "nat \<Rightarrow> cache_entry"
  update_table :: "nat \<Rightarrow> cache_entry"

abbreviation type_of :: "world \<Rightarrow> nat \<Rightarrow> pytype" where
  "type_of w o' \<equiv> types w (otype (objects w o'))"

definition inc_global_version :: "world \<Rightarrow> world" where
  "inc_global_version w = w\<lparr>global_version := (global_version w + 1) mod 2 ^ 64\<rparr>"

section \<open>Looking up in the type\<close>

fun lookup_in :: "(nat \<Rightarrow> pytype) \<Rightarrow> nat list \<Rightarrow> string \<Rightarrow> nat option" where
  "lookup_in ts [] name = None"
| "lookup_in ts (t # rest) name =
     (case tdict (ts t) name of Some d \<Rightarrow> Some d | None \<Rightarrow> lookup_in ts rest name)"

definition type_lookup :: "world \<Rightarrow> nat \<Rightarrow> string \<Rightarrow> nat option" where
  "type_lookup w t name = lookup_in (types w) (mro (types w t)) name"

text \<open>\<^verbatim>\<open>descriptor_is_data\<close> looks at the type of its argument, and all callers here pass it the type of
  the descriptor, so that it looks at a metaclass.\<close>

definition descriptor_is_data :: "world \<Rightarrow> nat \<Rightarrow> bool" where
  "descriptor_is_data w obj \<longleftrightarrow> which (type_of w obj) \<noteq> StaticMethodType \<and> which (type_of w obj) \<noteq> SlotWrapperType"

definition descr_has_get :: "world \<Rightarrow> nat \<Rightarrow> bool" where
  "descr_has_get w d \<longleftrightarrow> has_get (type_of w d)"

definition descr_has_set :: "world \<Rightarrow> nat \<Rightarrow> bool" where
  "descr_has_set w d \<longleftrightarrow> has_set (type_of w d)"

definition is_data :: "world \<Rightarrow> nat \<Rightarrow> bool" where
  "is_data w d \<longleftrightarrow> descriptor_is_data w (otype (objects w d))"

section \<open>The instance dictionary\<close>

text \<open>\<open>fuel\<close> bounds the depth of the inheritance; \<open>allows_instance_dict\<close> takes the length of the
  method resolution order, which is larger than that of each base.\<close>

fun type_allows_dict :: "(nat \<Rightarrow> pytype) \<Rightarrow> nat \<Rightarrow> nat \<Rightarrow> bool" where
  "type_allows_dict ts 0 t = False"
| "type_allows_dict ts (Suc fuel) t =
     (if t = 0 \<or> \<not> is_heaptype (ts t) then False
      else if \<not> explicit_slots (ts t) then True
      else if list_ex (\<lambda>slot. slot = ''__dict__'') (slot_names (ts t)) then True
      else list_ex (type_allows_dict ts fuel) (bases (ts t)))"

definition allows_instance_dict :: "world \<Rightarrow> nat \<Rightarrow> bool" where
  "allows_instance_dict w ob =
     type_allows_dict (types w) (length (mro (type_of w ob))) (otype (objects w ob))"

datatype attr_result =
  Found nat | Instance_dict nat | Get_descriptor nat | Call_getattribute | Builtin_getattribute
| Attribute_error | Get_todo

definition dict_of_slots :: "world \<Rightarrow> py_object \<Rightarrow> (string \<rightharpoonup> nat)" where
  "dict_of_slots w x =
     (case oshape x of
        None \<Rightarrow> (\<lambda>_. None)
      | Some s \<Rightarrow> (\<lambda>name. case shape_lookup (shapes w) s name of
          None \<Rightarrow> None
        | Some offset \<Rightarrow>
            if offset < length (oslots x) \<and> oslots x ! offset \<noteq> 0 then Some (oslots x ! offset) else None))"

definition materialize_instance_dict :: "nat \<Rightarrow> world \<Rightarrow> attr_result \<times> world" where
  "materialize_instance_dict ob w =
     (if \<not> allows_instance_dict w ob then (Attribute_error, w)
      else case instance_dict (objects w ob) of
        Some d \<Rightarrow> (Instance_dict d, w)
      | None \<Rightarrow>
          let d = next_dict w in
          (Instance_dict d,
           w\<lparr>dicts := (dicts w)(d := dict_of_slots w (objects w ob)), next_dict := d + 1,
             objects := (objects w)(ob := (objects w ob)\<lparr>instance_dict := Some d\<rparr>)\<rparr>))"

section \<open>Access without a cache\<close>

text \<open>\<^verbatim>\<open>PyObject::__getattribute__\<close> with a name that is a string.\<close>

definition instance_lookup :: "world \<Rightarrow> nat \<Rightarrow> string \<Rightarrow> nat option" where
  "instance_lookup w ob name =
     (case instance_dict (objects w ob) of
        Some d \<Rightarrow> dicts w d name
      | None \<Rightarrow>
          (case oshape (objects w ob) of
             None \<Rightarrow> None
           | Some s \<Rightarrow> map_option (\<lambda>offset. oslots (objects w ob) ! offset) (shape_lookup (shapes w) s name)))"

definition object_getattribute :: "nat \<Rightarrow> string \<Rightarrow> world \<Rightarrow> attr_result \<times> world" where
  "object_getattribute ob name w =
     (let descriptor = type_lookup w (otype (objects w ob)) name in
      if holds_for descriptor (\<lambda>d. descr_has_get w d \<and> is_data w d)
      then (Get_descriptor (the descriptor), w)
      else if name = ''__dict__'' then materialize_instance_dict ob w
      else case instance_lookup w ob name of
        Some v \<Rightarrow> (Found v, w)
      | None \<Rightarrow>
          (case descriptor of
             Some d \<Rightarrow> (if descr_has_get w d then Get_descriptor d else Found d, w)
           | None \<Rightarrow> (Attribute_error, w)))"

definition getattribute :: "nat \<Rightarrow> string \<Rightarrow> world \<Rightarrow> attr_result \<times> world" where
  "getattribute ob name w =
     (case getattribute_slot (type_of w ob) of
        No_slot \<Rightarrow> (Get_todo, w)
      | Object_slot \<Rightarrow> object_getattribute ob name w
      | Builtin_slot \<Rightarrow> (Builtin_getattribute, w)
      | Python_slot \<Rightarrow> (Call_getattribute, w))"

datatype set_result =
  Stored | Set_descriptor nat | Call_setattribute | Builtin_setattribute | Type_error | Set_attribute_error | Set_assertion

definition set_object :: "nat \<Rightarrow> py_object \<Rightarrow> world \<Rightarrow> world" where
  "set_object ob x w = w\<lparr>objects := (objects w)(ob := x)\<rparr>"

text \<open>\<^verbatim>\<open>PyObject::__setattribute__\<close>. A value assigned to \<^verbatim>\<open>__dict__\<close> is a dictionary if
  \<open>as_dict\<close> gives its place.\<close>

definition store_attribute :: "nat \<Rightarrow> string \<Rightarrow> nat \<Rightarrow> world \<Rightarrow> world" where
  "store_attribute ob name v w =
     (let x = objects w ob in
      case oshape x of
        None \<Rightarrow>
          (case shape_root (otype x) (shapes w) of (root, st) \<Rightarrow>
           case shape_transition root name st of (s, st') \<Rightarrow>
             set_object ob (x\<lparr>oshape := Some s, oslots := oslots x @ [v]\<rparr>) (w\<lparr>shapes := st'\<rparr>))
      | Some s \<Rightarrow>
          (case shape_lookup (shapes w) s name of
             Some offset \<Rightarrow> set_object ob (x\<lparr>oslots := (oslots x)[offset := v]\<rparr>) w
           | None \<Rightarrow>
               (case shape_transition s name (shapes w) of (s', st') \<Rightarrow>
                  set_object ob (x\<lparr>oshape := Some s', oslots := oslots x @ [v]\<rparr>) (w\<lparr>shapes := st'\<rparr>))))"

definition object_setattribute ::
  "(nat \<rightharpoonup> nat) \<Rightarrow> nat \<Rightarrow> string \<Rightarrow> nat \<Rightarrow> world \<Rightarrow> set_result \<times> world" where
  "object_setattribute as_dict ob name v w =
     (if is_type (type_of w ob)
      then (Stored, (inc_global_version w)\<lparr>types := (types w)(ob := (types w ob)\<lparr>tdict := (tdict (types w ob))(name \<mapsto> v)\<rparr>)\<rparr>)
      else
        let descriptor = type_lookup w (otype (objects w ob)) name in
        if holds_for descriptor (\<lambda>d. is_data w d \<and> descr_has_set w d)
        then (Set_descriptor (the descriptor), w)
        else if name = ''__dict__''
        then (case as_dict v of
                None \<Rightarrow> (Type_error, w)
              | Some d \<Rightarrow>
                  if \<not> allows_instance_dict w ob then (Set_attribute_error, w)
                  else (Stored, set_object ob ((objects w ob)\<lparr>instance_dict := Some d\<rparr>) w))
        else case instance_dict (objects w ob) of
          Some d \<Rightarrow> (Stored, w\<lparr>dicts := (dicts w)(d := (dicts w d)(name \<mapsto> v))\<rparr>)
        | None \<Rightarrow> (Stored, store_attribute ob name v w))"

definition setattribute ::
  "(nat \<rightharpoonup> nat) \<Rightarrow> nat \<Rightarrow> string \<Rightarrow> nat \<Rightarrow> world \<Rightarrow> set_result \<times> world" where
  "setattribute as_dict ob name v w =
     (case setattribute_slot (type_of w ob) of
        No_slot \<Rightarrow> (Type_error, w)
      | Object_slot \<Rightarrow> object_setattribute as_dict ob name v w
      | Builtin_slot \<Rightarrow> (Builtin_setattribute, w)
      | Python_slot \<Rightarrow> (Call_setattribute, w))"

section \<open>The table of attributes\<close>

text \<open>\<^verbatim>\<open>AttrCache::lookup\<close> and \<^verbatim>\<open>AttrCache::update\<close> each declare a \<^verbatim>\<open>static\<close> table of their own.
  The address of the characters of a name is a parameter. \<open>attr_absent\<close> is the pointer \<^verbatim>\<open>-1\<close>.\<close>

definition attr_absent :: nat where
  "attr_absent = 2 ^ 64 - 1"

definition attr_hash :: "nat \<Rightarrow> nat \<Rightarrow> nat" where
  "attr_hash t name = (drop_bit 3 t XOR name) mod (256 * 3)"

definition attr_cache_lookup :: "nat \<Rightarrow> nat \<Rightarrow> nat \<Rightarrow> world \<Rightarrow> nat option" where
  "attr_cache_lookup t name version w =
     (let e = lookup_table w (attr_hash t name) in
      if ce_type e = t \<and> ce_name e = name \<and> ce_version e = version \<and> ce_attr e \<noteq> 0
      then Some (ce_attr e) else None)"

definition attr_cache_update :: "nat \<Rightarrow> nat \<Rightarrow> nat \<Rightarrow> nat \<Rightarrow> world \<Rightarrow> world" where
  "attr_cache_update t name attr version w =
     w\<lparr>update_table := (update_table w)(attr_hash t name :=
         \<lparr>ce_type = t, ce_name = name, ce_attr = attr, ce_version = version\<rparr>)\<rparr>"

section \<open>Inline caches\<close>

record attr_ic =
  ic_kind :: nat
  expected_type :: nat
  ic_version :: nat
  expected_shape :: "nat option"
  next_shape :: "nat option"
  slot_offset :: nat

definition empty_ic :: attr_ic where
  "empty_ic = \<lparr>ic_kind = 0, expected_type = 0, ic_version = 0, expected_shape = None, next_shape = None, slot_offset = 0\<rparr>"

definition uses_default :: "attr_slot \<Rightarrow> pytype \<Rightarrow> bool" where
  "uses_default slot t \<longleftrightarrow> slot \<noteq> No_slot \<and> slot \<noteq> Python_slot \<and> which t \<noteq> TypeType"

text \<open>The place of a name in an object, if it has one.\<close>

definition place :: "world \<Rightarrow> nat \<Rightarrow> string \<Rightarrow> (nat \<times> nat) option" where
  "place w ob name =
     (case oshape (objects w ob) of
        None \<Rightarrow> None
      | Some s \<Rightarrow> map_option (Pair s) (shape_lookup (shapes w) s name))"

text \<open>\<^verbatim>\<open>resolve_default_getattr\<close>; a call without a cache has none to fill.\<close>

definition fill_get :: "world \<Rightarrow> nat \<Rightarrow> nat \<Rightarrow> nat \<Rightarrow> attr_ic \<Rightarrow> attr_ic" where
  "fill_get w ob s offset ic =
     ic\<lparr>expected_type := otype (objects w ob), ic_version := global_version w,
        expected_shape := Some s, slot_offset := offset mod 2 ^ 32, ic_kind := 1\<rparr>"

definition resolve_cached :: "(string \<Rightarrow> nat) \<Rightarrow> nat \<Rightarrow> string \<Rightarrow> world \<Rightarrow> nat \<times> world" where
  "resolve_cached addr t name w =
     (case attr_cache_lookup t (addr name) (global_version w) w of
        Some d \<Rightarrow> (d, w)
      | None \<Rightarrow>
          let d = (case type_lookup w t name of Some d \<Rightarrow> d | None \<Rightarrow> attr_absent)
          in (d, attr_cache_update t (addr name) d (global_version w) w))"

definition resolve_default_getattr ::
  "(string \<Rightarrow> nat) \<Rightarrow> nat \<Rightarrow> string \<Rightarrow> attr_ic option \<Rightarrow> world \<Rightarrow> attr_result \<times> attr_ic option \<times> world" where
  "resolve_default_getattr addr ob name ic w0 =
     (case resolve_cached addr (otype (objects w0 ob)) name w0 of (d, w) \<Rightarrow>
      if d \<noteq> attr_absent \<and> descr_has_get w d \<and> is_data w d then (Get_descriptor d, ic, w)
      else case place w ob name of
        Some (s, offset) \<Rightarrow> (Found (oslots (objects w ob) ! offset), map_option (fill_get w ob s offset) ic, w)
      | None \<Rightarrow>
          if d \<noteq> attr_absent then (if descr_has_get w d then Get_descriptor d else Found d, ic, w)
          else case getattribute ob name w of (r, w') \<Rightarrow> (r, ic, w'))"

definition get_hit :: "world \<Rightarrow> nat \<Rightarrow> attr_ic \<Rightarrow> bool" where
  "get_hit w ob ic \<longleftrightarrow>
     ic_kind ic = 1 \<and> expected_type ic = otype (objects w ob) \<and> expected_shape ic = oshape (objects w ob) \<and>
     ic_version ic = global_version w \<and> instance_dict (objects w ob) = None"

definition getattr_ic ::
  "(string \<Rightarrow> nat) \<Rightarrow> attr_ic option \<Rightarrow> nat \<Rightarrow> string \<Rightarrow> world \<Rightarrow> attr_result \<times> attr_ic option \<times> world" where
  "getattr_ic addr cache ob name w =
     (case cache of
        Some ic \<Rightarrow>
          if get_hit w ob ic then (Found (oslots (objects w ob) ! slot_offset ic), cache, w)
          else
            let cache' = Some (ic\<lparr>ic_kind := 0\<rparr>) in
            if \<not> uses_default (getattribute_slot (type_of w ob)) (type_of w ob) \<or> instance_dict (objects w ob) \<noteq> None
            then (case getattribute ob name w of (r, w') \<Rightarrow> (r, cache', w'))
            else resolve_default_getattr addr ob name cache' w
      | None \<Rightarrow>
          if \<not> uses_default (getattribute_slot (type_of w ob)) (type_of w ob) \<or> instance_dict (objects w ob) \<noteq> None
          then (case getattribute ob name w of (r, w') \<Rightarrow> (r, None, w'))
          else resolve_default_getattr addr ob name None w)"

text \<open>The slots of an object with room for one more: a new value goes behind the others or, when the
  vector has another length, to its place after a resize with null pointers.\<close>

definition put_slot :: "nat \<Rightarrow> nat \<Rightarrow> nat list \<Rightarrow> nat list" where
  "put_slot offset v xs =
     (if length xs = offset then xs @ [v]
      else (xs @ replicate (offset + 1 - length xs) 0)[offset := v])"

definition set_hit :: "world \<Rightarrow> nat \<Rightarrow> attr_ic \<Rightarrow> bool" where
  "set_hit w ob ic \<longleftrightarrow>
     ic_kind ic = 2 \<and> expected_type ic = otype (objects w ob) \<and> expected_shape ic = oshape (objects w ob) \<and>
     ic_version ic = global_version w"

definition set_cached :: "nat \<Rightarrow> nat \<Rightarrow> attr_ic \<Rightarrow> world \<Rightarrow> world" where
  "set_cached ob v ic w =
     (let x = objects w ob in
      if next_shape ic \<noteq> expected_shape ic
      then set_object ob (x\<lparr>oshape := next_shape ic, oslots := put_slot (slot_offset ic) v (oslots x)\<rparr>) w
      else set_object ob (x\<lparr>oslots := (oslots x)[slot_offset ic := v]\<rparr>) w)"

definition fill_set :: "world \<Rightarrow> nat \<Rightarrow> nat option \<Rightarrow> nat \<Rightarrow> nat \<Rightarrow> attr_ic \<Rightarrow> attr_ic" where
  "fill_set w ob s s' offset ic =
     ic\<lparr>expected_type := otype (objects w ob), ic_version := global_version w, expected_shape := s,
        next_shape := Some s', slot_offset := offset mod 2 ^ 32, ic_kind := 2\<rparr>"

text \<open>The shape of an object that gets a new name.\<close>

definition shape_after :: "world \<Rightarrow> nat \<Rightarrow> string \<Rightarrow> nat \<times> shape_store" where
  "shape_after w ob name =
     (case oshape (objects w ob) of
        Some s \<Rightarrow> shape_transition s name (shapes w)
      | None \<Rightarrow> (case shape_root (otype (objects w ob)) (shapes w) of (root, st) \<Rightarrow> shape_transition root name st))"

definition set_uncached ::
  "(nat \<rightharpoonup> nat) \<Rightarrow> attr_ic option \<Rightarrow> nat \<Rightarrow> string \<Rightarrow> nat \<Rightarrow> world \<Rightarrow> set_result \<times> attr_ic option \<times> world" where
  "set_uncached as_dict cache ob name v w =
     (let x = objects w ob in
      if holds_for (type_lookup w (otype x) name) (is_data w)
      then (case setattribute as_dict ob name v w of (r, w') \<Rightarrow> (r, cache, w'))
      else case place w ob name of
        Some (s, offset) \<Rightarrow>
          (Stored, map_option (fill_set w ob (Some s) s offset) cache,
           set_object ob (x\<lparr>oslots := (oslots x)[offset := v]\<rparr>) w)
      | None \<Rightarrow>
          (case shape_after w ob name of (s', st') \<Rightarrow>
             (case shape_lookup st' s' name of
                None \<Rightarrow> (Set_assertion, cache, w\<lparr>shapes := st'\<rparr>)
              | Some offset \<Rightarrow>
                  (Stored, map_option (fill_set w ob (oshape x) s' offset) cache,
                   set_object ob (x\<lparr>oshape := Some s', oslots := put_slot offset v (oslots x)\<rparr>) (w\<lparr>shapes := st'\<rparr>)))))"

definition setattr_ic ::
  "(nat \<rightharpoonup> nat) \<Rightarrow> attr_ic option \<Rightarrow> nat \<Rightarrow> string \<Rightarrow> nat \<Rightarrow> world \<Rightarrow> set_result \<times> attr_ic option \<times> world" where
  "setattr_ic as_dict cache ob name v w =
     (if \<not> uses_default (setattribute_slot (type_of w ob)) (type_of w ob) \<or> instance_dict (objects w ob) \<noteq> None
         \<or> is_type (type_of w ob)
      then (case setattribute as_dict ob name v w of (r, w') \<Rightarrow> (r, cache, w'))
      else case cache of
        None \<Rightarrow> set_uncached as_dict None ob name v w
      | Some ic \<Rightarrow>
          if set_hit w ob ic then (Stored, cache, set_cached ob v ic w)
          else set_uncached as_dict
                 (Some (if ic_kind ic = 2 then ic\<lparr>ic_kind := 0\<rparr> else ic)) ob name v w)"

end
