(* ===== verification/Attribute_Props.thy ===== *)
theory Attribute_Props
  imports Attributes
begin

text \<open>
  The inline caches do not change what an attribute access does: in every run in which classes are
  created and changed, objects and dictionaries are created and changed, a cached read gives what
  \<^verbatim>\<open>PyObject::getattribute\<close> gives, and a cached write leaves the state that
  \<^verbatim>\<open>PyObject::setattribute\<close> leaves.
\<close>

section \<open>The invariant\<close>

text \<open>The slots of an object are those its shape numbers.\<close>

definition object_ok :: "shape_store \<Rightarrow> py_object \<Rightarrow> bool" where
  "object_ok st x \<longleftrightarrow>
     (case oshape x of
        None \<Rightarrow> oslots x = []
      | Some s \<Rightarrow> s < length (shape_table st) \<and> owner_type (shape_table st ! s) = otype x \<and>
          length (oslots x) = slot_count (shape_table st ! s))"

definition world_ok :: "world \<Rightarrow> bool" where
  "world_ok w \<longleftrightarrow>
     shapes_ok (shapes w) \<and> length (shape_table (shapes w)) \<le> 2 ^ 32 \<and> global_version w < 2 ^ 64 \<and>
     (\<forall>ob. object_ok (shapes w) (objects w ob)) \<and>
     (\<forall>t name. tdict (types w t) name \<noteq> Some attr_absent) \<and>
     (\<forall>h. ce_attr (lookup_table w h) = 0)"

text \<open>What a cache filled at the current version knows.\<close>

definition get_knows :: "world \<Rightarrow> string \<Rightarrow> attr_ic \<Rightarrow> bool" where
  "get_knows w name ic \<longleftrightarrow>
     (\<exists>s < length (shape_table (shapes w)). expected_shape ic = Some s \<and>
        shape_lookup (shapes w) s name = Some (slot_offset ic)) \<and>
     getattribute_slot (types w (expected_type ic)) \<notin> {No_slot, Python_slot} \<and>
     \<not> holds_for (type_lookup w (expected_type ic) name) (\<lambda>d. descr_has_get w d \<and> is_data w d)"

definition set_knows :: "world \<Rightarrow> string \<Rightarrow> attr_ic \<Rightarrow> bool" where
  "set_knows w name ic \<longleftrightarrow>
     \<not> holds_for (type_lookup w (expected_type ic) name) (is_data w) \<and>
     (case expected_shape ic of
        None \<Rightarrow> (\<exists>r s'. shape_roots (shapes w) (expected_type ic) = Some r \<and>
          transitions (shape_table (shapes w) ! r) name = Some s' \<and> next_shape ic = Some s' \<and> slot_offset ic = 0)
      | Some s \<Rightarrow> s < length (shape_table (shapes w)) \<and>
          (case shape_lookup (shapes w) s name of
             Some offset \<Rightarrow> next_shape ic = Some s \<and> slot_offset ic = offset
           | None \<Rightarrow> (\<exists>s'. transitions (shape_table (shapes w) ! s) name = Some s' \<and>
               next_shape ic = Some s' \<and> slot_offset ic = slot_count (shape_table (shapes w) ! s))))"

definition ic_ok :: "world \<Rightarrow> string \<Rightarrow> attr_ic \<Rightarrow> bool" where
  "ic_ok w name ic \<longleftrightarrow>
     ic_version ic \<le> global_version w \<and>
     (ic_kind ic = 1 \<longrightarrow> ic_version ic = global_version w \<longrightarrow> get_knows w name ic) \<and>
     (ic_kind ic = 2 \<longrightarrow> ic_version ic = global_version w \<longrightarrow> set_knows w name ic)"

section \<open>Steps of a program\<close>

text \<open>An address is unused by the types if no class and no object of a class refers to it.\<close>

definition unused :: "world \<Rightarrow> nat \<Rightarrow> bool" where
  "unused w ob \<longleftrightarrow>
     (\<forall>t name. tdict (types w t) name \<noteq> Some ob) \<and> (\<forall>x. otype (objects w x) \<noteq> ob) \<and>
     (\<forall>t. ob \<notin> set (mro (types w t)))"

type_synonym sites = "nat \<Rightarrow> attr_ic"

text \<open>Site \<open>k\<close> reads or writes the name \<open>site k\<close>. A run has less than \<open>2 ^ 64\<close> changes of classes and
  less than \<open>2 ^ 32\<close> shapes.\<close>

inductive attr_step ::
  "(string \<Rightarrow> nat) \<Rightarrow> (nat \<Rightarrow> string) \<Rightarrow> world \<times> sites \<Rightarrow> world \<times> sites \<Rightarrow> bool"
  for addr :: "string \<Rightarrow> nat" and site :: "nat \<Rightarrow> string" where
  read_site:
    "getattr_ic addr (Some (ics k)) ob (site k) w = (r, Some ic, w') \<Longrightarrow> attr_step addr site (w, ics) (w', ics(k := ic))"
| write_site:
    "setattr_ic as_dict (Some (ics k)) ob (site k) v w = (r, Some ic, w') \<Longrightarrow> v \<noteq> attr_absent \<Longrightarrow>
     global_version w + 1 < 2 ^ 64 \<Longrightarrow> length (shape_table (shapes w')) \<le> 2 ^ 32 \<Longrightarrow>
     attr_step addr site (w, ics) (w', ics(k := ic))"
| read_slow: "getattribute ob name w = (r, w') \<Longrightarrow> attr_step addr site (w, ics) (w', ics)"
| write_slow:
    "setattribute as_dict ob name v w = (r, w') \<Longrightarrow> v \<noteq> attr_absent \<Longrightarrow> global_version w + 1 < 2 ^ 64 \<Longrightarrow>
     length (shape_table (shapes w')) \<le> 2 ^ 32 \<Longrightarrow> attr_step addr site (w, ics) (w', ics)"
| new_object:
    "unused w ob \<Longrightarrow>
     attr_step addr site (w, ics)
       (set_object ob \<lparr>otype = t, oshape = None, oslots = [], instance_dict = None\<rparr> w, ics)"
| new_class:
    "\<forall>name. tdict P name \<noteq> Some attr_absent \<Longrightarrow> global_version w + 1 < 2 ^ 64 \<Longrightarrow>
     attr_step addr site (w, ics) ((inc_global_version w)\<lparr>types := (types w)(t := P)\<rparr>, ics)"
| change_dict: "attr_step addr site (w, ics) (w\<lparr>dicts := (dicts w)(d := D)\<rparr>, ics)"

definition attr_start :: "(nat \<Rightarrow> pytype) \<Rightarrow> world" where
  "attr_start ts =
     \<lparr>shapes = no_shapes, types = ts,
      objects = \<lambda>_. \<lparr>otype = 0, oshape = None, oslots = [], instance_dict = None\<rparr>,
      dicts = \<lambda>_ _. None, next_dict = 1, global_version = 0,
      lookup_table = \<lambda>_. \<lparr>ce_type = 0, ce_name = 0, ce_attr = 0, ce_version = 0\<rparr>,
      update_table = \<lambda>_. \<lparr>ce_type = 0, ce_name = 0, ce_attr = 0, ce_version = 0\<rparr>\<rparr>"

section \<open>The table of attributes never answers\<close>

lemma attr_cache_lookup_None: "world_ok w \<Longrightarrow> attr_cache_lookup t name version w = None"
  by (simp add: attr_cache_lookup_def world_ok_def Let_def)

lemma lookup_in_absent:
  "\<forall>t name. tdict (ts t) name \<noteq> Some x \<Longrightarrow> lookup_in ts m name \<noteq> Some x"
  by (induction m) (auto split: option.splits)

lemma type_lookup_absent: "world_ok w \<Longrightarrow> type_lookup w t name \<noteq> Some attr_absent"
  unfolding type_lookup_def by (rule lookup_in_absent) (simp add: world_ok_def)

lemma resolve_cached_spec:
  assumes "world_ok w"
  shows "resolve_cached addr t name w =
     (case type_lookup w t name of Some d \<Rightarrow> d | None \<Rightarrow> attr_absent,
      attr_cache_update t (addr name)
        (case type_lookup w t name of Some d \<Rightarrow> d | None \<Rightarrow> attr_absent) (global_version w) w)"
  using assms by (simp add: resolve_cached_def attr_cache_lookup_None Let_def)

lemma attr_cache_update_fields [simp]:
  "shapes (attr_cache_update t n a v w) = shapes w" "types (attr_cache_update t n a v w) = types w"
  "objects (attr_cache_update t n a v w) = objects w" "dicts (attr_cache_update t n a v w) = dicts w"
  "next_dict (attr_cache_update t n a v w) = next_dict w"
  "global_version (attr_cache_update t n a v w) = global_version w"
  "lookup_table (attr_cache_update t n a v w) = lookup_table w"
  by (simp_all add: attr_cache_update_def)

lemma same_lookups:
  assumes "types w' = types w" "objects w' = objects w"
  shows "type_lookup w' = type_lookup w" "descr_has_get w' = descr_has_get w"
    "descr_has_set w' = descr_has_set w" "is_data w' = is_data w"
  unfolding fun_eq_iff type_lookup_def descr_has_get_def descr_has_set_def is_data_def
    descriptor_is_data_def assms by simp_all

lemma attr_cache_update_lookups [simp]:
  "type_lookup (attr_cache_update t n a v w) = type_lookup w"
  "descr_has_get (attr_cache_update t n a v w) = descr_has_get w"
  "is_data (attr_cache_update t n a v w) = is_data w"
  "fill_get (attr_cache_update t n a v w) = fill_get w"
  "attr_cache_update t n a v w\<lparr>update_table := update_table w\<rparr> = w"
  by (rule same_lookups; simp)+ (simp_all add: fun_eq_iff fill_get_def attr_cache_update_def)

section \<open>Cached reads\<close>

text \<open>A read that misses.\<close>

lemma getattribute_keeps: "name \<noteq> ''__dict__'' \<Longrightarrow> snd (getattribute ob name w) = w"
  by (auto simp: getattribute_def object_getattribute_def Let_def split: attr_slot.split option.split)

lemma resolve_default_getattr_spec:
  assumes ok: "world_ok w" and nodict: "instance_dict (objects w ob) = None" and name: "name \<noteq> ''__dict__''"
    and run: "resolve_default_getattr addr ob name ic w = (r, ic', w')"
  shows "(getattribute_slot (type_of w ob) = Object_slot \<longrightarrow> r = fst (getattribute ob name w)) \<and>
     w'\<lparr>update_table := update_table w\<rparr> = w \<and>
     (ic' = ic \<or>
      (\<exists>s offset. ic' = map_option (fill_get w ob s offset) ic \<and> oshape (objects w ob) = Some s \<and>
         shape_lookup (shapes w) s name = Some offset \<and>
         \<not> holds_for (type_lookup w (otype (objects w ob)) name) (\<lambda>d. descr_has_get w d \<and> is_data w d)))"
proof -
  let ?t = "otype (objects w ob)"
  have keeps: "getattribute ob name v = (x, v') \<Longrightarrow> v' = v" for v x v'
    using getattribute_keeps [OF name, of ob v] by simp
  have slow: "object_getattribute ob name w = getattribute ob name w" if "getattribute_slot (type_of w ob) = Object_slot"
    using that by (simp add: getattribute_def)
  show ?thesis
  proof (cases "type_lookup w ?t name")
    case None
    have fallback: "fst (getattribute ob name (attr_cache_update ?t (addr name) attr_absent (global_version w) w)) =
        Attribute_error"
      if "getattribute_slot (type_of w ob) = Object_slot" "instance_lookup w ob name = None"
      using that None name nodict
      by (auto simp: getattribute_def object_getattribute_def instance_lookup_def place_def Let_def split: option.splits)
    show ?thesis
      using run None nodict name fallback
      by (auto simp: resolve_default_getattr_def resolve_cached_spec [OF ok] Let_def
          slow [symmetric] object_getattribute_def instance_lookup_def place_def dest: keeps
          split: option.splits prod.splits)
  next
    case (Some d)
    then have "d \<noteq> attr_absent" using type_lookup_absent [OF ok] by auto
    then show ?thesis
      using run Some nodict name
      by (auto simp: resolve_default_getattr_def resolve_cached_spec [OF ok] Let_def
          slow [symmetric] object_getattribute_def instance_lookup_def place_def split: option.splits if_splits)
  qed
qed

text \<open>What is needed of the objects for the caches: shapes bound the offsets.\<close>

lemma object_okD:
  assumes "world_ok w" "oshape (objects w ob) = Some s"
  shows "s < length (shape_table (shapes w))" "owner_type (shape_table (shapes w) ! s) = otype (objects w ob)"
    "length (oslots (objects w ob)) = slot_count (shape_table (shapes w) ! s)"
proof -
  have "object_ok (shapes w) (objects w ob)" using assms(1) unfolding world_ok_def by blast
  then show "s < length (shape_table (shapes w))" "owner_type (shape_table (shapes w) ! s) = otype (objects w ob)"
    "length (oslots (objects w ob)) = slot_count (shape_table (shapes w) ! s)"
    using assms(2) by (simp_all add: object_ok_def)
qed

lemma world_okD:
  assumes "world_ok w"
  shows "shapes_ok (shapes w)" "length (shape_table (shapes w)) \<le> 2 ^ 32" "global_version w < 2 ^ 64"
    "oshape (objects w ob) = None \<Longrightarrow> oslots (objects w ob) = []"
proof -
  have "object_ok (shapes w) (objects w ob)" using assms unfolding world_ok_def by blast
  then show "oshape (objects w ob) = None \<Longrightarrow> oslots (objects w ob) = []" by (simp add: object_ok_def)
qed (use assms in \<open>simp_all add: world_ok_def\<close>)

lemma offset_fits:
  assumes "world_ok w" "s < length (shape_table (shapes w))" "shape_lookup (shapes w) s name = Some offset"
  shows "offset mod 2 ^ 32 = offset"
proof -
  note ok = world_okD [OF assms(1)]
  have "offset < slot_count (shape_table (shapes w) ! s)"
    using shape_offset_less [OF shapes_okD(1) [OF ok(1) assms(2)]] assms(3) by (simp add: shape_lookup_def)
  then have "offset < 2 ^ 32" using shapes_okD(2) [OF ok(1) assms(2)] assms(2) ok(2) by linarith
  then show ?thesis by simp
qed

lemma fill_get_ok:
  assumes "world_ok w" "oshape (objects w ob) = Some s" "shape_lookup (shapes w) s name = Some offset"
    "\<not> holds_for (type_lookup w (otype (objects w ob)) name) (\<lambda>d. descr_has_get w d \<and> is_data w d)"
    "uses_default (getattribute_slot (type_of w ob)) (type_of w ob)"
  shows "ic_ok w name (fill_get w ob s offset ic)"
proof -
  note s = object_okD [OF assms(1,2)]
  have "offset mod 2 ^ 32 = offset" by (rule offset_fits [OF assms(1) s(1) assms(3)])
  then show ?thesis
    using assms s by (simp add: ic_ok_def get_knows_def fill_get_def uses_default_def del: One_nat_def)
qed

lemma ic_ok_invalid: "ic_ok w name ic \<Longrightarrow> ic_ok w name (ic\<lparr>ic_kind := 0\<rparr>)"
  by (simp add: ic_ok_def)

text \<open>A cached read, whether it hits or not.\<close>

lemma getattr_ic_spec:
  assumes ok: "world_ok w" and ic: "ic_ok w name ic" and name: "name \<noteq> ''__dict__''"
    and run: "getattr_ic addr (Some ic) ob name w = (r, Some ic', w')"
  shows "(getattribute_slot (type_of w ob) \<noteq> Builtin_slot \<longrightarrow> r = fst (getattribute ob name w)) \<and>
     w'\<lparr>update_table := update_table w\<rparr> = w \<and> ic_ok w name ic'"
proof -
  let ?default = "uses_default (getattribute_slot (type_of w ob)) (type_of w ob)"
  consider (hit) "get_hit w ob ic"
    | (slow) "\<not> get_hit w ob ic" "\<not> ?default \<or> instance_dict (objects w ob) \<noteq> None"
    | (miss) "\<not> get_hit w ob ic" "?default" "instance_dict (objects w ob) = None" by blast
  then show ?thesis
  proof cases
    case hit
    then have r: "r = Found (oslots (objects w ob) ! slot_offset ic)" "ic' = ic" "w' = w"
      using run by (auto simp: getattr_ic_def)
    have "get_knows w name ic" using hit ic by (simp add: get_hit_def ic_ok_def)
    then have "getattribute_slot (type_of w ob) \<noteq> Builtin_slot \<longrightarrow> r = fst (getattribute ob name w)"
      using hit name r(1)
      by (cases "getattribute_slot (type_of w ob)")
        (auto simp: get_knows_def get_hit_def getattribute_def object_getattribute_def instance_lookup_def place_def Let_def)
    then show ?thesis using r ic by simp
  next
    case slow
    obtain x v where g: "getattribute ob name w = (x, v)" by fastforce
    then have "r = x" "ic' = ic\<lparr>ic_kind := 0\<rparr>" "w' = v" using run slow by (auto simp: getattr_ic_def Let_def)
    then show ?thesis using getattribute_keeps [OF name, of ob w] g ic_ok_invalid [OF ic] by simp
  next
    case miss
    then have "resolve_default_getattr addr ob name (Some (ic\<lparr>ic_kind := 0\<rparr>)) w = (r, Some ic', w')"
      using run by (auto simp: getattr_ic_def Let_def)
    from resolve_default_getattr_spec [OF ok miss(3) name this]
    show ?thesis
      using miss(2) ic_ok_invalid [OF ic] fill_get_ok [OF ok]
      by (cases "getattribute_slot (type_of w ob)") (auto simp: uses_default_def)
  qed
qed

section \<open>Writes\<close>

text \<open>States that differ in their objects and shapes only, where the shapes grew.\<close>

definition only_stored :: "world \<Rightarrow> world \<Rightarrow> bool" where
  "only_stored w w' \<longleftrightarrow>
     shapes_ok (shapes w') \<and> shapes_grow (shapes w) (shapes w') \<and>
     (\<forall>ob. object_ok (shapes w') (objects w' ob)) \<and> (\<forall>ob. otype (objects w' ob) = otype (objects w ob)) \<and>
     w' = w\<lparr>shapes := shapes w', objects := objects w'\<rparr>"

lemma object_ok_grow: "object_ok st x \<Longrightarrow> shapes_grow st st' \<Longrightarrow> object_ok st' x"
  by (auto simp: object_ok_def shapes_grow_def shape_kept_def split: option.splits)

lemma only_stored_one:
  assumes ok: "world_ok w" and st: "shapes_ok st" "shapes_grow (shapes w) st"
    and x: "object_ok st x" "otype x = otype (objects w ob)"
  shows "only_stored w (set_object ob x (w\<lparr>shapes := st\<rparr>))"
proof -
  have "object_ok st (objects w o')" for o'
    using ok object_ok_grow [OF _ st(2)] unfolding world_ok_def by blast
  then show ?thesis using st x by (simp add: only_stored_def set_object_def)
qed

lemma only_stored_fields:
  assumes "only_stored w w'"
  shows "types w' = types w" "global_version w' = global_version w" "lookup_table w' = lookup_table w"
    "otype (objects w' ob) = otype (objects w ob)" "shapes_grow (shapes w) (shapes w')"
    "type_lookup w' = type_lookup w" "descr_has_get w' = descr_has_get w" "is_data w' = is_data w"
proof -
  have eq: "w' = w\<lparr>shapes := shapes w', objects := objects w'\<rparr>"
    and ty: "\<forall>ob. otype (objects w' ob) = otype (objects w ob)" using assms unfolding only_stored_def by blast+
  show types: "types w' = types w" by (subst eq) simp
  show "global_version w' = global_version w" "lookup_table w' = lookup_table w" by (subst eq; simp)+
  show "otype (objects w' ob) = otype (objects w ob)" using ty by simp
  show "shapes_grow (shapes w) (shapes w')" using assms by (simp add: only_stored_def)
  show "type_lookup w' = type_lookup w" "descr_has_get w' = descr_has_get w" "is_data w' = is_data w"
    using ty by (simp_all add: fun_eq_iff type_lookup_def descr_has_get_def is_data_def descriptor_is_data_def types)
qed

lemma world_ok_stored:
  "world_ok w \<Longrightarrow> only_stored w w' \<Longrightarrow> length (shape_table (shapes w')) \<le> 2 ^ 32 \<Longrightarrow> world_ok w'"
  by (simp add: world_ok_def only_stored_fields) (simp add: only_stored_def)

lemma shape_kept_at: "shapes_grow st st' \<Longrightarrow> s < length (shape_table st) \<Longrightarrow> shape_kept (shape_table st ! s) (shape_table st' ! s)"
  by (simp add: shapes_grow_def)

lemma ic_ok_stored:
  assumes ic: "ic_ok w name ic" and st: "only_stored w w'" and ok: "world_ok w"
  shows "ic_ok w' name ic"
proof -
  note same = only_stored_fields [OF st]
  have len: "s < length (shape_table (shapes w')) \<and> offsets (shape_table (shapes w') ! s) = offsets (shape_table (shapes w) ! s) \<and>
      slot_count (shape_table (shapes w') ! s) = slot_count (shape_table (shapes w) ! s)"
    if "s < length (shape_table (shapes w))" for s
    using that shape_kept_at [OF same(5) that] same(5) by (auto simp: shapes_grow_def shape_kept_def)
  have trans: "transitions (shape_table (shapes w') ! s) name = Some s'"
    if "s < length (shape_table (shapes w))" "transitions (shape_table (shapes w) ! s) name = Some s'" for s s'
    using shape_kept_simps(2) [OF shape_kept_at [OF same(5) that(1)] that(2)] .
  have roots: "shape_roots (shapes w') t = Some r \<and> r < length (shape_table (shapes w))"
    if "shape_roots (shapes w) t = Some r" for t r
    using that same(5) world_okD(1) [OF ok] by (auto simp: shapes_grow_def map_le_def shapes_ok_def domI) (metis domI)
  have get: "get_knows w' name ic" if "get_knows w name ic"
    using that len unfolding get_knows_def shape_lookup_def same by metis
  have set: "set_knows w' name ic" if k: "set_knows w name ic"
  proof (cases "expected_shape ic")
    case None
    then obtain r s' where "shape_roots (shapes w) (expected_type ic) = Some r"
        "transitions (shape_table (shapes w) ! r) name = Some s'" "next_shape ic = Some s'" "slot_offset ic = 0"
      using k by (auto simp: set_knows_def)
    then show ?thesis using roots trans None k by (auto simp: set_knows_def same)
  next
    case (Some s)
    then have "s < length (shape_table (shapes w))" using k by (simp add: set_knows_def)
    then show ?thesis using k Some len [of s] trans [of s]
      by (auto simp: set_knows_def same shape_lookup_def split: option.splits)
  qed
  show ?thesis using ic get set by (simp add: ic_ok_def same)
qed

text \<open>Storing without a cache: what becomes of the object, and what a cache may learn from it.\<close>

lemma shape_after_spec:
  assumes ok: "world_ok w" and new: "\<forall>s. oshape (objects w ob) = Some s \<longrightarrow> shape_lookup (shapes w) s name = None"
    and run: "shape_after w ob name = (s', st')"
  shows "shapes_ok st' \<and> shapes_grow (shapes w) st' \<and> s' < length (shape_table st') \<and>
     owner_type (shape_table st' ! s') = otype (objects w ob) \<and>
     slot_count (shape_table st' ! s') = length (oslots (objects w ob)) + 1 \<and>
     shape_lookup st' s' name = Some (length (oslots (objects w ob))) \<and>
     (case oshape (objects w ob) of
        None \<Rightarrow> (\<exists>r. shape_roots st' (otype (objects w ob)) = Some r \<and> transitions (shape_table st' ! r) name = Some s')
      | Some s \<Rightarrow> transitions (shape_table st' ! s) name = Some s')"
proof (cases "oshape (objects w ob)")
  case None
  obtain r st where r: "shape_root (otype (objects w ob)) (shapes w) = (r, st)" by fastforce
  note root = shape_root_spec [OF world_okD(1) [OF ok] r]
  have tr: "shape_transition r name st = (s', st')" using run None r by (simp add: shape_after_def)
  have "offsets (shape_table st ! r) name = None" using root by simp
  then have t: "shapes_ok st' \<and> shapes_grow st st' \<and> steps_to st' r name s' \<and> transitions (shape_table st' ! r) name = Some s'"
    using shape_transition_spec [OF _ _ _ tr] root by blast
  have kept: "shape_kept (shape_table st ! r) (shape_table st' ! r)"
    using shape_kept_at t root by blast
  have "shape_roots st' (otype (objects w ob)) = Some r"
    using root t by (auto simp: shapes_grow_def map_le_def) (metis domI)
  then show ?thesis
    using t root kept None world_okD(4) [OF ok None] shapes_grow_trans
    by (auto simp: steps_to_def shape_lookup_def shape_kept_def)
next
  case (Some s)
  note s = object_okD [OF ok Some]
  have tr: "shape_transition s name (shapes w) = (s', st')" using run Some by (simp add: shape_after_def)
  have "offsets (shape_table (shapes w) ! s) name = None" using new Some by (simp add: shape_lookup_def)
  from shape_transition_spec [OF world_okD(1) [OF ok] s(1) this tr]
  have t: "shapes_ok st'" "shapes_grow (shapes w) st'" "steps_to st' s name s'"
      "transitions (shape_table st' ! s) name = Some s'" by blast+
  have "shape_kept (shape_table (shapes w) ! s) (shape_table st' ! s)" by (rule shape_kept_at [OF t(2) s(1)])
  then show ?thesis using t s Some by (auto simp: steps_to_def shape_lookup_def shape_kept_def)
qed

lemma place_Some:
  "place w ob name = Some (s, i) \<longleftrightarrow> oshape (objects w ob) = Some s \<and> shape_lookup (shapes w) s name = Some i"
  by (auto simp: place_def split: option.splits)

lemma place_None:
  "place w ob name = None \<longleftrightarrow> (\<forall>s. oshape (objects w ob) = Some s \<longrightarrow> shape_lookup (shapes w) s name = None)"
  by (auto simp: place_def split: option.splits)

lemma store_attribute_eq:
  "store_attribute ob name v w =
     (case place w ob name of
        Some (s, i) \<Rightarrow> set_object ob ((objects w ob)\<lparr>oslots := (oslots (objects w ob))[i := v]\<rparr>) w
      | None \<Rightarrow>
          (case shape_after w ob name of (s', st') \<Rightarrow>
             set_object ob ((objects w ob)\<lparr>oshape := Some s', oslots := oslots (objects w ob) @ [v]\<rparr>) (w\<lparr>shapes := st'\<rparr>)))"
  by (auto simp: store_attribute_def place_def shape_after_def Let_def split: option.splits prod.splits)

lemma set_uncached_eq:
  assumes "\<not> holds_for (type_lookup w (otype (objects w ob)) name) (is_data w)"
  shows "set_uncached as_dict cache ob name v w =
     (case place w ob name of
        Some (s, i) \<Rightarrow>
          (Stored, map_option (fill_set w ob (Some s) s i) cache,
           set_object ob ((objects w ob)\<lparr>oslots := (oslots (objects w ob))[i := v]\<rparr>) w)
      | None \<Rightarrow>
          (case shape_after w ob name of (s', st') \<Rightarrow>
           case shape_lookup st' s' name of
             None \<Rightarrow> (Set_assertion, cache, w\<lparr>shapes := st'\<rparr>)
           | Some i \<Rightarrow>
               (Stored, map_option (fill_set w ob (oshape (objects w ob)) s' i) cache,
                set_object ob ((objects w ob)\<lparr>oshape := Some s', oslots := put_slot i v (oslots (objects w ob))\<rparr>)
                  (w\<lparr>shapes := st'\<rparr>))))"
  using assms by (simp add: set_uncached_def Let_def)

lemma put_slot_end [simp]: "put_slot (length xs) v xs = xs @ [v]"
  by (simp add: put_slot_def)

lemma object_ok_place:
  assumes "world_ok w" "place w ob name = Some (s, i)"
  shows "only_stored w (set_object ob ((objects w ob)\<lparr>oslots := (oslots (objects w ob))[i := v]\<rparr>) w)"
proof -
  have "object_ok (shapes w) ((objects w ob)\<lparr>oslots := (oslots (objects w ob))[i := v]\<rparr>)"
    using object_okD [OF assms(1), of ob s] assms(2) by (simp add: object_ok_def place_Some)
  then show ?thesis using only_stored_one [OF assms(1), of "shapes w"] world_okD(1) [OF assms(1)] by simp
qed

lemma object_ok_after:
  assumes "world_ok w" "place w ob name = None" "shape_after w ob name = (s', st')"
  shows "only_stored w (set_object ob ((objects w ob)\<lparr>oshape := Some s', oslots := oslots (objects w ob) @ [v]\<rparr>) (w\<lparr>shapes := st'\<rparr>))"
proof -
  have "\<forall>s. oshape (objects w ob) = Some s \<longrightarrow> shape_lookup (shapes w) s name = None"
    using assms(2) by (simp add: place_None)
  from shape_after_spec [OF assms(1) this assms(3)]
  show ?thesis by (intro only_stored_one [OF assms(1)]) (auto simp: object_ok_def)
qed

lemma store_attribute_stored: "world_ok w \<Longrightarrow> only_stored w (store_attribute ob name v w)"
  by (auto simp: store_attribute_eq object_ok_place object_ok_after split: option.split prod.split)

text \<open>A write that misses stores what the uncached write stores, and the cache learns the place.\<close>

lemma set_uncached_store:
  assumes ok: "world_ok w" and nodata: "\<not> holds_for (type_lookup w (otype (objects w ob)) name) (is_data w)"
    and run: "set_uncached as_dict (Some ic) ob name v w = (r, Some ic', w')"
    and len: "length (shape_table (shapes w')) \<le> 2 ^ 32"
  shows "r = Stored \<and> w' = store_attribute ob name v w \<and> ic_ok w' name ic'"
proof (cases "place w ob name")
  case None
  obtain s' st' where after: "shape_after w ob name = (s', st')" by fastforce
  have "\<forall>s. oshape (objects w ob) = Some s \<longrightarrow> shape_lookup (shapes w) s name = None"
    using None by (simp add: place_None)
  note spec = shape_after_spec [OF ok this after]
  let ?n = "length (oslots (objects w ob))"
  have w': "r = Stored" "w' = store_attribute ob name v w" "ic' = fill_set w ob (oshape (objects w ob)) s' ?n ic"
    using run None after spec by (simp_all add: set_uncached_eq [OF nodata] store_attribute_eq)
  have st: "only_stored w w'" unfolding w'(2) by (rule store_attribute_stored [OF ok])
  note same = only_stored_fields [OF st]
  have ok': "world_ok w'" by (rule world_ok_stored [OF ok st len])
  have sh: "shapes w' = st'" using None after w'(2) by (simp add: store_attribute_eq set_object_def)
  have n: "?n mod 2 ^ 32 = ?n" by (rule offset_fits [OF ok']) (use spec sh in auto)
  have "set_knows w' name ic'"
  proof (cases "oshape (objects w ob)")
    case None
    then show ?thesis
      using spec n nodata world_okD(4) [OF ok None]
      by (simp add: set_knows_def w'(3) fill_set_def same sh)
  next
    case (Some s)
    have kept: "shape_kept (shape_table (shapes w) ! s) (shape_table st' ! s)"
      using shape_kept_at spec object_okD(1) [OF ok Some] by blast
    have s: "s < length (shape_table st')"
      using object_okD(1) [OF ok Some] spec by (auto simp: shapes_grow_def)
    have "shape_lookup st' s name = None"
      using kept \<open>\<forall>s. _ s \<longrightarrow> _ s\<close> Some by (simp add: shape_lookup_def shape_kept_def)
    then show ?thesis
      using spec n nodata kept s Some object_okD(3) [OF ok Some]
      by (simp add: set_knows_def w'(3) fill_set_def same sh shape_kept_def)
  qed
  moreover have "ic_kind ic' = 2" "ic_version ic' = global_version w'" by (simp_all add: w'(3) fill_set_def same)
  ultimately have "ic_ok w' name ic'" by (simp add: ic_ok_def)
  with w'(1,2) show ?thesis by blast
next
  case (Some p)
  obtain s i where p: "p = (s, i)" by fastforce
  have w': "r = Stored" "w' = store_attribute ob name v w" "ic' = fill_set w ob (Some s) s i ic"
    using run Some p by (simp_all add: set_uncached_eq [OF nodata] store_attribute_eq)
  have st: "only_stored w w'" unfolding w'(2) by (rule store_attribute_stored [OF ok])
  note same = only_stored_fields [OF st]
  have si: "oshape (objects w ob) = Some s" "shape_lookup (shapes w) s name = Some i"
    using Some p by (simp_all add: place_Some)
  have sh: "shapes w' = shapes w" using Some p w'(2) by (simp add: store_attribute_eq set_object_def)
  have "i mod 2 ^ 32 = i" by (rule offset_fits [OF ok object_okD(1) [OF ok si(1)] si(2)])
  then have "set_knows w' name ic'"
    using si nodata object_okD(1) [OF ok si(1)] by (simp add: set_knows_def w'(3) fill_set_def same sh)
  moreover have "ic_kind ic' = 2" "ic_version ic' = global_version w'" by (simp_all add: w'(3) fill_set_def same)
  ultimately have "ic_ok w' name ic'" by (simp add: ic_ok_def)
  with w'(1,2) show ?thesis by blast
qed

text \<open>A write that hits.\<close>

lemma set_cached_store:
  assumes ok: "world_ok w" and knows: "set_knows w name ic"
    and hit: "expected_type ic = otype (objects w ob)" "expected_shape ic = oshape (objects w ob)"
  shows "set_cached ob v ic w = store_attribute ob name v w"
proof (cases "oshape (objects w ob)")
  case None
  then obtain r s' where "shape_roots (shapes w) (otype (objects w ob)) = Some r"
      "transitions (shape_table (shapes w) ! r) name = Some s'" "next_shape ic = Some s'" "slot_offset ic = 0"
    using knows hit by (auto simp: set_knows_def)
  then show ?thesis
    using None hit world_okD(4) [OF ok None] put_slot_end [of "[]" v]
    by (simp add: set_cached_def store_attribute_def shape_root_def shape_transition_def Let_def)
next
  case (Some s)
  show ?thesis
  proof (cases "shape_lookup (shapes w) s name")
    case None
    then obtain s' where s': "transitions (shape_table (shapes w) ! s) name = Some s'" "next_shape ic = Some s'"
        "slot_offset ic = length (oslots (objects w ob))"
      using knows hit Some object_okD(3) [OF ok Some] by (auto simp: set_knows_def)
    have "steps_to (shapes w) s name s'"
      by (rule shapes_okD(4) [OF world_okD(1) [OF ok] object_okD(1) [OF ok Some] s'(1)])
    then have "s' \<noteq> s" by (auto simp: steps_to_def)
    then show ?thesis
      using None Some s' hit
      by (simp add: set_cached_def store_attribute_def shape_transition_def Let_def)
  next
    case (Some i)
    then show ?thesis
      using \<open>oshape (objects w ob) = Some s\<close> knows hit
      by (simp add: set_cached_def store_attribute_def set_knows_def Let_def)
  qed
qed

text \<open>A cached write of an object of a plain class, whether it hits or not.\<close>

lemma setattr_ic_store:
  assumes ok: "world_ok w" and ic: "ic_ok w name ic" and name: "name \<noteq> ''__dict__''"
    and default: "uses_default (setattribute_slot (type_of w ob)) (type_of w ob)" "instance_dict (objects w ob) = None"
      "\<not> is_type (type_of w ob)"
    and nodata: "\<not> holds_for (type_lookup w (otype (objects w ob)) name) (is_data w)"
    and run: "setattr_ic as_dict (Some ic) ob name v w = (r, Some ic', w')"
    and len: "length (shape_table (shapes w')) \<le> 2 ^ 32"
  shows "r = Stored \<and> w' = store_attribute ob name v w \<and> ic_ok w' name ic'"
proof (cases "set_hit w ob ic")
  case True
  then have r: "r = Stored" "ic' = ic" "w' = set_cached ob v ic w" using run default by (auto simp: setattr_ic_def)
  have "set_knows w name ic" using True ic by (simp add: set_hit_def ic_ok_def)
  then have eq: "w' = store_attribute ob name v w"
    using set_cached_store [OF ok] True r(3) by (simp add: set_hit_def)
  have "ic_ok w' name ic'" unfolding eq r(2) by (rule ic_ok_stored [OF ic store_attribute_stored [OF ok] ok])
  with r(1) eq show ?thesis by blast
next
  case False
  then have "set_uncached as_dict (Some (if ic_kind ic = 2 then ic\<lparr>ic_kind := 0\<rparr> else ic)) ob name v w = (r, Some ic', w')"
    using run default by (auto simp: setattr_ic_def)
  then show ?thesis by (rule set_uncached_store [OF ok nodata _ len])
qed

text \<open>All other writes take the path without a cache.\<close>

lemma setattr_ic_slow:
  assumes run: "setattr_ic as_dict (Some ic) ob name v w = (r, Some ic', w')" and ic: "ic_ok w name ic"
    and other: "\<not> uses_default (setattribute_slot (type_of w ob)) (type_of w ob) \<or> instance_dict (objects w ob) \<noteq> None \<or>
      is_type (type_of w ob) \<or> holds_for (type_lookup w (otype (objects w ob)) name) (is_data w)"
  shows "(r, w') = setattribute as_dict ob name v w \<and> (ic' = ic \<or> ic' = ic\<lparr>ic_kind := 0\<rparr>)"
proof (cases "\<not> uses_default (setattribute_slot (type_of w ob)) (type_of w ob) \<or> instance_dict (objects w ob) \<noteq> None \<or>
      is_type (type_of w ob)")
  case True
  then show ?thesis using run by (auto simp: setattr_ic_def split: prod.splits)
next
  case False
  then have "holds_for (type_lookup w (otype (objects w ob)) name) (is_data w)" using other by blast
  moreover have "\<not> set_hit w ob ic"
    using calculation ic by (auto simp: set_hit_def ic_ok_def set_knows_def)
  ultimately show ?thesis using run False
    by (auto simp: setattr_ic_def set_uncached_def Let_def split: prod.splits if_splits)
qed

text \<open>What the uncached write stores.\<close>

lemma setattribute_store:
  assumes "setattribute_slot (type_of w ob) = Object_slot" "\<not> is_type (type_of w ob)"
    "instance_dict (objects w ob) = None" "name \<noteq> ''__dict__''"
    "\<not> holds_for (type_lookup w (otype (objects w ob)) name) (is_data w)"
  shows "setattribute as_dict ob name v w = (Stored, store_attribute ob name v w)"
  using assms by (auto simp: setattribute_def object_setattribute_def Let_def holds_for_iff)

lemma setattr_ic_spec:
  assumes ok: "world_ok w" and ic: "ic_ok w name ic" and name: "name \<noteq> ''__dict__''"
    and slot: "setattribute_slot (type_of w ob) \<noteq> Builtin_slot"
    and run: "setattr_ic as_dict (Some ic) ob name v w = (r, Some ic', w')"
    and len: "length (shape_table (shapes w')) \<le> 2 ^ 32"
  shows "(r, w') = setattribute as_dict ob name v w"
proof (cases "uses_default (setattribute_slot (type_of w ob)) (type_of w ob) \<and> instance_dict (objects w ob) = None \<and>
      \<not> is_type (type_of w ob) \<and> \<not> holds_for (type_lookup w (otype (objects w ob)) name) (is_data w)")
  case True
  then have "setattribute_slot (type_of w ob) = Object_slot"
    using slot by (cases "setattribute_slot (type_of w ob)") (auto simp: uses_default_def)
  then show ?thesis
    using True setattr_ic_store [OF ok ic name _ _ _ _ run len] setattribute_store [OF _ _ _ name] by simp
next
  case False
  then show ?thesis using setattr_ic_slow [OF run ic] by blast
qed

lemma getattr_ic_returns: "getattr_ic addr (Some ic) ob name w = (r, c, w') \<Longrightarrow> \<exists>ic'. c = Some ic'"
  by (auto simp: getattr_ic_def resolve_default_getattr_def Let_def split: if_splits prod.splits option.splits)

lemma setattr_ic_returns: "setattr_ic as_dict (Some ic) ob name v w = (r, c, w') \<Longrightarrow> \<exists>ic'. c = Some ic'"
  by (auto simp: setattr_ic_def set_uncached_def Let_def split: if_splits prod.splits option.splits)

section \<open>Every step keeps the invariant\<close>

text \<open>Changes that no cache depends on: dictionaries, the table and the dictionary of an object.\<close>

definition quiet :: "world \<Rightarrow> world \<Rightarrow> bool" where
  "quiet w w' \<longleftrightarrow>
     shapes w' = shapes w \<and> types w' = types w \<and> global_version w' = global_version w \<and>
     lookup_table w' = lookup_table w \<and>
     (\<forall>ob. otype (objects w' ob) = otype (objects w ob) \<and> oshape (objects w' ob) = oshape (objects w ob) \<and>
        oslots (objects w' ob) = oslots (objects w ob))"

lemma quiet_refl [simp]: "quiet w w"
  by (simp add: quiet_def)

lemma quiet_updates [simp]:
  "quiet w (w\<lparr>dicts := D\<rparr>)" "quiet w (w\<lparr>update_table := u\<rparr>)"
  "quiet w (set_object ob ((objects w ob)\<lparr>instance_dict := d\<rparr>) w)"
  by (simp_all add: quiet_def set_object_def)

lemma quiet_inv:
  assumes "quiet w w'"
  shows "world_ok w \<Longrightarrow> world_ok w'" "ic_ok w name ic \<Longrightarrow> ic_ok w' name ic"
proof -
  have "object_ok st (objects w' ob) = object_ok st (objects w ob)" for st ob
    using assms by (simp add: quiet_def object_ok_def split: option.split)
  then show "world_ok w \<Longrightarrow> world_ok w'" using assms by (simp add: quiet_def world_ok_def)
  have types: "types w' = types w" and ty: "otype (objects w' ob) = otype (objects w ob)" for ob
    using assms by (simp_all add: quiet_def)
  have same: "type_lookup w' = type_lookup w" "descr_has_get w' = descr_has_get w" "is_data w' = is_data w"
    by (simp_all add: fun_eq_iff type_lookup_def descr_has_get_def is_data_def descriptor_is_data_def types ty)
  have fields: "shapes w' = shapes w" "global_version w' = global_version w"
    using assms by (simp_all add: quiet_def)
  show "ic_ok w name ic \<Longrightarrow> ic_ok w' name ic"
    unfolding ic_ok_def get_knows_def set_knows_def types same fields by simp
qed

lemma getattribute_quiet: "getattribute ob name w = (r, w') \<Longrightarrow> quiet w w'"
  by (auto simp: getattribute_def object_getattribute_def materialize_instance_dict_def quiet_def Let_def
      split: attr_slot.splits option.splits if_splits)

text \<open>A new version makes every cache stale.\<close>

definition new_version :: "world \<Rightarrow> world \<Rightarrow> bool" where
  "new_version w w' \<longleftrightarrow>
     shapes w' = shapes w \<and> objects w' = objects w \<and> global_version w' = global_version w + 1 \<and>
     lookup_table w' = lookup_table w \<and> (\<forall>t name. tdict (types w' t) name \<noteq> Some attr_absent)"

lemma new_version_inv:
  assumes "new_version w w'" "global_version w + 1 < 2 ^ 64"
  shows "world_ok w \<Longrightarrow> world_ok w'" "ic_ok w name ic \<Longrightarrow> ic_ok w' name ic"
  using assms by (simp_all add: new_version_def world_ok_def ic_ok_def)

lemma new_version_class:
  assumes "world_ok w" "\<forall>name. tdict P name \<noteq> Some attr_absent" "global_version w + 1 < 2 ^ 64"
  shows "new_version w ((inc_global_version w)\<lparr>types := (types w)(t := P)\<rparr>)"
  using assms by (simp add: new_version_def inc_global_version_def world_ok_def)

lemma setattribute_cases:
  assumes ok: "world_ok w" and run: "setattribute as_dict ob name v w = (r, w')"
    and v: "v \<noteq> attr_absent" "global_version w + 1 < 2 ^ 64"
  shows "quiet w w' \<or> new_version w w' \<or> w' = store_attribute ob name v w"
proof (cases "is_type (type_of w ob)")
  case True
  have "new_version w ((inc_global_version w)\<lparr>types := (types w)(ob := (types w ob)\<lparr>tdict := (tdict (types w ob))(name \<mapsto> v)\<rparr>)\<rparr>)"
    using ok v by (intro new_version_class) (auto simp: world_ok_def)
  then show ?thesis using run True
    by (auto simp: setattribute_def object_setattribute_def split: attr_slot.splits)
next
  case False
  then show ?thesis
    using run by (auto simp: setattribute_def object_setattribute_def Let_def
        split: attr_slot.splits if_splits option.splits)
qed

text \<open>A new object at an address that no class refers to.\<close>

lemma new_object_ic:
  assumes new: "unused w ob" and ic: "ic_ok w name ic"
  shows "ic_ok (set_object ob x w) name ic"
proof -
  let ?w = "set_object ob x w"
  have fields: "shapes ?w = shapes w" "types ?w = types w" "global_version ?w = global_version w"
    by (simp_all add: set_object_def)
  have ty: "type_lookup ?w = type_lookup w" by (simp add: fun_eq_iff type_lookup_def fields)
  have other: "d \<noteq> ob \<and> otype (objects w d) \<noteq> ob" if "type_lookup w t name = Some d" for t d
    using that new lookup_in_absent [of "types w" ob] by (auto simp: unused_def type_lookup_def)
  then have "holds_for (type_lookup w t name) (is_data ?w) = holds_for (type_lookup w t name) (is_data w)"
    "holds_for (type_lookup w t name) (\<lambda>d. descr_has_get ?w d \<and> is_data ?w d) =
     holds_for (type_lookup w t name) (\<lambda>d. descr_has_get w d \<and> is_data w d)" for t
    by (auto simp: holds_for_def is_data_def descriptor_is_data_def descr_has_get_def set_object_def split: option.split)
  then show ?thesis
    using ic unfolding ic_ok_def get_knows_def set_knows_def ty fields by simp
qed

definition attr_inv :: "(nat \<Rightarrow> string) \<Rightarrow> world \<times> sites \<Rightarrow> bool" where
  "attr_inv site c \<longleftrightarrow> world_ok (fst c) \<and> (\<forall>k. ic_ok (fst c) (site k) (snd c k))"

lemma attr_start_inv:
  assumes "\<forall>t name. tdict (ts t) name \<noteq> Some attr_absent"
  shows "attr_inv site (attr_start ts, \<lambda>_. empty_ic)"
  using assms by (simp add: attr_inv_def world_ok_def attr_start_def object_ok_def ic_ok_def empty_ic_def)
    (simp add: no_shapes_def)

lemma attr_step_inv:
  assumes "attr_step addr site c c'" "attr_inv site c" and names: "\<forall>k. site k \<noteq> ''__dict__''"
  shows "attr_inv site c'"
  using assms(1,2)
proof (cases rule: attr_step.cases)
  case (read_site ics k ob w r ic w')
  then have ok: "world_ok w" and ics: "\<forall>k. ic_ok w (site k) (ics k)" using assms(2) by (auto simp: attr_inv_def)
  have "w'\<lparr>update_table := update_table w\<rparr> = w \<and> ic_ok w (site k) ic"
    using getattr_ic_spec [OF ok _ _ read_site(3)] ics names by blast
  then have "quiet w w'" "ic_ok w (site k) ic"
    by (auto simp: quiet_def dest: arg_cong [of _ _ shapes] arg_cong [of _ _ types] arg_cong [of _ _ global_version]
        arg_cong [of _ _ lookup_table] arg_cong [of _ _ objects])
  then show ?thesis using read_site(2) ok ics by (auto simp: attr_inv_def quiet_inv)
next
  case (write_site as_dict ics k ob v w r ic w')
  then have ok: "world_ok w" and ics: "\<forall>k. ic_ok w (site k) (ics k)" using assms(2) by (auto simp: attr_inv_def)
  let ?slow = "\<not> uses_default (setattribute_slot (type_of w ob)) (type_of w ob) \<or> instance_dict (objects w ob) \<noteq> None \<or>
      is_type (type_of w ob) \<or> holds_for (type_lookup w (otype (objects w ob)) (site k)) (is_data w)"
  have "world_ok w' \<and> (\<forall>k. ic_ok w' (site k) (ics k)) \<and> ic_ok w' (site k) ic"
  proof (cases ?slow)
    case True
    from setattr_ic_slow [OF write_site(3) _ this] ics
    have s: "setattribute as_dict ob (site k) v w = (r, w')" "ic = ics k \<or> ic = (ics k)\<lparr>ic_kind := 0\<rparr>" by auto
    have "quiet w w' \<or> new_version w w' \<or> w' = store_attribute ob (site k) v w"
      by (rule setattribute_cases [OF ok s(1) write_site(4,5)])
    then have "world_ok w' \<and> (\<forall>k. ic_ok w' (site k) (ics k))"
    proof (elim disjE)
      assume "w' = store_attribute ob (site k) v w"
      then have "only_stored w w'" using store_attribute_stored [OF ok] by simp
      then show ?thesis using world_ok_stored [OF ok _ write_site(6)] ic_ok_stored [OF _ _ ok] ics by blast
    qed (use ok ics quiet_inv new_version_inv write_site(5) in blast)+
    then show ?thesis using s(2) ic_ok_invalid by auto
  next
    case False
    have st: "w' = store_attribute ob (site k) v w \<and> ic_ok w' (site k) ic"
      using setattr_ic_store [OF ok _ _ _ _ _ _ write_site(3,6)] False ics names by blast
    then have "only_stored w w'" using store_attribute_stored [OF ok] by simp
    then show ?thesis using world_ok_stored [OF ok _ write_site(6)] ic_ok_stored [OF _ _ ok] ics st by blast
  qed
  then show ?thesis using write_site(2) by (simp add: attr_inv_def)
next
  case (read_slow ob name w r w' ics)
  then show ?thesis using assms(2) quiet_inv [OF getattribute_quiet [OF read_slow(3)]] by (simp add: attr_inv_def)
next
  case (write_slow as_dict ob name v w r w' ics)
  then have ok: "world_ok w" and ics: "\<forall>k. ic_ok w (site k) (ics k)" using assms(2) by (auto simp: attr_inv_def)
  have "quiet w w' \<or> new_version w w' \<or> w' = store_attribute ob name v w"
    by (rule setattribute_cases [OF ok write_slow(3,4,5)])
  then have "world_ok w' \<and> (\<forall>k. ic_ok w' (site k) (ics k))"
  proof (elim disjE)
    assume "w' = store_attribute ob name v w"
    then have "only_stored w w'" using store_attribute_stored [OF ok] by simp
    then show ?thesis using world_ok_stored [OF ok _ write_slow(6)] ic_ok_stored [OF _ _ ok] ics by blast
  qed (use ok ics quiet_inv new_version_inv write_slow(5) in blast)+
  then show ?thesis using write_slow(2) by (simp add: attr_inv_def)
next
  case (new_object w ob ics t)
  let ?w = "set_object ob \<lparr>otype = t, oshape = None, oslots = [], instance_dict = None\<rparr> w"
  have ok: "world_ok w" and ics: "\<forall>k. ic_ok w (site k) (ics k)" using assms(2) new_object by (auto simp: attr_inv_def)
  have "world_ok ?w" using ok by (simp add: world_ok_def set_object_def object_ok_def)
  moreover have "ic_ok ?w name ic" if "ic_ok w name ic" for name ic
    using that by (rule new_object_ic [OF new_object(3)])
  ultimately show ?thesis using new_object(2) ics by (simp add: attr_inv_def)
next
  case (new_class P w ics t)
  then have "new_version w ((inc_global_version w)\<lparr>types := (types w)(t := P)\<rparr>)"
    using assms(2) new_version_class by (simp add: attr_inv_def)
  from new_version_inv [OF this new_class(4)] show ?thesis
    using assms(2) new_class(1,2) by (simp add: attr_inv_def)
next
  case (change_dict w ics d D)
  then show ?thesis using assms(2) quiet_inv [OF quiet_updates(1)] by (simp add: attr_inv_def)
qed

abbreviation attr_runs ::
  "(string \<Rightarrow> nat) \<Rightarrow> (nat \<Rightarrow> string) \<Rightarrow> (nat \<Rightarrow> pytype) \<Rightarrow> world \<times> sites \<Rightarrow> bool" where
  "attr_runs addr site ts c \<equiv> (attr_step addr site)\<^sup>*\<^sup>* (attr_start ts, \<lambda>_. empty_ic) c"

lemma attr_runs_inv:
  assumes "attr_runs addr site ts c" "\<forall>t name. tdict (ts t) name \<noteq> Some attr_absent" "\<forall>k. site k \<noteq> ''__dict__''"
  shows "attr_inv site c"
  using assms(1)
proof (induction rule: rtranclp_induct)
  case base
  show ?case by (rule attr_start_inv [OF assms(2)])
next
  case (step y z)
  then show ?case using attr_step_inv assms(3) by blast
qed

section \<open>Properties\<close>

text \<open>C29: In every run, whatever classes, objects, dictionaries and caches did before, a read through an
  inline cache has the result of \<^verbatim>\<open>PyObject::getattribute\<close> and changes nothing but the table that is
  never read, and a write through an inline cache has the result and the effect of
  \<^verbatim>\<open>PyObject::setattribute\<close>. (Classes whose access function is another built-in one are excluded.)\<close>

theorem cached_access_exact:
  assumes run: "attr_runs addr site ts (w, ics)" and start: "\<forall>t name. tdict (ts t) name \<noteq> Some attr_absent"
    and names: "\<forall>k. site k \<noteq> ''__dict__''"
  shows "(getattribute_slot (type_of w ob) \<noteq> Builtin_slot \<longrightarrow>
      (case getattr_ic addr (Some (ics k)) ob (site k) w of (r, _, w') \<Rightarrow>
         (r, w'\<lparr>update_table := update_table w\<rparr>) = getattribute ob (site k) w)) \<and>
    (setattribute_slot (type_of w ob) \<noteq> Builtin_slot \<longrightarrow>
      (case setattr_ic as_dict (Some (ics k)) ob (site k) v w of (r, _, w') \<Rightarrow>
         length (shape_table (shapes w')) \<le> 2 ^ 32 \<longrightarrow> (r, w') = setattribute as_dict ob (site k) v w))"
proof -
  have inv: "world_ok w" "ic_ok w (site k) (ics k)"
    using attr_runs_inv [OF run start names] by (simp_all add: attr_inv_def)
  have name: "site k \<noteq> ''__dict__''" using names by blast
  obtain r c w' where g: "getattr_ic addr (Some (ics k)) ob (site k) w = (r, c, w')" by (metis prod_cases3)
  obtain q d v' where s: "setattr_ic as_dict (Some (ics k)) ob (site k) v w = (q, d, v')" by (metis prod_cases3)
  obtain ic where c: "c = Some ic" using getattr_ic_returns [OF g] by blast
  obtain ic' where d: "d = Some ic'" using setattr_ic_returns [OF s] by blast
  have keeps: "(fst (getattribute ob (site k) w), w) = getattribute ob (site k) w"
    using getattribute_keeps [OF name] by (metis prod.collapse)
  show ?thesis
    using getattr_ic_spec [OF inv name] setattr_ic_spec [OF inv name] g s keeps unfolding c d by auto
qed

text \<open>The process-wide table of attributes never answers, in any run: \<^verbatim>\<open>update\<close> fills one table and
  \<^verbatim>\<open>lookup\<close> reads another one.\<close>

theorem attr_table_never_hits:
  assumes "attr_runs addr site ts (w, ics)" "\<forall>t name. tdict (ts t) name \<noteq> Some attr_absent"
    "\<forall>k. site k \<noteq> ''__dict__''"
  shows "attr_cache_lookup t name version w = None \<and>
    attr_cache_lookup t name version (attr_cache_update t name d version w) = None"
proof -
  have "world_ok w" using attr_runs_inv [OF assms] by (simp add: attr_inv_def)
  then show ?thesis by (simp add: attr_cache_lookup_def Let_def world_ok_def)
qed

text \<open>A class attribute with a \<^verbatim>\<open>__get__\<close> hides the attribute of the same name of the instance, even
  if it has no \<^verbatim>\<open>__set__\<close>, as functions have none: every descriptor is taken for a data descriptor.\<close>

theorem descriptor_hides_instance_attribute:
  assumes "type_lookup w (otype (objects w ob)) name = Some d" "descr_has_get w d"
    and "which (type_of w (otype (objects w d))) = TypeType" "getattribute_slot (type_of w ob) = Object_slot"
  shows "fst (getattribute ob name w) = Get_descriptor d"
  using assms by (simp add: getattribute_def object_getattribute_def is_data_def descriptor_is_data_def)


section \<open>Concrete runs\<close>

definition plain_class :: pytype where
  "plain_class =
     \<lparr>which = OtherType, is_type = False, is_heaptype = True, explicit_slots = False, slot_names = [],
      bases = [], mro = [], tdict = \<lambda>_. None, has_get = False, has_set = False,
      getattribute_slot = Object_slot, setattribute_slot = Object_slot\<rparr>"

text \<open>Site 1 writes an attribute \<open>x\<close> of the object 5.\<close>

definition demo_write :: "set_result \<times> attr_ic option \<times> world" where
  "demo_write = setattr_ic (\<lambda>_. None) (Some empty_ic) 5 ''x'' 7 (attr_start (\<lambda>_. plain_class))"

definition demo_world :: world where
  "demo_world = snd (snd demo_write)"

definition demo_sites :: sites where
  "demo_sites = (\<lambda>_. empty_ic)(1 := the (fst (snd demo_write)))"

lemmas demo_write_simps =
  demo_write_def setattr_ic_def attr_start_def plain_class_def uses_default_def empty_ic_def set_hit_def
  set_uncached_def place_def type_lookup_def shape_after_def shape_root_def shape_transition_def
  next_shape_version_def no_shapes_def root_shape_def child_shape_def shape_lookup_def set_object_def put_slot_def

lemma demo_write_run:
  "\<exists>ic. demo_write = (Stored, Some ic, demo_world)" "length (shape_table (shapes demo_world)) = 2"
  "oshape (objects demo_world 5) = Some (Suc 0)" "oslots (objects demo_world 5) = [7]"
  "instance_dict (objects demo_world 5) = None"
  "shape_lookup (shapes demo_world) (Suc 0) ''x'' = Some 0" "types demo_world = (\<lambda>_. plain_class)"
  by (simp_all add: demo_world_def demo_write_simps Let_def)

lemma demo_runs: "attr_runs addr (\<lambda>_. ''x'') (\<lambda>_. plain_class) (demo_world, demo_sites)"
proof -
  obtain ic where ic: "demo_write = (Stored, Some ic, demo_world)" using demo_write_run(1) by blast
  have "attr_step addr (\<lambda>_. ''x'') (attr_start (\<lambda>_. plain_class), \<lambda>_. empty_ic)
      (demo_world, (\<lambda>_. empty_ic)(1 := ic))"
    by (rule write_site [where as_dict = "\<lambda>_. None" and ob = 5 and v = 7])
      (use ic demo_write_run(2) in \<open>simp_all add: demo_write_def attr_absent_def attr_start_def\<close>)
  moreover have "demo_sites = (\<lambda>_. empty_ic)(1 := ic)" unfolding demo_sites_def ic by simp
  ultimately show ?thesis by auto
qed

lemma demo_names: "\<forall>t name. tdict plain_class name \<noteq> Some attr_absent" "\<forall>k::nat. ''x'' \<noteq> ''__dict__''"
  by (simp_all add: plain_class_def)

theorem cached_access_exact_witness:
  "fst (getattr_ic (\<lambda>_. 0) (Some (demo_sites 2)) 5 ''x'' demo_world) = Found 7"
proof -
  have "getattribute_slot (type_of demo_world 5) = Object_slot" by (simp add: demo_write_run plain_class_def)
  moreover have "fst (getattribute 5 ''x'' demo_world) = Found 7"
    by (simp add: getattribute_def object_getattribute_def type_lookup_def instance_lookup_def demo_write_run
        plain_class_def Let_def)
  moreover obtain r c w' where "getattr_ic (\<lambda>_. 0) (Some (demo_sites 2)) 5 ''x'' demo_world = (r, c, w')"
    by (metis prod_cases3)
  ultimately show ?thesis
    using cached_access_exact [OF demo_runs [of "\<lambda>_. 0"] demo_names, of 5 2 "\<lambda>_. None" 0]
    by (simp add: case_prod_beta) (metis fst_conv)
qed

theorem attr_table_never_hits_witness:
  "attr_cache_lookup 0 3 0 (attr_cache_update 0 3 9 0 demo_world) = None"
  using attr_table_never_hits [OF demo_runs demo_names] by blast


text \<open>A function (object 9 of type 8) in the class of the object 5 hides the attribute \<open>x\<close> of the object.\<close>

definition hiding_world :: world where
  "hiding_world =
     demo_world\<lparr>types := (\<lambda>_. plain_class)(0 := plain_class\<lparr>mro := [0], tdict := [''x'' \<mapsto> 9]\<rparr>,
                   8 := plain_class\<lparr>has_get := True\<rparr>, 7 := plain_class\<lparr>which := TypeType\<rparr>),
                objects := (objects demo_world)(9 := (objects demo_world 9)\<lparr>otype := 8\<rparr>,
                   8 := (objects demo_world 8)\<lparr>otype := 7\<rparr>)\<rparr>"

lemma hiding_world_objects: "otype (objects demo_world ob) = 0"
  by (simp add: demo_world_def demo_write_simps Let_def)

theorem descriptor_hides_instance_attribute_witness:
  "instance_lookup hiding_world 5 ''x'' = Some 7 \<and> \<not> descr_has_set hiding_world 9 \<and>
   fst (getattribute 5 ''x'' hiding_world) = Get_descriptor 9"
proof -
  have "type_lookup hiding_world (otype (objects hiding_world 5)) ''x'' = Some 9"
      "descr_has_get hiding_world 9" "which (type_of hiding_world (otype (objects hiding_world 9))) = TypeType"
      "getattribute_slot (type_of hiding_world 5) = Object_slot"
    by (simp_all add: hiding_world_def type_lookup_def hiding_world_objects descr_has_get_def plain_class_def)
  then have "fst (getattribute 5 ''x'' hiding_world) = Get_descriptor 9"
    by (rule descriptor_hides_instance_attribute)
  moreover have "instance_lookup hiding_world 5 ''x'' = Some 7"
    using demo_write_run by (simp add: hiding_world_def instance_lookup_def shape_lookup_def)
  moreover have "\<not> descr_has_set hiding_world 9"
    by (simp add: hiding_world_def descr_has_set_def plain_class_def)
  ultimately show ?thesis by blast
qed

end
