(* ===== verification/Method_Caches.thy ===== *)
theory Method_Caches
  imports Attribute_Props
begin

text \<open>
  Method calls: \<^verbatim>\<open>rt_call_method_raw_ptrs\<close> (\<^verbatim>\<open>src/src/runtime/export/rt_func.cpp\<close>), and
  \<^verbatim>\<open>rt_call_method_ic_ptrs\<close> with its cache of four entries
  (\<^verbatim>\<open>export/cache/rt_method_cache.cpp\<close>). A call ends with what is called and how; the intrinsic
  methods of lists, sets and dictionaries are left out.
\<close>

section \<open>Calls\<close>

datatype call_target =
  With_self nat | Without_self nat | With_class nat | Static_function nat | Bound_class_method nat
| Attribute_value attr_result

definition shape_value :: "world \<Rightarrow> nat \<Rightarrow> string \<Rightarrow> nat option" where
  "shape_value w ob name = map_option (\<lambda>(s, offset). oslots (objects w ob) ! offset) (place w ob name)"

definition overrides_getattribute :: "world \<Rightarrow> nat \<Rightarrow> bool" where
  "overrides_getattribute w ob \<longleftrightarrow>
     getattribute_slot (type_of w ob) \<noteq> No_slot \<and>
     (getattribute_slot (type_of w ob) = Python_slot \<or> which (type_of w ob) = TypeType)"

definition attribute_then_call :: "nat \<Rightarrow> string \<Rightarrow> world \<Rightarrow> call_target \<times> world" where
  "attribute_then_call ob name w = (case getattribute ob name w of (r, w') \<Rightarrow> (Attribute_value r, w'))"

definition self_unless_shadowed :: "world \<Rightarrow> nat \<Rightarrow> string \<Rightarrow> nat \<Rightarrow> call_target" where
  "self_unless_shadowed w ob name d =
     (case shape_value w ob name of Some f \<Rightarrow> Without_self f | None \<Rightarrow> With_self d)"

definition call_method_raw :: "nat \<Rightarrow> string \<Rightarrow> world \<Rightarrow> call_target \<times> world" where
  "call_method_raw ob name w =
     (if overrides_getattribute w ob then attribute_then_call ob name w
      else case type_lookup w (otype (objects w ob)) name of
        None \<Rightarrow> attribute_then_call ob name w
      | Some d \<Rightarrow>
          (case which (type_of w d) of
             FunctionType \<Rightarrow> (self_unless_shadowed w ob name d, w)
           | NativeFunctionType \<Rightarrow> (self_unless_shadowed w ob name d, w)
           | MethodWrapperType \<Rightarrow> (self_unless_shadowed w ob name d, w)
           | SlotWrapperType \<Rightarrow> (self_unless_shadowed w ob name d, w)
           | ClassMethodDescriptorType \<Rightarrow> (With_class d, w)
           | StaticMethodType \<Rightarrow> (Static_function d, w)
           | ClassMethodType \<Rightarrow> (Bound_class_method d, w)
           | _ \<Rightarrow>
               if descriptor_is_data w d then attribute_then_call ob name w
               else (self_unless_shadowed w ob name d, w)))"

section \<open>The cache\<close>

record mc_slot =
  mc_type :: nat
  mc_version :: nat
  mc_shape :: "nat option"
  mc_name :: string
  mc_func :: nat
  mc_tag :: nat

record method_cache =
  mc_slots :: "mc_slot list"
  next_evict :: nat

definition empty_method_cache :: method_cache where
  "empty_method_cache =
     \<lparr>mc_slots = replicate 4 \<lparr>mc_type = 0, mc_version = 0, mc_shape = None, mc_name = [], mc_func = 0, mc_tag = 0\<rparr>,
      next_evict = 0\<rparr>"

definition called_directly :: "builtin_type \<Rightarrow> bool" where
  "called_directly k \<longleftrightarrow> k \<in> {FunctionType, NativeFunctionType, MethodWrapperType, SlotWrapperType}"

definition no_descriptor :: "world \<Rightarrow> nat \<Rightarrow> bool" where
  "no_descriptor w d \<longleftrightarrow>
     \<not> descriptor_is_data w d \<and>
     (called_directly (which (type_of w d)) \<or> type_lookup w (otype (objects w d)) ''__get__'' = None)"

definition update_method_cache :: "nat \<Rightarrow> string \<Rightarrow> world \<Rightarrow> method_cache \<Rightarrow> method_cache" where
  "update_method_cache ob name w c =
     (case type_lookup w (otype (objects w ob)) name of
        None \<Rightarrow> c
      | Some d \<Rightarrow>
          if called_directly (which (type_of w d)) \<or> no_descriptor w d
          then c\<lparr>mc_slots := (mc_slots c)[next_evict c mod 4 :=
                   \<lparr>mc_type = otype (objects w ob), mc_version = global_version w, mc_shape = oshape (objects w ob),
                    mc_name = name, mc_func = d, mc_tag = (if called_directly (which (type_of w d)) then 1 else 2)\<rparr>],
                 next_evict := (next_evict c + 1) mod 256\<rparr>
          else c)"

definition method_hit :: "world \<Rightarrow> nat \<Rightarrow> mc_slot \<Rightarrow> bool" where
  "method_hit w ob e \<longleftrightarrow>
     mc_tag e \<noteq> 0 \<and> mc_type e = otype (objects w ob) \<and> mc_shape e = oshape (objects w ob) \<and>
     mc_version e = global_version w"

definition call_method_ic ::
  "nat \<Rightarrow> string \<Rightarrow> method_cache \<Rightarrow> world \<Rightarrow> call_target \<times> method_cache \<times> world" where
  "call_method_ic ob name c w =
     (case find (method_hit w ob) (mc_slots c) of
        Some e \<Rightarrow> (if mc_tag e = 1 then With_self (mc_func e) else Without_self (mc_func e), c, w)
      | None \<Rightarrow>
          let c' = (if overrides_getattribute w ob then c else update_method_cache ob name w c)
          in case call_method_raw ob name w of (r, w') \<Rightarrow> (r, c', w'))"

section \<open>The invariant\<close>

definition mc_knows :: "world \<Rightarrow> string \<Rightarrow> mc_slot \<Rightarrow> bool" where
  "mc_knows w name e \<longleftrightarrow>
     mc_tag e = 1 \<and>
     holds_for (type_lookup w (mc_type e) name) (\<lambda>d. d = mc_func e \<and> called_directly (which (type_of w d))) \<and>
     getattribute_slot (types w (mc_type e)) \<noteq> Python_slot \<and> which (types w (mc_type e)) \<noteq> TypeType"

definition mc_ok :: "world \<Rightarrow> string \<Rightarrow> mc_slot \<Rightarrow> bool" where
  "mc_ok w name e \<longleftrightarrow>
     mc_version e \<le> global_version w \<and>
     (mc_tag e \<noteq> 0 \<longrightarrow> mc_version e = global_version w \<longrightarrow> mc_knows w name e)"

text \<open>The class \<^verbatim>\<open>staticmethod\<close> has its \<^verbatim>\<open>__get__\<close>, and every type has an access function.\<close>

definition classes_complete :: "world \<Rightarrow> bool" where
  "classes_complete w \<longleftrightarrow>
     (\<forall>t. which (types w t) = StaticMethodType \<longrightarrow> type_lookup w t ''__get__'' \<noteq> None) \<and>
     (\<forall>t. getattribute_slot (types w t) \<noteq> No_slot)"

lemma update_method_cache_ok:
  assumes ok: "\<forall>e \<in> set (mc_slots c). mc_ok w name e" and cl: "classes_complete w"
    and no: "\<not> overrides_getattribute w ob"
  shows "\<forall>e \<in> set (mc_slots (update_method_cache ob name w c)). mc_ok w name e"
proof (cases "type_lookup w (otype (objects w ob)) name")
  case None
  then show ?thesis using ok by (simp add: update_method_cache_def)
next
  case (Some d)
  let ?e = "\<lparr>mc_type = otype (objects w ob), mc_version = global_version w, mc_shape = oshape (objects w ob),
      mc_name = name, mc_func = d, mc_tag = (if called_directly (which (type_of w d)) then 1 else 2)\<rparr>"
  have "called_directly (which (type_of w d))" if "no_descriptor w d"
    using that cl by (auto simp: no_descriptor_def descriptor_is_data_def classes_complete_def called_directly_def)
  moreover have "mc_ok w name ?e" if "called_directly (which (type_of w d))"
    using that Some no cl by (auto simp: mc_ok_def mc_knows_def overrides_getattribute_def classes_complete_def)
  ultimately show ?thesis
    using ok Some by (auto simp: update_method_cache_def dest: set_update_subset_insert [THEN subsetD])
qed

text \<open>A hit of an entry that is right.\<close>

lemma method_hit_call:
  assumes e: "mc_ok w name e" and hit: "method_hit w ob e"
  shows "mc_tag e = 1 \<and> call_method_raw ob name w = (self_unless_shadowed w ob name (mc_func e), w)"
proof -
  have k: "mc_knows w name e" using assms by (simp add: mc_ok_def method_hit_def)
  then have "type_lookup w (otype (objects w ob)) name = Some (mc_func e)"
      "called_directly (which (type_of w (mc_func e)))" "\<not> overrides_getattribute w ob"
    using hit by (auto simp: mc_knows_def method_hit_def holds_for_iff overrides_getattribute_def)
  then show ?thesis
    using k by (auto simp: call_method_raw_def called_directly_def mc_knows_def split: builtin_type.split)
qed

section \<open>Runs\<close>

text \<open>What a step of a program does to the state.\<close>

lemma attr_step_world:
  assumes step: "attr_step addr site (w, ics) (w', ics')" and inv: "attr_inv site (w, ics)"
    and names: "\<forall>k. site k \<noteq> ''__dict__''"
  shows "quiet w w' \<or> only_stored w w' \<or> new_version w w' \<or> (\<exists>ob x. unused w ob \<and> w' = set_object ob x w)"
proof -
  have ok: "world_ok w" and ics: "\<And>k. ic_ok w (site k) (ics k)" using inv by (simp_all add: attr_inv_def)
  show ?thesis
    using step
  proof (cases rule: attr_step.cases)
    case (read_site k ob r ic)
    have "w'\<lparr>update_table := update_table w\<rparr> = w"
      using getattr_ic_spec [OF ok ics _ read_site(2)] names by blast
    then have "quiet w w'"
      by (auto simp: quiet_def dest: arg_cong [of _ _ shapes] arg_cong [of _ _ types] arg_cong [of _ _ global_version]
          arg_cong [of _ _ lookup_table] arg_cong [of _ _ objects])
    then show ?thesis by blast
  next
    case (write_site as_dict k ob v r ic)
    show ?thesis
    proof (cases "\<not> uses_default (setattribute_slot (type_of w ob)) (type_of w ob) \<or> instance_dict (objects w ob) \<noteq> None \<or>
        is_type (type_of w ob) \<or> holds_for (type_lookup w (otype (objects w ob)) (site k)) (is_data w)")
      case True
      from setattr_ic_slow [OF write_site(2) ics this]
      have "setattribute as_dict ob (site k) v w = (r, w')" by simp
      from setattribute_cases [OF ok this write_site(3,4)] show ?thesis using store_attribute_stored [OF ok] by blast
    next
      case False
      then have "w' = store_attribute ob (site k) v w"
        using setattr_ic_store [OF ok ics _ _ _ _ _ write_site(2,5)] names by blast
      then show ?thesis using store_attribute_stored [OF ok] by blast
    qed
  next
    case (read_slow ob name r)
    then show ?thesis using getattribute_quiet by blast
  next
    case (write_slow as_dict ob name v r)
    from setattribute_cases [OF ok write_slow(2-4)] show ?thesis using store_attribute_stored [OF ok] by blast
  next
    case (new_object ob t)
    then show ?thesis by blast
  next
    case (new_class P t)
    then show ?thesis using new_version_class [OF ok] by blast
  next
    case (change_dict d D)
    then show ?thesis by simp
  qed
qed

lemma mc_ok_same:
  assumes "types w' = types w" "global_version w' = global_version w"
    "\<And>t d. type_lookup w t name = Some d \<Longrightarrow> otype (objects w' d) = otype (objects w d)"
  shows "mc_ok w' name e = mc_ok w name e"
proof -
  have "type_lookup w' = type_lookup w" unfolding fun_eq_iff type_lookup_def assms(1) by simp
  then have "mc_knows w' name e = mc_knows w name e"
    using assms(1,3) by (auto simp: mc_knows_def holds_for_iff)
  then show ?thesis by (simp add: mc_ok_def assms(2))
qed

lemma mc_ok_step:
  assumes step: "quiet w w' \<or> only_stored w w' \<or> new_version w w' \<or> (\<exists>ob x. unused w ob \<and> w' = set_object ob x w)"
    and ok: "mc_ok w name e"
  shows "mc_ok w' name e"
  using step
proof (elim disjE exE conjE)
  assume "quiet w w'"
  then show ?thesis using ok mc_ok_same [of w' w name e] by (simp add: quiet_def)
next
  assume "only_stored w w'"
  then show ?thesis using ok mc_ok_same [of w' w name e] by (simp add: only_stored_fields)
next
  assume "new_version w w'"
  then show ?thesis using ok by (simp add: new_version_def mc_ok_def)
next
  fix ob x assume ob: "unused w ob" "w' = set_object ob x w"
  have "d \<noteq> ob" if "type_lookup w t name = Some d" for t d
    using that ob(1) lookup_in_absent [of "types w" ob] by (auto simp: unused_def type_lookup_def)
  then show ?thesis using ok mc_ok_same [of w' w name e] ob(2) by (fastforce simp: set_object_def)
qed

text \<open>Call site \<open>k\<close> calls the method \<open>method k\<close>.\<close>

inductive method_step ::
  "(string \<Rightarrow> nat) \<Rightarrow> (nat \<Rightarrow> string) \<Rightarrow> (nat \<Rightarrow> string)
     \<Rightarrow> world \<times> sites \<times> (nat \<Rightarrow> method_cache) \<Rightarrow> world \<times> sites \<times> (nat \<Rightarrow> method_cache) \<Rightarrow> bool"
  for addr :: "string \<Rightarrow> nat" and site :: "nat \<Rightarrow> string" and method_name :: "nat \<Rightarrow> string" where
  access: "attr_step addr site (w, ics) (w', ics') \<Longrightarrow>
    method_step addr site method_name (w, ics, mcs) (w', ics', mcs)"
| call: "call_method_ic ob (method_name k) (mcs k) w = (r, c, w') \<Longrightarrow> classes_complete w \<Longrightarrow>
    method_step addr site method_name (w, ics, mcs) (w', ics, mcs(k := c))"

abbreviation method_runs ::
  "(string \<Rightarrow> nat) \<Rightarrow> (nat \<Rightarrow> string) \<Rightarrow> (nat \<Rightarrow> string) \<Rightarrow> (nat \<Rightarrow> pytype)
     \<Rightarrow> world \<times> sites \<times> (nat \<Rightarrow> method_cache) \<Rightarrow> bool" where
  "method_runs addr site method_name ts c \<equiv>
     (method_step addr site method_name)\<^sup>*\<^sup>* (attr_start ts, \<lambda>_. empty_ic, \<lambda>_. empty_method_cache) c"

definition method_inv :: "(nat \<Rightarrow> string) \<Rightarrow> (nat \<Rightarrow> string) \<Rightarrow> world \<times> sites \<times> (nat \<Rightarrow> method_cache) \<Rightarrow> bool" where
  "method_inv site method_name = (\<lambda>(w, ics, mcs).
     attr_inv site (w, ics) \<and> (\<forall>k. \<forall>e \<in> set (mc_slots (mcs k)). mc_ok w (method_name k) e))"

lemma call_method_raw_quiet: "call_method_raw ob name w = (r, w') \<Longrightarrow> quiet w w'"
  by (auto simp: call_method_raw_def attribute_then_call_def dest: getattribute_quiet
      split: if_splits option.splits builtin_type.splits prod.splits)

lemma method_step_inv:
  assumes "method_step addr site method_name c c'" "method_inv site method_name c" "\<forall>k. site k \<noteq> ''__dict__''"
  shows "method_inv site method_name c'"
  using assms(1,2)
proof (cases rule: method_step.cases)
  case (access w ics w' ics' mcs)
  then have inv: "attr_inv site (w, ics)" using assms(2) by (simp add: method_inv_def)
  note attr_step_world [OF access(3) inv assms(3)]
  then show ?thesis
    using assms(2) access attr_step_inv [OF access(3) inv assms(3)] mc_ok_step by (simp add: method_inv_def)
next
  case (call ob k mcs w r c'' w' ics)
  have inv: "attr_inv site (w, ics)" "\<forall>k. \<forall>e \<in> set (mc_slots (mcs k)). mc_ok w (method_name k) e"
    using assms(2) call(1) by (auto simp: method_inv_def)
  have "quiet w w' \<and> (\<forall>e \<in> set (mc_slots c''). mc_ok w (method_name k) e)"
  proof (cases "find (method_hit w ob) (mc_slots (mcs k))")
    case None
    then obtain q where "call_method_raw ob (method_name k) w = (q, w')"
        "c'' = (if overrides_getattribute w ob then mcs k else update_method_cache ob (method_name k) w (mcs k))"
      using call(3) by (auto simp: call_method_ic_def Let_def split: prod.splits)
    moreover have "\<forall>e \<in> set (mc_slots (update_method_cache ob (method_name k) w (mcs k))). mc_ok w (method_name k) e"
      if "\<not> overrides_getattribute w ob"
      by (rule update_method_cache_ok [OF _ call(4) that]) (use inv(2) in blast)
    ultimately show ?thesis using inv(2) call_method_raw_quiet by auto
  next
    case (Some e)
    then show ?thesis using call(3) inv(2) by (auto simp: call_method_ic_def)
  qed
  then show ?thesis
    using call(2) inv mc_ok_step [of w w'] quiet_inv by (auto simp: method_inv_def attr_inv_def)
qed

lemma method_runs_inv:
  assumes "method_runs addr site method_name ts c" "\<forall>t name. tdict (ts t) name \<noteq> Some attr_absent"
    "\<forall>k. site k \<noteq> ''__dict__''"
  shows "method_inv site method_name c"
  using assms(1)
proof (induction rule: rtranclp_induct)
  case base
  show ?case
    using attr_start_inv [OF assms(2)] by (simp add: method_inv_def empty_method_cache_def mc_ok_def)
next
  case (step y z)
  then show ?case using method_step_inv assms(3) by blast
qed

section \<open>Properties\<close>

text \<open>C31: In every run a method call through the cache calls what the call without a cache calls, as
  long as the object has no attribute of that name; if it has one and the cache hits, the cached
  call still calls the method of the class, and the call without a cache the attribute.\<close>

theorem method_cache_exact:
  assumes run: "method_runs addr site method_name ts (w, ics, mcs)"
    and start: "\<forall>t name. tdict (ts t) name \<noteq> Some attr_absent" "\<forall>k. site k \<noteq> ''__dict__''"
  shows "case shape_value w ob (method_name k) of
      None \<Rightarrow> (case call_method_ic ob (method_name k) (mcs k) w of (r, c, w') \<Rightarrow>
        (r, w') = call_method_raw ob (method_name k) w)
    | Some f \<Rightarrow> (case find (method_hit w ob) (mc_slots (mcs k)) of
        None \<Rightarrow> fst (call_method_ic ob (method_name k) (mcs k) w) = fst (call_method_raw ob (method_name k) w)
      | Some e \<Rightarrow> fst (call_method_ic ob (method_name k) (mcs k) w) = With_self (mc_func e) \<and>
          fst (call_method_raw ob (method_name k) w) = Without_self f)"
proof -
  have inv: "\<forall>e \<in> set (mc_slots (mcs k)). mc_ok w (method_name k) e"
    using method_runs_inv [OF run start] by (simp add: method_inv_def)
  show ?thesis
  proof (cases "find (method_hit w ob) (mc_slots (mcs k))")
    case None
    then show ?thesis by (auto simp: call_method_ic_def Let_def split: option.split prod.split)
  next
    case (Some e)
    then have e: "method_hit w ob e" "e \<in> set (mc_slots (mcs k))" by (auto simp: find_Some_iff)
    then have "mc_ok w (method_name k) e" using inv by blast
    from method_hit_call [OF this e(1)] show ?thesis
      using Some by (simp add: call_method_ic_def self_unless_shadowed_def split: option.split)
  qed
qed

text \<open>An object of a class with a method \<open>f\<close> (the function 9), and an attribute \<open>f\<close> of its own: the
  first call at a site calls the attribute, the second one the method.\<close>

definition demo_types :: "nat \<Rightarrow> pytype" where
  "demo_types = (\<lambda>_. plain_class)(8 := plain_class\<lparr>which := FunctionType\<rparr>)"

definition with_function :: world where
  "with_function = set_object 9 \<lparr>otype = 8, oshape = None, oslots = [], instance_dict = None\<rparr> (attr_start demo_types)"

definition with_method :: world where
  "with_method = (inc_global_version with_function)\<lparr>types := (types with_function)(0 :=
     plain_class\<lparr>mro := [0], tdict := [''f'' \<mapsto> 9]\<rparr>)\<rparr>"

definition with_both :: world where
  "with_both = store_attribute 5 ''f'' 7 with_method"

definition filled_cache :: method_cache where
  "filled_cache = update_method_cache 5 ''f'' with_both empty_method_cache"

lemmas with_both_simps =
  with_both_def with_method_def with_function_def demo_types_def attr_start_def plain_class_def
  inc_global_version_def store_attribute_def shape_root_def shape_transition_def next_shape_version_def
  no_shapes_def root_shape_def child_shape_def shape_lookup_def set_object_def

lemma with_both_fields:
  "types with_both = demo_types(0 := plain_class\<lparr>mro := [0], tdict := [''f'' \<mapsto> 9]\<rparr>)"
  "otype (objects with_both 5) = 0" "otype (objects with_both 9) = 8" "global_version with_both = 1"
  "place with_both 5 ''f'' = Some (1, 0)" "oslots (objects with_both 5) = [7]"
  "length (shape_table (shapes with_both)) = 2" "oshape (objects with_both 5) = Some 1"
  by (simp_all add: with_both_simps place_def Let_def)

lemma demo_types_names: "\<forall>t name. tdict (demo_types t) name \<noteq> Some attr_absent"
  by (simp add: demo_types_def plain_class_def)

lemma runs_with_both: "attr_runs addr site demo_types (with_both, \<lambda>_. empty_ic)"
proof -
  have "attr_step addr site (attr_start demo_types, \<lambda>_. empty_ic) (with_function, \<lambda>_. empty_ic)"
    unfolding with_function_def
    by (rule new_object) (simp add: unused_def attr_start_def demo_types_def plain_class_def)
  moreover have "attr_step addr site (with_function, \<lambda>_. empty_ic) (with_method, \<lambda>_. empty_ic)"
    unfolding with_method_def
    by (rule new_class) (simp_all add: attr_absent_def with_function_def set_object_def attr_start_def)
  moreover have "attr_step addr site (with_method, \<lambda>_. empty_ic) (with_both, \<lambda>_. empty_ic)"
  proof (rule write_slow)
    show "setattribute (\<lambda>_. None) 5 ''f'' 7 with_method = (Stored, with_both)"
      unfolding with_both_def
      by (simp add: setattribute_def object_setattribute_def with_method_def with_function_def
          inc_global_version_def set_object_def attr_start_def demo_types_def plain_class_def type_lookup_def
          descr_has_set_def Let_def)
  qed (simp_all add: with_both_fields attr_absent_def with_method_def with_function_def inc_global_version_def
      set_object_def attr_start_def)
  ultimately show ?thesis by (meson converse_rtranclp_into_rtranclp rtranclp.rtrancl_refl)
qed

lemma method_runs_access:
  assumes "(attr_step addr site)\<^sup>*\<^sup>* c c'"
  shows "(method_step addr site method_name)\<^sup>*\<^sup>* (fst c, snd c, m) (fst c', snd c', m)"
  using assms
proof (induction rule: rtranclp_induct)
  case (step y z)
  have "method_step addr site method_name (fst y, snd y, m) (fst z, snd z, m)"
    by (rule access) (use step.hyps(2) in simp)
  with step.IH show ?case by (rule rtranclp.rtrancl_into_rtrancl)
qed simp

lemma runs_filled:
  "method_runs addr site (\<lambda>_. ''f'') demo_types (with_both, \<lambda>_. empty_ic, (\<lambda>_. empty_method_cache)(2 := filled_cache))"
proof -
  let ?m = "\<lambda>_. empty_method_cache"
  have "method_runs addr site (\<lambda>_. ''f'') demo_types (with_both, \<lambda>_. empty_ic, ?m)"
    using method_runs_access [OF runs_with_both, where m = ?m] by simp
  moreover have "classes_complete with_both"
    by (simp add: classes_complete_def with_both_fields demo_types_def plain_class_def)
  moreover have "find (method_hit with_both 5) (mc_slots empty_method_cache) = None"
    by (simp add: empty_method_cache_def method_hit_def find_None_iff)
  then have "call_method_ic 5 ''f'' empty_method_cache with_both = (Without_self 7, filled_cache, with_both)"
    by (simp add: call_method_ic_def filled_cache_def overrides_getattribute_def
        with_both_fields demo_types_def plain_class_def call_method_raw_def type_lookup_def
        self_unless_shadowed_def shape_value_def Let_def)
  ultimately show ?thesis
    using call [of 5 "\<lambda>_. ''f''" 2 ?m with_both "Without_self 7" filled_cache with_both addr site "\<lambda>_. empty_ic"]
    by (auto intro: rtranclp.rtrancl_into_rtrancl)
qed

lemma four_entries: "(replicate 4 x)[0 := y] = y # replicate 3 x"
  by (simp add: numeral_eq_Suc)

theorem method_cache_exact_witness:
  "fst (call_method_ic 5 ''f'' filled_cache with_both) = With_self 9 \<and>
   fst (call_method_raw 5 ''f'' with_both) = Without_self 7"
proof -
  have "shape_value with_both 5 ''f'' = Some 7" by (simp add: shape_value_def with_both_fields)
  moreover have "find (method_hit with_both 5) (mc_slots filled_cache) =
      Some \<lparr>mc_type = 0, mc_version = 1, mc_shape = Some 1, mc_name = ''f'', mc_func = 9, mc_tag = 1\<rparr>"
    by (simp add: filled_cache_def update_method_cache_def empty_method_cache_def type_lookup_def with_both_fields
        demo_types_def plain_class_def called_directly_def method_hit_def four_entries)
  ultimately show ?thesis
    using method_cache_exact [OF runs_filled [of "\<lambda>_. 0" "\<lambda>_. ''x''"] demo_types_names, of 5 2] by simp
qed

end
