(* ===== verification/Mro.thy ===== *)
theory Mro
  imports Prelude "HOL-Library.Sublist"
begin

text \<open>
  The method resolution order: \<^verbatim>\<open>merge\<close>, \<^verbatim>\<open>mro_\<close>, \<^verbatim>\<open>mro_internal\<close> and \<^verbatim>\<open>issubclass\<close> of
  \<^verbatim>\<open>src/src/runtime/PyType.cpp\<close>. Classes are numbers. Reading the first element of an empty vector
  is \<open>Abort Undefined\<close>; classes without a common order end in \<^verbatim>\<open>TODO()\<close>.
\<close>

section \<open>Merging\<close>

fun find_candidate :: "nat list list \<Rightarrow> nat list list \<Rightarrow> nat option py_result" where
  "find_candidate mros [] = Ok None"
| "find_candidate mros ([] # els) = Abort Undefined"
| "find_candidate mros ((candidate # _) # els) =
     (if list_all (\<lambda>m. candidate \<notin> set (tl m)) mros then Ok (Some candidate) else find_candidate mros els)"

fun without_head :: "nat \<Rightarrow> nat list list \<Rightarrow> nat list list py_result" where
  "without_head candidate [] = Ok []"
| "without_head candidate ([] # ms) = Abort Undefined"
| "without_head candidate ((head # m) # ms) =
     and_then (without_head candidate ms) (\<lambda>rest.
       Ok ((if head = candidate then m else head # m) # rest))"

lemma find_candidate_head: "find_candidate mros els = Ok (Some c) \<Longrightarrow> \<exists>m. c # m \<in> set els"
  by (induction mros els rule: find_candidate.induct) (auto split: if_splits)

lemma without_head_Ok:
  "without_head c ms = Ok rest \<Longrightarrow> rest = map (\<lambda>m. if hd m = c then tl m else m) ms \<and> [] \<notin> set ms"
  by (induction c ms arbitrary: rest rule: without_head.induct) (auto simp: and_then_eq_Ok)

lemma sum_list_less:
  fixes f g :: "'a \<Rightarrow> nat"
  assumes "\<And>x. x \<in> set xs \<Longrightarrow> f x \<le> g x" "y \<in> set xs" "f y < g y"
  shows "sum_list (map f xs) < sum_list (map g xs)"
  using assms
proof (induction xs)
  case (Cons x xs)
  have "sum_list (map f xs) \<le> sum_list (map g xs)" using Cons.prems(1) by (intro sum_list_mono) simp
  moreover have "f x \<le> g x" using Cons.prems(1) by simp
  ultimately show ?case using Cons by fastforce
qed simp

lemma without_head_smaller:
  assumes "find_candidate ms ms = Ok (Some c)" "without_head c ms = Ok rest"
  shows "sum_list (map length rest) < sum_list (map length ms)"
proof -
  obtain m where m: "c # m \<in> set ms" using find_candidate_head [OF assms(1)] by blast
  have "sum_list (map (\<lambda>m. length (if hd m = c then tl m else m)) ms) < sum_list (map length ms)"
    by (rule sum_list_less [OF _ m]) auto
  then show ?thesis using without_head_Ok [OF assms(2)] by (simp add: o_def)
qed

function merge :: "nat list list \<Rightarrow> nat list py_result" where
  "merge mros =
     (if list_all (\<lambda>m. m = []) mros then Ok []
      else case find_candidate mros mros of
        Ok (Some candidate) \<Rightarrow>
          (case without_head candidate mros of
             Ok rest \<Rightarrow> and_then (merge rest) (\<lambda>tmp. Ok (candidate # tmp))
           | Err e \<Rightarrow> Err e
           | Abort a \<Rightarrow> Abort a)
      | Ok None \<Rightarrow> Abort Todo
      | Err e \<Rightarrow> Err e
      | Abort a \<Rightarrow> Abort a)"
  by pat_completeness auto
termination
  by (relation "measure (\<lambda>mros. sum_list (map length mros))") (auto intro: without_head_smaller)

declare merge.simps [simp del]

section \<open>The order of a class\<close>

record hierarchy =
  object_type :: nat
  class_bases :: "nat \<Rightarrow> nat list"
  precomputed :: "nat \<rightharpoonup> nat list"

text \<open>The orders of the bases, with the stored ones where they are known.\<close>

fun bases_mros ::
  "hierarchy \<Rightarrow> (nat \<Rightarrow> nat list py_result option) \<Rightarrow> nat list \<Rightarrow> nat list list py_result option" where
  "bases_mros h f [] = Some (Ok [])"
| "bases_mros h f (base # rest) =
     (case (case precomputed h base of Some m \<Rightarrow> Some (Ok m) | None \<Rightarrow> f base) of
        Some (Ok m) \<Rightarrow> map_option (\<lambda>r. and_then r (\<lambda>ms. Ok (m # ms))) (bases_mros h f rest)
      | Some (Err e) \<Rightarrow> Some (Err e)
      | Some (Abort a) \<Rightarrow> Some (Abort a)
      | None \<Rightarrow> None)"

text \<open>\<open>fuel\<close> bounds the depth of the inheritance.\<close>

fun mro_of :: "nat \<Rightarrow> hierarchy \<Rightarrow> nat \<Rightarrow> nat list py_result option" where
  "mro_of 0 h t = None"
| "mro_of (Suc fuel) h t =
     (if t = object_type h then Some (Ok [t])
      else map_option (\<lambda>r. and_then r (\<lambda>mros. and_then (merge mros) (\<lambda>result. Ok (t # result))))
             (bases_mros h (mro_of fuel h) (class_bases h t)))"

definition mro_internal :: "nat \<Rightarrow> hierarchy \<Rightarrow> nat \<Rightarrow> (nat list \<times> hierarchy) py_result option" where
  "mro_internal fuel h t =
     (case precomputed h t of
        Some m \<Rightarrow> Some (Ok (m, h))
      | None \<Rightarrow> map_option (\<lambda>r. and_then r (\<lambda>m. Ok (m, h\<lparr>precomputed := (precomputed h)(t \<mapsto> m)\<rparr>))) (mro_of fuel h t))"

definition issubclass :: "nat \<Rightarrow> hierarchy \<Rightarrow> nat \<Rightarrow> nat \<Rightarrow> (bool \<times> hierarchy) py_result option" where
  "issubclass fuel h t other =
     (if t = other \<or> other = object_type h then Some (Ok (True, h))
      else map_option (\<lambda>r. and_then r (\<lambda>(m, h'). Ok (list_ex (\<lambda>el. el = other) m, h'))) (mro_internal fuel h t))"

end
