(* ===== verification/Mro_Props.thy ===== *)
theory Mro_Props
  imports Mro
begin

text \<open>
  \<open>merge\<close> finds a common order of the orders of the bases exactly if there is one, and never reads an
  empty vector; hence what the order of a class is in every hierarchy.
\<close>

section \<open>Merging\<close>

text \<open>What the orders of the bases look like while they are merged: all end in \<^verbatim>\<open>object\<close>, or all are used
  up.\<close>

definition tidy :: "nat \<Rightarrow> nat list list \<Rightarrow> bool" where
  "tidy obj ms \<longleftrightarrow> (\<forall>m \<in> set ms. m = []) \<or> (\<forall>m \<in> set ms. m \<noteq> [] \<and> distinct m \<and> last m = obj)"

definition common_order :: "nat list list \<Rightarrow> nat list \<Rightarrow> bool" where
  "common_order ms r \<longleftrightarrow> distinct r \<and> (\<forall>m \<in> set ms. subseq m r)"

text \<open>A list without its head, if that is the candidate.\<close>

definition behead :: "nat \<Rightarrow> nat list \<Rightarrow> nat list" where
  "behead c m = (if hd m = c then tl m else m)"

lemma behead_set:
  "m \<noteq> [] \<Longrightarrow> c \<notin> set (tl m) \<Longrightarrow> c \<notin> set (behead c m)"
  "m \<noteq> [] \<Longrightarrow> insert c (set (behead c m)) = insert c (set m)"
  by (cases m; auto simp: behead_def)+

lemma behead_subseq:
  "subseq (behead c m) m"
  "m \<noteq> [] \<Longrightarrow> subseq (behead c m) r \<Longrightarrow> subseq m (c # r)"
  by (cases m; auto simp: behead_def split: if_splits)+

lemma subseq_set: "subseq xs ys \<Longrightarrow> x \<in> set xs \<Longrightarrow> x \<in> set ys"
  by (metis subseq_order.trans subseq_singleton_left)

lemma find_candidate_find:
  "[] \<notin> set els \<Longrightarrow>
   find_candidate ms els = Ok (map_option hd (find (\<lambda>m. \<forall>m' \<in> set ms. hd m \<notin> set (tl m')) els))"
  by (induction ms els rule: find_candidate.induct) (auto simp: list_all_iff)

lemma without_head_map: "[] \<notin> set ms \<Longrightarrow> without_head c ms = Ok (map (behead c) ms)"
  by (induction c ms rule: without_head.induct) (auto simp: behead_def)

lemma tidy_without_head:
  assumes ms: "\<forall>m \<in> set ms. m \<noteq> [] \<and> distinct m \<and> last m = obj"
    and c: "\<forall>m \<in> set ms. c \<notin> set (tl m)"
  shows "tidy obj (map (behead c) ms)"
proof (cases "c = obj")
  case True
  have "behead c m = []" if "m \<in> set ms" for m
  proof -
    have m: "m \<noteq> []" "last m = obj" "obj \<notin> set (tl m)" using ms c that True by auto
    then have "m = [obj]" by (cases m) (auto split: if_splits)
    then show ?thesis by (simp add: behead_def True)
  qed
  then show ?thesis by (simp add: tidy_def)
next
  case False
  have "behead c m \<noteq> [] \<and> distinct (behead c m) \<and> last (behead c m) = obj" if "m \<in> set ms" for m
    using bspec [OF ms that] False by (cases m) (auto simp: behead_def split: if_splits)
  then show ?thesis by (simp add: tidy_def)
qed

lemma common_order_candidate:
  assumes "common_order ms r" "ms \<noteq> []" "[] \<notin> set ms"
  shows "\<exists>m \<in> set ms. \<forall>m' \<in> set ms. hd m \<notin> set (tl m')"
  using assms(1)
proof (induction r)
  case Nil
  then show ?case using assms(2,3) by (cases ms) (auto simp: common_order_def)
next
  case (Cons z r)
  have step: "\<exists>y m'. m = y # m' \<and> (if y = z then subseq m' r else subseq m r)" if m: "m \<in> set ms" for m
  proof -
    obtain y m' where "m = y # m'" using m assms(3) by (metis list.exhaust)
    moreover have "subseq m (z # r)" using Cons.prems m by (simp add: common_order_def)
    ultimately show ?thesis by (auto split: if_splits)
  qed
  show ?case
  proof (cases "\<exists>m \<in> set ms. hd m = z")
    case True
    have "z \<notin> set (tl m')" if m': "m' \<in> set ms" for m'
    proof -
      obtain y m where "m' = y # m" "if y = z then subseq m r else subseq m' r" using step [OF m'] by blast
      then have "subseq m r" by (auto split: if_splits dest: subseq_Cons')
      moreover have "z \<notin> set r" using Cons.prems by (simp add: common_order_def)
      ultimately show ?thesis using subseq_set [of m r z] \<open>m' = y # m\<close> by auto
    qed
    then show ?thesis using True by blast
  next
    case False
    have "subseq m r" if "m \<in> set ms" for m using step [OF that] False that by (auto split: if_splits)
    then have "common_order ms r" using Cons.prems by (simp add: common_order_def)
    then show ?thesis by (rule Cons.IH)
  qed
qed

lemma merge_step:
  assumes "[] \<notin> set ms" "ms \<noteq> []"
  shows "merge ms = (case find (\<lambda>m. \<forall>m' \<in> set ms. hd m \<notin> set (tl m')) ms of
      None \<Rightarrow> Abort Todo
    | Some m \<Rightarrow> and_then (merge (map (behead (hd m)) ms)) (\<lambda>tmp. Ok (hd m # tmp)))"
proof -
  have "\<not> list_all (\<lambda>m. m = []) ms" using assms by (cases ms) auto
  then show ?thesis
    using find_candidate_find [OF assms(1), of ms] without_head_map [OF assms(1)]
    by (simp add: merge.simps [of ms] split: option.split)
qed

lemma merge_spec:
  assumes "tidy obj ms"
  shows "(\<exists>r. merge ms = Ok r \<and> common_order ms r \<and> set r = \<Union> (set ` set ms) \<and> (r \<noteq> [] \<longrightarrow> last r = obj)) \<or>
    (merge ms = Abort Todo \<and> (\<nexists>r. common_order ms r))"
  using assms
proof (induction "sum_list (map length ms)" arbitrary: ms rule: less_induct)
  case less
  show ?case
  proof (cases "\<forall>m \<in> set ms. m = []")
    case True
    then have "merge ms = Ok []" by (simp add: merge.simps list_all_iff)
    then show ?thesis using True by (auto simp: common_order_def)
  next
    case False
    then have ms: "\<forall>m \<in> set ms. m \<noteq> [] \<and> distinct m \<and> last m = obj" and ne: "[] \<notin> set ms" "ms \<noteq> []"
      using less.prems by (auto simp: tidy_def)
    note step = merge_step [OF ne]
    show ?thesis
    proof (cases "find (\<lambda>m. \<forall>m' \<in> set ms. hd m \<notin> set (tl m')) ms")
      case None
      then have "merge ms = Abort Todo" using step by simp
      moreover have "\<not> common_order ms r" for r
        using common_order_candidate [of ms r] None ne by (auto simp: find_None_iff)
      ultimately show ?thesis by blast
    next
      case (Some m0)
      let ?c = "hd m0"
      let ?rest = "map (behead ?c) ms"
      have m0: "m0 \<in> set ms" and c: "\<forall>m \<in> set ms. ?c \<notin> set (tl m)" using Some by (auto simp: find_Some_iff)
      have m: "merge ms = and_then (merge ?rest) (\<lambda>tmp. Ok (?c # tmp))" using step Some by simp
      have nonempty: "m \<noteq> []" if "m \<in> set ms" for m using that ne(1) by auto
      have smaller: "sum_list (map length ?rest) < sum_list (map length ms)"
        unfolding map_map o_def
        by (rule sum_list_less [OF _ m0]) (use nonempty [OF m0] in \<open>auto simp: behead_def\<close>)
      from less.hyps [OF smaller tidy_without_head [OF ms c]] consider
        (ok) r where "merge ?rest = Ok r" "common_order ?rest r" "set r = \<Union> (set ` set ?rest)" "r \<noteq> [] \<longrightarrow> last r = obj"
        | (no) "merge ?rest = Abort Todo" "\<nexists>r. common_order ?rest r" by blast
      then show ?thesis
      proof cases
        case ok
        have "subseq m (?c # r)" if "m \<in> set ms" for m
          using ok(2) that by (intro behead_subseq(2) nonempty) (auto simp: common_order_def)
        moreover have "?c \<notin> set r" using ok(3) behead_set(1) nonempty c by auto
        ultimately have "common_order ms (?c # r)" using ok(2) by (simp add: common_order_def)
        moreover have "set (?c # r) = \<Union> (set ` set ms)"
        proof -
          have "set (?c # r) = insert ?c (\<Union>m \<in> set ms. insert ?c (set (behead ?c m)))"
            using ok(3) by auto
          also have "\<dots> = insert ?c (\<Union>m \<in> set ms. insert ?c (set m))"
            using behead_set(2) nonempty by simp
          also have "\<dots> = \<Union> (set ` set ms)" using m0 nonempty [OF m0] by auto
          finally show ?thesis .
        qed
        moreover have "last (?c # r) = obj"
        proof (cases "r = []")
          case True
          then have "tl m0 = []" using ok(3) m0 by (auto simp: behead_def)
          then show ?thesis using True ms m0 nonempty [OF m0] by (cases m0) auto
        next
          case False
          then show ?thesis using ok(4) by simp
        qed
        ultimately show ?thesis using m ok(1) by auto
      next
        case no
        have "common_order ?rest r" if "common_order ms r" for r
          using that behead_subseq(1) subseq_order.trans by (fastforce simp: common_order_def)
        then show ?thesis using m no by auto
      qed
    qed
  qed
qed

section \<open>Classes\<close>

text \<open>\<open>depth\<close> is the height of a class above \<^verbatim>\<open>object\<close>: bases exist before their subclasses. Every class
  but \<^verbatim>\<open>object\<close> has a base (\<^verbatim>\<open>build_type\<close> asserts it). Stored orders are those computed.\<close>

definition subclass_of :: "hierarchy \<Rightarrow> nat \<Rightarrow> nat \<Rightarrow> bool" where
  "subclass_of h = (\<lambda>t b. t \<noteq> object_type h \<and> b \<in> set (class_bases h t))\<^sup>*\<^sup>*"

definition linear :: "hierarchy \<Rightarrow> nat \<Rightarrow> nat list \<Rightarrow> bool" where
  "linear h t m \<longleftrightarrow>
     distinct m \<and> m \<noteq> [] \<and> hd m = t \<and> last m = object_type h \<and> set m = {b. subclass_of h t b}"

definition hierarchy_ok :: "(nat \<Rightarrow> nat) \<Rightarrow> hierarchy \<Rightarrow> bool" where
  "hierarchy_ok depth h \<longleftrightarrow>
     (\<forall>t. t \<noteq> object_type h \<longrightarrow> class_bases h t \<noteq> [] \<and> (\<forall>b \<in> set (class_bases h t). depth b < depth t)) \<and>
     (\<forall>t m. precomputed h t = Some m \<longrightarrow> linear h t m)"

lemma subclass_refl [simp]: "subclass_of h t t"
  by (simp add: subclass_of_def)

lemma subclass_depth:
  assumes "hierarchy_ok depth h" "subclass_of h t b"
  shows "b = t \<or> depth b < depth t"
  using assms(2) unfolding subclass_of_def
  by (induction rule: rtranclp_induct) (use assms(1) in \<open>auto simp: hierarchy_ok_def dest: less_trans\<close>)

lemma subclass_object: "subclass_of h (object_type h) b \<longleftrightarrow> b = object_type h"
  unfolding subclass_of_def by (auto elim: converse_rtranclpE)

lemma subclass_bases:
  assumes "t \<noteq> object_type h"
  shows "{b. subclass_of h t b} = insert t (\<Union>b \<in> set (class_bases h t). {c. subclass_of h b c})"
  using assms unfolding subclass_of_def
  by (auto elim: converse_rtranclpE intro: converse_rtranclp_into_rtranclp)

lemma bases_mros_Ok:
  "bases_mros h f bs = Some (Ok ms) \<Longrightarrow>
   list_all2 (\<lambda>b m. precomputed h b = Some m \<or> precomputed h b = None \<and> f b = Some (Ok m)) bs ms"
  by (induction bs arbitrary: ms)
    (auto simp: and_then_eq_Ok split: option.splits py_result.splits)

lemma linear_sets:
  "list_all2 (linear h) bs ms \<Longrightarrow> \<Union> (set ` set ms) = (\<Union>b \<in> set bs. {c. subclass_of h b c})"
  by (induction rule: list_all2_induct) (simp_all add: linear_def)

text \<open>Enough fuel: the result is there.\<close>

lemma bases_mros_returns:
  "\<forall>b \<in> set bs. precomputed h b = None \<longrightarrow> (\<exists>m. f b = Some (Ok m) \<or> f b = Some (Abort Todo)) \<Longrightarrow>
   (\<exists>ms. bases_mros h f bs = Some (Ok ms)) \<or> bases_mros h f bs = Some (Abort Todo)"
  by (induction bs) (force split: option.split)+

lemma mro_of_cases:
  assumes ok: "hierarchy_ok depth h"
  shows "depth t < fuel \<Longrightarrow>
    (\<exists>m. mro_of fuel h t = Some (Ok m) \<and> linear h t m \<and>
      (t \<noteq> object_type h \<longrightarrow> (\<exists>ms. list_all2 (\<lambda>b m'. linear h b m' \<and> subseq m' m) (class_bases h t) ms))) \<or>
    mro_of fuel h t = Some (Abort Todo)"
proof (induction fuel arbitrary: t)
  case (Suc fuel)
  show ?case
  proof (cases "t = object_type h")
    case True
    then show ?thesis by (simp add: linear_def subclass_object)
  next
    case False
    have depth: "depth b < depth t" if "b \<in> set (class_bases h t)" for b
      using ok False that by (simp add: hierarchy_ok_def)
    have IH: "(\<exists>m. mro_of fuel h b = Some (Ok m) \<and> linear h b m) \<or> mro_of fuel h b = Some (Abort Todo)"
      if "b \<in> set (class_bases h t)" for b
      using Suc.IH [of b] depth [OF that] Suc.prems by auto
    consider (no) "bases_mros h (mro_of fuel h) (class_bases h t) = Some (Abort Todo)"
      | (ok) ms where "bases_mros h (mro_of fuel h) (class_bases h t) = Some (Ok ms)"
      using bases_mros_returns [of "class_bases h t" h "mro_of fuel h"] IH by blast
    then show ?thesis
    proof cases
      case no
      then show ?thesis using False by simp
    next
      case (ok ms)
      have lin: "list_all2 (linear h) (class_bases h t) ms"
        using bases_mros_Ok [OF ok(1)]
      proof (rule list.rel_mono_strong)
        fix b m assume "b \<in> set (class_bases h t)"
          "precomputed h b = Some m \<or> precomputed h b = None \<and> mro_of fuel h b = Some (Ok m)"
        then show "linear h b m" using IH [of b] \<open>hierarchy_ok depth h\<close> by (auto simp: hierarchy_ok_def)
      qed
      then have each: "\<exists>b \<in> set (class_bases h t). linear h b m" if "m \<in> set ms" for m
        using that lin unfolding list_all2_conv_all_nth by (metis in_set_conv_nth nth_mem)
      have "tidy (object_type h) ms" using each by (fastforce simp: tidy_def linear_def)
      from merge_spec [OF this] consider
        (none) "merge ms = Abort Todo"
        | (some) r where "merge ms = Ok r" "common_order ms r" "set r = \<Union> (set ` set ms)" "r \<noteq> [] \<longrightarrow> last r = object_type h"
        by blast
      then show ?thesis
      proof cases
        case none
        then show ?thesis using False ok by simp
      next
        case some
        have run: "mro_of (Suc fuel) h t = Some (Ok (t # r))" using False ok some(1) by simp
        have sets: "set r = (\<Union>b \<in> set (class_bases h t). {c. subclass_of h b c})"
          using some(3) linear_sets [OF lin] by simp
        have "t \<notin> set r"
          using sets subclass_depth [OF \<open>hierarchy_ok depth h\<close>] depth by fastforce
        moreover have "r \<noteq> []"
        proof -
          obtain b where "b \<in> set (class_bases h t)"
            using \<open>hierarchy_ok depth h\<close> False by (fastforce simp: hierarchy_ok_def)
          then have "b \<in> set r" using sets subclass_refl [of h b] by blast
          then show ?thesis by auto
        qed
        ultimately have "linear h t (t # r)"
          using some(2,4) sets subclass_bases [OF False] by (simp add: linear_def common_order_def)
        moreover have "list_all2 (\<lambda>b m'. linear h b m' \<and> subseq m' (t # r)) (class_bases h t) ms"
          using lin some(2) by (auto simp: list_all2_conv_all_nth common_order_def)
        ultimately show ?thesis using run by blast
      qed
    qed
  qed
qed simp

section \<open>Properties\<close>


text \<open>\<^verbatim>\<open>merge\<close> of orders that end in \<^verbatim>\<open>object\<close> finds a common order whenever there is one, and stops the
  interpreter with \<^verbatim>\<open>TODO()\<close> exactly if there is none.\<close>

theorem merge_complete:
  assumes "\<forall>m \<in> set ms. m \<noteq> [] \<and> distinct m \<and> last m = obj"
  shows "((\<exists>r. merge ms = Ok r \<and> common_order ms r) \<longleftrightarrow> (\<exists>r. common_order ms r)) \<and>
    (merge ms = Abort Todo \<longleftrightarrow> (\<nexists>r. common_order ms r))"
  using merge_spec [of obj ms] assms by (auto simp: tidy_def)

text \<open>\<^verbatim>\<open>class A\<close> (1), \<^verbatim>\<open>class B\<close> (2), \<^verbatim>\<open>class C(A, B)\<close> (3), \<^verbatim>\<open>class D(A)\<close> (4), \<^verbatim>\<open>class E(A, D)\<close> (5).\<close>

definition demo_hierarchy :: hierarchy where
  "demo_hierarchy =
     \<lparr>object_type = 0, class_bases = \<lambda>t. if t = 4 then [2, 3] else if t = 5 then [2] else if t = 6 then [2, 5] else [0],
      precomputed = \<lambda>_. None\<rparr>"

lemma demo_merges:
  "merge [[0]] = Ok [0]" "merge [[2, 0], [3, 0]] = Ok [2, 3, 0]" "merge [[2, 0]] = Ok [2, 0]"
  "merge [[2, 0], [5, 2, 0]] = Ok [5, 2, 0]"
  by (simp_all add: merge.simps)

lemma mro_of_numeral:
  "mro_of (numeral k) h t =
     (if t = object_type h then Some (Ok [t])
      else map_option (\<lambda>r. and_then r (\<lambda>mros. and_then (merge mros) (\<lambda>result. Ok (t # result))))
             (bases_mros h (mro_of (pred_numeral k) h) (class_bases h t)))"
  by (simp add: numeral_eq_Suc)

lemma demo_mros:
  "mro_of 5 demo_hierarchy 4 = Some (Ok [4, 2, 3, 0])"
  "mro_of 7 demo_hierarchy 6 = Some (Ok [6, 5, 2, 0])"
  by (simp_all add: mro_of_numeral demo_hierarchy_def demo_merges)

lemma demo_hierarchy_ok: "hierarchy_ok id demo_hierarchy"
  by (simp add: hierarchy_ok_def demo_hierarchy_def)


theorem merge_complete_witness:
  "merge [[6, 1, 2, 0], [7, 2, 1, 0]] = Abort Todo \<and> (\<nexists>r. common_order [[6, 1, 2, 0], [7, 2, 1, 0]] r)"
proof -
  have "merge [[6, 1, 2, 0], [7, 2, 1, 0]] = Abort Todo" by code_simp
  then show ?thesis using merge_complete [of "[[6, 1, 2, 0], [7, 2, 1, 0]]" 0] by simp
qed

text \<open>The order of the bases in the class statement is not among the orders that are merged: \<^verbatim>\<open>class
  E(A, D)\<close> with \<^verbatim>\<open>class D(A)\<close>, which Python refuses, gets an order with \<^verbatim>\<open>D\<close> before \<^verbatim>\<open>A\<close>.\<close>

theorem order_of_bases_ignored:
  "class_bases demo_hierarchy 6 = [2, 5] \<and> mro_of 7 demo_hierarchy 6 = Some (Ok [6, 5, 2, 0])"
  using demo_mros by (simp add: demo_hierarchy_def)

end
