(* ===== verification/Dicts.thy ===== *)
theory Dicts
  imports Tagged_Ops
begin

text \<open>
  Dictionaries (\<^verbatim>\<open>src/src/runtime/PyDict.cpp\<close>, \<^verbatim>\<open>PyDict.hpp\<close>). The map is \<^verbatim>\<open>tsl::ordered_map\<close>, a
  library: \<open>ordered_map\<close> holds the operations the code calls on it. Keys and values are words of
  \<^verbatim>\<open>RtValue\<close>. The comparison of two keys by \<^verbatim>\<open>==\<close>, the text of \<^verbatim>\<open>repr\<close> and what iterating another
  object yields are parameters; an iterable is given by its elements and the exception that ends it.
  Results that the code passes through \<^verbatim>\<open>PyObject::from\<close> are given as the word before boxing.
\<close>

section \<open>The map\<close>

text \<open>\<open>om_find\<close> gives the position of a key in \<open>om_entries\<close>, or the number of entries, which stands
  for \<^verbatim>\<open>end()\<close>.\<close>

record 'm ordered_map =
  om_empty :: 'm
  om_entries :: "'m \<Rightarrow> (rt_value \<times> rt_value) list"
  om_find :: "rt_value \<Rightarrow> 'm \<Rightarrow> nat"
  om_assign :: "rt_value \<Rightarrow> rt_value \<Rightarrow> 'm \<Rightarrow> 'm"
  om_insert :: "rt_value \<Rightarrow> rt_value \<Rightarrow> 'm \<Rightarrow> 'm"
  om_erase :: "nat \<Rightarrow> 'm \<Rightarrow> 'm"
  om_equal :: "'m \<Rightarrow> 'm \<Rightarrow> bool"

type_synonym key_eq = "rt_value \<Rightarrow> rt_value \<Rightarrow> bool py_result"

record 'm dict =
  d_map :: 'm
  d_version :: nat
  d_missing :: "(rt_value \<Rightarrow> rt_value py_result) option py_result"
  d_subtype :: bool

text \<open>\<open>d_missing\<close> is what the lookup of \<^verbatim>\<open>__missing__\<close> gives for an instance of a subclass.\<close>

definition dict_create :: "'m ordered_map \<Rightarrow> 'm dict" where
  "dict_create M = \<lparr>d_map = om_empty M, d_version = 0, d_missing = Ok None, d_subtype = False\<rparr>"

definition with_map :: "('m \<Rightarrow> 'm) \<Rightarrow> 'm dict \<Rightarrow> 'm dict" where
  "with_map f d = d\<lparr>d_map := f (d_map d)\<rparr>"

definition bump_version :: "'m dict \<Rightarrow> 'm dict" where
  "bump_version d = d\<lparr>d_version := (d_version d + 1) mod 2 ^ 64\<rparr>"

abbreviation entries :: "'m ordered_map \<Rightarrow> 'm dict \<Rightarrow> (rt_value \<times> rt_value) list" where
  "entries M d \<equiv> om_entries M (d_map d)"

section \<open>Finding a key\<close>

definition dict_key_equal :: "key_eq \<Rightarrow> rt_value \<Rightarrow> rt_value \<Rightarrow> bool py_result" where
  "dict_key_equal eq stored_key lookup_key =
     (if stored_key = lookup_key then Ok True
      else case eq stored_key lookup_key of
        Ok t \<Rightarrow> Ok t
      | Err e \<Rightarrow> Ok False
      | Abort a \<Rightarrow> Abort a)"

fun find_equal :: "key_eq \<Rightarrow> rt_value \<Rightarrow> (rt_value \<times> rt_value) list \<Rightarrow> nat \<Rightarrow> nat py_result" where
  "find_equal eq key [] i = Ok i"
| "find_equal eq key (entry # rest) i =
     and_then (dict_key_equal eq (fst entry) key) (\<lambda>t. if t then Ok i else find_equal eq key rest (i + 1))"

definition find_dict_key :: "'m ordered_map \<Rightarrow> key_eq \<Rightarrow> rt_value \<Rightarrow> 'm \<Rightarrow> nat py_result" where
  "find_dict_key M eq key m =
     (let i = om_find M key m in
      if i \<noteq> length (om_entries M m) then Ok i else find_equal eq key (om_entries M m) 0)"

text \<open>The value of a key that is found, and what else to do.\<close>

definition found_or ::
  "'m ordered_map \<Rightarrow> key_eq \<Rightarrow> rt_value \<Rightarrow> 'm dict \<Rightarrow> (nat \<Rightarrow> rt_value \<Rightarrow> 'r py_result) \<Rightarrow> 'r py_result \<Rightarrow> 'r py_result" where
  "found_or M eq key d found missing =
     and_then (find_dict_key M eq key (d_map d)) (\<lambda>i.
       if i \<noteq> length (entries M d) then found i (snd (entries M d ! i)) else missing)"

section \<open>The slots\<close>

definition dict_getitem :: "'m ordered_map \<Rightarrow> key_eq \<Rightarrow> rt_value \<Rightarrow> 'm dict \<Rightarrow> rt_value py_result" where
  "dict_getitem M eq key d =
     found_or M eq key d (\<lambda>_ v. Ok v)
       (if d_subtype d
        then case d_missing d of
            Ok (Some method) \<Rightarrow> method key
          | Ok None \<Rightarrow> Err KeyError
          | Err e \<Rightarrow> Err e
          | Abort a \<Rightarrow> Abort a
        else Err KeyError)"

definition dict_setitem :: "'m ordered_map \<Rightarrow> rt_value \<Rightarrow> rt_value \<Rightarrow> 'm dict \<Rightarrow> 'm dict" where
  "dict_setitem M key v d = bump_version (with_map (om_assign M key v) d)"

definition dict_delitem :: "'m ordered_map \<Rightarrow> key_eq \<Rightarrow> rt_value \<Rightarrow> 'm dict \<Rightarrow> 'm dict py_result" where
  "dict_delitem M eq key d =
     found_or M eq key d (\<lambda>i _. Ok (bump_version (with_map (om_erase M i) d))) (Err KeyError)"

definition dict_eq :: "'m ordered_map \<Rightarrow> 'm dict option \<Rightarrow> 'm dict \<Rightarrow> bool" where
  "dict_eq M other d = (case other of None \<Rightarrow> False | Some d' \<Rightarrow> om_equal M (d_map d) (d_map d'))"

definition dict_len :: "'m ordered_map \<Rightarrow> 'm dict \<Rightarrow> nat" where
  "dict_len M d = length (entries M d)"

section \<open>Access from the runtime\<close>

definition dict_index :: "'m ordered_map \<Rightarrow> rt_value \<Rightarrow> 'm dict \<Rightarrow> rt_value option" where
  "dict_index M key d =
     (let i = om_find M key (d_map d) in
      if i \<noteq> length (entries M d) then Some (snd (entries M d ! i)) else None)"

definition dict_lookup :: "'m ordered_map \<Rightarrow> key_eq \<Rightarrow> rt_value \<Rightarrow> 'm dict \<Rightarrow> rt_value option py_result" where
  "dict_lookup M eq key d = found_or M eq key d (\<lambda>_ v. Ok (Some v)) (Ok None)"

definition dict_insert :: "'m ordered_map \<Rightarrow> rt_value \<Rightarrow> rt_value \<Rightarrow> 'm dict \<Rightarrow> 'm dict" where
  "dict_insert M key v d = bump_version (with_map (om_assign M key v) d)"

text \<open>\<^verbatim>\<open>erase\<close> by key removes the entry the map finds, if there is one.\<close>

definition dict_remove :: "'m ordered_map \<Rightarrow> rt_value \<Rightarrow> 'm dict \<Rightarrow> 'm dict" where
  "dict_remove M key d =
     (let i = om_find M key (d_map d) in
      bump_version (if i \<noteq> length (entries M d) then with_map (om_erase M i) d else d))"

definition dict_children :: "'m ordered_map \<Rightarrow> rt_value \<Rightarrow> 'm dict \<Rightarrow> rt_value list" where
  "dict_children M self d =
     filter (\<lambda>w. is_heap_object w \<and> \<not> is_null w \<and> w \<noteq> self) (concat (map (\<lambda>(k, v). [v, k]) (entries M d)))"

section \<open>Methods\<close>

definition dict_get :: "'m ordered_map \<Rightarrow> key_eq \<Rightarrow> rt_value \<Rightarrow> rt_value \<Rightarrow> rt_value option \<Rightarrow> 'm dict \<Rightarrow> rt_value py_result" where
  "dict_get M eq none key dflt d =
     found_or M eq key d (\<lambda>_ v. Ok v) (case dflt of Some v \<Rightarrow> Ok v | None \<Rightarrow> Ok none)"

definition dict_pop ::
  "'m ordered_map \<Rightarrow> key_eq \<Rightarrow> rt_value \<Rightarrow> rt_value option \<Rightarrow> 'm dict \<Rightarrow> (rt_value \<times> 'm dict) py_result" where
  "dict_pop M eq key dflt d =
     found_or M eq key d (\<lambda>i v. Ok (v, with_map (om_erase M i) d))
       (case dflt of Some v \<Rightarrow> Ok (v, d) | None \<Rightarrow> Err KeyError)"

text \<open>The arguments of the methods \<^verbatim>\<open>get\<close> and \<^verbatim>\<open>pop\<close>: the first is read unconditionally, and a default
  only counts when there are exactly two.\<close>

definition key_and_default :: "rt_value list \<Rightarrow> nat option \<Rightarrow> (rt_value \<times> rt_value option) py_result" where
  "key_and_default args kwargs =
     assert_that (kwargs = None \<or> kwargs = Some 0)
       (case args of
          [] \<Rightarrow> Abort Undefined
        | [key, dflt] \<Rightarrow> Ok (key, Some dflt)
        | key # _ \<Rightarrow> Ok (key, None))"

definition dict_get_method ::
  "'m ordered_map \<Rightarrow> key_eq \<Rightarrow> rt_value \<Rightarrow> rt_value list \<Rightarrow> nat option \<Rightarrow> 'm dict \<Rightarrow> rt_value py_result" where
  "dict_get_method M eq none args kwargs d =
     and_then (key_and_default args kwargs) (\<lambda>(key, dflt). dict_get M eq none key dflt d)"

definition dict_pop_method ::
  "'m ordered_map \<Rightarrow> key_eq \<Rightarrow> rt_value list \<Rightarrow> nat option \<Rightarrow> 'm dict \<Rightarrow> (rt_value \<times> 'm dict) py_result" where
  "dict_pop_method M eq args kwargs d =
     and_then (key_and_default args kwargs) (\<lambda>(key, dflt). dict_pop M eq key dflt d)"

definition dict_setdefault :: "'m ordered_map \<Rightarrow> rt_value \<Rightarrow> rt_value \<Rightarrow> 'm dict \<Rightarrow> rt_value \<times> 'm dict" where
  "dict_setdefault M key dflt d =
     (case dict_index M key d of
        Some v \<Rightarrow> (v, d)
      | None \<Rightarrow> (dflt, dict_insert M key dflt d))"

section \<open>Merging\<close>

type_synonym 'a iterable = "'a list \<times> py_exception"

definition add_entry :: "'m ordered_map \<Rightarrow> bool \<Rightarrow> rt_value \<times> rt_value \<Rightarrow> 'm dict \<Rightarrow> 'm dict" where
  "add_entry M override entry d =
     with_map (if override then om_assign M (fst entry) (snd entry) else om_insert M (fst entry) (snd entry)) d"

definition merge_dict :: "'m ordered_map \<Rightarrow> bool \<Rightarrow> (rt_value \<times> rt_value) list \<Rightarrow> 'm dict \<Rightarrow> 'm dict" where
  "merge_dict M override other d = fold (add_entry M override) other d"

text \<open>The end of an iteration: \<^verbatim>\<open>StopIteration\<close> is success.\<close>

definition iteration_end :: "py_exception \<Rightarrow> unit py_result" where
  "iteration_end e = (if e = StopIteration then Ok () else Err e)"

text \<open>From here on an operation that can fail on the way returns its result and the dictionary.\<close>

fun merge_keys ::
  "'m ordered_map \<Rightarrow> bool \<Rightarrow> (rt_value \<Rightarrow> rt_value py_result) \<Rightarrow> py_exception \<Rightarrow> rt_value list \<Rightarrow> 'm dict
   \<Rightarrow> unit py_result \<times> 'm dict" where
  "merge_keys M override item e [] d = (iteration_end e, d)"
| "merge_keys M override item e (key # keys) d =
     (if \<not> override \<and> om_find M key (d_map d) = length (entries M d) then (Err KeyError, d)
      else case item key of
        Ok v \<Rightarrow> merge_keys M override item e keys (with_map (om_assign M key v) d)
      | Err x \<Rightarrow> (Err x, d)
      | Abort a \<Rightarrow> (Abort a, d))"

text \<open>What \<^verbatim>\<open>update\<close> can be given: a dictionary, an instance of a subclass with the iteration of
  dictionaries or with its own, an object with \<^verbatim>\<open>keys\<close>, or a sequence of pairs.\<close>

datatype pair_item = Tuple_item "rt_value list" | Other_item "rt_value iterable py_result"

datatype mapping_like =
  Plain_dict "(rt_value \<times> rt_value) list"
| Dict_subclass "(rt_value \<times> rt_value) list"
| With_keys "rt_value iterable py_result" "rt_value \<Rightarrow> rt_value py_result"
| Pairs "pair_item iterable py_result"

definition merge_object :: "'m ordered_map \<Rightarrow> bool \<Rightarrow> mapping_like \<Rightarrow> 'm dict \<Rightarrow> unit py_result \<times> 'm dict" where
  "merge_object M override other d =
     (case other of
        Plain_dict es \<Rightarrow> (Ok (), merge_dict M override es d)
      | Dict_subclass es \<Rightarrow> (Ok (), merge_dict M override es d)
      | With_keys (Ok (keys, e)) item \<Rightarrow> merge_keys M override item e keys d
      | With_keys (Err x) item \<Rightarrow> (Err x, d)
      | With_keys (Abort a) item \<Rightarrow> (Abort a, d)
      | Pairs _ \<Rightarrow> (Err TypeError, d))"

text \<open>One element of a sequence of pairs. The iterator of an element that is no tuple is asked for its
  values one by one.\<close>

definition pair_of :: "pair_item \<Rightarrow> (rt_value \<times> rt_value) py_result" where
  "pair_of item =
     (case item of
        Tuple_item [k, v] \<Rightarrow> Ok (k, v)
      | Tuple_item _ \<Rightarrow> Err ValueError
      | Other_item (Err x) \<Rightarrow> Err x
      | Other_item (Abort a) \<Rightarrow> Abort a
      | Other_item (Ok ([], e)) \<Rightarrow> Err e
      | Other_item (Ok ([_], e)) \<Rightarrow> Err e
      | Other_item (Ok ([k, v], e)) \<Rightarrow> (if e = StopIteration then Ok (k, v) else Err e)
      | Other_item (Ok (_, e)) \<Rightarrow> Err ValueError)"

fun merge_pairs ::
  "'m ordered_map \<Rightarrow> bool \<Rightarrow> py_exception \<Rightarrow> pair_item list \<Rightarrow> 'm dict \<Rightarrow> unit py_result \<times> 'm dict" where
  "merge_pairs M override e [] d = (iteration_end e, d)"
| "merge_pairs M override e (item # items) d =
     (case pair_of item of
        Ok entry \<Rightarrow> merge_pairs M override e items (add_entry M override entry d)
      | Err x \<Rightarrow> (Err x, d)
      | Abort a \<Rightarrow> (Abort a, d))"

text \<open>An error of the first step is returned as it is, also \<^verbatim>\<open>StopIteration\<close>.\<close>

definition merge_from_seq_2 ::
  "'m ordered_map \<Rightarrow> bool \<Rightarrow> pair_item iterable py_result \<Rightarrow> 'm dict \<Rightarrow> unit py_result \<times> 'm dict" where
  "merge_from_seq_2 M override other d =
     (case other of
        Ok ([], e) \<Rightarrow> (Err e, d)
      | Ok (items, e) \<Rightarrow> merge_pairs M override e items d
      | Err x \<Rightarrow> (Err x, d)
      | Abort a \<Rightarrow> (Abort a, d))"

definition dict_update :: "'m ordered_map \<Rightarrow> mapping_like \<Rightarrow> 'm dict \<Rightarrow> unit py_result \<times> 'm dict" where
  "dict_update M other d =
     (case other of
        Plain_dict es \<Rightarrow> (Ok (), merge_dict M True es d)
      | Pairs items \<Rightarrow> merge_from_seq_2 M True items d
      | _ \<Rightarrow> merge_object M True other d)"

definition fromkeys ::
  "'m ordered_map \<Rightarrow> rt_value \<Rightarrow> rt_value iterable py_result \<Rightarrow> rt_value option \<Rightarrow> 'm dict py_result" where
  "fromkeys M none iterable v =
     and_then iterable (\<lambda>(keys, e).
       if e \<noteq> StopIteration then Err e
       else Ok (fold (\<lambda>key. with_map (om_insert M key (case v of Some x \<Rightarrow> x | None \<Rightarrow> none))) keys (dict_create M)))"

text \<open>\<^verbatim>\<open>dict.fromkeys\<close>; the assertion on the keyword arguments wants them absent or not empty.\<close>

definition fromkeys_method ::
  "'m ordered_map \<Rightarrow> rt_value \<Rightarrow> bool \<Rightarrow> (rt_value \<Rightarrow> rt_value iterable py_result) \<Rightarrow> rt_value list \<Rightarrow> nat option
   \<Rightarrow> 'm dict py_result" where
  "fromkeys_method M none on_dict iter args kwargs =
     assert_that on_dict
       (case args of
          [] \<Rightarrow> Abort Assertion
        | iterable # rest \<Rightarrow>
            assert_that (kwargs \<noteq> Some 0)
              (case rest of
                 [v] \<Rightarrow> fromkeys M none (iter iterable) (Some v)
               | [_, _] \<Rightarrow> Abort Todo
               | _ \<Rightarrow> fromkeys M none (iter iterable) None))"

section \<open>Text\<close>

text \<open>\<open>repr_of\<close> is the \<^verbatim>\<open>repr\<close> of a value; in the dictionary itself a value is written \<^verbatim>\<open>{...}\<close>. The
  last entry has no colon.\<close>

definition key_text :: "(rt_value \<Rightarrow> string py_result) \<Rightarrow> rt_value \<Rightarrow> string py_result" where
  "key_text repr_of w = unwrap (repr_of w)"

definition value_text :: "(rt_value \<Rightarrow> string py_result) \<Rightarrow> rt_value \<Rightarrow> rt_value \<Rightarrow> string py_result" where
  "value_text repr_of self w = (if w = self then Ok ''{...}'' else unwrap (repr_of w))"

fun entries_text ::
  "(rt_value \<Rightarrow> string py_result) \<Rightarrow> rt_value \<Rightarrow> (rt_value \<times> rt_value) list \<Rightarrow> string py_result" where
  "entries_text repr_of self [] = Ok []"
| "entries_text repr_of self [(k, v)] =
     and_then (key_text repr_of k) (\<lambda>ks. and_then (value_text repr_of self v) (\<lambda>vs. Ok (ks @ vs)))"
| "entries_text repr_of self ((k, v) # e # es) =
     and_then (key_text repr_of k) (\<lambda>ks. and_then (value_text repr_of self v) (\<lambda>vs.
       and_then (entries_text repr_of self (e # es)) (\<lambda>rest. Ok (ks @ '': '' @ vs @ '', '' @ rest))))"

definition dict_to_string ::
  "'m ordered_map \<Rightarrow> (rt_value \<Rightarrow> string py_result) \<Rightarrow> rt_value \<Rightarrow> 'm dict \<Rightarrow> string py_result" where
  "dict_to_string M repr_of self d =
     (if entries M d = [] then Ok ''{}''
      else and_then (entries_text repr_of self (entries M d)) (\<lambda>s. Ok (''{'' @ s @ ''}'')))"

section \<open>Views and iterators\<close>

text \<open>An iterator is a position in the map, which is not changed while it is in use.\<close>

datatype 'a view = View "rt_value \<times> rt_value \<Rightarrow> 'a"

definition keys_view :: "rt_value view" where "keys_view = View fst"

definition values_view :: "rt_value view" where "values_view = View snd"

definition items_view :: "(rt_value \<times> rt_value) view" where "items_view = View (\<lambda>e. e)"

fun view_next :: "'m ordered_map \<Rightarrow> 'm dict \<Rightarrow> 'a view \<Rightarrow> nat \<Rightarrow> ('a \<times> nat) py_result" where
  "view_next M d (View f) i =
     (if i \<noteq> length (entries M d) then Ok (f (entries M d ! i), i + 1) else Err StopIteration)"

fun joined :: "string \<Rightarrow> string list \<Rightarrow> string" where
  "joined sep [] = []"
| "joined sep [x] = x"
| "joined sep (x # y # ys) = x @ sep @ joined sep (y # ys)"

fun reprs :: "(rt_value \<Rightarrow> string py_result) \<Rightarrow> rt_value list \<Rightarrow> string list py_result" where
  "reprs repr_of [] = Ok []"
| "reprs repr_of (w # ws) = and_then (repr_of w) (\<lambda>s. and_then (reprs repr_of ws) (\<lambda>ss. Ok (s # ss)))"

definition values_repr :: "'m ordered_map \<Rightarrow> (rt_value \<Rightarrow> string py_result) \<Rightarrow> 'm dict \<Rightarrow> string py_result" where
  "values_repr M repr_of d =
     and_then (reprs repr_of (map snd (entries M d))) (\<lambda>ss. Ok (''dict_values(['' @ joined '', '' ss @ ''])''))"

end
