(* ===== verification/Dict_Props.thy ===== *)
theory Dict_Props
  imports Dicts "HOL-Library.AList"
begin

text \<open>
  The dictionary as an insertion-ordered association list from Python values to values: what every
  operation of \<^verbatim>\<open>PyDict\<close> does to it. The laws of \<^verbatim>\<open>tsl::ordered_map\<close> and of the equality of keys
  are the assumptions of a locale, which is interpreted on integer keys with the hash and the
  equality of \<^verbatim>\<open>RtValue\<close>.
\<close>

section \<open>The laws of the map\<close>

fun key_position :: "(rt_value \<Rightarrow> rt_value \<Rightarrow> bool) \<Rightarrow> rt_value \<Rightarrow> (rt_value \<times> rt_value) list \<Rightarrow> nat" where
  "key_position same key [] = 0"
| "key_position same key (e # es) = (if same (fst e) key then 0 else Suc (key_position same key es))"

definition put_entry :: "nat \<Rightarrow> rt_value \<Rightarrow> rt_value \<Rightarrow> (rt_value \<times> rt_value) list \<Rightarrow> (rt_value \<times> rt_value) list" where
  "put_entry i key v es = (if i < length es then es[i := (fst (es ! i), v)] else es @ [(key, v)])"

definition drop_entry :: "nat \<Rightarrow> 'a list \<Rightarrow> 'a list" where
  "drop_entry i es = take i es @ drop (Suc i) es"

text \<open>The documentation of \<^verbatim>\<open>ordered_map\<close>: a key is there once, new entries go to the end, assigning
  keeps the place and the key, and erasing keeps the order of the rest. \<open>same\<close> is what the hash and
  the equality given to the map take for one key.\<close>

definition ordered_map_laws :: "(rt_value \<Rightarrow> rt_value \<Rightarrow> bool) \<Rightarrow> 'm ordered_map \<Rightarrow> bool" where
  "ordered_map_laws same M \<longleftrightarrow>
     om_entries M (om_empty M) = [] \<and>
     (\<forall>key m. om_find M key m = key_position same key (om_entries M m)) \<and>
     (\<forall>key v m. om_entries M (om_assign M key v m) =
        put_entry (key_position same key (om_entries M m)) key v (om_entries M m)) \<and>
     (\<forall>key v m. om_entries M (om_insert M key v m) =
        (if key_position same key (om_entries M m) < length (om_entries M m) then om_entries M m
         else om_entries M m @ [(key, v)])) \<and>
     (\<forall>i m. i < length (om_entries M m) \<longrightarrow> om_entries M (om_erase M i m) = drop_entry i (om_entries M m))"

section \<open>Keys as values\<close>

definition shown :: "(rt_value \<Rightarrow> 'a option) \<Rightarrow> (rt_value \<times> rt_value) list \<Rightarrow> ('a \<times> rt_value) list" where
  "shown val es = map (\<lambda>(k, v). (the (val k), v)) es"

definition entries_ok :: "(rt_value \<Rightarrow> 'a option) \<Rightarrow> (rt_value \<times> rt_value) list \<Rightarrow> bool" where
  "entries_ok val es \<longleftrightarrow> (\<forall>e \<in> set es. val (fst e) \<noteq> None) \<and> distinct (map fst (shown val es))"

definition dict_ok :: "(rt_value \<Rightarrow> 'a option) \<Rightarrow> 'm ordered_map \<Rightarrow> 'm dict \<Rightarrow> bool" where
  "dict_ok val M d \<longleftrightarrow> entries_ok val (entries M d)"

abbreviation pairs_of :: "(rt_value \<Rightarrow> 'a option) \<Rightarrow> 'm ordered_map \<Rightarrow> 'm dict \<Rightarrow> ('a \<times> rt_value) list" where
  "pairs_of val M d \<equiv> shown val (entries M d)"

lemma shown_simps [simp]:
  "shown val [] = []" "shown val ((k, v) # es) = (the (val k), v) # shown val es"
  "shown val (es @ fs) = shown val es @ shown val fs" "length (shown val es) = length es"
  by (simp_all add: shown_def)

lemma shown_nth: "i < length es \<Longrightarrow> shown val es ! i = (the (val (fst (es ! i))), snd (es ! i))"
  by (simp add: shown_def split: prod.split)

lemma entries_ok_simps [simp]:
  "entries_ok val []"
  "entries_ok val ((k, v) # es) \<longleftrightarrow> val k \<noteq> None \<and> the (val k) \<notin> fst ` set (shown val es) \<and> entries_ok val es"
  by (auto simp: entries_ok_def)

lemma entries_ok_append_one:
  "entries_ok val (es @ [(k, v)]) \<longleftrightarrow> entries_ok val es \<and> val k \<noteq> None \<and> the (val k) \<notin> fst ` set (shown val es)"
  by (auto simp: entries_ok_def)

lemma delete_absent: "x \<notin> fst ` set al \<Longrightarrow> AList.delete x al = al"
  by (induction al) auto

lemma update_absent: "x \<notin> fst ` set al \<Longrightarrow> AList.update x v al = al @ [(x, v)]"
  by (induction al) auto

text \<open>Adding an entry whose key is not there.\<close>

definition keep :: "'b \<times> rt_value \<Rightarrow> ('b \<times> rt_value) list \<Rightarrow> ('b \<times> rt_value) list" where
  "keep p al = (if map_of al (fst p) = None then al @ [p] else al)"

section \<open>The operations\<close>

locale python_dict =
  fixes M :: "'m ordered_map" and same :: "rt_value \<Rightarrow> rt_value \<Rightarrow> bool" and eq :: key_eq
    and val :: "rt_value \<Rightarrow> 'a option"
  assumes laws: "ordered_map_laws same M"
    and same_key: "val k = Some x \<Longrightarrow> val l = Some y \<Longrightarrow> same k l \<longleftrightarrow> x = y"
    and eq_key: "val k = Some x \<Longrightarrow> val l = Some y \<Longrightarrow> k \<noteq> l \<Longrightarrow> eq k l = Ok (x = y)"
begin

lemma map_simps [simp]:
  "om_entries M (om_empty M) = []"
  "om_find M key m = key_position same key (om_entries M m)"
  "om_entries M (om_assign M key v m) = put_entry (key_position same key (om_entries M m)) key v (om_entries M m)"
  "om_entries M (om_insert M key v m) =
     (if key_position same key (om_entries M m) < length (om_entries M m) then om_entries M m
      else om_entries M m @ [(key, v)])"
  "i < length (om_entries M m) \<Longrightarrow> om_entries M (om_erase M i m) = drop_entry i (om_entries M m)"
  using laws by (simp_all add: ordered_map_laws_def)

text \<open>Where a key is found.\<close>

lemma key_position_cases:
  assumes "entries_ok val es" "val key = Some x"
  shows "(key_position same key es < length es \<and> map_of (shown val es) x = Some (snd (es ! key_position same key es)) \<and>
      val (fst (es ! key_position same key es)) = Some x) \<or>
    (key_position same key es = length es \<and> map_of (shown val es) x = None)"
  using assms
proof (induction es)
  case (Cons e es)
  obtain k v where e: "e = (k, v)" by force
  with Cons.prems obtain y where "val k = Some y" by auto
  then show ?case using Cons same_key [of k y key x] e by auto
qed simp

lemma find_equal_spec:
  "entries_ok val es \<Longrightarrow> val key = Some x \<Longrightarrow> find_equal eq key es n = Ok (n + key_position same key es)"
proof (induction es arbitrary: n)
  case (Cons e es)
  obtain k v where e: "e = (k, v)" by force
  with Cons.prems obtain y where y: "val k = Some y" by auto
  have "dict_key_equal eq k key = Ok (same k key)"
    using same_key [OF y Cons.prems(2)] eq_key [OF y Cons.prems(2)] y Cons.prems(2) by (auto simp: dict_key_equal_def)
  then show ?case using Cons e by auto
qed simp

lemma find_dict_key_spec:
  "entries_ok val (om_entries M m) \<Longrightarrow> val key = Some x \<Longrightarrow>
   find_dict_key M eq key m = Ok (key_position same key (om_entries M m))"
  using find_equal_spec [of "om_entries M m" key x 0] by (auto simp: find_dict_key_def Let_def)

lemma found_or_spec:
  assumes "dict_ok val M d" "val key = Some x"
  shows "found_or M eq key d found missing =
    (case map_of (pairs_of val M d) x of
       Some v \<Rightarrow> found (key_position same key (entries M d)) v
     | None \<Rightarrow> missing)"
  using key_position_cases [of "entries M d" key x] find_dict_key_spec [of "d_map d" key x] assms
  by (auto simp: found_or_def dict_ok_def)

text \<open>The map after an assignment, an insertion and an erasure.\<close>

lemma put_entry_spec:
  assumes "entries_ok val es" "val key = Some x"
  shows "shown val (put_entry (key_position same key es) key v es) = AList.update x v (shown val es) \<and>
    entries_ok val (put_entry (key_position same key es) key v es)"
  using assms
proof (induction es)
  case Nil
  then show ?case by (simp add: put_entry_def)
next
  case (Cons e es)
  obtain k w where e: "e = (k, w)" by force
  with Cons.prems obtain y where y: "val k = Some y" by auto
  show ?case
  proof (cases "same k key")
    case True
    then show ?thesis using Cons.prems e y same_key [OF y Cons.prems(2)] by (auto simp: put_entry_def)
  next
    case False
    then have "y \<noteq> x" using same_key [OF y Cons.prems(2)] by simp
    moreover have "put_entry (key_position same key (e # es)) key v (e # es) = e # put_entry (key_position same key es) key v es"
      using False e by (auto simp: put_entry_def)
    ultimately show ?thesis using Cons e y by (auto simp: AList.update_conv' dom_update)
  qed
qed

lemma drop_entry_spec:
  assumes "entries_ok val es" "val key = Some x" "key_position same key es < length es"
  shows "shown val (drop_entry (key_position same key es) es) = AList.delete x (shown val es) \<and>
    entries_ok val (drop_entry (key_position same key es) es)"
  using assms
proof (induction es)
  case (Cons e es)
  obtain k w where e: "e = (k, w)" by force
  with Cons.prems obtain y where y: "val k = Some y" by auto
  show ?case
  proof (cases "same k key")
    case True
    then have "y = x" using same_key [OF y Cons.prems(2)] by simp
    then have "x \<notin> fst ` set (shown val es)" using Cons.prems(1) e y by simp
    then have "AList.delete x (shown val es) = shown val es" by (simp add: delete_absent)
    then show ?thesis using True Cons.prems e y \<open>y = x\<close> by (auto simp: drop_entry_def)
  next
    case False
    then have "y \<noteq> x" using same_key [OF y Cons.prems(2)] by simp
    moreover have "drop_entry (key_position same key (e # es)) (e # es) = e # drop_entry (key_position same key es) es"
      using False e by (auto simp: drop_entry_def)
    ultimately show ?thesis using Cons e y False by (auto simp: AList.delete_eq)
  qed
qed simp

lemma assign_spec:
  assumes "entries_ok val (om_entries M m)" "val key = Some x"
  shows "shown val (om_entries M (om_assign M key v m)) = AList.update x v (shown val (om_entries M m)) \<and>
    entries_ok val (om_entries M (om_assign M key v m))"
  using put_entry_spec [OF assms] by simp

lemma erase_spec:
  assumes "entries_ok val (om_entries M m)" "val key = Some x"
    "key_position same key (om_entries M m) < length (om_entries M m)"
  shows "shown val (om_entries M (om_erase M (key_position same key (om_entries M m)) m)) =
      AList.delete x (shown val (om_entries M m)) \<and>
    entries_ok val (om_entries M (om_erase M (key_position same key (om_entries M m)) m))"
  using drop_entry_spec [OF assms] assms(3) by simp

lemma insert_spec:
  assumes "entries_ok val (om_entries M m)" "val key = Some x"
  shows "shown val (om_entries M (om_insert M key v m)) =
      (if map_of (shown val (om_entries M m)) x = None then shown val (om_entries M m) @ [(x, v)]
       else shown val (om_entries M m)) \<and>
    entries_ok val (om_entries M (om_insert M key v m))"
  using key_position_cases [OF assms] assms
  by (auto simp: entries_ok_append_one simp flip: map_of_eq_None_iff)

lemma erased:
  assumes "dict_ok val M d" "val key = Some x" "map_of (pairs_of val M d) x \<noteq> None"
  shows "pairs_of val M (with_map (om_erase M (key_position same key (entries M d))) d) = AList.delete x (pairs_of val M d) \<and>
    dict_ok val M (with_map (om_erase M (key_position same key (entries M d))) d)"
  using erase_spec [of "d_map d" key x] key_position_cases [of "entries M d" key x] assms
  by (auto simp: dict_ok_def with_map_def)

lemma assigned:
  assumes "dict_ok val M d" "val key = Some x"
  shows "pairs_of val M (with_map (om_assign M key v) d) = AList.update x v (pairs_of val M d) \<and>
    dict_ok val M (with_map (om_assign M key v) d)"
  using assign_spec [of "d_map d" key x v] assms by (simp add: dict_ok_def with_map_def)

lemma bump_version_pairs [simp]: "entries M (bump_version d) = entries M d" "dict_ok val M (bump_version d) = dict_ok val M d"
  by (simp_all add: bump_version_def dict_ok_def)

text \<open>Reading.\<close>

lemma reading_spec:
  assumes "dict_ok val M d" "val key = Some x"
  shows "dict_lookup M eq key d = Ok (map_of (pairs_of val M d) x) \<and>
    dict_index M key d = map_of (pairs_of val M d) x \<and>
    dict_get M eq none key dflt d =
      Ok (case map_of (pairs_of val M d) x of Some v \<Rightarrow> v | None \<Rightarrow> case_option none id dflt) \<and>
    (\<not> d_subtype d \<longrightarrow> dict_getitem M eq key d =
      (case map_of (pairs_of val M d) x of Some v \<Rightarrow> Ok v | None \<Rightarrow> Err KeyError))"
  using key_position_cases [of "entries M d" key x] assms
  by (auto simp: found_or_spec [OF assms] dict_lookup_def dict_get_def dict_getitem_def dict_index_def dict_ok_def split: option.splits)

text \<open>Writing.\<close>

lemma setitem_spec:
  assumes "dict_ok val M d" "val key = Some x"
  shows "dict_ok val M (dict_setitem M key v d) \<and>
    pairs_of val M (dict_setitem M key v d) = AList.update x v (pairs_of val M d)"
  using assigned [OF assms] by (simp add: dict_setitem_def)

lemma delitem_spec:
  assumes "dict_ok val M d" "val key = Some x"
  shows "case dict_delitem M eq key d of
      Ok d' \<Rightarrow> x \<in> dom (map_of (pairs_of val M d)) \<and> dict_ok val M d' \<and>
        pairs_of val M d' = AList.delete x (pairs_of val M d)
    | Err e \<Rightarrow> x \<notin> dom (map_of (pairs_of val M d)) \<and> e = KeyError
    | Abort a \<Rightarrow> False"
  using erased [OF assms] by (auto simp: found_or_spec [OF assms] dict_delitem_def split: option.splits)

lemma pop_spec:
  assumes "dict_ok val M d" "val key = Some x"
  shows "case dict_pop M eq key dflt d of
      Ok (v, d') \<Rightarrow> dict_ok val M d' \<and> pairs_of val M d' = AList.delete x (pairs_of val M d) \<and>
        map_of (pairs_of val M d) x = (if x \<in> dom (map_of (pairs_of val M d)) then Some v else None) \<and>
        (x \<notin> dom (map_of (pairs_of val M d)) \<longrightarrow> dflt = Some v)
    | Err e \<Rightarrow> x \<notin> dom (map_of (pairs_of val M d)) \<and> dflt = None \<and> e = KeyError
    | Abort a \<Rightarrow> False"
proof (cases "map_of (pairs_of val M d) x")
  case None
  then have "AList.delete x (pairs_of val M d) = pairs_of val M d"
    by (simp add: delete_absent map_of_eq_None_iff)
  then show ?thesis using None assms(1) by (auto simp: found_or_spec [OF assms] dict_pop_def split: option.splits)
next
  case (Some v)
  then show ?thesis using Some erased [OF assms] by (auto simp: found_or_spec [OF assms] dict_pop_def)
qed

lemma setdefault_spec:
  assumes "dict_ok val M d" "val key = Some x"
  shows "case dict_setdefault M key dflt d of (v, d') \<Rightarrow>
    dict_ok val M d' \<and> map_of (pairs_of val M d') x = Some v \<and>
    pairs_of val M d' =
      (if map_of (pairs_of val M d) x = None then pairs_of val M d @ [(x, dflt)] else pairs_of val M d)"
proof (cases "map_of (pairs_of val M d) x")
  case None
  then have "AList.update x dflt (pairs_of val M d) = pairs_of val M d @ [(x, dflt)]"
    by (simp add: update_absent map_of_eq_None_iff)
  then show ?thesis using None reading_spec [OF assms] setitem_spec [OF assms, of dflt]
    by (simp add: dict_setdefault_def dict_insert_def dict_setitem_def map_add_Some_iff)
next
  case (Some v)
  then show ?thesis using reading_spec [OF assms] assms(1) by (simp add: dict_setdefault_def)
qed

lemma remove_spec:
  assumes "dict_ok val M d" "val key = Some x"
  shows "dict_ok val M (dict_remove M key d) \<and>
    pairs_of val M (dict_remove M key d) = AList.delete x (pairs_of val M d)"
proof (cases "map_of (pairs_of val M d) x")
  case None
  then have "AList.delete x (pairs_of val M d) = pairs_of val M d"
    by (simp add: delete_absent map_of_eq_None_iff)
  then show ?thesis using None key_position_cases [of "entries M d" key x] assms
    by (auto simp: dict_remove_def dict_ok_def)
next
  case (Some v)
  then show ?thesis using erased [OF assms] key_position_cases [of "entries M d" key x] assms
    by (auto simp: dict_remove_def Let_def dict_ok_def)
qed

text \<open>Merging.\<close>

lemma add_entry_spec:
  assumes "dict_ok val M d" "val (fst e) = Some x"
  shows "dict_ok val M (add_entry M override e d) \<and>
    pairs_of val M (add_entry M override e d) =
      (if override then AList.update x (snd e) (pairs_of val M d) else keep (x, snd e) (pairs_of val M d))"
  using assigned [of d "fst e" x "snd e"] insert_spec [of "d_map d" "fst e" x "snd e"] assms
  by (auto simp: add_entry_def keep_def with_map_def dict_ok_def)

lemma merge_dict_spec:
  assumes "dict_ok val M d" "\<forall>e \<in> set es. val (fst e) \<noteq> None"
  shows "dict_ok val M (merge_dict M override es d) \<and>
    pairs_of val M (merge_dict M override es d) =
      fold (\<lambda>p. if override then AList.update (fst p) (snd p) else keep p) (shown val es) (pairs_of val M d)"
  using assms
proof (induction es arbitrary: d)
  case (Cons e es)
  then obtain x where x: "val (fst e) = Some x" by auto
  show ?case
    using Cons.IH [of "add_entry M override e d"] add_entry_spec [OF Cons.prems(1) x, of override] Cons.prems(2) x
    by (cases e) (auto simp: merge_dict_def)
qed (simp add: merge_dict_def)

lemma fold_update_map: "map_of (fold (\<lambda>p. AList.update (fst p) (snd p)) ps al) = map_of al ++ map_of (rev ps)"
proof (induction ps arbitrary: al)
  case (Cons p ps)
  have "map_of (fold (\<lambda>p. AList.update (fst p) (snd p)) (p # ps) al) = (map_of al)(fst p \<mapsto> snd p) ++ map_of (rev ps)"
    using Cons by (simp add: AList.update_conv' fun_upd_def)
  then show ?case by (simp add: map_add_def fun_eq_iff split: option.split)
qed simp

lemma merge_dict_contents:
  assumes "dict_ok val M d" "entries_ok val es"
  shows "map_of (pairs_of val M (merge_dict M True es d)) = map_of (pairs_of val M d) ++ map_of (shown val es)"
proof -
  have "\<forall>e \<in> set es. val (fst e) \<noteq> None" using assms(2) by (simp add: entries_ok_def)
  moreover have "map_of (rev (shown val es)) = map_of (shown val es)"
    using assms(2) by (subst map_of_inject_set) (simp_all add: entries_ok_def rev_map [symmetric])
  ultimately show ?thesis using merge_dict_spec [OF assms(1), of es True] by (simp add: fold_update_map)
qed

text \<open>A new dictionary from all entries of another.\<close>

lemma create_ok [simp]: "dict_ok val M (dict_create M)" "entries M (dict_create M) = []"
  by (simp_all add: dict_create_def dict_ok_def)

lemma fold_update_fresh:
  "distinct (map fst (al @ ps)) \<Longrightarrow> fold (\<lambda>p. AList.update (fst p) (snd p)) ps al = al @ ps"
proof (induction ps arbitrary: al)
  case (Cons p ps)
  then have "AList.update (fst p) (snd p) al = al @ [p]" by (intro trans [OF update_absent]) auto
  then show ?case using Cons.IH [of "al @ [p]"] Cons.prems by simp
qed simp

lemma copy_spec:
  assumes "dict_ok val M d"
  shows "pairs_of val M (merge_dict M True (entries M d) (dict_create M)) = pairs_of val M d"
proof -
  have "\<forall>e \<in> set (entries M d). val (fst e) \<noteq> None" "distinct (map fst (pairs_of val M d))"
    using assms by (simp_all add: dict_ok_def entries_ok_def)
  then show ?thesis using merge_dict_spec [of "dict_create M" "entries M d" True]
    by (simp add: fold_update_fresh)
qed

lemma merge_keys_override:
  assumes "\<forall>(k, v) \<in> set es. item k = Ok v"
  shows "merge_keys M True item e (map fst es) d = (iteration_end e, merge_dict M True es d)"
  using assms
proof (induction es arbitrary: d)
  case (Cons p es)
  then show ?case by (cases p) (simp add: merge_dict_def add_entry_def)
qed (simp add: merge_dict_def)

lemma merge_pairs_dict:
  "merge_pairs M True e (map (\<lambda>(k, v). Tuple_item [k, v]) es) d = (iteration_end e, merge_dict M True es d)"
  by (induction es arbitrary: d) (auto simp: merge_dict_def pair_of_def)

lemma merge_keys_keep:
  assumes "dict_ok val M d" "\<forall>e \<in> set es. val (fst e) \<noteq> None" "\<forall>(k, v) \<in> set es. item k = Ok v"
  shows "fst (merge_keys M False item StopIteration (map fst es) d) =
    (if fst ` set (shown val es) \<subseteq> dom (map_of (pairs_of val M d)) then Ok () else Err KeyError)"
  using assms
proof (induction es arbitrary: d)
  case (Cons p es)
  obtain k v where p: "p = (k, v)" by force
  then obtain x where x: "val k = Some x" using Cons.prems(2) by auto
  have item: "item k = Ok v" using Cons.prems(3) p by simp
  show ?case
  proof (cases "map_of (pairs_of val M d) x")
    case None
    then have "key_position same k (entries M d) = length (entries M d)"
      using key_position_cases [of "entries M d" k x] Cons.prems(1) x by (auto simp: dict_ok_def)
    moreover have "\<not> fst ` set (shown val (p # es)) \<subseteq> dom (map_of (pairs_of val M d))"
      using None x p by auto
    ultimately show ?thesis using p by simp
  next
    case (Some w)
    let ?d = "with_map (om_assign M k v) d"
    have "key_position same k (entries M d) < length (entries M d)"
      using key_position_cases [of "entries M d" k x] Cons.prems(1) x Some by (auto simp: dict_ok_def)
    then have "fst (merge_keys M False item StopIteration (map fst (p # es)) d) =
        fst (merge_keys M False item StopIteration (map fst es) ?d)"
      using item p by simp
    moreover have "dict_ok val M ?d" "dom (map_of (pairs_of val M ?d)) = dom (map_of (pairs_of val M d))"
      using assigned [OF Cons.prems(1) x, of v] Some by (auto simp: AList.update_conv')
    ultimately show ?thesis using Cons.IH [of ?d] Cons.prems Some x p by (auto simp: iteration_end_def)
  qed
qed (simp add: iteration_end_def)

end

section \<open>Iteration\<close>

fun view_steps :: "nat \<Rightarrow> 'm ordered_map \<Rightarrow> 'm dict \<Rightarrow> 'a view \<Rightarrow> nat \<Rightarrow> 'a list" where
  "view_steps 0 M d vw i = []"
| "view_steps (Suc n) M d vw i =
     (case view_next M d vw i of Ok (x, j) \<Rightarrow> x # view_steps n M d vw j | _ \<Rightarrow> [])"

lemma view_steps_entries:
  "i \<le> length (entries M d) \<Longrightarrow> length (entries M d) < i + n \<Longrightarrow>
   view_steps n M d (View f) i = map f (drop i (entries M d))"
proof (induction n arbitrary: i)
  case (Suc n)
  show ?case
  proof (cases "i = length (entries M d)")
    case False
    then have "drop i (entries M d) = entries M d ! i # drop (Suc i) (entries M d)"
      using Suc.prems by (intro Cons_nth_drop_Suc [symmetric]) simp
    then show ?thesis using False Suc by simp
  qed simp
qed simp

section \<open>Integer keys\<close>

text \<open>The map as a plain list, with the hash and the equality of \<^verbatim>\<open>RtValue\<close> on a heap.\<close>

definition list_map :: "(rt_value \<Rightarrow> rt_value \<Rightarrow> bool) \<Rightarrow> (rt_value \<times> rt_value) list ordered_map" where
  "list_map same =
     \<lparr>om_empty = [], om_entries = (\<lambda>m. m), om_find = key_position same,
      om_assign = (\<lambda>key v m. put_entry (key_position same key m) key v m),
      om_insert = (\<lambda>key v m. if key_position same key m < length m then m else m @ [(key, v)]),
      om_erase = drop_entry, om_equal = (=)\<rparr>"

lemma list_map_laws: "ordered_map_laws same (list_map same)"
  by (simp add: ordered_map_laws_def list_map_def)

definition key_same ::
  "'f allocator \<Rightarrow> 'f double_ops \<Rightarrow> 'f compare_slots \<Rightarrow> ('f py_object \<Rightarrow> int py_result) \<Rightarrow> 'f rt_heap
   \<Rightarrow> rt_value \<Rightarrow> rt_value \<Rightarrow> bool" where
  "key_same alloc D other hash h l r \<longleftrightarrow>
     RtValueHash hash h l = RtValueHash hash h r \<and>
     (case RtValueEq alloc D other h l r of Ok (_, t) \<Rightarrow> t | _ \<Rightarrow> False)"

definition key_equal :: "'f allocator \<Rightarrow> 'f double_ops \<Rightarrow> 'f compare_slots \<Rightarrow> 'f rt_heap \<Rightarrow> key_eq" where
  "key_equal alloc D other h l r =
     and_then (box alloc h l) (\<lambda>(h1, p).
     and_then (box alloc h1 r) (\<lambda>(h2, q).
     and_then (deref h2 p) (\<lambda>a.
     and_then (deref h2 q) (\<lambda>b.
     and_then (richcompare_eq D other p a q b) (\<lambda>res. Ok (res = PyBool True))))))"

definition key_value :: "'f allocator \<Rightarrow> 'f rt_heap \<Rightarrow> rt_value \<Rightarrow> int option" where
  "key_value alloc h w =
     (if alloc_ok alloc \<and> heap_ok h \<and> \<not> refused alloc h 2 \<and> not_bool h w then denote h w else None)"

lemma key_value_SomeD:
  "key_value alloc h w = Some v \<Longrightarrow>
   alloc_ok alloc \<and> heap_ok h \<and> \<not> refused alloc h 2 \<and> slot_word h w v \<and> denote h w = Some v"
  by (auto simp: key_value_def slot_word_not_bool split: if_splits)

lemma key_same_value:
  assumes "key_value alloc h l = Some a" "key_value alloc h r = Some b"
  shows "key_same alloc D other hash h l r \<longleftrightarrow> a = b"
proof -
  note l = key_value_SomeD [OF assms(1)] and r = key_value_SomeD [OF assms(2)]
  have "case RtValueEq alloc D other h l r of Ok (_, t) \<Rightarrow> t = (a = b) | _ \<Rightarrow> False"
    using RtValueEq_denote [of alloc h l a r b D other] l r
    by (auto simp: alloc_or_def split: py_result.splits)
  then show ?thesis using RtValueHash_denote [of h l a hash] RtValueHash_denote [of h r b hash] l r
    by (auto simp: key_same_def split: py_result.splits)
qed

lemma key_equal_value:
  fixes D :: "'f double_ops"
  assumes "key_value alloc h l = Some a" "key_value alloc h r = Some b"
  shows "key_equal alloc D other h l r = Ok (a = b)"
proof -
  note l = key_value_SomeD [OF assms(1)] and r = key_value_SomeD [OF assms(2)]
  have "alloc_or alloc h 2 (\<lambda>t. t = (a = b)) (key_equal alloc D other h l r)"
    unfolding key_equal_def
  proof (rule box_words_then)
    fix h2 :: "'f rt_heap" and p q assume pq: "objs h2 p = Some (PyInteger a)" "objs h2 q = Some (PyInteger b)"
    then have "p = q \<Longrightarrow> a = b" by simp
    then have "richcompare_eq D other p (PyInteger a) q (PyInteger b) = Ok (PyBool (a = b))"
      using object_compare_int [of p q a b D other Py_EQ] by (simp add: richcompare_eq_def Let_def)
    with pq show "alloc_or alloc h 2 (\<lambda>t. t = (a = b))
      (and_then (deref h2 p) (\<lambda>x. and_then (deref h2 q) (\<lambda>y.
         and_then (richcompare_eq D other p x q y) (\<lambda>res. Ok (res = PyBool True)))))"
      by (simp add: deref_def)
  qed (use l r in auto)
  then show ?thesis using l by (auto simp: alloc_or_def split: py_result.splits)
qed

abbreviation int_map ::
  "'f allocator \<Rightarrow> 'f double_ops \<Rightarrow> 'f compare_slots \<Rightarrow> ('f py_object \<Rightarrow> int py_result) \<Rightarrow> 'f rt_heap
   \<Rightarrow> (rt_value \<times> rt_value) list ordered_map" where
  "int_map alloc D other hash h \<equiv> list_map (key_same alloc D other hash h)"

interpretation int_keys:
  python_dict "int_map alloc D other hash h" "key_same alloc D other hash h"
    "key_equal alloc D other h" "key_value alloc h"
  for alloc D other hash h
  by unfold_locales (auto simp: list_map_laws key_same_value key_equal_value)

section \<open>Properties\<close>


text \<open>On a heap with a reliable allocator, integer keys are one key exactly if they are equal
  integers, however they are stored (in the word, or boxed in different objects): what is stored
  under one word is found under every word of the same integer, and nowhere else.\<close>

theorem integer_keys_exact:
  assumes "dict_ok (key_value alloc h) (int_map alloc D other hash h) d"
    "key_value alloc h k = Some x" "key_value alloc h l = Some y"
  shows "dict_lookup (int_map alloc D other hash h) (key_equal alloc D other h) l
        (dict_setitem (int_map alloc D other hash h) k v d) =
      (if x = y then Ok (Some v)
       else dict_lookup (int_map alloc D other hash h) (key_equal alloc D other h) l d)"
  using int_keys.setitem_spec [OF assms(1,2), of v] int_keys.reading_spec [OF _ assms(3)] assms(1)
  by (simp add: AList.update_conv')

text \<open>\<^verbatim>\<open>update\<close> with a dictionary, with an object with \<^verbatim>\<open>keys\<close> and with a sequence of pairs does the same:
  the entries of the other one win. Only an empty sequence ends with a \<^verbatim>\<open>StopIteration\<close>. Without
  \<^verbatim>\<open>override\<close> an object with \<^verbatim>\<open>keys\<close> is accepted exactly if the dictionary has all its keys already, and
  raises a \<^verbatim>\<open>KeyError\<close> otherwise.\<close>

theorem dict_update_exact:
  assumes "python_dict M same eq val" "dict_ok val M d" "entries_ok val es" "\<forall>(k, v) \<in> set es. item k = Ok v"
  shows "(case dict_update M (Plain_dict es) d of (r, d') \<Rightarrow>
      r = Ok () \<and> dict_ok val M d' \<and>
      map_of (pairs_of val M d') = map_of (pairs_of val M d) ++ map_of (shown val es)) \<and>
    dict_update M (With_keys (Ok (map fst es, StopIteration)) item) d = dict_update M (Plain_dict es) d \<and>
    dict_update M (Pairs (Ok (map (\<lambda>(k, v). Tuple_item [k, v]) es, StopIteration))) d =
      (if es = [] then (Err StopIteration, d) else dict_update M (Plain_dict es) d) \<and>
    fst (merge_object M False (With_keys (Ok (map fst es, StopIteration)) item) d) =
      (if fst ` set (shown val es) \<subseteq> dom (map_of (pairs_of val M d)) then Ok () else Err KeyError)"
proof -
  have keys: "\<forall>e \<in> set es. val (fst e) \<noteq> None" using assms(3) by (simp add: entries_ok_def)
  have "merge_from_seq_2 M True (Ok (map (\<lambda>(k, v). Tuple_item [k, v]) es, StopIteration)) d =
      (if es = [] then (Err StopIteration, d) else (Ok (), merge_dict M True es d))"
    using python_dict.merge_pairs_dict [OF assms(1), of StopIteration es d]
    by (cases es) (auto simp: merge_from_seq_2_def iteration_end_def split: list.split)
  then show ?thesis
    using python_dict.merge_dict_spec [OF assms(1,2) keys, of True]
      python_dict.merge_dict_contents [OF assms(1,2,3)]
      python_dict.merge_keys_override [OF assms(1,4)]
      python_dict.merge_keys_keep [OF assms(1,2) keys assms(4)]
    by (simp add: dict_update_def merge_object_def iteration_end_def)
qed


section \<open>Witnesses\<close>

text \<open>Two objects for one integer.\<close>

definition twin_heap :: "unit rt_heap" where
  "twin_heap =
     \<lparr>objs = [8 \<mapsto> PyBool True, 16 \<mapsto> PyBool False, 24 \<mapsto> PyInteger 9223372036854775807,
              32 \<mapsto> PyInteger 9223372036854775807],
      s_cache = Map.empty, s_py_true = 8, s_py_false = 16\<rparr>"

lemma twin_heap_ok: "heap_ok twin_heap" "not_bool twin_heap 24" "not_bool twin_heap 32"
  by (auto simp: heap_ok_def twin_heap_def bool_ptr_def not_bool_def split: if_splits)

lemma twin_reliable: "\<not> refused demo_alloc twin_heap 2"
proof
  assume "refused demo_alloc twin_heap 2"
  then obtain h new where "length new \<le> 2" "dom (objs h) \<subseteq> dom (objs twin_heap) \<union> set new"
    "demo_alloc h = None"
    by (auto simp: refused_def grows_def)
  moreover from this have "{64, 80, 96, 112} \<subseteq> dom (objs h)"
    by (auto simp: demo_alloc_def split: if_splits)
  ultimately have "{64, 80, 96, 112} \<subseteq> set new" by (auto simp: twin_heap_def)
  then have "card {64, 80, 96, 112 :: rt_value} \<le> length new"
    by (meson List.finite_set card_length card_mono order_trans)
  then show False using \<open>length new \<le> 2\<close> by simp
qed

lemma twin_values:
  "key_value demo_alloc twin_heap 24 = Some 9223372036854775807"
  "key_value demo_alloc twin_heap 32 = Some 9223372036854775807"
  using twin_heap_ok demo_alloc_ok twin_reliable
  by (simp_all add: key_value_def) (simp_all add: denote_def twin_heap_def is_tagged_int_def)

theorem integer_keys_exact_witness:
  "dict_lookup (int_map demo_alloc demo_doubles demo_compare (\<lambda>_. Err TypeError) twin_heap)
     (key_equal demo_alloc demo_doubles demo_compare twin_heap) 32
     (dict_setitem (int_map demo_alloc demo_doubles demo_compare (\<lambda>_. Err TypeError) twin_heap) 24 5
        (dict_create (int_map demo_alloc demo_doubles demo_compare (\<lambda>_. Err TypeError) twin_heap))) = Ok (Some 5)"
  using integer_keys_exact [OF int_keys.create_ok(1) twin_values, of demo_doubles demo_compare "\<lambda>_. Err TypeError" 5]
  by simp

text \<open>Keys whose equality is that of their words.\<close>

lemma word_keys: "python_dict (list_map (=)) (=) (\<lambda>l r. Ok (l = r)) Some"
  by unfold_locales (auto simp: list_map_laws)

definition word_dict :: "(rt_value \<times> rt_value) list dict" where
  "word_dict = \<lparr>d_map = [(3, 13), (5, 15), (7, 17)], d_version = 0, d_missing = Ok None, d_subtype = False\<rparr>"

lemma word_entries [simp]: "entries (list_map (=)) word_dict = [(3, 13), (5, 15), (7, 17)]"
  by (simp add: word_dict_def list_map_def)

lemma word_dict_ok: "dict_ok Some (list_map (=)) word_dict"
  by (simp add: dict_ok_def)


theorem dict_update_exact_witness:
  "map_of (pairs_of Some (list_map (=)) (snd (dict_update (list_map (=)) (Plain_dict [(5, 1), (9, 2)]) word_dict))) 9 = Some 2"
  using dict_update_exact [OF word_keys word_dict_ok, of "[(5, 1), (9, 2)]" "\<lambda>k. Ok (if k = 5 then 1 else 2)"]
  by (auto simp: entries_ok_def)


end
