(* ===== verification/Mangler.thy ===== *)
theory Mangler
  imports Prelude
begin

text \<open>
  The names of functions and classes in the compiled program
  (\<^verbatim>\<open>DefaultMangler\<close>, \<^verbatim>\<open>src/src/executable/Mangler.cpp\<close>).
\<close>

type_synonym location = "nat \<times> nat" \<comment> \<open>row and column of the start; the end is left out\<close>

text \<open>A number as \<^verbatim>\<open>fmt::format\<close> writes it.\<close>

fun decimal :: "nat \<Rightarrow> string" where
  "decimal n = (if n < 10 then [char_of (48 + n)] else decimal (n div 10) @ [char_of (48 + n mod 10)])"

definition function_mangle :: "string \<Rightarrow> string \<Rightarrow> location \<Rightarrow> string" where
  "function_mangle module function_name loc =
     module @ ''.'' @ function_name @ ''.'' @ decimal (fst loc) @ '':'' @ decimal (snd loc)"

definition class_mangle :: "string \<Rightarrow> string \<Rightarrow> location \<Rightarrow> string" where
  "class_mangle module class_name loc =
     module @ ''.__class__'' @ class_name @ ''__.'' @ decimal (fst loc) @ '':'' @ decimal (snd loc)"

text \<open>What stands before and behind the last dot; \<^verbatim>\<open>std::find\<close> over the reversed text.\<close>

definition split_last_dot :: "string \<Rightarrow> (string \<times> string) option" where
  "split_last_dot s =
     (let after = takeWhile (\<lambda>c. c \<noteq> CHR ''.'') (rev s); before = drop (length after + 1) (rev s) in
      if length after = length s then None else Some (rev before, rev after))"

definition function_demangle :: "string \<Rightarrow> string py_result" where
  "function_demangle mangled_name =
     (case split_last_dot mangled_name of
        None \<Rightarrow> Abort Assertion
      | Some (module_function, _) \<Rightarrow>
          (case split_last_dot module_function of
             None \<Rightarrow> Abort Assertion
           | Some (_, name) \<Rightarrow> Ok name))"

definition starts_with :: "string \<Rightarrow> string \<Rightarrow> bool" where
  "starts_with p s \<longleftrightarrow> take (length p) s = p"

definition ends_with :: "string \<Rightarrow> string \<Rightarrow> bool" where
  "ends_with p s \<longleftrightarrow> starts_with (rev p) (rev s)"

definition class_demangle :: "string \<Rightarrow> string py_result" where
  "class_demangle mangled_name =
     and_then (function_demangle mangled_name) (\<lambda>mangled_class.
       assert_that (starts_with ''__class__'' mangled_class)
         (assert_that (ends_with ''__'' mangled_class)
            (if length mangled_class < 11 then Abort Undefined
             else Ok (take (length mangled_class - 2 - 9) (drop 9 mangled_class)))))"

section \<open>Round trips\<close>

lemma take_drop_while:
  "c \<notin> set t \<Longrightarrow> takeWhile (\<lambda>d. d \<noteq> c) (t @ c # s) = t"
  "c \<notin> set t \<Longrightarrow> takeWhile (\<lambda>d. d \<noteq> c) t = t"
  by (induction t) auto

lemma split_last_dot_append:
  assumes "CHR ''.'' \<notin> set t"
  shows "split_last_dot (s @ CHR ''.'' # t) = Some (s, t)"
proof -
  have "takeWhile (\<lambda>c. c \<noteq> CHR ''.'') (rev (s @ CHR ''.'' # t)) = rev t"
    using take_drop_while(1) [of "CHR ''.''" "rev t" "rev s"] assms by simp
  then show ?thesis by (simp add: split_last_dot_def Let_def)
qed

declare decimal.simps [simp del]

lemma decimal_digits: "c \<in> set (decimal n) \<Longrightarrow> \<exists>d < 10. c = char_of (48 + d :: nat)"
proof (induction n rule: decimal.induct)
  case (1 n)
  then show ?case by (subst (asm) (2) decimal.simps) (force split: if_splits)
qed

lemma of_digit: "d < 10 \<Longrightarrow> of_char (char_of (48 + d :: nat) :: char) = (48 + d :: nat)"
  by (simp add: of_char_of)

lemma digit_inj:
  assumes "d < 10" "e < 10" "char_of (48 + d :: nat) = (char_of (48 + e :: nat) :: char)"
  shows "d = e"
  using arg_cong [OF assms(3), of "of_char :: char \<Rightarrow> nat"] of_digit [OF assms(1)] of_digit [OF assms(2)] by simp

lemma digits_no_punctuation:
  assumes "c \<in> set (decimal n)"
  shows "c \<noteq> CHR ''.'' \<and> c \<noteq> CHR '':''"
proof -
  obtain d :: nat where "d < 10" "c = char_of (48 + d)" using decimal_digits [OF assms] by blast
  then have "of_char c = 48 + d" by (simp add: of_char_of)
  then show ?thesis using \<open>d < 10\<close> by auto
qed

lemma decimal_nonempty [simp]: "decimal n \<noteq> []"
  by (subst decimal.simps) simp

lemma decimal_last: "decimal k = (if k < 10 then [] else decimal (k div 10)) @ [char_of (48 + k mod 10)]"
  by (subst decimal.simps) simp

lemma decimal_inj: "decimal m = decimal n \<Longrightarrow> m = n"
proof (induction m arbitrary: n rule: decimal.induct)
  case (1 m)
  have "(if m < 10 then [] else decimal (m div 10)) @ [char_of (48 + m mod 10)] =
      (if n < 10 then [] else decimal (n div 10)) @ [char_of (48 + n mod 10)]"
    unfolding decimal_last [symmetric] by (rule 1(2))
  then have eq: "(if m < 10 then [] else decimal (m div 10)) = (if n < 10 then [] else decimal (n div 10))"
      "m mod 10 = n mod 10"
    unfolding append1_eq_conv using digit_inj by auto
  show ?case
  proof (cases "m < 10")
    case True
    then have "n < 10" using eq(1) decimal_nonempty [of "n div 10"] by (cases "n < 10") simp_all
    then show ?thesis using True eq(2) by simp
  next
    case False
    then have "\<not> n < 10" using eq(1) by (auto split: if_splits)
    then have "m div 10 = n div 10" using eq(1) False 1(1) [OF False] by simp
    then show ?thesis using eq(2) by (metis div_mult_mod_eq)
  qed
qed

lemma location_text: "CHR ''.'' \<notin> set (decimal row @ '':'' @ decimal col)"
  using digits_no_punctuation [of "CHR ''.''"] by auto

lemma location_text_inj:
  assumes "decimal a @ '':'' @ decimal b = decimal c @ '':'' @ decimal d"
  shows "a = c \<and> b = d"
proof -
  have no: "CHR '':'' \<notin> set (decimal n)" for n using digits_no_punctuation [of "CHR '':''"] by auto
  have "decimal a = decimal c"
    using arg_cong [OF assms, of "takeWhile (\<lambda>x. x \<noteq> CHR '':'')"] by (simp add: take_drop_while(1) [OF no])
  then show ?thesis using assms decimal_inj by simp
qed

lemma split_function_mangle:
  "split_last_dot (function_mangle module name loc) =
     Some (module @ CHR ''.'' # name, decimal (fst loc) @ '':'' @ decimal (snd loc))"
  using split_last_dot_append [OF location_text, of "module @ CHR ''.'' # name"] by (simp add: function_mangle_def)

lemma class_mangle_function: "class_mangle module name loc = function_mangle module (''__class__'' @ name @ ''__'') loc"
  by (simp add: class_mangle_def function_mangle_def)

lemma function_mangle_inj:
  assumes "CHR ''.'' \<notin> set name" "CHR ''.'' \<notin> set name'"
    "function_mangle module name loc = function_mangle module' name' loc'"
  shows "(module, name, loc) = (module', name', loc')"
proof -
  have eq: "module @ CHR ''.'' # name = module' @ CHR ''.'' # name'"
      "decimal (fst loc) @ '':'' @ decimal (snd loc) = decimal (fst loc') @ '':'' @ decimal (snd loc')"
    using arg_cong [OF assms(3), of split_last_dot] unfolding split_function_mangle by blast+
  have "module = module' \<and> name = name'"
    using arg_cong [OF eq(1), of split_last_dot]
    unfolding split_last_dot_append [OF assms(1)] split_last_dot_append [OF assms(2)] by blast
  then show ?thesis using location_text_inj [OF eq(2)] by (simp add: prod_eq_iff)
qed

lemma function_demangle_mangle:
  "CHR ''.'' \<notin> set name \<Longrightarrow> function_demangle (function_mangle module name loc) = Ok name"
  by (simp add: function_demangle_def split_function_mangle split_last_dot_append)

section \<open>Properties\<close>

text \<open>C40: Demangling gives back the name of a function and of a class, for names without a dot. Functions
  with different names, modules or places have different mangled names.\<close>

theorem mangle_roundtrip:
  assumes "CHR ''.'' \<notin> set name" "CHR ''.'' \<notin> set name'"
  shows "function_demangle (function_mangle module name loc) = Ok name \<and>
    class_demangle (class_mangle module name loc) = Ok name \<and>
    (function_mangle module name loc = function_mangle module' name' loc' \<longleftrightarrow>
      (module, name, loc) = (module', name', loc'))"
proof (intro conjI)
  have "CHR ''.'' \<notin> set (''__class__'' @ name @ ''__'')" using assms(1) by simp
  from function_demangle_mangle [OF this, of module loc]
  show "class_demangle (class_mangle module name loc) = Ok name"
    by (simp add: class_demangle_def class_mangle_function starts_with_def ends_with_def assert_that_def)
  show "function_mangle module name loc = function_mangle module' name' loc' \<longleftrightarrow>
      (module, name, loc) = (module', name', loc')"
    using function_mangle_inj [OF assms, of module loc module' loc'] by blast
qed (rule function_demangle_mangle [OF assms(1)])

theorem mangle_roundtrip_witness:
  "function_demangle (function_mangle ''main.A'' ''f'' (12, 4)) = Ok ''f''"
  using mangle_roundtrip [of "''f''" "''g''" "''main.A''" "(12, 4)" "[]" "(0, 0)"] by simp

end
