(* ===== verification/Resolver.thy ===== *)
theory Resolver
  imports Mangler
begin

text \<open>
  The resolution of names (\<^verbatim>\<open>VariablesResolver\<close>,
  \<^verbatim>\<open>src/src/executable/bytecode/codegen/VariablesResolver.cpp\<close> and \<^verbatim>\<open>.hpp\<close>) over the syntax tree
  of \<^verbatim>\<open>src/src/ast/AST.hpp\<close>. A scope is a position in a list, the module is scope 0. A program that
  \<^verbatim>\<open>std::abort()\<close>s with a syntax error ends with \<open>Abort Todo\<close>.
\<close>

section \<open>The syntax tree\<close>

text \<open>Operators, constants, annotations and the name of an attribute are left out: the resolver does
  not read them. \<open>kw_defaults\<close> may have gaps.\<close>

datatype context_type = LOAD | STORE | DELETE | UNSET

type_synonym argument = "location \<times> string"

datatype node =
  Name location context_type "string list"
| Constant
| Attribute node
| Assign "node list" node
| Assert node "node option"
| AugAssign node node
| BinaryExpr node node
| BoolOp "node list"
| Call node "node list" "node list"
| ClassDefinition location string "node list" "node list" "node list" "node list"
| Compare node "node list"
| Delete "node list"
| Dict_expr "(node option \<times> node) list"
| ExceptHandler location string "node option" "node list"
| For node node "node list" "node list"
| FunctionDefinition location string arguments "node list" "node list" "node option"
| Lambda location arguments node
| Global location "string list"
| NonLocal location "string list"
| If_stmt node "node list" "node list"
| IfExpr node node node
| Import location "(string \<times> string) list"
| ImportFrom location "(string \<times> string) list"
| Keyword location "string option" node
| Elements "node list"
| Tuple_expr "node list"
| NamedExpr node node
| Nothing
| Raise "node option" "node option"
| Return "node option"
| Yield node
| Operand node
| Subscript "node option list" node
| Try "node list" "node list" "node list" "node list"
| While node "node list" "node list"
| With "node list" "node list"
| WithItem node "node option"
| Expression node
| FormattedValue node "node option"
| ListComp location node "comprehension list"
| SetComp location node "comprehension list"
| GeneratorExp location node "comprehension list"
| DictComp location node node "comprehension list"
and arguments =
  Arguments "argument list" "argument list" "argument list" "argument option" "argument option"
    "node list" "node option list"
and comprehension = Comprehension node node "node list"

text \<open>
  \<open>Elements\<close> stands for \<^verbatim>\<open>List\<close>, \<^verbatim>\<open>Set\<close> and \<^verbatim>\<open>JoinedStr\<close>, whose elements are visited in
  order, \<open>Operand\<close> for \<^verbatim>\<open>UnaryExpr\<close>, \<^verbatim>\<open>Starred\<close> and \<^verbatim>\<open>Await\<close>, and \<open>Nothing\<close> for \<^verbatim>\<open>Pass\<close>, \<^verbatim>\<open>Break\<close> and
  \<^verbatim>\<open>Continue\<close>. \<^verbatim>\<open>AsyncFunctionDefinition\<close> is visited as \<^verbatim>\<open>FunctionDefinition\<close>, \<^verbatim>\<open>YieldFrom\<close> as
  \<^verbatim>\<open>Yield\<close>. The fields of a function are its arguments, body, decorators and return annotation, those
  of a class its bases, keywords, body and decorators. Arguments are positional-only, ordinary,
  keyword-only, \<^verbatim>\<open>*args\<close>, \<^verbatim>\<open>**kwargs\<close>, and the defaults. An import has its names with the
  alternative names, empty if there is none. A subscript has the parts of its index in order.
  A dictionary has its keys, with gaps for unpacked ones, each with its value; the parser makes both
  lists equally long.
\<close>

datatype work = Visit_node node | Visit_arguments arguments | Visit_comprehension comprehension

section \<open>Symbols\<close>

datatype visibility = IMPLICIT_GLOBAL | EXPLICIT_GLOBAL | NAME | LOCAL | CELL | FREE | HIDDEN

record symbol =
  symbol_name :: string
  visibility_of :: visibility
  symbol_location :: location

type_synonym symbol_map = "symbol list"

definition symbol :: "string \<Rightarrow> visibility \<Rightarrow> location \<Rightarrow> symbol" where
  "symbol name v loc = \<lparr>symbol_name = name, visibility_of = v, symbol_location = loc\<rparr>"

definition get_symbol :: "string \<Rightarrow> symbol_map \<Rightarrow> symbol option" where
  "get_symbol name m = find (\<lambda>s. symbol_name s = name) m"

definition contains :: "string \<Rightarrow> symbol_map \<Rightarrow> bool" where
  "contains name m \<longleftrightarrow> get_symbol name m \<noteq> None"

definition get_hidden_symbol :: "string \<Rightarrow> symbol_map \<Rightarrow> symbol option" where
  "get_hidden_symbol name m = find (\<lambda>s. symbol_name s = name \<and> visibility_of s = HIDDEN) m"

definition get_visible_symbol :: "string \<Rightarrow> symbol_map \<Rightarrow> symbol option" where
  "get_visible_symbol name m = find (\<lambda>s. symbol_name s = name \<and> visibility_of s \<noteq> HIDDEN) m"

definition add_symbol :: "symbol \<Rightarrow> symbol_map \<Rightarrow> symbol_map" where
  "add_symbol s m =
     (if (if visibility_of s = HIDDEN then get_hidden_symbol (symbol_name s) m
          else get_visible_symbol (symbol_name s) m) \<noteq> None
      then m else m @ [s])"

text \<open>The first symbol of the name is erased, whatever its visibility is.\<close>

fun delete_symbol :: "string \<Rightarrow> symbol_map \<Rightarrow> symbol_map" where
  "delete_symbol name [] = []"
| "delete_symbol name (s # m) = (if symbol_name s = name then m else s # delete_symbol name m)"

section \<open>Scopes\<close>

datatype scope_type = MODULE | FUNCTION | CLASS | CLOSURE

record scope =
  scope_name :: string
  namespace :: string
  scope_type :: scope_type
  parent :: "nat option"
  children :: "nat list"
  captures :: "string list"
  symbol_map :: symbol_map
  is_generator :: bool
  requires_class_ref :: bool

record resolver =
  visibility_map :: "string \<rightharpoonup> nat"
  scopes :: "scope list"
  to_visit :: "(nat \<times> work) list"
  current :: nat

abbreviation current_scope :: "resolver \<Rightarrow> scope" where
  "current_scope r \<equiv> scopes r ! current r"

definition update_scope :: "nat \<Rightarrow> (scope \<Rightarrow> scope) \<Rightarrow> resolver \<Rightarrow> resolver" where
  "update_scope i f r = r\<lparr>scopes := (scopes r)[i := f (scopes r ! i)]\<rparr>"

definition add_to :: "nat \<Rightarrow> symbol \<Rightarrow> resolver \<Rightarrow> resolver" where
  "add_to i s = update_scope i (\<lambda>sc. sc\<lparr>symbol_map := add_symbol s (symbol_map sc)\<rparr>)"

definition delete_from :: "nat \<Rightarrow> string \<Rightarrow> resolver \<Rightarrow> resolver" where
  "delete_from i name = update_scope i (\<lambda>sc. sc\<lparr>symbol_map := delete_symbol name (symbol_map sc)\<rparr>)"

definition visible_in :: "resolver \<Rightarrow> nat \<Rightarrow> string \<Rightarrow> symbol option" where
  "visible_in r i name = get_visible_symbol name (symbol_map (scopes r ! i))"

text \<open>The scopes around a scope, from the inside out. Parents stand before their children; the second
  argument is a bound for their number.\<close>

fun outer_scopes :: "resolver \<Rightarrow> nat \<Rightarrow> nat \<Rightarrow> nat list" where
  "outer_scopes r 0 i = []"
| "outer_scopes r (Suc n) i =
     (case parent (scopes r ! i) of None \<Rightarrow> [] | Some p \<Rightarrow> p # outer_scopes r n p)"

definition ancestors :: "resolver \<Rightarrow> nat list" where
  "ancestors r = outer_scopes r (current r) (current r)"

section \<open>Free and cell variables\<close>

definition top_level_node :: "string \<Rightarrow> resolver \<Rightarrow> nat option" where
  "top_level_node name r =
     find (\<lambda>i. visible_in r i name \<noteq> None) (takeWhile (\<lambda>i. parent (scopes r ! i) \<noteq> None) (ancestors r))"

definition mark_free :: "string \<Rightarrow> nat \<Rightarrow> resolver \<Rightarrow> resolver" where
  "mark_free name i =
     update_scope i (\<lambda>sc. sc\<lparr>symbol_map := add_symbol (symbol name FREE (0, 0)) (symbol_map sc),
       captures := List.insert name (captures sc)\<rparr>)"

definition make_cell :: "string \<Rightarrow> nat \<Rightarrow> resolver \<Rightarrow> resolver py_result" where
  "make_cell name i r =
     (case visible_in r i name of
        None \<Rightarrow> Abort Assertion
      | Some s \<Rightarrow>
          if visibility_of s = FREE then Ok r
          else Ok (add_to i (symbol name CELL (symbol_location s)) (delete_from i name r)))"

definition annotate_free_and_cell_variables :: "string \<Rightarrow> resolver \<Rightarrow> resolver py_result" where
  "annotate_free_and_cell_variables name r =
     (case top_level_node name r of
        None \<Rightarrow> Ok (add_to (current r) (symbol name IMPLICIT_GLOBAL (0, 0)) r)
      | Some top_node \<Rightarrow>
          make_cell name top_node
            (fold (mark_free name) (takeWhile (\<lambda>i. i \<noteq> top_node) (current r # ancestors r)) r))"

section \<open>Storing, deleting and loading a name\<close>

text \<open>What a name that is assigned in a closure becomes: the nearest scope around it that has the
  name decides.\<close>

definition nearest :: "string \<Rightarrow> resolver \<Rightarrow> visibility option" where
  "nearest name r =
     (case find (\<lambda>i. visible_in r i name \<noteq> None) (ancestors r) of
        None \<Rightarrow> None
      | Some i \<Rightarrow> map_option visibility_of (visible_in r i name))"

definition store_in_closure :: "string \<Rightarrow> location \<Rightarrow> resolver \<Rightarrow> resolver py_result" where
  "store_in_closure name loc r =
     (if contains name (symbol_map (current_scope r)) then Ok r
      else case nearest name r of
        Some CELL \<Rightarrow> annotate_free_and_cell_variables name r
      | Some IMPLICIT_GLOBAL \<Rightarrow> Ok r
      | Some EXPLICIT_GLOBAL \<Rightarrow> Ok r
      | Some FREE \<Rightarrow> Ok r
      | _ \<Rightarrow> Ok (add_to (current r) (symbol name LOCAL loc) r))"

definition store_in_function :: "string \<Rightarrow> location \<Rightarrow> resolver \<Rightarrow> resolver" where
  "store_in_function name loc r =
     (case get_symbol name (symbol_map (current_scope r)) of
        Some s \<Rightarrow>
          if visibility_of s = IMPLICIT_GLOBAL
          then add_to (current r) (symbol name LOCAL loc) (delete_from (current r) name r)
          else r
      | None \<Rightarrow> add_to (current r) (symbol name LOCAL loc) r)"

definition add_unless_there :: "visibility \<Rightarrow> string \<Rightarrow> location \<Rightarrow> resolver \<Rightarrow> resolver" where
  "add_unless_there v name loc r =
     (if contains name (symbol_map (current_scope r)) then r else add_to (current r) (symbol name v loc) r)"

definition store :: "string \<Rightarrow> location \<Rightarrow> scope_type \<Rightarrow> resolver \<Rightarrow> resolver py_result" where
  "store name loc ty r =
     (case ty of
        MODULE \<Rightarrow> Ok (add_unless_there IMPLICIT_GLOBAL name loc r)
      | FUNCTION \<Rightarrow> Ok (store_in_function name loc r)
      | CLOSURE \<Rightarrow> store_in_closure name loc r
      | CLASS \<Rightarrow> Ok (add_unless_there HIDDEN name loc r))"

definition delete_name :: "string \<Rightarrow> location \<Rightarrow> scope_type \<Rightarrow> resolver \<Rightarrow> resolver py_result" where
  "delete_name name loc ty r =
     (case ty of
        MODULE \<Rightarrow> Ok (add_unless_there IMPLICIT_GLOBAL name loc r)
      | FUNCTION \<Rightarrow> Ok (store_in_function name loc r)
      | CLOSURE \<Rightarrow> store_in_closure name loc r
      | CLASS \<Rightarrow> Ok (add_unless_there HIDDEN name loc r))"

definition find_outer_class :: "resolver \<Rightarrow> nat option" where
  "find_outer_class r = find (\<lambda>i. scope_type (scopes r ! i) = CLASS) (ancestors r)"

text \<open>The nearest scope that decides about a name that is read; the module knows names that are only
  read, which do not count.\<close>

definition load_from_outside :: "string \<Rightarrow> location \<Rightarrow> resolver \<Rightarrow> resolver py_result" where
  "load_from_outside name loc r =
     (case find (\<lambda>i. case visible_in r i name of None \<Rightarrow> False | Some s \<Rightarrow> visibility_of s \<noteq> NAME) (ancestors r) of
        None \<Rightarrow> Ok (add_to (current r) (symbol name IMPLICIT_GLOBAL loc) r)
      | Some i \<Rightarrow>
          (case map_option visibility_of (visible_in r i name) of
             Some EXPLICIT_GLOBAL \<Rightarrow> Ok (add_to (current r) (symbol name EXPLICIT_GLOBAL loc) r)
           | Some IMPLICIT_GLOBAL \<Rightarrow> Ok (add_to (current r) (symbol name IMPLICIT_GLOBAL loc) r)
           | _ \<Rightarrow> annotate_free_and_cell_variables name r))"

definition load_plain :: "string \<Rightarrow> location \<Rightarrow> scope_type \<Rightarrow> resolver \<Rightarrow> resolver py_result" where
  "load_plain name loc ty r =
     (case ty of
        MODULE \<Rightarrow> Ok (add_to (current r) (symbol name NAME loc) r)
      | FUNCTION \<Rightarrow> Ok (add_to (current r) (symbol name IMPLICIT_GLOBAL loc) r)
      | _ \<Rightarrow> load_from_outside name loc r)"

text \<open>In a scope inside a class, \<^verbatim>\<open>super\<close> also reads \<^verbatim>\<open>__class__\<close>, whose cell is in the class.\<close>

definition load_class :: "nat \<Rightarrow> location \<Rightarrow> resolver \<Rightarrow> resolver py_result" where
  "load_class cls loc r =
     and_then (annotate_free_and_cell_variables ''__class__'' (update_scope cls (\<lambda>sc. sc\<lparr>requires_class_ref := True\<rparr>) r))
       (\<lambda>r. Ok (if get_hidden_symbol ''__classcell__'' (symbol_map (scopes r ! cls)) = None
                then add_to cls (symbol ''__classcell__'' HIDDEN loc) r else r))"

definition load :: "string \<Rightarrow> location \<Rightarrow> scope_type \<Rightarrow> resolver \<Rightarrow> resolver py_result" where
  "load name loc ty r =
     (if contains name (symbol_map (current_scope r)) then Ok r
      else case find_outer_class r of
        None \<Rightarrow> load_plain name loc ty r
      | Some cls \<Rightarrow>
          if name = ''__class__'' then load_class cls loc r
          else if name = ''super''
          then and_then
                 (if contains ''__class__'' (symbol_map (current_scope r))
                  then Ok (update_scope cls (\<lambda>sc. sc\<lparr>requires_class_ref := True\<rparr>) r)
                  else load_class cls loc r)
                 (load_plain name loc ty)
          else load_plain name loc ty r)"

section \<open>New scopes\<close>

text \<open>A second scope of the same name: an assertion for functions, lambdas and classes. A
  comprehension replaces and destroys a scope that the queue still refers to.\<close>

definition new_scope :: "string \<Rightarrow> string \<Rightarrow> scope_type \<Rightarrow> resolver \<Rightarrow> scope" where
  "new_scope name ns ty r =
     \<lparr>scope_name = name, namespace = ns, scope_type = ty, parent = Some (current r), children = [], captures = [],
      symbol_map = [], is_generator = False, requires_class_ref = False\<rparr>"

definition open_scope :: "fault \<Rightarrow> string \<Rightarrow> string \<Rightarrow> scope_type \<Rightarrow> resolver \<Rightarrow> resolver py_result" where
  "open_scope taken name ns ty r =
     (if visibility_map r name \<noteq> None then Abort taken
      else Ok (r\<lparr>visibility_map := (visibility_map r)(name \<mapsto> length (scopes r)),
                 scopes := scopes r @ [new_scope name ns ty r], current := length (scopes r)\<rparr>))"

definition register_child :: "nat \<Rightarrow> nat \<Rightarrow> resolver \<Rightarrow> resolver" where
  "register_child caller i = update_scope caller (\<lambda>sc. sc\<lparr>children := children sc @ [i]\<rparr>)"

definition enqueue :: "work list \<Rightarrow> resolver \<Rightarrow> resolver" where
  "enqueue ws r = r\<lparr>to_visit := to_visit r @ map (Pair (current r)) ws\<rparr>"

definition set_current :: "nat \<Rightarrow> resolver \<Rightarrow> resolver" where
  "set_current i r = r\<lparr>current := i\<rparr>"

text \<open>The type of the scope of a function, and that of a lambda or a comprehension: the latter are
  functions in a class.\<close>

definition function_type :: "scope_type \<Rightarrow> scope_type" where
  "function_type caller = (if caller \<in> {FUNCTION, CLOSURE, CLASS} then CLOSURE else FUNCTION)"

definition inline_type :: "scope_type \<Rightarrow> scope_type" where
  "inline_type caller = (if caller \<in> {FUNCTION, CLOSURE} then CLOSURE else FUNCTION)"

definition function_scope ::
  "fault \<Rightarrow> string \<Rightarrow> location \<Rightarrow> (scope_type \<Rightarrow> scope_type) \<Rightarrow> work list \<Rightarrow> resolver \<Rightarrow> resolver py_result" where
  "function_scope taken name loc type_in ws r =
     (let ns = namespace (current_scope r) in
      and_then (open_scope taken (function_mangle ns name loc) (ns @ ''.'' @ name)
                 (type_in (scope_type (current_scope r))) r)
        (\<lambda>r'. Ok (set_current (current r)
           (enqueue ws (register_child (current r) (current r') r')))))"

definition class_scope :: "string \<Rightarrow> location \<Rightarrow> work list \<Rightarrow> resolver \<Rightarrow> resolver py_result" where
  "class_scope name loc ws r =
     (let ns = namespace (current_scope r) in
      and_then (open_scope Assertion (class_mangle ns name loc) (ns @ ''.'' @ name) CLASS r) (\<lambda>r1.
      and_then (load ''__name__'' loc CLASS (add_to (current r1) (symbol ''__class__'' CELL loc) r1)) (\<lambda>r2.
      and_then (store ''__module__'' loc CLASS r2) (\<lambda>r3.
      and_then (store ''__qualname__'' loc CLASS r3) (\<lambda>r4.
        Ok (set_current (current r) (enqueue ws r4)))))))"

section \<open>Visiting\<close>

definition add_argument :: "argument \<Rightarrow> resolver \<Rightarrow> resolver py_result" where
  "add_argument a r =
     assert_that (visible_in r (current r) (snd a) = None) (Ok (add_to (current r) (symbol (snd a) LOCAL (fst a)) r))"

fun each :: "('a \<Rightarrow> resolver \<Rightarrow> resolver py_result) \<Rightarrow> 'a list \<Rightarrow> resolver \<Rightarrow> resolver py_result" where
  "each f [] r = Ok r"
| "each f (x # xs) r = and_then (f x r) (each f xs)"

definition visit_arguments :: "arguments \<Rightarrow> resolver \<Rightarrow> resolver py_result" where
  "visit_arguments a =
     (case a of Arguments posonly args kwonly vararg kwarg defaults kw_defaults \<Rightarrow>
        each add_argument (posonly @ args @ kwonly @ case_option [] (\<lambda>x. [x]) vararg @ case_option [] (\<lambda>x. [x]) kwarg))"

definition declare_global :: "location \<Rightarrow> string \<Rightarrow> resolver \<Rightarrow> resolver py_result" where
  "declare_global loc name r =
     (case map_option visibility_of (visible_in r (current r) name) of
        Some NAME \<Rightarrow> Abort Todo
      | Some LOCAL \<Rightarrow> Abort Todo
      | Some CELL \<Rightarrow> Abort Todo
      | Some FREE \<Rightarrow> Abort Todo
      | _ \<Rightarrow> Ok (add_to (current r) (symbol name EXPLICIT_GLOBAL loc) r))"

definition declare_nonlocal :: "string \<Rightarrow> resolver \<Rightarrow> resolver py_result" where
  "declare_nonlocal name r =
     (case map_option visibility_of (visible_in r (current r) name) of
        Some EXPLICIT_GLOBAL \<Rightarrow> Abort Todo
      | Some NAME \<Rightarrow> Abort Todo
      | Some LOCAL \<Rightarrow> Abort Todo
      | Some CELL \<Rightarrow> Abort Todo
      | Some FREE \<Rightarrow> Abort Todo
      | _ \<Rightarrow> annotate_free_and_cell_variables name r)"

text \<open>The name an import binds: before the first dot for \<^verbatim>\<open>import\<close>, behind it for \<^verbatim>\<open>from\<close>.\<close>

definition imported_name :: "string \<times> string \<Rightarrow> string" where
  "imported_name n = (if snd n \<noteq> [] then snd n else takeWhile (\<lambda>c. c \<noteq> CHR ''.'') (fst n))"

definition imported_from_name :: "string \<times> string \<Rightarrow> string" where
  "imported_from_name n =
     (if snd n \<noteq> [] then snd n
      else case dropWhile (\<lambda>c. c \<noteq> CHR ''.'') (fst n) of [] \<Rightarrow> fst n | _ # rest \<Rightarrow> rest)"

definition store_here :: "location \<Rightarrow> string \<Rightarrow> resolver \<Rightarrow> resolver py_result" where
  "store_here loc name r = store name loc (scope_type (current_scope r)) r"

definition load_here :: "location \<Rightarrow> string \<Rightarrow> resolver \<Rightarrow> resolver py_result" where
  "load_here loc name r = load name loc (scope_type (current_scope r)) r"

definition delete_here :: "location \<Rightarrow> string \<Rightarrow> resolver \<Rightarrow> resolver py_result" where
  "delete_here loc name r = delete_name name loc (scope_type (current_scope r)) r"

definition visit_name :: "location \<Rightarrow> context_type \<Rightarrow> string list \<Rightarrow> resolver \<Rightarrow> resolver py_result" where
  "visit_name loc ctx ids =
     (case ctx of
        LOAD \<Rightarrow> each (load_here loc) ids
      | STORE \<Rightarrow> each (store_here loc) ids
      | DELETE \<Rightarrow> each (delete_here loc) ids
      | UNSET \<Rightarrow> Ok)"

definition mark_generator :: "resolver \<Rightarrow> resolver py_result" where
  "mark_generator r =
     assert_that (scope_type (current_scope r) \<in> {FUNCTION, CLOSURE})
       (Ok (update_scope (current r) (\<lambda>sc. sc\<lparr>is_generator := True\<rparr>) r))"

definition comprehension_scope ::
  "string \<Rightarrow> location \<Rightarrow> comprehension list \<Rightarrow> node list \<Rightarrow> resolver \<Rightarrow> resolver py_result" where
  "comprehension_scope name loc generators results =
     function_scope Undefined name loc inline_type (map Visit_comprehension generators @ map Visit_node results)"

text \<open>Steps one after the other, and a step that may be missing.\<close>

type_synonym step = "resolver \<Rightarrow> resolver py_result"

fun steps :: "step list \<Rightarrow> step" where
  "steps [] r = Ok r"
| "steps (f # fs) r = and_then (f r) (steps fs)"

definition optional :: "step option \<Rightarrow> step" where
  "optional f = case_option Ok id f"

definition item :: "step option \<times> step \<Rightarrow> step" where
  "item kv = steps [optional (fst kv), snd kv]"

text \<open>A keyword argument without a name: its value is visited twice, a name is loaded first. (The code
  visits the object of an attribute, as the visit of an attribute does.)\<close>

definition unnamed_keyword :: "location \<Rightarrow> node \<Rightarrow> step \<Rightarrow> step" where
  "unnamed_keyword loc v visit_value r =
     (case v of
        Name _ _ ids \<Rightarrow> assert_that (length ids = 1) (load_here loc (hd ids) r)
      | _ \<Rightarrow> visit_value r)"

primrec visit :: "node \<Rightarrow> step"
  and visit_defaults :: "arguments \<Rightarrow> step"
  and visit_iter :: "comprehension \<Rightarrow> step" where
  "visit (Name loc ctx ids) = visit_name loc ctx ids"
| "visit Constant = Ok"
| "visit (Attribute v) = visit v"
| "visit (Assign targets v) = steps (visit v # map visit targets)"
| "visit (Assert test msg) = steps [visit test, optional (map_option visit msg)]"
| "visit (AugAssign target v) = steps [visit target, visit v]"
| "visit (BinaryExpr lhs rhs) = steps [visit lhs, visit rhs]"
| "visit (BoolOp vs) = steps (map visit vs)"
| "visit (Call f args keywords) = steps (visit f # map visit args @ map visit keywords)"
| "visit (ClassDefinition loc name bases keywords body decorators) =
     steps (map visit decorators @ [store_here loc name] @ map visit bases @ map visit keywords @
       [class_scope name loc (map Visit_node body)])"
| "visit (Compare lhs comparators) = steps (visit lhs # map visit comparators)"
| "visit (Delete targets) = steps (map visit targets)"
| "visit (Dict_expr items) = steps (map item (map (map_prod (map_option visit) visit) items))"
| "visit (ExceptHandler loc name type body) =
     steps ((if name \<noteq> [] then load_here loc name else Ok) # optional (map_option visit type) # map visit body)"
| "visit (For target iter body orelse) = steps (visit iter # visit target # map visit body @ map visit orelse)"
| "visit (FunctionDefinition loc name args body decorators ret) =
     steps (map visit decorators @
       [store_here loc name, optional (map_option visit ret), visit_defaults args,
        function_scope Assertion name loc function_type (Visit_arguments args # map Visit_node body)])"
| "visit (Lambda loc args body) =
     steps [visit_defaults args,
       function_scope Assertion ''<lambda>'' loc inline_type [Visit_arguments args, Visit_node body]]"
| "visit (Global loc names) = each (declare_global loc) names"
| "visit (NonLocal loc names) = each declare_nonlocal names"
| "visit (If_stmt test body orelse) = steps (visit test # map visit body @ map visit orelse)"
| "visit (IfExpr test body orelse) = steps [visit test, visit body, visit orelse]"
| "visit (Import loc names) = each (\<lambda>n. store_here loc (imported_name n)) names"
| "visit (ImportFrom loc names) = each (\<lambda>n. store_here loc (imported_from_name n)) names"
| "visit (Keyword loc arg v) =
     steps [case arg of Some name \<Rightarrow> load_here loc name | None \<Rightarrow> unnamed_keyword loc v (visit v), visit v]"
| "visit (Elements es) = steps (map visit es)"
| "visit (Tuple_expr es) = steps (map visit es)"
| "visit (NamedExpr target v) = steps [visit v, visit target]"
| "visit Nothing = Ok"
| "visit (Raise exception cause) = steps [optional (map_option visit exception), optional (map_option visit cause)]"
| "visit (Return v) = optional (map_option visit v)"
| "visit (Yield v) = steps [mark_generator, visit v]"
| "visit (Operand v) = visit v"
| "visit (Subscript index v) = steps (map optional (map (map_option visit) index) @ [visit v])"
| "visit (Try body handlers orelse finalbody) =
     steps (map visit body @ map visit handlers @ map visit finalbody @ map visit orelse)"
| "visit (While test body orelse) = steps (visit test # map visit body @ map visit orelse)"
| "visit (With items body) = steps (map visit items @ map visit body)"
| "visit (WithItem context_expr optional_vars) = steps [visit context_expr, optional (map_option visit optional_vars)]"
| "visit (Expression v) = Ok"
| "visit (FormattedValue v format_spec) = steps [visit v, optional (map_option visit format_spec)]"
| "visit (ListComp loc elt generators) =
     steps (store_here loc ''<listcomp>'' # map visit_iter generators @
       [comprehension_scope ''<listcomp>'' loc generators [elt]])"
| "visit (SetComp loc elt generators) =
     steps (store_here loc ''<setcomp>'' # map visit_iter generators @
       [comprehension_scope ''<setcomp>'' loc generators [elt]])"
| "visit (GeneratorExp loc elt generators) =
     steps (store_here loc ''<genexpr>'' # map visit_iter generators @
       [comprehension_scope ''<genexpr>'' loc generators [elt]])"
| "visit (DictComp loc key v generators) =
     steps (store_here loc ''<dictcomp>'' # map visit_iter generators @
       [comprehension_scope ''<dictcomp>'' loc generators [key, v]])"
| "visit_defaults (Arguments posonly args kwonly vararg kwarg defaults kw_defaults) =
     steps (map visit defaults @ map optional (map (map_option visit) kw_defaults))"
| "visit_iter (Comprehension target iter ifs) = visit iter"

text \<open>The targets of a comprehension are local to it.\<close>

fun add_target :: "node \<Rightarrow> resolver \<Rightarrow> resolver py_result" where
  "add_target (Name loc ctx [name]) r = Ok (add_to (current r) (symbol name LOCAL loc) r)"
| "add_target _ r = Abort Assertion"

definition visit_comprehension :: "comprehension \<Rightarrow> resolver \<Rightarrow> resolver py_result" where
  "visit_comprehension g r =
     (case g of Comprehension target iter ifs \<Rightarrow>
        and_then
          (case target of
             Name _ _ _ \<Rightarrow> add_target target r
           | Tuple_expr es \<Rightarrow> each add_target es r
           | _ \<Rightarrow> Abort Todo)
          (steps (map visit ifs)))"

definition visit_work :: "work \<Rightarrow> resolver \<Rightarrow> resolver py_result" where
  "visit_work w =
     (case w of
        Visit_node n \<Rightarrow> visit n
      | Visit_arguments a \<Rightarrow> visit_arguments a
      | Visit_comprehension g \<Rightarrow> visit_comprehension g)"

section \<open>The queue\<close>

definition visit_next :: "resolver \<Rightarrow> resolver py_result" where
  "visit_next r =
     (case to_visit r of
        [] \<Rightarrow> Ok r
      | (i, w) # rest \<Rightarrow> visit_work w (r\<lparr>to_visit := rest, current := i\<rparr>))"

text \<open>The loop; \<open>None\<close> if it does not end.\<close>

partial_function (option) visit_all :: "resolver \<Rightarrow> resolver py_result option" where
  "visit_all r =
     (if to_visit r = [] then Some (Ok r)
      else case visit_next r of
        Ok r' \<Rightarrow> visit_all r'
      | Err e \<Rightarrow> Some (Err e)
      | Abort a \<Rightarrow> Some (Abort a))"

declare visit_all.simps [code]

definition module_scope :: "string \<Rightarrow> scope" where
  "module_scope module_name =
     \<lparr>scope_name = module_name, namespace = module_name, scope_type = MODULE, parent = None, children = [],
      captures = [], symbol_map = [], is_generator = False, requires_class_ref = False\<rparr>"

definition module_start :: "string \<Rightarrow> location \<Rightarrow> node list \<Rightarrow> resolver py_result" where
  "module_start module_name loc body =
     and_then
       (store ''__name__'' loc MODULE
          \<lparr>visibility_map = [module_name \<mapsto> 0], scopes = [module_scope module_name], to_visit = [], current = 0\<rparr>)
       (\<lambda>r. Ok (enqueue (map Visit_node body) r))"

definition resolve :: "string \<Rightarrow> location \<Rightarrow> node list \<Rightarrow> resolver py_result option" where
  "resolve module_name loc body =
     (case module_start module_name loc body of
        Ok r \<Rightarrow> visit_all r
      | Err e \<Rightarrow> Some (Err e)
      | Abort a \<Rightarrow> Some (Abort a))"

end
