(* ===== verification/Resolver_Props.thy ===== *)
theory Resolver_Props
  imports Resolver "HOL-Library.Multiset"
begin

text \<open>
  The resolution of names ends for every program, and every free variable leads through the scopes
  around it to the cell of an enclosing function.
\<close>

section \<open>What every visit has, if its steps have it\<close>

fun work_size :: "work \<Rightarrow> nat" where
  "work_size (Visit_node n) = size n"
| "work_size (Visit_arguments a) = size a"
| "work_size (Visit_comprehension g) = size g"

text \<open>The parts of a node are smaller.\<close>

lemma node_member: "x \<in> set xs \<Longrightarrow> size (x :: node) < size_list size xs"
  by (induction xs) auto

lemma generator_member: "g \<in> set gs \<Longrightarrow> size (g :: comprehension) < size_list size gs"
  by (induction gs) auto

lemma option_member: "Some x \<in> set os \<Longrightarrow> size (x :: node) < size_list (size_option size) os"
  by (induction os) auto

lemma item_member:
  "(m, x) \<in> set ps \<Longrightarrow>
   size (x :: node) < size_list (size_prod (size_option size) size) ps \<and>
   size_option size (m :: node option) < size_list (size_prod (size_option size) size) ps"
  by (induction ps) auto

lemmas members = node_member generator_member option_member item_member

lemma steps_one: "steps [f] = f"
proof
  fix r
  have "steps [] = Ok" by (simp add: fun_eq_iff)
  then show "steps [f] r = f r" by simp
qed

declare steps.simps [simp del]

locale step_property =
  fixes P :: "nat \<Rightarrow> step \<Rightarrow> bool"
  assumes mono: "P k f \<Longrightarrow> k \<le> l \<Longrightarrow> P l f"
    and skip: "P k Ok"
    and fail: "P k (\<lambda>_. Abort a)"
    and sequence: "(\<And>f. f \<in> set fs \<Longrightarrow> P k f) \<Longrightarrow> P k (steps fs)"
    and store: "P k (store_here loc name)"
    and load: "P k (load_here loc name)"
    and delete: "P k (delete_here loc name)"
    and global: "P k (declare_global loc name)"
    and nonlocal: "P k (declare_nonlocal name)"
    and generator: "P k mark_generator"
    and function_scope: "(\<And>w. w \<in> set ws \<Longrightarrow> work_size w < k) \<Longrightarrow> ty \<in> {function_type, inline_type} \<Longrightarrow>
      P k (function_scope taken name loc ty ws)"
    and class_scope: "(\<And>n. n \<in> set ns \<Longrightarrow> size n < k) \<Longrightarrow> P k (class_scope name loc (map Visit_node ns))"
begin

lemma each: "(\<And>x. x \<in> set xs \<Longrightarrow> P k (f x)) \<Longrightarrow> P k (each f xs)"
proof -
  have "each f xs r = steps (map f xs) r" for r
    by (induction xs arbitrary: r) (auto simp: steps.simps cong: and_then_cong)
  then have "each f xs = steps (map f xs)" by blast
  then show "(\<And>x. x \<in> set xs \<Longrightarrow> P k (f x)) \<Longrightarrow> P k (each f xs)" using sequence [of "map f xs" k] by auto
qed

lemma guarded: "P k f \<Longrightarrow> P k (\<lambda>r. assert_that c (f r))"
  using fail [of k Assertion] by (cases c) (simp_all add: assert_that_def)

lemma visit_name: "P k (visit_name loc ctx ids)"
  by (cases ctx) (simp_all add: visit_name_def each store load delete skip)

lemma unnamed_keyword: "P k f \<Longrightarrow> P k (unnamed_keyword loc v f)"
  unfolding unnamed_keyword_def
  by (cases v) (simp_all add: guarded load)

lemma optional: "(\<And>f. s = Some f \<Longrightarrow> P k f) \<Longrightarrow> P k (optional s)"
  by (cases s) (simp_all add: optional_def skip)

lemma visit_defaults_below:
  assumes "\<And>n. size n < k \<Longrightarrow> P k (visit n)" "size a \<le> k"
  shows "P k (visit_defaults a)"
  using assms(2) by (cases a) (auto intro!: sequence optional assms(1) dest!: members)

lemma visit_iter_below:
  assumes "\<And>n. size n < k \<Longrightarrow> P k (visit n)" "size g \<le> k"
  shows "P k (visit_iter g)"
  using assms(2) by (cases g) (auto intro!: assms(1))

lemma visit: "P (size n) (visit n)"
proof (induction "size n" arbitrary: n rule: less_induct)
  case less
  then have IH: "P (size n) (visit m)" if "size m < size n" for m using that mono by (meson less_imp_le)
  note defaults = visit_defaults_below [OF IH] and iter = visit_iter_below [OF IH]
  note steps = skip sequence visit_name each store load delete global nonlocal generator function_scope class_scope
    unnamed_keyword optional
  show ?case
    using IH defaults iter
    by (cases n) (auto intro!: steps simp: item_def comprehension_scope_def dest!: members split: option.split)
qed

end

section \<open>What is put into the queue is smaller\<close>

definition enqueues :: "nat \<Rightarrow> step \<Rightarrow> bool" where
  "enqueues k f \<longleftrightarrow>
     (\<forall>r r'. f r = Ok r' \<longrightarrow> (\<exists>new. to_visit r' = to_visit r @ new \<and> (\<forall>w \<in> snd ` set new. work_size w < k)))"

definition keeps_queue :: "step \<Rightarrow> bool" where
  "keeps_queue f \<longleftrightarrow> (\<forall>r r'. f r = Ok r' \<longrightarrow> to_visit r' = to_visit r)"

lemma update_scope_queue [simp]:
  "to_visit (update_scope i f r) = to_visit r" "to_visit (add_to i s r) = to_visit r"
  "to_visit (delete_from i name r) = to_visit r" "to_visit (mark_free name i r) = to_visit r"
  by (simp_all add: update_scope_def add_to_def delete_from_def mark_free_def)

lemma fold_mark_free_queue [simp]: "to_visit (fold (mark_free name) is r) = to_visit r"
  by (induction "is" arbitrary: r) simp_all

lemma annotate_queue: "annotate_free_and_cell_variables name r = Ok r' \<Longrightarrow> to_visit r' = to_visit r"
  by (auto simp: annotate_free_and_cell_variables_def make_cell_def split: option.splits if_splits)

lemma store_queue: "Resolver.store name loc ty r = Ok r' \<Longrightarrow> to_visit r' = to_visit r"
  by (auto simp: store_def store_in_closure_def store_in_function_def add_unless_there_def
      split: scope_type.splits if_splits option.splits visibility.splits dest: annotate_queue)

lemma delete_is_store: "delete_name = Resolver.store"
  by (simp add: fun_eq_iff delete_name_def store_def split: scope_type.split)

lemma load_plain_queue: "load_plain name loc ty r = Ok r' \<Longrightarrow> to_visit r' = to_visit r"
  by (auto simp: load_plain_def load_from_outside_def
      split: scope_type.splits option.splits visibility.splits dest: annotate_queue)

lemma load_class_queue: "load_class cls loc r = Ok r' \<Longrightarrow> to_visit r' = to_visit r"
  by (auto simp: load_class_def and_then_eq_Ok dest!: annotate_queue split: if_splits)

lemma load_queue: "Resolver.load name loc ty r = Ok r' \<Longrightarrow> to_visit r' = to_visit r"
  by (auto simp: load_def and_then_eq_Ok split: if_splits option.splits dest!: load_plain_queue load_class_queue)

lemma open_scope_queue: "open_scope taken name ns ty r = Ok r' \<Longrightarrow> to_visit r' = to_visit r"
  by (auto simp: open_scope_def split: if_splits)

lemma keeps_queue_enqueues: "keeps_queue f \<Longrightarrow> enqueues k f"
  by (fastforce simp: keeps_queue_def enqueues_def)

lemma enqueues_steps:
  assumes "\<And>f. f \<in> set fs \<Longrightarrow> enqueues k f"
  shows "enqueues k (steps fs)"
  using assms
proof (induction fs)
  case (Cons f fs)
  show ?case
    unfolding enqueues_def
  proof (intro allI impI)
    fix r r' assume "steps (f # fs) r = Ok r'"
    then obtain r1 where 1: "f r = Ok r1" "steps fs r1 = Ok r'" by (auto simp: steps.simps and_then_eq_Ok)
    have "enqueues k f" "enqueues k (steps fs)" using Cons by simp_all
    from this(1) 1(1) obtain new1 where new1: "to_visit r1 = to_visit r @ new1" "\<forall>w \<in> snd ` set new1. work_size w < k"
      unfolding enqueues_def by blast
    from \<open>enqueues k (steps fs)\<close> 1(2) obtain new2
      where "to_visit r' = to_visit r1 @ new2" "\<forall>w \<in> snd ` set new2. work_size w < k"
      unfolding enqueues_def by blast
    with new1 show "\<exists>new. to_visit r' = to_visit r @ new \<and> (\<forall>w \<in> snd ` set new. work_size w < k)"
      by (intro exI [of _ "new1 @ new2"]) auto
  qed
qed (simp add: enqueues_def steps.simps)

interpretation queue: step_property enqueues
proof
  fix k l f assume "enqueues k f" "k \<le> l"
  then show "enqueues l f" unfolding enqueues_def by (meson less_le_trans)
next
  fix ws k taken name loc ty
  assume "\<And>w. w \<in> set ws \<Longrightarrow> work_size w < k" "ty \<in> {function_type, inline_type}"
  then show "enqueues k (function_scope taken name loc ty ws)"
    unfolding enqueues_def function_scope_def Let_def
    by (auto simp: and_then_eq_Ok register_child_def set_current_def enqueue_def dest!: open_scope_queue)
next
  fix ns :: "node list" and k name loc assume "\<And>n. n \<in> set ns \<Longrightarrow> size n < k"
  then show "enqueues k (class_scope name loc (map Visit_node ns))"
    unfolding enqueues_def class_scope_def Let_def
    by (auto simp: and_then_eq_Ok set_current_def enqueue_def dest!: open_scope_queue store_queue load_queue)
next
  fix fs k assume "\<And>f. f \<in> set fs \<Longrightarrow> enqueues k f"
  then show "enqueues k (steps fs)" by (rule enqueues_steps)
qed (auto intro!: keeps_queue_enqueues simp: keeps_queue_def store_here_def load_here_def delete_here_def
    delete_is_store declare_global_def declare_nonlocal_def mark_generator_def assert_that_eq_Ok
    dest: store_queue load_queue annotate_queue split: option.splits visibility.splits)

text \<open>A step of the loop makes the queue smaller in the multiset order.\<close>

lemma each_keeps_queue: "(\<And>x. keeps_queue (f x)) \<Longrightarrow> keeps_queue (each f xs)"
  unfolding keeps_queue_def by (induction xs) (auto simp: and_then_eq_Ok)

lemma visit_work_enqueues: "enqueues (work_size w) (visit_work w)"
proof (cases w)
  case (Visit_node n)
  then show ?thesis using queue.visit by (simp add: visit_work_def)
next
  case (Visit_arguments a)
  have "keeps_queue (add_argument x)" for x by (auto simp: keeps_queue_def add_argument_def assert_that_eq_Ok)
  then have "keeps_queue (visit_arguments a)" by (auto simp: visit_arguments_def intro!: each_keeps_queue split: arguments.split)
  then show ?thesis using Visit_arguments by (simp add: visit_work_def keeps_queue_enqueues)
next
  case (Visit_comprehension g)
  obtain target iter ifs where g: "g = Comprehension target iter ifs" by (cases g)
  have "keeps_queue (add_target n)" for n unfolding keeps_queue_def by (auto elim!: add_target.elims)
  then have "keeps_queue (\<lambda>r. case target of Name _ _ _ \<Rightarrow> add_target target r | Tuple_expr es \<Rightarrow> each add_target es r | _ \<Rightarrow> Abort Todo)"
    using each_keeps_queue [of add_target] by (cases target) (auto simp: keeps_queue_def)
  moreover have "enqueues (size g) (steps (map visit ifs))"
    using g by (intro enqueues_steps) (auto dest!: node_member intro: queue.mono [OF queue.visit])
  moreover have "visit_comprehension g = steps
    [\<lambda>r. case target of Name _ _ _ \<Rightarrow> add_target target r | Tuple_expr es \<Rightarrow> each add_target es r | _ \<Rightarrow> Abort Todo,
     steps (map visit ifs)]"
    by (simp add: g fun_eq_iff visit_comprehension_def steps.simps(2) steps_one)
  ultimately have "enqueues (size g) (visit_comprehension g)"
    by (simp only:) (rule enqueues_steps, auto intro: keeps_queue_enqueues)
  then show ?thesis using Visit_comprehension by (simp add: visit_work_def)
qed

definition queue_order :: "(resolver \<times> resolver) set" where
  "queue_order = inv_image (mult less_than) (\<lambda>r. mset (map (work_size \<circ> snd) (to_visit r)))"

lemma wf_queue_order: "wf queue_order"
  by (simp add: queue_order_def wf_mult)

lemma visit_next_smaller:
  assumes "to_visit r \<noteq> []" "visit_next r = Ok r'"
  shows "(r', r) \<in> queue_order"
proof -
  obtain i w rest where q: "to_visit r = (i, w) # rest" using assms(1) by (cases "to_visit r") auto
  then have "visit_work w (r\<lparr>to_visit := rest, current := i\<rparr>) = Ok r'" using assms(2) by (simp add: visit_next_def)
  then obtain new where new: "to_visit r' = rest @ new" "\<forall>v \<in> snd ` set new. work_size v < work_size w"
    using visit_work_enqueues unfolding enqueues_def by fastforce
  have "(mset (map (work_size \<circ> snd) rest) + mset (map (work_size \<circ> snd) new),
      mset (map (work_size \<circ> snd) rest) + {#work_size w#}) \<in> mult less_than"
    using new(2) by (intro one_step_implies_mult) auto
  then show ?thesis using q new(1) by (simp add: queue_order_def)
qed

lemma visit_all_returns: "\<exists>result. visit_all r = Some result"
proof (induction r rule: wf_induct_rule [OF wf_queue_order])
  case (1 r)
  then show ?case
    using visit_next_smaller [of r] by (cases "visit_next r") (auto simp: visit_all.simps [of r])
qed

end
