(* ===== verification/Resolver_Scopes.thy ===== *)
theory Resolver_Scopes
  imports Resolver_Props
begin

text \<open>
  The scopes during a resolution: they form a tree, hidden symbols are in classes only, and a free
  variable of a scope is free or a cell in the scope around it.
\<close>

section \<open>What a scope knows of a name\<close>

definition sees :: "scope \<Rightarrow> string \<Rightarrow> visibility option" where
  "sees sc name = map_option visibility_of (get_visible_symbol name (symbol_map sc))"

definition binds :: "scope \<Rightarrow> string \<Rightarrow> bool" where
  "binds sc name \<longleftrightarrow>
     sees sc name \<in> {Some CELL, Some FREE} \<or>
     scope_type sc = CLASS \<and> sees sc name \<in> {Some IMPLICIT_GLOBAL, Some EXPLICIT_GLOBAL}"

definition visible_names :: "symbol_map \<Rightarrow> string list" where
  "visible_names m = map symbol_name (filter (\<lambda>s. visibility_of s \<noteq> HIDDEN) m)"

definition scope_ok :: "scope \<Rightarrow> bool" where
  "scope_ok sc \<longleftrightarrow>
     (\<forall>s \<in> set (symbol_map sc). visibility_of s = HIDDEN \<longrightarrow> scope_type sc = CLASS) \<and>
     distinct (visible_names (symbol_map sc)) \<and>
     (\<forall>s \<in> set (symbol_map sc). scope_type sc = CLASS \<longrightarrow> visibility_of s \<notin> {LOCAL, NAME}) \<and>
     (\<forall>s \<in> set (symbol_map sc). visibility_of s = FREE \<longrightarrow> symbol_name s \<in> set (captures sc))"

text \<open>The tree of scopes with the queue, and the way of the free variables through it.\<close>

definition tree_ok :: "resolver \<Rightarrow> bool" where
  "tree_ok r \<longleftrightarrow>
     current r < length (scopes r) \<and> parent (scopes r ! 0) = None \<and>
     (\<forall>i < length (scopes r). i \<noteq> 0 \<longrightarrow> (\<exists>p < i. parent (scopes r ! i) = Some p)) \<and>
     (\<forall>(i, w) \<in> set (to_visit r). i < length (scopes r) \<and>
        ((\<exists>n. w = Visit_node n) \<or> scope_type (scopes r ! i) \<in> {FUNCTION, CLOSURE}))"

definition chain_ok :: "resolver \<Rightarrow> bool" where
  "chain_ok r \<longleftrightarrow>
     (\<forall>i < length (scopes r). \<forall>name. sees (scopes r ! i) name = Some FREE \<longrightarrow>
        (\<exists>p. parent (scopes r ! i) = Some p \<and> p \<noteq> 0 \<and> binds (scopes r ! p) name))"

definition sound :: "resolver \<Rightarrow> bool" where
  "sound r \<longleftrightarrow> tree_ok r \<and> chain_ok r \<and> (\<forall>i < length (scopes r). scope_ok (scopes r ! i))"

lemma sees_visible: "map_option visibility_of (visible_in r i name) = sees (scopes r ! i) name"
  by (simp add: visible_in_def sees_def)

lemma visible_in_None: "visible_in r i name = None \<longleftrightarrow> sees (scopes r ! i) name = None"
  by (simp add: visible_in_def sees_def)

lemma get_visible_in: "get_visible_symbol name m = Some s \<Longrightarrow> s \<in> set m \<and> symbol_name s = name \<and> visibility_of s \<noteq> HIDDEN"
  by (auto simp: get_visible_symbol_def find_Some_iff)

lemma get_visible_None: "get_visible_symbol name m = None \<longleftrightarrow> name \<notin> set (visible_names m)"
  by (auto simp: get_visible_symbol_def find_None_iff visible_names_def)

lemma find_append: "find P (xs @ ys) = (case find P xs of None \<Rightarrow> find P ys | Some x \<Rightarrow> Some x)"
  by (induction xs) auto

lemma visible_add:
  "get_visible_symbol name (add_symbol s m) =
     (if visibility_of s \<noteq> HIDDEN \<and> name = symbol_name s \<and> get_visible_symbol name m = None then Some s
      else get_visible_symbol name m)"
  by (auto simp: add_symbol_def get_visible_symbol_def find_append split: option.split)

lemma add_symbol_set: "set (add_symbol s m) \<subseteq> insert s (set m)"
  by (auto simp: add_symbol_def)

lemma visible_names_add: "distinct (visible_names m) \<Longrightarrow> distinct (visible_names (add_symbol s m))"
  by (auto simp: add_symbol_def visible_names_def get_visible_None [unfolded visible_names_def])

lemma delete_symbol_set: "set (delete_symbol name m) \<subseteq> set m"
  by (induction m) auto

lemma visible_names_delete:
  "distinct (visible_names m) \<Longrightarrow> distinct (visible_names (delete_symbol name m))"
  "set (visible_names (delete_symbol name m)) \<subseteq> set (visible_names m)"
  by (induction m) (auto simp: visible_names_def dest: set_mp)

text \<open>Deleting a name loses its visible symbol, or a hidden one before it.\<close>

lemma visible_delete:
  assumes "distinct (visible_names m)"
  shows "get_visible_symbol n (delete_symbol name m) =
    (if n = name \<and> (\<forall>s. get_symbol name m = Some s \<longrightarrow> visibility_of s \<noteq> HIDDEN) then None
     else get_visible_symbol n m)"
  using assms
proof (induction m)
  case (Cons s m)
  show ?case
  proof (cases "symbol_name s = name")
    case True
    then show ?thesis using Cons.prems get_visible_None [of name m]
      by (auto simp: get_visible_symbol_def get_symbol_def visible_names_def)
  next
    case False
    then show ?thesis using Cons by (auto simp: get_visible_symbol_def get_symbol_def visible_names_def split: if_splits)
  qed
qed (simp add: get_visible_symbol_def)

section \<open>Changes of one scope\<close>

text \<open>A change that makes no variable free and loses no binding.\<close>

definition calm :: "scope \<Rightarrow> scope \<Rightarrow> bool" where
  "calm sc sc' \<longleftrightarrow>
     parent sc' = parent sc \<and> scope_type sc' = scope_type sc \<and> (scope_ok sc \<longrightarrow> scope_ok sc') \<and>
     (\<forall>name. sees sc' name = Some FREE \<longrightarrow> sees sc name = Some FREE) \<and>
     (\<forall>name. binds sc name \<longrightarrow> binds sc' name)"

lemma calm_trans: "calm a b \<Longrightarrow> calm b c \<Longrightarrow> calm a c"
  by (auto simp: calm_def)

definition grown :: "resolver \<Rightarrow> resolver \<Rightarrow> bool" where
  "grown r r' \<longleftrightarrow>
     current r' = current r \<and> length (scopes r) \<le> length (scopes r') \<and>
     (\<forall>i < length (scopes r). parent (scopes r' ! i) = parent (scopes r ! i) \<and>
        scope_type (scopes r' ! i) = scope_type (scopes r ! i))"

lemma grown_refl [simp]: "grown r r"
  by (simp add: grown_def)

lemma grown_trans: "grown a b \<Longrightarrow> grown b c \<Longrightarrow> grown a c"
  by (simp add: grown_def)

lemma sound_update:
  assumes "sound r" "calm (scopes r ! i) (f (scopes r ! i))"
  shows "sound (update_scope i f r)" "grown r (update_scope i f r)"
proof -
  let ?r = "update_scope i f r"
  have nth: "scopes ?r ! j = (if j = i \<and> i < length (scopes r) then f (scopes r ! i) else scopes r ! j)" for j
    by (cases "i < length (scopes r)") (auto simp: update_scope_def list_update_beyond)
  have same: "parent (scopes ?r ! j) = parent (scopes r ! j)" "scope_type (scopes ?r ! j) = scope_type (scopes r ! j)"
      "scope_ok (scopes r ! j) \<Longrightarrow> scope_ok (scopes ?r ! j)"
      "sees (scopes ?r ! j) name = Some FREE \<Longrightarrow> sees (scopes r ! j) name = Some FREE"
      "binds (scopes r ! j) name \<Longrightarrow> binds (scopes ?r ! j) name" for j name
    using assms(2) by (auto simp: nth calm_def split: if_splits)
  have fields: "length (scopes ?r) = length (scopes r)" "to_visit ?r = to_visit r" "current ?r = current r"
    by (simp_all add: update_scope_def)
  have "tree_ok ?r" using assms(1) by (simp add: sound_def tree_ok_def same fields)
  moreover have "chain_ok ?r"
    using assms(1) same(1,4,5) fields(1) unfolding sound_def chain_ok_def by metis
  ultimately show "sound ?r" using assms(1) by (simp add: sound_def same fields)
  show "grown r ?r" by (simp add: grown_def same fields)
qed

lemma calm_add:
  assumes "visibility_of s \<noteq> FREE" "visibility_of s = HIDDEN \<Longrightarrow> scope_type sc = CLASS"
    "scope_type sc = CLASS \<Longrightarrow> visibility_of s \<notin> {LOCAL, NAME}"
  shows "calm sc (sc\<lparr>symbol_map := add_symbol s (symbol_map sc)\<rparr>)"
proof -
  have "scope_ok (sc\<lparr>symbol_map := add_symbol s (symbol_map sc)\<rparr>)" if "scope_ok sc"
    using that assms visible_names_add [of "symbol_map sc" s] add_symbol_set [of s "symbol_map sc"]
    unfolding scope_ok_def by fastforce
  then show ?thesis using assms(1) by (auto simp: calm_def sees_def binds_def visible_add)
qed

lemma sound_add:
  assumes "sound r" "visibility_of s \<noteq> FREE" "visibility_of s = HIDDEN \<Longrightarrow> scope_type (scopes r ! i) = CLASS"
    "scope_type (scopes r ! i) = CLASS \<Longrightarrow> visibility_of s \<notin> {LOCAL, NAME}"
  shows "sound (add_to i s r) \<and> grown r (add_to i s r)"
  using sound_update [OF assms(1), of i "\<lambda>sc. sc\<lparr>symbol_map := add_symbol s (symbol_map sc)\<rparr>"] calm_add [OF assms(2,3,4)]
  by (simp add: add_to_def)

lemma symbol_simps [simp]: "visibility_of (symbol n v l) = v" "symbol_name (symbol n v l) = n"
  by (simp_all add: symbol_def)

section \<open>The scopes around a scope\<close>

definition up :: "resolver \<Rightarrow> nat \<Rightarrow> nat list" where
  "up r i = outer_scopes r i i"

lemma outer_scopes_bound:
  "tree_ok r \<Longrightarrow> i < length (scopes r) \<Longrightarrow> i \<le> n \<Longrightarrow> outer_scopes r n i = up r i"
proof (induction i arbitrary: n rule: less_induct)
  case (less i)
  show ?case
  proof (cases "i = 0")
    case True
    then show ?thesis using less.prems(1) by (cases n) (simp_all add: up_def tree_ok_def)
  next
    case False
    then obtain p where p: "p < i" "parent (scopes r ! i) = Some p" using less.prems by (auto simp: tree_ok_def)
    obtain m k where "n = Suc m" "i = Suc k" using False less.prems(3) by (cases n; cases i) auto
    then show ?thesis using p less.prems less.IH [OF p(1), of m] less.IH [OF p(1), of k]
      by (simp add: up_def)
  qed
qed

lemma up_Cons:
  assumes "tree_ok r" "i < length (scopes r)" "parent (scopes r ! i) = Some p"
  shows "up r i = p # up r p \<and> p < i"
proof -
  have "i \<noteq> 0" using assms by (auto simp: tree_ok_def)
  then have p: "p < i" using assms by (auto simp: tree_ok_def)
  then obtain k where "i = Suc k" by (cases i) auto
  then show ?thesis using outer_scopes_bound [OF assms(1), of p k] assms p by (simp add: up_def)
qed

lemma up_Nil: "parent (scopes r ! i) = None \<Longrightarrow> up r i = []"
  by (cases i) (simp_all add: up_def)

lemma up_less: "tree_ok r \<Longrightarrow> i < length (scopes r) \<Longrightarrow> j \<in> set (up r i) \<Longrightarrow> j < i"
proof (induction i rule: less_induct)
  case (less i)
  show ?case
  proof (cases "parent (scopes r ! i)")
    case None
    then show ?thesis using less.prems by (simp add: up_Nil)
  next
    case (Some p)
    then show ?thesis using up_Cons [OF less.prems(1,2) Some] less.IH [of p] less.prems by auto
  qed
qed

lemma up_distinct: "tree_ok r \<Longrightarrow> i < length (scopes r) \<Longrightarrow> distinct (up r i)"
proof (induction i rule: less_induct)
  case (less i)
  show ?case
  proof (cases "parent (scopes r ! i)")
    case None
    then show ?thesis by (simp add: up_Nil)
  next
    case (Some p)
    then show ?thesis using up_Cons [OF less.prems Some] up_less [OF less.prems(1), of p p] less.IH [of p] less.prems by auto
  qed
qed

lemma up_cong: "(\<And>j. parent (scopes r' ! j) = parent (scopes r ! j)) \<Longrightarrow> up r' i = up r i"
proof -
  assume same: "\<And>j. parent (scopes r' ! j) = parent (scopes r ! j)"
  have "outer_scopes r' n i = outer_scopes r n i" for n i
    by (induction n arbitrary: i) (simp_all add: same split: option.split)
  then show ?thesis by (simp add: up_def)
qed

lemma ancestors_up: "ancestors r = up r (current r)"
  by (simp add: ancestors_def up_def)

section \<open>Free and cell variables\<close>

lemma top_level_node_spec:
  assumes "top_level_node name r = Some top_node"
  obtains pre rest where "up r (current r) = pre @ top_node # rest" "sees (scopes r ! top_node) name \<noteq> None"
    "\<forall>j \<in> set pre. sees (scopes r ! j) name = None" "\<forall>j \<in> set (pre @ [top_node]). parent (scopes r ! j) \<noteq> None"
proof -
  let ?inner = "takeWhile (\<lambda>i. parent (scopes r ! i) \<noteq> None) (up r (current r))"
  from assms obtain k where k: "k < length ?inner" "?inner ! k = top_node" "visible_in r top_node name \<noteq> None"
      "\<forall>j < k. visible_in r (?inner ! j) name = None"
    by (auto simp: top_level_node_def ancestors_up find_Some_iff)
  have inner: "?inner = take k ?inner @ top_node # drop (Suc k) ?inner" using k(1,2) by (metis id_take_nth_drop)
  moreover have "up r (current r) = ?inner @ dropWhile (\<lambda>i. parent (scopes r ! i) \<noteq> None) (up r (current r))" by simp
  ultimately have 1: "up r (current r) = take k ?inner @ top_node # (drop (Suc k) ?inner @
      dropWhile (\<lambda>i. parent (scopes r ! i) \<noteq> None) (up r (current r)))" by (metis append.assoc append_Cons)
  have 2: "\<forall>j \<in> set (take k ?inner). sees (scopes r ! j) name = None"
    using k(1,4) by (auto simp: in_set_conv_nth visible_in_None)
  have 3: "\<forall>j \<in> set (take k ?inner @ [top_node]). parent (scopes r ! j) \<noteq> None"
  proof -
    have "set (take k ?inner @ [top_node]) \<subseteq> set ?inner" using k(1,2) by (auto dest: in_set_takeD)
    moreover have "\<forall>j \<in> set ?inner. parent (scopes r ! j) \<noteq> None" using set_takeWhileD by metis
    ultimately show ?thesis by blast
  qed
  show ?thesis using k(3) by (intro that [OF 1 _ 2 3]) (simp add: visible_in_None)
qed

text \<open>Turning the variable of the topmost scope into a cell.\<close>

lemma calm_cell:
  fixes l :: location
  assumes "get_visible_symbol name (symbol_map sc) = Some s" "visibility_of s \<noteq> FREE" "scope_ok sc"
    "sc' = sc\<lparr>symbol_map := add_symbol (symbol name CELL l) (delete_symbol name (symbol_map sc))\<rparr>"
  shows "calm sc sc' \<and> binds sc' name"
proof -
  let ?d = "delete_symbol name (symbol_map sc)"
  have dist: "distinct (visible_names (symbol_map sc))" using assms(3) by (simp add: scope_ok_def)
  note del = visible_delete [OF dist, of _ name]
  have s: "s \<in> set (symbol_map sc)" "symbol_name s = name" "visibility_of s \<noteq> HIDDEN"
    using get_visible_in [OF assms(1)] by auto
  have vis: "get_visible_symbol n (symbol_map sc') =
      (if n = name then (if get_visible_symbol name ?d = None then Some (symbol name CELL l) else Some s)
       else get_visible_symbol n (symbol_map sc))" for n
    using assms(1) by (auto simp: assms(4) visible_add del)
  have "scope_ok sc'"
    using assms(3) visible_names_add [OF visible_names_delete(1) [OF dist]] delete_symbol_set [of name "symbol_map sc"]
      add_symbol_set [of "symbol name CELL l" ?d]
    unfolding scope_ok_def assms(4) by fastforce
  moreover have "scope_type sc = CLASS \<and> visibility_of s \<notin> {LOCAL, NAME}" if "get_visible_symbol name ?d \<noteq> None"
  proof -
    from that obtain h where "get_symbol name (symbol_map sc) = Some h" "visibility_of h = HIDDEN"
      using del [of name] by (auto split: if_splits)
    then have "scope_type sc = CLASS" using assms(3) by (auto simp: scope_ok_def get_symbol_def find_Some_iff)
    then show ?thesis using assms(3) s(1) by (auto simp: scope_ok_def)
  qed
  then have "binds sc' name"
    using vis [of name] s(3) assms(2)
    by (cases "get_visible_symbol name ?d"; cases "visibility_of s") (auto simp: binds_def sees_def assms(4))
  moreover have other: "sees sc' n = sees sc n" if "n \<noteq> name" for n using that by (simp add: sees_def vis)
  have "sees sc' name \<noteq> Some FREE" using vis [of name] assms(2) by (auto simp: sees_def)
  then have "\<forall>n. sees sc' n = Some FREE \<longrightarrow> sees sc n = Some FREE" using other by metis
  moreover have "binds sc' n" if "binds sc n" "n \<noteq> name" for n
    using that other [OF that(2)] by (simp add: binds_def assms(4))
  then have "\<forall>n. binds sc n \<longrightarrow> binds sc' n" using \<open>binds sc' name\<close> by metis
  ultimately show ?thesis unfolding calm_def by (simp add: assms(4))
qed

text \<open>Marking a scope whose outer scope binds the name.\<close>

lemma scopes_mark_free:
  "i < length (scopes r) \<Longrightarrow>
   scopes (mark_free name i r) = (scopes r)[i := (scopes r ! i)\<lparr>
     symbol_map := add_symbol (symbol name FREE (0, 0)) (symbol_map (scopes r ! i)),
     captures := List.insert name (captures (scopes r ! i))\<rparr>]"
  by (simp add: mark_free_def update_scope_def)

lemma mark_free_fields:
  "length (scopes (mark_free name i r)) = length (scopes r)"
  "to_visit (mark_free name i r) = to_visit r" "current (mark_free name i r) = current r"
  "j \<noteq> i \<Longrightarrow> scopes (mark_free name i r) ! j = scopes r ! j"
  "parent (scopes (mark_free name i r) ! j) = parent (scopes r ! j)"
  "scope_type (scopes (mark_free name i r) ! j) = scope_type (scopes r ! j)"
  by (cases "i < length (scopes r)"; cases "j = i"; simp add: mark_free_def update_scope_def list_update_beyond)+

lemma sound_mark:
  assumes "sound r" "i < length (scopes r)" "parent (scopes r ! i) = Some p" "p \<noteq> 0" "binds (scopes r ! p) name"
  shows "sound (mark_free name i r)"
    "sees (scopes r ! i) name = None \<Longrightarrow> binds (scopes (mark_free name i r) ! i) name"
proof -
  let ?r = "mark_free name i r" and ?sc = "scopes r ! i"
  let ?sc' = "?sc\<lparr>symbol_map := add_symbol (symbol name FREE (0, 0)) (symbol_map ?sc), captures := List.insert name (captures ?sc)\<rparr>"
  have nth: "scopes ?r ! i = ?sc'" by (simp add: scopes_mark_free assms(2))
  have sees: "sees ?sc' n = (if n = name \<and> sees ?sc name = None then Some FREE else sees ?sc n)" for n
    by (auto simp: sees_def visible_add)
  have "scope_ok ?sc" using assms(1,2) by (simp add: sound_def)
  then have ok: "scope_ok ?sc'"
    using visible_names_add [of "symbol_map ?sc" "symbol name FREE (0, 0)"]
      add_symbol_set [of "symbol name FREE (0, 0)" "symbol_map ?sc"]
    unfolding scope_ok_def by fastforce
  have binds: "binds (scopes ?r ! j) n" if "binds (scopes r ! j) n" for j n
    using that nth sees by (cases "j = i") (auto simp: binds_def mark_free_fields)
  have "p \<noteq> i" using assms(1-3) by (auto simp: sound_def tree_ok_def)
  have "tree_ok ?r" using assms(1) by (simp add: sound_def tree_ok_def mark_free_fields)
  moreover have "\<exists>q. parent (scopes ?r ! j) = Some q \<and> q \<noteq> 0 \<and> binds (scopes ?r ! q) n"
    if j: "j < length (scopes ?r)" "sees (scopes ?r ! j) n = Some FREE" for j n
  proof (cases "sees (scopes r ! j) n = Some FREE")
    case True
    moreover have "j < length (scopes r)" using j(1) by (simp add: mark_free_fields)
    ultimately obtain q where "parent (scopes r ! j) = Some q" "q \<noteq> 0" "binds (scopes r ! q) n"
      using assms(1) unfolding sound_def chain_ok_def by blast
    then show ?thesis using binds by (simp add: mark_free_fields)
  next
    case False
    have "j = i"
    proof (rule ccontr)
      assume "j \<noteq> i"
      then show False using j(2) False by (simp add: mark_free_fields)
    qed
    moreover have "n = name" using False j(2) unfolding \<open>j = i\<close> nth sees by (simp split: if_splits)
    ultimately show ?thesis using assms(3-5) binds by (auto simp: mark_free_fields)
  qed
  moreover have "scope_ok (scopes ?r ! j)" if "j < length (scopes ?r)" for j
    using that ok nth assms(1) by (cases "j = i") (auto simp: sound_def mark_free_fields)
  ultimately show "sound ?r" unfolding sound_def chain_ok_def by blast
  show "sees ?sc name = None \<Longrightarrow> binds (scopes ?r ! i) name" by (simp add: nth binds_def sees)
qed

lemma foldr_mark_fields:
  "length (scopes (foldr (mark_free name) js r)) = length (scopes r)"
  "to_visit (foldr (mark_free name) js r) = to_visit r" "current (foldr (mark_free name) js r) = current r"
  "j \<notin> set js \<Longrightarrow> scopes (foldr (mark_free name) js r) ! j = scopes r ! j"
  "parent (scopes (foldr (mark_free name) js r) ! j) = parent (scopes r ! j)"
  "scope_type (scopes (foldr (mark_free name) js r) ! j) = scope_type (scopes r ! j)"
  by (induction js) (simp_all add: mark_free_fields)

lemma grown_marks: "grown r (foldr (mark_free name) js r)"
  by (simp add: grown_def foldr_mark_fields)

text \<open>From the inside out, every scope on the way gets the variable from the next one.\<close>

lemma sound_marks:
  assumes "sound r" "up r i = pre @ top_node # rest" "i < length (scopes r)"
    "\<forall>j \<in> set pre. sees (scopes r ! j) name = None" "\<forall>j \<in> set (pre @ [top_node]). parent (scopes r ! j) \<noteq> None"
    "binds (scopes r ! top_node) name"
  shows "sound (foldr (mark_free name) (i # pre) r)"
  using assms
proof (induction pre arbitrary: i)
  have tree: "tree_ok r" and root: "parent (scopes r ! 0) = None" using assms(1) by (simp_all add: sound_def tree_ok_def)
  {
    case Nil
    then obtain p where p: "parent (scopes r ! i) = Some p" by (cases "parent (scopes r ! i)") (auto simp: up_Nil)
    then have "p = top_node" using up_Cons [OF tree Nil.prems(3) p] Nil.prems(2) by simp
    moreover have "top_node \<noteq> 0" using Nil.prems(5) root by (intro notI) simp
    ultimately show ?case using sound_mark(1) [OF Nil.prems(1,3) p _] Nil.prems(6) by simp
  next
    case (Cons q pre)
    obtain p where p: "parent (scopes r ! i) = Some p"
      using Cons.prems(2) by (cases "parent (scopes r ! i)") (auto simp: up_Nil)
    from up_Cons [OF tree Cons.prems(3) p] Cons.prems(2) have q: "p = q" "up r q = pre @ top_node # rest" "q < i" by auto
    let ?r = "foldr (mark_free name) (q # pre) r"
    have "sound ?r" using Cons.IH [OF Cons.prems(1) q(2)] q(3) Cons.prems by simp
    let ?r1 = "foldr (mark_free name) pre r"
    have "q \<notin> set pre" using up_less [OF tree, of q q] q Cons.prems(3) by auto
    then have "scopes ?r1 ! q = scopes r ! q" by (simp add: foldr_mark_fields)
    then have none: "sees (scopes ?r1 ! q) name = None" using Cons.prems(4) by simp
    have "binds (scopes ?r ! q) name"
      using none q(3) Cons.prems(3)
      by (simp add: scopes_mark_free foldr_mark_fields binds_def sees_def visible_add)
    moreover have "q \<noteq> 0" using Cons.prems(5) root by (intro notI) simp
    ultimately have "sound (mark_free name i ?r)"
      using sound_mark(1) [OF \<open>sound ?r\<close>, of i q name] Cons.prems(3) p q(1) by (simp add: foldr_mark_fields mark_free_fields)
    then show ?case by simp
  }
qed

lemma fold_foldr_mark: "fold (mark_free name) js r = foldr (mark_free name) js r"
proof -
  have "mark_free name j \<circ> mark_free name i = mark_free name i \<circ> mark_free name j" for i j
    by (cases "i = j") (auto simp: fun_eq_iff mark_free_def update_scope_def list_update_swap nth_list_update)
  then show ?thesis using foldr_fold [of js "mark_free name"] by simp
qed

lemma update_marks:
  "i \<notin> set js \<Longrightarrow> update_scope i f (foldr (mark_free name) js r) = foldr (mark_free name) js (update_scope i f r)"
proof (induction js)
  case (Cons j js)
  have "update_scope i f (mark_free name j r') = mark_free name j (update_scope i f r')" for r'
    using Cons.prems by (auto simp: mark_free_def update_scope_def list_update_swap)
  then show ?case using Cons by simp
qed simp

text \<open>The whole annotation: its assertions hold, and it keeps the scopes sound.\<close>

lemma make_cell_update:
  assumes "get_visible_symbol name (symbol_map (scopes r ! i)) = Some s" "visibility_of s \<noteq> FREE" "i < length (scopes r)"
  shows "make_cell name i r = Ok (update_scope i (\<lambda>sc. sc\<lparr>symbol_map :=
    add_symbol (symbol name CELL (symbol_location s)) (delete_symbol name (symbol_map sc))\<rparr>) r)"
  using assms by (simp add: make_cell_def visible_in_def add_to_def delete_from_def update_scope_def)

lemma annotate_sound:
  assumes "sound r"
  shows "\<exists>r'. annotate_free_and_cell_variables name r = Ok r' \<and> sound r' \<and> grown r r'"
proof (cases "top_level_node name r")
  case None
  then show ?thesis using sound_add [OF assms, of "symbol name IMPLICIT_GLOBAL (0, 0)" "current r"]
    by (simp add: annotate_free_and_cell_variables_def)
next
  case (Some top_node)
  obtain pre rest where way: "up r (current r) = pre @ top_node # rest" "sees (scopes r ! top_node) name \<noteq> None"
    "\<forall>j \<in> set pre. sees (scopes r ! j) name = None" "\<forall>j \<in> set (pre @ [top_node]). parent (scopes r ! j) \<noteq> None"
    using top_level_node_spec [OF Some] .
  have tree: "tree_ok r" using assms by (simp add: sound_def)
  then have cur: "current r < length (scopes r)" by (simp add: tree_ok_def)
  have less: "j < current r" if "j \<in> set (pre @ top_node # rest)" for j
    using up_less [OF tree cur] that way(1) by simp
  have "distinct (pre @ top_node # rest)" using up_distinct [OF tree cur] way(1) by simp
  then have path: "takeWhile (\<lambda>i. i \<noteq> top_node) (current r # ancestors r) = current r # pre"
    using less [of top_node] way(1) by (auto simp: ancestors_up take_drop_while(1))
  have outside: "top_node \<notin> set (current r # pre)"
    using less [of top_node] \<open>distinct (pre @ top_node # rest)\<close> by auto
  obtain s where s: "get_visible_symbol name (symbol_map (scopes r ! top_node)) = Some s"
    using way(2) by (auto simp: sees_def)
  have top: "top_node < length (scopes r)" using less [of top_node] cur by simp
  let ?marks = "foldr (mark_free name) (current r # pre)"
  have run: "annotate_free_and_cell_variables name r = make_cell name top_node (?marks r)"
    by (simp only: annotate_free_and_cell_variables_def Some option.case path fold_foldr_mark)
  have same: "scopes (?marks r) ! top_node = scopes r ! top_node" using foldr_mark_fields(4) [OF outside] .
  show ?thesis
  proof (cases "visibility_of s = FREE")
    case True
    then have "make_cell name top_node (?marks r) = Ok (?marks r)"
      unfolding make_cell_def visible_in_def same s by simp
    moreover have "binds (scopes r ! top_node) name" using s True by (simp add: binds_def sees_def)
    then have "sound (?marks r)" using sound_marks [OF assms way(1) cur way(3,4)] by simp
    ultimately show ?thesis using run by (auto simp: grown_def foldr_mark_fields mark_free_fields simp del: foldr.simps)
  next
    case False
    let ?f = "\<lambda>sc. sc\<lparr>symbol_map := add_symbol (symbol name CELL (symbol_location s)) (delete_symbol name (symbol_map sc))\<rparr>"
    have "scope_ok (scopes r ! top_node)" using assms top by (simp add: sound_def)
    from calm_cell [OF s False this refl] have cell: "calm (scopes r ! top_node) (?f (scopes r ! top_node))"
        "binds (?f (scopes r ! top_node)) name" by blast+
    let ?r0 = "update_scope top_node ?f r"
    have r0: "sound ?r0" "grown r ?r0" using sound_update [of r top_node ?f] assms cell(1) by blast+
    have nth: "scopes ?r0 ! j = (if j = top_node then ?f (scopes r ! top_node) else scopes r ! j)" for j
      using top by (simp add: update_scope_def nth_list_update)
    have "make_cell name top_node (?marks r) = Ok (update_scope top_node ?f (?marks r))"
      using make_cell_update [of name "?marks r" top_node s] same s False top by (simp only: foldr_mark_fields simp_thms)
    moreover have "update_scope top_node ?f (?marks r) = ?marks ?r0" using update_marks [OF outside] .
    moreover have "sound (?marks ?r0)"
    proof (rule sound_marks [OF r0(1)])
      show "up ?r0 (current r) = pre @ top_node # rest" using way(1) up_cong [of ?r0 r] by (simp add: nth)
      show "\<forall>j \<in> set pre. sees (scopes ?r0 ! j) name = None" using way(3) outside by (auto simp: nth)
      show "\<forall>j \<in> set (pre @ [top_node]). parent (scopes ?r0 ! j) \<noteq> None" using way(4) by (simp add: nth)
      show "binds (scopes ?r0 ! top_node) name" using cell(2) by (simp add: nth)
    qed (use cur in \<open>simp add: update_scope_def\<close>)
    moreover have "grown r (?marks ?r0)"
      using grown_trans [OF r0(2) grown_marks] .
    ultimately show ?thesis using run by (intro exI [of _ "?marks ?r0"]) (simp only: simp_thms)
  qed
qed

section \<open>Every step keeps the scopes sound\<close>

definition keeps_sound :: "nat \<Rightarrow> step \<Rightarrow> bool" where
  "keeps_sound k f \<longleftrightarrow> (\<forall>r r'. sound r \<longrightarrow> f r = Ok r' \<longrightarrow> sound r' \<and> grown r r')"

lemma keeps_soundD: "keeps_sound k f \<Longrightarrow> sound r \<Longrightarrow> f r = Ok r' \<Longrightarrow> sound r' \<and> grown r r'"
  by (simp add: keeps_sound_def)

lemma annotate_keeps: "sound r \<Longrightarrow> annotate_free_and_cell_variables name r = Ok r' \<Longrightarrow> sound r' \<and> grown r r'"
  using annotate_sound [of r name] by auto

lemma add_current:
  assumes "sound r" "v \<noteq> FREE" "v = HIDDEN \<Longrightarrow> scope_type (current_scope r) = CLASS"
    "scope_type (current_scope r) = CLASS \<Longrightarrow> v \<notin> {LOCAL, NAME}"
  shows "sound (add_to (current r) (symbol name v loc) r) \<and> grown r (add_to (current r) (symbol name v loc) r)"
  using sound_add [OF assms(1), of "symbol name v loc" "current r"] assms(2-4) by simp

lemma function_local:
  assumes "scope_ok sc" "scope_type sc = FUNCTION" "get_symbol name (symbol_map sc) = Some s"
    "visibility_of s = IMPLICIT_GLOBAL"
  shows "calm sc (sc\<lparr>symbol_map := add_symbol (symbol name LOCAL loc) (delete_symbol name (symbol_map sc))\<rparr>)"
proof -
  let ?sc' = "sc\<lparr>symbol_map := add_symbol (symbol name LOCAL loc) (delete_symbol name (symbol_map sc))\<rparr>"
  have dist: "distinct (visible_names (symbol_map sc))" using assms(1) by (simp add: scope_ok_def)
  have sees: "sees ?sc' n = (if n = name then Some LOCAL else sees sc n)" for n
    using assms(3,4) by (simp add: sees_def visible_add visible_delete [OF dist])
  have "get_visible_symbol name (symbol_map sc) = Some s"
    using assms(3,4) by (auto simp: get_symbol_def get_visible_symbol_def find_Some_iff)
  then have old: "sees sc name = Some IMPLICIT_GLOBAL" using assms(4) by (simp add: sees_def)
  have "scope_ok ?sc'"
    using assms(1,2) visible_names_add [OF visible_names_delete(1) [OF dist], of "symbol name LOCAL loc" name]
      delete_symbol_set [of name "symbol_map sc"] add_symbol_set [of "symbol name LOCAL loc" "delete_symbol name (symbol_map sc)"]
    unfolding scope_ok_def by fastforce
  then show ?thesis using sees old assms(2) by (auto simp: calm_def binds_def)
qed

lemma store_keeps:
  assumes "sound r" "Resolver.store name loc ty r = Ok r'" "ty = scope_type (current_scope r)"
  shows "sound r' \<and> grown r r'"
proof (cases ty)
  case MODULE
  then show ?thesis using assms add_current [OF assms(1), of IMPLICIT_GLOBAL name loc] by (auto simp: store_def add_unless_there_def split: if_splits)
next
  case CLASS
  then show ?thesis using assms add_current [OF assms(1), of HIDDEN name loc] by (auto simp: store_def add_unless_there_def split: if_splits)
next
  case CLOSURE
  then show ?thesis using assms add_current [OF assms(1), of LOCAL name loc] annotate_keeps [OF assms(1)]
    by (auto simp: store_def store_in_closure_def split: if_splits option.splits visibility.splits)
next
  case FUNCTION
  show ?thesis
  proof (cases "get_symbol name (symbol_map (current_scope r))")
    case None
    then show ?thesis using FUNCTION assms add_current [OF assms(1), of LOCAL name loc]
      by (auto simp: store_def store_in_function_def)
  next
    case (Some s)
    have cur: "current r < length (scopes r)" using assms(1) by (simp add: sound_def tree_ok_def)
    let ?f = "\<lambda>sc. sc\<lparr>symbol_map := add_symbol (symbol name LOCAL loc) (delete_symbol name (symbol_map sc))\<rparr>"
    have "add_to (current r) (symbol name LOCAL loc) (delete_from (current r) name r) = update_scope (current r) ?f r"
      using cur by (simp add: add_to_def delete_from_def update_scope_def)
    moreover have "scope_ok (current_scope r)" using assms(1) cur by (simp add: sound_def)
    ultimately show ?thesis
      using FUNCTION assms Some function_local [of "current_scope r" name s loc] sound_update [OF assms(1), of "current r" ?f]
      by (auto simp: store_def store_in_function_def split: if_splits)
  qed
qed

lemma load_plain_keeps:
  assumes "sound r" "load_plain name loc ty r = Ok r'" "ty = scope_type (current_scope r)"
  shows "sound r' \<and> grown r r'"
  using assms add_current [OF assms(1), of NAME name loc] add_current [OF assms(1), of IMPLICIT_GLOBAL name loc]
    add_current [OF assms(1), of EXPLICIT_GLOBAL name loc] annotate_keeps [OF assms(1)]
  by (auto simp: load_plain_def load_from_outside_def split: scope_type.splits option.splits visibility.splits)

lemma class_ref_calm: "calm sc (sc\<lparr>requires_class_ref := b\<rparr>)" "calm sc (sc\<lparr>is_generator := b\<rparr>)"
  "calm sc (sc\<lparr>children := c\<rparr>)"
  by (simp_all add: calm_def scope_ok_def sees_def binds_def)

lemma load_class_keeps:
  assumes "sound r" "load_class cls loc r = Ok r'" "cls < length (scopes r)" "scope_type (scopes r ! cls) = CLASS"
  shows "sound r' \<and> grown r r'"
proof -
  let ?r1 = "update_scope cls (\<lambda>sc. sc\<lparr>requires_class_ref := True\<rparr>) r"
  have r1: "sound ?r1" "grown r ?r1"
    using sound_update [OF assms(1), of cls "\<lambda>sc. sc\<lparr>requires_class_ref := True\<rparr>"] class_ref_calm(1) by blast+
  from assms(2) obtain r2 where r2: "annotate_free_and_cell_variables ''__class__'' ?r1 = Ok r2"
    "r' = (if get_hidden_symbol ''__classcell__'' (symbol_map (scopes r2 ! cls)) = None
           then add_to cls (symbol ''__classcell__'' HIDDEN loc) r2 else r2)"
    by (auto simp: load_class_def and_then_eq_Ok)
  from annotate_keeps [OF r1(1) r2(1)] have "sound r2" "grown ?r1 r2" by simp_all
  then have "grown r r2" using grown_trans r1(2) by blast
  then have "scope_type (scopes r2 ! cls) = CLASS" using assms(3,4) by (simp add: grown_def)
  then show ?thesis using r2(2) \<open>sound r2\<close> \<open>grown r r2\<close> sound_add [OF \<open>sound r2\<close>, of "symbol ''__classcell__'' HIDDEN loc" cls]
      grown_trans by (auto split: if_splits)
qed

lemma outer_class: "sound r \<Longrightarrow> find_outer_class r = Some cls \<Longrightarrow> cls < length (scopes r) \<and> scope_type (scopes r ! cls) = CLASS"
proof -
  assume r: "sound r" "find_outer_class r = Some cls"
  then have "cls \<in> set (up r (current r))" "scope_type (scopes r ! cls) = CLASS"
    by (auto simp: find_outer_class_def ancestors_up find_Some_iff)
  then show ?thesis using up_less [of r "current r" cls] r(1) by (auto simp: sound_def tree_ok_def)
qed

lemma grown_type: "sound r \<Longrightarrow> grown r r' \<Longrightarrow> scope_type (current_scope r') = scope_type (current_scope r)"
  by (simp add: grown_def sound_def tree_ok_def)

lemma load_keeps:
  assumes "sound r" "Resolver.load name loc ty r = Ok r'" "ty = scope_type (current_scope r)"
  shows "sound r' \<and> grown r r'"
proof -
  consider (there) "r' = r" | (plain) "load_plain name loc ty r = Ok r'"
    | (cls) cls where "find_outer_class r = Some cls" "load_class cls loc r = Ok r'"
    | (super) cls r1 where "find_outer_class r = Some cls" "load_plain name loc ty r1 = Ok r'"
        "r1 = update_scope cls (\<lambda>sc. sc\<lparr>requires_class_ref := True\<rparr>) r \<or> load_class cls loc r = Ok r1"
    using assms(2) by (fastforce simp: load_def and_then_eq_Ok split: if_splits option.splits)
  then show ?thesis
  proof cases
    case there
    then show ?thesis using assms(1) by simp
  next
    case plain
    then show ?thesis using load_plain_keeps [OF assms(1)] assms(3) by blast
  next
    case cls
    then show ?thesis using load_class_keeps [OF assms(1)] outer_class [OF assms(1)] by blast
  next
    case super
    have "sound r1 \<and> grown r r1"
      using super(3) sound_update [OF assms(1), of cls "\<lambda>sc. sc\<lparr>requires_class_ref := True\<rparr>"] class_ref_calm(1) load_class_keeps [OF assms(1)] outer_class [OF assms(1) super(1)]
      by blast
    then show ?thesis using load_plain_keeps [OF _ super(2)] assms(1,3) grown_type grown_trans by metis
  qed
qed

lemma keeps_soundI: "(\<And>r r'. sound r \<Longrightarrow> f r = Ok r' \<Longrightarrow> sound r' \<and> grown r r') \<Longrightarrow> keeps_sound k f"
  by (simp add: keeps_sound_def)

lemma steps_keep:
  assumes "\<And>f. f \<in> set fs \<Longrightarrow> keeps_sound k f"
  shows "keeps_sound k (steps fs)"
  using assms
proof (induction fs)
  case (Cons f fs)
  show ?case
  proof (rule keeps_soundI)
    fix r r' assume r: "sound r" "steps (f # fs) r = Ok r'"
    then obtain r1 where "f r = Ok r1" "steps fs r1 = Ok r'" by (auto simp: steps.simps and_then_eq_Ok)
    moreover have "keeps_sound k f" "keeps_sound k (steps fs)" using Cons by simp_all
    ultimately show "sound r' \<and> grown r r'" using keeps_soundD r(1) grown_trans by meson
  qed
qed (simp add: keeps_sound_def steps.simps)

lemma global_keeps: "sound r \<Longrightarrow> declare_global loc name r = Ok r' \<Longrightarrow> sound r' \<and> grown r r'"
  using add_current [of r EXPLICIT_GLOBAL name loc]
  by (auto simp: declare_global_def split: option.splits visibility.splits)

lemma nonlocal_keeps: "sound r \<Longrightarrow> declare_nonlocal name r = Ok r' \<Longrightarrow> sound r' \<and> grown r r'"
  using annotate_keeps [of r name r'] by (auto simp: declare_nonlocal_def split: option.splits visibility.splits)

lemma generator_keeps: "sound r \<Longrightarrow> mark_generator r = Ok r' \<Longrightarrow> sound r' \<and> grown r r'"
  using sound_update [of r "current r" "\<lambda>sc. sc\<lparr>is_generator := True\<rparr>"] class_ref_calm(2)
  by (auto simp: mark_generator_def assert_that_eq_Ok)

text \<open>A new scope has no names.\<close>

lemma open_scope_sound:
  assumes "sound r" "open_scope taken name ns ty r = Ok r'"
  shows "sound r' \<and> current r' = length (scopes r) \<and> scopes r' = scopes r @ [new_scope name ns ty r] \<and>
    grown r (r'\<lparr>current := current r\<rparr>)"
proof -
  let ?new = "new_scope name ns ty r"
  from assms(2) have r': "scopes r' = scopes r @ [?new]" "current r' = length (scopes r)" "to_visit r' = to_visit r"
    by (auto simp: open_scope_def split: if_splits)
  have new: "scope_ok ?new" "sees ?new n = None" "parent ?new = Some (current r)" for n
    by (simp_all add: new_scope_def scope_ok_def visible_names_def sees_def get_visible_symbol_def)
  have nth: "scopes r' ! i = (if i < length (scopes r) then scopes r ! i else ?new)" if "i < length (scopes r')" for i
    using that r'(1) by (auto simp: nth_append less_Suc_eq)
  have tree: "tree_ok r" and chain: "chain_ok r" using assms(1) by (simp_all add: sound_def)
  have "tree_ok r'"
    using tree new(3) by (fastforce simp: tree_ok_def r' nth_append less_Suc_eq)
  moreover have "chain_ok r'"
    unfolding chain_ok_def
  proof (intro allI impI)
    fix i n assume i: "i < length (scopes r')" "sees (scopes r' ! i) n = Some FREE"
    then have less: "i < length (scopes r)" using new(2) by (auto simp: nth split: if_splits)
    then have "sees (scopes r ! i) n = Some FREE" using i nth by simp
    then obtain p where p: "parent (scopes r ! i) = Some p" "p \<noteq> 0" "binds (scopes r ! p) n"
      using chain less unfolding chain_ok_def by blast
    have "p < i" using up_Cons [OF tree less p(1)] by simp
    then show "\<exists>p. parent (scopes r' ! i) = Some p \<and> p \<noteq> 0 \<and> binds (scopes r' ! p) n"
      using p less by (auto simp: r' nth_append)
  qed
  moreover have "\<forall>i < length (scopes r'). scope_ok (scopes r' ! i)"
    using assms(1) new(1) nth by (auto simp: sound_def)
  ultimately show ?thesis using r' by (auto simp: sound_def grown_def nth_append)
qed

lemma sound_current: "sound r \<Longrightarrow> i < length (scopes r) \<Longrightarrow> sound (set_current i r)"
  by (simp add: sound_def tree_ok_def chain_ok_def set_current_def)

lemma sound_enqueue:
  assumes "sound r" "\<And>w. w \<in> set ws \<Longrightarrow> (\<exists>n. w = Visit_node n) \<or> scope_type (current_scope r) \<in> {FUNCTION, CLOSURE}"
  shows "sound (enqueue ws r)"
  using assms by (fastforce simp: sound_def tree_ok_def chain_ok_def enqueue_def)

lemma function_scope_keeps:
  assumes "sound r" "function_scope taken name loc ty ws r = Ok r'" "ty \<in> {function_type, inline_type}"
  shows "sound r' \<and> grown r r'"
proof -
  from assms(2) obtain r1 where r1: "open_scope taken (function_mangle (namespace (current_scope r)) name loc)
      (namespace (current_scope r) @ ''.'' @ name) (ty (scope_type (current_scope r))) r = Ok r1"
      "r' = set_current (current r) (enqueue ws (register_child (current r) (current r1) r1))"
    by (auto simp: function_scope_def and_then_eq_Ok Let_def)
  let ?r2 = "register_child (current r) (current r1) r1"
  from open_scope_sound [OF assms(1) r1(1)] have 1: "sound r1" "current r1 = length (scopes r)"
    "scope_type (current_scope r1) = ty (scope_type (current_scope r))" "grown r (r1\<lparr>current := current r\<rparr>)"
    by (auto simp: new_scope_def)
  let ?g = "\<lambda>sc. sc\<lparr>children := children sc @ [current r1]\<rparr>"
  have "calm (scopes r1 ! current r) (?g (scopes r1 ! current r))" by (rule class_ref_calm(3))
  then have 2: "sound ?r2" "grown r1 ?r2"
    unfolding register_child_def using sound_update [OF 1(1), of "current r" ?g] by blast+
  have "scope_type (current_scope ?r2) \<in> {FUNCTION, CLOSURE}"
    using grown_type [OF 1(1) 2(2)] 1(3) assms(3) by (auto simp: function_type_def inline_type_def)
  then have "sound (enqueue ws ?r2)" using sound_enqueue [OF 2(1)] by blast
  moreover have "grown r r'" using 1(4) 2(2) r1(2) by (simp add: grown_def set_current_def enqueue_def)
  moreover have "current r < length (scopes ?r2)"
    using assms(1) 1(4) 2(2) by (simp add: grown_def sound_def tree_ok_def)
  ultimately show ?thesis using sound_current [of "enqueue ws ?r2" "current r"] r1(2) by (simp add: enqueue_def)
qed

lemma class_scope_keeps:
  assumes "sound r" "class_scope name loc (map Visit_node ns) r = Ok r'"
  shows "sound r' \<and> grown r r'"
proof -
  from assms(2) obtain r1 r2 r3 r4 where
    r1: "open_scope Assertion (class_mangle (namespace (current_scope r)) name loc)
      (namespace (current_scope r) @ ''.'' @ name) CLASS r = Ok r1"
    and r2: "Resolver.load ''__name__'' loc CLASS (add_to (current r1) (symbol ''__class__'' CELL loc) r1) = Ok r2"
    and r3: "Resolver.store ''__module__'' loc CLASS r2 = Ok r3"
    and r4: "Resolver.store ''__qualname__'' loc CLASS r3 = Ok r4"
    and r': "r' = set_current (current r) (enqueue (map Visit_node ns) r4)"
    by (auto simp: class_scope_def and_then_eq_Ok Let_def)
  let ?r1 = "add_to (current r1) (symbol ''__class__'' CELL loc) r1"
  from open_scope_sound [OF assms(1) r1] have 1: "sound r1" "scope_type (current_scope r1) = CLASS"
    "grown r (r1\<lparr>current := current r\<rparr>)" by (auto simp: new_scope_def)
  have 2: "sound ?r1" "grown r1 ?r1" using add_current [OF 1(1), of CELL] by simp_all
  have "scope_type (current_scope ?r1) = CLASS" using grown_type [OF 1(1) 2(2)] 1(2) by simp
  with load_keeps [OF 2(1) r2] have 3: "sound r2" "grown ?r1 r2" by simp_all
  then have "scope_type (current_scope r2) = CLASS" using grown_type [OF 2(1)] \<open>scope_type (current_scope ?r1) = CLASS\<close> by simp
  with store_keeps [OF 3(1) r3] have 4: "sound r3" "grown r2 r3" by simp_all
  then have "scope_type (current_scope r3) = CLASS" using grown_type [OF 3(1)] \<open>scope_type (current_scope r2) = CLASS\<close> by simp
  with store_keeps [OF 4(1) r4] have 5: "sound r4" "grown r3 r4" by simp_all
  have "grown r1 r4" using 2(2) 3(2) 4(2) 5(2) grown_trans by blast
  then have "grown r r'" using 1(3) by (simp add: r' grown_def set_current_def enqueue_def)
  moreover have "sound (enqueue (map Visit_node ns) r4)" by (rule sound_enqueue [OF 5(1)]) auto
  moreover have "current r < length (scopes (enqueue (map Visit_node ns) r4))"
    using \<open>grown r r'\<close> assms(1) by (simp add: r' grown_def sound_def tree_ok_def set_current_def)
  ultimately show ?thesis using sound_current r' by blast
qed

interpretation scopes: step_property keeps_sound
proof
  fix fs k assume "\<And>f. f \<in> set fs \<Longrightarrow> keeps_sound k f"
  then show "keeps_sound k (steps fs)" by (rule steps_keep)
next
  show "keeps_sound k (function_scope taken name loc ty ws)" if "ty \<in> {function_type, inline_type}" for k taken name loc ty ws
    using function_scope_keeps that by (blast intro: keeps_soundI)
next
  show "keeps_sound k (class_scope name loc (map Visit_node ns))" for k name loc and ns :: "node list"
    using class_scope_keeps by (blast intro: keeps_soundI)
next
  show "keeps_sound k (store_here loc name)" "keeps_sound k (delete_here loc name)" "keeps_sound k (load_here loc name)" for k loc name
    unfolding keeps_sound_def store_here_def load_here_def delete_here_def delete_is_store
    using store_keeps load_keeps by blast+
next
  show "keeps_sound k (declare_global loc name)" "keeps_sound k (declare_nonlocal name)" for k loc name
    using global_keeps nonlocal_keeps by (blast intro: keeps_soundI)+
next
  show "keeps_sound k mark_generator" for k
    using generator_keeps by (blast intro: keeps_soundI)
qed (simp_all add: keeps_sound_def)

end
