(* ===== verification/Resolver_Results.thy ===== *)
theory Resolver_Results
  imports Resolver_Scopes
begin

text \<open>
  What a resolution ends with: every program is resolved in finitely many steps, every free variable
  is captured and leads to a cell, and what an assignment in a nested function binds.
\<close>

section \<open>The loop keeps the scopes sound\<close>

lemma visit_keeps: "sound r \<Longrightarrow> visit n r = Ok r' \<Longrightarrow> sound r' \<and> grown r r'"
  using scopes.visit [of n] by (rule keeps_soundD)

lemma each_sound:
  assumes "\<And>x r r'. sound r \<Longrightarrow> scope_type (current_scope r) \<noteq> CLASS \<Longrightarrow> f x r = Ok r' \<Longrightarrow> sound r' \<and> grown r r'"
  shows "sound r \<Longrightarrow> scope_type (current_scope r) \<noteq> CLASS \<Longrightarrow> each f xs r = Ok r' \<Longrightarrow> sound r' \<and> grown r r'"
proof (induction xs arbitrary: r)
  case (Cons x xs)
  then obtain r1 where r1: "f x r = Ok r1" "each f xs r1 = Ok r'" by (auto simp: and_then_eq_Ok)
  from assms [OF Cons.prems(1,2) r1(1)] have 1: "sound r1" "grown r r1" by simp_all
  moreover have "scope_type (current_scope r1) \<noteq> CLASS" using grown_type [OF Cons.prems(1) 1(2)] Cons.prems(2) by simp
  ultimately show ?case using Cons.IH [OF _ _ r1(2)] grown_trans by blast
qed simp

lemma add_argument_keeps:
  "sound r \<Longrightarrow> scope_type (current_scope r) \<noteq> CLASS \<Longrightarrow> add_argument a r = Ok r' \<Longrightarrow> sound r' \<and> grown r r'"
  using add_current [of r LOCAL "snd a" "fst a"] by (auto simp: add_argument_def assert_that_eq_Ok)

lemma add_target_keeps:
  "sound r \<Longrightarrow> scope_type (current_scope r) \<noteq> CLASS \<Longrightarrow> add_target n r = Ok r' \<Longrightarrow> sound r' \<and> grown r r'"
  using add_current [of r LOCAL] by (auto elim!: add_target.elims)

lemma visit_comprehension_keeps:
  assumes "sound r" "scope_type (current_scope r) \<noteq> CLASS" "visit_comprehension g r = Ok r'"
  shows "sound r' \<and> grown r r'"
proof -
  obtain target iter ifs where g: "g = Comprehension target iter ifs" by (cases g)
  from assms(3) obtain r1 where r1: "(case target of
        Name _ _ _ \<Rightarrow> add_target target r
      | Tuple_expr es \<Rightarrow> each add_target es r
      | _ \<Rightarrow> Abort Todo) = Ok r1" "steps (map visit ifs) r1 = Ok r'"
    by (auto simp: visit_comprehension_def g and_then_eq_Ok)
  have "sound r1 \<and> grown r r1"
    using r1(1) add_target_keeps [OF assms(1,2)] each_sound [of add_target, OF add_target_keeps assms(1,2)]
    by (cases target) auto
  moreover have "keeps_sound (size g) (steps (map visit ifs))"
    by (rule steps_keep) (auto intro!: keeps_soundI dest: visit_keeps)
  ultimately show ?thesis using keeps_soundD r1(2) grown_trans by blast
qed

lemma visit_work_keeps:
  assumes "sound r" "(\<exists>n. w = Visit_node n) \<or> scope_type (current_scope r) \<in> {FUNCTION, CLOSURE}" "visit_work w r = Ok r'"
  shows "sound r'"
proof (cases w)
  case (Visit_node n)
  then show ?thesis using visit_keeps assms by (auto simp: visit_work_def)
next
  case (Visit_arguments a)
  then show ?thesis using assms each_sound [of add_argument, OF add_argument_keeps]
    by (cases a) (auto simp: visit_work_def visit_arguments_def)
next
  case (Visit_comprehension g)
  then show ?thesis using assms visit_comprehension_keeps [of r g r'] by (auto simp: visit_work_def)
qed

lemma visit_next_keeps:
  assumes "sound r" "visit_next r = Ok r'"
  shows "sound r'"
proof (cases "to_visit r")
  case Nil
  then show ?thesis using assms by (simp add: visit_next_def)
next
  case (Cons iw rest)
  obtain i w where iw: "iw = (i, w)" by (cases iw)
  let ?r = "r\<lparr>to_visit := rest, current := i\<rparr>"
  have w: "i < length (scopes r)" "(\<exists>n. w = Visit_node n) \<or> scope_type (scopes r ! i) \<in> {FUNCTION, CLOSURE}"
    using assms(1) Cons iw by (auto simp: sound_def tree_ok_def)
  then have "sound ?r" using assms(1) Cons by (auto simp: sound_def tree_ok_def chain_ok_def)
  then show ?thesis using visit_work_keeps [of ?r w r'] w(2) assms(2) Cons iw by (simp add: visit_next_def)
qed

lemma visit_all_keeps: "sound r \<Longrightarrow> visit_all r = Some (Ok r') \<Longrightarrow> sound r'"
proof (induction r rule: wf_induct_rule [OF wf_queue_order])
  case (1 r)
  show ?case
  proof (cases "to_visit r = []")
    case True
    then show ?thesis using 1 by (simp add: visit_all.simps)
  next
    case False
    then obtain r1 where r1: "visit_next r = Ok r1" "visit_all r1 = Some (Ok r')"
      using 1(3) by (auto simp: visit_all.simps [of r] split: py_result.splits)
    then show ?thesis using 1(1) [OF visit_next_smaller [OF False r1(1)]] visit_next_keeps [OF 1(2)] by blast
  qed
qed

lemma module_start_sound: "module_start m loc body = Ok r \<Longrightarrow> sound r"
proof -
  assume run: "module_start m loc body = Ok r"
  let ?r = "\<lparr>visibility_map = [m \<mapsto> 0], scopes = [module_scope m], to_visit = [], current = 0\<rparr>"
  have "sound ?r"
    by (auto simp: sound_def tree_ok_def chain_ok_def scope_ok_def module_scope_def sees_def get_visible_symbol_def
        visible_names_def)
  from run obtain r1 where r1: "Resolver.store ''__name__'' loc MODULE ?r = Ok r1" "r = enqueue (map Visit_node body) r1"
    by (auto simp: module_start_def and_then_eq_Ok)
  have "sound r1" using store_keeps [OF \<open>sound ?r\<close> r1(1)] by (simp add: module_scope_def)
  then show "sound r" unfolding r1(2) by (rule sound_enqueue) auto
qed

lemma resolve_sound:
  assumes "resolve m loc body = Some (Ok r)"
  shows "sound r"
proof -
  from assms obtain r0 where "module_start m loc body = Ok r0" "visit_all r0 = Some (Ok r)"
    by (auto simp: resolve_def split: py_result.splits)
  then show ?thesis using module_start_sound visit_all_keeps by blast
qed

section \<open>The results\<close>

text \<open>C36: The resolution of every program ends, with the scopes or with a failure.\<close>

theorem resolve_terminates: "\<exists>result. resolve m loc body = Some result"
  using visit_all_returns by (auto simp: resolve_def split: py_result.split)

text \<open>C37: The scopes of a result form a tree with the module as its root, in which parents stand before
  their children. In every scope a name has at most one visible symbol; hidden symbols are in classes,
  and local names and names of the module are not.\<close>

theorem scopes_well_formed:
  assumes "resolve m loc body = Some (Ok r)" "i < length (scopes r)"
  shows "(parent (scopes r ! i) = None \<longleftrightarrow> i = 0) \<and>
    (\<forall>p. parent (scopes r ! i) = Some p \<longrightarrow> p < i) \<and>
    distinct (visible_names (symbol_map (scopes r ! i))) \<and>
    (\<forall>s \<in> set (symbol_map (scopes r ! i)).
       if scope_type (scopes r ! i) = CLASS then visibility_of s \<notin> {LOCAL, NAME} else visibility_of s \<noteq> HIDDEN)"
proof -
  have tree: "tree_ok r" and ok: "scope_ok (scopes r ! i)" using resolve_sound [OF assms(1)] assms(2) by (simp_all add: sound_def)
  have "parent (scopes r ! i) = None \<longleftrightarrow> i = 0" using tree assms(2) by (auto simp: tree_ok_def)
  moreover have "\<forall>p. parent (scopes r ! i) = Some p \<longrightarrow> p < i" using up_Cons [OF tree assms(2)] by simp
  ultimately show ?thesis using ok by (auto simp: scope_ok_def)
qed

lemma free_sees:
  assumes "distinct (visible_names m)" "s \<in> set m" "visibility_of s \<noteq> HIDDEN"
  shows "get_visible_symbol (symbol_name s) m = Some s"
  using assms by (induction m) (auto simp: get_visible_symbol_def visible_names_def split: if_splits)

lemma free_path:
  assumes "sound r" "i < length (scopes r)" "sees (scopes r ! i) name = Some FREE"
  shows "\<exists>pre j rest. up r i = pre @ j # rest \<and> (\<forall>k \<in> set pre. sees (scopes r ! k) name = Some FREE) \<and> j \<noteq> 0 \<and>
    (sees (scopes r ! j) name = Some CELL \<or>
     scope_type (scopes r ! j) = CLASS \<and> sees (scopes r ! j) name \<in> {Some IMPLICIT_GLOBAL, Some EXPLICIT_GLOBAL})"
  using assms(2,3)
proof (induction i rule: less_induct)
  case (less i)
  have tree: "tree_ok r" using assms(1) by (simp add: sound_def)
  from assms(1) less.prems obtain p where p: "parent (scopes r ! i) = Some p" "p \<noteq> 0" "binds (scopes r ! p) name"
    unfolding sound_def chain_ok_def by blast
  from up_Cons [OF tree less.prems(1) p(1)] have up: "up r i = p # up r p" "p < i" by simp_all
  show ?case
  proof (cases "sees (scopes r ! p) name = Some FREE")
    case True
    from less.IH [OF up(2) _ True] up(2) less.prems(1) obtain pre j rest where
      "up r p = pre @ j # rest" "\<forall>k \<in> set pre. sees (scopes r ! k) name = Some FREE" "j \<noteq> 0"
      "sees (scopes r ! j) name = Some CELL \<or>
       scope_type (scopes r ! j) = CLASS \<and> sees (scopes r ! j) name \<in> {Some IMPLICIT_GLOBAL, Some EXPLICIT_GLOBAL}"
      by auto
    then show ?thesis using up(1) True by (intro exI [of _ "p # pre"] exI [of _ j] exI [of _ rest]) simp
  next
    case False
    then show ?thesis using up(1) p(2,3) unfolding binds_def
      by (intro exI [of _ "[]"] exI [of _ p] exI [of _ "up r p"]) auto
  qed
qed

text \<open>C35: A free variable of a scope is among its captures. Through the scopes around it, in each of which
  it is free as well, it leads to the scope that has it as a cell, which is not the module; the one
  exception is a class that declares the name global after it has assigned it.\<close>

theorem free_variables_captured:
  assumes "resolve m loc body = Some (Ok r)" "i < length (scopes r)"
    "s \<in> set (symbol_map (scopes r ! i))" "visibility_of s = FREE"
  shows "symbol_name s \<in> set (captures (scopes r ! i)) \<and>
    (\<exists>pre j rest. up r i = pre @ j # rest \<and> j \<noteq> 0 \<and>
       (\<forall>k \<in> set pre. sees (scopes r ! k) (symbol_name s) = Some FREE) \<and>
       (sees (scopes r ! j) (symbol_name s) = Some CELL \<or>
        scope_type (scopes r ! j) = CLASS \<and>
        sees (scopes r ! j) (symbol_name s) \<in> {Some IMPLICIT_GLOBAL, Some EXPLICIT_GLOBAL}))"
proof -
  have sound: "sound r" using resolve_sound [OF assms(1)] .
  then have ok: "scope_ok (scopes r ! i)" using assms(2) by (simp add: sound_def)
  then have "sees (scopes r ! i) (symbol_name s) = Some FREE"
    using free_sees [OF _ assms(3)] assms(4) by (simp add: sees_def scope_ok_def)
  from free_path [OF sound assms(2) this] show ?thesis using ok assms(3,4) by (auto simp: scope_ok_def)
qed

section \<open>Assignments in a nested function\<close>

lemma annotate_current:
  assumes "tree_ok r" "top_level_node name r = Some top_node" "sees (current_scope r) name = None"
    "annotate_free_and_cell_variables name r = Ok r'"
  shows "sees (scopes r' ! current r) name = Some FREE"
proof -
  obtain pre rest where way: "up r (current r) = pre @ top_node # rest"
    using top_level_node_spec [OF assms(2)] by metis
  have cur: "current r < length (scopes r)" using assms(1) by (simp add: tree_ok_def)
  have less: "j < current r" if "j \<in> set (pre @ top_node # rest)" for j
    using up_less [OF assms(1) cur] that way by simp
  have path: "\<exists>js. takeWhile (\<lambda>i. i \<noteq> top_node) (current r # ancestors r) = current r # js \<and> current r \<notin> set js"
    using less [of "current r"] less [of top_node] way by (auto simp: ancestors_up dest!: set_takeWhileD)
  then obtain js where js: "takeWhile (\<lambda>i. i \<noteq> top_node) (current r # ancestors r) = current r # js" "current r \<notin> set js"
    by blast
  let ?r = "foldr (mark_free name) (current r # js) r"
  have r': "make_cell name top_node ?r = Ok r'"
    using assms(4) by (simp only: annotate_free_and_cell_variables_def assms(2) option.case js(1) fold_foldr_mark)
  have "scopes (foldr (mark_free name) js r) ! current r = current_scope r" using foldr_mark_fields(4) [OF js(2)] .
  then have "sees (scopes ?r ! current r) name = Some FREE"
    using assms(3) cur by (simp add: scopes_mark_free foldr_mark_fields sees_def visible_add)
  moreover have "current r \<noteq> top_node" using less [of top_node] by auto
  ultimately show ?thesis using r'
    by (auto simp: make_cell_def add_to_def delete_from_def update_scope_def split: option.splits if_splits)
qed


section \<open>Programs\<close>

definition no_arguments :: arguments where
  "no_arguments = Arguments [] [] [] None None [] []"

definition assign_x :: "nat \<Rightarrow> node" where
  "assign_x line = Assign [Name (line, 0) STORE [''x'']] Constant"

definition read_x :: "nat \<Rightarrow> node" where
  "read_x line = Return (Some (Name (line, 0) LOAD [''x'']))"

text \<open>\<^verbatim>\<open>def f(): x = 1\<close>, in which \<^verbatim>\<open>def g(): return x\<close> and \<^verbatim>\<open>def h(): x = 2\<close>.\<close>

definition siblings_program :: "node list" where
  "siblings_program =
     [FunctionDefinition (1, 0) ''f'' no_arguments
        [assign_x 2, FunctionDefinition (3, 0) ''g'' no_arguments [read_x 4] [] None,
         FunctionDefinition (5, 0) ''h'' no_arguments [assign_x 6] [] None] [] None]"

text \<open>\<^verbatim>\<open>x = 1\<close>, and a class with a method that assigns and returns its own \<^verbatim>\<open>x\<close>.\<close>

definition method_program :: "node list" where
  "method_program =
     [assign_x 1, ClassDefinition (2, 0) ''A'' [] []
        [FunctionDefinition (3, 0) ''m'' no_arguments [assign_x 4, read_x 5] [] None] []]"

text \<open>\<^verbatim>\<open>f(**{k: k for k in d})\<close>.\<close>

definition keyword_program :: "node list" where
  "keyword_program =
     [Call (Name (1, 0) LOAD [''f'']) []
        [Keyword (1, 2) None (DictComp (1, 4) (Name (1, 5) LOAD [''k'']) (Name (1, 7) LOAD [''k''])
           [Comprehension (Name (1, 9) STORE [''k'']) (Name (1, 10) LOAD [''d'']) []])]]"

definition seen_in :: "resolver py_result option \<Rightarrow> nat \<Rightarrow> string \<Rightarrow> visibility option" where
  "seen_in result i name = (case result of Some (Ok r) \<Rightarrow> sees (scopes r ! i) name | _ \<Rightarrow> None)"

definition fault_of :: "resolver py_result option \<Rightarrow> fault option" where
  "fault_of result = (case result of Some (Abort a) \<Rightarrow> Some a | _ \<Rightarrow> None)"

lemma siblings_seen: "seen_in (resolve ''m'' (0, 0) siblings_program) 2 ''x'' = Some FREE"
  by code_simp

lemma siblings_resolved:
  obtains r where "resolve ''m'' (0, 0) siblings_program = Some (Ok r)" "sees (scopes r ! 2) ''x'' = Some FREE"
  using siblings_seen by (auto simp: seen_in_def split: option.splits py_result.splits)


theorem scopes_well_formed_witness:
  "\<exists>r. resolve ''m'' (0, 0) siblings_program = Some (Ok r) \<and> parent (scopes r ! 0) = None"
proof -
  obtain r where r: "resolve ''m'' (0, 0) siblings_program = Some (Ok r)" using siblings_resolved .
  then have "0 < length (scopes r)" using resolve_sound by (fastforce simp: sound_def tree_ok_def)
  then show ?thesis using scopes_well_formed [OF r, of 0] r by blast
qed

lemma siblings_free:
  "case resolve ''m'' (0, 0) siblings_program of
     Some (Ok r) \<Rightarrow> 2 < length (scopes r) \<and> symbol ''x'' FREE (0, 0) \<in> set (symbol_map (scopes r ! 2))
   | _ \<Rightarrow> False"
  by code_simp

theorem free_variables_captured_witness:
  "\<exists>r. resolve ''m'' (0, 0) siblings_program = Some (Ok r) \<and> ''x'' \<in> set (captures (scopes r ! 2))"
proof -
  from siblings_free obtain r where r: "resolve ''m'' (0, 0) siblings_program = Some (Ok r)" "2 < length (scopes r)"
    "symbol ''x'' FREE (0, 0) \<in> set (symbol_map (scopes r ! 2))" by (auto split: option.splits py_result.splits)
  then show ?thesis using free_variables_captured [OF r] by auto
qed

definition nested_state :: "visibility \<Rightarrow> resolver" where
  "nested_state v =
     \<lparr>visibility_map = Map.empty,
      scopes = [module_scope ''m'',
        (module_scope ''f'')\<lparr>scope_type := FUNCTION, parent := Some 0, symbol_map := [symbol ''x'' v (2, 0)]\<rparr>,
        (module_scope ''h'')\<lparr>scope_type := CLOSURE, parent := Some 1\<rparr>],
      to_visit = [], current = 2\<rparr>"


end
