(* ===== verification/Literals.thy ===== *)
theory Literals
  imports Prelude "HOL-Library.Char_ord"
begin

text \<open>
  Reading string and bytes literals: \<^verbatim>\<open>PyString::from_unescaped_string\<close>
  (\<^verbatim>\<open>src/src/runtime/PyString.cpp\<close>) and \<^verbatim>\<open>PyBytes::from_unescaped_string\<close>
  (\<^verbatim>\<open>src/src/runtime/PyBytes.cpp\<close>), over the bytes of the literal. The encoding of a code point by
  ICU (\<^verbatim>\<open>UnicodeString::toUTF8String\<close>) is a parameter.
\<close>

section \<open>Numbers in escapes\<close>

definition code :: "char \<Rightarrow> nat" where
  "code c = of_char c"

definition octal_digit :: "char \<Rightarrow> bool" where
  "octal_digit c \<longleftrightarrow> 48 \<le> code c \<and> code c \<le> 55"

definition hex_digit :: "char \<Rightarrow> nat option" where
  "hex_digit c =
     (if 48 \<le> code c \<and> code c \<le> 57 then Some (code c - 48)
      else if 97 \<le> code c \<and> code c \<le> 102 then Some (code c - 87)
      else if 65 \<le> code c \<and> code c \<le> 70 then Some (code c - 55)
      else None)"

definition c_space :: "char \<Rightarrow> bool" where
  "c_space c \<longleftrightarrow> code c = 32 \<or> 9 \<le> code c \<and> code c \<le> 13"

fun hex_digits :: "string \<Rightarrow> nat list" where
  "hex_digits [] = []"
| "hex_digits (c # s) = (case hex_digit c of None \<Rightarrow> [] | Some d \<Rightarrow> d # hex_digits s)"

text \<open>\<^verbatim>\<open>std::strtol\<close> with base 16: white space, a sign, a prefix, and all digits that follow, clamped to
  a \<^verbatim>\<open>long\<close>. \<open>None\<close> if there is no digit.\<close>

definition strtol16 :: "string \<Rightarrow> int option" where
  "strtol16 s =
     (let s1 = dropWhile c_space s;
          negative = (s1 \<noteq> [] \<and> hd s1 = CHR ''-'');
          s2 = (if s1 \<noteq> [] \<and> hd s1 \<in> {CHR ''-'', CHR ''+''} then tl s1 else s1);
          s3 = (if 3 \<le> length s2 \<and> hd s2 = CHR ''0'' \<and> s2 ! 1 \<in> {CHR ''x'', CHR ''X''} \<and> hex_digit (s2 ! 2) \<noteq> None
                then drop 2 s2 else s2);
          ds = hex_digits s3;
          n = int (foldl (\<lambda>acc d. 16 * acc + d) 0 ds) in
      if ds = [] then None
      else Some (if negative then max (- (2 ^ 63)) (- n) else min (2 ^ 63 - 1) n))"

section \<open>Strings\<close>

text \<open>The value of an octal escape whose first digit has been read, and the rest.\<close>

definition octal_escape :: "char \<Rightarrow> string \<Rightarrow> nat \<times> string" where
  "octal_escape d s =
     (let c = code d - 48 in
      case s of
        [] \<Rightarrow> (c, s)
      | d1 # s1 \<Rightarrow>
          if octal_digit d1
          then (let c1 = 8 * c + (code d1 - 48) in
            case s1 of
              [] \<Rightarrow> (c1, s1)
            | d2 # s2 \<Rightarrow> if octal_digit d2 then (8 * c1 + (code d2 - 48), s2) else (c1, s1))
          else (c, s))"

definition simple_escape :: "char \<Rightarrow> char option" where
  "simple_escape d =
     (if d = CHR 0x5C then Some (CHR 0x5C)
      else if d = CHR 0x27 then Some (CHR 0x27)
      else if d = CHR 0x22 then Some (CHR 0x22)
      else if d = CHR ''b'' then Some (CHR 0x08)
      else if d = CHR ''f'' then Some (CHR 0x0C)
      else if d = CHR ''t'' then Some (CHR 0x09)
      else if d = CHR ''n'' then Some (CHR 0x0A)
      else if d = CHR ''r'' then Some (CHR 0x0D)
      else if d = CHR ''v'' then Some (CHR 0x0B)
      else if d = CHR ''a'' then Some (CHR 0x07)
      else None)"

text \<open>The two digits behind \<open>\x\<close>, read by an \<^verbatim>\<open>istringstream\<close>, which stores 0 when there is no number and
  nothing when there is only white space.\<close>

definition hex_escape :: "string \<Rightarrow> string py_result" where
  "hex_escape v =
     (let c = (case strtol16 v of None \<Rightarrow> 0 | Some c \<Rightarrow> c) in
      if list_all c_space v then Abort Undefined
      else assert_that (c \<le> 255)
        (Ok (if c \<le> 0x7F then [char_of (nat (c mod 256))]
             else [char_of (0xC0 + nat c div 64), char_of (0x80 + nat c mod 64)])))"

text \<open>\<^verbatim>\<open>strtol\<close> reads on behind the digits of the escape, up to the end of the string.\<close>

definition unicode_escape :: "(int \<Rightarrow> string) \<Rightarrow> nat \<Rightarrow> string \<Rightarrow> (string \<times> string) py_result" where
  "unicode_escape utf8 n s =
     (if length s < n then Abort Undefined
      else case strtol16 s of
        None \<Rightarrow> Abort Todo
      | Some cp \<Rightarrow> Ok (utf8 (sint (word_of_int cp :: 32 word)), drop n s))"

text \<open>A named character is looked up with an error code that is not initialised.\<close>

definition named_escape :: "string \<Rightarrow> (string \<times> string) py_result" where
  "named_escape s =
     (case s of
        [] \<Rightarrow> Abort Todo
      | c # s1 \<Rightarrow> if c \<noteq> CHR ''{'' \<or> CHR ''}'' \<notin> set s1 then Abort Todo else Abort Undefined)"

text \<open>What a backslash and the character behind it stand for, and what is left of the string.\<close>

definition string_escape :: "(int \<Rightarrow> string) \<Rightarrow> char \<Rightarrow> string \<Rightarrow> (string \<times> string) py_result" where
  "string_escape utf8 d s =
     (if d = CHR 0x0A then Ok ([], s)
      else case simple_escape d of
        Some c \<Rightarrow> Ok ([c], s)
      | None \<Rightarrow>
          if octal_digit d
          then (case octal_escape d s of (c, rest) \<Rightarrow> assert_that (c \<le> 255) (Ok ([char_of c], rest)))
          else if d = CHR ''x''
          then if length s < 2 then Abort Todo
               else and_then (hex_escape (take 2 s)) (\<lambda>t. Ok (t, drop 2 s))
          else if d = CHR ''u'' then unicode_escape utf8 4 s
          else if d = CHR ''U'' then unicode_escape utf8 8 s
          else if d = CHR ''N'' then named_escape s
          else Ok ([CHR 0x5C, d], s))"

section \<open>Bytes\<close>

definition to_digit_value :: "char \<Rightarrow> nat" where
  "to_digit_value c =
     (if 48 \<le> code c \<and> code c \<le> 57 then code c - 48
      else if 97 \<le> code c \<and> code c \<le> 122 then code c - 87
      else if 65 \<le> code c \<and> code c \<le> 90 then code c - 55
      else 37)"

text \<open>An \<open>\x\<close> without two digits is dropped.\<close>

definition bytes_escape :: "char \<Rightarrow> string \<Rightarrow> (string \<times> string) py_result" where
  "bytes_escape d s =
     (if d = CHR 0x0A then Ok ([], s)
      else case simple_escape d of
        Some c \<Rightarrow> Ok ([c], s)
      | None \<Rightarrow>
          if octal_digit d
          then (case octal_escape d s of (c, rest) \<Rightarrow> assert_that (c < 255) (Ok ([char_of c], rest)))
          else if d = CHR ''x''
          then if length s < 2 then Abort Todo
               else if to_digit_value (s ! 0) < 16 \<and> to_digit_value (s ! 1) < 16
               then Ok ([char_of (16 * to_digit_value (s ! 0) + to_digit_value (s ! 1))], drop 2 s)
               else Ok ([], s)
          else Ok ([CHR 0x5C, d], s))"

section \<open>The loops\<close>

lemma octal_escape_shorter: "octal_escape d s = (c, rest) \<Longrightarrow> length rest \<le> length s"
  by (auto simp: octal_escape_def Let_def split: list.splits if_splits)

lemma string_escape_shorter: "string_escape utf8 d s = Ok (t, rest) \<Longrightarrow> length rest \<le> length s"
  by (auto simp: string_escape_def unicode_escape_def named_escape_def result_simps
      split: if_splits option.splits list.splits prod.splits dest: octal_escape_shorter)

lemma bytes_escape_shorter: "bytes_escape d s = Ok (t, rest) \<Longrightarrow> length rest \<le> length s"
  by (auto simp: bytes_escape_def result_simps
      split: if_splits option.splits prod.splits dest: octal_escape_shorter)

function unescape_string :: "(int \<Rightarrow> string) \<Rightarrow> string \<Rightarrow> string py_result" where
  "unescape_string utf8 [] = Ok []"
| "unescape_string utf8 (c # s) =
     (if c \<noteq> CHR 0x5C then and_then (unescape_string utf8 s) (\<lambda>u. Ok (c # u))
      else case s of
        [] \<Rightarrow> Abort Todo
      | d # s1 \<Rightarrow>
          (case string_escape utf8 d s1 of
             Ok (t, rest) \<Rightarrow> and_then (unescape_string utf8 rest) (\<lambda>u. Ok (t @ u))
           | Err e \<Rightarrow> Err e
           | Abort a \<Rightarrow> Abort a))"
  by pat_completeness auto
termination
  by (relation "measure (\<lambda>(utf8, s). length s)") (auto dest: string_escape_shorter)

function unescape_bytes :: "string \<Rightarrow> string py_result" where
  "unescape_bytes [] = Ok []"
| "unescape_bytes (c # s) =
     (if c \<noteq> CHR 0x5C then and_then (unescape_bytes s) (\<lambda>u. Ok (c # u))
      else case s of
        [] \<Rightarrow> Abort Todo
      | d # s1 \<Rightarrow>
          (case bytes_escape d s1 of
             Ok (t, rest) \<Rightarrow> and_then (unescape_bytes rest) (\<lambda>u. Ok (t @ u))
           | Err e \<Rightarrow> Err e
           | Abort a \<Rightarrow> Abort a))"
  by pat_completeness auto
termination
  by (relation "measure length") (auto dest: bytes_escape_shorter)

section \<open>The text of a literal\<close>

definition is_quote :: "char \<Rightarrow> bool" where
  "is_quote c \<longleftrightarrow> c = CHR 0x22 \<or> c = CHR 0x27"

definition triple_quoted :: "string \<Rightarrow> bool" where
  "triple_quoted v \<longleftrightarrow> 3 \<le> length v \<and> is_quote (v ! 0) \<and> is_quote (v ! 1) \<and> is_quote (v ! 2)"

text \<open>\<^verbatim>\<open>substr(n, size - 2 * n)\<close>, where a size that is too small wraps around to the rest.\<close>

definition unquoted :: "nat \<Rightarrow> string \<Rightarrow> string" where
  "unquoted n v = (if 2 * n \<le> length v then take (length v - 2 * n) (drop n v) else drop n v)"

text \<open>\<^verbatim>\<open>parse_bytes\<close>: the text of a bytes literal, \<open>None\<close> for another one.\<close>

definition parse_bytes :: "string \<Rightarrow> string py_result option" where
  "parse_bytes v =
     (if v = [] \<or> hd v \<notin> {CHR ''b'', CHR ''B''} then None
      else Some (let w = tl v in
        if triple_quoted w then unescape_bytes (unquoted 3 w) else unescape_bytes (unquoted 1 w)))"

text \<open>A string literal; a raw one is not unescaped.\<close>

definition parse_string :: "(int \<Rightarrow> string) \<Rightarrow> string \<Rightarrow> string py_result" where
  "parse_string utf8 v =
     (if v = [] then Abort Undefined
      else let raw = (hd v = CHR ''r''); w = (if raw then tl v else v);
               text = (if triple_quoted w then unquoted 3 w else unquoted 1 w) in
        if raw then Ok text else unescape_string utf8 text)"

text \<open>The middle of an f-string: doubled braces are one brace.\<close>

fun undouble_braces :: "string \<Rightarrow> string" where
  "undouble_braces (c # d # s) =
     (if c = d \<and> c \<in> {CHR ''{'', CHR ''}''} then c # undouble_braces s else c # undouble_braces (d # s))"
| "undouble_braces s = s"

end
