(* ===== verification/Grammar.thy ===== *)
theory Grammar
  imports Lexer_Main Literals
begin

text \<open>
  The engine of the parser (\<^verbatim>\<open>src/src/parser/Parser.cpp\<close>, up to the rules, and \<^verbatim>\<open>Parser.hpp\<close>): the
  patterns from which the rules are built, the types of their results, the cache, and the matching
  with left recursion. The tokens are those \<^verbatim>\<open>peek_token\<close> of the lexer returns. A recursion that may
  not end has a bound; \<open>Diverges\<close> says that it was too small.
\<close>

section \<open>Values\<close>

type_synonym source_location = "position \<times> position"

text \<open>What a pattern returns. \<open>Node\<close> is a node of the syntax tree with its class, the arguments of its
  constructor and its location, \<open>Struct\<close> an object of another class, \<open>Enum\<close> a constant of an
  enumeration. The numbers \<^verbatim>\<open>double\<close> are kept as the text they are read from.\<close>

datatype (plugins only: size code) "value" =
    Token_result token
  | Monostate
  | Nullptr
  | Vector "value list"
  | Optional "value option"
  | Tuple_of "value list"
  | Node string "value list" source_location
  | Struct string "value list"
  | Enum string
  | Int_value int
  | Double_value string
  | String_value string
  | Bytes_value string
  | Py_object string
  | Flag bool

fun start_of :: "value \<Rightarrow> position" where
  "start_of (Node c args (s, e)) = s"
| "start_of (Token_result t) = m_start t"
| "start_of v = \<lparr>row = 0, column = 0, pointer_to_program = 0\<rparr>"

fun end_of :: "value \<Rightarrow> position" where
  "end_of (Node c args (s, e)) = e"
| "end_of (Token_result t) = m_end t"
| "end_of v = \<lparr>row = 0, column = 0, pointer_to_program = 0\<rparr>"

definition between :: "value \<Rightarrow> value \<Rightarrow> source_location" where
  "between v w = (start_of v, end_of w)"

fun elements_of :: "value \<Rightarrow> value list" where
  "elements_of (Vector vs) = vs"
| "elements_of (Optional (Some (Vector vs))) = vs"
| "elements_of v = []"

text \<open>A component of a tuple, and the value in an optional one.\<close>

fun component :: "nat \<Rightarrow> value \<Rightarrow> value" where
  "component n (Tuple_of vs) = (if n < length vs then vs ! n else Monostate)"
| "component n (Optional (Some v)) = component n v"
| "component n v = Monostate"

fun value_or :: "value \<Rightarrow> value \<Rightarrow> value" where
  "value_or (Optional (Some v)) d = v"
| "value_or v d = d"

definition has_value :: "value \<Rightarrow> bool" where
  "has_value v \<longleftrightarrow> (case v of Optional (Some _) \<Rightarrow> True | _ \<Rightarrow> False)"

definition is_node :: "string \<Rightarrow> value \<Rightarrow> bool" where
  "is_node c v \<longleftrightarrow> (case v of Node d _ _ \<Rightarrow> c = d | _ \<Rightarrow> False)"

fun fields_of :: "value \<Rightarrow> value list" where
  "fields_of (Node c args loc) = args"
| "fields_of v = []"

section \<open>Patterns and their types\<close>

text \<open>\<open>Keyword\<close> is \<^verbatim>\<open>AndLiteralV2<SingleTokenPatternV2<NAME>, ...>\<close>, the only use of that pattern, and
  \<open>Not_reserved\<close> is \<^verbatim>\<open>NotAtPatternV2<ReservedKeywords>\<close>. Every \<^verbatim>\<open>SingleTokenPatternV2\<close> of the
  grammar has one token type.\<close>

datatype (plugins only: size code) pattern =
    Rule string
  | Single token_type
  | Keyword string
  | Not_reserved
  | One_or_more "pattern list"
  | Zero_or_more "pattern list"
  | Zero_or_one "pattern list"
  | Separated pattern pattern
  | Or "pattern list"
  | Group "pattern list"
  | Not_ahead pattern
  | Ahead pattern

datatype (plugins only: size code) ctype =
    Ast
  | Pointer string
  | Token_type
  | Token_of token_type
  | Unit_type
  | Vector_type ctype
  | Optional_type ctype
  | Tuple_type "ctype list"
  | Variant_type "ctype list"
  | Struct_type string

definition reserved_keywords :: "string list" where
  "reserved_keywords =
     [''and'', ''as'', ''assert'', ''async'', ''await'', ''break'', ''class'', ''continue'', ''def'', ''del'',
      ''elif'', ''else'', ''except'', ''finally'', ''for'', ''from'', ''global'', ''if'', ''is'', ''import'',
      ''in'', ''lambda'', ''nonlocal'', ''not'', ''or'', ''pass'', ''raise'', ''return'', ''try'', ''while'',
      ''with'', ''yield'']"

definition is_pointer :: "ctype \<Rightarrow> bool" where
  "is_pointer t \<longleftrightarrow> (case t of Ast \<Rightarrow> True | Pointer _ \<Rightarrow> True | _ \<Rightarrow> False)"

text \<open>The type of a choice: the types without duplicates, one type if they are equal, a node if all are
  nodes, and a variant otherwise.\<close>

definition choice_type :: "ctype list \<Rightarrow> ctype" where
  "choice_type ts =
     (case remdups ts of
        [t] \<Rightarrow> t
      | us \<Rightarrow> if \<forall>u \<in> set us. is_pointer u then Ast else Variant_type us)"

definition sequence_type :: "ctype list \<Rightarrow> ctype" where
  "sequence_type ts = (case ts of [t] \<Rightarrow> t | _ \<Rightarrow> Tuple_type ts)"

primrec result_type :: "(string \<Rightarrow> ctype) \<Rightarrow> pattern \<Rightarrow> ctype" where
  "result_type traits (Rule r) = traits r"
| "result_type traits (Single t) = Token_of t"
| "result_type traits (Keyword w) = Token_type"
| "result_type traits Not_reserved = Unit_type"
| "result_type traits (One_or_more ps) = Vector_type (sequence_type (map (result_type traits) ps))"
| "result_type traits (Zero_or_more ps) = Vector_type (sequence_type (map (result_type traits) ps))"
| "result_type traits (Zero_or_one ps) = Optional_type (sequence_type (map (result_type traits) ps))"
| "result_type traits (Separated main sep) = Vector_type (result_type traits main)"
| "result_type traits (Or ps) = choice_type (map (result_type traits) ps)"
| "result_type traits (Group ps) = Tuple_type (map (result_type traits) ps)"
| "result_type traits (Not_ahead q) = Unit_type"
| "result_type traits (Ahead q) = Unit_type"

text \<open>Only results of the types of \<^verbatim>\<open>CacheValue::ValueType\<close> are cached.\<close>

definition cached_type :: "ctype \<Rightarrow> bool" where
  "cached_type t \<longleftrightarrow> t = Ast \<or> t = Vector_type Token_type"

section \<open>Rules\<close>

text \<open>The program and its tokens, and what the rules need of libraries: \<^verbatim>\<open>toUTF8String\<close> of ICU and the
  constructor of \<^verbatim>\<open>mpz_class\<close> from a text in a base, which throws for a malformed text. Base 0 stands
  for a constructor without a base.\<close>

record input =
  program :: string
  tokens :: "token list"
  utf8 :: "int \<Rightarrow> string"
  big_int :: "nat \<Rightarrow> string \<Rightarrow> int option"

definition peek_at :: "input \<Rightarrow> nat \<Rightarrow> token option" where
  "peek_at inp i = (if i < length (tokens inp) then Some (tokens inp ! i) else None)"

definition text_between :: "input \<Rightarrow> position \<Rightarrow> position \<Rightarrow> string" where
  "text_between inp s e =
     take (pointer_to_program e - pointer_to_program s) (drop (pointer_to_program s) (program inp))"

definition token_text :: "input \<Rightarrow> token \<Rightarrow> string" where
  "token_text inp t = text_between inp (m_start t) (m_end t)"

fun text_of :: "input \<Rightarrow> value \<Rightarrow> string" where
  "text_of inp (Token_result t) = token_text inp t"
| "text_of inp v = []"

text \<open>What the code behind an alternative does: it returns a value or no match, whatever alternatives
  there are left, or it stops the program. It sees the token positions before and behind the match. Code
  behind all alternatives is an alternative without patterns.\<close>

datatype (plugins only: code) outcome = Return "value" | No_match | Stop fault

type_synonym action = "input \<Rightarrow> nat \<times> nat \<Rightarrow> value list \<Rightarrow> outcome"

record rule =
  traits :: ctype
  alternatives :: "(pattern list \<times> action) list"

type_synonym grammar = "string \<rightharpoonup> rule"

definition rule_type :: "grammar \<Rightarrow> string \<Rightarrow> ctype" where
  "rule_type g r = (case g r of Some x \<Rightarrow> traits x | None \<Rightarrow> Unit_type)"

definition is_cached :: "grammar \<Rightarrow> pattern \<Rightarrow> bool" where
  "is_cached g pat \<longleftrightarrow> cached_type (result_type (rule_type g) pat)"

section \<open>The parser\<close>

type_synonym cache_key = "pattern \<times> nat \<times> token_type"

text \<open>A pattern that is being matched holds a flag, which says if it was met again at the same place.\<close>

datatype (plugins only: code) cache_value = Seed bool nat | Memo "value" nat

record parser =
  token_position :: nat
  m_cache :: "cache_key \<rightharpoonup> cache_value option"

datatype (plugins only: code) 'a parsed = Match 'a parser | Mismatch parser | Crash fault | Diverges

type_synonym matcher = "parser \<Rightarrow> value parsed"

definition key_of :: "pattern \<Rightarrow> token \<Rightarrow> cache_key" where
  "key_of pat t = (pat, pointer_to_program (m_start t), m_token_type t)"

definition move_to :: "nat \<Rightarrow> parser \<Rightarrow> parser" where
  "move_to i p = p\<lparr>token_position := i\<rparr>"

definition remember :: "cache_key \<Rightarrow> cache_value option \<Rightarrow> parser \<Rightarrow> parser" where
  "remember line v p = p\<lparr>m_cache := (m_cache p)(line \<mapsto> v)\<rparr>"

text \<open>A mismatch puts the parser back to a position.\<close>

definition or_back_to :: "nat \<Rightarrow> 'a parsed \<Rightarrow> 'a parsed" where
  "or_back_to i x = (case x of Mismatch p \<Rightarrow> Mismatch (move_to i p) | _ \<Rightarrow> x)"

fun then_match :: "'a parsed \<Rightarrow> ('a \<Rightarrow> parser \<Rightarrow> 'b parsed) \<Rightarrow> (parser \<Rightarrow> 'b parsed) \<Rightarrow> 'b parsed" where
  "then_match (Match v p) f h = f v p"
| "then_match (Mismatch p) f h = h p"
| "then_match (Crash a) f h = Crash a"
| "then_match Diverges f h = Diverges"

section \<open>Sequences of patterns\<close>

text \<open>\<^verbatim>\<open>PatternMatchV2_\<close>: the first pattern is looked up in the cache or matched, then the others.\<close>

definition advance_by :: "pattern \<Rightarrow> nat" where
  "advance_by pat = (case pat of Single _ \<Rightarrow> 1 | Keyword _ \<Rightarrow> 1 | _ \<Rightarrow> 0)"

definition advance_over :: "pattern \<Rightarrow> (parser \<Rightarrow> value list parsed) \<Rightarrow> value \<Rightarrow> parser \<Rightarrow> value list parsed" where
  "advance_over pat tail v p =
     then_match (tail (move_to (token_position p + advance_by pat) p)) (\<lambda>vs. Match (v # vs)) Mismatch"

definition match_first ::
  "grammar \<Rightarrow> input \<Rightarrow> (pattern \<Rightarrow> matcher) \<Rightarrow> pattern \<Rightarrow> (parser \<Rightarrow> value list parsed) \<Rightarrow> parser \<Rightarrow>
   value list parsed" where
  "match_first g inp matches pat tail p =
     (case peek_at inp (token_position p) of
        None \<Rightarrow> Mismatch p
      | Some t \<Rightarrow>
          if is_cached g pat
          then let line = key_of pat t in
            case m_cache p line of
              Some None \<Rightarrow> Mismatch p
            | Some (Some (Seed b i)) \<Rightarrow> Mismatch (remember line (Some (Seed True i)) (move_to i p))
            | Some (Some (Memo v i)) \<Rightarrow> advance_over pat tail v (move_to i p)
            | None \<Rightarrow>
                then_match (matches pat p)
                  (\<lambda>v p'. advance_over pat tail v (remember line (Some (Memo v (token_position p'))) p'))
                  (\<lambda>p'. Mismatch (remember line None (move_to (token_position p) p')))
          else then_match (matches pat p) (advance_over pat tail)
                 (\<lambda>p'. Mismatch (move_to (token_position p) p')))"

fun match_from :: "grammar \<Rightarrow> input \<Rightarrow> (pattern \<Rightarrow> matcher) \<Rightarrow> pattern list \<Rightarrow> parser \<Rightarrow> value list parsed" where
  "match_from g inp matches [] = Match []"
| "match_from g inp matches (pat # pats) = match_first g inp matches pat (match_from g inp matches pats)"

definition match :: "grammar \<Rightarrow> input \<Rightarrow> (pattern \<Rightarrow> matcher) \<Rightarrow> pattern list \<Rightarrow> parser \<Rightarrow> value list parsed" where
  "match g inp matches pats p = or_back_to (token_position p) (match_from g inp matches pats p)"

section \<open>Repetitions and choices\<close>

definition gathered :: "value list \<Rightarrow> value" where
  "gathered vs = (case vs of [v] \<Rightarrow> v | _ \<Rightarrow> Tuple_of vs)"

text \<open>The loop of \<^verbatim>\<open>OneOrMorePatternV2\<close> and \<^verbatim>\<open>ZeroOrMorePatternV2\<close>, behind the first match; the values
  are collected in reverse.\<close>

fun repeat_match :: "nat \<Rightarrow> (parser \<Rightarrow> value list parsed) \<Rightarrow> value list \<Rightarrow> matcher" where
  "repeat_match 0 one acc p = Diverges"
| "repeat_match (Suc n) one acc p =
     then_match (one p) (\<lambda>vs p'. repeat_match n one (gathered vs # acc) p')
       (\<lambda>p'. Match (Vector (rev acc)) (move_to (token_position p) p'))"

definition one_or_more :: "nat \<Rightarrow> (parser \<Rightarrow> value list parsed) \<Rightarrow> matcher" where
  "one_or_more n one p = then_match (one p) (\<lambda>vs. repeat_match n one [gathered vs]) Mismatch"

definition zero_or_more :: "nat \<Rightarrow> (parser \<Rightarrow> value list parsed) \<Rightarrow> matcher" where
  "zero_or_more n one p = then_match (one p) (\<lambda>vs. repeat_match n one [gathered vs]) (Match (Vector []))"

definition zero_or_one :: "(parser \<Rightarrow> value list parsed) \<Rightarrow> matcher" where
  "zero_or_one one p =
     then_match (one p) (\<lambda>vs. Match (Optional (Some (gathered vs))))
       (\<lambda>p'. Match (Optional None) (move_to (token_position p) p'))"

text \<open>\<^verbatim>\<open>ApplyInBetweenPatternV2\<close>: a separator behind which the main pattern does not match is given
  back.\<close>

fun separated :: "nat \<Rightarrow> (parser \<Rightarrow> value list parsed) \<Rightarrow> (parser \<Rightarrow> value list parsed) \<Rightarrow> nat option \<Rightarrow>
  value list \<Rightarrow> matcher" where
  "separated 0 main sep original acc p = Diverges"
| "separated (Suc n) main sep original acc p =
     then_match (main p)
       (\<lambda>vs p1. then_match (sep p1)
          (\<lambda>_ p2. separated n main sep (Some (token_position p1)) (gathered vs # acc) p2)
          (\<lambda>p2. Match (Vector (rev (gathered vs # acc))) p2))
       (\<lambda>p1. case original of
          None \<Rightarrow> Mismatch p1
        | Some i \<Rightarrow> Match (Vector (rev acc)) (move_to i p1))"

fun first_of :: "(pattern list \<Rightarrow> parser \<Rightarrow> value list parsed) \<Rightarrow> pattern list \<Rightarrow> matcher" where
  "first_of one [] p = Mismatch p"
| "first_of one (pat # pats) p =
     then_match (one [pat] p) (\<lambda>vs. Match (gathered vs)) (first_of one pats)"

section \<open>Single tokens and lookahead\<close>

definition single_token :: "input \<Rightarrow> token_type \<Rightarrow> matcher" where
  "single_token inp t p =
     (case peek_at inp (token_position p) of
        None \<Rightarrow> Crash Undefined
      | Some tok \<Rightarrow> if m_token_type tok = t then Match (Token_result tok) p else Mismatch p)"

definition keyword :: "input \<Rightarrow> string \<Rightarrow> matcher" where
  "keyword inp w p =
     then_match (single_token inp NAME p)
       (\<lambda>v p'. if text_of inp v = w then Match v p' else Mismatch p') Mismatch"

definition not_reserved :: "input \<Rightarrow> matcher" where
  "not_reserved inp p =
     (case peek_at inp (token_position p) of
        None \<Rightarrow> Crash Undefined
      | Some tok \<Rightarrow>
          if token_text inp tok \<in> set reserved_keywords then Mismatch p else Match Monostate p)"

definition ahead :: "matcher \<Rightarrow> matcher" where
  "ahead m p =
     then_match (m p) (\<lambda>_ p'. Match Monostate (move_to (token_position p) p'))
       (\<lambda>p'. Mismatch (move_to (token_position p) p'))"

definition not_ahead :: "matcher \<Rightarrow> matcher" where
  "not_ahead m p =
     then_match (m p) (\<lambda>_ p'. Mismatch (move_to (token_position p) p'))
       (\<lambda>p'. Match Monostate (move_to (token_position p) p'))"

section \<open>Rules and left recursion\<close>

fun try_alternatives ::
  "input \<Rightarrow> (pattern list \<Rightarrow> parser \<Rightarrow> value list parsed) \<Rightarrow> (pattern list \<times> action) list \<Rightarrow> matcher" where
  "try_alternatives inp one [] p = Mismatch p"
| "try_alternatives inp one ((pats, act) # alts) p =
     then_match (one pats p)
       (\<lambda>vs p'. case act inp (token_position p, token_position p') vs of
          Return v \<Rightarrow> Match v p'
        | No_match \<Rightarrow> Mismatch p'
        | Stop a \<Rightarrow> Crash a)
       (try_alternatives inp one alts)"

text \<open>\<^verbatim>\<open>matches_impl\<close> of a pattern, over the \<^verbatim>\<open>matches\<close> of the others.\<close>

definition matches_impl :: "grammar \<Rightarrow> input \<Rightarrow> nat \<Rightarrow> (pattern \<Rightarrow> matcher) \<Rightarrow> pattern \<Rightarrow> matcher" where
  "matches_impl g inp n matches pat =
     (let one = match g inp matches in
      case pat of
        Rule r \<Rightarrow> (case g r of Some x \<Rightarrow> try_alternatives inp one (alternatives x) | None \<Rightarrow> Mismatch)
      | Single t \<Rightarrow> single_token inp t
      | Keyword w \<Rightarrow> keyword inp w
      | Not_reserved \<Rightarrow> not_reserved inp
      | One_or_more pats \<Rightarrow> one_or_more n (one pats)
      | Zero_or_more pats \<Rightarrow> zero_or_more n (one pats)
      | Zero_or_one pats \<Rightarrow> zero_or_one (one pats)
      | Separated main sep \<Rightarrow> separated n (one [main]) (one [sep]) None []
      | Or pats \<Rightarrow> first_of one pats
      | Group pats \<Rightarrow> (\<lambda>p. then_match (one pats p) (\<lambda>vs. Match (Tuple_of vs)) Mismatch)
      | Not_ahead q \<Rightarrow> not_ahead (matches q)
      | Ahead q \<Rightarrow> ahead (matches q))"

text \<open>The loop that lets the result of a left recursive pattern grow: what the pattern matches with the
  last result in the cache is the next result, as long as it reaches further.\<close>

fun grow_lr :: "nat \<Rightarrow> matcher \<Rightarrow> cache_key \<Rightarrow> nat \<Rightarrow> matcher" where
  "grow_lr 0 impl line i p = Diverges"
| "grow_lr (Suc n) impl line i p =
     (let stop = (\<lambda>p'. case m_cache p' line of
          Some (Some (Memo v k)) \<Rightarrow> Match v (move_to k p')
        | Some (Some (Seed b k)) \<Rightarrow> Mismatch (move_to k p')
        | _ \<Rightarrow> Crash Undefined) in
      then_match (impl (move_to i p))
        (\<lambda>v p'. case m_cache p' line of
            Some (Some (Memo w k)) \<Rightarrow>
              if token_position p' \<le> k then stop p'
              else grow_lr n impl line i (remember line (Some (Memo v (token_position p'))) p')
          | Some (Some (Seed b k)) \<Rightarrow>
              if token_position p' \<le> k then stop p'
              else grow_lr n impl line i (remember line (Some (Memo v (token_position p'))) p')
          | _ \<Rightarrow> Crash Undefined)
        stop)"

text \<open>\<^verbatim>\<open>PatternV2::matches\<close>.\<close>

definition match_pattern :: "grammar \<Rightarrow> input \<Rightarrow> nat \<Rightarrow> (pattern \<Rightarrow> matcher) \<Rightarrow> pattern \<Rightarrow> matcher" where
  "match_pattern g inp n impl pat p =
     (if is_cached g pat
      then case peek_at inp (token_position p) of
          None \<Rightarrow> Crash Assertion
        | Some t \<Rightarrow>
            (let i = token_position p; line = key_of pat t in
             then_match (impl pat (remember line (Some (Seed False i)) p))
               (\<lambda>v p'. case m_cache p' line of
                  None \<Rightarrow> Crash Undefined
                | Some None \<Rightarrow> Crash Assertion
                | Some (Some (Seed True k)) \<Rightarrow> grow_lr n (impl pat) line i p'
                | Some (Some _) \<Rightarrow> Match v p')
               (\<lambda>p'. Mismatch (move_to i p')))
      else or_back_to (token_position p) (impl pat p))"

fun matches :: "nat \<Rightarrow> grammar \<Rightarrow> input \<Rightarrow> pattern \<Rightarrow> matcher" where
  "matches 0 g inp pat p = Diverges"
| "matches (Suc n) g inp pat p = match_pattern g inp n (matches_impl g inp n (matches n g inp)) pat p"

definition new_parser :: parser where
  "new_parser = \<lparr>token_position = 0, m_cache = Map.empty\<rparr>"

end
