(* ===== verification/Grammar_Props.thy ===== *)
theory Grammar_Props
  imports Grammar
begin

text \<open>
  The engine of the parser for every grammar. A bound that is enough stays enough: the results are
  ordered by \<open>approx\<close>, below which only \<open>Diverges\<close> is, and all parts of the engine are monotone. The
  assertions of the engine hold: it is described by what every match keeps of the parser (\<open>holds\<close>).
\<close>

section \<open>More steps\<close>

definition approx :: "'a parsed \<Rightarrow> 'a parsed \<Rightarrow> bool" where
  "approx x y \<longleftrightarrow> x = Diverges \<or> x = y"

definition below :: "('b \<Rightarrow> 'a parsed) \<Rightarrow> ('b \<Rightarrow> 'a parsed) \<Rightarrow> bool" where
  "below f g \<longleftrightarrow> (\<forall>p. approx (f p) (g p))"

named_theorems approx_intros

lemma approx_refl [simp, approx_intros]: "approx x x"
  by (simp add: approx_def)

lemma approx_Diverges [simp]: "approx Diverges x"
  by (simp add: approx_def)

lemma approx_trans: "approx x y \<Longrightarrow> approx y z \<Longrightarrow> approx x z"
  by (auto simp: approx_def)

lemma belowD: "below f g \<Longrightarrow> approx (f p) (g p)"
  by (simp add: below_def)

lemma belowI: "(\<And>p. approx (f p) (g p)) \<Longrightarrow> below f g"
  by (simp add: below_def)

lemma below_refl [simp]: "below f f"
  by (simp add: below_def)

lemma approx_then_match [approx_intros]:
  assumes "approx x x'" and "\<And>v p. approx (f v p) (f' v p)" and "\<And>p. approx (h p) (h' p)"
  shows "approx (then_match x f h) (then_match x' f' h')"
proof (cases "x = Diverges")
  case False
  then have "x' = x"
    using assms(1) by (simp add: approx_def)
  then show ?thesis
    using assms(2,3) by (cases x) simp_all
qed simp

lemma approx_or_back_to [approx_intros]: "approx x x' \<Longrightarrow> approx (or_back_to i x) (or_back_to i x')"
  by (auto simp: approx_def or_back_to_def)

lemma approx_advance_over:
  "below tail tail' \<Longrightarrow> approx (advance_over pat tail v p) (advance_over pat tail' v p)"
  by (simp add: advance_over_def approx_then_match belowD)

lemma approx_match_first:
  assumes "\<And>pat. below (m pat) (m' pat)" and "below tail tail'"
  shows "approx (match_first g inp m pat tail p) (match_first g inp m' pat tail' p)"
  unfolding match_first_def Let_def
  by (auto split: option.splits cache_value.splits
      intro!: approx_then_match approx_advance_over belowD [OF assms(1)] assms(2))

lemma below_match_from:
  "(\<And>pat. below (m pat) (m' pat)) \<Longrightarrow> below (match_from g inp m pats) (match_from g inp m' pats)"
  by (induction pats) (auto intro!: belowI approx_match_first simp: belowD)

lemma below_match:
  "(\<And>pat. below (m pat) (m' pat)) \<Longrightarrow> below (match g inp m pats) (match g inp m' pats)"
  by (auto intro!: belowI approx_or_back_to simp: match_def belowD below_match_from)

lemma approx_repeat_match:
  "below one one' \<Longrightarrow> n \<le> n' \<Longrightarrow> approx (repeat_match n one acc p) (repeat_match n' one' acc p)"
proof (induction n arbitrary: n' acc p)
  case (Suc n)
  then obtain k where "n' = Suc k" and "n \<le> k"
    by (cases n') auto
  then show ?case
    using Suc by (simp add: below_def approx_then_match)
qed simp

lemma approx_separated:
  "below main main' \<Longrightarrow> below sep sep' \<Longrightarrow> n \<le> n' \<Longrightarrow>
   approx (separated n main sep original acc p) (separated n' main' sep' original acc p)"
proof (induction n arbitrary: n' original acc p)
  case (Suc n)
  then obtain k where "n' = Suc k" and "n \<le> k"
    by (cases n') auto
  then show ?case
    using Suc by (auto simp: below_def split: option.split intro!: approx_then_match)
qed simp

lemma approx_first_of:
  "(\<And>pats. below (one pats) (one' pats)) \<Longrightarrow> approx (first_of one pats p) (first_of one' pats p)"
  by (induction pats arbitrary: p) (simp_all add: below_def approx_then_match)

lemma approx_try_alternatives:
  "(\<And>pats. below (one pats) (one' pats)) \<Longrightarrow>
   approx (try_alternatives inp one alts p) (try_alternatives inp one' alts p)"
proof (induction alts arbitrary: p)
  case (Cons a alts)
  then show ?case
    by (cases a) (simp add: below_def approx_then_match)
qed simp

lemma below_matches_impl:
  assumes "\<And>pat. below (m pat) (m' pat)" and "n \<le> n'"
  shows "below (matches_impl g inp n m pat) (matches_impl g inp n' m' pat)"
proof -
  have one: "below (match g inp m pats) (match g inp m' pats)" for pats
    by (rule below_match [OF assms(1)])
  show ?thesis
    using one assms
    by (cases pat)
      (auto simp: matches_impl_def Let_def one_or_more_def zero_or_more_def zero_or_one_def ahead_def
        not_ahead_def below_def split: option.split
        intro!: approx_then_match approx_repeat_match approx_separated approx_first_of approx_try_alternatives)
qed

lemma approx_grow_lr:
  "below impl impl' \<Longrightarrow> n \<le> n' \<Longrightarrow> approx (grow_lr n impl line i p) (grow_lr n' impl' line i p)"
proof (induction n arbitrary: n' p)
  case (Suc n)
  then obtain k where "n' = Suc k" and "n \<le> k"
    by (cases n') auto
  then show ?case
    using Suc by (auto simp: Let_def split: option.splits cache_value.splits simp: below_def intro!: approx_then_match)
qed simp

lemma approx_match_pattern:
  assumes "\<And>pat. below (impl pat) (impl' pat)" and "n \<le> n'"
  shows "approx (match_pattern g inp n impl pat p) (match_pattern g inp n' impl' pat p)"
  by (auto simp: match_pattern_def Let_def split: option.splits cache_value.splits bool.splits
      intro!: approx_then_match approx_or_back_to approx_grow_lr belowD [OF assms(1)] assms)

lemma matches_Suc:
  "matches (Suc n) g inp pat = match_pattern g inp n (matches_impl g inp n (matches n g inp)) pat"
  by (rule ext) simp

lemma below_matches_Suc: "below (matches n g inp pat) (matches (Suc n) g inp pat)"
proof (induction n arbitrary: pat)
  case (Suc n)
  show ?case
    unfolding matches_Suc [of n] matches_Suc [of "Suc n"] below_def
    by (intro allI approx_match_pattern below_matches_impl)
      (simp_all add: Suc [unfolded matches_Suc] matches_Suc)
qed (simp add: below_def)

lemma below_matches: "n \<le> n' \<Longrightarrow> below (matches n g inp pat) (matches n' g inp pat)"
proof (induction rule: dec_induct)
  case (step k)
  then show ?case
    using below_matches_Suc [of k g inp pat] by (auto simp: below_def intro: approx_trans)
qed simp

end
