(* ===== verification/Grammar_Sound.thy ===== *)
theory Grammar_Sound
  imports Grammar_Props
begin

text \<open>
  What a grammar means without cache, order or recursion limits, and that the engine preserves to it: every
  value it returns has a derivation over the tokens it matched. Besides, a match preserves the entries of the
  cache, and the engine fails no assertion of its own.
\<close>

section \<open>Derivations\<close>

inductive derives :: "grammar \<Rightarrow> input \<Rightarrow> pattern \<Rightarrow> nat \<Rightarrow> nat \<Rightarrow> value \<Rightarrow> bool"
  and derives_all :: "grammar \<Rightarrow> input \<Rightarrow> pattern list \<Rightarrow> nat \<Rightarrow> nat \<Rightarrow> value list \<Rightarrow> bool"
  and derives_many :: "grammar \<Rightarrow> input \<Rightarrow> pattern list \<Rightarrow> nat \<Rightarrow> nat \<Rightarrow> value list \<Rightarrow> bool"
  and derives_separated :: "grammar \<Rightarrow> input \<Rightarrow> pattern \<Rightarrow> pattern \<Rightarrow> nat \<Rightarrow> nat \<Rightarrow> value list \<Rightarrow> bool"
  for g :: grammar and inp :: input where
  Single: "peek_at inp i = Some tok \<Longrightarrow> m_token_type tok = t \<Longrightarrow> derives g inp (Single t) i (Suc i) (Token_result tok)"
| Keyword: "peek_at inp i = Some tok \<Longrightarrow> m_token_type tok = NAME \<Longrightarrow> token_text inp tok = w \<Longrightarrow>
    derives g inp (Keyword w) i (Suc i) (Token_result tok)"
| Not_reserved: "peek_at inp i = Some tok \<Longrightarrow> token_text inp tok \<notin> set reserved_keywords \<Longrightarrow>
    derives g inp Not_reserved i i Monostate"
| Rule: "g r = Some x \<Longrightarrow> (pats, act) \<in> set (alternatives x) \<Longrightarrow> derives_all g inp pats i k vs \<Longrightarrow>
    act inp (i, k) vs = Return v \<Longrightarrow> derives g inp (Rule r) i k v"
| One_or_more: "derives_many g inp pats i k vs \<Longrightarrow> vs \<noteq> [] \<Longrightarrow> derives g inp (One_or_more pats) i k (Vector vs)"
| Zero_or_more: "derives_many g inp pats i k vs \<Longrightarrow> derives g inp (Zero_or_more pats) i k (Vector vs)"
| Zero: "derives g inp (Zero_or_one pats) i i (Optional None)"
| One: "derives_all g inp pats i k vs \<Longrightarrow> derives g inp (Zero_or_one pats) i k (Optional (Some (gathered vs)))"
| Separated: "derives_separated g inp main sep i k vs \<Longrightarrow> derives g inp (Separated main sep) i k (Vector vs)"
| Or: "q \<in> set pats \<Longrightarrow> derives g inp q i k v \<Longrightarrow> derives g inp (Or pats) i k v"
| Group: "derives_all g inp pats i k vs \<Longrightarrow> derives g inp (Group pats) i k (Tuple_of vs)"
| Ahead: "derives g inp q i k v \<Longrightarrow> derives g inp (Ahead q) i i Monostate"
| Not_ahead: "derives g inp (Not_ahead q) i i Monostate"
| Nil: "derives_all g inp [] i i []"
| Cons: "derives g inp q i j v \<Longrightarrow> derives_all g inp qs j k vs \<Longrightarrow> derives_all g inp (q # qs) i k (v # vs)"
| None: "derives_many g inp pats i i []"
| More: "derives_many g inp pats i j vs \<Longrightarrow> derives_all g inp pats j k ws \<Longrightarrow>
    derives_many g inp pats i k (vs @ [gathered ws])"
| First: "derives g inp main i k v \<Longrightarrow> derives_separated g inp main sep i k [v]"
| Next: "derives_separated g inp main sep i j vs \<Longrightarrow> derives g inp sep j j' u \<Longrightarrow> derives g inp main j' k v \<Longrightarrow>
    derives_separated g inp main sep i k (vs @ [v])"

lemmas derivation = derives_derives_all_derives_many_derives_separated.intros

inductive_cases derives_all_NilE: "derives_all g inp [] i k vs"
inductive_cases derives_all_ConsE: "derives_all g inp (q # qs) i k vs"

inductive_cases derives_RuleE: "derives g inp (Rule r) i k v"
inductive_cases derives_SingleE: "derives g inp (Single t) i k v"
inductive_cases derives_KeywordE: "derives g inp (Keyword w) i k v"
inductive_cases derives_SeparatedE: "derives g inp (Separated main sep) i k v"
inductive_cases derives_Zero_or_oneE: "derives g inp (Zero_or_one pats) i k v"
inductive_cases derives_OrE: "derives g inp (Or pats) i k v"

lemma derives_all_single: "derives_all g inp [q] i k vs \<Longrightarrow> derives g inp q i k (gathered vs)"
  by (auto elim!: derives_all_ConsE derives_all_NilE simp: gathered_def)

lemma first_derived: "derives_all g inp pats i k vs \<Longrightarrow> derives_many g inp pats i k [gathered vs]"
  using derivation(17) [OF derivation(16)] by fastforce

text \<open>A match never goes back, and never past the end.\<close>

lemma derives_forward:
  shows "derives g inp pat i k v \<Longrightarrow> i \<le> k \<and> (i \<le> length (tokens inp) \<longrightarrow> k \<le> length (tokens inp))"
    and "derives_all g inp pats i k vs \<Longrightarrow> i \<le> k \<and> (i \<le> length (tokens inp) \<longrightarrow> k \<le> length (tokens inp))"
    and "derives_many g inp pats i k vs \<Longrightarrow> i \<le> k \<and> (i \<le> length (tokens inp) \<longrightarrow> k \<le> length (tokens inp))"
    and "derives_separated g inp main sep i k vs \<Longrightarrow>
      i \<le> k \<and> (i \<le> length (tokens inp) \<longrightarrow> k \<le> length (tokens inp))"
  by (induction rule: derives_derives_all_derives_many_derives_separated.inducts)
    (auto simp: peek_at_def split: if_splits)

section \<open>What a match does to the parser\<close>

primrec holds :: "('a \<Rightarrow> parser \<Rightarrow> bool) \<Rightarrow> (parser \<Rightarrow> bool) \<Rightarrow> (fault \<Rightarrow> bool) \<Rightarrow> 'a parsed \<Rightarrow> bool" where
  "holds A B C (Match v p) \<longleftrightarrow> A v p"
| "holds A B C (Mismatch p) \<longleftrightarrow> B p"
| "holds A B C (Crash a) \<longleftrightarrow> C a"
| "holds A B C Diverges \<longleftrightarrow> True"

lemma holds_then_match:
  assumes "holds A B C x" and "\<And>v p. A v p \<Longrightarrow> holds A' B' C (f v p)" and "\<And>p. B p \<Longrightarrow> holds A' B' C (h p)"
  shows "holds A' B' C (then_match x f h)"
  using assms by (cases x) auto

lemma holds_mono: "holds A B C x \<Longrightarrow> (\<And>v p. A v p \<Longrightarrow> A' v p) \<Longrightarrow> (\<And>p. B p \<Longrightarrow> B' p) \<Longrightarrow> holds A' B' C x"
  by (cases x) auto

lemma holds_or_back_to: "holds A (\<lambda>p. B (move_to i p)) C x \<Longrightarrow> holds A B C (or_back_to i x)"
  by (cases x) (auto simp: or_back_to_def)

text \<open>An entry of the cache stays as it is, but for the flag of a seed.\<close>

definition similar :: "cache_value option \<Rightarrow> cache_value option \<Rightarrow> bool" where
  "similar e e' \<longleftrightarrow> e' = e \<or> (\<exists>b b' i. e = Some (Seed b i) \<and> e' = Some (Seed b' i))"

definition preserves :: "cache_key set \<Rightarrow> parser \<Rightarrow> parser \<Rightarrow> bool" where
  "preserves X p p' \<longleftrightarrow>
     (\<forall>line e. line \<notin> X \<longrightarrow> m_cache p line = Some e \<longrightarrow> (\<exists>e'. m_cache p' line = Some e' \<and> similar e e'))"

lemma similar_refl [simp]: "similar e e"
  by (simp add: similar_def)

lemma similar_trans: "similar e e' \<Longrightarrow> similar e' e'' \<Longrightarrow> similar e e''"
  by (auto simp: similar_def)

lemma preserves_refl [simp]: "preserves X p p"
  by (simp add: preserves_def)

lemma preserves_trans: "preserves X p q \<Longrightarrow> preserves X q r \<Longrightarrow> preserves X p r"
  unfolding preserves_def by (meson similar_trans)

lemma preservesD: "preserves X p q \<Longrightarrow> m_cache p line = Some e \<Longrightarrow> line \<notin> X \<Longrightarrow> \<exists>e'. m_cache q line = Some e' \<and> similar e e'"
  unfolding preserves_def by blast

lemma preserves_mono: "preserves X p q \<Longrightarrow> X \<subseteq> Y \<Longrightarrow> preserves Y p q"
  unfolding preserves_def by blast

lemma parser_updates [simp]:
  "token_position (move_to i p) = i"
  "m_cache (move_to i p) = m_cache p"
  "token_position (remember line e p) = token_position p"
  "m_cache (remember line e p) = (m_cache p)(line \<mapsto> e)"
  "move_to i (move_to j p) = move_to i p"
  by (simp_all add: move_to_def remember_def)

lemma preserves_cache [simp]: "preserves X (move_to i p) q = preserves X p q" "preserves X p (move_to i q) = preserves X p q"
  by (simp_all add: preserves_def)

lemma preserves_remember:
  "m_cache p line = None \<or> line \<in> X \<or> (\<exists>e'. m_cache p line = Some e' \<and> similar e' e) \<Longrightarrow> preserves X p (remember line e p)"
  by (auto simp: preserves_def)

lemma preserves_back: "preserves X (remember line e p) q \<Longrightarrow> m_cache p line = None \<Longrightarrow> preserves X p q"
  unfolding preserves_def by (metis fun_upd_apply option.discI parser_updates(4))

lemma preserves_new: "preserves X p q \<Longrightarrow> m_cache p line = None \<Longrightarrow> preserves X p (remember line e q)"
  unfolding preserves_def by (metis fun_upd_apply option.discI parser_updates(4))

lemma preserves_seed:
  "m_cache p line = Some (Some (Seed b i)) \<Longrightarrow> preserves X p (remember line (Some (Seed True i)) (move_to k p))"
  unfolding preserves_def similar_def by auto

text \<open>Tokens whose entries are the same lead to the same derivations.\<close>

definition apart :: "grammar \<Rightarrow> pattern set \<Rightarrow> input \<Rightarrow> bool" where
  "apart g U inp \<longleftrightarrow>
     (\<forall>pat i j tok tok' k v. pat \<in> U \<longrightarrow> is_cached g pat \<longrightarrow> peek_at inp i = Some tok \<longrightarrow> peek_at inp j = Some tok' \<longrightarrow>
        key_of pat tok = key_of pat tok' \<longrightarrow> derives g inp pat i k v \<longrightarrow> derives g inp pat j k v)"

text \<open>What is memoised has a derivation, and every position at which it is found.\<close>

definition sound :: "grammar \<Rightarrow> pattern set \<Rightarrow> input \<Rightarrow> parser \<Rightarrow> bool" where
  "sound g U inp p \<longleftrightarrow>
     (\<forall>pat i tok v k. apart g U inp \<longrightarrow> pat \<in> U \<longrightarrow> is_cached g pat \<longrightarrow> peek_at inp i = Some tok \<longrightarrow>
        m_cache p (key_of pat tok) = Some (Some (Memo v k)) \<longrightarrow> derives g inp pat i k v)"

lemma sound_move_to [simp]: "sound g U inp (move_to i p) = sound g U inp p"
  by (simp add: sound_def)

lemma sound_remember:
  assumes "sound g U inp p"
    and "\<And>v k. e = Some (Memo v k) \<Longrightarrow> apart g U inp \<Longrightarrow> derives g inp pat i k v"
    and "pat \<in> U" and "is_cached g pat" and "peek_at inp i = Some tok"
  shows "sound g U inp (remember (key_of pat tok) e p)"
  unfolding sound_def
proof (intro allI impI)
  fix pat' i' tok' v k
  assume a: "apart g U inp" "pat' \<in> U" "is_cached g pat'" "peek_at inp i' = Some tok'"
    "m_cache (remember (key_of pat tok) e p) (key_of pat' tok') = Some (Some (Memo v k))"
  show "derives g inp pat' i' k v"
  proof (cases "key_of pat' tok' = key_of pat tok")
    case True
    then have "pat' = pat" and "e = Some (Memo v k)"
      using a(5) by (auto simp: key_of_def)
    then show ?thesis
      using a(1,4) True assms(2-5) unfolding apart_def by metis
  next
    case False
    then show ?thesis
      using a assms(1) by (simp add: sound_def)
  qed
qed

definition raised :: "grammar \<Rightarrow> input \<Rightarrow> fault \<Rightarrow> bool" where
  "raised g inp a \<longleftrightarrow>
     (\<exists>r x pats act i vs. g r = Some x \<and> (pats, act) \<in> set (alternatives x) \<and> act inp i vs = Stop a)"

lemma raisedI: "g r = Some x \<Longrightarrow> (pats, act) \<in> set (alternatives x) \<Longrightarrow> act inp i vs = Stop a \<Longrightarrow> raised g inp a"
  unfolding raised_def by blast

definition matched :: "grammar \<Rightarrow> pattern set \<Rightarrow> input \<Rightarrow> pattern \<Rightarrow> parser \<Rightarrow> value \<Rightarrow> parser \<Rightarrow> bool" where
  "matched g U inp pat p v p' \<longleftrightarrow>
     (apart g U inp \<longrightarrow> derives g inp pat (token_position p) (token_position p' + advance_by pat) v) \<and>
     sound g U inp p' \<and> preserves {} p p'"

definition matched_all :: "grammar \<Rightarrow> pattern set \<Rightarrow> input \<Rightarrow> pattern list \<Rightarrow> parser \<Rightarrow> value list \<Rightarrow> parser \<Rightarrow> bool" where
  "matched_all g U inp pats p vs p' \<longleftrightarrow>
     (apart g U inp \<longrightarrow> derives_all g inp pats (token_position p) (token_position p') vs) \<and>
     sound g U inp p' \<and> preserves {} p p'"

definition failed :: "grammar \<Rightarrow> pattern set \<Rightarrow> input \<Rightarrow> parser \<Rightarrow> parser \<Rightarrow> bool" where
  "failed g U inp p p' \<longleftrightarrow> token_position p' = token_position p \<and> sound g U inp p' \<and> preserves {} p p'"

definition somewhere :: "grammar \<Rightarrow> pattern set \<Rightarrow> input \<Rightarrow> parser \<Rightarrow> parser \<Rightarrow> bool" where
  "somewhere g U inp p p' \<longleftrightarrow> sound g U inp p' \<and> preserves {} p p'"

text \<open>The patterns that occur: with a pattern its parts, and those of the rules. The results of the
  patterns behind a lookahead are not cached.\<close>

fun parts :: "pattern \<Rightarrow> pattern list" where
  "parts (One_or_more pats) = pats"
| "parts (Zero_or_more pats) = pats"
| "parts (Zero_or_one pats) = pats"
| "parts (Separated main sep) = [main, sep]"
| "parts (Or pats) = pats"
| "parts (Group pats) = pats"
| "parts (Not_ahead q) = [q]"
| "parts (Ahead q) = [q]"
| "parts pat = []"

definition closed_patterns :: "grammar \<Rightarrow> pattern set \<Rightarrow> bool" where
  "closed_patterns g U \<longleftrightarrow>
     (\<forall>pat \<in> U. set (parts pat) \<subseteq> U) \<and>
     (\<forall>q. Ahead q \<in> U \<or> Not_ahead q \<in> U \<longrightarrow> \<not> is_cached g q) \<and>
     (\<forall>r x. g r = Some x \<longrightarrow> (\<forall>(pats, act) \<in> set (alternatives x). set pats \<subseteq> U))"

lemma closed_parts: "closed_patterns g U \<Longrightarrow> pat \<in> U \<Longrightarrow> set (parts pat) \<subseteq> U"
  by (simp add: closed_patterns_def)

lemma closed_rules:
  "closed_patterns g U \<Longrightarrow> g r = Some x \<Longrightarrow> (pats, act) \<in> set (alternatives x) \<Longrightarrow> set pats \<subseteq> U"
  unfolding closed_patterns_def by fastforce

section \<open>Sequences, repetitions and choices\<close>

text \<open>What a sequence of patterns relies on: the contract of \<^verbatim>\<open>matches\<close>. A pattern whose result is cached
  is only asked for when there is no entry.\<close>

locale matcher =
  fixes g :: grammar and U :: "pattern set" and inp :: input and m :: "pattern \<Rightarrow> parser \<Rightarrow> value parsed"
  assumes contract: "closed_patterns g U \<Longrightarrow> pat \<in> U \<Longrightarrow> sound g U inp p \<Longrightarrow>
    peek_at inp (token_position p) = Some t \<Longrightarrow> (is_cached g pat \<longrightarrow> m_cache p (key_of pat t) = None) \<Longrightarrow>
    holds (matched g U inp pat p) (failed g U inp p) (raised g inp) (m pat p)"
begin

lemma advance_over_holds:
  assumes "matched g U inp pat p v q" and "closed_patterns g U" and "set pats \<subseteq> U"
    and "\<And>q. sound g U inp q \<Longrightarrow> holds (matched_all g U inp pats q) (somewhere g U inp q) (raised g inp) (match_from g inp m pats q)"
  shows "holds (matched_all g U inp (pat # pats) p) (somewhere g U inp p) (raised g inp)
    (advance_over pat (match_from g inp m pats) v q)"
proof -
  let ?q = "move_to (token_position q + advance_by pat) q"
  have "sound g U inp ?q" and k: "preserves {} p q"
    using assms(1) by (auto simp: matched_def)
  then show ?thesis
    unfolding advance_over_def
    using assms(1)
    by (intro holds_then_match [OF assms(4)])
      (auto simp: matched_all_def matched_def somewhere_def intro: derivation(15) preserves_trans)
qed

lemma match_first_holds:
  assumes "closed_patterns g U" and "pat \<in> U" and "set pats \<subseteq> U" and "sound g U inp p"
    and tail: "\<And>q. sound g U inp q \<Longrightarrow>
      holds (matched_all g U inp pats q) (somewhere g U inp q) (raised g inp) (match_from g inp m pats q)"
  shows "holds (matched_all g U inp (pat # pats) p) (somewhere g U inp p) (raised g inp)
    (match_first g inp m pat (match_from g inp m pats) p)"
proof (cases "peek_at inp (token_position p)")
  case None
  then show ?thesis
    using assms(4) by (simp add: match_first_def somewhere_def)
next
  case (Some t)
  note adv = advance_over_holds [OF _ assms(1,3) tail]
  let ?line = "key_of pat t"
  show ?thesis
  proof (cases "is_cached g pat")
    case False
    then show ?thesis
      using contract [OF assms(1,2,4) Some] adv
      by (auto simp: match_first_def Some failed_def somewhere_def intro!: holds_then_match)
  next
    case True
    then have still: "advance_by pat = 0"
      by (auto simp: advance_by_def is_cached_def cached_type_def split: pattern.split)
    show ?thesis
    proof (cases "m_cache p ?line")
      case absent: None
      have "matched g U inp pat p v (remember ?line (Some (Memo v (token_position q))) q)"
        if "matched g U inp pat p v q" for v q
        using that True Some absent still assms(2) by (auto simp: matched_def intro!: sound_remember preserves_new)
      moreover have "somewhere g U inp p (remember ?line None (move_to (token_position p) q))" if "failed g U inp p q" for q
        using that True Some absent assms(2) by (auto simp: failed_def somewhere_def intro!: sound_remember preserves_new)
      ultimately show ?thesis
        using contract [OF assms(1,2,4) Some] adv
        by (auto simp: match_first_def Some True absent Let_def intro!: holds_then_match)
    next
      case entry: (Some e)
      show ?thesis
      proof (cases e)
        case None
        then show ?thesis
          using assms(4) by (simp add: match_first_def Some True entry somewhere_def)
      next
        case there: (Some c)
        show ?thesis
        proof (cases c)
          case (Seed b i)
          then show ?thesis
            using assms(2,4) True Some entry there
            by (auto simp: match_first_def somewhere_def intro!: sound_remember preserves_seed)
        next
          case (Memo v i)
          then have "matched g U inp pat p v (move_to i p)"
            using assms(2,4) True Some entry there still by (auto simp: matched_def sound_def)
          then show ?thesis
            using adv by (simp add: match_first_def Some True entry there Memo)
        qed
      qed
    qed
  qed
qed

lemma match_from_holds:
  assumes "closed_patterns g U" and "set pats \<subseteq> U" and "sound g U inp p"
  shows "holds (matched_all g U inp pats p) (somewhere g U inp p) (raised g inp) (match_from g inp m pats p)"
  using assms
proof (induction pats arbitrary: p)
  case Nil
  then show ?case
    by (simp add: matched_all_def derivation)
next
  case (Cons pat pats)
  then show ?case
    by (simp add: match_first_holds)
qed

lemma match_holds:
  assumes "closed_patterns g U" and "set pats \<subseteq> U" and "sound g U inp p"
  shows "holds (matched_all g U inp pats p) (failed g U inp p) (raised g inp) (match g inp m pats p)"
  unfolding match_def
  by (rule holds_or_back_to, rule holds_mono [OF match_from_holds [OF assms]])
    (auto simp: somewhere_def failed_def)

lemma repeat_match_holds:
  assumes "closed_patterns g U" and "set pats \<subseteq> U" and "sound g U inp q" and "preserves {} p q"
    and "apart g U inp \<longrightarrow> derives_many g inp pats (token_position p) (token_position q) (rev acc)"
  shows "holds
    (\<lambda>v q. somewhere g U inp p q \<and> (\<exists>vs. v = Vector (rev acc @ vs) \<and>
      (apart g U inp \<longrightarrow> derives_many g inp pats (token_position p) (token_position q) (rev acc @ vs))))
    B (raised g inp) (repeat_match n (match g inp m pats) acc q)"
  using assms(3-5)
proof (induction n arbitrary: acc q)
  case (Suc n)
  show ?case
    unfolding repeat_match.simps
  proof (rule holds_then_match [OF match_holds [OF assms(1,2) Suc.prems(1)]], goal_cases)
    case (1 vs q')
    then show ?case
      using Suc.prems
      by (intro holds_mono [OF Suc.IH])
        (auto simp: matched_all_def intro: preserves_trans dest: derivation(17))
  next
    case (2 q')
    then show ?case
      using Suc.prems by (auto simp: failed_def somewhere_def intro: preserves_trans)
  qed
qed simp

lemma separated_holds:
  assumes "closed_patterns g U" and "main \<in> U" and "sep \<in> U" and "sound g U inp q" and "preserves {} p q"
    and "case original of
        None \<Rightarrow> q = p \<and> acc = []
      | Some i \<Rightarrow> apart g U inp \<longrightarrow> derives_separated g inp main sep (token_position p) i (rev acc) \<and>
          (\<exists>u. derives g inp sep i (token_position q) u)"
  shows "holds
    (\<lambda>v q. somewhere g U inp p q \<and> (\<exists>vs. v = Vector vs \<and>
      (apart g U inp \<longrightarrow> derives_separated g inp main sep (token_position p) (token_position q) vs)))
    (somewhere g U inp p) (raised g inp)
    (separated n (match g inp m [main]) (match g inp m [sep]) original acc q)"
  using assms(4-6)
proof (induction n arbitrary: original acc q)
  case (Suc n)
  have m: "set [main] \<subseteq> U" and s: "set [sep] \<subseteq> U"
    using assms(2,3) by simp_all
  show ?case
    unfolding separated.simps
  proof (rule holds_then_match [OF match_holds [OF assms(1) m Suc.prems(1)]], goal_cases)
    case (1 vs q1)
    have now: "apart g U inp \<longrightarrow>
        derives_separated g inp main sep (token_position p) (token_position q1) (rev (gathered vs # acc))"
      using 1 Suc.prems(3) derivation(18,19)
      by (fastforce simp: matched_all_def split: option.splits dest: derives_all_single)
    have s1: "sound g U inp q1" and k1: "preserves {} p q1"
      using 1 Suc.prems(2) by (auto simp: matched_all_def intro: preserves_trans)
    show ?case
    proof (rule holds_then_match [OF match_holds [OF assms(1) s s1]], goal_cases)
      case (1 us q2)
      then show ?case
        using now k1
        by (intro Suc.IH) (auto simp: matched_all_def intro: preserves_trans dest: derives_all_single)
    next
      case (2 q2)
      then show ?case
        using now k1 by (auto simp: failed_def somewhere_def intro: preserves_trans)
    qed
  next
    case (2 q1)
    then show ?case
      using Suc.prems by (auto simp: failed_def somewhere_def intro: preserves_trans split: option.splits)
  qed
qed simp

lemma first_of_holds:
  assumes "closed_patterns g U" and "set pats \<subseteq> U" and "sound g U inp p"
  shows "holds
    (\<lambda>v q. somewhere g U inp p q \<and>
      (apart g U inp \<longrightarrow> (\<exists>pat \<in> set pats. derives g inp pat (token_position p) (token_position q) v)))
    (failed g U inp p) (raised g inp) (first_of (match g inp m) pats p)"
  using assms(2,3)
proof (induction pats arbitrary: p)
  case Nil
  then show ?case
    by (simp add: failed_def)
next
  case (Cons pat pats)
  have pat: "set [pat] \<subseteq> U"
    using Cons.prems by simp
  show ?case
    unfolding first_of.simps
  proof (rule holds_then_match [OF match_holds [OF assms(1) pat Cons.prems(2)]], goal_cases)
    case (1 vs q)
    then show ?case
      by (auto simp: matched_all_def somewhere_def dest: derives_all_single)
  next
    case (2 q)
    then have "sound g U inp q"
      by (simp add: failed_def)
    then show ?case
      using 2 Cons.prems(1)
      by (intro holds_mono [OF Cons.IH]) (auto simp: failed_def somewhere_def intro: preserves_trans)
  qed
qed

lemma try_alternatives_holds:
  assumes "closed_patterns g U" and "g r = Some x" and "set alts \<subseteq> set (alternatives x)" and "sound g U inp p"
  shows "holds
    (\<lambda>v q. somewhere g U inp p q \<and> (apart g U inp \<longrightarrow> derives g inp (Rule r) (token_position p) (token_position q) v))
    (somewhere g U inp p) (raised g inp) (try_alternatives inp (match g inp m) alts p)"
  using assms(3,4)
proof (induction alts arbitrary: p)
  case Nil
  then show ?case
    by (simp add: somewhere_def)
next
  case (Cons a alts)
  obtain pats act where a: "a = (pats, act)"
    by (cases a)
  have alt: "(pats, act) \<in> set (alternatives x)"
    using Cons.prems(1) a by simp
  then have pats: "set pats \<subseteq> U"
    using closed_rules [OF assms(1,2)] by blast
  show ?case
    unfolding a try_alternatives.simps
  proof (rule holds_then_match [OF match_holds [OF assms(1) pats Cons.prems(2)]], goal_cases)
    case (1 vs q)
    then show ?case
      using alt assms(2)
      by (cases "act inp (token_position p, token_position q) vs")
        (auto simp: matched_all_def somewhere_def intro: derivation(4) raisedI)
  next
    case (2 q)
    then have "sound g U inp q"
      by (simp add: failed_def)
    then show ?case
      using 2 Cons.prems(1)
      by (intro holds_mono [OF Cons.IH]) (auto simp: failed_def somewhere_def intro: preserves_trans)
  qed
qed


lemma leaf_holds:
  assumes "sound g U inp p" and "peek_at inp (token_position p) = Some tok"
  shows "holds (matched g U inp (Single t) p) (failed g U inp p) (raised g inp) (single_token inp t p)"
    and "holds (matched g U inp (Keyword w) p) (failed g U inp p) (raised g inp) (keyword inp w p)"
    and "holds (matched g U inp Not_reserved p) (failed g U inp p) (raised g inp) (not_reserved inp p)"
  using assms
  by (auto simp: single_token_def keyword_def not_reserved_def matched_def failed_def advance_by_def
      intro: derivation)

lemma lookahead_holds:
  assumes "closed_patterns g U" and "\<not> is_cached g q" and "q \<in> U" and "sound g U inp p"
    and "peek_at inp (token_position p) = Some tok"
  shows "holds (matched g U inp (Ahead q) p) (failed g U inp p) (raised g inp) (ahead (m q) p)"
    and "holds (matched g U inp (Not_ahead q) p) (failed g U inp p) (raised g inp) (not_ahead (m q) p)"
  unfolding ahead_def not_ahead_def
  by (rule holds_then_match [OF contract [OF assms(1,3-5)]];
      auto simp: assms(2) matched_def failed_def advance_by_def intro: derivation(12,13))+

lemma matches_impl_holds:
  assumes "closed_patterns g U" and "pat \<in> U" and "sound g U inp p" and "peek_at inp (token_position p) = Some tok"
  shows "holds (matched g U inp pat p) (somewhere g U inp p) (raised g inp) (matches_impl g inp n m pat p)"
proof -
  have stay: "holds A (somewhere g U inp p) C x" if "holds A (failed g U inp p) C x" for A C and x :: "value parsed"
    by (rule holds_mono [OF that]) (auto simp: failed_def somewhere_def)
  have still: "advance_by pat = 0" if "\<forall>t. pat \<noteq> Single t" "\<forall>w. pat \<noteq> Keyword w"
    using that by (simp add: advance_by_def split: pattern.split)
  note seq = match_holds [OF assms(1)]
  note subpatterns = closed_parts [OF assms(1,2)]
  show ?thesis
  proof (cases pat)
    case (Rule r)
    show ?thesis
    proof (cases "g r")
      case None
      then show ?thesis
        using Rule assms(3) by (simp add: matches_impl_def somewhere_def)
    next
      case (Some x)
      show ?thesis
        using holds_mono [OF try_alternatives_holds [OF assms(1) Some subset_refl assms(3)]] Rule Some still
        by (simp add: matches_impl_def matched_def somewhere_def)
    qed
  next
    case (Single t)
    then show ?thesis
      using stay [OF leaf_holds(1) [OF assms(3,4)]] by (simp add: matches_impl_def)
  next
    case (Keyword w)
    then show ?thesis
      using stay [OF leaf_holds(2) [OF assms(3,4)]] by (simp add: matches_impl_def)
  next
    case Not_reserved
    then show ?thesis
      using stay [OF leaf_holds(3) [OF assms(3,4)]] by (simp add: matches_impl_def)
  next
    case (Or pats)
    have "set pats \<subseteq> U"
      using subpatterns Or by simp
    then show ?thesis
      using Or still
      by (auto simp: matches_impl_def matched_def somewhere_def failed_def
          intro!: holds_mono [OF first_of_holds [OF assms(1) _ assms(3)]] intro: derivation)
  next
    case (Group pats)
    have "set pats \<subseteq> U"
      using subpatterns Group by simp
    then show ?thesis
      using Group still
      by (auto simp: matches_impl_def matched_def matched_all_def somewhere_def failed_def
          intro!: holds_then_match [OF seq [OF _ assms(3)]] intro: derivation)
  next
    case (Not_ahead q)
    then show ?thesis
      using stay [OF lookahead_holds(2) [OF assms(1) _ _ assms(3,4), of q]] subpatterns assms(1,2)
      by (auto simp: matches_impl_def closed_patterns_def)
  next
    case (Ahead q)
    then show ?thesis
      using stay [OF lookahead_holds(1) [OF assms(1) _ _ assms(3,4), of q]] subpatterns assms(1,2)
      by (auto simp: matches_impl_def closed_patterns_def)
  next
    case (Zero_or_one pats)
    have "set pats \<subseteq> U"
      using subpatterns Zero_or_one by simp
    then show ?thesis
      using Zero_or_one still
      by (auto simp: matches_impl_def zero_or_one_def matched_def matched_all_def failed_def
          intro!: holds_then_match [OF seq [OF _ assms(3)]] intro: derivation)
  next
    case (Separated main sep)
    then have "main \<in> U" and "sep \<in> U"
      using subpatterns by simp_all
    then show ?thesis
      using Separated still assms(3)
      by (auto simp: matches_impl_def Let_def matched_def somewhere_def
          intro!: holds_mono [OF separated_holds [OF assms(1)]] intro: derivation)
  next
    case (One_or_more pats)
    then have pats: "set pats \<subseteq> U"
      using subpatterns by simp
    show ?thesis
      using One_or_more still
      by (auto simp: matches_impl_def one_or_more_def matched_def matched_all_def somewhere_def failed_def
          intro!: holds_then_match [OF seq [OF pats assms(3)]] holds_mono [OF repeat_match_holds [OF assms(1) pats]]
          intro: derivation first_derived)
  next
    case (Zero_or_more pats)
    then have pats: "set pats \<subseteq> U"
      using subpatterns by simp
    show ?thesis
      using Zero_or_more still
      by (auto simp: matches_impl_def zero_or_more_def matched_def matched_all_def somewhere_def failed_def
          intro!: holds_then_match [OF seq [OF pats assms(3)]] holds_mono [OF repeat_match_holds [OF assms(1) pats]]
          intro: derivation first_derived derivation(6) [OF derivation(16)])
  qed
qed

end

section \<open>Left recursion and the cache\<close>

lemma is_cached_still: "is_cached g pat \<Longrightarrow> advance_by pat = 0"
  by (auto simp: advance_by_def is_cached_def cached_type_def split: pattern.split)

lemma grow_lr_holds:
  assumes impl: "\<And>q. sound g U inp q \<Longrightarrow> token_position q = i \<Longrightarrow>
      holds (matched g U inp pat q) (somewhere g U inp q) (raised g inp) (impl q)"
    and "is_cached g pat" and "peek_at inp i = Some t" and "pat \<in> U" and "token_position p = i" and "m_cache p (key_of pat t) = None"
    and "sound g U inp q" and "preserves {} p q"
    and "m_cache q (key_of pat t) = Some (Some e)" and "\<And>b k. e = Seed b k \<Longrightarrow> k = i"
  shows "holds (matched g U inp pat p) (failed g U inp p) (raised g inp) (grow_lr n impl (key_of pat t) i q)"
  using assms(7-10)
proof (induction n arbitrary: q e)
  case (Suc n)
  let ?line = "key_of pat t"
  let ?stop = "\<lambda>p'. case m_cache p' ?line of
      Some (Some (Memo v k)) \<Rightarrow> Match v (move_to k p')
    | Some (Some (Seed b k)) \<Rightarrow> Mismatch (move_to k p')
    | _ \<Rightarrow> Crash Undefined"
  have entry: "\<exists>e'. m_cache q' ?line = Some (Some e') \<and> (\<forall>b k. e' = Seed b k \<longrightarrow> k = i)" if "preserves {} q q'" for q'
    using preservesD [OF that Suc.prems(3)] Suc.prems(4) by (auto simp: similar_def)
  have stop: "holds (matched g U inp pat p) (failed g U inp p) (raised g inp) (?stop q')"
    if "somewhere g U inp q q'" for q'
  proof -
    have q': "sound g U inp q'" "preserves {} q q'" "preserves {} p q'"
      using that Suc.prems(2) by (auto simp: somewhere_def intro: preserves_trans)
    obtain e' where e': "m_cache q' ?line = Some (Some e')" and seed: "\<And>b k. e' = Seed b k \<Longrightarrow> k = i"
      using entry [OF q'(2)] by blast
    show ?thesis
    proof (cases e')
      case (Seed b k)
      then show ?thesis
        using e' seed q' assms(5) by (simp add: failed_def)
    next
      case (Memo v k)
      then have "apart g U inp \<Longrightarrow> derives g inp pat i k v"
        using q'(1) e' assms(2-4) unfolding sound_def by blast
      then show ?thesis
        using e' Memo q' assms(5) is_cached_still [OF assms(2)] by (simp add: matched_def)
    qed
  qed
  show ?case
    unfolding grow_lr.simps Let_def
  proof (rule holds_then_match [OF impl], goal_cases)
    case (3 v q')
    then have q': "sound g U inp q'" "preserves {} q q'" "preserves {} p q'" "somewhere g U inp q q'"
      using Suc.prems(2) by (auto simp: matched_def somewhere_def intro: preserves_trans)
    obtain e' where e': "m_cache q' ?line = Some (Some e')"
      using entry [OF q'(2)] by blast
    have "holds (matched g U inp pat p) (failed g U inp p) (raised g inp)
        (grow_lr n impl ?line i (remember ?line (Some (Memo v (token_position q'))) q'))"
      using 3 q' assms(2-4,6) is_cached_still [OF assms(2)]
      by (intro Suc.IH) (auto simp: matched_def intro!: sound_remember preserves_new)
    then show ?case
      using stop [OF q'(4)] e' by (cases e') simp_all
  next
    case (4 q')
    then show ?case
      by (intro stop) (simp add: somewhere_def)
  qed (use Suc.prems in simp_all)
qed simp

lemma match_pattern_holds:
  assumes impl: "\<And>q. sound g U inp q \<Longrightarrow> token_position q = token_position p \<Longrightarrow>
      holds (matched g U inp pat q) (somewhere g U inp q) (raised g inp) (impl pat q)"
    and "sound g U inp p" and "peek_at inp (token_position p) = Some t" and "pat \<in> U"
    and "is_cached g pat \<longrightarrow> m_cache p (key_of pat t) = None"
  shows "holds (matched g U inp pat p) (failed g U inp p) (raised g inp) (match_pattern g inp n impl pat p)"
proof (cases "is_cached g pat")
  case False
  show ?thesis
    using impl [OF assms(2)] False
    by (auto simp: match_pattern_def somewhere_def failed_def intro!: holds_or_back_to elim!: holds_mono)
next
  case True
  let ?line = "key_of pat t" and ?i = "token_position p"
  let ?p = "remember ?line (Some (Seed False ?i)) p"
  have absent: "m_cache p ?line = None"
    using True assms(5) by simp
  have start: "sound g U inp ?p"
    using assms(2-4) True by (auto intro!: sound_remember)
  have entry: "\<exists>b. m_cache q ?line = Some (Some (Seed b ?i))" if "preserves {} ?p q" for q
    using preservesD [OF that, of ?line] by (auto simp: similar_def)
  note absent_back = preserves_back [OF _ absent]
  have "holds (matched g U inp pat p) (failed g U inp p) (raised g inp)
      (then_match (impl pat ?p)
        (\<lambda>v p'. case m_cache p' ?line of
            None \<Rightarrow> Crash Undefined
          | Some None \<Rightarrow> Crash Assertion
          | Some (Some (Seed True k)) \<Rightarrow> grow_lr n (impl pat) ?line ?i p'
          | Some (Some _) \<Rightarrow> Match v p')
        (\<lambda>p'. Mismatch (move_to ?i p')))"
  proof (rule holds_then_match [OF impl [OF start]], goal_cases)
    case (2 v q)
    then obtain b where b: "m_cache q ?line = Some (Some (Seed b ?i))"
      using entry [of q] by (auto simp: matched_def)
    have q: "sound g U inp q" "preserves {} p q"
      using 2 absent_back by (auto simp: matched_def)
    have "holds (matched g U inp pat p) (failed g U inp p) (raised g inp) (grow_lr n (impl pat) ?line ?i q)"
      using b q by (intro grow_lr_holds [OF impl True assms(3,4) _ absent]) auto
    moreover have "matched g U inp pat p v q"
      using 2 absent_back by (auto simp: matched_def)
    ultimately show ?case
      using b by (cases b) simp_all
  next
    case (3 q)
    then show ?case
      using absent_back by (auto simp: somewhere_def failed_def)
  qed simp
  then show ?thesis
    using True assms(3) by (simp add: match_pattern_def Let_def)
qed

text \<open>\<^verbatim>\<open>matches\<close> preserves the contract, whatever the bound.\<close>

interpretation pattern_matcher: matcher g U inp "matches n g inp" for g U inp n
proof (induction n)
  case 0
  show ?case
    by unfold_locales simp
next
  case (Suc n)
  show ?case
  proof
    fix pat p t
    assume a: "closed_patterns g U" "pat \<in> U" "sound g U inp p" "peek_at inp (token_position p) = Some t"
      "is_cached g pat \<longrightarrow> m_cache p (key_of pat t) = None"
    show "holds (matched g U inp pat p) (failed g U inp p) (raised g inp) (matches (Suc n) g inp pat p)"
      unfolding matches_Suc
      using a by (intro match_pattern_holds matcher.matches_impl_holds [OF Suc]) simp_all
  qed
qed

text \<open>What a sequence of patterns makes of a new parser.\<close>

lemma sound_new_parser [simp]: "sound g U inp new_parser"
  by (simp add: sound_def new_parser_def)

lemma new_match_holds:
  "closed_patterns g U \<Longrightarrow> set pats \<subseteq> U \<Longrightarrow>
   holds (matched_all g U inp pats new_parser) (failed g U inp new_parser) (raised g inp)
     (match g inp (matches n g inp) pats new_parser)"
  by (rule pattern_matcher.match_holds) simp_all

end
