(* ===== verification/Grammar_Analysis.thy ===== *)
theory Grammar_Analysis
  imports Grammar_Sound
begin

text \<open>
  What can be read off a grammar: the patterns that consume a token, the patterns that do not match at a
  token of some type, and the patterns a pattern begins with. A set of rules is given as a predicate that
  has to be closed; the properties of derivations follow by induction.
\<close>

section \<open>Patterns that consume a token\<close>

fun consumes :: "(string \<Rightarrow> bool) \<Rightarrow> pattern \<Rightarrow> bool" where
  "consumes C (Rule r) = C r"
| "consumes C (Single t) = True"
| "consumes C (Keyword w) = True"
| "consumes C (One_or_more pats) = list_ex (consumes C) pats"
| "consumes C (Separated main sep) = consumes C main"
| "consumes C (Or pats) = list_all (consumes C) pats"
| "consumes C (Group pats) = list_ex (consumes C) pats"
| "consumes C pat = False"

definition closed_consumes :: "grammar \<Rightarrow> (string \<Rightarrow> bool) \<Rightarrow> bool" where
  "closed_consumes g C \<longleftrightarrow>
     (\<forall>r x. C r \<longrightarrow> g r = Some x \<longrightarrow> (\<forall>(pats, act) \<in> set (alternatives x). list_ex (consumes C) pats))"

lemma derives_consumes:
  assumes "closed_consumes g C"
  shows "derives g inp pat i k v \<Longrightarrow> consumes C pat \<longrightarrow> i < k"
    and "derives_all g inp pats i k vs \<Longrightarrow> list_ex (consumes C) pats \<longrightarrow> i < k"
    and "derives_many g inp pats i k vs \<Longrightarrow> vs \<noteq> [] \<longrightarrow> list_ex (consumes C) pats \<longrightarrow> i < k"
    and "derives_separated g inp main sep i k vs \<Longrightarrow> consumes C main \<longrightarrow> i < k"
proof (induction rule: derives_derives_all_derives_many_derives_separated.inducts)
  case (Rule r x pats act i k vs v)
  then show ?case
    using assms unfolding closed_consumes_def by fastforce
next
  case (Cons q i j v qs k vs)
  then show ?case
    using derives_forward(1) [OF Cons(1)] derives_forward(2) [OF Cons(3)] by auto
next
  case (More pats i j vs k ws)
  then show ?case
    using derives_forward(3) [OF More(1)] by auto
next
  case (Next main sep i j vs j' u k v)
  then show ?case
    using derives_forward(1) [OF Next(3)] derives_forward(1) [OF Next(5)] by auto
qed (auto simp: list_all_iff)

section \<open>Patterns that do not match at a token\<close>

fun avoids :: "(string \<Rightarrow> bool) \<Rightarrow> token_type \<Rightarrow> string option \<Rightarrow> pattern \<Rightarrow> bool"
  and avoids_all :: "(string \<Rightarrow> bool) \<Rightarrow> token_type \<Rightarrow> string option \<Rightarrow> pattern list \<Rightarrow> bool"
  and stays :: "(string \<Rightarrow> bool) \<Rightarrow> token_type \<Rightarrow> string option \<Rightarrow> pattern \<Rightarrow> bool" where
  "avoids A d w (Rule r) = A r"
| "avoids A d w (Single t) = (t \<noteq> d)"
| "avoids A d w (Keyword u) = (d \<noteq> NAME \<or> w \<noteq> None \<and> w \<noteq> Some u)"
| "avoids A d w Not_reserved = list_ex (\<lambda>u. w = Some u) reserved_keywords"
| "avoids A d w (One_or_more pats) = avoids_all A d w pats"
| "avoids A d w (Separated main sep) = avoids A d w main"
| "avoids A d w (Or pats) = list_all (avoids A d w) pats"
| "avoids A d w (Group pats) = avoids_all A d w pats"
| "avoids A d w (Ahead q) = avoids A d w q"
| "avoids A d w pat = False"
| "avoids_all A d w [] = False"
| "avoids_all A d w (pat # pats) = (avoids A d w pat \<or> stays A d w pat \<and> avoids_all A d w pats)"
| "stays A d w (Zero_or_more pats) = avoids_all A d w pats"
| "stays A d w (Zero_or_one pats) = avoids_all A d w pats"
| "stays A d w Not_reserved = True"
| "stays A d w (Ahead q) = True"
| "stays A d w (Not_ahead q) = True"
| "stays A d w pat = False"

text \<open>A token of a type and, where it matters, with a text.\<close>

definition at_token :: "input \<Rightarrow> nat \<Rightarrow> token_type \<Rightarrow> string option \<Rightarrow> bool" where
  "at_token inp i d w \<longleftrightarrow>
     (case peek_at inp i of
        None \<Rightarrow> False
      | Some tok \<Rightarrow> m_token_type tok = d \<and> (case w of None \<Rightarrow> True | Some u \<Rightarrow> token_text inp tok = u))"

lemma at_token_peek:
  "peek_at inp i = Some tok \<Longrightarrow>
   at_token inp i d w \<longleftrightarrow> m_token_type tok = d \<and> (w = None \<or> w = Some (token_text inp tok))"
  by (auto simp: at_token_def split: option.split)

definition closed_avoids :: "grammar \<Rightarrow> (string \<Rightarrow> bool) \<Rightarrow> token_type \<Rightarrow> string option \<Rightarrow> bool" where
  "closed_avoids g A d w \<longleftrightarrow>
     (\<forall>r x. A r \<longrightarrow> g r = Some x \<longrightarrow> (\<forall>(pats, act) \<in> set (alternatives x). avoids_all A d w pats))"

lemma derives_avoids:
  assumes "closed_avoids g A d w"
  shows "derives g inp pat i k v \<Longrightarrow> at_token inp i d w \<longrightarrow>
      \<not> avoids A d w pat \<and> (stays A d w pat \<longrightarrow> k = i)"
    and "derives_all g inp pats i k vs \<Longrightarrow> at_token inp i d w \<longrightarrow>
      \<not> avoids_all A d w pats"
    and "derives_many g inp pats i k vs \<Longrightarrow> at_token inp i d w \<longrightarrow>
      avoids_all A d w pats \<longrightarrow> k = i \<and> vs = []"
    and "derives_separated g inp main sep i k vs \<Longrightarrow> at_token inp i d w \<longrightarrow>
      \<not> avoids A d w main"
proof (induction rule: derives_derives_all_derives_many_derives_separated.inducts)
  case (Rule r x pats act i k vs v)
  then show ?case
    using assms unfolding closed_avoids_def by fastforce
next
  case (Not_reserved i tok)
  then show ?case
    by (auto simp: at_token_peek list_ex_iff)
next
  case (Or q pats i k v)
  then show ?case
    by (auto simp: list_all_iff)
next
  case (Single i tok t)
  then show ?case
    by (simp add: at_token_peek)
next
  case (Keyword i tok u)
  then show ?case
    by (auto simp: at_token_peek)
next
  case (Cons q i j v qs k vs)
  then show ?case
    by auto
next
  case (More pats i j vs k ws)
  then show ?case
    by auto
qed simp_all

text \<open>If only the tokens of one type may have the same place, and no cached pattern matches there, then
  the entries of the cache do not get mixed up.\<close>

definition distinct_places :: "token_type \<Rightarrow> input \<Rightarrow> bool" where
  "distinct_places d inp \<longleftrightarrow>
     distinct (map (\<lambda>t. (pointer_to_program (m_start t), m_token_type t)) (filter (\<lambda>t. m_token_type t \<noteq> d) (tokens inp)))"

lemma distinct_map_filter:
  "distinct (map f (filter P xs)) \<Longrightarrow> i < j \<Longrightarrow> j < length xs \<Longrightarrow> P (xs ! i) \<Longrightarrow> P (xs ! j) \<Longrightarrow> f (xs ! i) \<noteq> f (xs ! j)"
proof (induction xs arbitrary: i j)
  case (Cons a xs)
  then obtain j' where "j = Suc j'"
    by (cases j) auto
  then show ?case
    using Cons by (cases i) (force split: if_splits)+
qed simp

lemma distinct_places_unique:
  assumes "distinct_places d inp" and "peek_at inp i = Some t" and "peek_at inp j = Some u"
    and "key_of pat t = key_of pat u" and "m_token_type t \<noteq> d"
  shows "i = j"
proof -
  let ?f = "\<lambda>t. (pointer_to_program (m_start t), m_token_type t)"
  have "?f t = ?f u"
    using assms(4) by (simp add: key_of_def)
  then show ?thesis
    using assms(1-3,5) distinct_map_filter [of ?f "\<lambda>t. m_token_type t \<noteq> d" "tokens inp"]
    by (cases i j rule: linorder_cases) (fastforce simp: distinct_places_def peek_at_def split: if_splits)+
qed

lemma apartI:
  assumes "closed_avoids g A d None" and "\<And>pat. pat \<in> U \<Longrightarrow> is_cached g pat \<Longrightarrow> avoids A d None pat"
    and "distinct_places d inp"
  shows "apart g U inp"
  unfolding apart_def
proof (intro allI impI)
  fix pat i j tok tok' k v
  assume a: "pat \<in> U" "is_cached g pat" "peek_at inp i = Some tok" "peek_at inp j = Some tok'"
    "key_of pat tok = key_of pat tok'" "derives g inp pat i k v"
  have "m_token_type tok \<noteq> d"
    using derives_avoids(1) [OF assms(1) a(6)] assms(2) [OF a(1,2)] a(3)
    by (auto simp: at_token_peek)
  then have "i = j"
    using distinct_places_unique [OF assms(3) a(3-5)] by simp
  then show "derives g inp pat j k v"
    using a(6) by simp
qed

section \<open>The patterns of a grammar\<close>

fun subpatterns :: "pattern \<Rightarrow> pattern list" where
  "subpatterns (One_or_more pats) = One_or_more pats # concat (map subpatterns pats)"
| "subpatterns (Zero_or_more pats) = Zero_or_more pats # concat (map subpatterns pats)"
| "subpatterns (Zero_or_one pats) = Zero_or_one pats # concat (map subpatterns pats)"
| "subpatterns (Separated main sep) = Separated main sep # subpatterns main @ subpatterns sep"
| "subpatterns (Or pats) = Or pats # concat (map subpatterns pats)"
| "subpatterns (Group pats) = Group pats # concat (map subpatterns pats)"
| "subpatterns (Not_ahead q) = Not_ahead q # subpatterns q"
| "subpatterns (Ahead q) = Ahead q # subpatterns q"
| "subpatterns pat = [pat]"

text \<open>A test of all of them.\<close>

fun throughout :: "(pattern \<Rightarrow> bool) \<Rightarrow> pattern \<Rightarrow> bool" where
  "throughout P (One_or_more pats) = (P (One_or_more pats) \<and> list_all (throughout P) pats)"
| "throughout P (Zero_or_more pats) = (P (Zero_or_more pats) \<and> list_all (throughout P) pats)"
| "throughout P (Zero_or_one pats) = (P (Zero_or_one pats) \<and> list_all (throughout P) pats)"
| "throughout P (Separated main sep) = (P (Separated main sep) \<and> throughout P main \<and> throughout P sep)"
| "throughout P (Or pats) = (P (Or pats) \<and> list_all (throughout P) pats)"
| "throughout P (Group pats) = (P (Group pats) \<and> list_all (throughout P) pats)"
| "throughout P (Not_ahead q) = (P (Not_ahead q) \<and> throughout P q)"
| "throughout P (Ahead q) = (P (Ahead q) \<and> throughout P q)"
| "throughout P pat = P pat"

lemma throughout_iff: "throughout P pat = list_all P (subpatterns pat)"
  by (induction P pat rule: throughout.induct) (auto simp: list_all_iff)

definition all_patterns :: "(string \<times> rule) list \<Rightarrow> pattern list \<Rightarrow> pattern list" where
  "all_patterns rules start =
     concat (map subpatterns (start @ concat (map (\<lambda>(r, x). concat (map fst (alternatives x))) rules)))"

lemma subpatterns_self: "pat \<in> set (subpatterns pat)"
  by (cases pat) auto

lemma subpatterns_parts: "pat \<in> set (subpatterns q) \<Longrightarrow> r \<in> set (parts pat) \<Longrightarrow> r \<in> set (subpatterns q)"
  by (induction q rule: subpatterns.induct) (auto intro: subpatterns_self)

lemma start_patterns: "q \<in> set start \<Longrightarrow> q \<in> set (all_patterns rules start)"
  by (auto simp: all_patterns_def intro: subpatterns_self)

lemma rule_patterns:
  "map_of rules r = Some x \<Longrightarrow> (pats, act) \<in> set (alternatives x) \<Longrightarrow> q \<in> set pats \<Longrightarrow>
   q \<in> set (all_patterns rules start)"
  by (fastforce simp: all_patterns_def intro: subpatterns_self dest!: map_of_SomeD)

definition lookahead_uncached :: "grammar \<Rightarrow> pattern \<Rightarrow> bool" where
  "lookahead_uncached g pat = (case pat of Ahead q \<Rightarrow> \<not> is_cached g q | Not_ahead q \<Rightarrow> \<not> is_cached g q | _ \<Rightarrow> True)"

lemma list_all_patterns:
  "list_all P (all_patterns rules start) \<longleftrightarrow> list_all (throughout P) start \<and>
     list_all (\<lambda>(r, x). list_all (\<lambda>(pats, act). list_all (throughout P) pats) (alternatives x)) rules"
  by (fastforce simp: list_all_iff throughout_iff all_patterns_def)

lemma closed_all_patterns:
  assumes "list_all (lookahead_uncached (map_of rules)) (all_patterns rules start)"
  shows "closed_patterns (map_of rules) (set (all_patterns rules start))"
  unfolding closed_patterns_def
proof (intro conjI allI ballI impI subsetI, goal_cases)
  case (1 pat q)
  then show ?case
    unfolding all_patterns_def set_concat set_map UN_iff by (blast intro: subpatterns_parts)
next
  case (2 q)
  then show ?case
    using assms by (auto simp: list_all_iff lookahead_uncached_def)
next
  case (3 r x alt)
  then show ?case
    by (auto intro: rule_patterns)
qed

section \<open>What a pattern begins with\<close>

text \<open>The patterns that are matched at the place where a pattern is, unless an earlier one consumes a
  token, and how far one gets with them before the cache is asked.\<close>

fun leading :: "(string \<Rightarrow> bool) \<Rightarrow> pattern list \<Rightarrow> pattern list" where
  "leading C [] = []"
| "leading C (pat # pats) = pat # (if consumes C pat then [] else leading C pats)"

definition begins_with :: "grammar \<Rightarrow> (string \<Rightarrow> bool) \<Rightarrow> pattern \<Rightarrow> pattern list" where
  "begins_with g C pat =
     (case pat of
        Rule r \<Rightarrow> (case g r of None \<Rightarrow> [] | Some x \<Rightarrow> concat (map (\<lambda>(pats, act). leading C pats) (alternatives x)))
      | Separated main sep \<Rightarrow> [main]
      | Or pats \<Rightarrow> pats
      | _ \<Rightarrow> leading C (parts pat))"

text \<open>How many patterns there can be before one whose result is cached, when the numbers of the rules are
  given.\<close>

fun level :: "(string \<Rightarrow> bool) \<Rightarrow> (string \<Rightarrow> nat) \<Rightarrow> pattern \<Rightarrow> nat"
  and level_all :: "(string \<Rightarrow> bool) \<Rightarrow> (string \<Rightarrow> nat) \<Rightarrow> pattern list \<Rightarrow> nat"
  and level_any :: "(string \<Rightarrow> bool) \<Rightarrow> (string \<Rightarrow> nat) \<Rightarrow> pattern list \<Rightarrow> nat" where
  "level C L (Rule r) = L r"
| "level C L (One_or_more pats) = Suc (level_all C L pats)"
| "level C L (Zero_or_more pats) = Suc (level_all C L pats)"
| "level C L (Zero_or_one pats) = Suc (level_all C L pats)"
| "level C L (Separated main sep) = Suc (level C L main)"
| "level C L (Or pats) = Suc (level_any C L pats)"
| "level C L (Group pats) = Suc (level_all C L pats)"
| "level C L (Not_ahead q) = Suc (level C L q)"
| "level C L (Ahead q) = Suc (level C L q)"
| "level C L pat = 0"
| "level_all C L [] = 0"
| "level_all C L (pat # pats) = max (level C L pat) (if consumes C pat then 0 else level_all C L pats)"
| "level_any C L [] = 0"
| "level_any C L (pat # pats) = max (level C L pat) (level_any C L pats)"

definition ranked :: "grammar \<Rightarrow> (string \<Rightarrow> bool) \<Rightarrow> (string \<Rightarrow> nat) \<Rightarrow> bool" where
  "ranked g C L \<longleftrightarrow>
     (\<forall>r x. g r = Some x \<longrightarrow> cached_type (traits x) \<or> (\<forall>(pats, act) \<in> set (alternatives x). level_all C L pats < L r))"

lemma level_all_leading: "q \<in> set (leading C pats) \<Longrightarrow> level C L q \<le> level_all C L pats"
  by (induction pats) (auto split: if_splits)

lemma level_any_member: "q \<in> set pats \<Longrightarrow> level C L q \<le> level_any C L pats"
  by (induction pats) auto

lemma level_begins_with:
  assumes "ranked g C L" and "\<not> is_cached g pat" and q: "q \<in> set (begins_with g C pat)"
  shows "level C L q < level C L pat"
proof (cases pat)
  case (Rule r)
  then obtain x pats act where x: "g r = Some x" "(pats, act) \<in> set (alternatives x)" "q \<in> set (leading C pats)"
    using q by (cases "g r") (auto simp: begins_with_def)
  then have "level_all C L pats < L r"
    using assms(1,2) Rule unfolding ranked_def by (fastforce simp: is_cached_def rule_type_def)
  then show ?thesis
    using level_all_leading [OF x(3), of L] Rule by simp
qed (use q in \<open>auto simp: begins_with_def less_Suc_eq_le level_all_leading level_any_member split: if_splits\<close>)

text \<open>What is repeated consumes a token.\<close>

definition repeats_consume :: "(string \<Rightarrow> bool) \<Rightarrow> pattern \<Rightarrow> bool" where
  "repeats_consume C pat =
     (case pat of
        One_or_more pats \<Rightarrow> list_ex (consumes C) pats
      | Zero_or_more pats \<Rightarrow> list_ex (consumes C) pats
      | Separated main sep \<Rightarrow> consumes C main
      | _ \<Rightarrow> True)"

end
