(* ===== verification/Grammar_Halts.thy ===== *)
theory Grammar_Halts
  imports Grammar_Analysis
begin

text \<open>
  The engine ends. For a grammar in which what is repeated consumes a token and no pattern begins with
  itself without a cached one in between, there is a bound with which a match does not diverge: with every
  step down, an entry of the cache is made, a token is consumed, or the level of the pattern decreases.
\<close>

section \<open>Bounds that are enough\<close>

definition halts :: "(nat \<Rightarrow> 'a parsed) \<Rightarrow> bool" where
  "halts F \<longleftrightarrow> (\<exists>x n. x \<noteq> Diverges \<and> (\<forall>k \<ge> n. F k = x))"

named_theorems halts_intros

lemma halts_const [halts_intros]: "x \<noteq> Diverges \<Longrightarrow> halts (\<lambda>k. x)"
  by (auto simp: halts_def)

lemma halts_eventually: "halts F \<Longrightarrow> (\<And>k. n \<le> k \<Longrightarrow> F k = G k) \<Longrightarrow> halts G"
  unfolding halts_def by (metis max.bounded_iff)

lemma halts_Suc: "halts (\<lambda>k. F (Suc k)) \<Longrightarrow> halts F"
  unfolding halts_def by (metis Suc_le_D Suc_le_mono)

lemma halts_then_match:
  assumes "halts X" and "\<And>v q n. X n = Match v q \<Longrightarrow> halts (\<lambda>k. f k v q)"
    and "\<And>q n. X n = Mismatch q \<Longrightarrow> halts (\<lambda>k. h k q)"
  shows "halts (\<lambda>k. then_match (X k) (f k) (h k))"
proof -
  obtain x n where x: "x \<noteq> Diverges" "\<And>k. n \<le> k \<Longrightarrow> X k = x"
    using assms(1) by (auto simp: halts_def)
  have "halts (\<lambda>k. then_match x (f k) (h k))"
    using x assms(2,3) [of n] by (cases x) (auto simp: halts_const)
  then show ?thesis
    by (rule halts_eventually [of _ n]) (simp add: x(2))
qed

lemma halts_if: "(b \<Longrightarrow> halts F) \<Longrightarrow> (\<not> b \<Longrightarrow> halts G) \<Longrightarrow> halts (\<lambda>k. if b then F k else G k)"
  by (cases b) simp_all

lemma or_back_to_then_match: "or_back_to i x = then_match x Match (\<lambda>p. Mismatch (move_to i p))"
  by (cases x) (simp_all add: or_back_to_def)

lemma halts_or_back_to: "halts X \<Longrightarrow> halts (\<lambda>k. or_back_to i (X k))"
  unfolding or_back_to_then_match by (intro halts_then_match halts_const) auto

lemma halts_stable: "halts (\<lambda>n. matches n g inp pat p) \<Longrightarrow> \<exists>n. matches n g inp pat p \<noteq> Diverges"
  unfolding halts_def by (metis le_refl)

section \<open>Entries that are missing\<close>

definition absent :: "grammar \<Rightarrow> pattern set \<Rightarrow> input \<Rightarrow> parser \<Rightarrow> (pattern \<times> nat) set" where
  "absent g U inp p =
     {(pat, i). pat \<in> U \<and> is_cached g pat \<and> i < length (tokens inp) \<and> m_cache p (key_of pat (tokens inp ! i)) = None}"

definition missing :: "grammar \<Rightarrow> pattern set \<Rightarrow> input \<Rightarrow> parser \<Rightarrow> nat" where
  "missing g U inp p = card (absent g U inp p)"

lemma finite_absent: "finite U \<Longrightarrow> finite (absent g U inp p)"
  by (rule finite_subset [of _ "U \<times> {..< length (tokens inp)}"]) (auto simp: absent_def)

lemma preserves_None: "preserves {} p q \<Longrightarrow> m_cache q line = None \<Longrightarrow> m_cache p line = None"
  by (cases "m_cache p line") (auto dest: preservesD)

lemma absent_mono: "preserves {} p q \<Longrightarrow> absent g U inp q \<subseteq> absent g U inp p"
  unfolding absent_def by (auto intro: preserves_None)

lemma missing_cache [simp]: "missing g U inp (move_to i p) = missing g U inp p"
  by (simp add: missing_def absent_def)

lemma missing_present:
  "m_cache p line \<noteq> None \<Longrightarrow> missing g U inp (remember line e p) = missing g U inp p"
  unfolding missing_def absent_def by (rule arg_cong [where f = card]) auto

lemma missing_mono: "finite U \<Longrightarrow> preserves {} p q \<Longrightarrow> missing g U inp q \<le> missing g U inp p"
  unfolding missing_def by (intro card_mono finite_absent absent_mono)

lemma missing_less:
  assumes "finite U" and "preserves {} p q" and "pat \<in> U" and "is_cached g pat" and "peek_at inp i = Some t"
    and "m_cache p (key_of pat t) = None" and "m_cache q (key_of pat t) \<noteq> None"
  shows "missing g U inp q < missing g U inp p"
proof -
  have "(pat, i) \<in> absent g U inp p" and "(pat, i) \<notin> absent g U inp q"
    using assms(3-7) by (auto simp: absent_def peek_at_def split: if_splits)
  then show ?thesis
    unfolding missing_def
    using absent_mono [OF assms(2)] by (intro psubset_card_mono finite_absent assms(1)) blast
qed

section \<open>Grammars whose matches end\<close>

locale terminating_grammar =
  fixes g :: grammar and U :: "pattern set" and C :: "string \<Rightarrow> bool" and L :: "string \<Rightarrow> nat"
  assumes finite_patterns: "finite U"
    and closed: "closed_patterns g U"
    and consuming: "closed_consumes g C"
    and repeating: "pat \<in> U \<Longrightarrow> repeats_consume C pat"
    and levels: "ranked g C L"
begin

text \<open>The calls of \<^verbatim>\<open>matches\<close> that end: with no more entries missing than \<open>m\<close>, from position \<open>i\<close> on, and
  at \<open>i\<close> only for the patterns in \<open>D\<close>.\<close>

definition calls_halt :: "input \<Rightarrow> nat \<Rightarrow> nat \<Rightarrow> pattern set \<Rightarrow> bool" where
  "calls_halt inp i m D \<longleftrightarrow>
     (\<forall>q s t. q \<in> U \<longrightarrow> sound g U inp s \<longrightarrow> missing g U inp s \<le> m \<longrightarrow> i \<le> token_position s \<longrightarrow>
        (token_position s = i \<longrightarrow> q \<in> D) \<longrightarrow> peek_at inp (token_position s) = Some t \<longrightarrow>
        (is_cached g q \<longrightarrow> m_cache s (key_of q t) = None) \<longrightarrow> halts (\<lambda>n. matches n g inp q s))"

lemmas pattern_contract = pattern_matcher.contract [OF closed]
lemmas sequence_contract = pattern_matcher.match_holds [OF closed]

lemma missing_kept: "missing g U inp p \<le> m \<Longrightarrow> preserves {} p q \<Longrightarrow> missing g U inp q \<le> m"
  using missing_mono [OF finite_patterns] le_trans by blast

lemma consumed: "derives g inp pat i k v \<Longrightarrow> i \<le> k \<and> (consumes C pat \<longrightarrow> i < k)"
  using derives_consumes(1) [OF consuming] derives_forward(1) by blast

lemma match_from_halts:
  assumes "apart g U inp" and calls: "calls_halt inp i m D"
    and "set pats \<subseteq> U" and "sound g U inp s" and "missing g U inp s \<le> m" and "i \<le> token_position s"
    and "token_position s = i \<longrightarrow> set (leading C pats) \<subseteq> D"
  shows "halts (\<lambda>n. match_from g inp (matches n g inp) pats s)"
  using assms(3-7)
proof (induction pats arbitrary: s)
  case Nil
  then show ?case
    by (simp add: halts_const)
next
  case (Cons pat pats)
  have pat: "pat \<in> U" and pats: "set pats \<subseteq> U"
    using Cons.prems(1) by simp_all
  have advance: "halts (\<lambda>n. advance_over pat (match_from g inp (matches n g inp) pats) v q)"
    if "matched g U inp pat s v q" for v q
  proof -
    let ?q = "move_to (token_position q + advance_by pat) q"
    have d: "derives g inp pat (token_position s) (token_position ?q) v"
      and q: "sound g U inp ?q" "preserves {} s q"
      using that assms(1) by (simp_all add: matched_def)
    have "halts (\<lambda>n. match_from g inp (matches n g inp) pats ?q)"
      using Cons.prems consumed [OF d] q missing_kept [OF Cons.prems(3) q(2)]
      by (intro Cons.IH pats) (auto split: if_splits)
    then show ?thesis
      unfolding advance_over_def by (intro halts_then_match halts_const) auto
  qed
  show ?case
  proof (cases "peek_at inp (token_position s)")
    case None
    then show ?thesis
      by (simp add: match_first_def halts_const)
  next
    case (Some t)
    note contract = pattern_contract [OF pat Cons.prems(2) Some]
    have asked: "halts (\<lambda>n. matches n g inp pat s)" if "is_cached g pat \<longrightarrow> m_cache s (key_of pat t) = None"
      using calls Cons.prems that Some pat unfolding calls_halt_def by auto
    show ?thesis
    proof (cases "is_cached g pat \<longrightarrow> m_cache s (key_of pat t) = None")
      case True
      have matched: "matched g U inp pat s v q" if "matches n g inp pat s = Match v q" for n v q
        using contract [of n] True that by simp
      have memo: "matched g U inp pat s v (remember (key_of pat t) (Some (Memo v (token_position q))) q)"
        if "matched g U inp pat s v q" and "is_cached g pat" for v q
        using that True Some pat is_cached_still [OF that(2)]
        by (auto simp: matched_def intro!: sound_remember preserves_new)
      have "halts (\<lambda>n. then_match (matches n g inp pat s)
          (\<lambda>v q. advance_over pat (match_from g inp (matches n g inp) pats) v
            (if is_cached g pat then remember (key_of pat t) (Some (Memo v (token_position q))) q else q)) h)"
        if "\<And>q. h q \<noteq> Diverges" for h
        using asked [OF True] matched memo that
        by (intro halts_then_match halts_const) (auto intro!: advance)
      from this [of "\<lambda>q. Mismatch (if is_cached g pat then remember (key_of pat t) None (move_to (token_position s) q)
          else move_to (token_position s) q)"]
      show ?thesis
        using True by (cases "is_cached g pat") (simp_all add: match_first_def Some Let_def)
    next
      case False
      then obtain e where e: "is_cached g pat" "m_cache s (key_of pat t) = Some e"
        by auto
      show ?thesis
      proof (cases "\<exists>v k. e = Some (Memo v k)")
        case True
        then obtain v k where v: "e = Some (Memo v k)"
          by blast
        then have "matched g U inp pat s v (move_to k s)"
          using Cons.prems(2) e Some pat is_cached_still [OF e(1)] by (auto simp: matched_def sound_def)
        then show ?thesis
          using advance e v by (simp add: match_first_def Some)
      next
        case False
        then show ?thesis
          using e by (cases e; cases "the e") (simp_all add: match_first_def Some halts_const)
      qed
    qed
  qed
qed

lemma match_halts:
  assumes "apart g U inp" and "calls_halt inp i m D"
    and "set pats \<subseteq> U" and "sound g U inp s" and "missing g U inp s \<le> m" and "i \<le> token_position s"
    and "token_position s = i \<longrightarrow> set (leading C pats) \<subseteq> D"
  shows "halts (\<lambda>n. match g inp (matches n g inp) pats s)"
  unfolding match_def by (intro halts_or_back_to match_from_halts [OF assms])

lemma match_result:
  assumes "apart g U inp" and "set pats \<subseteq> U" and "sound g U inp s"
    and "match g inp (matches n g inp) pats s = Match vs q"
  shows "sound g U inp q" and "preserves {} s q" and "token_position s \<le> token_position q"
    and "token_position s \<le> length (tokens inp) \<Longrightarrow> token_position q \<le> length (tokens inp)"
    and "list_ex (consumes C) pats \<Longrightarrow> token_position s < token_position q"
proof -
  have m: "matched_all g U inp pats s vs q"
    using sequence_contract [OF assms(2,3), of n] assms(4) by simp
  then have d: "derives_all g inp pats (token_position s) (token_position q) vs"
    using assms(1) by (simp add: matched_all_def)
  show "sound g U inp q" and "preserves {} s q"
    using m by (simp_all add: matched_all_def)
  show "token_position s \<le> token_position q"
    and "token_position s \<le> length (tokens inp) \<Longrightarrow> token_position q \<le> length (tokens inp)"
    using derives_forward(2) [OF d] by simp_all
  show "list_ex (consumes C) pats \<Longrightarrow> token_position s < token_position q"
    using derives_consumes(2) [OF consuming d] by simp
qed

lemma match_no_result:
  assumes "set pats \<subseteq> U" and "sound g U inp s" and "match g inp (matches n g inp) pats s = Mismatch q"
  shows "sound g U inp q" and "preserves {} s q" and "token_position q = token_position s"
  using sequence_contract [OF assms(1,2), of n] assms(3) by (simp_all add: failed_def)


lemma repeat_match_halts:
  assumes "apart g U inp" and "calls_halt inp i m D" and "set pats \<subseteq> U" and "list_ex (consumes C) pats"
    and "sound g U inp s" and "missing g U inp s \<le> m" and "i < token_position s"
    and "token_position s \<le> length (tokens inp)"
  shows "halts (\<lambda>n. repeat_match (n - c) (match g inp (matches n g inp) pats) acc s)"
  using assms(5-8)
proof (induction "length (tokens inp) - token_position s" arbitrary: c acc s rule: less_induct)
  case less
  have "halts (\<lambda>n. then_match (match g inp (matches n g inp) pats s)
      (\<lambda>vs q. repeat_match (n - Suc c) (match g inp (matches n g inp) pats) (gathered vs # acc) q)
      (\<lambda>q. Match (Vector (rev acc)) (move_to (token_position s) q)))"
  proof (rule halts_then_match, goal_cases)
    case 1
    show ?case
      using less.prems by (intro match_halts [OF assms(1-3)]) auto
  next
    case (2 vs q n)
    note r = match_result [OF assms(1,3) less.prems(1) 2]
    show ?case
      using r(2,4) r(5) [OF assms(4)] less.prems missing_kept [OF less.prems(2) r(2)]
      by (intro less.hyps r(1)) auto
  qed (simp add: halts_const)
  then show ?case
  proof (rule halts_eventually [where n = "Suc c"])
    fix n
    assume "Suc c \<le> n"
    then have "n - c = Suc (n - Suc c)"
      by simp
    then show "then_match (match g inp (matches n g inp) pats s)
        (\<lambda>vs q. repeat_match (n - Suc c) (match g inp (matches n g inp) pats) (gathered vs # acc) q)
        (\<lambda>q. Match (Vector (rev acc)) (move_to (token_position s) q)) =
      repeat_match (n - c) (match g inp (matches n g inp) pats) acc s"
      by simp
  qed
qed

lemma separated_halts:
  assumes "apart g U inp" and "calls_halt inp i m D" and "main \<in> U" and "sep \<in> U" and "consumes C main"
    and "sound g U inp s" and "missing g U inp s \<le> m" and "i \<le> token_position s"
    and "token_position s = i \<longrightarrow> main \<in> D" and "token_position s \<le> length (tokens inp)"
  shows "halts (\<lambda>n. separated (n - c) (match g inp (matches n g inp) [main]) (match g inp (matches n g inp) [sep])
      original acc s)"
  using assms(6-10)
proof (induction "length (tokens inp) - token_position s" arbitrary: c original acc s rule: less_induct)
  case less
  have ex: "list_ex (consumes C) [main]" and sub: "set [main] \<subseteq> U" "set [sep] \<subseteq> U"
    using assms(3-5) by simp_all
  have "halts (\<lambda>n. then_match (match g inp (matches n g inp) [main] s)
      (\<lambda>vs p1. then_match (match g inp (matches n g inp) [sep] p1)
        (\<lambda>_ p2. separated (n - Suc c) (match g inp (matches n g inp) [main]) (match g inp (matches n g inp) [sep])
          (Some (token_position p1)) (gathered vs # acc) p2)
        (\<lambda>p2. Match (Vector (rev (gathered vs # acc))) p2))
      (\<lambda>p1. case original of None \<Rightarrow> Mismatch p1 | Some i \<Rightarrow> Match (Vector (rev acc)) (move_to i p1)))"
  proof (rule halts_then_match, goal_cases)
    case 1
    show ?case
      using less.prems by (intro match_halts [OF assms(1,2) sub(1)]) (auto simp: assms(5))
  next
    case (2 vs p1 n)
    note r = match_result [OF assms(1) sub(1) less.prems(1) 2]
    have p1: "missing g U inp p1 \<le> m" "i < token_position p1" "token_position p1 \<le> length (tokens inp)"
      using r(4) r(5) [OF ex] less.prems missing_kept [OF less.prems(2) r(2)] by auto
    show ?case
    proof (rule halts_then_match, goal_cases)
      case 1
      show ?case
        using p1 by (intro match_halts [OF assms(1,2) sub(2) r(1)]) auto
    next
      case (2 us p2 k)
      note r2 = match_result [OF assms(1) sub(2) r(1) 2]
      show ?case
        using r(5) [OF ex] r2(2-4) p1 less.prems missing_kept [OF p1(1) r2(2)]
        by (intro less.hyps r2(1)) auto
    qed (simp add: halts_const)
  next
    case (3 q n)
    show ?case
      by (auto intro!: halts_const split: option.split)
  qed
  then show ?case
  proof (rule halts_eventually [where n = "Suc c"])
    fix n
    assume "Suc c \<le> n"
    then have "n - c = Suc (n - Suc c)"
      by simp
    then show "then_match (match g inp (matches n g inp) [main] s)
      (\<lambda>vs p1. then_match (match g inp (matches n g inp) [sep] p1)
        (\<lambda>_ p2. separated (n - Suc c) (match g inp (matches n g inp) [main]) (match g inp (matches n g inp) [sep])
          (Some (token_position p1)) (gathered vs # acc) p2)
        (\<lambda>p2. Match (Vector (rev (gathered vs # acc))) p2))
      (\<lambda>p1. case original of None \<Rightarrow> Mismatch p1 | Some i \<Rightarrow> Match (Vector (rev acc)) (move_to i p1)) =
      separated (n - c) (match g inp (matches n g inp) [main]) (match g inp (matches n g inp) [sep]) original acc s"
      by simp
  qed
qed

lemma first_of_halts:
  assumes "apart g U inp" and "calls_halt inp (token_position s) m D" and "set pats \<subseteq> U" and "set pats \<subseteq> D"
    and "sound g U inp s" and "missing g U inp s \<le> m"
  shows "halts (\<lambda>n. first_of (match g inp (matches n g inp)) pats s)"
  using assms(2-6)
proof (induction pats arbitrary: s)
  case Nil
  then show ?case
    by (simp add: halts_const)
next
  case (Cons pat pats)
  have pat: "set [pat] \<subseteq> U"
    using Cons.prems(2) by simp
  show ?case
    unfolding first_of.simps
  proof (rule halts_then_match, goal_cases)
    case 1
    show ?case
      using Cons.prems by (intro match_halts [OF assms(1) Cons.prems(1) pat]) auto
  next
    case (3 q n)
    note r = match_no_result [OF pat Cons.prems(4) 3]
    show ?case
      using Cons.prems r missing_kept [OF Cons.prems(5) r(2)] by (intro Cons.IH) auto
  qed (simp add: halts_const)
qed

lemma try_alternatives_halts:
  assumes "apart g U inp" and "calls_halt inp (token_position s) m D"
    and "\<And>pats act. (pats, act) \<in> set alts \<Longrightarrow> set pats \<subseteq> U \<and> set (leading C pats) \<subseteq> D"
    and "sound g U inp s" and "missing g U inp s \<le> m"
  shows "halts (\<lambda>n. try_alternatives inp (match g inp (matches n g inp)) alts s)"
  using assms(2-5)
proof (induction alts arbitrary: s)
  case Nil
  then show ?case
    by (simp add: halts_const)
next
  case (Cons a alts)
  obtain pats act where a: "a = (pats, act)"
    by (cases a)
  have pats: "set pats \<subseteq> U" "set (leading C pats) \<subseteq> D"
    using Cons.prems(2) [of pats act] a by auto
  show ?case
    unfolding a try_alternatives.simps
  proof (rule halts_then_match, goal_cases)
    case 1
    show ?case
      using Cons.prems pats(2) by (intro match_halts [OF assms(1) Cons.prems(1) pats(1)]) auto
  next
    case (2 vs q n)
    show ?case
      by (auto intro!: halts_const split: outcome.split)
  next
    case (3 q n)
    note r = match_no_result [OF pats(1) Cons.prems(3) 3]
    show ?case
      using Cons.prems r missing_kept [OF Cons.prems(4) r(2)] by (intro Cons.IH) auto
  qed
qed


lemma matches_impl_halts:
  assumes apart: "apart g U inp" and calls: "calls_halt inp (token_position s) m D"
    and pat: "pat \<in> U" and begins: "set (begins_with g C pat) \<subseteq> D" and s: "sound g U inp s"
    and m: "missing g U inp s \<le> m" and t: "peek_at inp (token_position s) = Some t"
  shows "halts (\<lambda>n. matches_impl g inp n (matches n g inp) pat s)"
proof -
  have pos: "token_position s < length (tokens inp)"
    using t by (auto simp: peek_at_def split: if_splits)
  note parts = closed_parts [OF closed pat]
  have seq: "halts (\<lambda>n. match g inp (matches n g inp) pats s)"
    if "set pats \<subseteq> U" and "set (leading C pats) \<subseteq> D" for pats
    using that s m by (intro match_halts [OF apart calls]) auto
  have call: "halts (\<lambda>n. matches n g inp q s)" if "q \<in> U" and "q \<in> D" and "\<not> is_cached g q" for q
    using calls that s m t unfolding calls_halt_def by auto
  have again: "halts (\<lambda>n. repeat_match n (match g inp (matches n g inp) pats) [gathered vs] q)"
    if "set pats \<subseteq> U" and "list_ex (consumes C) pats" and "match g inp (matches k g inp) pats s = Match vs q" for pats vs q k
    using match_result [OF apart that(1) s that(3)] that(2) pos missing_kept [OF m]
    by (intro repeat_match_halts [OF apart calls that(1,2), where c = 0, simplified]) auto
  show ?thesis
  proof (cases pat)
    case (Rule r)
    show ?thesis
    proof (cases "g r")
      case None
      then show ?thesis
        using Rule by (simp add: matches_impl_def halts_const)
    next
      case (Some x)
      have "set pats \<subseteq> U \<and> set (leading C pats) \<subseteq> D" if "(pats, act) \<in> set (alternatives x)" for pats act
        using begins closed_rules [OF closed Some that] that Rule Some by (fastforce simp: begins_with_def)
      then have "halts (\<lambda>n. try_alternatives inp (match g inp (matches n g inp)) (alternatives x) s)"
        by (intro try_alternatives_halts [OF apart calls _ s m])
      then show ?thesis
        using Rule Some by (simp add: matches_impl_def)
    qed
  next
    case (One_or_more pats)
    then show ?thesis
      using parts begins repeating [OF pat]
      by (auto simp: matches_impl_def one_or_more_def begins_with_def repeats_consume_def
          intro!: halts_then_match seq again halts_const)
  next
    case (Zero_or_more pats)
    then show ?thesis
      using parts begins repeating [OF pat]
      by (auto simp: matches_impl_def zero_or_more_def begins_with_def repeats_consume_def
          intro!: halts_then_match seq again halts_const)
  next
    case (Zero_or_one pats)
    then show ?thesis
      using parts begins
      by (auto simp: matches_impl_def zero_or_one_def begins_with_def intro!: halts_then_match seq halts_const)
  next
    case (Separated main sep)
    then show ?thesis
      using parts begins repeating [OF pat] s m pos
      by (auto simp: matches_impl_def Let_def begins_with_def repeats_consume_def
          intro!: separated_halts [OF apart calls, where c = 0, simplified])
  next
    case (Or pats)
    then show ?thesis
      using parts begins s m
      by (auto simp: matches_impl_def begins_with_def intro!: first_of_halts [OF apart calls])
  next
    case (Group pats)
    then show ?thesis
      using parts begins
      by (auto simp: matches_impl_def begins_with_def intro!: halts_then_match seq halts_const)
  next
    case (Ahead q)
    then show ?thesis
      using parts begins closed pat
      by (auto simp: matches_impl_def ahead_def begins_with_def closed_patterns_def
          intro!: halts_then_match call halts_const)
  next
    case (Not_ahead q)
    then show ?thesis
      using parts begins closed pat
      by (auto simp: matches_impl_def not_ahead_def begins_with_def closed_patterns_def
          intro!: halts_then_match call halts_const)
  next
    case (Single u)
    then show ?thesis
      by (simp add: matches_impl_def single_token_def t halts_const)
  next
    case (Keyword w)
    then show ?thesis
      by (auto simp: matches_impl_def keyword_def single_token_def t intro!: halts_const)
  next
    case Not_reserved
    then show ?thesis
      by (simp add: matches_impl_def not_reserved_def t halts_const)
  qed
qed


text \<open>The bound of the loop that lets a result grow is the number of tokens that are left.\<close>

lemma grow_lr_halts:
  assumes apart: "apart g U inp" and calls: "calls_halt inp i m UNIV" and pat: "pat \<in> U" "is_cached g pat"
    and t: "peek_at inp i = Some t"
    and "sound g U inp s" and "missing g U inp s \<le> m"
    and "m_cache s (key_of pat t) = Some (Some e)" and "\<And>b k. e = Seed b k \<Longrightarrow> k = i"
    and "\<And>v k. e = Memo v k \<Longrightarrow> i \<le> k \<and> k \<le> length (tokens inp)"
  shows "halts (\<lambda>n. grow_lr (n - c) (matches_impl g inp n (matches n g inp) pat) (key_of pat t) i s)"
  using assms(6-10)
proof (induction "length (tokens inp) - (case e of Seed b k \<Rightarrow> i | Memo v k \<Rightarrow> k)"
    arbitrary: c s e rule: less_induct)
  case less
  let ?line = "key_of pat t"
  let ?stop = "\<lambda>p'. case m_cache p' ?line of
      Some (Some (Memo v k)) \<Rightarrow> Match v (move_to k p')
    | Some (Some (Seed b k)) \<Rightarrow> Mismatch (move_to k p')
    | _ \<Rightarrow> Crash Undefined"
  let ?s = "move_to i s"
  let ?impl = "\<lambda>n. matches_impl g inp n (matches n g inp) pat"
  have stop: "halts (\<lambda>n. ?stop p')" for p'
    by (auto intro!: halts_const split: option.split cache_value.split)
  have s: "sound g U inp ?s" and p: "peek_at inp (token_position ?s) = Some t" and "i < length (tokens inp)"
    using less.prems(1) t by (auto simp: peek_at_def split: if_splits)
  have "halts (\<lambda>n. then_match (?impl n ?s)
      (\<lambda>v p'. case m_cache p' ?line of
          Some (Some (Memo w k)) \<Rightarrow>
            if token_position p' \<le> k then ?stop p'
            else grow_lr (n - Suc c) (?impl n) ?line i (remember ?line (Some (Memo v (token_position p'))) p')
        | Some (Some (Seed b k)) \<Rightarrow>
            if token_position p' \<le> k then ?stop p'
            else grow_lr (n - Suc c) (?impl n) ?line i (remember ?line (Some (Memo v (token_position p'))) p')
        | _ \<Rightarrow> Crash Undefined)
      ?stop)"
  proof (rule halts_then_match [OF _ _ stop], goal_cases)
    case 1
    show ?case
      using less.prems(2) calls by (intro matches_impl_halts [OF apart _ pat(1) _ s _ p]) auto
  next
    case (2 v q n)
    have m: "matched g U inp pat ?s v q"
      using matcher.matches_impl_holds [OF pattern_matcher.matcher_axioms closed pat(1) s p, of n n] 2 by simp
    then have q: "sound g U inp q" "preserves {} s q" "derives g inp pat i (token_position q) v"
      using apart is_cached_still [OF pat(2)] by (simp_all add: matched_def)
    obtain e' where e': "m_cache q ?line = Some (Some e')" and sim: "similar (Some e) (Some e')"
      using preservesD [OF q(2) less.prems(3)] by (auto simp: similar_def)
    have pos: "i \<le> token_position q" "token_position q \<le> length (tokens inp)"
      using derives_forward(1) [OF q(3)] \<open>i < length (tokens inp)\<close> by simp_all
    have grow: "halts (\<lambda>n. grow_lr (n - Suc c) (?impl n) ?line i (remember ?line (Some (Memo v (token_position q))) q))"
      if "(case e of Seed b k \<Rightarrow> i | Memo v k \<Rightarrow> k) < token_position q"
    proof (rule less.hyps [where e = "Memo v (token_position q)"])
      show "sound g U inp (remember ?line (Some (Memo v (token_position q))) q)"
        using q pat t by (auto intro!: sound_remember)
      show "missing g U inp (remember ?line (Some (Memo v (token_position q))) q) \<le> m"
        using missing_kept [OF less.prems(2) q(2)] e' by (simp add: missing_present)
    qed (use that pos in \<open>auto split: cache_value.splits\<close>)
    show ?case
      using e' sim grow stop [of q] less.prems(4) by (cases e; cases e') (auto simp: similar_def intro!: halts_if)
  qed
  then show ?case
  proof (rule halts_eventually [where n = "Suc c"])
    fix n
    assume "Suc c \<le> n"
    then have "n - c = Suc (n - Suc c)"
      by simp
    then show "then_match (?impl n ?s)
      (\<lambda>v p'. case m_cache p' ?line of
          Some (Some (Memo w k)) \<Rightarrow>
            if token_position p' \<le> k then ?stop p'
            else grow_lr (n - Suc c) (?impl n) ?line i (remember ?line (Some (Memo v (token_position p'))) p')
        | Some (Some (Seed b k)) \<Rightarrow>
            if token_position p' \<le> k then ?stop p'
            else grow_lr (n - Suc c) (?impl n) ?line i (remember ?line (Some (Memo v (token_position p'))) p')
        | _ \<Rightarrow> Crash Undefined)
      ?stop = grow_lr (n - c) (?impl n) ?line i s"
      by (simp add: Let_def)
  qed
qed


lemma match_pattern_halts:
  assumes apart: "apart g U inp" and pat: "pat \<in> U" and s: "sound g U inp s"
    and t: "peek_at inp (token_position s) = Some t"
    and fresh: "is_cached g pat \<longrightarrow> m_cache s (key_of pat t) = None"
    and smaller: "\<And>q s' t'. q \<in> U \<Longrightarrow> sound g U inp s' \<Longrightarrow> peek_at inp (token_position s') = Some t' \<Longrightarrow>
      (is_cached g q \<longrightarrow> m_cache s' (key_of q t') = None) \<Longrightarrow> token_position s \<le> token_position s' \<Longrightarrow>
      missing g U inp s' \<le> missing g U inp s \<Longrightarrow>
      missing g U inp s' < missing g U inp s \<or> token_position s < token_position s' \<or> level C L q < level C L pat \<Longrightarrow>
      halts (\<lambda>n. matches n g inp q s')"
  shows "halts (\<lambda>n. matches n g inp pat s)"
proof (rule halts_Suc, unfold matches_Suc, cases "is_cached g pat")
  case False
  have "calls_halt inp (token_position s) (missing g U inp s) (set (begins_with g C pat))"
    unfolding calls_halt_def using level_begins_with [OF levels False] by (fastforce intro!: smaller)
  then have "halts (\<lambda>n. matches_impl g inp n (matches n g inp) pat s)"
    by (intro matches_impl_halts [OF apart _ pat _ s _ t]) auto
  then show "halts (\<lambda>n. match_pattern g inp n (matches_impl g inp n (matches n g inp)) pat s)"
    using False by (simp add: match_pattern_def halts_or_back_to)
next
  case True
  let ?line = "key_of pat t" and ?i = "token_position s"
  let ?s = "remember ?line (Some (Seed False ?i)) s"
  let ?impl = "\<lambda>n. matches_impl g inp n (matches n g inp) pat"
  have s1: "sound g U inp ?s" and t1: "peek_at inp (token_position ?s) = Some t"
    using s t pat True by (auto intro!: sound_remember)
  have "preserves {} s ?s"
    using fresh True by (intro preserves_remember) simp
  then have less: "missing g U inp ?s < missing g U inp s"
    using fresh True by (intro missing_less [OF finite_patterns _ pat True t]) auto
  have calls: "calls_halt inp ?i (missing g U inp ?s) UNIV"
    unfolding calls_halt_def using less by (auto intro!: smaller)
  have "halts (\<lambda>n. then_match (?impl n ?s)
      (\<lambda>v p'. case m_cache p' ?line of
          None \<Rightarrow> Crash Undefined
        | Some None \<Rightarrow> Crash Assertion
        | Some (Some (Seed True k)) \<Rightarrow> grow_lr n (?impl n) ?line ?i p'
        | Some (Some _) \<Rightarrow> Match v p')
      (\<lambda>p'. Mismatch (move_to ?i p')))"
  proof (rule halts_then_match, goal_cases)
    case 1
    show ?case
      using calls by (intro matches_impl_halts [OF apart _ pat _ s1 _ t1]) auto
  next
    case (2 v q n)
    have m: "matched g U inp pat ?s v q"
      using matcher.matches_impl_holds [OF pattern_matcher.matcher_axioms closed pat s1 t1, of n n] 2 by simp
    then have q: "sound g U inp q" "preserves {} ?s q"
      by (simp_all add: matched_def)
    obtain b where b: "m_cache q ?line = Some (Some (Seed b ?i))"
      using preservesD [OF q(2), of ?line] by (auto simp: similar_def)
    have "halts (\<lambda>n. grow_lr (n - 0) (?impl n) ?line ?i q)"
      using b missing_mono [OF finite_patterns q(2)]
      by (intro grow_lr_halts [OF apart calls pat True t q(1)]) auto
    then show ?case
      using b by (cases b) (simp_all add: halts_const)
  qed (simp add: halts_const)
  then show "halts (\<lambda>n. match_pattern g inp n (matches_impl g inp n (matches n g inp)) pat s)"
    using True t by (simp add: match_pattern_def Let_def)
qed

theorem matches_halts:
  assumes apart: "apart g U inp" and "pat \<in> U" and "sound g U inp s" and "peek_at inp (token_position s) = Some t"
    and "is_cached g pat \<longrightarrow> m_cache s (key_of pat t) = None"
  shows "halts (\<lambda>n. matches n g inp pat s)"
  using assms(2-)
proof (induction "(missing g U inp s, length (tokens inp) - token_position s, level C L pat)"
    arbitrary: pat s t rule: wf_induct_rule [OF wf_lex_prod [OF wf_less_than wf_lex_prod [OF wf_less_than wf_less_than]]])
  case 1
  have "token_position s < length (tokens inp)"
    using 1(4) by (auto simp: peek_at_def split: if_splits)
  then show ?case
    by (intro match_pattern_halts [OF apart 1(2-5)] 1(1)) auto
qed

text \<open>So a sequence of patterns ends for a new parser, with every bound from some on.\<close>

theorem new_match_halts:
  assumes "apart g U inp" and "set pats \<subseteq> U"
  shows "halts (\<lambda>n. match g inp (matches n g inp) pats new_parser)"
proof (rule match_halts [OF assms(1) _ assms(2) sound_new_parser order_refl order_refl, where D = UNIV])
  show "calls_halt inp (token_position new_parser) (missing g U inp new_parser) UNIV"
    unfolding calls_halt_def by (auto intro: matches_halts [OF assms(1)])
qed simp

end

end
