(* ===== verification/Parser_Expressions.thy ===== *)
theory Parser_Expressions
  imports Grammar
begin

text \<open>
  The rules of the parser for targets, literals and expressions (\<^verbatim>\<open>src/src/parser/Parser.cpp\<close>). Every
  rule has the type of its result and its alternatives in order, each with its patterns and with what
  it makes of their values.
\<close>

section \<open>What the alternatives make\<close>

definition pick :: "nat \<Rightarrow> action" where
  "pick n inp i vs = Return (vs ! n)"

definition make :: "string \<Rightarrow> value list \<Rightarrow> value \<Rightarrow> value \<Rightarrow> outcome" where
  "make c args v w = Return (Node c args (between v w))"

definition name_node :: "input \<Rightarrow> string \<Rightarrow> value \<Rightarrow> value" where
  "name_node inp context v = Node ''Name'' [String_value (text_of inp v), Enum context] (between v v)"

text \<open>An attribute \<open>value . name\<close> and a subscript \<open>value [ slices ]\<close>.\<close>

definition attribute :: "string \<Rightarrow> action" where
  "attribute context inp i vs =
     make ''Attribute'' [vs ! 0, String_value (text_of inp (vs ! 2)), Enum context] (vs ! 0) (vs ! 2)"

definition subscript_node :: "string \<Rightarrow> action" where
  "subscript_node context inp i vs = make ''Subscript'' [vs ! 0, vs ! 2, Enum context] (vs ! 0) (vs ! 3)"

definition binary :: "string \<Rightarrow> action" where
  "binary op inp i vs = make ''BinaryExpr'' [Enum op, vs ! 0, vs ! 2] (vs ! 0) (vs ! 2)"

definition unary :: "string \<Rightarrow> action" where
  "unary op inp i vs = make ''UnaryExpr'' [Enum op, vs ! 1] (vs ! 0) (vs ! 1)"

text \<open>A call \<open>function ( [arguments] )\<close>.\<close>

definition call :: action where
  "call inp i vs =
     make ''Call'' [vs ! 0, Vector (elements_of (component 0 (vs ! 2))), Vector (elements_of (component 1 (vs ! 2)))]
       (vs ! 0) (vs ! 3)"

definition sequence_node :: "string \<Rightarrow> string \<Rightarrow> value list \<Rightarrow> outcome" where
  "sequence_node c context els = make c [Vector els, Enum context] (hd els) (last els)"

section \<open>Targets\<close>

definition NAMEPattern :: rule where
  "NAMEPattern = \<lparr>traits = Token_of NAME, alternatives = [([Not_reserved, Single NAME], pick 1)]\<rparr>"

definition StarTargetsTupleSeq :: rule where
  "StarTargetsTupleSeq = \<lparr>traits = Pointer ''Tuple'', alternatives =
     [([Separated (Rule ''StarTargetPattern'') (Single COMMA), Zero_or_one [Single COMMA]],
       \<lambda>inp i vs. sequence_node ''Tuple'' ''STORE'' (elements_of (vs ! 0)))]\<rparr>"

definition StarTargetsListSeq :: rule where
  "StarTargetsListSeq = \<lparr>traits = Pointer ''List'', alternatives =
     [([Separated (Rule ''StarTargetPattern'') (Single COMMA), Zero_or_one [Single COMMA]],
       \<lambda>inp i vs. sequence_node ''List'' ''STORE'' (elements_of (vs ! 0)))]\<rparr>"

text \<open>The elements of a tuple or list that may be missing.\<close>

definition optional_elements :: "value \<Rightarrow> value" where
  "optional_elements v = (case v of Optional (Some n) \<Rightarrow> hd (fields_of n) | _ \<Rightarrow> Vector [])"

text \<open>The target between parentheses may be missing, and then the rule does not match.\<close>

definition StarAtomPattern :: rule where
  "StarAtomPattern = \<lparr>traits = Ast, alternatives =
     [([Rule ''NAMEPattern''], \<lambda>inp i vs. Return (name_node inp ''STORE'' (vs ! 0))),
      ([Single LPAREN, Zero_or_one [Rule ''TargetWithStarAtomPattern''], Single RPAREN],
       \<lambda>inp i vs. case vs ! 1 of Optional (Some v) \<Rightarrow> Return v | _ \<Rightarrow> No_match),
      ([Single LPAREN, Zero_or_one [Rule ''StarTargetsTupleSeq''], Single RPAREN],
       \<lambda>inp i vs. make ''Tuple'' [optional_elements (vs ! 1), Enum ''STORE''] (vs ! 0) (vs ! 2)),
      ([Single LSQB, Zero_or_one [Rule ''StarTargetsListSeq''], Single RSQB],
       \<lambda>inp i vs. make ''List'' [optional_elements (vs ! 1), Enum ''STORE''] (vs ! 0) (vs ! 2))]\<rparr>"

definition TLookahead :: rule where
  "TLookahead = \<lparr>traits = Token_type, alternatives = [([Or [Single LPAREN, Single LSQB, Single DOT]], pick 0)]\<rparr>"

definition TPrimaryPattern :: rule where
  "TPrimaryPattern = \<lparr>traits = Ast, alternatives =
     [([Rule ''TPrimaryPattern'', Single DOT, Single NAME, Ahead (Rule ''TLookahead'')], attribute ''LOAD''),
      ([Rule ''TPrimaryPattern'', Single LSQB, Rule ''SlicesPattern'', Single RSQB, Ahead (Rule ''TLookahead'')],
       subscript_node ''LOAD''),
      ([Rule ''TPrimaryPattern'', Rule ''GenexPattern'', Ahead (Rule ''TLookahead'')], \<lambda>inp i vs. No_match),
      ([Rule ''TPrimaryPattern'', Single LPAREN, Zero_or_one [Rule ''ArgumentsPattern''], Single RPAREN,
        Ahead (Rule ''TLookahead'')], call),
      ([Rule ''AtomPattern'', Ahead (Rule ''TLookahead'')], pick 0)]\<rparr>"

definition TargetWithStarAtomPattern :: rule where
  "TargetWithStarAtomPattern = \<lparr>traits = Ast, alternatives =
     [([Rule ''TPrimaryPattern'', Single DOT, Single NAME, Not_ahead (Rule ''TLookahead'')], attribute ''STORE''),
      ([Rule ''TPrimaryPattern'', Single LSQB, Rule ''SlicesPattern'', Single RSQB, Not_ahead (Rule ''TLookahead'')],
       subscript_node ''STORE''),
      ([Rule ''StarAtomPattern''], pick 0)]\<rparr>"

definition StarTargetPattern :: rule where
  "StarTargetPattern = \<lparr>traits = Ast, alternatives =
     [([Single STAR, Not_ahead (Single STAR), Rule ''StarTargetPattern''],
       \<lambda>inp i vs. Return (Node ''Starred'' [vs ! 2, Enum ''STORE''] (start_of (vs ! 0), start_of (vs ! 2)))),
      ([Rule ''TargetWithStarAtomPattern''], pick 0)]\<rparr>"

definition StarTargetsPattern :: rule where
  "StarTargetsPattern = \<lparr>traits = Ast, alternatives =
     [([Rule ''StarTargetPattern'', Not_ahead (Single COMMA)], pick 0),
      ([Rule ''StarTargetPattern'', Zero_or_more [Single COMMA, Rule ''StarTargetPattern''],
        Zero_or_one [Single COMMA]],
       \<lambda>inp i vs. sequence_node ''Tuple'' ''STORE'' (vs ! 0 # map (component 1) (elements_of (vs ! 1))))]\<rparr>"

section \<open>Strings\<close>

definition constant_node :: "value \<Rightarrow> source_location \<Rightarrow> value" where
  "constant_node v loc = Node ''Constant'' [v] loc"

definition constant_of :: "(string \<Rightarrow> value) \<Rightarrow> source_location \<Rightarrow> string py_result \<Rightarrow> outcome" where
  "constant_of f loc r =
     (case r of Ok s \<Rightarrow> Return (constant_node (f s) loc) | Err e \<Rightarrow> Stop Undefined | Abort a \<Rightarrow> Stop a)"

definition FExpressionPattern :: rule where
  "FExpressionPattern = \<lparr>traits = Ast, alternatives =
     [([Or [Rule ''YieldExpressionPattern'', Rule ''StarExpressionsPattern'']], pick 0)]\<rparr>"

definition conversion_of :: "string \<Rightarrow> outcome" where
  "conversion_of s =
     (if s = ''r'' then Return (Enum ''REPR'')
      else if s = ''s'' then Return (Enum ''STRING'')
      else if s = ''a'' then Return (Enum ''ASCII'')
      else No_match)"

definition ConversionPattern :: rule where
  "ConversionPattern = \<lparr>traits = Struct_type ''Conversion'', alternatives =
     [([Single NAME], \<lambda>inp i vs. conversion_of (text_of inp (vs ! 0)))]\<rparr>"

text \<open>The text between the closing brace and the next token is a constant of its own. The format
  specification and the equals sign are read and dropped.\<close>

definition replacement_field :: action where
  "replacement_field inp i vs =
     (let l = vs ! 0; r = vs ! 5;
          conversion = (if has_value (vs ! 3) then component 1 (vs ! 3) else Enum ''NONE'');
          field = Node ''FormattedValue'' [vs ! 1, conversion, Nullptr] (between l l);
          nowhere = (start_of Monostate, end_of Monostate);
          rest = (case peek_at inp (snd i) of
              None \<Rightarrow> []
            | Some t \<Rightarrow> if m_token_type t = ENDMARKER then [] else text_between inp (end_of r) (m_start t)) in
      Return (Tuple_of [field, if rest = [] then Nullptr else constant_node (String_value rest) nowhere]))"

definition FStringReplacementFieldPattern :: rule where
  "FStringReplacementFieldPattern =
     \<lparr>traits = Tuple_type [Pointer ''FormattedValue'', Pointer ''Constant''], alternatives =
     [([Single LBRACE, Rule ''FExpressionPattern'', Zero_or_one [Single EQUAL],
        Zero_or_one [Single EXCLAMATION, Rule ''ConversionPattern''],
        Zero_or_one [Single COLON, Zero_or_more [Rule ''FStringFormatSpecPattern'']], Single RBRACE],
       replacement_field)]\<rparr>"

definition FStringMiddlePattern :: rule where
  "FStringMiddlePattern =
     \<lparr>traits = Variant_type [Tuple_type [Pointer ''FormattedValue'', Pointer ''Constant''], Pointer ''Constant''],
      alternatives =
     [([Rule ''FStringReplacementFieldPattern''], pick 0),
      ([Single FSTRING_MIDDLE],
       \<lambda>inp i vs. constant_of String_value (between (vs ! 0) (vs ! 0))
         (unescape_string (utf8 inp) (undouble_braces (text_of inp (vs ! 0)))))]\<rparr>"

definition FStringFormatSpecPattern :: rule where
  "FStringFormatSpecPattern =
     \<lparr>traits = Variant_type [Tuple_type [Pointer ''FormattedValue'', Pointer ''Constant''], Pointer ''Constant''],
      alternatives =
     [([Single FSTRING_MIDDLE],
       \<lambda>inp i vs. Return (constant_node (String_value (text_of inp (vs ! 0))) (between (vs ! 0) (vs ! 0)))),
      ([Rule ''FStringReplacementFieldPattern''], pick 0)]\<rparr>"

text \<open>The parts of an f-string, in order.\<close>

definition fstring_part :: "value \<Rightarrow> value list" where
  "fstring_part v =
     (case v of
        Tuple_of [fv, c] \<Rightarrow> if c = Nullptr then [fv] else [fv, c]
      | _ \<Rightarrow> [v])"

definition FStringPattern :: rule where
  "FStringPattern = \<lparr>traits = Pointer ''JoinedStr'', alternatives =
     [([Single FSTRING_START, Zero_or_more [Rule ''FStringMiddlePattern''], Single FSTRING_END],
       \<lambda>inp i vs.
         let parts = concat (map fstring_part (elements_of (vs ! 1)));
             parts = (if parts = [] then [constant_node (String_value []) (end_of (vs ! 0), start_of (vs ! 2))] else parts) in
         make ''JoinedStr'' [Vector parts] (vs ! 0) (vs ! 2))]\<rparr>"

definition StringPattern :: rule where
  "StringPattern = \<lparr>traits = Pointer ''Constant'', alternatives =
     [([Single STRING],
       \<lambda>inp i vs.
         let v = text_of inp (vs ! 0); loc = between (vs ! 0) (vs ! 0) in
         case parse_bytes v of
           Some r \<Rightarrow> constant_of Bytes_value loc r
         | None \<Rightarrow> constant_of String_value loc (parse_string (utf8 inp) v))]\<rparr>"

text \<open>Adjacent strings are joined: to one f-string, or to one constant. A string among bytes is an error,
  bytes behind a string fail an assertion.\<close>

fun join_bytes :: "value list \<Rightarrow> string option" where
  "join_bytes [] = Some []"
| "join_bytes (Node c [Bytes_value b] loc # vs) = map_option ((@) b) (join_bytes vs)"
| "join_bytes (v # vs) = None"

fun join_strings :: "value list \<Rightarrow> string option" where
  "join_strings [] = Some []"
| "join_strings (Node c [String_value s] loc # vs) = map_option ((@) s) (join_strings vs)"
| "join_strings (v # vs) = None"

definition string_nodes :: "value \<Rightarrow> value list" where
  "string_nodes v = (if is_node ''JoinedStr'' v then elements_of (hd (fields_of v)) else [v])"

definition is_bytes :: "value \<Rightarrow> bool" where
  "is_bytes v \<longleftrightarrow> (case fields_of v of [Bytes_value _] \<Rightarrow> True | _ \<Rightarrow> False)"

definition join_literals :: action where
  "join_literals inp i vs =
     (let nodes = concat (map string_nodes (elements_of (vs ! 0))); loc = between (hd nodes) (last nodes) in
      if \<not> list_all (is_node ''Constant'') nodes then Return (Node ''JoinedStr'' [Vector nodes] loc)
      else if is_bytes (hd nodes)
      then (case join_bytes nodes of None \<Rightarrow> Stop Todo | Some b \<Rightarrow> Return (constant_node (Bytes_value b) loc))
      else (case join_strings nodes of None \<Rightarrow> Stop Assertion | Some s \<Rightarrow> Return (constant_node (String_value s) loc)))"

definition StringsPattern :: rule where
  "StringsPattern = \<lparr>traits = Ast, alternatives =
     [([One_or_more [Or [Rule ''FStringPattern'', Rule ''StringPattern'']]], join_literals)]\<rparr>"

section \<open>Lists, tuples, dictionaries, sets and comprehensions\<close>

definition StarNamedExpression :: rule where
  "StarNamedExpression = \<lparr>traits = Ast, alternatives =
     [([Single STAR, Rule ''BitwiseOrPattern''],
       \<lambda>inp i vs. Return (Node ''Starred'' [vs ! 1, Enum ''LOAD''] (start_of (vs ! 0), start_of (vs ! 1)))),
      ([Rule ''NamedExpressionPattern''], pick 0)]\<rparr>"

definition StarNamedExpressions :: rule where
  "StarNamedExpressions = \<lparr>traits = Vector_type Ast, alternatives =
     [([Separated (Rule ''StarNamedExpression'') (Single COMMA), Zero_or_one [Single COMMA]], pick 0)]\<rparr>"

definition ListPattern :: rule where
  "ListPattern = \<lparr>traits = Pointer ''List'', alternatives =
     [([Single LSQB, Zero_or_one [Rule ''StarNamedExpressions''], Single RSQB],
       \<lambda>inp i vs. make ''List'' [value_or (vs ! 1) (Vector []), Enum ''LOAD''] (vs ! 0) (vs ! 2))]\<rparr>"

definition ForIfClausePattern :: rule where
  "ForIfClausePattern = \<lparr>traits = Pointer ''Comprehension'', alternatives =
     [([Keyword ''for'', Rule ''StarTargetsPattern'', Keyword ''in'', Rule ''DisjunctionPattern'',
        Zero_or_more [Keyword ''if'', Rule ''DisjunctionPattern'']],
       \<lambda>inp i vs.
         let ifs = map (component 1) (elements_of (vs ! 4)) in
         make ''Comprehension'' [vs ! 1, vs ! 3, Vector ifs, Flag False] (vs ! 0)
           (if ifs = [] then vs ! 3 else last ifs))]\<rparr>"

definition ForIfClausesPattern :: rule where
  "ForIfClausesPattern = \<lparr>traits = Vector_type (Pointer ''Comprehension''), alternatives =
     [([One_or_more [Rule ''ForIfClausePattern'']], pick 0)]\<rparr>"

text \<open>A comprehension \<open>l elt generators r\<close>.\<close>

definition comprehension_node :: "string \<Rightarrow> action" where
  "comprehension_node c inp i vs = make c [vs ! 1, vs ! 2] (vs ! 0) (vs ! 3)"

definition ListCompPattern :: rule where
  "ListCompPattern = \<lparr>traits = Pointer ''ListComp'', alternatives =
     [([Single LSQB, Rule ''NamedExpressionPattern'', Rule ''ForIfClausesPattern'', Single RSQB],
       comprehension_node ''ListComp'')]\<rparr>"

definition TuplePattern :: rule where
  "TuplePattern = \<lparr>traits = Ast, alternatives =
     [([Single LPAREN,
        Zero_or_one [Rule ''StarNamedExpression'', Single COMMA, Zero_or_one [Rule ''StarNamedExpressions'']],
        Single RPAREN],
       \<lambda>inp i vs.
         let els = (if has_value (vs ! 1) then component 0 (vs ! 1) # elements_of (component 2 (vs ! 1)) else []) in
         make ''Tuple'' [Vector els, Enum ''LOAD''] (vs ! 0) (vs ! 2))]\<rparr>"

definition GroupPattern :: rule where
  "GroupPattern = \<lparr>traits = Ast, alternatives =
     [([Single LPAREN, Or [Rule ''YieldExpressionPattern'', Rule ''NamedExpressionPattern''], Single RPAREN], pick 1)]\<rparr>"

definition GenexPattern :: rule where
  "GenexPattern = \<lparr>traits = Pointer ''GeneratorExp'', alternatives =
     [([Single LPAREN, Rule ''NamedExpressionPattern'', Rule ''ForIfClausesPattern'', Single RPAREN],
       comprehension_node ''GeneratorExp'')]\<rparr>"

definition KVPairPattern :: rule where
  "KVPairPattern = \<lparr>traits = Tuple_type [Ast, Ast], alternatives =
     [([Rule ''ExpressionPattern'', Single COLON, Rule ''ExpressionPattern''],
       \<lambda>inp i vs. Return (Tuple_of [vs ! 0, vs ! 2]))]\<rparr>"

definition DoubleStarredKVPairPattern :: rule where
  "DoubleStarredKVPairPattern = \<lparr>traits = Tuple_type [Ast, Ast], alternatives =
     [([Single DOUBLESTAR, Rule ''BitwiseOrPattern''], \<lambda>inp i vs. Return (Tuple_of [Nullptr, vs ! 1])),
      ([Rule ''KVPairPattern''], pick 0)]\<rparr>"

definition DoubleStarredKVPairsPattern :: rule where
  "DoubleStarredKVPairsPattern = \<lparr>traits = Vector_type (Tuple_type [Ast, Ast]), alternatives =
     [([Separated (Rule ''DoubleStarredKVPairPattern'') (Single COMMA), Zero_or_one [Single COMMA]], pick 0)]\<rparr>"

definition DictPattern :: rule where
  "DictPattern = \<lparr>traits = Pointer ''Dict'', alternatives =
     [([Single LBRACE, Zero_or_one [Rule ''DoubleStarredKVPairsPattern''], Single RBRACE],
       \<lambda>inp i vs.
         if vs ! 1 = Optional (Some (Vector [])) then Stop Assertion
         else let pairs = elements_of (vs ! 1) in
           make ''Dict'' [Vector (map (component 0) pairs), Vector (map (component 1) pairs)] (vs ! 0) (vs ! 2))]\<rparr>"

definition SetPattern :: rule where
  "SetPattern = \<lparr>traits = Pointer ''Set'', alternatives =
     [([Single LBRACE, Rule ''StarNamedExpressions'', Single RBRACE],
       \<lambda>inp i vs. make ''Set'' [vs ! 1, Enum ''LOAD''] (vs ! 0) (vs ! 2))]\<rparr>"

definition DictCompPattern :: rule where
  "DictCompPattern = \<lparr>traits = Ast, alternatives =
     [([Single LBRACE, Rule ''KVPairPattern'', Rule ''ForIfClausesPattern'', Single RBRACE],
       \<lambda>inp i vs. make ''DictComp'' [component 0 (vs ! 1), component 1 (vs ! 1), vs ! 2] (vs ! 0) (vs ! 3))]\<rparr>"

definition SetCompPattern :: rule where
  "SetCompPattern = \<lparr>traits = Pointer ''SetComp'', alternatives =
     [([Single LBRACE, Rule ''NamedExpressionPattern'', Rule ''ForIfClausesPattern'', Single RBRACE],
       comprehension_node ''SetComp'')]\<rparr>"

section \<open>Atoms\<close>

text \<open>A malformed number throws an exception that nothing catches.\<close>

definition integer_constant :: "input \<Rightarrow> nat \<Rightarrow> string \<Rightarrow> source_location \<Rightarrow> outcome" where
  "integer_constant inp base digits loc =
     (case big_int inp base digits of None \<Rightarrow> Stop Undefined | Some n \<Rightarrow> Return (constant_node (Int_value n) loc))"

definition parse_number :: "input \<Rightarrow> string \<Rightarrow> source_location \<Rightarrow> outcome" where
  "parse_number inp text loc =
     (let v = filter (\<lambda>c. c \<noteq> CHR ''_'') text; c = (if length v < 2 then CHR 0x00 else v ! 1) in
      if v = [] then Stop Undefined
      else if c \<in> {CHR ''o'', CHR ''O''} then integer_constant inp 8 (drop 2 v) loc
      else if c \<in> {CHR ''x'', CHR ''X''} then integer_constant inp 16 (drop 2 v) loc
      else if c \<in> {CHR ''b'', CHR ''B''} then integer_constant inp 2 (drop 2 v) loc
      else if CHR ''j'' \<in> set v \<or> CHR ''J'' \<in> set v then Stop Todo
      else if CHR ''e'' \<in> set v \<or> CHR ''E'' \<in> set v then Return (constant_node (Double_value v) loc)
      else if CHR ''.'' \<in> set v then Return (constant_node (Double_value v) loc)
      else integer_constant inp 0 v loc)"

definition atom_name :: action where
  "atom_name inp i vs =
     (let name = text_of inp (vs ! 0); loc = between (vs ! 0) (vs ! 0) in
      if name = ''True'' then Return (constant_node (Flag True) loc)
      else if name = ''False'' then Return (constant_node (Flag False) loc)
      else if name = ''None'' then Return (constant_node (Py_object ''None'') loc)
      else Return (name_node inp ''LOAD'' (vs ! 0)))"

definition AtomPattern :: rule where
  "AtomPattern = \<lparr>traits = Ast, alternatives =
     [([Rule ''NAMEPattern''], atom_name),
      ([Rule ''StringsPattern''], pick 0),
      ([Single NUMBER], \<lambda>inp i vs. parse_number inp (text_of inp (vs ! 0)) (between (vs ! 0) (vs ! 0))),
      ([Or [Rule ''TuplePattern'', Rule ''GroupPattern'', Rule ''GenexPattern'']], pick 0),
      ([Or [Rule ''ListPattern'', Rule ''ListCompPattern'']], pick 0),
      ([Or [Rule ''DictPattern'', Rule ''SetPattern'', Rule ''DictCompPattern'', Rule ''SetCompPattern'']], pick 0),
      ([Single ELLIPSIS], \<lambda>inp i vs. Return (constant_node (Py_object ''Ellipsis'') (between (vs ! 0) (vs ! 0))))]\<rparr>"

definition NamedExpressionPattern :: rule where
  "NamedExpressionPattern = \<lparr>traits = Ast, alternatives =
     [([Single NAME, Single COLONEQUAL, Rule ''ExpressionPattern''],
       \<lambda>inp i vs. make ''NamedExpr'' [name_node inp ''STORE'' (vs ! 0), vs ! 2] (vs ! 0) (vs ! 2)),
      ([Rule ''ExpressionPattern'', Not_ahead (Single COLONEQUAL)], pick 0)]\<rparr>"

end
