(* ===== verification/Parser_Operators.thy ===== *)
theory Parser_Operators
  imports Parser_Expressions
begin

text \<open>
  The rules of the parser for arguments, slices, operators, comparisons and lambdas
  (\<^verbatim>\<open>src/src/parser/Parser.cpp\<close>).
\<close>

section \<open>Arguments of a call\<close>

text \<open>\<open>NAME = expression\<close> as a keyword argument.\<close>

definition named_argument :: action where
  "named_argument inp i vs = make ''Keyword'' [String_value (text_of inp (vs ! 0)), vs ! 2] (vs ! 0) (vs ! 2)"

definition KwargsOrStarredPattern :: rule where
  "KwargsOrStarredPattern = \<lparr>traits = Pointer ''Keyword'', alternatives =
     [([Single NAME, Single EQUAL, Rule ''ExpressionPattern''], named_argument),
      ([Rule ''StarredExpressionPattern''], \<lambda>inp i vs. make ''Keyword'' [vs ! 0] (vs ! 0) (vs ! 0))]\<rparr>"

definition StarredExpressionPattern :: rule where
  "StarredExpressionPattern = \<lparr>traits = Pointer ''Starred'', alternatives =
     [([Single STAR, Rule ''ExpressionPattern''],
       \<lambda>inp i vs. make ''Starred'' [vs ! 1, Enum ''LOAD''] (vs ! 0) (vs ! 1))]\<rparr>"

definition KwargsOrDoubleStarredPattern :: rule where
  "KwargsOrDoubleStarredPattern = \<lparr>traits = Pointer ''Keyword'', alternatives =
     [([Single NAME, Single EQUAL, Rule ''ExpressionPattern''], named_argument),
      ([Single DOUBLESTAR, Rule ''ExpressionPattern''], \<lambda>inp i vs. make ''Keyword'' [vs ! 1] (vs ! 0) (vs ! 1))]\<rparr>"

definition KwargsPattern :: rule where
  "KwargsPattern = \<lparr>traits = Vector_type (Pointer ''Keyword''), alternatives =
     [([Separated (Rule ''KwargsOrStarredPattern'') (Single COMMA), Single COMMA,
        Separated (Rule ''KwargsOrDoubleStarredPattern'') (Single COMMA)],
       \<lambda>inp i vs. Return (Vector (elements_of (vs ! 0) @ elements_of (vs ! 2)))),
      ([Separated (Rule ''KwargsOrStarredPattern'') (Single COMMA)], pick 0),
      ([Separated (Rule ''KwargsOrDoubleStarredPattern'') (Single COMMA)], pick 0)]\<rparr>"

text \<open>A positional argument is a starred expression or the first part of a group.\<close>

definition positional :: "value \<Rightarrow> value" where
  "positional v = (if is_node ''Starred'' v then v else component 0 v)"

definition args_type :: ctype where
  "args_type = Tuple_type [Vector_type Ast, Vector_type (Pointer ''Keyword'')]"

definition ArgsPattern :: rule where
  "ArgsPattern = \<lparr>traits = args_type, alternatives =
     [([Separated
          (Or [Rule ''StarredExpressionPattern'', Group [Rule ''NamedExpressionPattern'', Not_ahead (Single EQUAL)]])
          (Single COMMA),
        Zero_or_one [Single COMMA, Rule ''KwargsPattern'']],
       \<lambda>inp i vs. Return (Tuple_of
         [Vector (map positional (elements_of (vs ! 0))),
          if has_value (vs ! 1) then component 1 (vs ! 1) else Vector []])),
      ([Rule ''KwargsPattern''], \<lambda>inp i vs. Return (Tuple_of [Vector [], vs ! 0]))]\<rparr>"

definition ArgumentsPattern :: rule where
  "ArgumentsPattern = \<lparr>traits = args_type, alternatives =
     [([Rule ''ArgsPattern'', Zero_or_one [Single COMMA], Ahead (Single RPAREN)], pick 0)]\<rparr>"

section \<open>Slices\<close>

definition SlicePattern :: rule where
  "SlicePattern = \<lparr>traits = Variant_type [Struct_type ''Index'', Struct_type ''Slice''], alternatives =
     [([Zero_or_one [Rule ''ExpressionPattern''], Single COLON, Zero_or_one [Rule ''ExpressionPattern''],
        Zero_or_one [Single COLON, Zero_or_one [Rule ''ExpressionPattern'']]],
       \<lambda>inp i vs. Return (Struct ''Slice''
         [value_or (vs ! 0) Nullptr, value_or (vs ! 2) Nullptr,
          if has_value (vs ! 3) then value_or (component 1 (vs ! 3)) Nullptr else Nullptr])),
      ([Rule ''ExpressionPattern''], \<lambda>inp i vs. Return (Struct ''Index'' [vs ! 0]))]\<rparr>"

definition SlicesPattern :: rule where
  "SlicesPattern = \<lparr>traits = Struct_type ''SliceType'', alternatives =
     [([Rule ''SlicePattern'', Not_ahead (Single COMMA)], pick 0),
      ([Separated (Rule ''SlicePattern'') (Single COMMA), Zero_or_one [Single COMMA]],
       \<lambda>inp i vs. Return (Struct ''ExtSlice'' [vs ! 0]))]\<rparr>"

section \<open>Primaries\<close>

definition PrimaryPattern :: rule where
  "PrimaryPattern = \<lparr>traits = Ast, alternatives =
     [([Rule ''PrimaryPattern'', Single DOT, Rule ''NAMEPattern''], attribute ''LOAD''),
      ([Rule ''PrimaryPattern'', Rule ''GenexPattern''],
       \<lambda>inp i vs. make ''Call'' [vs ! 0, Vector [vs ! 1], Vector []] (vs ! 0) (vs ! 1)),
      ([Rule ''PrimaryPattern'', Single LPAREN, Zero_or_one [Rule ''ArgumentsPattern''], Single RPAREN], call),
      ([Rule ''PrimaryPattern'', Single LSQB, Rule ''SlicesPattern'', Single RSQB], subscript_node ''LOAD''),
      ([Rule ''AtomPattern''], pick 0)]\<rparr>"

definition AwaitPrimaryPattern :: rule where
  "AwaitPrimaryPattern = \<lparr>traits = Ast, alternatives =
     [([Keyword ''await'', Rule ''PrimaryPattern''], \<lambda>inp i vs. make ''Await'' [vs ! 1] (vs ! 0) (vs ! 1)),
      ([Rule ''PrimaryPattern''], pick 0)]\<rparr>"

section \<open>Operators\<close>

definition PowerPattern :: rule where
  "PowerPattern = \<lparr>traits = Ast, alternatives =
     [([Rule ''AwaitPrimaryPattern'', Single DOUBLESTAR, Rule ''FactorPattern''], binary ''EXP''),
      ([Rule ''AwaitPrimaryPattern''], pick 0)]\<rparr>"

definition FactorPattern :: rule where
  "FactorPattern = \<lparr>traits = Ast, alternatives =
     [([Single PLUS, Rule ''FactorPattern''], unary ''ADD''),
      ([Single MINUS, Rule ''FactorPattern''], unary ''SUB''),
      ([Single TILDE, Rule ''FactorPattern''], unary ''INVERT''),
      ([Rule ''PowerPattern''], pick 0)]\<rparr>"

definition TermPattern :: rule where
  "TermPattern = \<lparr>traits = Ast, alternatives =
     [([Rule ''TermPattern'', Single STAR, Rule ''FactorPattern''], binary ''MULTIPLY''),
      ([Rule ''TermPattern'', Single SLASH, Rule ''FactorPattern''], binary ''SLASH''),
      ([Rule ''TermPattern'', Single DOUBLESLASH, Rule ''FactorPattern''], binary ''FLOORDIV''),
      ([Rule ''TermPattern'', Single PERCENT, Rule ''FactorPattern''], binary ''MODULO''),
      ([Rule ''TermPattern'', Single AT, Rule ''FactorPattern''], binary ''MATMUL''),
      ([Rule ''FactorPattern''], pick 0)]\<rparr>"

definition SumPattern :: rule where
  "SumPattern = \<lparr>traits = Ast, alternatives =
     [([Rule ''SumPattern'', Single PLUS, Rule ''TermPattern''], binary ''PLUS''),
      ([Rule ''SumPattern'', Single MINUS, Rule ''TermPattern''], binary ''MINUS''),
      ([Rule ''TermPattern''], pick 0)]\<rparr>"

definition ShiftExprPattern :: rule where
  "ShiftExprPattern = \<lparr>traits = Ast, alternatives =
     [([Rule ''ShiftExprPattern'', Single LEFTSHIFT, Rule ''SumPattern''], binary ''LEFTSHIFT''),
      ([Rule ''ShiftExprPattern'', Single RIGHTSHIFT, Rule ''SumPattern''], binary ''RIGHTSHIFT''),
      ([Rule ''SumPattern''], pick 0)]\<rparr>"

definition BitwiseAndPattern :: rule where
  "BitwiseAndPattern = \<lparr>traits = Ast, alternatives =
     [([Rule ''BitwiseAndPattern'', Single AMPER, Rule ''ShiftExprPattern''], binary ''AND''),
      ([Rule ''ShiftExprPattern''], pick 0)]\<rparr>"

definition BitwiseXorPattern :: rule where
  "BitwiseXorPattern = \<lparr>traits = Ast, alternatives =
     [([Rule ''BitwiseXorPattern'', Single CIRCUMFLEX, Rule ''BitwiseAndPattern''], binary ''XOR''),
      ([Rule ''BitwiseAndPattern''], pick 0)]\<rparr>"

definition BitwiseOrPattern :: rule where
  "BitwiseOrPattern = \<lparr>traits = Ast, alternatives =
     [([Rule ''BitwiseOrPattern'', Single VBAR, Rule ''BitwiseXorPattern''], binary ''OR''),
      ([Rule ''BitwiseXorPattern''], pick 0)]\<rparr>"

section \<open>Comparisons\<close>

definition EqBitwiseOrPattern :: rule where
  "EqBitwiseOrPattern = \<lparr>traits = Ast, alternatives = [([Single EQEQUAL, Rule ''BitwiseOrPattern''], pick 1)]\<rparr>"

definition NotEqBitwiseOrPattern :: rule where
  "NotEqBitwiseOrPattern = \<lparr>traits = Ast, alternatives = [([Single NOTEQUAL, Rule ''BitwiseOrPattern''], pick 1)]\<rparr>"

definition LtEqBitwiseOrPattern :: rule where
  "LtEqBitwiseOrPattern = \<lparr>traits = Ast, alternatives = [([Single LESSEQUAL, Rule ''BitwiseOrPattern''], pick 1)]\<rparr>"

definition LtBitwiseOrPattern :: rule where
  "LtBitwiseOrPattern = \<lparr>traits = Ast, alternatives = [([Single LESS, Rule ''BitwiseOrPattern''], pick 1)]\<rparr>"

definition GtEqBitwiseOrPattern :: rule where
  "GtEqBitwiseOrPattern = \<lparr>traits = Ast, alternatives = [([Single GREATEREQUAL, Rule ''BitwiseOrPattern''], pick 1)]\<rparr>"

definition GtBitwiseOrPattern :: rule where
  "GtBitwiseOrPattern = \<lparr>traits = Ast, alternatives = [([Single GREATER, Rule ''BitwiseOrPattern''], pick 1)]\<rparr>"

definition InBitwiseOrPattern :: rule where
  "InBitwiseOrPattern = \<lparr>traits = Ast, alternatives = [([Keyword ''in'', Rule ''BitwiseOrPattern''], pick 1)]\<rparr>"

definition NotInBitwiseOrPattern :: rule where
  "NotInBitwiseOrPattern = \<lparr>traits = Ast, alternatives =
     [([Keyword ''not'', Keyword ''in'', Rule ''BitwiseOrPattern''], pick 2)]\<rparr>"

definition IsNotBitwiseOrPattern :: rule where
  "IsNotBitwiseOrPattern = \<lparr>traits = Ast, alternatives =
     [([Keyword ''is'', Keyword ''not'', Rule ''BitwiseOrPattern''], pick 2)]\<rparr>"

definition IsBitwiseOrPattern :: rule where
  "IsBitwiseOrPattern = \<lparr>traits = Ast, alternatives = [([Keyword ''is'', Rule ''BitwiseOrPattern''], pick 1)]\<rparr>"

definition with_operator :: "string \<Rightarrow> action" where
  "with_operator op inp i vs = Return (Tuple_of [vs ! 0, Enum op])"

definition CompareOpBitwiseOrPairPattern :: rule where
  "CompareOpBitwiseOrPairPattern = \<lparr>traits = Tuple_type [Ast, Struct_type ''OpType''], alternatives =
     [([Rule ''EqBitwiseOrPattern''], with_operator ''Eq''),
      ([Rule ''NotEqBitwiseOrPattern''], with_operator ''NotEq''),
      ([Rule ''LtEqBitwiseOrPattern''], with_operator ''LtE''),
      ([Rule ''LtBitwiseOrPattern''], with_operator ''Lt''),
      ([Rule ''GtEqBitwiseOrPattern''], with_operator ''GtE''),
      ([Rule ''GtBitwiseOrPattern''], with_operator ''Gt''),
      ([Rule ''NotInBitwiseOrPattern''], with_operator ''NotIn''),
      ([Rule ''InBitwiseOrPattern''], with_operator ''In''),
      ([Rule ''IsNotBitwiseOrPattern''], with_operator ''IsNot''),
      ([Rule ''IsBitwiseOrPattern''], with_operator ''Is'')]\<rparr>"

definition ComparissonPattern :: rule where
  "ComparissonPattern = \<lparr>traits = Ast, alternatives =
     [([Rule ''BitwiseOrPattern'', One_or_more [Rule ''CompareOpBitwiseOrPairPattern'']],
       \<lambda>inp i vs.
         let comparators = map (component 0) (elements_of (vs ! 1)); ops = map (component 1) (elements_of (vs ! 1)) in
         make ''Compare'' [vs ! 0, Vector ops, Vector comparators] (vs ! 0) (last comparators)),
      ([Rule ''BitwiseOrPattern''], pick 0)]\<rparr>"

definition InversionPattern :: rule where
  "InversionPattern = \<lparr>traits = Ast, alternatives =
     [([Keyword ''not'', Rule ''ComparissonPattern''], unary ''NOT''),
      ([Rule ''ComparissonPattern''], pick 0)]\<rparr>"

definition bool_op :: "string \<Rightarrow> action" where
  "bool_op op inp i vs =
     (let es = vs ! 0 # map (component 1) (elements_of (vs ! 1)) in
      make ''BoolOp'' [Enum op, Vector es] (hd es) (last es))"

definition ConjunctionPattern :: rule where
  "ConjunctionPattern = \<lparr>traits = Ast, alternatives =
     [([Rule ''InversionPattern'', One_or_more [Keyword ''and'', Rule ''InversionPattern'']], bool_op ''And''),
      ([Rule ''InversionPattern''], pick 0)]\<rparr>"

definition DisjunctionPattern :: rule where
  "DisjunctionPattern = \<lparr>traits = Ast, alternatives =
     [([Rule ''ConjunctionPattern'', One_or_more [Keyword ''or'', Rule ''ConjunctionPattern'']], bool_op ''Or''),
      ([Rule ''ConjunctionPattern''], pick 0)]\<rparr>"

section \<open>Lambdas\<close>

definition LambdaParamPattern :: rule where
  "LambdaParamPattern = \<lparr>traits = Token_type, alternatives = [([Rule ''NAMEPattern''], pick 0)]\<rparr>"

definition argument_node :: "input \<Rightarrow> value \<Rightarrow> value \<Rightarrow> value \<Rightarrow> value" where
  "argument_node inp name annotation final =
     Node ''Argument'' [String_value (text_of inp name), annotation, String_value []] (between name final)"

definition LambdaParamNoDefaultPattern :: rule where
  "LambdaParamNoDefaultPattern = \<lparr>traits = Pointer ''Argument'', alternatives =
     [([Rule ''LambdaParamPattern'', Single COMMA], \<lambda>inp i vs. Return (argument_node inp (vs ! 0) Nullptr (vs ! 1))),
      ([Rule ''LambdaParamPattern'', Ahead (Single COLON)],
       \<lambda>inp i vs. Return (argument_node inp (vs ! 0) Nullptr (vs ! 0)))]\<rparr>"

definition LambdaParamWithDefaultPattern :: rule where
  "LambdaParamWithDefaultPattern = \<lparr>traits = Tuple_type [Pointer ''Argument'', Ast], alternatives =
     [([Rule ''LambdaParamPattern'', Rule ''DefaultPattern'', Single COMMA],
       \<lambda>inp i vs. Return (Tuple_of [argument_node inp (vs ! 0) Nullptr (vs ! 2), vs ! 1])),
      ([Rule ''LambdaParamPattern'', Rule ''DefaultPattern'', Ahead (Single COLON)],
       \<lambda>inp i vs. Return (Tuple_of [argument_node inp (vs ! 0) Nullptr (vs ! 1), vs ! 1]))]\<rparr>"

definition star_etc_type :: ctype where
  "star_etc_type = Tuple_type
     [Optional_type (Pointer ''Argument''), Vector_type (Tuple_type [Pointer ''Argument'', Optional_type Ast]),
      Optional_type (Pointer ''Argument'')]"

definition LambdaStarEtcPattern :: rule where
  "LambdaStarEtcPattern = \<lparr>traits = star_etc_type, alternatives = []\<rparr>"

text \<open>The constructor of \<^verbatim>\<open>Arguments\<close> from the positional-only arguments, the others and their defaults,
  and what follows the star: \<^verbatim>\<open>*args\<close>, the keyword-only arguments with defaults, and \<^verbatim>\<open>**kwargs\<close>.\<close>

definition arguments_node :: "value list \<Rightarrow> value list \<Rightarrow> value list \<Rightarrow> value \<Rightarrow> source_location \<Rightarrow> value" where
  "arguments_node posonly args defaults etc loc =
     (let kwonly = elements_of (component 1 etc) in
      Node ''Arguments''
        [Vector posonly, Vector args, value_or (component 0 etc) Nullptr, Vector (map (component 0) kwonly),
         Vector (map (\<lambda>v. value_or (component 1 v) Nullptr) kwonly), value_or (component 2 etc) Nullptr,
         Vector defaults] loc)"

text \<open>The end of the token before the current position.\<close>

definition last_end :: "input \<Rightarrow> nat \<Rightarrow> position" where
  "last_end inp i = (case peek_at inp (i - 1) of Some t \<Rightarrow> m_end t | None \<Rightarrow> end_of Monostate)"

definition LambdaParametersPattern :: rule where
  "LambdaParametersPattern = \<lparr>traits = Pointer ''Arguments'', alternatives =
     [([One_or_more [Rule ''LambdaParamNoDefaultPattern''], Zero_or_more [Rule ''LambdaParamWithDefaultPattern''],
        Zero_or_one [Rule ''LambdaStarEtcPattern'']],
       \<lambda>inp i vs.
         let plain = elements_of (vs ! 0); defaulted = elements_of (vs ! 1) in
         Return (arguments_node [] (plain @ map (component 0) defaulted) (map (component 1) defaulted) (vs ! 2)
           (start_of (hd plain), last_end inp (snd i))))]\<rparr>"

definition LambdaParamsPattern :: rule where
  "LambdaParamsPattern = \<lparr>traits = Pointer ''Arguments'', alternatives = [([Rule ''LambdaParametersPattern''], pick 0)]\<rparr>"

definition LambDefPattern :: rule where
  "LambDefPattern = \<lparr>traits = Pointer ''Lambda'', alternatives =
     [([Keyword ''lambda'', Zero_or_one [Rule ''LambdaParamsPattern''], Single COLON, Rule ''ExpressionPattern''],
       \<lambda>inp i vs.
         let none = Node ''Arguments'' [Vector []] (end_of (vs ! 0), start_of (vs ! 3)) in
         make ''Lambda'' [value_or (vs ! 1) none, vs ! 3] (vs ! 0) (vs ! 3))]\<rparr>"

section \<open>Expressions\<close>

definition ExpressionPattern :: rule where
  "ExpressionPattern = \<lparr>traits = Ast, alternatives =
     [([Rule ''DisjunctionPattern'', Keyword ''if'', Rule ''DisjunctionPattern'', Keyword ''else'',
        Rule ''ExpressionPattern''],
       \<lambda>inp i vs. make ''IfExpr'' [vs ! 2, vs ! 0, vs ! 4] (vs ! 2) (vs ! 4)),
      ([Rule ''DisjunctionPattern''], pick 0),
      ([Rule ''LambDefPattern''], pick 0)]\<rparr>"

definition StarExpressionPattern :: rule where
  "StarExpressionPattern = \<lparr>traits = Ast, alternatives = [([Rule ''ExpressionPattern''], pick 0)]\<rparr>"

definition StarExpressionsPattern :: rule where
  "StarExpressionsPattern = \<lparr>traits = Ast, alternatives =
     [([Rule ''StarExpressionPattern'', One_or_more [Single COMMA, Rule ''StarExpressionPattern''],
        Zero_or_one [Single COMMA]],
       \<lambda>inp i vs. Return (Node ''Tuple''
         [Vector (vs ! 0 # map (component 1) (elements_of (vs ! 1))), Enum ''LOAD''] (start_of (vs ! 0), last_end inp (snd i)))),
      ([Rule ''StarExpressionPattern'', Single COMMA],
       \<lambda>inp i vs. make ''Tuple'' [Vector [vs ! 0], Enum ''LOAD''] (vs ! 0) (vs ! 1)),
      ([Rule ''StarExpressionPattern''], pick 0)]\<rparr>"

definition YieldExpressionPattern :: rule where
  "YieldExpressionPattern = \<lparr>traits = Ast, alternatives =
     [([Keyword ''yield'', Keyword ''from'', Rule ''ExpressionPattern''],
       \<lambda>inp i vs. make ''YieldFrom'' [vs ! 2] (vs ! 0) (vs ! 2)),
      ([Keyword ''yield'', Zero_or_one [Rule ''StarExpressionsPattern'']],
       \<lambda>inp i vs.
         let none = (case peek_at inp (snd i - 1) of
                Some t \<Rightarrow> constant_node (Py_object ''None'') (m_start t, m_end t) | None \<Rightarrow> Monostate);
             v = value_or (vs ! 1) none in
         make ''Yield'' [v] (vs ! 0) v)]\<rparr>"

end
