(* ===== verification/Parser_Statements.thy ===== *)
theory Parser_Statements
  imports Parser_Operators
begin

text \<open>
  The rules of the parser for simple statements (\<^verbatim>\<open>src/src/parser/Parser.cpp\<close>).
\<close>

section \<open>Assignments\<close>

definition SingleSubscriptAttributeTargetPattern :: rule where
  "SingleSubscriptAttributeTargetPattern = \<lparr>traits = Ast, alternatives =
     [([Rule ''TPrimaryPattern'', Single DOT, Rule ''NAMEPattern'', Not_ahead (Rule ''TLookahead'')],
       attribute ''STORE''),
      ([Rule ''TPrimaryPattern'', Single LSQB, Rule ''SlicesPattern'', Single RSQB, Not_ahead (Rule ''TLookahead'')],
       subscript_node ''STORE'')]\<rparr>"

definition SingleTargetPattern :: rule where
  "SingleTargetPattern = \<lparr>traits = Ast, alternatives =
     [([Rule ''SingleSubscriptAttributeTargetPattern''], pick 0),
      ([Rule ''NAMEPattern''], \<lambda>inp i vs. Return (name_node inp ''STORE'' (vs ! 0))),
      ([Single LPAREN, Rule ''SingleTargetPattern'', Single RPAREN], pick 1)]\<rparr>"

definition AugAssignPattern :: rule where
  "AugAssignPattern = \<lparr>traits = Token_type, alternatives =
     [([Single PLUSEQUAL], pick 0), ([Single MINEQUAL], pick 0), ([Single STAREQUAL], pick 0),
      ([Single ATEQUAL], pick 0), ([Single SLASHEQUAL], pick 0), ([Single PERCENTEQUAL], pick 0),
      ([Single AMPEREQUAL], pick 0), ([Single VBAREQUAL], pick 0), ([Single CIRCUMFLEXEQUAL], pick 0),
      ([Single LEFTSHIFTEQUAL], pick 0), ([Single RIGHTSHIFTEQUAL], pick 0), ([Single DOUBLESTAREQUAL], pick 0),
      ([Single DOUBLESLASHEQUAL], pick 0)]\<rparr>"

definition AnnotatedRhsPattern :: rule where
  "AnnotatedRhsPattern = \<lparr>traits = Ast, alternatives =
     [([Rule ''YieldExpressionPattern''], pick 0), ([Rule ''YieldExpressionPattern''], pick 0)]\<rparr>"

definition assign_operator :: "value \<Rightarrow> string option" where
  "assign_operator v =
     (case v of
        Token_result t \<Rightarrow>
          if m_token_type t = PLUSEQUAL then Some ''PLUS''
          else if m_token_type t = MINEQUAL then Some ''MINUS''
          else if m_token_type t = STAREQUAL then Some ''MULTIPLY''
          else if m_token_type t = ATEQUAL then Some ''MATMUL''
          else if m_token_type t = SLASHEQUAL then Some ''SLASH''
          else if m_token_type t = PERCENTEQUAL then Some ''MODULO''
          else if m_token_type t = AMPEREQUAL then Some ''AND''
          else if m_token_type t = VBAREQUAL then Some ''OR''
          else if m_token_type t = CIRCUMFLEXEQUAL then Some ''XOR''
          else if m_token_type t = LEFTSHIFTEQUAL then Some ''LEFTSHIFT''
          else if m_token_type t = RIGHTSHIFTEQUAL then Some ''RIGHTSHIFT''
          else if m_token_type t = DOUBLESTAREQUAL then Some ''EXP''
          else if m_token_type t = DOUBLESLASHEQUAL then Some ''FLOORDIV''
          else None
      | _ \<Rightarrow> None)"

definition augmented_assignment :: action where
  "augmented_assignment inp i vs =
     (case assign_operator (vs ! 1) of
        None \<Rightarrow> Stop Assertion
      | Some op \<Rightarrow> make ''AugAssign'' [vs ! 0, Enum op, vs ! 2] (vs ! 0) (vs ! 2))"

definition assignment :: action where
  "assignment inp i vs =
     (let targets = map (component 0) (elements_of (vs ! 0)) in
      make ''Assign'' [Vector targets, vs ! 1, String_value []] (hd targets) (vs ! 1))"

text \<open>An annotated assignment is recognised and then does not match.\<close>

definition AssignmentPattern :: rule where
  "AssignmentPattern = \<lparr>traits = Ast, alternatives =
     [([Rule ''NAMEPattern'', Single COLON, Rule ''ExpressionPattern'',
        Zero_or_one [Single EQUAL, Rule ''AnnotatedRhsPattern'']], \<lambda>inp i vs. No_match),
      ([One_or_more [Rule ''StarTargetsPattern'', Single EQUAL],
        Or [Rule ''YieldExpressionPattern'', Rule ''StarExpressionsPattern'']], assignment),
      ([Rule ''SingleTargetPattern'', Rule ''AugAssignPattern'',
        Or [Rule ''YieldExpressionPattern'', Rule ''StarExpressionsPattern'']], augmented_assignment)]\<rparr>"

definition ReturnStatementPattern :: rule where
  "ReturnStatementPattern = \<lparr>traits = Pointer ''Return'', alternatives =
     [([Keyword ''return'', Zero_or_one [Rule ''StarExpressionsPattern'']],
       \<lambda>inp i vs. make ''Return'' [value_or (vs ! 1) Nullptr] (vs ! 0) (value_or (vs ! 1) (vs ! 0)))]\<rparr>"

section \<open>Imports\<close>

definition DottedNamePattern :: rule where
  "DottedNamePattern = \<lparr>traits = Vector_type Token_type, alternatives =
     [([Rule ''DottedNamePattern'', Single DOT, Single NAME],
       \<lambda>inp i vs. Return (Vector (elements_of (vs ! 0) @ [vs ! 2]))),
      ([Single NAME], \<lambda>inp i vs. Return (Vector [vs ! 0]))]\<rparr>"

text \<open>The token behind \<open>as\<close>, if there is one.\<close>

definition as_token :: "value \<Rightarrow> value" where
  "as_token v = (if has_value v then Optional (Some (component 1 v)) else Optional None)"

definition DottedAsNamePattern :: rule where
  "DottedAsNamePattern = \<lparr>traits = Tuple_type [Vector_type Token_type, Optional_type Token_type], alternatives =
     [([Rule ''DottedNamePattern'', Zero_or_one [Keyword ''as'', Rule ''NAMEPattern'']],
       \<lambda>inp i vs. Return (Tuple_of [vs ! 0, as_token (vs ! 1)]))]\<rparr>"

definition DottedAsNamesPattern :: rule where
  "DottedAsNamesPattern =
     \<lparr>traits = Vector_type (Tuple_type [Vector_type Token_type, Optional_type Token_type]), alternatives =
     [([Separated (Rule ''DottedAsNamePattern'') (Single COMMA)], pick 0)]\<rparr>"

fun dotted :: "input \<Rightarrow> value list \<Rightarrow> string" where
  "dotted inp [] = []"
| "dotted inp [v] = text_of inp v"
| "dotted inp (v # vs) = text_of inp v @ ''.'' @ dotted inp vs"

text \<open>An alias: a name and the alternative name, empty if there is none. It ends with the alternative
  name or with the last token of the name.\<close>

definition alias_node :: "input \<Rightarrow> value \<Rightarrow> value list \<Rightarrow> value" where
  "alias_node inp v name =
     Struct ''alias''
       [String_value (dotted inp name),
        String_value (if has_value (component 1 v) then text_of inp (value_or (component 1 v) Monostate) else [])]"

definition alias_end :: "value \<Rightarrow> value list \<Rightarrow> position" where
  "alias_end v name = end_of (value_or (component 1 v) (last name))"

definition ImportNamePattern :: rule where
  "ImportNamePattern = \<lparr>traits = Pointer ''Import'', alternatives =
     [([Keyword ''import'', Rule ''DottedAsNamesPattern''],
       \<lambda>inp i vs.
         let names = elements_of (vs ! 1); tokens_in = (\<lambda>v. elements_of (component 0 v)) in
         Return (Node ''Import'' [Vector (map (\<lambda>v. alias_node inp v (tokens_in v)) names)]
           (start_of (vs ! 0), alias_end (last names) (tokens_in (last names)))))]\<rparr>"

definition ImportFromAsNamePattern :: rule where
  "ImportFromAsNamePattern = \<lparr>traits = Tuple_type [Token_type, Optional_type Token_type], alternatives =
     [([Rule ''NAMEPattern'', Zero_or_one [Keyword ''as'', Single NAME]],
       \<lambda>inp i vs. Return (Tuple_of [vs ! 0, as_token (vs ! 1)]))]\<rparr>"

definition ImportFromAsNamesPattern :: rule where
  "ImportFromAsNamesPattern = \<lparr>traits = Vector_type (Tuple_type [Token_type, Optional_type Token_type]), alternatives =
     [([Separated (Rule ''ImportFromAsNamePattern'') (Single COMMA)], pick 0)]\<rparr>"

definition ImportFromTargetsPattern :: rule where
  "ImportFromTargetsPattern = \<lparr>traits = Vector_type (Tuple_type [Token_type, Optional_type Token_type]), alternatives =
     [([Single LPAREN, Rule ''ImportFromAsNamesPattern'', Zero_or_one [Single COMMA], Single RPAREN], pick 1),
      ([Rule ''ImportFromAsNamesPattern'', Not_ahead (Single COMMA)], pick 0),
      ([Single STAR], \<lambda>inp i vs. Return (Vector [Tuple_of [vs ! 0, Optional None]]))]\<rparr>"

text \<open>The level of a relative import: a dot counts one, an ellipsis three.\<close>

definition import_level :: "value list \<Rightarrow> int" where
  "import_level dots =
     sum_list (map (\<lambda>v. case v of Token_result t \<Rightarrow> if m_token_type t = DOT then 1 else 3 | _ \<Rightarrow> 3) dots)"

definition import_from :: "input \<Rightarrow> string \<Rightarrow> value \<Rightarrow> value list \<Rightarrow> value list \<Rightarrow> outcome" where
  "import_from inp module_name from dots targets =
     Return (Node ''ImportFrom''
       [String_value module_name, Vector (map (\<lambda>v. alias_node inp v [component 0 v]) targets),
        Int_value (import_level dots)]
       (start_of from, alias_end (last targets) [component 0 (last targets)]))"

definition ImportFromPattern :: rule where
  "ImportFromPattern = \<lparr>traits = Pointer ''ImportFrom'', alternatives =
     [([Keyword ''from'', Zero_or_more [Or [Single DOT, Single ELLIPSIS]], Rule ''DottedNamePattern'',
        Keyword ''import'', Rule ''ImportFromTargetsPattern''],
       \<lambda>inp i vs. import_from inp (dotted inp (elements_of (vs ! 2))) (vs ! 0) (elements_of (vs ! 1)) (elements_of (vs ! 4))),
      ([Keyword ''from'', Zero_or_more [Or [Single DOT, Single ELLIPSIS]], Keyword ''import'',
        Rule ''ImportFromTargetsPattern''],
       \<lambda>inp i vs. import_from inp [] (vs ! 0) (elements_of (vs ! 1)) (elements_of (vs ! 3)))]\<rparr>"

definition ImportStatementPattern :: rule where
  "ImportStatementPattern = \<lparr>traits = Pointer ''ImportBase'', alternatives =
     [([Rule ''ImportNamePattern''], pick 0), ([Rule ''ImportFromPattern''], pick 0)]\<rparr>"

section \<open>Other simple statements\<close>

definition RaiseStatementPattern :: rule where
  "RaiseStatementPattern = \<lparr>traits = Pointer ''Raise'', alternatives =
     [([Keyword ''raise'', Rule ''ExpressionPattern'', Zero_or_one [Keyword ''from'', Rule ''ExpressionPattern'']],
       \<lambda>inp i vs.
         if has_value (vs ! 2) then make ''Raise'' [vs ! 1, component 1 (vs ! 2)] (vs ! 0) (component 1 (vs ! 2))
         else make ''Raise'' [vs ! 1, Nullptr] (vs ! 0) (vs ! 1)),
      ([Keyword ''raise''], \<lambda>inp i vs. make ''Raise'' [] (vs ! 0) (vs ! 0))]\<rparr>"

text \<open>The targets between brackets, if there are some, for \<^verbatim>\<open>del\<close>.\<close>

definition deleted :: "string \<Rightarrow> action" where
  "deleted c inp i vs =
     make c (if has_value (vs ! 1) then [component 0 (vs ! 1), Enum ''DELETE''] else [Enum ''DELETE'']) (vs ! 0) (vs ! 2)"

definition DeleteAtomPattern :: rule where
  "DeleteAtomPattern = \<lparr>traits = Ast, alternatives =
     [([Rule ''NAMEPattern''], \<lambda>inp i vs. Return (name_node inp ''DELETE'' (vs ! 0))),
      ([Single LPAREN, Rule ''DeleteTargetPattern'', Single RPAREN],
       \<lambda>inp i vs. make ''Tuple'' [Vector [vs ! 1], Enum ''DELETE''] (vs ! 0) (vs ! 2)),
      ([Single LPAREN, Zero_or_one [Rule ''DeleteTargetsPattern''], Single RPAREN], deleted ''Tuple''),
      ([Single LSQB, Zero_or_one [Rule ''DeleteTargetsPattern''], Single RSQB], deleted ''List'')]\<rparr>"

definition DeleteTargetPattern :: rule where
  "DeleteTargetPattern = \<lparr>traits = Ast, alternatives =
     [([Rule ''TPrimaryPattern'', Single DOT, Single NAME, Not_ahead (Rule ''TLookahead'')], attribute ''DELETE''),
      ([Rule ''TPrimaryPattern'', Single LSQB, Rule ''SlicesPattern'', Single RSQB, Not_ahead (Rule ''TLookahead'')],
       subscript_node ''DELETE''),
      ([Rule ''DeleteAtomPattern''], pick 0)]\<rparr>"

definition DeleteTargetsPattern :: rule where
  "DeleteTargetsPattern = \<lparr>traits = Tuple_type [Vector_type Ast, Optional_type Token_type], alternatives =
     [([Separated (Rule ''DeleteTargetPattern'') (Single COMMA), Zero_or_one [Single COMMA]],
       \<lambda>inp i vs. Return (Tuple_of [vs ! 0, vs ! 1]))]\<rparr>"

definition DeleteStatementPattern :: rule where
  "DeleteStatementPattern = \<lparr>traits = Pointer ''Delete'', alternatives =
     [([Keyword ''del'', Rule ''DeleteTargetsPattern'', Ahead (Or [Single SEMI, Single NEWLINE])],
       \<lambda>inp i vs.
         make ''Delete'' [component 0 (vs ! 1)] (vs ! 0)
           (value_or (component 1 (vs ! 1)) (last (elements_of (component 0 (vs ! 1))))))]\<rparr>"

definition YieldStatementPattern :: rule where
  "YieldStatementPattern = \<lparr>traits = Ast, alternatives = [([Rule ''YieldExpressionPattern''], pick 0)]\<rparr>"

definition AssertStatementPattern :: rule where
  "AssertStatementPattern = \<lparr>traits = Pointer ''Assert'', alternatives =
     [([Keyword ''assert'', Rule ''ExpressionPattern'', Zero_or_one [Single COMMA, Rule ''ExpressionPattern'']],
       \<lambda>inp i vs.
         if has_value (vs ! 2) then make ''Assert'' [vs ! 1, component 1 (vs ! 2)] (vs ! 0) (component 1 (vs ! 2))
         else make ''Assert'' [vs ! 1, Nullptr] (vs ! 0) (vs ! 1))]\<rparr>"

definition names_statement :: "string \<Rightarrow> action" where
  "names_statement c inp i vs =
     make c [Vector (map (\<lambda>v. String_value (text_of inp v)) (elements_of (vs ! 1)))] (vs ! 0) (last (elements_of (vs ! 1)))"

definition GlobalStatementPattern :: rule where
  "GlobalStatementPattern = \<lparr>traits = Pointer ''Global'', alternatives =
     [([Keyword ''global'', Separated (Rule ''NAMEPattern'') (Single COMMA)], names_statement ''Global'')]\<rparr>"

definition NonLocalStatementPattern :: rule where
  "NonLocalStatementPattern = \<lparr>traits = Pointer ''NonLocal'', alternatives =
     [([Keyword ''nonlocal'', Separated (Rule ''NAMEPattern'') (Single COMMA)], names_statement ''NonLocal'')]\<rparr>"

definition word_statement :: "string \<Rightarrow> action" where
  "word_statement c inp i vs = make c [] (vs ! 0) (vs ! 0)"

definition SmallStatementPattern :: rule where
  "SmallStatementPattern = \<lparr>traits = Ast, alternatives =
     [([Rule ''AssignmentPattern''], pick 0),
      ([Rule ''StarExpressionsPattern''], pick 0),
      ([Rule ''ReturnStatementPattern''], pick 0),
      ([Rule ''ImportStatementPattern''], pick 0),
      ([Rule ''RaiseStatementPattern''], pick 0),
      ([Keyword ''pass''], word_statement ''Pass''),
      ([Rule ''DeleteStatementPattern''], pick 0),
      ([Rule ''YieldStatementPattern''], pick 0),
      ([Rule ''AssertStatementPattern''], pick 0),
      ([Keyword ''break''], word_statement ''Break''),
      ([Keyword ''continue''], word_statement ''Continue''),
      ([Rule ''GlobalStatementPattern''], pick 0),
      ([Rule ''NonLocalStatementPattern''], pick 0)]\<rparr>"

definition SimpleStatementPattern :: rule where
  "SimpleStatementPattern = \<lparr>traits = Vector_type Ast, alternatives =
     [([Rule ''SmallStatementPattern'', Not_ahead (Single SEMI), Single NEWLINE],
       \<lambda>inp i vs. Return (Vector [vs ! 0])),
      ([Separated (Rule ''SmallStatementPattern'') (Single SEMI), Zero_or_one [Single SEMI], Single NEWLINE], pick 0)]\<rparr>"

end
