(* ===== verification/Parser_Blocks.thy ===== *)
theory Parser_Blocks
  imports Parser_Statements
begin

text \<open>
  The rules of the parser for parameters, blocks, compound statements and files, and the whole parser
  (\<^verbatim>\<open>src/src/parser/Parser.cpp\<close>).
\<close>

section \<open>Parameters\<close>

definition AnnotationPattern :: rule where
  "AnnotationPattern = \<lparr>traits = Ast, alternatives = [([Single COLON, Rule ''ExpressionPattern''], pick 1)]\<rparr>"

definition ParamPattern :: rule where
  "ParamPattern = \<lparr>traits = Pointer ''Argument'', alternatives =
     [([Rule ''NAMEPattern'', Zero_or_one [Rule ''AnnotationPattern'']],
       \<lambda>inp i vs. Return (argument_node inp (vs ! 0) (value_or (vs ! 1) Nullptr) (value_or (vs ! 1) (vs ! 0))))]\<rparr>"

definition ParamNoDefaultPattern :: rule where
  "ParamNoDefaultPattern = \<lparr>traits = Pointer ''Argument'', alternatives =
     [([Rule ''ParamPattern'', Single COMMA], pick 0), ([Rule ''ParamPattern'', Ahead (Single RPAREN)], pick 0)]\<rparr>"

definition DefaultPattern :: rule where
  "DefaultPattern = \<lparr>traits = Ast, alternatives = [([Single EQUAL, Rule ''ExpressionPattern''], pick 1)]\<rparr>"

definition with_default :: action where
  "with_default inp i vs = Return (Tuple_of [vs ! 0, vs ! 1])"

definition ParamWithDefaultPattern :: rule where
  "ParamWithDefaultPattern = \<lparr>traits = Tuple_type [Pointer ''Argument'', Ast], alternatives =
     [([Rule ''ParamPattern'', Rule ''DefaultPattern'', Single COMMA], with_default),
      ([Rule ''ParamPattern'', Rule ''DefaultPattern'', Ahead (Single RPAREN)], with_default)]\<rparr>"

definition ParamMaybeDefaultPattern :: rule where
  "ParamMaybeDefaultPattern = \<lparr>traits = Tuple_type [Pointer ''Argument'', Optional_type Ast], alternatives =
     [([Rule ''ParamPattern'', Zero_or_one [Rule ''DefaultPattern''], Single COMMA], with_default),
      ([Rule ''ParamPattern'', Zero_or_one [Rule ''DefaultPattern''], Ahead (Single RPAREN)], with_default)]\<rparr>"

definition KeywordsPattern :: rule where
  "KeywordsPattern = \<lparr>traits = Pointer ''Argument'', alternatives =
     [([Single DOUBLESTAR, Rule ''ParamNoDefaultPattern''],
       \<lambda>inp i vs.
         make ''Argument'' [fields_of (vs ! 1) ! 0, fields_of (vs ! 1) ! 1, String_value []] (vs ! 0) (vs ! 1))]\<rparr>"

definition StarEtcPattern :: rule where
  "StarEtcPattern = \<lparr>traits = star_etc_type, alternatives =
     [([Single STAR, Rule ''ParamNoDefaultPattern'', Zero_or_more [Rule ''ParamMaybeDefaultPattern''],
        Zero_or_one [Rule ''KeywordsPattern'']],
       \<lambda>inp i vs. Return (Tuple_of [Optional (Some (vs ! 1)), vs ! 2, vs ! 3])),
      ([Single STAR, Single COMMA, Zero_or_more [Rule ''ParamMaybeDefaultPattern''],
        Zero_or_one [Rule ''KeywordsPattern'']],
       \<lambda>inp i vs. Return (Tuple_of [Optional None, vs ! 2, vs ! 3])),
      ([Rule ''KeywordsPattern''],
       \<lambda>inp i vs. Return (Tuple_of [Optional None, Vector [], Optional (Some (vs ! 0))]))]\<rparr>"

definition slash_type :: ctype where
  "slash_type = Tuple_type [Vector_type (Pointer ''Argument''), Vector_type (Tuple_type [Pointer ''Argument'', Ast])]"

definition SlashWithDefaultPattern :: rule where
  "SlashWithDefaultPattern = \<lparr>traits = slash_type, alternatives =
     [([Zero_or_more [Rule ''ParamNoDefaultPattern''], One_or_more [Rule ''ParamWithDefaultPattern''], Single SLASH,
        Single COMMA], with_default),
      ([Zero_or_more [Rule ''ParamNoDefaultPattern''], One_or_more [Rule ''ParamWithDefaultPattern''], Single SLASH,
        Ahead (Single RPAREN)], with_default)]\<rparr>"

definition SlashNoDefaultPattern :: rule where
  "SlashNoDefaultPattern = \<lparr>traits = Vector_type (Pointer ''Argument''), alternatives =
     [([One_or_more [Rule ''ParamNoDefaultPattern''], Single SLASH, Single COMMA], pick 0),
      ([One_or_more [Rule ''ParamNoDefaultPattern''], Single SLASH, Ahead (Single RPAREN)], pick 0)]\<rparr>"

text \<open>The parameters: the positional-only ones without and with a default, the others without and with a
  default, and what follows the star.\<close>

definition parameters_of ::
  "value list \<Rightarrow> value list \<Rightarrow> value list \<Rightarrow> value list \<Rightarrow> value \<Rightarrow> source_location \<Rightarrow> outcome" where
  "parameters_of posonly posonly_defaulted plain defaulted etc loc =
     Return (arguments_node (posonly @ map (component 0) posonly_defaulted) (plain @ map (component 0) defaulted)
       (map (component 1) (posonly_defaulted @ defaulted)) etc loc)"

text \<open>The start of the token at a position.\<close>

definition first_start :: "input \<Rightarrow> nat \<Rightarrow> position" where
  "first_start inp i = (case peek_at inp i of Some t \<Rightarrow> m_start t | None \<Rightarrow> start_of Monostate)"

definition ParametersPattern :: rule where
  "ParametersPattern = \<lparr>traits = Pointer ''Arguments'', alternatives =
     [([Rule ''SlashNoDefaultPattern'', Zero_or_more [Rule ''ParamNoDefaultPattern''],
        Zero_or_more [Rule ''ParamWithDefaultPattern''], Zero_or_one [Rule ''StarEtcPattern'']],
       \<lambda>inp i vs. parameters_of (elements_of (vs ! 0)) [] (elements_of (vs ! 1)) (elements_of (vs ! 2)) (vs ! 3)
         (start_of (hd (elements_of (vs ! 0))), last_end inp (snd i))),
      ([Rule ''SlashWithDefaultPattern'', Zero_or_more [Rule ''ParamWithDefaultPattern''],
        Zero_or_one [Rule ''StarEtcPattern'']],
       \<lambda>inp i vs.
         let posonly = elements_of (component 0 (vs ! 0)); defaulted = elements_of (component 1 (vs ! 0)) in
         parameters_of posonly defaulted [] (elements_of (vs ! 1)) (vs ! 2)
           (start_of (if posonly = [] then component 0 (hd defaulted) else hd posonly), last_end inp (snd i))),
      ([One_or_more [Rule ''ParamNoDefaultPattern''], Zero_or_more [Rule ''ParamWithDefaultPattern''],
        Zero_or_one [Rule ''StarEtcPattern'']],
       \<lambda>inp i vs. parameters_of [] [] (elements_of (vs ! 0)) (elements_of (vs ! 1)) (vs ! 2)
         (start_of (hd (elements_of (vs ! 0))), last_end inp (snd i))),
      ([One_or_more [Rule ''ParamWithDefaultPattern''], Zero_or_one [Rule ''StarEtcPattern'']],
       \<lambda>inp i vs. parameters_of [] [] [] (elements_of (vs ! 0)) (vs ! 1)
         (start_of (component 0 (hd (elements_of (vs ! 0)))), last_end inp (snd i))),
      ([Rule ''StarEtcPattern''],
       \<lambda>inp i vs. parameters_of [] [] [] [] (vs ! 0) (first_start inp (fst i), last_end inp (snd i)))]\<rparr>"

definition ParamsPattern :: rule where
  "ParamsPattern = \<lparr>traits = Pointer ''Arguments'', alternatives = [([Rule ''ParametersPattern''], pick 0)]\<rparr>"

section \<open>Blocks and functions\<close>

definition BlockPattern :: rule where
  "BlockPattern = \<lparr>traits = Vector_type Ast, alternatives =
     [([Single NEWLINE, Single INDENT, Rule ''StatementsPattern'', Single DEDENT], pick 2),
      ([Rule ''SimpleStatementPattern''], pick 0)]\<rparr>"

text \<open>The last statement of a block.\<close>

definition last_of :: "value \<Rightarrow> value" where
  "last_of v = last (elements_of v)"

text \<open>A function from the position of its name in the values: a parenthesis, the parameters, a
  parenthesis, the return annotation, a colon and the body follow.\<close>

definition function_node :: "string \<Rightarrow> nat \<Rightarrow> action" where
  "function_node c n inp i vs =
     make c
       [String_value (text_of inp (vs ! n)),
        value_or (vs ! (n + 2)) (Node ''Arguments'' [] (between (vs ! (n + 1)) (vs ! (n + 3)))),
        vs ! (n + 6), Vector [], if has_value (vs ! (n + 4)) then component 1 (vs ! (n + 4)) else Nullptr, String_value []]
       (vs ! 0) (last_of (vs ! (n + 6)))"

definition FunctionDefinitionRawStatement :: rule where
  "FunctionDefinitionRawStatement = \<lparr>traits = Ast, alternatives =
     [([Keyword ''def'', Single NAME, Single LPAREN, Zero_or_one [Rule ''ParamsPattern''], Single RPAREN,
        Zero_or_one [Single RARROW, Rule ''ExpressionPattern''], Single COLON, Rule ''BlockPattern''],
       function_node ''FunctionDefinition'' 1),
      ([Keyword ''async'', Keyword ''def'', Single NAME, Single LPAREN, Zero_or_one [Rule ''ParamsPattern''],
        Single RPAREN, Zero_or_one [Single RARROW, Rule ''ExpressionPattern''], Single COLON, Rule ''BlockPattern''],
       function_node ''AsyncFunctionDefinition'' 2)]\<rparr>"

definition DecoratorsPattern :: rule where
  "DecoratorsPattern = \<lparr>traits = Tuple_type [Token_type, Vector_type Ast], alternatives =
     [([One_or_more [Single AT, Rule ''NamedExpressionPattern'', Single NEWLINE]],
       \<lambda>inp i vs.
         let ds = elements_of (vs ! 0) in
         if ds = [] then Stop Assertion
         else Return (Tuple_of [component 0 (hd ds), Vector (map (component 1) ds)]))]\<rparr>"

text \<open>A function or class with the decorators in the field \<open>n\<close>; it starts with the first one.\<close>

definition decorated :: "nat \<Rightarrow> value \<Rightarrow> value \<Rightarrow> outcome" where
  "decorated n decorators v =
     (case v of
        Node c args loc \<Rightarrow>
          Return (Node c (args[n := component 1 decorators]) (start_of (component 0 decorators), snd loc))
      | _ \<Rightarrow> Stop Assertion)"

definition FunctionDefinitionStatementPattern :: rule where
  "FunctionDefinitionStatementPattern = \<lparr>traits = Ast, alternatives =
     [([Rule ''DecoratorsPattern'', Rule ''FunctionDefinitionRawStatement''],
       \<lambda>inp i vs. decorated 3 (vs ! 0) (vs ! 1)),
      ([Rule ''FunctionDefinitionRawStatement''], pick 0)]\<rparr>"

section \<open>Conditionals\<close>

definition ElseBlockPattern :: rule where
  "ElseBlockPattern = \<lparr>traits = Vector_type Ast, alternatives =
     [([Keyword ''else'', Single COLON, Rule ''BlockPattern''], pick 2)]\<rparr>"

text \<open>A condition with a branch for the rest, or with an optional last one.\<close>

definition if_elif :: action where
  "if_elif inp i vs = make ''If'' [vs ! 1, vs ! 3, Vector [vs ! 4]] (vs ! 0) (vs ! 4)"

definition if_else :: action where
  "if_else inp i vs =
     (if has_value (vs ! 4)
      then make ''If'' [vs ! 1, vs ! 3, value_or (vs ! 4) Monostate] (vs ! 0) (last_of (vs ! 4))
      else make ''If'' [vs ! 1, vs ! 3, Vector []] (vs ! 0) (last_of (vs ! 3)))"

definition ElifStatementPattern :: rule where
  "ElifStatementPattern = \<lparr>traits = Pointer ''If'', alternatives =
     [([Keyword ''elif'', Rule ''NamedExpressionPattern'', Single COLON, Rule ''BlockPattern'',
        Rule ''ElifStatementPattern''], if_elif),
      ([Keyword ''elif'', Rule ''NamedExpressionPattern'', Single COLON, Rule ''BlockPattern'',
        Zero_or_one [Rule ''ElseBlockPattern'']], if_else)]\<rparr>"

definition IfStatementPattern :: rule where
  "IfStatementPattern = \<lparr>traits = Pointer ''If'', alternatives =
     [([Keyword ''if'', Rule ''NamedExpressionPattern'', Single COLON, Rule ''BlockPattern'',
        Rule ''ElifStatementPattern''], if_elif),
      ([Keyword ''if'', Rule ''NamedExpressionPattern'', Single COLON, Rule ''BlockPattern'',
        Zero_or_one [Rule ''ElseBlockPattern'']], if_else)]\<rparr>"

section \<open>Classes\<close>

definition ClassDefinitionRawPattern :: rule where
  "ClassDefinitionRawPattern = \<lparr>traits = Pointer ''ClassDefinition'', alternatives =
     [([Keyword ''class'', Single NAME,
        Zero_or_one [Single LPAREN, Zero_or_one [Rule ''ArgumentsPattern''], Single RPAREN], Single COLON,
        Rule ''BlockPattern''],
       \<lambda>inp i vs.
         let args = component 1 (vs ! 2) in
         make ''ClassDefinition''
           [String_value (text_of inp (vs ! 1)), Vector (elements_of (component 0 args)),
            Vector (elements_of (component 1 args)), vs ! 4, Vector []] (vs ! 0) (last_of (vs ! 4)))]\<rparr>"

definition ClassDefinitionPattern :: rule where
  "ClassDefinitionPattern = \<lparr>traits = Pointer ''ClassDefinition'', alternatives =
     [([Rule ''DecoratorsPattern'', Rule ''ClassDefinitionRawPattern''], \<lambda>inp i vs. decorated 4 (vs ! 0) (vs ! 1)),
      ([Rule ''ClassDefinitionRawPattern''], pick 0)]\<rparr>"

section \<open>Loops\<close>

text \<open>The loop \<open>async for\<close> is recognised and then does not match.\<close>

definition ForStatementPattern :: rule where
  "ForStatementPattern = \<lparr>traits = Pointer ''For'', alternatives =
     [([Keyword ''for'', Rule ''StarTargetsPattern'', Keyword ''in'', Rule ''StarExpressionsPattern'', Single COLON,
        Rule ''BlockPattern'', Zero_or_one [Rule ''ElseBlockPattern'']],
       \<lambda>inp i vs.
         make ''For'' [vs ! 1, vs ! 3, vs ! 5, value_or (vs ! 6) (Vector []), String_value []] (vs ! 0)
           (last_of (if has_value (vs ! 6) then vs ! 6 else vs ! 5))),
      ([Keyword ''async'', Keyword ''for'', Rule ''StarTargetsPattern'', Keyword ''in'', Rule ''StarExpressionsPattern'',
        Single COLON, Rule ''BlockPattern'', Zero_or_one [Rule ''ElseBlockPattern'']], \<lambda>inp i vs. No_match)]\<rparr>"

definition WhileStatementPattern :: rule where
  "WhileStatementPattern = \<lparr>traits = Pointer ''While'', alternatives =
     [([Keyword ''while'', Rule ''NamedExpressionPattern'', Single COLON, Rule ''BlockPattern'',
        Zero_or_one [Rule ''ElseBlockPattern'']],
       \<lambda>inp i vs. Return (Node ''While'' [vs ! 1, vs ! 3, value_or (vs ! 4) (Vector [])]
         (start_of (vs ! 0), last_end inp (snd i))))]\<rparr>"

section \<open>Exceptions\<close>

definition ExceptBlockPattern :: rule where
  "ExceptBlockPattern = \<lparr>traits = Pointer ''ExceptHandler'', alternatives =
     [([Keyword ''except'', Rule ''ExpressionPattern'', Zero_or_one [Keyword ''as'', Single NAME], Single COLON,
        Rule ''BlockPattern''],
       \<lambda>inp i vs.
         make ''ExceptHandler''
           [vs ! 1, String_value (if has_value (vs ! 2) then text_of inp (component 1 (vs ! 2)) else []), vs ! 4]
           (vs ! 0) (last_of (vs ! 4))),
      ([Keyword ''except'', Single COLON, Rule ''BlockPattern''],
       \<lambda>inp i vs. make ''ExceptHandler'' [Nullptr, String_value [], vs ! 2] (vs ! 0) (last_of (vs ! 2)))]\<rparr>"

definition FinallyBlockPattern :: rule where
  "FinallyBlockPattern = \<lparr>traits = Vector_type Ast, alternatives =
     [([Keyword ''finally'', Single COLON, Rule ''BlockPattern''], pick 2)]\<rparr>"

definition TryStatementPattern :: rule where
  "TryStatementPattern = \<lparr>traits = Pointer ''Try'', alternatives =
     [([Keyword ''try'', Single COLON, Rule ''BlockPattern'', Rule ''FinallyBlockPattern''],
       \<lambda>inp i vs. make ''Try'' [vs ! 2, Vector [], Vector [], vs ! 3] (vs ! 0) (last_of (vs ! 3))),
      ([Keyword ''try'', Single COLON, Rule ''BlockPattern'', One_or_more [Rule ''ExceptBlockPattern''],
        Zero_or_one [Rule ''ElseBlockPattern''], Zero_or_one [Rule ''FinallyBlockPattern'']],
       \<lambda>inp i vs. Return (Node ''Try''
         [vs ! 2, vs ! 3, value_or (vs ! 4) (Vector []), value_or (vs ! 5) (Vector [])]
         (start_of (vs ! 0), last_end inp (snd i))))]\<rparr>"

section \<open>With statements\<close>

definition WithItemPattern :: rule where
  "WithItemPattern = \<lparr>traits = Pointer ''WithItem'', alternatives =
     [([Rule ''ExpressionPattern'', Keyword ''as'', Rule ''StarTargetPattern'',
        Ahead (Or [Single COMMA, Single RPAREN, Single COLON])],
       \<lambda>inp i vs. make ''WithItem'' [vs ! 0, vs ! 2] (vs ! 0) (vs ! 2)),
      ([Rule ''ExpressionPattern''], \<lambda>inp i vs. make ''WithItem'' [vs ! 0, Nullptr] (vs ! 0) (vs ! 0))]\<rparr>"

definition with_node :: "nat \<Rightarrow> nat \<Rightarrow> action" where
  "with_node items body inp i vs =
     make ''With'' [vs ! items, vs ! body, String_value []] (vs ! 0) (last_of (vs ! body))"

definition WithStatementPattern :: rule where
  "WithStatementPattern = \<lparr>traits = Pointer ''With'', alternatives =
     [([Keyword ''with'', Single LPAREN, Separated (Rule ''WithItemPattern'') (Single COMMA),
        Zero_or_one [Single COMMA], Single RPAREN, Single COLON, Rule ''BlockPattern''], with_node 2 6),
      ([Keyword ''with'', Separated (Rule ''WithItemPattern'') (Single COMMA), Single COLON, Rule ''BlockPattern''],
       with_node 1 3),
      ([Keyword ''async'', Keyword ''with'', Single LPAREN,
        One_or_more [Separated (Rule ''WithItemPattern'') (Single COMMA)], Zero_or_one [Single COMMA], Single RPAREN,
        Single COLON, Rule ''BlockPattern''], \<lambda>inp i vs. No_match),
      ([Keyword ''async'', Keyword ''with'', Separated (Rule ''WithItemPattern'') (Single COMMA), Single COLON,
        Rule ''BlockPattern''], \<lambda>inp i vs. No_match)]\<rparr>"

section \<open>Statements and files\<close>

definition CompoundStatementPattern :: rule where
  "CompoundStatementPattern = \<lparr>traits = Ast, alternatives =
     [([Rule ''FunctionDefinitionStatementPattern''], pick 0),
      ([Rule ''IfStatementPattern''], pick 0),
      ([Rule ''ClassDefinitionPattern''], pick 0),
      ([Rule ''WithStatementPattern''], pick 0),
      ([Rule ''ForStatementPattern''], pick 0),
      ([Rule ''TryStatementPattern''], pick 0),
      ([Rule ''WhileStatementPattern''], pick 0)]\<rparr>"

definition StatementPattern :: rule where
  "StatementPattern = \<lparr>traits = Vector_type Ast, alternatives =
     [([Rule ''CompoundStatementPattern''], \<lambda>inp i vs. Return (Vector [vs ! 0])),
      ([Rule ''SimpleStatementPattern''], pick 0)]\<rparr>"

text \<open>The loop of \<^verbatim>\<open>StatementsPattern\<close> is the one of a repetition, whose results are put behind each
  other.\<close>

definition StatementsPattern :: rule where
  "StatementsPattern = \<lparr>traits = Vector_type Ast, alternatives =
     [([One_or_more [Rule ''StatementPattern'']],
       \<lambda>inp i vs.
         let statements = concat (map elements_of (elements_of (vs ! 0))) in
         if statements = [] then No_match else Return (Vector statements))]\<rparr>"

definition ExpressionsPattern :: rule where
  "ExpressionsPattern = \<lparr>traits = Vector_type Ast, alternatives =
     [([Separated (Rule ''ExpressionPattern'') (Single COMMA), Zero_or_one [Single COMMA]], pick 0),
      ([Rule ''ExpressionPattern'', Single COMMA], \<lambda>inp i vs. Return (Vector [vs ! 0])),
      ([Rule ''ExpressionPattern''], \<lambda>inp i vs. Return (Vector [vs ! 0]))]\<rparr>"

definition nowhere :: source_location where
  "nowhere = (start_of Monostate, end_of Monostate)"

text \<open>The search for the end of the first line, which is printed when the file does not match: it reads
  tokens until there is one on another line.\<close>

definition syntax_error_line :: action where
  "syntax_error_line inp i vs =
     (case tokens inp of
        [] \<Rightarrow> Stop Undefined
      | t # ts \<Rightarrow> if \<exists>u \<in> set ts. row (m_start u) \<noteq> row (m_start t) then No_match else Stop Undefined)"

definition FilePattern :: rule where
  "FilePattern = \<lparr>traits = Pointer ''Module'', alternatives =
     [([Zero_or_one [Rule ''StatementsPattern''], Single ENDMARKER],
       \<lambda>inp i vs. Return (Node ''Module'' [Vector (elements_of (vs ! 0))] nowhere)),
      ([], syntax_error_line)]\<rparr>"

section \<open>The grammar\<close>

definition python_rules :: "(string \<times> rule) list" where
  "python_rules =
     [(''NAMEPattern'', NAMEPattern), (''ExpressionPattern'', ExpressionPattern),
      (''DisjunctionPattern'', DisjunctionPattern), (''ConjunctionPattern'', ConjunctionPattern),
      (''InversionPattern'', InversionPattern), (''ComparissonPattern'', ComparissonPattern),
      (''BitwiseOrPattern'', BitwiseOrPattern), (''BitwiseXorPattern'', BitwiseXorPattern),
      (''BitwiseAndPattern'', BitwiseAndPattern), (''ShiftExprPattern'', ShiftExprPattern),
      (''SumPattern'', SumPattern), (''TermPattern'', TermPattern), (''FactorPattern'', FactorPattern),
      (''PowerPattern'', PowerPattern), (''AwaitPrimaryPattern'', AwaitPrimaryPattern),
      (''PrimaryPattern'', PrimaryPattern), (''AtomPattern'', AtomPattern),
      (''StarTargetsTupleSeq'', StarTargetsTupleSeq), (''StarTargetsListSeq'', StarTargetsListSeq),
      (''StarAtomPattern'', StarAtomPattern), (''TLookahead'', TLookahead), (''TPrimaryPattern'', TPrimaryPattern),
      (''TargetWithStarAtomPattern'', TargetWithStarAtomPattern), (''StarTargetPattern'', StarTargetPattern),
      (''StarTargetsPattern'', StarTargetsPattern), (''FExpressionPattern'', FExpressionPattern),
      (''ConversionPattern'', ConversionPattern), (''FStringReplacementFieldPattern'', FStringReplacementFieldPattern),
      (''FStringMiddlePattern'', FStringMiddlePattern), (''FStringFormatSpecPattern'', FStringFormatSpecPattern),
      (''FStringPattern'', FStringPattern), (''StringPattern'', StringPattern), (''StringsPattern'', StringsPattern),
      (''StarNamedExpression'', StarNamedExpression), (''StarNamedExpressions'', StarNamedExpressions),
      (''ListPattern'', ListPattern), (''ForIfClausePattern'', ForIfClausePattern),
      (''ForIfClausesPattern'', ForIfClausesPattern), (''ListCompPattern'', ListCompPattern),
      (''TuplePattern'', TuplePattern), (''GroupPattern'', GroupPattern), (''GenexPattern'', GenexPattern),
      (''KVPairPattern'', KVPairPattern), (''DoubleStarredKVPairPattern'', DoubleStarredKVPairPattern),
      (''DoubleStarredKVPairsPattern'', DoubleStarredKVPairsPattern), (''DictPattern'', DictPattern),
      (''SetPattern'', SetPattern), (''DictCompPattern'', DictCompPattern), (''SetCompPattern'', SetCompPattern),
      (''NamedExpressionPattern'', NamedExpressionPattern), (''KwargsOrStarredPattern'', KwargsOrStarredPattern),
      (''StarredExpressionPattern'', StarredExpressionPattern),
      (''KwargsOrDoubleStarredPattern'', KwargsOrDoubleStarredPattern), (''KwargsPattern'', KwargsPattern),
      (''ArgsPattern'', ArgsPattern), (''ArgumentsPattern'', ArgumentsPattern), (''SlicePattern'', SlicePattern),
      (''SlicesPattern'', SlicesPattern), (''EqBitwiseOrPattern'', EqBitwiseOrPattern),
      (''NotEqBitwiseOrPattern'', NotEqBitwiseOrPattern), (''LtEqBitwiseOrPattern'', LtEqBitwiseOrPattern),
      (''LtBitwiseOrPattern'', LtBitwiseOrPattern), (''GtEqBitwiseOrPattern'', GtEqBitwiseOrPattern),
      (''GtBitwiseOrPattern'', GtBitwiseOrPattern), (''InBitwiseOrPattern'', InBitwiseOrPattern),
      (''NotInBitwiseOrPattern'', NotInBitwiseOrPattern), (''IsNotBitwiseOrPattern'', IsNotBitwiseOrPattern),
      (''IsBitwiseOrPattern'', IsBitwiseOrPattern), (''CompareOpBitwiseOrPairPattern'', CompareOpBitwiseOrPairPattern),
      (''LambdaParamPattern'', LambdaParamPattern), (''LambdaParamNoDefaultPattern'', LambdaParamNoDefaultPattern),
      (''LambdaParamWithDefaultPattern'', LambdaParamWithDefaultPattern),
      (''LambdaStarEtcPattern'', LambdaStarEtcPattern), (''LambdaParametersPattern'', LambdaParametersPattern),
      (''LambdaParamsPattern'', LambdaParamsPattern), (''LambDefPattern'', LambDefPattern),
      (''StarExpressionPattern'', StarExpressionPattern), (''StarExpressionsPattern'', StarExpressionsPattern),
      (''YieldExpressionPattern'', YieldExpressionPattern),
      (''SingleSubscriptAttributeTargetPattern'', SingleSubscriptAttributeTargetPattern),
      (''SingleTargetPattern'', SingleTargetPattern), (''AugAssignPattern'', AugAssignPattern),
      (''AnnotatedRhsPattern'', AnnotatedRhsPattern), (''AssignmentPattern'', AssignmentPattern),
      (''ReturnStatementPattern'', ReturnStatementPattern), (''DottedNamePattern'', DottedNamePattern),
      (''DottedAsNamePattern'', DottedAsNamePattern), (''DottedAsNamesPattern'', DottedAsNamesPattern),
      (''ImportNamePattern'', ImportNamePattern), (''ImportFromAsNamePattern'', ImportFromAsNamePattern),
      (''ImportFromAsNamesPattern'', ImportFromAsNamesPattern),
      (''ImportFromTargetsPattern'', ImportFromTargetsPattern), (''ImportFromPattern'', ImportFromPattern),
      (''ImportStatementPattern'', ImportStatementPattern), (''RaiseStatementPattern'', RaiseStatementPattern),
      (''DeleteAtomPattern'', DeleteAtomPattern), (''DeleteTargetPattern'', DeleteTargetPattern),
      (''DeleteTargetsPattern'', DeleteTargetsPattern), (''DeleteStatementPattern'', DeleteStatementPattern),
      (''YieldStatementPattern'', YieldStatementPattern), (''AssertStatementPattern'', AssertStatementPattern),
      (''GlobalStatementPattern'', GlobalStatementPattern), (''NonLocalStatementPattern'', NonLocalStatementPattern),
      (''SmallStatementPattern'', SmallStatementPattern), (''SimpleStatementPattern'', SimpleStatementPattern),
      (''AnnotationPattern'', AnnotationPattern), (''ParamPattern'', ParamPattern),
      (''ParamNoDefaultPattern'', ParamNoDefaultPattern), (''DefaultPattern'', DefaultPattern),
      (''ParamWithDefaultPattern'', ParamWithDefaultPattern), (''ParamMaybeDefaultPattern'', ParamMaybeDefaultPattern),
      (''KeywordsPattern'', KeywordsPattern), (''StarEtcPattern'', StarEtcPattern),
      (''SlashWithDefaultPattern'', SlashWithDefaultPattern), (''SlashNoDefaultPattern'', SlashNoDefaultPattern),
      (''ParametersPattern'', ParametersPattern), (''ParamsPattern'', ParamsPattern), (''BlockPattern'', BlockPattern),
      (''FunctionDefinitionRawStatement'', FunctionDefinitionRawStatement), (''DecoratorsPattern'', DecoratorsPattern),
      (''FunctionDefinitionStatementPattern'', FunctionDefinitionStatementPattern),
      (''ElseBlockPattern'', ElseBlockPattern), (''ElifStatementPattern'', ElifStatementPattern),
      (''IfStatementPattern'', IfStatementPattern), (''ClassDefinitionRawPattern'', ClassDefinitionRawPattern),
      (''ClassDefinitionPattern'', ClassDefinitionPattern), (''ForStatementPattern'', ForStatementPattern),
      (''ExceptBlockPattern'', ExceptBlockPattern), (''FinallyBlockPattern'', FinallyBlockPattern),
      (''TryStatementPattern'', TryStatementPattern), (''WhileStatementPattern'', WhileStatementPattern),
      (''WithItemPattern'', WithItemPattern), (''WithStatementPattern'', WithStatementPattern),
      (''CompoundStatementPattern'', CompoundStatementPattern), (''StatementPattern'', StatementPattern),
      (''StatementsPattern'', StatementsPattern), (''ExpressionsPattern'', ExpressionsPattern),
      (''FilePattern'', FilePattern)]"

definition python_grammar :: grammar where
  "python_grammar = map_of python_rules"

section \<open>The parser\<close>

definition match_all :: "nat \<Rightarrow> input \<Rightarrow> pattern list \<Rightarrow> value list parsed" where
  "match_all n inp pats = match python_grammar inp (matches n python_grammar inp) pats new_parser"

text \<open>\<^verbatim>\<open>Parser::parse\<close>: a file that does not match leaves the module as it was created, without
  statements.\<close>

definition parse :: "nat \<Rightarrow> input \<Rightarrow> value parsed" where
  "parse n inp =
     then_match (match_all n inp [Rule ''FilePattern'']) (\<lambda>vs. Match (vs ! 0))
       (Match (Node ''Module'' [Vector []] nowhere))"

definition return_node :: "value \<Rightarrow> value" where
  "return_node v = Node ''Return'' [v] (between v v)"

text \<open>\<^verbatim>\<open>Parser::parse_expression\<close>: a mismatch is a \<^verbatim>\<open>SyntaxError\<close>.\<close>

definition parse_expression :: "nat \<Rightarrow> input \<Rightarrow> value parsed" where
  "parse_expression n inp =
     then_match (match_all n inp [Rule ''ExpressionsPattern'', Zero_or_more [Single NEWLINE], Single ENDMARKER])
       (\<lambda>vs p.
         let es = elements_of (vs ! 0);
             v = (if length es = 1 then last es
                  else Node ''Tuple'' [Vector es, Enum ''LOAD''] (between (hd es) (last es))) in
         Match (Node ''Module'' [Vector [return_node v]] nowhere) p)
       Mismatch"

definition parse_fstring :: "nat \<Rightarrow> input \<Rightarrow> value parsed" where
  "parse_fstring n inp = then_match (match_all n inp [Rule ''StarExpressionPattern'']) (\<lambda>vs. Match (vs ! 0)) Mismatch"

end
