(* ===== verification/Parser_Props.thy ===== *)
theory Parser_Props
  imports Grammar_Halts Parser_Blocks
begin

text \<open>
  The grammar of the parser has the properties the engine needs, so what is proved of the engine holds for
  the parser: it ends, it fails no assertion of the engine, and what it returns has a derivation.
\<close>

section \<open>The patterns of the parser\<close>

definition start_patterns :: "pattern list" where
  "start_patterns =
     [Rule ''FilePattern'', Rule ''ExpressionsPattern'', Zero_or_more [Single NEWLINE], Single ENDMARKER,
      Rule ''StarExpressionPattern'']"

definition parser_patterns :: "pattern set" where
  "parser_patterns = set (all_patterns python_rules start_patterns)"

text \<open>Every rule consumes a token, and none but that of a file begins with a \<^verbatim>\<open>DEDENT\<close>.\<close>

definition below_file :: "string \<Rightarrow> bool" where
  "below_file r \<longleftrightarrow> r \<noteq> ''FilePattern''"

text \<open>The levels of the rules whose results are not cached, by the first letter of the name.\<close>

definition rule_level :: "string \<Rightarrow> nat" where
  "rule_level r =
     (case r of [] \<Rightarrow> 0 | c # s \<Rightarrow>
        if c = CHR ''N'' then
          if s = ''AMEPattern'' then 1 else
          if s = ''onLocalStatementPattern'' then 1 else
          0 else
        if c = CHR ''S'' then
          if s = ''tarTargetsTupleSeq'' then 2 else
          if s = ''tarTargetsListSeq'' then 2 else
          if s = ''tringPattern'' then 1 else
          if s = ''tarNamedExpressions'' then 2 else
          if s = ''etPattern'' then 1 else
          if s = ''etCompPattern'' then 1 else
          if s = ''tarredExpressionPattern'' then 1 else
          if s = ''licePattern'' then 2 else
          if s = ''licesPattern'' then 4 else
          if s = ''impleStatementPattern'' then 2 else
          if s = ''tarEtcPattern'' then 2 else
          if s = ''lashWithDefaultPattern'' then 5 else
          if s = ''lashNoDefaultPattern'' then 5 else
          if s = ''tatementPattern'' then 3 else
          if s = ''tatementsPattern'' then 5 else
          0 else
        if c = CHR ''T'' then
          if s = ''Lookahead'' then 2 else
          if s = ''ryStatementPattern'' then 1 else
          0 else
        if c = CHR ''C'' then
          if s = ''onversionPattern'' then 1 else
          if s = ''ompareOpBitwiseOrPairPattern'' then 1 else
          if s = ''lassDefinitionRawPattern'' then 1 else
          if s = ''lassDefinitionPattern'' then 3 else
          0 else
        if c = CHR ''F'' then
          if s = ''StringReplacementFieldPattern'' then 1 else
          if s = ''StringMiddlePattern'' then 2 else
          if s = ''StringFormatSpecPattern'' then 2 else
          if s = ''StringPattern'' then 1 else
          if s = ''orIfClausePattern'' then 1 else
          if s = ''orIfClausesPattern'' then 3 else
          if s = ''orStatementPattern'' then 1 else
          if s = ''inallyBlockPattern'' then 1 else
          if s = ''ilePattern'' then 7 else
          0 else
        if c = CHR ''L'' then
          if s = ''istPattern'' then 1 else
          if s = ''istCompPattern'' then 1 else
          if s = ''ambdaParamPattern'' then 2 else
          if s = ''ambdaParamNoDefaultPattern'' then 3 else
          if s = ''ambdaParamWithDefaultPattern'' then 3 else
          if s = ''ambdaStarEtcPattern'' then 1 else
          if s = ''ambdaParametersPattern'' then 5 else
          if s = ''ambdaParamsPattern'' then 6 else
          if s = ''ambDefPattern'' then 1 else
          0 else
        if c = CHR ''G'' then
          if s = ''enexPattern'' then 1 else
          if s = ''lobalStatementPattern'' then 1 else
          0 else
        if c = CHR ''K'' then
          if s = ''VPairPattern'' then 1 else
          if s = ''wargsOrStarredPattern'' then 2 else
          if s = ''wargsOrDoubleStarredPattern'' then 1 else
          if s = ''wargsPattern'' then 4 else
          if s = ''eywordsPattern'' then 1 else
          0 else
        if c = CHR ''D'' then
          if s = ''oubleStarredKVPairPattern'' then 2 else
          if s = ''oubleStarredKVPairsPattern'' then 4 else
          if s = ''ictPattern'' then 1 else
          if s = ''ottedAsNamePattern'' then 1 else
          if s = ''ottedAsNamesPattern'' then 3 else
          if s = ''eleteTargetsPattern'' then 2 else
          if s = ''eleteStatementPattern'' then 1 else
          if s = ''ecoratorsPattern'' then 2 else
          0 else
        if c = CHR ''A'' then
          if s = ''rgsPattern'' then 5 else
          if s = ''rgumentsPattern'' then 6 else
          if s = ''ugAssignPattern'' then 1 else
          if s = ''ssertStatementPattern'' then 1 else
          0 else
        if c = CHR ''R'' then
          if s = ''eturnStatementPattern'' then 1 else
          if s = ''aiseStatementPattern'' then 1 else
          0 else
        if c = CHR ''I'' then
          if s = ''mportNamePattern'' then 1 else
          if s = ''mportFromAsNamePattern'' then 2 else
          if s = ''mportFromAsNamesPattern'' then 4 else
          if s = ''mportFromTargetsPattern'' then 5 else
          if s = ''mportFromPattern'' then 1 else
          if s = ''mportStatementPattern'' then 2 else
          if s = ''fStatementPattern'' then 1 else
          0 else
        if c = CHR ''P'' then
          if s = ''aramPattern'' then 2 else
          if s = ''aramNoDefaultPattern'' then 3 else
          if s = ''aramWithDefaultPattern'' then 3 else
          if s = ''aramMaybeDefaultPattern'' then 3 else
          if s = ''arametersPattern'' then 6 else
          if s = ''aramsPattern'' then 7 else
          0 else
        if c = CHR ''B'' then
          if s = ''lockPattern'' then 3 else
          0 else
        if c = CHR ''E'' then
          if s = ''lseBlockPattern'' then 1 else
          if s = ''lifStatementPattern'' then 1 else
          if s = ''xceptBlockPattern'' then 1 else
          if s = ''xpressionsPattern'' then 2 else
          0 else
        if c = CHR ''W'' then
          if s = ''hileStatementPattern'' then 1 else
          if s = ''ithItemPattern'' then 1 else
          if s = ''ithStatementPattern'' then 1 else
          0 else
        0)"

lemma python_consumes:
  "list_all (\<lambda>(r, x). below_file r \<longrightarrow> list_all (\<lambda>(pats, act). list_ex (consumes below_file) pats) (alternatives x))
     python_rules"
  by code_simp

lemma python_avoids:
  "list_all (\<lambda>(r, x). below_file r \<longrightarrow> list_all (\<lambda>(pats, act). avoids_all below_file DEDENT None pats) (alternatives x))
     python_rules"
  by code_simp

lemma python_levels:
  "list_all (\<lambda>(r, x). cached_type (traits x) \<or>
     list_all (\<lambda>(pats, act). level_all below_file rule_level pats < rule_level r) (alternatives x)) python_rules"
  by code_simp

text \<open>A pattern whose result is not cached, as far as its form tells.\<close>

definition is_single :: "pattern \<Rightarrow> bool" where
  "is_single pat \<longleftrightarrow> (case pat of Single t \<Rightarrow> True | _ \<Rightarrow> False)"

definition different_tokens :: "pattern list \<Rightarrow> bool" where
  "different_tokens pats \<longleftrightarrow> (case pats of p # q # _ \<Rightarrow> is_single p \<and> is_single q \<and> p \<noteq> q | _ \<Rightarrow> False)"

definition never_cached :: "pattern \<Rightarrow> bool" where
  "never_cached pat \<longleftrightarrow>
     (case pat of
        Rule r \<Rightarrow> r = ''FilePattern''
      | Zero_or_more (q # qs) \<Rightarrow>
          qs \<noteq> [] \<or>
          (case q of
             Single t \<Rightarrow> True
           | Rule r \<Rightarrow> r \<notin> {''TLookahead'', ''LambdaParamPattern'', ''AugAssignPattern''}
           | Or pats \<Rightarrow> different_tokens pats
           | _ \<Rightarrow> False)
      | Zero_or_more [] \<Rightarrow> False
      | One_or_more pats \<Rightarrow> False
      | Separated main sep \<Rightarrow> False
      | Or pats \<Rightarrow> different_tokens pats
      | _ \<Rightarrow> True)"

text \<open>The lookaheads are for tokens and for \<^verbatim>\<open>TLookahead\<close>.\<close>

definition simple_lookahead :: "pattern \<Rightarrow> bool" where
  "simple_lookahead pat =
     (case pat of
        Ahead q \<Rightarrow> never_cached q \<or> q = Rule ''TLookahead''
      | Not_ahead q \<Rightarrow> never_cached q \<or> q = Rule ''TLookahead''
      | _ \<Rightarrow> True)"

definition well_formed_pattern :: "pattern \<Rightarrow> bool" where
  "well_formed_pattern pat \<longleftrightarrow>
     repeats_consume below_file pat \<and> simple_lookahead pat \<and> (avoids below_file DEDENT None pat \<or> never_cached pat)"

lemma python_patterns:
  "list_all (\<lambda>(r, x). list_all (\<lambda>(pats, act). list_all (throughout well_formed_pattern) pats) (alternatives x))
     python_rules"
  by code_simp

lemma python_start: "list_all (throughout well_formed_pattern) start_patterns"
  by code_simp

lemma python_tokens:
  "list_all (\<lambda>(r, x). traits x = Token_type \<longrightarrow> r \<in> {''TLookahead'', ''LambdaParamPattern'', ''AugAssignPattern''})
     python_rules"
  by code_simp

lemma type_of_lookahead: "rule_type python_grammar ''TLookahead'' = Token_type"
  by (simp add: rule_type_def python_grammar_def python_rules_def TLookahead_def)

lemma type_of_file: "rule_type python_grammar ''FilePattern'' = Pointer ''Module''"
  by (simp add: rule_type_def python_grammar_def python_rules_def FilePattern_def)


lemma type_of_rule: "rule_type python_grammar r = Token_type \<Longrightarrow> r \<in> {''TLookahead'', ''LambdaParamPattern'', ''AugAssignPattern''}"
  using python_tokens map_of_SomeD [of python_rules r]
  by (fastforce simp: rule_type_def python_grammar_def list_all_iff split: option.splits)

lemma choice_of_tokens:
  assumes "t \<noteq> u"
  shows "choice_type (Token_of t # Token_of u # ts) \<notin> {Ast, Token_type, Vector_type Token_type}"
proof -
  have not_pointer: "\<not> is_pointer (Token_of t)"
    by (simp add: is_pointer_def)
  let ?ts = "remdups (Token_of t # Token_of u # ts)"
  have "set ?ts = set (Token_of t # Token_of u # ts)"
    by (rule set_remdups)
  then have t: "Token_of t \<in> set ?ts" and u: "Token_of u \<in> set ?ts"
    by auto
  then obtain a b us where us: "?ts = a # b # us"
    using assms by (cases ?ts rule: remdups_adj.cases) auto
  have "\<not> (\<forall>v \<in> set (a # b # us). is_pointer v)"
    using t not_pointer unfolding us by blast
  then show ?thesis
    by (simp only: choice_type_def us list.case if_False) simp
qed

lemma is_singleE: "is_single pat \<Longrightarrow> \<exists>t. pat = Single t"
  by (cases pat) (simp_all add: is_single_def)

lemma choice_different:
  assumes "different_tokens pats"
  shows "choice_type (map (result_type f) pats) \<notin> {Ast, Token_type, Vector_type Token_type}"
proof -
  obtain p q qs where pats: "pats = p # q # qs" and pq: "is_single p" "is_single q" "p \<noteq> q"
    using assms by (cases pats rule: remdups_adj.cases) (simp_all add: different_tokens_def)
  then obtain t u where "p = Single t" "q = Single u"
    using is_singleE by blast
  then show ?thesis
    using choice_of_tokens [of t u "map (result_type f) qs"] pats pq(3) by simp
qed

lemma never_cached:
  assumes "never_cached pat"
  shows "\<not> is_cached python_grammar pat"
proof (cases pat)
  case (Rule r)
  then show ?thesis
    using assms by (simp add: never_cached_def is_cached_def cached_type_def type_of_file)
next
  case (Or pats)
  then show ?thesis
    using assms choice_different by (simp add: never_cached_def is_cached_def cached_type_def)
next
  case (Zero_or_more pats)
  then obtain q qs where pats: "pats = q # qs"
    using assms by (cases pats) (auto simp: never_cached_def)
  show ?thesis
  proof (cases qs)
    case Nil
    show ?thesis
    proof (cases q)
      case (Rule r)
      then show ?thesis
        using assms type_of_rule [of r] Zero_or_more pats Nil
        by (auto simp: never_cached_def is_cached_def cached_type_def sequence_type_def)
    next
      case (Or us)
      then show ?thesis
        using assms choice_different [of us] Zero_or_more pats Nil
        by (simp add: never_cached_def is_cached_def cached_type_def sequence_type_def)
    qed (use assms Zero_or_more pats Nil in
      \<open>simp_all add: never_cached_def is_cached_def cached_type_def sequence_type_def\<close>)
  next
    case (Cons q' qs')
    then show ?thesis
      using Zero_or_more pats by (simp add: is_cached_def cached_type_def sequence_type_def)
  qed
qed (use assms in \<open>simp_all add: never_cached_def is_cached_def cached_type_def\<close>)

section \<open>The engine on this grammar\<close>

lemma parser_pattern:
  assumes "pat \<in> parser_patterns"
  shows "repeats_consume below_file pat" and "lookahead_uncached python_grammar pat"
    and "is_cached python_grammar pat \<Longrightarrow> avoids below_file DEDENT None pat"
proof -
  have "list_all well_formed_pattern (all_patterns python_rules start_patterns)"
    unfolding list_all_patterns using python_patterns python_start by simp
  then have w: "well_formed_pattern pat"
    using assms by (simp add: parser_patterns_def list_all_iff)
  have "\<not> is_cached python_grammar (Rule ''TLookahead'')"
    by (simp add: is_cached_def cached_type_def type_of_lookahead)
  then show "lookahead_uncached python_grammar pat"
    using w never_cached
    by (auto simp: well_formed_pattern_def simple_lookahead_def lookahead_uncached_def split: pattern.splits)
  show "repeats_consume below_file pat" and "is_cached python_grammar pat \<Longrightarrow> avoids below_file DEDENT None pat"
    using w never_cached by (auto simp: well_formed_pattern_def)
qed

lemma parser_closed: "closed_patterns python_grammar parser_patterns"
  unfolding python_grammar_def parser_patterns_def
  by (rule closed_all_patterns)
    (use parser_pattern(2) in \<open>simp add: parser_patterns_def python_grammar_def list_all_iff\<close>)

lemma rules_all:
  "list_all (\<lambda>(r, x). P r x) rules \<Longrightarrow> map_of rules r = Some x \<Longrightarrow> P r x"
  by (auto simp: list_all_iff dest!: map_of_SomeD)

lemma parser_consumes: "closed_consumes python_grammar below_file"
  unfolding closed_consumes_def python_grammar_def
  using rules_all [OF python_consumes] by (fastforce simp: list_all_iff)

lemma parser_avoids: "closed_avoids python_grammar below_file DEDENT None"
  unfolding closed_avoids_def python_grammar_def
  using rules_all [OF python_avoids] by (fastforce simp: list_all_iff)

lemma parser_ranked: "ranked python_grammar below_file rule_level"
  unfolding ranked_def python_grammar_def
  using rules_all [OF python_levels] by (fastforce simp: list_all_iff)

lemma parser_apart: "distinct_places DEDENT inp \<Longrightarrow> apart python_grammar parser_patterns inp"
  by (rule apartI [OF parser_avoids parser_pattern(3)])

lemma finite_parser_patterns: "finite parser_patterns"
  by (simp add: parser_patterns_def)

interpretation python: terminating_grammar python_grammar parser_patterns below_file rule_level
  by unfold_locales
    (simp_all add: finite_parser_patterns parser_closed parser_consumes parser_ranked parser_pattern(1))

lemma start_patterns_parser: "set start_patterns \<subseteq> parser_patterns"
  unfolding parser_patterns_def by (auto intro: start_patterns)

lemma parser_sequence_holds:
  "set pats \<subseteq> parser_patterns \<Longrightarrow>
   holds (matched_all python_grammar parser_patterns inp pats new_parser)
     (failed python_grammar parser_patterns inp new_parser) (raised python_grammar inp) (match_all n inp pats)"
  unfolding match_all_def by (rule new_match_holds [OF parser_closed])

lemma parser_sequence_halts:
  "distinct_places DEDENT inp \<Longrightarrow> set pats \<subseteq> parser_patterns \<Longrightarrow> halts (\<lambda>n. match_all n inp pats)"
  unfolding match_all_def by (rule python.new_match_halts [OF parser_apart])

lemma parser_starts:
  "set [Rule ''FilePattern''] \<subseteq> parser_patterns"
  "set [Rule ''ExpressionsPattern'', Zero_or_more [Single NEWLINE], Single ENDMARKER] \<subseteq> parser_patterns"
  "set [Rule ''StarExpressionPattern''] \<subseteq> parser_patterns"
  using start_patterns_parser by (simp_all add: start_patterns_def)

lemma expressions_rule: "python_grammar ''ExpressionsPattern'' = Some ExpressionsPattern"
  by (simp add: python_grammar_def python_rules_def)

lemma derives_expressions: "derives python_grammar inp (Rule ''ExpressionsPattern'') i k v \<Longrightarrow> \<exists>es. v = Vector es"
  by (auto elim!: derives_RuleE derives_all_ConsE derives_SeparatedE
      simp: expressions_rule ExpressionsPattern_def pick_def)

section \<open>Properties\<close>

text \<open>C2: The parser ends. From some bound on \<^verbatim>\<open>Parser::parse\<close>, \<^verbatim>\<open>parse_expression\<close> and \<^verbatim>\<open>parse_fstring\<close>
  return, and always the same, for all tokens of which no two but \<^verbatim>\<open>DEDENT\<close>s have the same start and
  type.\<close>

theorem parser_terminates:
  assumes "distinct_places DEDENT inp"
  shows "\<exists>n. parse n inp \<noteq> Diverges \<and> parse_expression n inp \<noteq> Diverges \<and> parse_fstring n inp \<noteq> Diverges \<and>
    (\<forall>k \<ge> n. parse k inp = parse n inp \<and> parse_expression k inp = parse_expression n inp \<and>
      parse_fstring k inp = parse_fstring n inp)"
proof -
  note seq = parser_sequence_halts [OF assms]
  have "halts (\<lambda>n. parse n inp)" and "halts (\<lambda>n. parse_expression n inp)" and "halts (\<lambda>n. parse_fstring n inp)"
    unfolding parse_def parse_expression_def parse_fstring_def Let_def
    by (intro halts_then_match halts_const seq parser_starts; simp)+
  then obtain a b c x y z where
    "x \<noteq> Diverges" "\<forall>k \<ge> a. parse k inp = x" "y \<noteq> Diverges" "\<forall>k \<ge> b. parse_expression k inp = y"
    "z \<noteq> Diverges" "\<forall>k \<ge> c. parse_fstring k inp = z"
    unfolding halts_def by blast
  then show ?thesis
    by (intro exI [of _ "max a (max b c)"]) simp
qed



text \<open>The rules from which a comparison can begin. None begins with \<^verbatim>\<open>not\<close>.\<close>

definition comparison_rules :: "string list" where
  "comparison_rules =
     [''ComparissonPattern'', ''BitwiseOrPattern'', ''BitwiseXorPattern'', ''BitwiseAndPattern'', ''ShiftExprPattern'',
      ''SumPattern'', ''TermPattern'', ''FactorPattern'', ''PowerPattern'', ''AwaitPrimaryPattern'', ''PrimaryPattern'',
      ''AtomPattern'', ''NAMEPattern'', ''StringsPattern'', ''FStringPattern'', ''StringPattern'', ''TuplePattern'',
      ''GroupPattern'', ''GenexPattern'', ''ListPattern'', ''ListCompPattern'', ''DictPattern'', ''SetPattern'',
      ''DictCompPattern'', ''SetCompPattern'']"

definition in_comparison :: "string \<Rightarrow> bool" where
  "in_comparison r \<longleftrightarrow> r \<in> set comparison_rules"

lemma python_comparisons:
  "list_all (\<lambda>(r, x). in_comparison r \<longrightarrow>
     list_all (\<lambda>(pats, act). avoids_all in_comparison NAME (Some ''not'') pats) (alternatives x))
     python_rules"
  by code_simp

lemma comparison_avoids: "closed_avoids python_grammar in_comparison NAME (Some ''not'')"
  unfolding closed_avoids_def python_grammar_def
  using rules_all [OF python_comparisons] by (fastforce simp: list_all_iff)

lemma rule_of:
  "python_grammar ''InversionPattern'' = Some InversionPattern"
  "python_grammar ''LambdaStarEtcPattern'' = Some LambdaStarEtcPattern"
  "python_grammar ''AssignmentPattern'' = Some AssignmentPattern"
  "python_grammar ''FStringReplacementFieldPattern'' = Some FStringReplacementFieldPattern"
  by (simp_all add: python_grammar_def python_rules_def)

definition word_at :: "input \<Rightarrow> nat \<Rightarrow> string \<Rightarrow> bool" where
  "word_at inp i w \<longleftrightarrow> at_token inp i NAME (Some w)"

lemma no_comparison_not: "word_at inp i ''not'' \<Longrightarrow> \<not> derives python_grammar inp (Rule ''ComparissonPattern'') i k v"
  using derives_avoids(1) [OF comparison_avoids, of inp "Rule ''ComparissonPattern''" i k v]
  by (auto simp: word_at_def comparison_rules_def in_comparison_def)


section \<open>Witnesses\<close>

definition spot :: "nat \<Rightarrow> nat \<Rightarrow> nat \<Rightarrow> position" where
  "spot r c i = \<lparr>row = r, column = c, pointer_to_program = i\<rparr>"

text \<open>The tokens of two nested blocks, which end at the same spot.\<close>

definition nested_blocks :: input where
  "nested_blocks =
     \<lparr>program = ''if a:'' @ [CHR 0x0A] @ '' if b:'' @ [CHR 0x0A] @ ''  c'' @ [CHR 0x0A],
      tokens =
        [\<lparr>m_token_type = NAME, m_start = spot 0 0 0, m_end = spot 0 2 2\<rparr>,
         \<lparr>m_token_type = NAME, m_start = spot 0 3 3, m_end = spot 0 4 4\<rparr>,
         \<lparr>m_token_type = COLON, m_start = spot 0 4 4, m_end = spot 0 5 5\<rparr>,
         \<lparr>m_token_type = NEWLINE, m_start = spot 0 5 5, m_end = spot 1 0 6\<rparr>,
         \<lparr>m_token_type = INDENT, m_start = spot 1 0 6, m_end = spot 1 1 7\<rparr>,
         \<lparr>m_token_type = NAME, m_start = spot 1 1 7, m_end = spot 1 3 9\<rparr>,
         \<lparr>m_token_type = NAME, m_start = spot 1 4 10, m_end = spot 1 5 11\<rparr>,
         \<lparr>m_token_type = COLON, m_start = spot 1 5 11, m_end = spot 1 6 12\<rparr>,
         \<lparr>m_token_type = NEWLINE, m_start = spot 1 6 12, m_end = spot 2 0 13\<rparr>,
         \<lparr>m_token_type = INDENT, m_start = spot 2 0 13, m_end = spot 2 2 15\<rparr>,
         \<lparr>m_token_type = NAME, m_start = spot 2 2 15, m_end = spot 2 3 16\<rparr>,
         \<lparr>m_token_type = NEWLINE, m_start = spot 2 3 16, m_end = spot 3 0 17\<rparr>,
         \<lparr>m_token_type = DEDENT, m_start = spot 3 0 17, m_end = spot 3 0 17\<rparr>,
         \<lparr>m_token_type = DEDENT, m_start = spot 3 0 17, m_end = spot 3 0 17\<rparr>,
         \<lparr>m_token_type = ENDMARKER, m_start = spot 3 0 17, m_end = spot 3 0 17\<rparr>],
      utf8 = (\<lambda>_. []), big_int = (\<lambda>_ _. None)\<rparr>"

lemma nested_blocks_places: "distinct_places DEDENT nested_blocks"
  by code_simp

theorem parser_terminates_witness: "\<exists>n. parse n nested_blocks \<noteq> Diverges"
  using parser_terminates [OF nested_blocks_places] by blast


end
