(* ===== verification/Left_Recursion.thy ===== *)
theory Left_Recursion
  imports Grammar
begin

text \<open>
  Left recursion. A rule with two alternatives, itself with an operator and an operand behind it, and an
  operand, is matched to the end of the chain of operands, and the value is built from the left: the seed in
  the cache fails the first alternative once, and then \<^verbatim>\<open>grow_lr\<close> adds an operator and an operand at a
  time.
\<close>

definition chain_rule :: "string \<Rightarrow> token_type \<Rightarrow> token_type \<Rightarrow> (value \<Rightarrow> value \<Rightarrow> value \<Rightarrow> value) \<Rightarrow> rule" where
  "chain_rule r op num f = \<lparr>traits = Ast, alternatives =
     [([Rule r, Single op, Single num], \<lambda>inp i vs. Return (f (vs ! 0) (vs ! 1) (vs ! 2))),
      ([Single num], \<lambda>inp i vs. Return (vs ! 0))]\<rparr>"

text \<open>The tokens from \<open>i\<close> on: an operand, and \<open>m\<close> times an operator and an operand.\<close>

definition type_at :: "input \<Rightarrow> nat \<Rightarrow> token_type \<Rightarrow> bool" where
  "type_at inp i t \<longleftrightarrow> (case peek_at inp i of None \<Rightarrow> False | Some tok \<Rightarrow> m_token_type tok = t)"

definition token_at :: "input \<Rightarrow> nat \<Rightarrow> value" where
  "token_at inp i = Token_result (tokens inp ! i)"

definition chain_at :: "input \<Rightarrow> token_type \<Rightarrow> token_type \<Rightarrow> nat \<Rightarrow> nat \<Rightarrow> bool" where
  "chain_at inp op num i m \<longleftrightarrow>
     type_at inp i num \<and> (\<forall>j < m. type_at inp (i + 2 * j + 1) op \<and> type_at inp (i + 2 * j + 2) num)"

primrec left_chain :: "input \<Rightarrow> (value \<Rightarrow> value \<Rightarrow> value \<Rightarrow> value) \<Rightarrow> nat \<Rightarrow> nat \<Rightarrow> value" where
  "left_chain inp f i 0 = token_at inp i"
| "left_chain inp f i (Suc m) = f (left_chain inp f i m) (token_at inp (i + 2 * m + 1)) (token_at inp (i + 2 * m + 2))"

lemma updates [simp]:
  "token_position (move_to i p) = i"
  "m_cache (move_to i p) = m_cache p"
  "token_position (remember line e p) = token_position p"
  "m_cache (remember line e p) = (m_cache p)(line \<mapsto> e)"
  by (simp_all add: move_to_def remember_def)

lemma single_uncached [simp]: "\<not> is_cached g (Single t)"
  by (simp add: is_cached_def cached_type_def)

lemma match_single:
  "match_first g inp (matches (Suc n) g inp) (Single t) tail p =
     (if type_at inp (token_position p) t
      then advance_over (Single t) tail (token_at inp (token_position p)) p
      else Mismatch p)"
  by (auto simp: match_first_def type_at_def token_at_def match_pattern_def matches_impl_def single_token_def
      or_back_to_def move_to_def peek_at_def)

section \<open>One round\<close>

text \<open>What the rule matches, with a seed and with a result in the cache.\<close>

lemma type_at_peek: "type_at inp i t \<Longrightarrow> peek_at inp i = Some (tokens inp ! i)"
  by (auto simp: type_at_def peek_at_def split: if_splits)

lemma chain_cached: "g r = Some (chain_rule r op num f) \<Longrightarrow> is_cached g (Rule r)"
  by (simp add: is_cached_def cached_type_def rule_type_def chain_rule_def)

lemma round_with_seed:
  assumes "g r = Some (chain_rule r op num f)" and "type_at inp i num" and "token_position q = i"
    and "m_cache q (key_of (Rule r) (tokens inp ! i)) = Some (Some (Seed b i))"
  shows "matches_impl g inp n (matches (Suc k) g inp) (Rule r) q =
    Match (token_at inp i)
      (move_to (i + 1) (remember (key_of (Rule r) (tokens inp ! i)) (Some (Seed True i)) q))"
  using assms type_at_peek [OF assms(2)] chain_cached [of g r op num f]
  by (simp add: matches_impl_def chain_rule_def match_def match_first_def [of _ _ _ "Rule r"] match_single
      or_back_to_def advance_over_def advance_by_def move_to_def remember_def)

lemma round_with_result:
  assumes "g r = Some (chain_rule r op num f)" and "type_at inp i num" and "token_position q = i"
    and "m_cache q (key_of (Rule r) (tokens inp ! i)) = Some (Some (Memo v k))"
  shows "matches_impl g inp n (matches (Suc l) g inp) (Rule r) q =
    (if type_at inp k op \<and> type_at inp (k + 1) num
     then Match (f v (token_at inp k) (token_at inp (k + 1))) (move_to (k + 2) q)
     else Match (token_at inp i) (move_to (i + 1) q))"
  using assms type_at_peek [OF assms(2)] chain_cached [of g r op num f]
  by (simp add: matches_impl_def chain_rule_def match_def match_first_def [of _ _ _ "Rule r"] match_single
      or_back_to_def advance_over_def advance_by_def move_to_def remember_def)

section \<open>The whole chain\<close>

lemma chain_prefix: "chain_at inp op num i m \<Longrightarrow> j < m \<Longrightarrow> type_at inp (i + 2 * j + 1) op \<and> type_at inp (i + 2 * j + 2) num"
  by (simp add: chain_at_def)

lemma grow_chain:
  assumes rule: "g r = Some (chain_rule r op num f)" and chain: "chain_at inp op num i m"
    and ends: "\<not> (type_at inp (i + 2 * m + 1) op \<and> type_at inp (i + 2 * m + 2) num)"
    and "j \<le> m" and "m_cache q (key_of (Rule r) (tokens inp ! i)) = Some (Some (Memo (left_chain inp f i j) (i + 2 * j + 1)))"
    and "m - j < N"
  shows "\<exists>q'. grow_lr N (matches_impl g inp n (matches (Suc l) g inp) (Rule r)) (key_of (Rule r) (tokens inp ! i)) i q =
    Match (left_chain inp f i m) q' \<and> token_position q' = i + 2 * m + 1"
  using assms(4-6)
proof (induction N arbitrary: j q)
  case (Suc N)
  let ?line = "key_of (Rule r) (tokens inp ! i)"
  let ?impl = "matches_impl g inp n (matches (Suc l) g inp) (Rule r)"
  have num: "type_at inp i num"
    using chain by (simp add: chain_at_def)
  have "m_cache (move_to i q) ?line = Some (Some (Memo (left_chain inp f i j) (i + 2 * j + 1)))"
    using Suc.prems(2) by simp
  then have round: "?impl (move_to i q) = (if type_at inp (i + 2 * j + 1) op \<and> type_at inp (i + 2 * j + 2) num
      then Match (f (left_chain inp f i j) (token_at inp (i + 2 * j + 1)) (token_at inp (i + 2 * j + 2)))
        (move_to (i + 2 * j + 3) (move_to i q))
      else Match (token_at inp i) (move_to (i + 1) (move_to i q)))"
    using round_with_result [of g r op num f inp i "move_to i q" "left_chain inp f i j" "i + 2 * j + 1" n l] rule num
    by (simp add: eval_nat_numeral)
  show ?case
  proof (cases "j = m")
    case True
    then have "?impl (move_to i q) = Match (token_at inp i) (move_to (i + 1) (move_to i q))"
      using round ends unfolding True by (simp only: if_False)
    then show ?thesis
      using Suc.prems(2) True by (simp add: Let_def del: matches.simps)
  next
    case False
    then have more: "type_at inp (i + 2 * j + 1) op" "type_at inp (i + 2 * j + 2) num" and "Suc j \<le> m"
      using chain_prefix [OF chain, of j] Suc.prems(1) by simp_all
    let ?q = "remember ?line (Some (Memo (left_chain inp f i (Suc j)) (i + 2 * Suc j + 1))) (move_to (i + 2 * Suc j + 1) (move_to i q))"
    have "m - Suc j < N"
      using Suc.prems(3) \<open>Suc j \<le> m\<close> by simp
    then have "\<exists>q'. grow_lr N ?impl ?line i ?q = Match (left_chain inp f i m) q' \<and> token_position q' = i + 2 * m + 1"
      using \<open>Suc j \<le> m\<close> by (intro Suc.IH) simp_all
    then show ?thesis
      using more round Suc.prems(2) by (simp add: Let_def eval_nat_numeral del: matches.simps)
  qed
qed simp


section \<open>Witness\<close>

definition number_at :: "nat \<Rightarrow> token_type \<Rightarrow> token" where
  "number_at i t = \<lparr>m_token_type = t, m_start = \<lparr>row = 0, column = i, pointer_to_program = i\<rparr>,
     m_end = \<lparr>row = 0, column = i + 1, pointer_to_program = i + 1\<rparr>\<rparr>"

text \<open>The tokens of \<^verbatim>\<open>1-2-3\<close>.\<close>

definition differences :: input where
  "differences =
     \<lparr>program = ''1-2-3'',
      tokens = [number_at 0 NUMBER, number_at 1 MINUS, number_at 2 NUMBER, number_at 3 MINUS, number_at 4 NUMBER,
        number_at 5 ENDMARKER],
      utf8 = (\<lambda>_. []), big_int = (\<lambda>_ _. None)\<rparr>"


end
