(* ===== verification/Literal_Props.thy ===== *)
theory Literal_Props
  imports Literals
begin

text \<open>
  Writing a text as a literal and reading it back, and literals that are read wrongly.
\<close>

section \<open>Writing literals\<close>

text \<open>The escapes that suffice between quotes.\<close>

definition escaped :: "char \<Rightarrow> string" where
  "escaped c =
     (if c = CHR 0x5C then [CHR 0x5C, CHR 0x5C]
      else if c = CHR 0x27 then [CHR 0x5C, CHR 0x27]
      else if c = CHR 0x22 then [CHR 0x5C, CHR 0x22]
      else if c = CHR 0x0A then [CHR 0x5C, CHR ''n'']
      else [c])"

definition escape_text :: "string \<Rightarrow> string" where
  "escape_text s = concat (map escaped s)"

fun double_braces :: "string \<Rightarrow> string" where
  "double_braces [] = []"
| "double_braces (c # s) = (if c \<in> {CHR ''{'', CHR ''}''} then c # c # double_braces s else c # double_braces s)"

lemma escape_text_simps [simp]: "escape_text [] = []" "escape_text (c # s) = escaped c @ escape_text s"
  by (simp_all add: escape_text_def)

lemma unescape_escaped: "unescape_string utf8 (escaped c @ s) = and_then (unescape_string utf8 s) (\<lambda>u. Ok (c # u))"
  by (simp add: escaped_def string_escape_def simple_escape_def)

lemma unescape_bytes_escaped: "unescape_bytes (escaped c @ s) = and_then (unescape_bytes s) (\<lambda>u. Ok (c # u))"
  by (simp add: escaped_def bytes_escape_def simple_escape_def)

lemma unescape_escape_text: "unescape_string utf8 (escape_text s) = Ok s"
  by (induction s) (simp_all add: unescape_escaped)

lemma unescape_bytes_escape_text: "unescape_bytes (escape_text s) = Ok s"
  by (induction s) (simp_all add: unescape_bytes_escaped)

lemma unescape_plain: "CHR 0x5C \<notin> set s \<Longrightarrow> unescape_string utf8 s = Ok s"
  by (induction s) auto

text \<open>An escaped text does not begin with a quote, so it is not taken for a triple quoted one.\<close>

lemma escaped_first: "\<exists>d t. escaped c = d # t \<and> \<not> is_quote d"
  by (auto simp: escaped_def is_quote_def)

lemma escaped_not_triple: "\<not> triple_quoted (q # escape_text s @ [q])"
proof (cases s)
  case (Cons c t)
  then show ?thesis
    using escaped_first [of c] by (auto simp: triple_quoted_def)
qed (simp add: triple_quoted_def)

lemma unquoted_one [simp]: "unquoted 1 (q # s @ [q]) = s"
  by (simp add: unquoted_def)

lemma read_string: "q \<noteq> CHR ''r'' \<Longrightarrow> parse_string utf8 (q # escape_text s @ [q]) = Ok s"
  by (simp add: parse_string_def escaped_not_triple unescape_escape_text del: unquoted_one)
    (simp add: unquoted_def unescape_escape_text)

lemma read_bytes: "parse_bytes (CHR ''b'' # q # escape_text s @ [q]) = Some (Ok s)"
  by (simp add: parse_bytes_def escaped_not_triple unescape_bytes_escape_text del: unquoted_one)
    (simp add: unquoted_def unescape_bytes_escape_text)

lemma undouble_other: "c \<notin> {CHR ''{'', CHR ''}''} \<Longrightarrow> undouble_braces (c # s) = c # undouble_braces s"
  by (cases s) auto

lemma undouble_double: "undouble_braces (double_braces s) = s"
  by (induction s) (auto simp: undouble_other)

section \<open>Properties\<close>



end
