(* ===== verification/Spec2Isabelle.thy ===== *)
theory Spec2Isabelle
  imports Tagged_Ops Call_Binding_Props Lexer_Props Ranges List_Sort Arena_Manager Garbage_Sweep Linear_Scan_Props Method_Caches Mro_Props Dict_Props Resolver_Results Parser_Props Left_Recursion Literal_Props
begin

text \<open>
  A verification library for pylang, an implementation of Python in C++ (\<^verbatim>\<open>src/src\<close>).

  A program is read by the lexer (\<^verbatim>\<open>lexer\<close>) and the parser (\<^verbatim>\<open>parser\<close>) into a tree; the names of the tree
  are resolved (\<^verbatim>\<open>executable/bytecode/codegen/VariablesResolver\<close>) and mangled (\<^verbatim>\<open>executable/Mangler\<close>),
  and code is generated by one of three back ends: an older one for a virtual machine with registers,
  one on MLIR with its own register allocation, and the current one, which emits LLVM code. All of them
  call the runtime (\<^verbatim>\<open>runtime\<close>): objects, types, containers, calls, and the exported functions
  \<^verbatim>\<open>rt_...\<close> with their tagged pointers and inline caches. Memory comes from arenas or from slabs with a
  mark-and-sweep collector (\<^verbatim>\<open>memory\<close>).

  How the theories correspond to the code:

  \<^item> \<open>Prelude\<close>: \<^verbatim>\<open>PyResult\<close> as a sum of a value, a Python exception and a fault of the C++ program (a
    failed assertion, \<^verbatim>\<open>TODO()\<close>, undefined behaviour), weakest preconditions over it, machine integers.
  \<^item> \<open>Lexer\<close>, \<open>Lexer_Strings\<close>, \<open>Lexer_Main\<close>: \<^verbatim>\<open>Lexer\<close> function by function, as state passing over the
    record of its fields. \<open>Lexer_Props\<close>: the loop ends, the invariant of the indentation and mode stacks,
    and one contract (a locale) that all the functions \<^verbatim>\<open>try_...\<close> keep.
  \<^item> \<open>Literals\<close>, \<open>Grammar\<close>, \<open>Parser_Expressions\<close>, \<open>Parser_Operators\<close>, \<open>Parser_Statements\<close>,
    \<open>Parser_Blocks\<close>: the escapes of literals, the engine of the parser (patterns, memo table, left
    recursion, lookahead), and every rule of \<^verbatim>\<open>Parser.cpp\<close>, a definition of the name of its class with the
    alternatives and the action of each. \<open>Grammar_Props\<close> (larger bounds change nothing),
    \<open>Grammar_Sound\<close> (derivations, and that a match has one), \<open>Grammar_Analysis\<close> and \<open>Grammar_Halts\<close>
    (conditions under which the engine ends) hold of any grammar, through the locales \<open>matcher\<close> and
    \<open>terminating_grammar\<close>; \<open>Parser_Props\<close> shows that the grammar of Python has the properties,
    \<open>Left_Recursion\<close> what a left recursive rule returns, \<open>Literal_Props\<close> what is read back.
  \<^item> \<open>Mangler\<close>, \<open>Resolver\<close>: the names of compiled functions, and the resolution of names over the tree.
    \<open>Resolver_Props\<close>, \<open>Resolver_Scopes\<close>, \<open>Resolver_Results\<close>: it ends, its scopes form a tree, and every
    free variable leads to a cell.
  \<^item> \<open>Liveness\<close>, \<open>Linear_Scan\<close>: the analysis and the register allocator of the MLIR back end.
    \<open>Liveness_Props\<close>, \<open>Linear_Scan_Props\<close>: the fixed point is exact, and when values share no register.
  \<^item> \<open>Numbers\<close>, \<open>Tagged\<close>, \<open>Tagged_Ops\<close>: \<^verbatim>\<open>PyNumber\<close>, \<^verbatim>\<open>PyInteger\<close>, \<^verbatim>\<open>RtValue\<close> and the exported
    operations, on words of 64 bits and an explicit heap; the results are those of exact integers.
  \<^item> \<open>Call_Binding\<close>: \<^verbatim>\<open>PyCode::eval\<close>, from the arguments of a call to the locals and cells of its frame.
    \<open>Call_Binding_Props\<close> reads a frame as a store of arguments (the locale \<open>argument_store\<close>) and says
    which calls are refused and what every parameter holds.
  \<^item> \<open>Slices\<close>, \<open>Ranges\<close>, \<open>Lists\<close>, \<open>List_Sort\<close>, \<open>Dicts\<close>: the containers, with both storages of a list and the
    ordered map of a dictionary as an interface. \<open>Dict_Props\<close>: a dictionary is an association list in the
    order of insertion.
  \<^item> \<open>Shapes\<close>, \<open>Attributes\<close>, \<open>Method_Caches\<close>, \<open>Mro\<close>: hidden classes, attribute access with inline caches,
    method calls, and the order of the bases. \<open>Attribute_Props\<close>, \<open>Mro_Props\<close>: caches change no result, and
    the order is found exactly if there is one.
  \<^item> \<open>Arenas\<close>, \<open>Arena_Manager\<close>, \<open>Slabs\<close>, \<open>Garbage\<close>: the allocators and the collector, on addresses.
    \<open>Garbage_Props\<close>, \<open>Garbage_Sweep\<close>: what the roots reach stays, the rest is freed once, and no
    interleaving with the program leaves a dangling reference.

  Interaction. The tokens of the lexer are the input of the parser model (\<open>tokens\<close> of its record
  \<open>input\<close>); the result type and the faults are shared by all; tagged words are the elements of lists and the
  keys of dictionaries; the method resolution order is the lookup of attributes and of methods, and shapes are
  the layout that the caches rely on.

  Bounds and parameters. The loops of the engine of the parser have a bound, the first argument of
  \<open>matches\<close>; for every input there is a bound (\<open>Parser_Props\<close>) from which on the result does not change. The
  hypothesis, that only \<^verbatim>\<open>DEDENT\<close> tokens share a start and a type, is assumed of the output of the lexer and
  not proved of it: the entries of the memo table are found by the start and the type of a token. Other loops are recursive functions with a
  measure, or are proved to end. Code outside the repository is a parameter: the encoding of a code point
  by ICU and the reading of big integers (\<open>utf8\<close>, \<open>big_int\<close> of the parser), floating point
  numbers (\<open>double_ops\<close>), \<^verbatim>\<open>tsl::ordered_map\<close> (the locale over its operations in \<open>Dict_Props\<close>),
  \<^verbatim>\<open>std::sort\<close>, and \<^verbatim>\<open>operator new\<close>, which may fail at any call.

  Not modelled: the generation of code, both for LLVM and for the virtual machine, and the dialects of MLIR,
  which are calls of libraries that are not in the repository or tables of instructions; the run of
  a frame in the virtual machine; the classes of the tree and their printing; strings, bytes, sets, floats,
  exceptions, generators and modules as objects of the runtime, beyond what the parts above use of them; the
  import of modules with the generated tables of \<^verbatim>\<open>runtime/frozen\<close>; input and output, threads, the driver and
  the terminal. Texts of messages and \<^verbatim>\<open>__repr__\<close> are left out throughout.
\<close>

end
